(* ===== verification/Iot_Prelude.thy ===== *)
theory Iot_Prelude
  imports Complex_Main "HOL-Library.Word"
begin

text \<open>
  Shared ground of the development.

  \<^item> Programs: a C function that reads and writes state is a function of type
    \<open>('s, 'a) prog\<close>. It either stops with a \<open>fault\<close> (a failed assertion, a NULL
    dereference, an access out of bounds, \<open>exit\<close>) or returns a value and the next state.
    The debug build is modelled, so \<open>IOTJS_ASSERT\<close> (\<^verbatim>\<open>src/iotjs_def.h\<close>) stops the program.
  \<^item> Weakest preconditions \<open>wp m Q s\<close>: run from \<open>s\<close>, the program \<open>m\<close> reaches no fault and
    ends in \<open>Q\<close>. The collection \<open>wp_simps\<close> computes them by rewriting.
  \<^item> Machine integers: the conversions between the C integer types that the sources perform,
    read through \<open>HOL-Library.Word\<close>, and the conversion of a JavaScript number to a C integer.
  \<^item> Lemmas on lists that several components share.
\<close>

named_theorems wp_simps "weakest preconditions of the program combinators"

section \<open>Programs\<close>

datatype fault =
    Assertion string
  | NullPointer string
  | OutOfBounds string
  | UseAfterFree string
  | Undefined string
  | Diverges string
  | Exits int

type_synonym ('s, 'a) prog = "'s \<Rightarrow> fault + 'a \<times> 's"

definition ret :: "'a \<Rightarrow> ('s, 'a) prog" where
  "ret x = (\<lambda>s. Inr (x, s))"

definition fail :: "fault \<Rightarrow> ('s, 'a) prog" where
  "fail e = (\<lambda>s. Inl e)"

definition bnd :: "('s, 'a) prog \<Rightarrow> ('a \<Rightarrow> ('s, 'b) prog) \<Rightarrow> ('s, 'b) prog" where
  "bnd m f = (\<lambda>s. case m s of Inl e \<Rightarrow> Inl e | Inr (x, s') \<Rightarrow> f x s')"

definition sq :: "('s, unit) prog \<Rightarrow> ('s, 'b) prog \<Rightarrow> ('s, 'b) prog" where
  "sq m n = bnd m (\<lambda>_. n)"

definition gets :: "('s \<Rightarrow> 'a) \<Rightarrow> ('s, 'a) prog" where
  "gets f = (\<lambda>s. Inr (f s, s))"

definition upd :: "('s \<Rightarrow> 's) \<Rightarrow> ('s, unit) prog" where
  "upd f = (\<lambda>s. Inr ((), f s))"

definition IOTJS_ASSERT :: "string \<Rightarrow> bool \<Rightarrow> ('s, unit) prog" where
  "IOTJS_ASSERT loc b = (if b then ret () else fail (Assertion loc))"

fun for_each :: "'a list \<Rightarrow> ('a \<Rightarrow> ('s, unit) prog) \<Rightarrow> ('s, unit) prog" where
  "for_each [] f = ret ()"
| "for_each (x # xs) f = sq (f x) (for_each xs f)"

text \<open>Threading a value through a list of operations.\<close>

fun fold_prog :: "('x \<Rightarrow> 'a \<Rightarrow> ('s, 'x) prog) \<Rightarrow> 'x \<Rightarrow> 'a list \<Rightarrow> ('s, 'x) prog" where
  "fold_prog f x [] = ret x"
| "fold_prog f x (a # as) = bnd (f x a) (\<lambda>y. fold_prog f y as)"

lemmas prog_defs = ret_def fail_def bnd_def sq_def gets_def upd_def IOTJS_ASSERT_def

subsection \<open>Weakest preconditions\<close>

definition wp :: "('s, 'a) prog \<Rightarrow> ('a \<Rightarrow> 's \<Rightarrow> bool) \<Rightarrow> 's \<Rightarrow> bool" where
  "wp m Q s = (case m s of Inl e \<Rightarrow> False | Inr (x, s') \<Rightarrow> Q x s')"

lemma wp_ret [wp_simps]: "wp (ret x) Q s = Q x s"
  by (simp add: wp_def ret_def)

lemma wp_fail [wp_simps]: "wp (fail e) Q s = False"
  by (simp add: wp_def fail_def)

lemma wp_bnd [wp_simps]: "wp (bnd m f) Q = wp m (\<lambda>x. wp (f x) Q)"
  by (rule ext) (simp add: wp_def bnd_def split: sum.splits prod.splits)

lemma wp_sq [wp_simps]: "wp (sq m n) Q = wp m (\<lambda>_. wp n Q)"
  by (simp add: sq_def wp_bnd)

lemma wp_gets [wp_simps]: "wp (gets f) Q s = Q (f s) s"
  by (simp add: wp_def gets_def)

lemma wp_upd [wp_simps]: "wp (upd f) Q s = Q () (f s)"
  by (simp add: wp_def upd_def)

lemma wp_assert [wp_simps]: "wp (IOTJS_ASSERT l b) Q s = (b \<and> Q () s)"
  by (simp add: IOTJS_ASSERT_def wp_ret wp_fail)

lemma wp_if [wp_simps]: "wp (if b then m else n) Q s = (if b then wp m Q s else wp n Q s)"
  by simp

lemma wp_mono: "wp m P s \<Longrightarrow> (\<And>x t. P x t \<Longrightarrow> Q x t) \<Longrightarrow> wp m Q s"
  by (auto simp: wp_def split: sum.splits prod.splits)

lemma wp_conj: "wp m P s \<Longrightarrow> wp m Q s \<Longrightarrow> wp m (\<lambda>x t. P x t \<and> Q x t) s"
  by (auto simp: wp_def split: sum.splits prod.splits)

lemma wp_runs: "wp m Q s \<longleftrightarrow> (\<exists>x t. m s = Inr (x, t) \<and> Q x t)"
  by (auto simp: wp_def split: sum.splits prod.splits)

lemma wp_runsD: "m s = Inr (x, t) \<Longrightarrow> wp m Q s = Q x t"
  by (simp add: wp_def)

lemma wp_eqD: "wp m (\<lambda>x t. (x, t) = (y, u)) s \<Longrightarrow> m s = Inr (y, u)"
  by (auto simp: wp_runs)

text \<open>Running a sequence step by step, for concrete evaluation and for fault claims.\<close>

lemma bnd_Inr: "m s = Inr (x, t) \<Longrightarrow> bnd m f s = f x t"
  by (simp add: bnd_def)

lemma bnd_Inl: "m s = Inl e \<Longrightarrow> bnd m f s = Inl e"
  by (simp add: bnd_def)

lemma bnd_assoc: "bnd (bnd m f) g = bnd m (\<lambda>x. bnd (f x) g)"
  by (rule ext) (simp add: bnd_def split: sum.splits prod.splits)

lemma bnd_ret_left: "bnd (ret x) f = f x"
  by (rule ext) (simp add: bnd_def ret_def)

lemma bnd_ret_right: "bnd m ret = m"
  by (rule ext) (simp add: bnd_def ret_def split: sum.splits prod.splits)

text \<open>The loop rule: an invariant over the part of the list already visited.\<close>

lemma wp_for_each:
  assumes "I [] s"
    and "\<And>ys x t. I ys t \<Longrightarrow> wp (f x) (\<lambda>_. I (ys @ [x])) t"
  shows "wp (for_each xs f) (\<lambda>_. I xs) s"
proof -
  have "wp (for_each xs f) (\<lambda>_. I (ys @ xs)) t" if "I ys t" for ys t
    using that
  proof (induction xs arbitrary: ys t)
    case Nil
    then show ?case by (simp add: wp_simps)
  next
    case (Cons x xs)
    have "wp (f x) (\<lambda>_. wp (for_each xs f) (\<lambda>_. I (ys @ x # xs))) t"
      using assms(2)[OF Cons.prems] Cons.IH[of "ys @ [x]"]
      by (auto intro: wp_mono)
    then show ?case by (simp add: wp_simps)
  qed
  from this[of "[]" s] assms(1) show ?thesis by simp
qed

section \<open>C integers\<close>

text \<open>
  C integers are represented by the mathematical integers in their range; a conversion to a
  type of \<open>w\<close> bits goes through \<open>'w word\<close>. \<open>size_t\<close> has 64 bits and \<open>int\<close> and
  \<open>unsigned\<close> have 32 (the Linux targets of \<^verbatim>\<open>src/platform\<close>).
\<close>

definition c_int32 :: "int \<Rightarrow> int" where
  "c_int32 x = sint (word_of_int x :: 32 word)"

definition c_uint32 :: "int \<Rightarrow> int" where
  "c_uint32 x = uint (word_of_int x :: 32 word)"

definition c_uint16 :: "int \<Rightarrow> int" where
  "c_uint16 x = uint (word_of_int x :: 16 word)"

definition c_uint8 :: "int \<Rightarrow> int" where
  "c_uint8 x = uint (word_of_int x :: 8 word)"

definition c_size :: "int \<Rightarrow> int" where
  "c_size x = uint (word_of_int x :: 64 word)"

definition in_int32 :: "int \<Rightarrow> bool" where
  "in_int32 x \<longleftrightarrow> - (2 ^ 31) \<le> x \<and> x < 2 ^ 31"

lemma c_int32_id [simp]: "- (2 ^ 31) \<le> x \<Longrightarrow> x < 2 ^ 31 \<Longrightarrow> c_int32 x = x"
  by (simp add: c_int32_def int_word_sint)

lemma c_size_id [simp]: "0 \<le> x \<Longrightarrow> x < 2 ^ 64 \<Longrightarrow> c_size x = x"
  by (simp add: c_size_def uint_word_of_int)

lemma c_uint32_id [simp]: "0 \<le> x \<Longrightarrow> x < 2 ^ 32 \<Longrightarrow> c_uint32 x = x"
  by (simp add: c_uint32_def uint_word_of_int)

lemma c_uint16_id [simp]: "0 \<le> x \<Longrightarrow> x < 2 ^ 16 \<Longrightarrow> c_uint16 x = x"
  by (simp add: c_uint16_def uint_word_of_int)

lemma c_uint8_id [simp]: "0 \<le> x \<Longrightarrow> x < 2 ^ 8 \<Longrightarrow> c_uint8 x = x"
  by (simp add: c_uint8_def uint_word_of_int)

lemma c_uint8_range: "0 \<le> c_uint8 x \<and> c_uint8 x < 256"
  using uint_lt2p[of "word_of_int x :: 8 word"] by (simp add: c_uint8_def)

lemma c_int32_range: "in_int32 (c_int32 x)"
  using sint_ge[of "word_of_int x :: 32 word"] sint_lt[of "word_of_int x :: 32 word"]
  by (simp add: c_int32_def in_int32_def)

subsection \<open>JavaScript numbers\<close>

text \<open>
  A JavaScript number is a C \<open>double\<close>. The conversions to integer types that the handlers
  perform truncate towards zero; outside the range of the target type C leaves them undefined
  (C11 6.3.1.4), which is a fault here.
\<close>

datatype double = Finite rat | Infinity bool | NaN

definition c_trunc :: "rat \<Rightarrow> int" where
  "c_trunc r = (if 0 \<le> r then \<lfloor>r\<rfloor> else \<lceil>r\<rceil>)"

definition double_to_int :: "int \<Rightarrow> int \<Rightarrow> double \<Rightarrow> ('s, int) prog" where
  "double_to_int lo hi d =
     (case d of
        Finite r \<Rightarrow> (if lo \<le> c_trunc r \<and> c_trunc r < hi then ret (c_trunc r)
                     else fail (Undefined ''double to integer''))
      | _ \<Rightarrow> fail (Undefined ''double to integer''))"

definition num :: "int \<Rightarrow> double" where
  "num i = Finite (of_int i)"

lemma c_trunc_of_int [simp]: "c_trunc (of_int i) = i"
  by (simp add: c_trunc_def)

lemma c_trunc_numeral [simp]:
  "c_trunc 0 = 0" "c_trunc 1 = 1" "c_trunc (numeral k) = numeral k"
  using c_trunc_of_int[of 0] c_trunc_of_int[of 1] c_trunc_of_int[of "numeral k"] by simp_all

lemma double_to_int_num [simp]:
  "lo \<le> i \<Longrightarrow> i < hi \<Longrightarrow> double_to_int lo hi (num i) = ret i"
  by (simp add: double_to_int_def num_def)

lemma wp_double_to_int [wp_simps]:
  "wp (double_to_int lo hi d) Q s \<longleftrightarrow>
     (\<exists>r. d = Finite r \<and> lo \<le> c_trunc r \<and> c_trunc r < hi \<and> Q (c_trunc r) s)"
  by (auto simp: double_to_int_def wp_ret wp_fail split: double.split)

abbreviation to_int :: "double \<Rightarrow> ('s, int) prog" where
  "to_int \<equiv> double_to_int (- (2 ^ 31)) (2 ^ 31)"

section \<open>Lists\<close>

lemma take_append_drop_nth: "n < length xs \<Longrightarrow> take (Suc n) xs = take n xs @ [xs ! n]"
  by (rule take_Suc_conv_app_nth)

lemma list_update_append_take_drop:
  "i < length xs \<Longrightarrow> xs[i := x] = take i xs @ x # drop (Suc i) xs"
  by (rule upd_conv_take_nth_drop)

end
