(* ===== verification/Iot_Runtime.thy ===== *)
theory Iot_Runtime
  imports Iot_Prelude
begin

text \<open>
  The state every component shares, and the boundary to the code that is not in the repository.

  JerryScript (\<^verbatim>\<open>jerry_*\<close>) and libuv (\<^verbatim>\<open>uv_*\<close>) are submodules that the repository does not hold.
  They are parameters: the record \<open>engine\<close> gives the answer of each call as a function of the
  calls made before it. The C code is modelled by what it does at this boundary: \<open>trace\<close> is the
  sequence of the calls it made with their answers, in order, and \<open>blocks\<close> counts the heap blocks
  it owns (\<^verbatim>\<open>iotjs_buffer_allocate\<close> less \<^verbatim>\<open>iotjs_buffer_release\<close>, \<^verbatim>\<open>src/iotjs_util.c\<close>).

  \<open>owned\<close> is the specification side: the number of references to a JavaScript value the C code
  holds after a trace, from the documented contract of the API (a created, acquired or returned
  value is one reference that the caller has to release).
\<close>

section \<open>Values and events\<close>

datatype jval =
    JUndefined
  | JNull
  | JBool bool
  | JNumber double
  | JString string
  | JObject nat
  | JArray nat
  | JFunction nat

text \<open>The type predicates \<^verbatim>\<open>jerry_value_is_*\<close>: arrays and functions are objects.\<close>

fun is_object :: "jval \<Rightarrow> bool" where
  "is_object (JObject _) = True"
| "is_object (JArray _) = True"
| "is_object (JFunction _) = True"
| "is_object _ = False"

fun is_array :: "jval \<Rightarrow> bool" where
  "is_array (JArray _) = True"
| "is_array _ = False"

fun is_function :: "jval \<Rightarrow> bool" where
  "is_function (JFunction _) = True"
| "is_function _ = False"

fun is_number :: "jval \<Rightarrow> bool" where
  "is_number (JNumber _) = True"
| "is_number _ = False"

fun is_string :: "jval \<Rightarrow> bool" where
  "is_string (JString _) = True"
| "is_string _ = False"

fun is_boolean :: "jval \<Rightarrow> bool" where
  "is_boolean (JBool _) = True"
| "is_boolean _ = False"

text \<open>
  One event is one call across the boundary. \<open>ESys c r\<close> is the system or libuv call \<open>c\<close>
  (each module has its own type of them) with result \<open>r\<close>.
\<close>

datatype iotjs_error_t =
    IOTJS_ERROR_COMMON
  | IOTJS_ERROR_EVAL
  | IOTJS_ERROR_RANGE
  | IOTJS_ERROR_REFERENCE
  | IOTJS_ERROR_SYNTAX
  | IOTJS_ERROR_TYPE
  | IOTJS_ERROR_URI

datatype 'c ev =
    ECreate jval
  | EAcquire jval
  | ERelease jval
  | ESetProp jval string jval
  | EGetProp jval string jval
  | ECreateError jval iotjs_error_t string
  | ESetIndex jval nat jval
  | EGetIndex jval nat jval
  | ESetNative jval nat
  | ECall jval jval "jval list" bool jval
  | EEval string bool jval
  | ESys 'c int

record 'c engine =
  e_new :: "'c ev list \<Rightarrow> nat"
  e_set :: "'c ev list \<Rightarrow> jval \<Rightarrow> string \<Rightarrow> jval \<Rightarrow> bool"
  e_set_index :: "'c ev list \<Rightarrow> jval \<Rightarrow> nat \<Rightarrow> jval \<Rightarrow> bool"
  e_prop :: "'c ev list \<Rightarrow> jval \<Rightarrow> string \<Rightarrow> bool \<times> jval"
  e_index :: "'c ev list \<Rightarrow> jval \<Rightarrow> nat \<Rightarrow> bool \<times> jval"
  e_native :: "'c ev list \<Rightarrow> jval \<Rightarrow> nat"
  e_call :: "'c ev list \<Rightarrow> jval \<Rightarrow> jval \<Rightarrow> jval list \<Rightarrow> bool \<times> jval"
  e_eval :: "'c ev list \<Rightarrow> string \<Rightarrow> bool \<times> jval"
  e_sys :: "'c ev list \<Rightarrow> 'c \<Rightarrow> int"

record 'c rt =
  trace :: "'c ev list"
  blocks :: int

text \<open>
  The flag in the answers of \<open>e_prop\<close>, \<open>e_index\<close>, \<open>e_call\<close> and \<open>e_eval\<close> is the error flag of
  the value; \<open>e_set\<close> and \<open>e_set_index\<close> tell whether setting a property raised an error; \<open>e_new\<close> is the identity
  of a new object and \<open>e_native\<close> the native handle of an object.
\<close>

section \<open>References held\<close>

fun ref_change :: "'c ev \<Rightarrow> jval \<Rightarrow> int" where
  "ref_change (ECreate w) v = (if v = w then 1 else 0)"
| "ref_change (ECreateError w _ _) v = (if v = w then 1 else 0)"
| "ref_change (EAcquire w) v = (if v = w then 1 else 0)"
| "ref_change (ERelease w) v = (if v = w then -1 else 0)"
| "ref_change (EGetProp _ _ w) v = (if v = w then 1 else 0)"
| "ref_change (EGetIndex _ _ w) v = (if v = w then 1 else 0)"
| "ref_change (ECall _ _ _ _ w) v = (if v = w then 1 else 0)"
| "ref_change (EEval _ _ w) v = (if v = w then 1 else 0)"
| "ref_change _ v = 0"

fun owned :: "'c ev list \<Rightarrow> jval \<Rightarrow> int" where
  "owned [] v = 0"
| "owned (e # es) v = ref_change e v + owned es v"

lemma owned_append [simp]: "owned (es @ fs) v = owned es v + owned fs v"
  by (induction es) auto

text \<open>
  The native handles that the C code has attached to objects, and the one an object has now,
  0 when it has none. The engine's answers follow it (\<open>native_law\<close>).
\<close>

fun natives :: "'c ev list \<Rightarrow> (jval \<times> nat) list" where
  "natives [] = []"
| "natives (ESetNative j p # es) = (j, p) # natives es"
| "natives (e # es) = natives es"

lemma natives_append [simp]: "natives (es @ fs) = natives es @ natives fs"
  by (induction es rule: natives.induct) auto

lemma natives_refs [simp]:
  "natives (map ERelease vs) = []" "natives (map EAcquire vs) = []"
  by (induction vs) auto

definition native_of :: "'c ev list \<Rightarrow> jval \<Rightarrow> nat" where
  "native_of tr j = (case map_of (rev (natives tr)) j of None \<Rightarrow> 0 | Some p \<Rightarrow> p)"

definition native_law :: "'c engine \<Rightarrow> bool" where
  "native_law E \<longleftrightarrow> (\<forall>tr j. e_native E tr j = native_of tr j)"

lemma native_of_append:
  "native_of (tr @ es) j = (if natives es = [] then native_of tr j
     else case map_of (rev (natives es)) j of None \<Rightarrow> native_of tr j | Some p \<Rightarrow> p)"
  by (auto simp: native_of_def map_add_def split: option.split)

section \<open>Calls across the boundary\<close>

definition emit :: "'c ev \<Rightarrow> (('c, 'z) rt_scheme, unit) prog" where
  "emit e = upd (\<lambda>s. s\<lparr>trace := trace s @ [e]\<rparr>)"

lemma wp_emit [wp_simps]: "wp (emit e) Q s = Q () (s\<lparr>trace := trace s @ [e]\<rparr>)"
  by (simp add: emit_def wp_upd)

definition sys :: "'c engine \<Rightarrow> 'c \<Rightarrow> (('c, 'z) rt_scheme, int) prog" where
  "sys E c = bnd (gets (\<lambda>s. e_sys E (trace s) c)) (\<lambda>r. sq (emit (ESys c r)) (ret r))"

lemma wp_sys [wp_simps]:
  "wp (sys E c) Q s =
     Q (e_sys E (trace s) c) (s\<lparr>trace := trace s @ [ESys c (e_sys E (trace s) c)]\<rparr>)"
  by (simp add: sys_def wp_simps)

section \<open>Heap blocks\<close>

text \<open>\<^verbatim>\<open>calloc\<close>: a block of \<open>size\<close> zero bytes.\<close>

abbreviation NUL :: char where
  "NUL \<equiv> CHR 0x00"

definition iotjs_buffer_allocate :: "nat \<Rightarrow> (('c, 'z) rt_scheme, char list) prog" where
  "iotjs_buffer_allocate sz =
     sq (upd (\<lambda>s. s\<lparr>blocks := blocks s + 1\<rparr>)) (ret (replicate sz NUL))"

definition iotjs_buffer_release :: "(('c, 'z) rt_scheme, unit) prog" where
  "iotjs_buffer_release = upd (\<lambda>s. s\<lparr>blocks := blocks s - 1\<rparr>)"

lemma wp_buffer_allocate [wp_simps]:
  "wp (iotjs_buffer_allocate n) Q s = Q (replicate n NUL) (s\<lparr>blocks := blocks s + 1\<rparr>)"
  by (simp add: iotjs_buffer_allocate_def wp_simps)

lemma wp_buffer_release [wp_simps]:
  "wp iotjs_buffer_release Q s = Q () (s\<lparr>blocks := blocks s - 1\<rparr>)"
  by (simp add: iotjs_buffer_release_def wp_simps)

end
