(* ===== verification/Iot_String.thy ===== *)
theory Iot_String
  imports Iot_Runtime
begin

text \<open>
  \<^verbatim>\<open>src/iotjs_string.c\<close>: growable byte strings.

  \<open>str_data = None\<close> is the static \<open>iotjs_empty_string\<close>; \<open>Some cells\<close> is a heap block. A cell is
  \<open>None\<close> while its byte is indeterminate (the tail \<open>realloc\<close> adds). Sizes are 32-bit words, so
  the doubling of the capacity wraps as the C code's does; the loop that doubles is a
  \<open>partial_function\<close>, whose value \<open>None\<close> is that the loop does not end.

  \<open>contents\<close> is the abstraction (the bytes of the string), \<open>string_wf\<close> the representation
  invariant. The locale \<open>byte_string\<close> is the interface the clients of this file rely on.
\<close>

section \<open>Representation\<close>

type_synonym cells = "char option list"

record iotjs_string_t =
  str_size :: "32 word"
  str_cap :: "32 word"
  str_data :: "cells option"

definition iotjs_empty_string :: cells where
  "iotjs_empty_string = [Some NUL]"

definition contents :: "iotjs_string_t \<Rightarrow> char list" where
  "contents s =
     (case str_data s of None \<Rightarrow> [] | Some b \<Rightarrow> map the (take (unat (str_size s)) b))"

definition string_wf :: "iotjs_string_t \<Rightarrow> bool" where
  "string_wf s =
     (case str_data s of
        None \<Rightarrow> str_size s = 0 \<and> str_cap s = 0
      | Some b \<Rightarrow>
          0 < str_cap s \<and> str_size s \<le> str_cap s \<and> unat (str_cap s) < 2 ^ 32 - 1 \<and>
          length b = Suc (unat (str_cap s)) \<and>
          None \<notin> set (take (unat (str_size s)) b) \<and>
          b ! unat (str_size s) = Some NUL)"

section \<open>The string functions of the C library\<close>

fun c_strlen :: "char list \<Rightarrow> nat option" where
  "c_strlen [] = None"
| "c_strlen (c # cs) = (if c = NUL then Some 0 else map_option Suc (c_strlen cs))"

fun c_strnlen :: "char list \<Rightarrow> nat \<Rightarrow> nat option" where
  "c_strnlen cs 0 = Some 0"
| "c_strnlen [] (Suc n) = None"
| "c_strnlen (c # cs) (Suc n) = (if c = NUL then Some 0 else map_option Suc (c_strnlen cs n))"

text \<open>The \<open>n\<close> bytes that \<open>strncpy (dst, src, n)\<close> stores; \<open>None\<close> when it reads past \<open>src\<close>.\<close>

fun c_strncpy :: "char list \<Rightarrow> nat \<Rightarrow> char list option" where
  "c_strncpy cs 0 = Some []"
| "c_strncpy [] (Suc n) = None"
| "c_strncpy (c # cs) (Suc n) =
     (if c = NUL then Some (replicate (Suc n) NUL) else map_option (Cons c) (c_strncpy cs n))"

definition c_str :: "char list \<Rightarrow> char list" where
  "c_str s = s @ [NUL]"

text \<open>A store of bytes into a block; a fault when it leaves the block.\<close>

definition store :: "string \<Rightarrow> cells \<Rightarrow> nat \<Rightarrow> char list \<Rightarrow> ('s, cells) prog" where
  "store loc b off bs =
     (if off + length bs \<le> length b
      then ret (take off b @ map Some bs @ drop (off + length bs) b)
      else fail (OutOfBounds loc))"

definition read_option :: "string \<Rightarrow> 'a option \<Rightarrow> ('s, 'a) prog" where
  "read_option loc x = (case x of None \<Rightarrow> fail (OutOfBounds loc) | Some v \<Rightarrow> ret v)"

lemma wp_store [wp_simps]:
  "wp (store l b off bs) Q s \<longleftrightarrow>
     off + length bs \<le> length b \<and> Q (take off b @ map Some bs @ drop (off + length bs) b) s"
  by (simp add: store_def wp_simps)

lemma wp_read_option [wp_simps]:
  "wp (read_option l x) Q s \<longleftrightarrow> (\<exists>v. x = Some v \<and> Q v s)"
  by (cases x) (simp_all add: read_option_def wp_simps)

section \<open>Operations\<close>

definition iotjs_string_data :: "iotjs_string_t \<Rightarrow> cells" where
  "iotjs_string_data str =
     (case str_data str of None \<Rightarrow> iotjs_empty_string | Some b \<Rightarrow> b)"

definition iotjs_string_create_with_size ::
  "char list \<Rightarrow> 32 word \<Rightarrow> (('c, 'z) rt_scheme, iotjs_string_t) prog" where
  "iotjs_string_create_with_size data sz =
     bnd (read_option ''strnlen'' (c_strnlen data (unat sz))) (\<lambda>n.
     sq (IOTJS_ASSERT ''iotjs_string_create_with_size'' (n = unat sz))
     (if 0 < sz
      then bnd (iotjs_buffer_allocate (unat (sz + 1))) (\<lambda>blk.
           bnd (store ''memcpy'' (map Some blk) 0 (take (unat sz) data)) (\<lambda>b.
           bnd (store ''terminator'' b (unat sz) [NUL]) (\<lambda>b.
           ret \<lparr>str_size = sz, str_cap = sz, str_data = Some b\<rparr>)))
      else ret \<lparr>str_size = sz, str_cap = sz, str_data = None\<rparr>))"

definition iotjs_string_create ::
  "char list \<Rightarrow> (('c, 'z) rt_scheme, iotjs_string_t) prog" where
  "iotjs_string_create data =
     bnd (read_option ''strlen'' (c_strlen data)) (\<lambda>n.
     iotjs_string_create_with_size data (word_of_nat n))"

definition iotjs_string_create_with_buffer ::
  "cells \<Rightarrow> 32 word \<Rightarrow> (('c, 'z) rt_scheme, iotjs_string_t) prog" where
  "iotjs_string_create_with_buffer buffer sz =
     ret \<lparr>str_size = sz, str_cap = sz, str_data = Some buffer\<rparr>"

definition iotjs_string_destroy ::
  "iotjs_string_t \<Rightarrow> (('c, 'z) rt_scheme, unit) prog" where
  "iotjs_string_destroy str =
     (case str_data str of None \<Rightarrow> ret () | Some _ \<Rightarrow> iotjs_buffer_release)"

text \<open>\<open>realloc\<close> keeps the common prefix; the bytes it adds are indeterminate.\<close>

definition c_realloc :: "cells \<Rightarrow> nat \<Rightarrow> cells" where
  "c_realloc b n = take n b @ replicate (n - length b) None"

definition iotjs_string_reserve ::
  "iotjs_string_t \<Rightarrow> 32 word \<Rightarrow> (('c, 'z) rt_scheme, iotjs_string_t) prog" where
  "iotjs_string_reserve str capacity =
     (if capacity \<le> str_cap str then ret str
      else
        bnd (if str_cap str = 0
             then sq (IOTJS_ASSERT ''iotjs_string_reserve'' (str_data str = None))
                  (bnd (iotjs_buffer_allocate (unat (capacity + 1))) (\<lambda>blk. ret (map Some blk)))
             else ret (c_realloc (iotjs_string_data str) (unat (capacity + 1))))
        (\<lambda>b. ret (str\<lparr>str_data := Some b, str_cap := capacity\<rparr>)))"

definition iotjs_string_is_empty :: "iotjs_string_t \<Rightarrow> bool" where
  "iotjs_string_is_empty str \<longleftrightarrow> str_size str = 0"

definition iotjs_string_make_empty ::
  "iotjs_string_t \<Rightarrow> (('c, 'z) rt_scheme, iotjs_string_t) prog" where
  "iotjs_string_make_empty str =
     (case str_data str of
        None \<Rightarrow> ret str
      | Some _ \<Rightarrow> sq iotjs_buffer_release
                  (ret (str\<lparr>str_cap := 0, str_size := 0, str_data := None\<rparr>)))"

text \<open>The loop that doubles the capacity, on 32-bit words.\<close>

partial_function (option) grow_cap :: "32 word \<Rightarrow> 32 word \<Rightarrow> 32 word option" where
  "grow_cap cap need = (if cap < need then grow_cap (cap * 2) need else Some cap)"

definition append_bytes ::
  "iotjs_string_t \<Rightarrow> char list \<Rightarrow> 32 word \<Rightarrow> (('c, 'z) rt_scheme, iotjs_string_t) prog" where
  "append_bytes str data n =
     bnd (if str_cap str = 0
          then
            sq (IOTJS_ASSERT ''iotjs_string_append'' (str_size str = 0))
            (sq (IOTJS_ASSERT ''iotjs_string_append'' (str_data str = None))
            (bnd (iotjs_buffer_allocate (unat (n + 1))) (\<lambda>blk.
             bnd (read_option ''strncpy'' (c_strncpy data (unat n))) (\<lambda>src.
             bnd (store ''strncpy'' (map Some blk) 0 src) (\<lambda>b.
             ret \<lparr>str_size = n, str_cap = n, str_data = Some b\<rparr>)))))
          else if str_size str + n \<le> str_cap str
          then
            bnd (read_option ''strncpy'' (c_strncpy data (unat n))) (\<lambda>src.
            bnd (store ''strncpy'' (iotjs_string_data str) (unat (str_size str)) src) (\<lambda>b.
            ret (str\<lparr>str_size := str_size str + n, str_data := Some b\<rparr>)))
          else
            (case grow_cap (str_cap str) (str_size str + n) of
               None \<Rightarrow> fail (Diverges ''iotjs_string_append'')
             | Some cap \<Rightarrow>
                 bnd (read_option ''strncpy'' (c_strncpy data (unat n))) (\<lambda>src.
                 bnd (store ''strncpy'' (c_realloc (iotjs_string_data str) (unat (cap + 1)))
                        (unat (str_size str)) src) (\<lambda>b.
                 ret \<lparr>str_size = str_size str + n, str_cap = cap, str_data = Some b\<rparr>))))
     (\<lambda>str. bnd (store ''terminator'' (iotjs_string_data str) (unat (str_size str)) [NUL]) (\<lambda>b.
      ret (str\<lparr>str_data := Some b\<rparr>)))"

definition iotjs_string_append ::
  "iotjs_string_t \<Rightarrow> char list \<Rightarrow> int \<Rightarrow> (('c, 'z) rt_scheme, iotjs_string_t) prog" where
  "iotjs_string_append str data sz =
     sq (IOTJS_ASSERT ''iotjs_string_append'' (str_size str \<le> str_cap str))
     (bnd (if sz < 0
           then bnd (read_option ''strlen'' (c_strlen data)) (\<lambda>n. ret (c_int32 (int n)))
           else ret sz)
     (\<lambda>sz. if sz = 0 then ret str else append_bytes str data (word_of_int sz)))"


section \<open>The functions of the C library\<close>

lemma c_strncpy_length: "c_strncpy cs n = Some d \<Longrightarrow> length d = n"
  by (induction cs n arbitrary: d rule: c_strncpy.induct) (auto split: if_splits)

lemma c_strncpy_take:
  "n \<le> length cs \<Longrightarrow> NUL \<notin> set (take n cs) \<Longrightarrow> c_strncpy cs n = Some (take n cs)"
  by (induction cs n rule: c_strncpy.induct) auto

lemma c_strncpy_c_str [simp]:
  "NUL \<notin> set s \<Longrightarrow> n = length s \<Longrightarrow> c_strncpy (c_str s) n = Some s"
  by (simp add: c_str_def c_strncpy_take)

lemma take_c_str [simp]: "take (length s) (c_str s) = s"
  by (simp add: c_str_def)

lemma length_c_str [simp]: "length (c_str s) = Suc (length s)"
  by (simp add: c_str_def)

lemma c_strlen_c_str [simp]: "NUL \<notin> set s \<Longrightarrow> c_strlen (c_str s) = Some (length s)"
  by (induction s) (auto simp: c_str_def)

lemma c_strlen_eq_takeWhile:
  "c_strlen cs = (if NUL \<in> set cs then Some (length (takeWhile (\<lambda>c. c \<noteq> NUL) cs)) else None)"
  by (induction cs) auto

lemma c_strnlen_take:
  "n \<le> length cs \<Longrightarrow> c_strnlen cs n = Some (length (takeWhile (\<lambda>c. c \<noteq> NUL) (take n cs)))"
  by (induction cs n rule: c_strnlen.induct) auto

lemma c_strnlen_full [simp]:
  "n \<le> length cs \<Longrightarrow> NUL \<notin> set (take n cs) \<Longrightarrow> c_strnlen cs n = Some n"
  by (induction cs n rule: c_strnlen.induct) auto

section \<open>The loop that doubles the capacity\<close>

lemma grow_cap_step:
  fixes cap need :: "32 word"
  assumes "cap < need" "unat need \<le> 2 ^ 31"
  shows "unat (cap * 2) = 2 * unat cap"
proof -
  have "unat cap < 2 ^ 31"
    using assms by (simp add: word_less_nat_alt)
  then show ?thesis
    by (simp add: unat_word_ariths)
qed

lemma grow_cap_ends:
  assumes "0 < cap" "unat need \<le> 2 ^ 31"
  shows "\<exists>c. grow_cap cap need = Some c \<and> need \<le> c \<and> cap \<le> c \<and>
    (cap < need \<longrightarrow> unat c \<le> 2 * (unat need - 1))"
  using assms
proof (induction "unat need - unat cap" arbitrary: cap rule: less_induct)
  case less
  show ?case
  proof (cases "cap < need")
    case False
    then show ?thesis by (simp add: grow_cap.simps)
  next
    case True
    note dbl = grow_cap_step[OF True less.prems(2)]
    have pos: "0 < unat cap" and lt: "unat cap < unat need"
      using less.prems(1) True by (simp_all add: word_less_nat_alt)
    then have "0 < cap * 2" "unat need - unat (cap * 2) < unat need - unat cap"
      using dbl by (simp_all add: word_less_nat_alt)
    then obtain c where c: "grow_cap (cap * 2) need = Some c" "need \<le> c" "cap * 2 \<le> c"
      "cap * 2 < need \<longrightarrow> unat c \<le> 2 * (unat need - 1)"
      using less.hyps[of "cap * 2"] less.prems(2) by blast
    have "cap \<le> c"
      using c(3) dbl by (simp add: word_le_nat_alt)
    moreover have "unat c \<le> 2 * (unat need - 1)"
    proof (cases "cap * 2 < need")
      case True
      then show ?thesis using c(4) by blast
    next
      case False
      then have "c = cap * 2" using c(1) by (simp add: grow_cap.simps)
      then show ?thesis using dbl lt by simp
    qed
    ultimately show ?thesis
      using True c by (simp add: grow_cap.simps[of cap need])
  qed
qed

lemma grow_cap_result:
  assumes "grow_cap cap need = Some c"
  shows "need \<le> c \<and> (\<exists>k. c = cap * 2 ^ k)"
proof -
  show ?thesis
  proof (rule grow_cap.raw_induct
      [where P = "\<lambda>cap need c. need \<le> c \<and> (\<exists>k. c = cap * 2 ^ k)", OF _ assms])
    fix g and cap need c :: "32 word"
    assume IH: "\<And>cap need c. g cap need = Some c \<Longrightarrow> need \<le> c \<and> (\<exists>k. c = cap * 2 ^ k)"
      and eq: "(if cap < need then g (cap * 2) need else Some cap) = Some c"
    show "need \<le> c \<and> (\<exists>k. c = cap * 2 ^ k)"
    proof (cases "cap < need")
      case True
      then obtain k where "need \<le> c" "c = cap * 2 * 2 ^ k"
        using IH[of "cap * 2" need c] eq by auto
      then show ?thesis
        by (metis mult.assoc power_Suc)
    next
      case False
      then have "c = cap * 2 ^ 0" using eq by simp
      then show ?thesis using False by (metis mult.right_neutral not_less power_0)
    qed
  qed
qed

section \<open>The invariant and the functional behaviour\<close>

lemma contents_map:
  "str_data s = Some b \<Longrightarrow> contents s = map the (take (unat (str_size s)) b)"
  by (simp add: contents_def)

lemma string_wf_empty [simp]: "string_wf \<lparr>str_size = 0, str_cap = 0, str_data = None\<rparr>"
  by (simp add: string_wf_def)

lemma contents_empty [simp]: "contents \<lparr>str_size = sz, str_cap = c, str_data = None\<rparr> = []"
  by (simp add: contents_def)

lemma string_wf_size: "string_wf s \<Longrightarrow> unat (str_size s) = length (contents s)"
  by (auto simp: string_wf_def contents_def word_le_nat_alt split: option.splits)

text \<open>One representation fact carries the three branches of \<open>append\<close>.\<close>

lemma append_cells:
  assumes b: "None \<notin> set (take k b)" "k + length d < length b"
    and sz: "unat n = k + length d" "n \<le> c" "0 < c" "unat c < 2 ^ 32 - 1"
    and len: "length b = Suc (unat c)"
  defines "b' \<equiv> take k b @ map Some d @ drop (k + length d) b"
  defines "s' \<equiv> \<lparr>str_size = n, str_cap = c,
     str_data = Some (take (unat n) b' @ map Some [NUL] @ drop (unat n + length [NUL]) b')\<rparr>"
  shows "string_wf s' \<and> contents s' = map the (take k b) @ d"
proof -
  have l: "length b' = length b"
    using b(2) by (simp add: b'_def)
  have t: "take (unat n) b' = take k b @ map Some d"
    using b(2) sz(1) by (simp add: b'_def)
  have "None \<notin> set (take (unat n) b')"
    using b(1) t by auto
  moreover have "unat n < length b'"
    using l b(2) sz(1) by simp
  ultimately show ?thesis
    using sz len l t
    by (auto simp: s'_def string_wf_def contents_def nth_append comp_def)
qed

lemma fresh_cells:
  assumes "unat n = length d" "0 < n" "unat n < 2 ^ 32 - 1"
  defines "s' \<equiv> \<lparr>str_size = n, str_cap = n, str_data = Some (map Some d @ [Some NUL])\<rparr>"
  shows "string_wf s'" "contents s' = d"
  using assms by (auto simp: string_wf_def contents_def nth_append comp_def)

lemma string_append_bytes:
  assumes wf: "string_wf s" and n: "0 < n" "c_strncpy data (unat n) = Some d"
    and room: "unat (str_size s) + unat n \<le> 2 ^ 31"
  shows "wp (append_bytes s data n) (\<lambda>s' t. string_wf s' \<and> contents s' = contents s @ d \<and>
           t = st\<lparr>blocks := blocks st + (if str_data s = None then 1 else 0)\<rparr>) st"
proof -
  note ld = c_strncpy_length[OF n(2)]
  have add: "unat (str_size s + n) = unat (str_size s) + unat n"
    using room by (simp add: unat_word_ariths)
  have n1: "unat (n + 1) = Suc (unat n)" and nlt: "unat n < 2 ^ 32 - 1"
    using room by (simp_all add: unat_word_ariths)
  show ?thesis
  proof (cases "str_data s")
    case None
    then have e: "str_cap s = 0" "str_size s = 0" "contents s = []"
      using wf by (simp_all add: string_wf_def contents_def)
    show ?thesis
      unfolding append_bytes_def iotjs_string_data_def
      by (simp add: wp_simps None e n n1 ld fresh_cells[OF ld[symmetric] n(1) nlt]
          del: map_replicate)
  next
    case (Some b)
    let ?k = "unat (str_size s)"
    from Some wf have b: "0 < str_cap s" "str_size s \<le> str_cap s"
      "unat (str_cap s) < 2 ^ 32 - 1" "length b = Suc (unat (str_cap s))"
      "None \<notin> set (take ?k b)"
      by (simp_all add: string_wf_def)
    show ?thesis
    proof (cases "str_size s + n \<le> str_cap s")
      case True
      then have fits: "?k + unat n \<le> unat (str_cap s)"
        using add by (simp add: word_le_nat_alt)
      show ?thesis
        using append_cells[of ?k b d "str_size s + n" "str_cap s"] b True fits add ld n Some
        by (cases s) (auto simp: append_bytes_def wp_simps iotjs_string_data_def contents_map)
    next
      case False
      have "unat (str_size s + n) \<le> 2 ^ 31" using add room by simp
      then obtain c where c: "grow_cap (str_cap s) (str_size s + n) = Some c"
        "str_size s + n \<le> c" "str_cap s \<le> c" "unat c \<le> 2 * (unat (str_size s + n) - 1)"
        using grow_cap_ends[OF b(1)] False by (metis not_less)
      have clt: "unat c < 2 ^ 32 - 1"
        using c(4) add room by simp
      then have c1: "unat (c + 1) = Suc (unat c)"
        by (simp add: unat_word_ariths)
      have cap: "unat (str_cap s) \<le> unat c" "?k \<le> unat (str_cap s)" "?k + unat n \<le> unat c"
        using c(2,3) b(2) add by (simp_all add: word_le_nat_alt)
      let ?b = "c_realloc b (unat (c + 1))"
      have bb: "length ?b = Suc (unat c)" "take ?k ?b = take ?k b"
        using cap b(4) c1 by (simp_all add: c_realloc_def)
      have "0 < c" using b(1) c(3) by simp
      then show ?thesis
        using append_cells[of ?k ?b d "str_size s + n" c] bb b c clt cap add ld n Some False
        by (auto simp: append_bytes_def wp_simps iotjs_string_data_def contents_map)
    qed
  qed
qed

definition held :: "iotjs_string_t \<Rightarrow> int" where
  "held s = (if str_data s = None then 0 else 1)"

text \<open>Every operation charges the heap with the change of the blocks its string holds.\<close>

definition charge :: "int \<Rightarrow> ('c, 'z) rt_scheme \<Rightarrow> ('c, 'z) rt_scheme" where
  "charge k w = w\<lparr>blocks := blocks w + k\<rparr>"

lemma charge_0 [simp]: "charge 0 w = w"
  by (simp add: charge_def)

lemma charge_charge [simp]: "charge a (charge b w) = charge (a + b) w"
  by (simp add: charge_def algebra_simps)

lemma blocks_charge [simp]: "blocks (charge k w) = blocks w + k"
  by (simp add: charge_def)

lemma trace_charge [simp]: "trace (charge k w) = trace w"
  by (simp add: charge_def)

lemma wf_data_Some: "string_wf s \<Longrightarrow> 0 < str_size s \<Longrightarrow> str_data s \<noteq> None"
  by (cases "str_data s") (simp_all add: string_wf_def)

lemma unat_word_of_int_32: "0 \<le> k \<Longrightarrow> k < 2 ^ 32 \<Longrightarrow> unat (word_of_int k :: 32 word) = nat k"
  by (simp add: unat_eq_nat_uint uint_word_of_int)

lemma append_bytes_held:
  assumes "string_wf s" "0 < n" "c_strncpy data (unat n) = Some d"
    and "unat (str_size s) + unat n \<le> 2 ^ 31"
  shows "wp (append_bytes s data n) (\<lambda>s' t. string_wf s' \<and> contents s' = contents s @ d \<and>
           t = charge (held s' - held s) st) st"
proof (rule wp_mono[OF string_append_bytes[OF assms]])
  fix s' t
  assume a: "string_wf s' \<and> contents s' = contents s @ d \<and>
    t = st\<lparr>blocks := blocks st + (if str_data s = None then 1 else 0)\<rparr>"
  have "contents s' \<noteq> []"
    using a assms(2) c_strncpy_length[OF assms(3)] by (auto simp: word_less_nat_alt)
  then have "str_data s' \<noteq> None" by (cases "str_data s'") (simp_all add: contents_def)
  then show "string_wf s' \<and> contents s' = contents s @ d \<and> t = charge (held s' - held s) st"
    using a by (auto simp: held_def charge_def)
qed

lemma append_wp:
  assumes wf: "string_wf s" and sz: "0 \<le> sz" "c_strncpy data (nat sz) = Some d"
    and room: "int (length (contents s)) + sz \<le> 2 ^ 31"
  shows "wp (iotjs_string_append s data sz)
    (\<lambda>s' t. string_wf s' \<and> contents s' = contents s @ d \<and> t = charge (held s' - held s) st) st"
proof -
  have le: "str_size s \<le> str_cap s"
    using wf by (auto simp: string_wf_def split: option.splits)
  show ?thesis
  proof (cases "sz = 0")
    case True
    then show ?thesis
      using wf le sz(2) by (simp add: iotjs_string_append_def wp_simps)
  next
    case False
    let ?n = "word_of_int sz :: 32 word"
    have n: "unat ?n = nat sz"
      using sz(1) room by (simp add: unat_word_of_int_32)
    then have "0 < ?n" using False sz(1) by (simp add: word_less_nat_alt)
    moreover have "unat (str_size s) + unat ?n \<le> 2 ^ 31"
      using room n sz(1) string_wf_size[OF wf] by simp
    ultimately show ?thesis
      using append_bytes_held[OF wf, of ?n data d st] n sz False le
      by (simp add: iotjs_string_append_def wp_simps)
  qed
qed

lemma append_strlen_wp:
  assumes wf: "string_wf s" and sz: "sz < 0" "NUL \<in> set data"
    and room: "length (contents s) + length (takeWhile (\<lambda>c. c \<noteq> NUL) data) < 2 ^ 31"
  shows "wp (iotjs_string_append s data sz)
    (\<lambda>s' t. string_wf s' \<and> contents s' = contents s @ takeWhile (\<lambda>c. c \<noteq> NUL) data \<and>
       t = charge (held s' - held s) st) st"
proof -
  let ?d = "takeWhile (\<lambda>c. c \<noteq> NUL) data"
  have t: "take (length ?d) data = ?d"
    by (metis append_eq_conv_conj takeWhile_dropWhile_id)
  have "NUL \<notin> set ?d" by (auto dest: set_takeWhileD)
  then have "c_strncpy data (length ?d) = Some ?d"
    using c_strncpy_take[of "length ?d" data] t length_takeWhile_le by fastforce
  then have "wp (iotjs_string_append s data (int (length ?d)))
    (\<lambda>s' t. string_wf s' \<and> contents s' = contents s @ ?d \<and> t = charge (held s' - held s) st) st"
    using append_wp[OF wf, of "int (length ?d)" data ?d st] room by simp
  then show ?thesis
    using sz room
    by (auto simp: iotjs_string_append_def wp_simps c_strlen_eq_takeWhile split: if_splits)
qed

lemma make_empty_wp:
  assumes "string_wf s"
  shows "wp (iotjs_string_make_empty s)
    (\<lambda>s' t. string_wf s' \<and> contents s' = [] \<and> held s' = 0 \<and> t = charge (held s' - held s) st) st"
proof (cases "str_data s")
  case None
  then show ?thesis
    using assms by (simp add: iotjs_string_make_empty_def wp_simps held_def contents_def)
next
  case (Some b)
  then show ?thesis
    by (cases s) (simp add: iotjs_string_make_empty_def wp_simps held_def contents_def
        string_wf_def charge_def)
qed

lemma create_with_size_wp:
  assumes "unat sz \<le> length data" "NUL \<notin> set (take (unat sz) data)" "unat sz < 2 ^ 32 - 1"
  shows "wp (iotjs_string_create_with_size data sz)
    (\<lambda>s' t. string_wf s' \<and> contents s' = take (unat sz) data \<and> t = charge (held s') st) st"
proof (cases "sz = 0")
  case True
  then show ?thesis
    by (simp add: iotjs_string_create_with_size_def wp_simps held_def contents_def string_wf_def)
next
  case False
  then have pos: "0 < sz" by (simp add: word_neq_0_conv)
  let ?d = "take (unat sz) data"
  have l: "unat sz = length ?d" using assms(1) by simp
  have s1: "unat (sz + 1) = Suc (unat sz)"
    using assms(3) by (simp add: unat_word_ariths)
  let ?s = "\<lparr>str_size = sz, str_cap = sz, str_data = Some (map Some ?d @ [Some NUL])\<rparr>"
  have "string_wf ?s" "contents ?s = ?d"
    using fresh_cells[OF l pos assms(3)] by simp_all
  moreover have "c_strnlen data (unat sz) = Some (unat sz)"
    using assms by simp
  ultimately show ?thesis
    using pos s1 assms(1)
    by (simp add: iotjs_string_create_with_size_def wp_simps held_def charge_def)
qed

lemma create_wp:
  assumes "NUL \<notin> set s" "length s < 2 ^ 32 - 1"
  shows "wp (iotjs_string_create (c_str s))
    (\<lambda>s' t. string_wf s' \<and> contents s' = s \<and> t = charge (held s') st) st"
  using create_with_size_wp[of "word_of_nat (length s)" "c_str s" st] assms
  by (simp add: iotjs_string_create_def wp_simps unat_of_nat)

lemma destroy_wp: "wp (iotjs_string_destroy s) (\<lambda>_ t. t = charge (- held s) st) st"
  by (cases "str_data s") (simp_all add: iotjs_string_destroy_def wp_simps held_def charge_def)

lemma reserve_wp:
  assumes wf: "string_wf s" and cap: "unat capacity < 2 ^ 32 - 1"
  shows "wp (iotjs_string_reserve s capacity)
    (\<lambda>s' t. string_wf s' \<and> contents s' = contents s \<and> capacity \<le> str_cap s' \<and>
       t = charge (held s' - held s) st) st"
proof (cases "capacity \<le> str_cap s")
  case True
  then show ?thesis using wf by (simp add: iotjs_string_reserve_def wp_simps)
next
  case False
  have c1: "unat (capacity + 1) = Suc (unat capacity)"
    using cap by (simp add: unat_word_ariths)
  show ?thesis
  proof (cases "str_data s")
    case None
    then have "str_cap s = 0" "str_size s = 0" using wf by (simp_all add: string_wf_def)
    then show ?thesis
      using None False c1 cap
      by (cases s) (auto simp: iotjs_string_reserve_def wp_simps held_def charge_def
          string_wf_def contents_def word_neq_0_conv)
  next
    case (Some b)
    let ?k = "unat (str_size s)" and ?b = "c_realloc b (Suc (unat capacity))"
    from Some wf have b: "0 < str_cap s" "str_size s \<le> str_cap s"
      "length b = Suc (unat (str_cap s))" "None \<notin> set (take ?k b)" "b ! ?k = Some NUL"
      by (simp_all add: string_wf_def)
    have "?k \<le> unat (str_cap s)" "unat (str_cap s) < unat capacity"
      using b(2) False by (simp_all add: word_le_nat_alt)
    then have "take ?k ?b = take ?k b" "?b ! ?k = Some NUL" "length ?b = Suc (unat capacity)"
      "str_size s \<le> capacity" "0 < capacity"
      using b by (simp_all add: c_realloc_def nth_append word_le_nat_alt word_less_nat_alt)
    then show ?thesis
      using Some False c1 cap b
      by (cases s) (auto simp: iotjs_string_reserve_def wp_simps held_def
          string_wf_def contents_def iotjs_string_data_def)
  qed
qed

lemmas string_wps = append_wp append_strlen_wp make_empty_wp create_wp create_with_size_wp
  destroy_wp reserve_wp

section \<open>The interface of a byte string\<close>

text \<open>
  What the clients of \<^verbatim>\<open>iotjs_string_t\<close> rely on: a view as a list of bytes that \<open>app\<close> extends
  and \<open>clear\<close> resets, below a size limit, with exact accounting of the heap blocks held.
\<close>

locale byte_string =
  fixes ok :: "'s \<Rightarrow> bool"
    and view :: "'s \<Rightarrow> char list"
    and hold :: "'s \<Rightarrow> int"
    and limit :: nat
    and pay :: "int \<Rightarrow> 'w \<Rightarrow> 'w"
    and clear :: "'s \<Rightarrow> ('w, 's) prog"
    and app :: "'s \<Rightarrow> char list \<Rightarrow> ('w, 's) prog"
  assumes pay_0: "pay 0 w = w"
    and pay_pay: "pay a (pay b w) = pay (a + b) w"
    and clear_law: "ok s \<Longrightarrow>
      wp (clear s) (\<lambda>s' t. ok s' \<and> view s' = [] \<and> hold s' = 0 \<and> t = pay (hold s' - hold s) w) w"
    and app_law: "ok s \<Longrightarrow> NUL \<notin> set d \<Longrightarrow> length (view s) + length d \<le> limit \<Longrightarrow>
      wp (app s d) (\<lambda>s' t. ok s' \<and> view s' = view s @ d \<and> t = pay (hold s' - hold s) w) w"
begin

lemma app_all:
  assumes "ok s" "NUL \<notin> set (concat ds)" "length (view s) + length (concat ds) \<le> limit"
  shows "wp (fold_prog app s ds)
    (\<lambda>s' t. ok s' \<and> view s' = view s @ concat ds \<and> t = pay (hold s' - hold s) w) w"
  using assms
proof (induction ds arbitrary: s w)
  case Nil
  then show ?case by (simp add: wp_simps pay_0)
next
  case (Cons d ds)
  have "wp (app s d) (\<lambda>s' t. ok s' \<and> view s' = view s @ d \<and> t = pay (hold s' - hold s) w) w"
    using Cons.prems by (intro app_law) auto
  then have "wp (app s d) (\<lambda>s1 t. wp (fold_prog app s1 ds)
    (\<lambda>s' u. ok s' \<and> view s' = view s @ concat (d # ds) \<and> u = pay (hold s' - hold s) w) t) w"
  proof (rule wp_mono)
    fix s1 t
    assume s1: "ok s1 \<and> view s1 = view s @ d \<and> t = pay (hold s1 - hold s) w"
    with Cons.prems have "wp (fold_prog app s1 ds)
      (\<lambda>s' u. ok s' \<and> view s' = view s1 @ concat ds \<and> u = pay (hold s' - hold s1) t) t"
      by (intro Cons.IH) auto
    then show "wp (fold_prog app s1 ds)
      (\<lambda>s' u. ok s' \<and> view s' = view s @ concat (d # ds) \<and> u = pay (hold s' - hold s) w) t"
      by (rule wp_mono) (use s1 in \<open>auto simp: pay_pay\<close>)
  qed
  then show ?case by (simp add: wp_simps)
qed

lemma clear_then_app_all:
  assumes "ok s" "NUL \<notin> set (concat ds)" "length (concat ds) \<le> limit"
  shows "wp (bnd (clear s) (\<lambda>s. fold_prog app s ds))
    (\<lambda>s' t. ok s' \<and> view s' = concat ds \<and> t = pay (hold s' - hold s) w) w"
proof -
  have "wp (clear s) (\<lambda>s1 t. wp (fold_prog app s1 ds)
      (\<lambda>s' t. ok s' \<and> view s' = concat ds \<and> t = pay (hold s' - hold s) w) t) w"
  proof (rule wp_mono[OF clear_law[OF assms(1)]])
    fix s1 t
    assume s1: "ok s1 \<and> view s1 = [] \<and> hold s1 = 0 \<and> t = pay (hold s1 - hold s) w"
    then have "wp (fold_prog app s1 ds)
      (\<lambda>s' u. ok s' \<and> view s' = view s1 @ concat ds \<and> u = pay (hold s' - hold s1) t) t"
      using assms by (intro app_all) auto
    then show "wp (fold_prog app s1 ds)
      (\<lambda>s' t. ok s' \<and> view s' = concat ds \<and> t = pay (hold s' - hold s) w) t"
      by (rule wp_mono) (use s1 in \<open>auto simp: pay_pay\<close>)
  qed
  then show ?thesis by (simp add: wp_simps)
qed

end

text \<open>The model of \<^verbatim>\<open>iotjs_string_t\<close> provides the interface, up to 2 GiB.\<close>

definition append_chunk ::
  "iotjs_string_t \<Rightarrow> char list \<Rightarrow> (('c, 'z) rt_scheme, iotjs_string_t) prog" where
  "append_chunk s d = iotjs_string_append s d (int (length d))"

interpretation str: byte_string string_wf contents held "2 ^ 31" charge
  iotjs_string_make_empty append_chunk
proof unfold_locales
  fix s :: iotjs_string_t and d :: "char list" and w :: "('a, 'b) rt_scheme"
  assume "string_wf s" "NUL \<notin> set d" "length (contents s) + length d \<le> 2 ^ 31"
  then show "wp (append_chunk s d)
    (\<lambda>s' t. string_wf s' \<and> contents s' = contents s @ d \<and> t = charge (held s' - held s) w) w"
    using append_wp[of s "int (length d)" d d w] by (simp add: append_chunk_def c_strncpy_take)
qed (simp_all add: make_empty_wp)

section \<open>Properties\<close>

text \<open>C27. \<^verbatim>\<open>iotjs_string_append\<close> with a size from 0 up to a total of 2 GiB ends without a fault,
  keeps the representation invariant, and the bytes afterwards are the bytes before followed by
  the bytes \<open>strncpy\<close> takes from the source; the heap changes only by the block the string got,
  and no call crosses the boundary.\<close>

theorem iotjs_string_append_correct:
  assumes "string_wf s" "0 \<le> sz" "c_strncpy data (nat sz) = Some d"
    and "int (length (contents s)) + sz \<le> 2 ^ 31"
  shows "\<exists>s' t. iotjs_string_append s data sz st = Inr (s', t) \<and> string_wf s' \<and>
    contents s' = contents s @ d \<and> trace t = trace st \<and>
    blocks t - held s' = blocks st - held s"
proof -
  obtain s' t where "iotjs_string_append s data sz st = Inr (s', t)" "string_wf s'"
    "contents s' = contents s @ d" "t = charge (held s' - held s) st"
    using append_wp[OF assms, of st] by (auto simp: wp_runs)
  then show ?thesis by simp
qed

theorem iotjs_string_append_correct_witness:
  "\<exists>s' t. iotjs_string_append \<lparr>str_size = 0, str_cap = 0, str_data = None\<rparr> ''abc'' 2
      \<lparr>trace = ([] :: unit ev list), blocks = 7\<rparr> = Inr (s', t) \<and> contents s' = ''ab'' \<and>
      blocks t - held s' = 7"
  using iotjs_string_append_correct[of "\<lparr>str_size = 0, str_cap = 0, str_data = None\<rparr>" 2
      "''abc''" "''ab''" "\<lparr>trace = ([] :: unit ev list), blocks = 7\<rparr>"]
  by (simp add: numeral_2_eq_2 held_def[of "\<lparr>str_size = 0, str_cap = 0, str_data = None\<rparr>"])
    blast

text \<open>The loop that doubles the capacity ends for every request up to 2 GiB: the result is the
  old capacity times a power of two, is enough, and is below twice the request.\<close>

theorem grow_cap_terminates:
  assumes "0 < cap" "unat need \<le> 2 ^ 31"
  shows "\<exists>c k. grow_cap cap need = Some c \<and> c = cap * 2 ^ k \<and> need \<le> c \<and>
    (cap < need \<longrightarrow> unat c \<le> 2 * (unat need - 1))"
  using grow_cap_ends[OF assms] grow_cap_result by blast

theorem grow_cap_terminates_witness:
  "\<exists>c k. grow_cap 3 100 = Some c \<and> c = 3 * 2 ^ k \<and> 100 \<le> c \<and> unat c \<le> 198"
  using grow_cap_terminates[of 3 100] by simp

text \<open>C40. Above 2 GiB the loop may not end: from a capacity that is a power of two, the doubling
  wraps to 0 before it reaches a request above \<open>2 ^ 31\<close>, so \<^verbatim>\<open>iotjs_string_append\<close> hangs on a
  request that still fits an \<open>unsigned\<close>.\<close>

theorem iotjs_string_append_hangs:
  assumes wf: "string_wf s" and cap: "str_cap s = 2 ^ k" "k < 32"
    and sz: "0 < sz" "sz < 2 ^ 31"
    and big: "2 ^ 31 < unat (str_size s) + nat sz" "unat (str_size s) + nat sz < 2 ^ 32"
  shows "iotjs_string_append s data sz st = Inl (Diverges ''iotjs_string_append'')"
proof -
  let ?need = "str_size s + word_of_int sz"
  have n: "unat (word_of_int sz :: 32 word) = nat sz"
    using sz by (simp add: unat_word_of_int_32)
  with big(2) have need: "unat ?need = unat (str_size s) + nat sz"
    by (simp add: unat_word_ariths)
  have small: "unat ((2 :: 32 word) ^ j) \<le> 2 ^ 31" for j
  proof (cases "j < 32")
    case True
    then have "(2 :: nat) ^ j \<le> 2 ^ 31" by (intro power_increasing) simp_all
    moreover have "(0 :: 32 word) < 2 ^ j"
      using True by (simp add: word_neq_0_conv[symmetric])
    then have "uint ((2 :: 32 word) ^ j) = 2 ^ j"
      by (rule uint_2p)
    then have "unat ((2 :: 32 word) ^ j) = 2 ^ j"
      by (simp add: unat_eq_nat_uint nat_power_eq)
    ultimately show ?thesis by simp
  next
    case False
    then have "(2 :: 32 word) ^ j = 0"
      by simp
    then show ?thesis by (simp only: unsigned_0)
  qed
  have "grow_cap (2 ^ k) ?need = None"
  proof (rule ccontr)
    assume "grow_cap (2 ^ k) ?need \<noteq> None"
    then obtain c j where "?need \<le> c" "c = 2 ^ k * 2 ^ j"
      using grow_cap_result by blast
    then have "unat ?need \<le> 2 ^ 31"
      using small[of "k + j"] by (simp add: power_add word_le_nat_alt)
    then show False using need big(1) by simp
  qed
  moreover have "\<not> ?need \<le> str_cap s"
    using small[of k] cap need big(1) sz(1) by (simp add: word_le_nat_alt)
  moreover have "str_size s \<le> str_cap s" "str_cap s \<noteq> 0"
    using wf big sz by (auto simp: string_wf_def split: option.splits)
  ultimately show ?thesis
    using sz cap by (simp add: iotjs_string_append_def append_bytes_def prog_defs)
qed

theorem iotjs_string_append_hangs_witness:
  "\<exists>s. str_cap s = 2 ^ 31 \<and> iotjs_string_append s ''x'' 1 \<lparr>trace = ([] :: unit ev list), blocks = 1\<rparr>
     = Inl (Diverges ''iotjs_string_append'')"
proof -
  define b where "b = replicate (2 ^ 31) (Some CHR ''a'') @ [Some NUL]"
  define s where "s = \<lparr>str_size = 2 ^ 31, str_cap = 2 ^ 31, str_data = Some b\<rparr>"
  have "string_wf s"
    by (simp add: s_def b_def string_wf_def nth_append)
  then have "iotjs_string_append s ''x'' 1 \<lparr>trace = ([] :: unit ev list), blocks = 1\<rparr>
     = Inl (Diverges ''iotjs_string_append'')"
    by (rule iotjs_string_append_hangs[where k = 31]) (simp_all add: s_def)
  then show ?thesis by (intro exI[of _ s]) (simp add: s_def)
qed

text \<open>\<^verbatim>\<open>iotjs_string_create_with_buffer\<close> with size 0 (what \<^verbatim>\<open>iotjs_file_read\<close> does for an empty
  file) breaks the representation invariant: the next append of a byte stops at the assertion
  that a string of capacity 0 is the static empty string.\<close>

theorem create_with_empty_buffer_append_fails:
  "bnd (iotjs_string_create_with_buffer b 0) (\<lambda>s. iotjs_string_append s (c # cs) 1) st =
     Inl (Assertion ''iotjs_string_append'')"
  by (simp add: iotjs_string_create_with_buffer_def iotjs_string_append_def append_bytes_def
      prog_defs)

end
