(* ===== verification/Iot_Binding.thy ===== *)
theory Iot_Binding
  imports Iot_String
begin

text \<open>
  \<^verbatim>\<open>src/iotjs_binding.c\<close> and the macros of \<^verbatim>\<open>src/iotjs_binding.h\<close>: values (\<open>iotjs_jval_*\<close>),
  argument vectors (\<open>iotjs_jargs_*\<close>), calls into JavaScript (\<open>iotjs_jhelper_*\<close>) and the frame of
  a native handler (\<open>iotjs_jhandler_*\<close>, \<open>JHANDLER_*\<close>).

  A value is passed by the C code as a pointer to a struct that holds one reference; creating,
  copying and destroying it are the events of \<open>Iot_Runtime\<close>. The slots of an argument vector
  start zeroed, \<open>None\<close> here; reading one fails the \<open>IOTJS_VALIDATE_FLAG\<close> check of the debug
  build. The magic flags and the four-byte tracer blocks of the debug build are not modelled
  otherwise.
\<close>

section \<open>Values\<close>

definition iotjs_jval_create_number :: "double \<Rightarrow> (('c, 'z) rt_scheme, jval) prog" where
  "iotjs_jval_create_number v = sq (emit (ECreate (JNumber v))) (ret (JNumber v))"

definition iotjs_jval_create_string :: "iotjs_string_t \<Rightarrow> (('c, 'z) rt_scheme, jval) prog" where
  "iotjs_jval_create_string v =
     sq (emit (ECreate (JString (contents v)))) (ret (JString (contents v)))"

definition iotjs_jval_create_string_raw :: "string \<Rightarrow> (('c, 'z) rt_scheme, jval) prog" where
  "iotjs_jval_create_string_raw data =
     sq (emit (ECreate (JString data))) (ret (JString data))"

definition jerry_create :: "'c engine \<Rightarrow> (nat \<Rightarrow> jval) \<Rightarrow> (('c, 'z) rt_scheme, jval) prog" where
  "jerry_create E kind =
     bnd (gets (\<lambda>s. kind (e_new E (trace s)))) (\<lambda>v. sq (emit (ECreate v)) (ret v))"

definition iotjs_jval_create_object :: "'c engine \<Rightarrow> (('c, 'z) rt_scheme, jval) prog" where
  "iotjs_jval_create_object E = jerry_create E JObject"

definition iotjs_jval_create_array :: "'c engine \<Rightarrow> (('c, 'z) rt_scheme, jval) prog" where
  "iotjs_jval_create_array E = jerry_create E JArray"

definition iotjs_jval_create_function :: "'c engine \<Rightarrow> (('c, 'z) rt_scheme, jval) prog" where
  "iotjs_jval_create_function E = jerry_create E JFunction"

definition iotjs_jval_create_error_type ::
  "'c engine \<Rightarrow> iotjs_error_t \<Rightarrow> string \<Rightarrow> (('c, 'z) rt_scheme, jval) prog" where
  "iotjs_jval_create_error_type E type msg =
     bnd (gets (\<lambda>s. JObject (e_new E (trace s)))) (\<lambda>v.
     sq (emit (ECreateError v type msg)) (ret v))"

definition iotjs_jval_create_error :: "'c engine \<Rightarrow> string \<Rightarrow> (('c, 'z) rt_scheme, jval) prog" where
  "iotjs_jval_create_error E msg = iotjs_jval_create_error_type E IOTJS_ERROR_COMMON msg"

definition iotjs_jval_create_copied :: "jval \<Rightarrow> (('c, 'z) rt_scheme, jval) prog" where
  "iotjs_jval_create_copied other = sq (emit (EAcquire other)) (ret other)"

definition iotjs_jval_destroy :: "jval \<Rightarrow> (('c, 'z) rt_scheme, unit) prog" where
  "iotjs_jval_destroy jval = emit (ERelease jval)"

text \<open>\<^verbatim>\<open>(double) data[i]\<close> of a plain \<open>char\<close>, signed on the Linux targets.\<close>

definition char_value :: "char \<Rightarrow> int" where
  "char_value c = (let n = of_char c in if n < 128 then n else n - 256)"

definition set_index :: "jval \<Rightarrow> nat \<Rightarrow> jval \<Rightarrow> (('c, 'z) rt_scheme, unit) prog" where
  "set_index jarr i v = emit (ESetIndex jarr i v)"

definition iotjs_jval_create_byte_array ::
  "'c engine \<Rightarrow> nat \<Rightarrow> char list option \<Rightarrow> (('c, 'z) rt_scheme, jval) prog" where
  "iotjs_jval_create_byte_array E len data =
     (case data of
        None \<Rightarrow> fail (Assertion ''iotjs_jval_create_byte_array'')
      | Some bytes \<Rightarrow>
          bnd (jerry_create E JArray) (\<lambda>a.
          sq (for_each [0..<len] (\<lambda>i.
                if i < length bytes
                then bnd (iotjs_jval_create_number (num (char_value (bytes ! i)))) (\<lambda>v.
                     sq (set_index a i v) (emit (ERelease v)))
                else fail (OutOfBounds ''iotjs_jval_create_byte_array'')))
          (ret a)))"

definition iotjs_jval_as_boolean :: "jval \<Rightarrow> (('c, 'z) rt_scheme, bool) prog" where
  "iotjs_jval_as_boolean v =
     (case v of JBool b \<Rightarrow> ret b | _ \<Rightarrow> fail (Assertion ''iotjs_jval_as_boolean''))"

definition iotjs_jval_as_number :: "jval \<Rightarrow> (('c, 'z) rt_scheme, double) prog" where
  "iotjs_jval_as_number v =
     (case v of JNumber d \<Rightarrow> ret d | _ \<Rightarrow> fail (Assertion ''iotjs_jval_as_number''))"

definition iotjs_jval_as_string :: "jval \<Rightarrow> (('c, 'z) rt_scheme, iotjs_string_t) prog" where
  "iotjs_jval_as_string v =
     (case v of
        JString s \<Rightarrow>
          (if s = [] then iotjs_string_create (c_str [])
           else bnd (iotjs_buffer_allocate (length s + 1)) (\<lambda>blk.
                bnd (store ''jerry_string_to_char_buffer'' (map Some blk) 0 s) (\<lambda>b.
                bnd (store ''terminator'' b (length s) [NUL]) (\<lambda>b.
                iotjs_string_create_with_buffer b (word_of_nat (length s))))))
      | _ \<Rightarrow> fail (Assertion ''iotjs_jval_as_string''))"

definition iotjs_jval_as_object :: "jval \<Rightarrow> (('c, 'z) rt_scheme, jval) prog" where
  "iotjs_jval_as_object v = sq (IOTJS_ASSERT ''iotjs_jval_as_object'' (is_object v)) (ret v)"

definition iotjs_jval_as_array :: "jval \<Rightarrow> (('c, 'z) rt_scheme, jval) prog" where
  "iotjs_jval_as_array v = sq (IOTJS_ASSERT ''iotjs_jval_as_array'' (is_array v)) (ret v)"

definition iotjs_jval_as_function :: "jval \<Rightarrow> (('c, 'z) rt_scheme, jval) prog" where
  "iotjs_jval_as_function v = sq (IOTJS_ASSERT ''iotjs_jval_as_function'' (is_function v)) (ret v)"

definition iotjs_jval_set_property_jval ::
  "'c engine \<Rightarrow> jval \<Rightarrow> string \<Rightarrow> jval \<Rightarrow> (('c, 'z) rt_scheme, unit) prog" where
  "iotjs_jval_set_property_jval E jobj name v =
     sq (IOTJS_ASSERT ''iotjs_jval_set_property_jval'' (is_object jobj))
     (sq (emit (ECreate (JString name)))
     (bnd (gets (\<lambda>s. e_set E (trace s) jobj name v)) (\<lambda>err.
      sq (emit (ESetProp jobj name v))
     (sq (emit (ERelease (JString name)))
     (IOTJS_ASSERT ''iotjs_jval_set_property_jval'' (\<not> err))))))"

definition iotjs_jval_set_property_number ::
  "'c engine \<Rightarrow> jval \<Rightarrow> string \<Rightarrow> double \<Rightarrow> (('c, 'z) rt_scheme, unit) prog" where
  "iotjs_jval_set_property_number E jobj name v =
     bnd (iotjs_jval_create_number v) (\<lambda>jval.
     sq (iotjs_jval_set_property_jval E jobj name jval)
     (iotjs_jval_destroy jval))"

definition iotjs_jval_set_property_string ::
  "'c engine \<Rightarrow> jval \<Rightarrow> string \<Rightarrow> iotjs_string_t \<Rightarrow> (('c, 'z) rt_scheme, unit) prog" where
  "iotjs_jval_set_property_string E jobj name v =
     bnd (iotjs_jval_create_string v) (\<lambda>jval.
     sq (iotjs_jval_set_property_jval E jobj name jval)
     (iotjs_jval_destroy jval))"

definition iotjs_jval_set_property_string_raw ::
  "'c engine \<Rightarrow> jval \<Rightarrow> string \<Rightarrow> string \<Rightarrow> (('c, 'z) rt_scheme, unit) prog" where
  "iotjs_jval_set_property_string_raw E jobj name v =
     bnd (iotjs_jval_create_string_raw v) (\<lambda>jval.
     sq (iotjs_jval_set_property_jval E jobj name jval)
     (iotjs_jval_destroy jval))"

definition iotjs_jval_set_property_boolean ::
  "'c engine \<Rightarrow> jval \<Rightarrow> string \<Rightarrow> bool \<Rightarrow> (('c, 'z) rt_scheme, unit) prog" where
  "iotjs_jval_set_property_boolean E jobj name v =
     iotjs_jval_set_property_jval E jobj name (JBool v)"

definition iotjs_jval_set_method ::
  "'c engine \<Rightarrow> jval \<Rightarrow> string \<Rightarrow> (('c, 'z) rt_scheme, unit) prog" where
  "iotjs_jval_set_method E jobj name =
     sq (IOTJS_ASSERT ''iotjs_jval_set_method'' (is_object jobj))
     (bnd (iotjs_jval_create_function E) (\<lambda>jfunc.
      sq (iotjs_jval_set_property_jval E jobj name jfunc)
      (iotjs_jval_destroy jfunc)))"

definition iotjs_jval_get_property ::
  "'c engine \<Rightarrow> jval \<Rightarrow> string \<Rightarrow> (('c, 'z) rt_scheme, jval) prog" where
  "iotjs_jval_get_property E jobj name =
     sq (IOTJS_ASSERT ''iotjs_jval_get_property'' (is_object jobj))
     (sq (emit (ECreate (JString name)))
     (bnd (gets (\<lambda>s. e_prop E (trace s) jobj name)) (\<lambda>(err, res).
      sq (emit (EGetProp jobj name res))
     (sq (emit (ERelease (JString name)))
     (if err then sq (emit (ERelease res)) (iotjs_jval_create_copied JUndefined)
      else ret res)))))"

definition iotjs_jval_set_property_by_index ::
  "'c engine \<Rightarrow> jval \<Rightarrow> nat \<Rightarrow> jval \<Rightarrow> (('c, 'z) rt_scheme, unit) prog" where
  "iotjs_jval_set_property_by_index E jarr idx jval =
     sq (IOTJS_ASSERT ''iotjs_jval_set_property_by_index'' (is_object jarr))
     (bnd (gets (\<lambda>s. e_set_index E (trace s) jarr idx jval)) (\<lambda>err.
      sq (set_index jarr idx jval)
      (IOTJS_ASSERT ''iotjs_jval_set_property_by_index'' (\<not> err))))"

definition iotjs_jval_get_property_by_index ::
  "'c engine \<Rightarrow> jval \<Rightarrow> nat \<Rightarrow> (('c, 'z) rt_scheme, jval) prog" where
  "iotjs_jval_get_property_by_index E jarr idx =
     sq (IOTJS_ASSERT ''iotjs_jval_get_property_by_index'' (is_object jarr))
     (bnd (gets (\<lambda>s. e_index E (trace s) jarr idx)) (\<lambda>(err, res).
      sq (emit (EGetIndex jarr idx res))
     (if err then sq (emit (ERelease res)) (iotjs_jval_create_copied JUndefined)
      else ret res)))"

definition iotjs_jval_set_object_native_handle ::
  "jval \<Rightarrow> nat \<Rightarrow> (('c, 'z) rt_scheme, unit) prog" where
  "iotjs_jval_set_object_native_handle jobj ptr =
     sq (IOTJS_ASSERT ''iotjs_jval_set_object_native_handle'' (is_object jobj))
     (emit (ESetNative jobj ptr))"

definition iotjs_jval_get_object_native_handle ::
  "'c engine \<Rightarrow> jval \<Rightarrow> (('c, 'z) rt_scheme, nat) prog" where
  "iotjs_jval_get_object_native_handle E jobj =
     sq (IOTJS_ASSERT ''iotjs_jval_get_object_native_handle'' (is_object jobj))
     (gets (\<lambda>s. e_native E (trace s) jobj))"

section \<open>Argument vectors\<close>

record iotjs_jargs_t =
  capacity :: nat
  argc :: nat
  argv :: "jval option list option"

definition jargs_empty :: iotjs_jargs_t where
  "jargs_empty = \<lparr>capacity = 0, argc = 0, argv = None\<rparr>"

definition iotjs_jargs_create :: "nat \<Rightarrow> (('c, 'z) rt_scheme, iotjs_jargs_t) prog" where
  "iotjs_jargs_create cap =
     (if 0 < cap
      then bnd (iotjs_buffer_allocate cap) (\<lambda>_.
           ret \<lparr>capacity = cap, argc = 0, argv = Some (replicate cap None)\<rparr>)
      else ret jargs_empty)"

text \<open>A slot of the vector, with the bounds of the block and the validity of the struct.\<close>

definition jargs_slot :: "iotjs_jargs_t \<Rightarrow> nat \<Rightarrow> ('s, jval) prog" where
  "jargs_slot jargs i =
     (case argv jargs of
        None \<Rightarrow> fail (NullPointer ''argv'')
      | Some slots \<Rightarrow>
          (if length slots \<le> i then fail (OutOfBounds ''argv'')
           else case slots ! i of None \<Rightarrow> fail (Assertion ''iotjs_jval_t'') | Some v \<Rightarrow> ret v))"

definition jargs_set :: "iotjs_jargs_t \<Rightarrow> nat \<Rightarrow> jval \<Rightarrow> ('s, iotjs_jargs_t) prog" where
  "jargs_set jargs i v =
     (case argv jargs of
        None \<Rightarrow> fail (NullPointer ''argv'')
      | Some slots \<Rightarrow>
          (if length slots \<le> i then fail (OutOfBounds ''argv'')
           else ret (jargs\<lparr>argv := Some (slots[i := Some v])\<rparr>)))"

definition iotjs_jargs_destroy :: "iotjs_jargs_t \<Rightarrow> (('c, 'z) rt_scheme, unit) prog" where
  "iotjs_jargs_destroy jargs =
     sq (IOTJS_ASSERT ''iotjs_jargs_destroy'' (argv jargs = None \<or> 0 < argc jargs))
     (sq (IOTJS_ASSERT ''iotjs_jargs_destroy'' (argc jargs \<le> capacity jargs))
     (if 0 < capacity jargs
      then sq (for_each [0..<argc jargs] (\<lambda>i.
             bnd (jargs_slot jargs i) iotjs_jval_destroy))
           iotjs_buffer_release
      else IOTJS_ASSERT ''iotjs_jargs_destroy'' (argv jargs = None)))"

definition iotjs_jargs_append_jval ::
  "iotjs_jargs_t \<Rightarrow> jval \<Rightarrow> (('c, 'z) rt_scheme, iotjs_jargs_t) prog" where
  "iotjs_jargs_append_jval jargs x =
     sq (IOTJS_ASSERT ''iotjs_jargs_append_jval'' (argc jargs < capacity jargs))
     (bnd (iotjs_jval_create_copied x) (\<lambda>v.
      jargs_set (jargs\<lparr>argc := argc jargs + 1\<rparr>) (argc jargs) v))"

definition iotjs_jargs_append_undefined ::
  "iotjs_jargs_t \<Rightarrow> (('c, 'z) rt_scheme, iotjs_jargs_t) prog" where
  "iotjs_jargs_append_undefined jargs = iotjs_jargs_append_jval jargs JUndefined"

definition iotjs_jargs_append_null ::
  "iotjs_jargs_t \<Rightarrow> (('c, 'z) rt_scheme, iotjs_jargs_t) prog" where
  "iotjs_jargs_append_null jargs = iotjs_jargs_append_jval jargs JNull"

definition iotjs_jargs_append_bool ::
  "iotjs_jargs_t \<Rightarrow> bool \<Rightarrow> (('c, 'z) rt_scheme, iotjs_jargs_t) prog" where
  "iotjs_jargs_append_bool jargs x = iotjs_jargs_append_jval jargs (JBool x)"

definition iotjs_jargs_append_number ::
  "iotjs_jargs_t \<Rightarrow> double \<Rightarrow> (('c, 'z) rt_scheme, iotjs_jargs_t) prog" where
  "iotjs_jargs_append_number jargs x =
     bnd (iotjs_jval_create_number x) (\<lambda>jval.
     bnd (iotjs_jargs_append_jval jargs jval) (\<lambda>jargs.
     sq (iotjs_jval_destroy jval) (ret jargs)))"

definition iotjs_jargs_append_string ::
  "iotjs_jargs_t \<Rightarrow> iotjs_string_t \<Rightarrow> (('c, 'z) rt_scheme, iotjs_jargs_t) prog" where
  "iotjs_jargs_append_string jargs x =
     bnd (iotjs_jval_create_string x) (\<lambda>jval.
     bnd (iotjs_jargs_append_jval jargs jval) (\<lambda>jargs.
     sq (iotjs_jval_destroy jval) (ret jargs)))"

definition iotjs_jargs_append_string_raw ::
  "iotjs_jargs_t \<Rightarrow> string \<Rightarrow> (('c, 'z) rt_scheme, iotjs_jargs_t) prog" where
  "iotjs_jargs_append_string_raw jargs x =
     bnd (iotjs_jval_create_string_raw x) (\<lambda>jval.
     bnd (iotjs_jargs_append_jval jargs jval) (\<lambda>jargs.
     sq (iotjs_jval_destroy jval) (ret jargs)))"

definition iotjs_jargs_replace ::
  "iotjs_jargs_t \<Rightarrow> nat \<Rightarrow> jval \<Rightarrow> (('c, 'z) rt_scheme, iotjs_jargs_t) prog" where
  "iotjs_jargs_replace jargs index x =
     sq (IOTJS_ASSERT ''iotjs_jargs_replace'' (index < argc jargs))
     (bnd (jargs_slot jargs index) (\<lambda>old.
      sq (iotjs_jval_destroy old)
      (bnd (iotjs_jval_create_copied x) (jargs_set jargs index))))"

definition iotjs_jargs_get :: "iotjs_jargs_t \<Rightarrow> nat \<Rightarrow> (('c, 'z) rt_scheme, jval) prog" where
  "iotjs_jargs_get jargs index =
     sq (IOTJS_ASSERT ''iotjs_jargs_get'' (index < argc jargs)) (jargs_slot jargs index)"

section \<open>Calls into JavaScript\<close>

fun jargs_values :: "iotjs_jargs_t \<Rightarrow> nat list \<Rightarrow> (('c, 'z) rt_scheme, jval list) prog" where
  "jargs_values jargs [] = ret []"
| "jargs_values jargs (i # is) =
     bnd (iotjs_jargs_get jargs i) (\<lambda>v.
     bnd (jargs_values jargs is) (\<lambda>vs. ret (v # vs)))"

definition iotjs_jhelper_call ::
  "'c engine \<Rightarrow> jval \<Rightarrow> jval \<Rightarrow> iotjs_jargs_t \<Rightarrow> (('c, 'z) rt_scheme, bool \<times> jval) prog" where
  "iotjs_jhelper_call E jfunc jthis jargs =
     sq (IOTJS_ASSERT ''iotjs_jhelper_call'' (is_object jfunc))
     (sq (if 0 < argc jargs then bnd (iotjs_buffer_allocate (argc jargs)) (\<lambda>_. ret ())
          else ret ())
     (bnd (jargs_values jargs [0..<argc jargs]) (\<lambda>vs.
      bnd (gets (\<lambda>s. e_call E (trace s) jfunc jthis vs)) (\<lambda>(throws, res).
      sq (emit (ECall jfunc jthis vs throws res))
     (sq (if 0 < argc jargs then iotjs_buffer_release else ret ())
      (ret (throws, res)))))))"

definition iotjs_jhelper_call_ok ::
  "'c engine \<Rightarrow> jval \<Rightarrow> jval \<Rightarrow> iotjs_jargs_t \<Rightarrow> (('c, 'z) rt_scheme, jval) prog" where
  "iotjs_jhelper_call_ok E jfunc jthis jargs =
     bnd (iotjs_jhelper_call E jfunc jthis jargs) (\<lambda>(throws, jres).
     sq (IOTJS_ASSERT ''iotjs_jhelper_call_ok'' (\<not> throws)) (ret jres))"

definition iotjs_jhelper_eval ::
  "'c engine \<Rightarrow> string \<Rightarrow> (('c, 'z) rt_scheme, bool \<times> jval) prog" where
  "iotjs_jhelper_eval E code =
     bnd (gets (\<lambda>s. e_eval E (trace s) code)) (\<lambda>(throws, res).
     sq (emit (EEval code throws res)) (ret (throws, res)))"

section \<open>The frame of a native handler\<close>

record 'c hrt = "'c rt" +
  h_this :: jval
  h_argv :: "jval list"
  h_ret :: "bool \<times> jval"
  h_finished :: bool

definition iotjs_jhandler_initialize ::
  "jval \<Rightarrow> jval list \<Rightarrow> (('c, 'z) hrt_scheme, unit) prog" where
  "iotjs_jhandler_initialize jthis jargv =
     sq (emit (EAcquire JUndefined))
     (sq (if jargv \<noteq> [] then bnd (iotjs_buffer_allocate (length jargv)) (\<lambda>_. ret ()) else ret ())
     (upd (\<lambda>s. s\<lparr>h_this := jthis, h_argv := jargv, h_ret := (False, JUndefined),
        h_finished := False\<rparr>)))"

definition iotjs_jhandler_destroy :: "(('c, 'z) hrt_scheme, unit) prog" where
  "iotjs_jhandler_destroy =
     bnd (gets h_argv) (\<lambda>args. if args \<noteq> [] then iotjs_buffer_release else ret ())"

definition iotjs_jhandler_get_this :: "(('c, 'z) hrt_scheme, jval) prog" where
  "iotjs_jhandler_get_this = gets h_this"

definition iotjs_jhandler_get_arg_length :: "(('c, 'z) hrt_scheme, nat) prog" where
  "iotjs_jhandler_get_arg_length = gets (\<lambda>s. length (h_argv s))"

definition iotjs_jhandler_get_arg :: "nat \<Rightarrow> (('c, 'z) hrt_scheme, jval) prog" where
  "iotjs_jhandler_get_arg index =
     bnd (gets h_argv) (\<lambda>args.
     sq (IOTJS_ASSERT ''iotjs_jhandler_get_arg'' (index < length args)) (ret (args ! index)))"

definition iotjs_jhandler_return_jval :: "jval \<Rightarrow> (('c, 'z) hrt_scheme, unit) prog" where
  "iotjs_jhandler_return_jval v =
     bnd (gets h_finished) (\<lambda>fin.
     sq (IOTJS_ASSERT ''iotjs_jhandler_return_jval'' (\<not> fin))
     (bnd (gets h_ret) (\<lambda>old.
      sq (iotjs_jval_destroy (snd old))
      (bnd (iotjs_jval_create_copied v) (\<lambda>v.
       upd (\<lambda>s. s\<lparr>h_ret := (False, v), h_finished := True\<rparr>))))))"

definition iotjs_jhandler_return_undefined :: "(('c, 'z) hrt_scheme, unit) prog" where
  "iotjs_jhandler_return_undefined = iotjs_jhandler_return_jval JUndefined"

definition iotjs_jhandler_return_null :: "(('c, 'z) hrt_scheme, unit) prog" where
  "iotjs_jhandler_return_null = iotjs_jhandler_return_jval JNull"

definition iotjs_jhandler_return_boolean :: "bool \<Rightarrow> (('c, 'z) hrt_scheme, unit) prog" where
  "iotjs_jhandler_return_boolean b = iotjs_jhandler_return_jval (JBool b)"

definition iotjs_jhandler_return_number :: "double \<Rightarrow> (('c, 'z) hrt_scheme, unit) prog" where
  "iotjs_jhandler_return_number d =
     bnd (iotjs_jval_create_number d) (\<lambda>jval.
     sq (iotjs_jhandler_return_jval jval) (iotjs_jval_destroy jval))"

definition iotjs_jhandler_return_string :: "iotjs_string_t \<Rightarrow> (('c, 'z) hrt_scheme, unit) prog" where
  "iotjs_jhandler_return_string str =
     bnd (iotjs_jval_create_string str) (\<lambda>jval.
     sq (iotjs_jhandler_return_jval jval) (iotjs_jval_destroy jval))"

definition iotjs_jhandler_return_string_raw :: "string \<Rightarrow> (('c, 'z) hrt_scheme, unit) prog" where
  "iotjs_jhandler_return_string_raw str =
     bnd (iotjs_jval_create_string_raw str) (\<lambda>jval.
     sq (iotjs_jhandler_return_jval jval) (iotjs_jval_destroy jval))"

definition iotjs_jhandler_throw :: "jval \<Rightarrow> (('c, 'z) hrt_scheme, unit) prog" where
  "iotjs_jhandler_throw err =
     bnd (gets h_finished) (\<lambda>fin.
     sq (IOTJS_ASSERT ''iotjs_jhandler_throw'' (\<not> fin))
     (bnd (gets h_ret) (\<lambda>old.
      sq (iotjs_jval_destroy (snd old))
      (bnd (iotjs_jval_create_copied err) (\<lambda>v.
       upd (\<lambda>s. s\<lparr>h_ret := (True, v), h_finished := True\<rparr>))))))"

text \<open>The macros. A check that fails throws and returns, so each takes the rest of the body.\<close>

definition JHANDLER_THROW ::
  "'c engine \<Rightarrow> iotjs_error_t \<Rightarrow> string \<Rightarrow> (('c, 'z) hrt_scheme, unit) prog" where
  "JHANDLER_THROW E type message =
     bnd (iotjs_jval_create_error_type E type message) (\<lambda>e.
     sq (iotjs_jhandler_throw e) (iotjs_jval_destroy e))"

definition JHANDLER_CHECK ::
  "'c engine \<Rightarrow> string \<Rightarrow> bool \<Rightarrow> (('c, 'z) hrt_scheme, unit) prog \<Rightarrow>
     (('c, 'z) hrt_scheme, unit) prog" where
  "JHANDLER_CHECK E func predicate rest =
     (if predicate then rest
      else JHANDLER_THROW E IOTJS_ERROR_COMMON
             (take 62 (''Internal error ('' @ func @ '')'')))"

fun JHANDLER_CHECK_ARG_FROM ::
  "'c engine \<Rightarrow> string \<Rightarrow> nat \<Rightarrow> (jval \<Rightarrow> bool) list \<Rightarrow> (('c, 'z) hrt_scheme, unit) prog \<Rightarrow>
     (('c, 'z) hrt_scheme, unit) prog" where
  "JHANDLER_CHECK_ARG_FROM E func i [] rest = rest"
| "JHANDLER_CHECK_ARG_FROM E func i (type # types) rest =
     bnd (iotjs_jhandler_get_arg i) (\<lambda>v.
     JHANDLER_CHECK E func (type v) (JHANDLER_CHECK_ARG_FROM E func (Suc i) types rest))"

definition JHANDLER_CHECK_ARGS ::
  "'c engine \<Rightarrow> string \<Rightarrow> (jval \<Rightarrow> bool) list \<Rightarrow> (('c, 'z) hrt_scheme, unit) prog \<Rightarrow>
     (('c, 'z) hrt_scheme, unit) prog" where
  "JHANDLER_CHECK_ARGS E func types rest =
     bnd iotjs_jhandler_get_arg_length (\<lambda>n.
     JHANDLER_CHECK E func (length types \<le> n) (JHANDLER_CHECK_ARG_FROM E func 0 types rest))"

definition JHANDLER_CHECK_ARG_IF_EXIST ::
  "'c engine \<Rightarrow> string \<Rightarrow> nat \<Rightarrow> (jval \<Rightarrow> bool) \<Rightarrow> (('c, 'z) hrt_scheme, unit) prog \<Rightarrow>
     (('c, 'z) hrt_scheme, unit) prog" where
  "JHANDLER_CHECK_ARG_IF_EXIST E func index type rest =
     bnd iotjs_jhandler_get_arg_length (\<lambda>n.
     if index < n
     then bnd (iotjs_jhandler_get_arg index) (\<lambda>v. JHANDLER_CHECK E func (type v) rest)
     else rest)"

definition JHANDLER_CHECK_THIS ::
  "'c engine \<Rightarrow> string \<Rightarrow> (jval \<Rightarrow> bool) \<Rightarrow> (('c, 'z) hrt_scheme, unit) prog \<Rightarrow>
     (('c, 'z) hrt_scheme, unit) prog" where
  "JHANDLER_CHECK_THIS E func type rest =
     bnd iotjs_jhandler_get_this (\<lambda>v. JHANDLER_CHECK E func (type v) rest)"

definition JHANDLER_GET_ARG ::
  "nat \<Rightarrow> (jval \<Rightarrow> (('c, 'z) hrt_scheme, 'a) prog) \<Rightarrow> (('c, 'z) hrt_scheme, 'a) prog" where
  "JHANDLER_GET_ARG index as = bnd (iotjs_jhandler_get_arg index) as"

definition JHANDLER_GET_ARG_IF_EXIST ::
  "nat \<Rightarrow> (jval \<Rightarrow> bool) \<Rightarrow> (('c, 'z) hrt_scheme, jval option) prog" where
  "JHANDLER_GET_ARG_IF_EXIST index type =
     bnd iotjs_jhandler_get_arg_length (\<lambda>n.
     if index < n
     then bnd (iotjs_jhandler_get_arg index) (\<lambda>v. ret (if type v then Some v else None))
     else ret None)"

definition JHANDLER_GET_THIS :: "(('c, 'z) hrt_scheme, jval) prog" where
  "JHANDLER_GET_THIS = bnd iotjs_jhandler_get_this iotjs_jval_as_object"

text \<open>\<^verbatim>\<open>JHANDLER_FUNCTION\<close>: what the engine calls. The reference in the result is the engine's.\<close>

definition JHANDLER_FUNCTION ::
  "(('c, 'z) hrt_scheme, unit) prog \<Rightarrow> jval \<Rightarrow> jval list \<Rightarrow>
     (('c, 'z) hrt_scheme, bool \<times> jval) prog" where
  "JHANDLER_FUNCTION native jthis jargv =
     sq (iotjs_jhandler_initialize jthis jargv)
     (sq native
     (bnd (gets h_ret) (\<lambda>ret_val.
      sq iotjs_jhandler_destroy (ret ret_val))))"

section \<open>Rules for values\<close>

definition jargs_of :: "nat \<Rightarrow> jval list \<Rightarrow> iotjs_jargs_t" where
  "jargs_of cap vs =
     \<lparr>capacity = cap, argc = length vs,
      argv = Some (map Some vs @ replicate (cap - length vs) None)\<rparr>"

text \<open>\<open>jargs_of cap vs\<close> is the vector of capacity \<open>cap\<close> to which \<open>vs\<close> have been appended.\<close>

lemma jargs_of_sel [simp]:
  "capacity (jargs_of cap vs) = cap" "argc (jargs_of cap vs) = length vs"
  by (simp_all add: jargs_of_def)

lemma wp_jval_create [wp_simps]:
  "wp (iotjs_jval_create_number d) Q s = Q (JNumber d) (s\<lparr>trace := trace s @ [ECreate (JNumber d)]\<rparr>)"
  "wp (iotjs_jval_create_string str) Q s =
     Q (JString (contents str)) (s\<lparr>trace := trace s @ [ECreate (JString (contents str))]\<rparr>)"
  "wp (iotjs_jval_create_string_raw t) Q s = Q (JString t) (s\<lparr>trace := trace s @ [ECreate (JString t)]\<rparr>)"
  "wp (iotjs_jval_create_copied v) Q s = Q v (s\<lparr>trace := trace s @ [EAcquire v]\<rparr>)"
  "wp (iotjs_jval_destroy v) Qu s = Qu () (s\<lparr>trace := trace s @ [ERelease v]\<rparr>)"
  by (simp_all add: iotjs_jval_create_number_def iotjs_jval_create_string_def
      iotjs_jval_create_string_raw_def iotjs_jval_create_copied_def iotjs_jval_destroy_def wp_simps)

lemma wp_jval_create_new [wp_simps]:
  "wp (iotjs_jval_create_object E) Q s =
     Q (JObject (e_new E (trace s))) (s\<lparr>trace := trace s @ [ECreate (JObject (e_new E (trace s)))]\<rparr>)"
  "wp (iotjs_jval_create_array E) Q s =
     Q (JArray (e_new E (trace s))) (s\<lparr>trace := trace s @ [ECreate (JArray (e_new E (trace s)))]\<rparr>)"
  "wp (iotjs_jval_create_function E) Q s =
     Q (JFunction (e_new E (trace s))) (s\<lparr>trace := trace s @ [ECreate (JFunction (e_new E (trace s)))]\<rparr>)"
  "wp (iotjs_jval_create_error_type E ty msg) Q s =
     Q (JObject (e_new E (trace s)))
       (s\<lparr>trace := trace s @ [ECreateError (JObject (e_new E (trace s))) ty msg]\<rparr>)"
  "wp (iotjs_jval_create_error E msg) Q s =
     Q (JObject (e_new E (trace s)))
       (s\<lparr>trace := trace s @ [ECreateError (JObject (e_new E (trace s))) IOTJS_ERROR_COMMON msg]\<rparr>)"
  by (simp_all add: iotjs_jval_create_object_def iotjs_jval_create_array_def jerry_create_def
      iotjs_jval_create_function_def iotjs_jval_create_error_type_def iotjs_jval_create_error_def
      wp_simps)

lemma wp_jval_as [wp_simps]:
  "wp (iotjs_jval_as_boolean v) Qb s \<longleftrightarrow> (\<exists>b. v = JBool b \<and> Qb b s)"
  "wp (iotjs_jval_as_number v) Qn s \<longleftrightarrow> (\<exists>d. v = JNumber d \<and> Qn d s)"
  "wp (iotjs_jval_as_object v) Q s \<longleftrightarrow> is_object v \<and> Q v s"
  "wp (iotjs_jval_as_array v) Q s \<longleftrightarrow> is_array v \<and> Q v s"
  "wp (iotjs_jval_as_function v) Q s \<longleftrightarrow> is_function v \<and> Q v s"
  by (auto simp: iotjs_jval_as_boolean_def iotjs_jval_as_number_def iotjs_jval_as_object_def
      iotjs_jval_as_array_def iotjs_jval_as_function_def wp_simps split: jval.split)

lemma wp_set_property [wp_simps]:
  "wp (iotjs_jval_set_property_jval E j name v) Q s \<longleftrightarrow>
     is_object j \<and> \<not> e_set E (trace s @ [ECreate (JString name)]) j name v \<and>
     Q () (s\<lparr>trace := trace s @ [ECreate (JString name), ESetProp j name v, ERelease (JString name)]\<rparr>)"
  by (auto simp: iotjs_jval_set_property_jval_def wp_simps)

lemma wp_get_property [wp_simps]:
  "wp (iotjs_jval_get_property E j name) Q s \<longleftrightarrow>
     is_object j \<and>
     (case e_prop E (trace s @ [ECreate (JString name)]) j name of (err, r) \<Rightarrow>
        if err then Q JUndefined (s\<lparr>trace := trace s @ [ECreate (JString name), EGetProp j name r,
             ERelease (JString name), ERelease r, EAcquire JUndefined]\<rparr>)
        else Q r (s\<lparr>trace := trace s @ [ECreate (JString name), EGetProp j name r,
             ERelease (JString name)]\<rparr>))"
  by (auto simp: iotjs_jval_get_property_def wp_simps split: prod.splits)

lemma wp_native_handle [wp_simps]:
  "wp (iotjs_jval_set_object_native_handle j p) Qu s \<longleftrightarrow>
     is_object j \<and> Qu () (s\<lparr>trace := trace s @ [ESetNative j p]\<rparr>)"
  "wp (iotjs_jval_get_object_native_handle E j) Q s \<longleftrightarrow> is_object j \<and> Q (e_native E (trace s) j) s"
  by (simp_all add: iotjs_jval_set_object_native_handle_def
      iotjs_jval_get_object_native_handle_def wp_simps)

section \<open>Rules for argument vectors\<close>

lemma wp_jargs_create [wp_simps]:
  "0 < cap \<Longrightarrow> wp (iotjs_jargs_create cap) Q s = Q (jargs_of cap []) (s\<lparr>blocks := blocks s + 1\<rparr>)"
  by (simp add: iotjs_jargs_create_def jargs_of_def wp_simps)

lemma jargs_set_append:
  "length vs < cap \<Longrightarrow>
   jargs_set ((jargs_of cap vs)\<lparr>argc := Suc (length vs)\<rparr>) (length vs) v = ret (jargs_of cap (vs @ [v]))"
  using Suc_diff_Suc[of "length vs" cap, symmetric]
  by (simp add: jargs_set_def jargs_of_def list_update_append)

lemma wp_jargs_append_jval [wp_simps]:
  "length vs < cap \<Longrightarrow>
   wp (iotjs_jargs_append_jval (jargs_of cap vs) v) Q s =
     Q (jargs_of cap (vs @ [v])) (s\<lparr>trace := trace s @ [EAcquire v]\<rparr>)"
  by (simp add: iotjs_jargs_append_jval_def jargs_set_append wp_simps)

lemma wp_jargs_append [wp_simps]:
  "length vs < cap \<Longrightarrow>
   wp (iotjs_jargs_append_null (jargs_of cap vs)) Q s =
     Q (jargs_of cap (vs @ [JNull])) (s\<lparr>trace := trace s @ [EAcquire JNull]\<rparr>)"
  "length vs < cap \<Longrightarrow>
   wp (iotjs_jargs_append_undefined (jargs_of cap vs)) Q s =
     Q (jargs_of cap (vs @ [JUndefined])) (s\<lparr>trace := trace s @ [EAcquire JUndefined]\<rparr>)"
  "length vs < cap \<Longrightarrow>
   wp (iotjs_jargs_append_bool (jargs_of cap vs) b) Q s =
     Q (jargs_of cap (vs @ [JBool b])) (s\<lparr>trace := trace s @ [EAcquire (JBool b)]\<rparr>)"
  "length vs < cap \<Longrightarrow>
   wp (iotjs_jargs_append_number (jargs_of cap vs) d) Q s =
     Q (jargs_of cap (vs @ [JNumber d]))
       (s\<lparr>trace := trace s @ [ECreate (JNumber d), EAcquire (JNumber d), ERelease (JNumber d)]\<rparr>)"
  "length vs < cap \<Longrightarrow>
   wp (iotjs_jargs_append_string_raw (jargs_of cap vs) t) Q s =
     Q (jargs_of cap (vs @ [JString t]))
       (s\<lparr>trace := trace s @ [ECreate (JString t), EAcquire (JString t), ERelease (JString t)]\<rparr>)"
  "length vs < cap \<Longrightarrow>
   wp (iotjs_jargs_append_string (jargs_of cap vs) str) Q s =
     Q (jargs_of cap (vs @ [JString (contents str)]))
       (s\<lparr>trace := trace s @ [ECreate (JString (contents str)), EAcquire (JString (contents str)),
          ERelease (JString (contents str))]\<rparr>)"
  by (simp_all add: iotjs_jargs_append_null_def iotjs_jargs_append_undefined_def
      iotjs_jargs_append_bool_def iotjs_jargs_append_number_def iotjs_jargs_append_string_raw_def
      iotjs_jargs_append_string_def wp_simps)

lemma jargs_slot_of: "i < length vs \<Longrightarrow> jargs_slot (jargs_of cap vs) i = ret (vs ! i)"
  by (simp add: jargs_slot_def jargs_of_def nth_append)

lemma wp_jargs_get [wp_simps]:
  "wp (iotjs_jargs_get (jargs_of cap vs) i) Q s \<longleftrightarrow> i < length vs \<and> Q (vs ! i) s"
  by (auto simp: iotjs_jargs_get_def jargs_slot_of wp_simps)

lemma wp_jargs_replace [wp_simps]:
  "i < length vs \<Longrightarrow> length vs \<le> cap \<Longrightarrow>
   wp (iotjs_jargs_replace (jargs_of cap vs) i v) Q s =
     Q (jargs_of cap (vs[i := v])) (s\<lparr>trace := trace s @ [ERelease (vs ! i), EAcquire v]\<rparr>)"
  by (simp add: iotjs_jargs_replace_def jargs_slot_of wp_simps jargs_set_def)
    (simp add: jargs_of_def list_update_append map_update wp_simps)

lemma wp_release_slots:
  "k \<le> length vs \<Longrightarrow>
   wp (for_each [k..<length vs] (\<lambda>i. bnd (jargs_slot (jargs_of cap vs) i) iotjs_jval_destroy)) Q s =
     Q () (s\<lparr>trace := trace s @ map ERelease (drop k vs)\<rparr>)"
proof (induction "length vs - k" arbitrary: k s)
  case 0
  then show ?case by (simp add: wp_simps)
next
  case (Suc n)
  then have k: "k < length vs" by simp
  then have "[k..<length vs] = k # [Suc k..<length vs]" by (rule upt_conv_Cons)
  with k Suc(1)[of "Suc k"] Suc(2) show ?case
    by (simp add: wp_simps jargs_slot_of Cons_nth_drop_Suc[symmetric])
qed

lemma wp_jargs_destroy [wp_simps]:
  "vs \<noteq> [] \<Longrightarrow> length vs \<le> cap \<Longrightarrow>
   wp (iotjs_jargs_destroy (jargs_of cap vs)) Q s =
     Q () (s\<lparr>trace := trace s @ map ERelease vs, blocks := blocks s - 1\<rparr>)"
  by (auto simp: iotjs_jargs_destroy_def wp_simps wp_release_slots[of 0 vs cap, simplified])

lemma wp_jargs_values:
  "k \<le> length vs \<Longrightarrow>
   wp (jargs_values (jargs_of cap vs) [k..<length vs]) Q s = Q (drop k vs) s"
proof (induction "length vs - k" arbitrary: k Q)
  case 0
  then show ?case by (simp add: wp_simps)
next
  case (Suc n)
  then have k: "k < length vs" by simp
  then have "[k..<length vs] = k # [Suc k..<length vs]" by (rule upt_conv_Cons)
  with k Suc(1)[of "Suc k"] Suc(2)
  have "wp (jargs_values (jargs_of cap vs) [k..<length vs]) Q s = Q (vs ! k # drop (Suc k) vs) s"
    by (simp add: wp_simps)
  then show ?case by (simp only: Cons_nth_drop_Suc[OF k])
qed

lemma wp_jhelper_call [wp_simps]:
  "wp (iotjs_jhelper_call E f t (jargs_of cap vs)) Q s \<longleftrightarrow>
     is_object f \<and>
     (case e_call E (trace s) f t vs of (th, r) \<Rightarrow>
        Q (th, r) (s\<lparr>trace := trace s @ [ECall f t vs th r]\<rparr>))"
  by (auto simp: iotjs_jhelper_call_def wp_simps wp_jargs_values[of 0 vs cap, simplified]
      split: prod.splits)

lemma wp_jhelper_call_empty [wp_simps]:
  "wp (iotjs_jhelper_call E f t jargs_empty) Q s \<longleftrightarrow>
     is_object f \<and>
     (case e_call E (trace s) f t [] of (th, r) \<Rightarrow>
        Q (th, r) (s\<lparr>trace := trace s @ [ECall f t [] th r]\<rparr>))"
  by (auto simp: iotjs_jhelper_call_def wp_simps jargs_empty_def split: prod.splits)

section \<open>Rules for the handler frame\<close>

lemma wp_handler_return [wp_simps]:
  "wp (iotjs_jhandler_return_jval v) Q s \<longleftrightarrow> \<not> h_finished s \<and>
     Q () (s\<lparr>trace := trace s @ [ERelease (snd (h_ret s)), EAcquire v],
             h_ret := (False, v), h_finished := True\<rparr>)"
  "wp (iotjs_jhandler_throw v) Q s \<longleftrightarrow> \<not> h_finished s \<and>
     Q () (s\<lparr>trace := trace s @ [ERelease (snd (h_ret s)), EAcquire v],
             h_ret := (True, v), h_finished := True\<rparr>)"
  by (auto simp: iotjs_jhandler_return_jval_def iotjs_jhandler_throw_def wp_simps)

lemma wp_handler_return_const [wp_simps]:
  "wp iotjs_jhandler_return_null Q s = wp (iotjs_jhandler_return_jval JNull) Q s"
  "wp iotjs_jhandler_return_undefined Q s = wp (iotjs_jhandler_return_jval JUndefined) Q s"
  "wp (iotjs_jhandler_return_boolean b) Q s = wp (iotjs_jhandler_return_jval (JBool b)) Q s"
  by (simp_all add: iotjs_jhandler_return_null_def iotjs_jhandler_return_undefined_def
      iotjs_jhandler_return_boolean_def)

lemma wp_handler_return_new [wp_simps]:
  "wp (iotjs_jhandler_return_number d) Q s \<longleftrightarrow> \<not> h_finished s \<and>
     Q () (s\<lparr>trace := trace s @ [ECreate (JNumber d), ERelease (snd (h_ret s)),
                EAcquire (JNumber d), ERelease (JNumber d)],
             h_ret := (False, JNumber d), h_finished := True\<rparr>)"
  "wp (iotjs_jhandler_return_string str) Q s \<longleftrightarrow> \<not> h_finished s \<and>
     Q () (s\<lparr>trace := trace s @ [ECreate (JString (contents str)), ERelease (snd (h_ret s)),
                EAcquire (JString (contents str)), ERelease (JString (contents str))],
             h_ret := (False, JString (contents str)), h_finished := True\<rparr>)"
  "wp (iotjs_jhandler_return_string_raw t) Q s \<longleftrightarrow> \<not> h_finished s \<and>
     Q () (s\<lparr>trace := trace s @ [ECreate (JString t), ERelease (snd (h_ret s)),
                EAcquire (JString t), ERelease (JString t)],
             h_ret := (False, JString t), h_finished := True\<rparr>)"
  by (cases s, simp add: iotjs_jhandler_return_number_def iotjs_jhandler_return_string_def
      iotjs_jhandler_return_string_raw_def wp_simps)+

lemma wp_JHANDLER_THROW [wp_simps]:
  "wp (JHANDLER_THROW E ty m) Q s \<longleftrightarrow> \<not> h_finished s \<and>
     Q () (s\<lparr>trace := trace s @ [ECreateError (JObject (e_new E (trace s))) ty m,
                ERelease (snd (h_ret s)), EAcquire (JObject (e_new E (trace s))),
                ERelease (JObject (e_new E (trace s)))],
             h_ret := (True, JObject (e_new E (trace s))), h_finished := True\<rparr>)"
  by (cases s) (auto simp: JHANDLER_THROW_def wp_simps)

lemma wp_handler_get [wp_simps]:
  "wp iotjs_jhandler_get_arg_length Qn s = Qn (length (h_argv s)) s"
  "wp (iotjs_jhandler_get_arg i) Q s \<longleftrightarrow> i < length (h_argv s) \<and> Q (h_argv s ! i) s"
  "wp iotjs_jhandler_get_this Q s = Q (h_this s) s"
  "wp JHANDLER_GET_THIS Q s \<longleftrightarrow> is_object (h_this s) \<and> Q (h_this s) s"
  by (auto simp: iotjs_jhandler_get_arg_length_def iotjs_jhandler_get_arg_def
      iotjs_jhandler_get_this_def JHANDLER_GET_THIS_def wp_simps)

lemma wp_JHANDLER_GET_ARG [wp_simps]:
  "wp (JHANDLER_GET_ARG i as) Q s \<longleftrightarrow> i < length (h_argv s) \<and> wp (as (h_argv s ! i)) Q s"
  by (simp add: JHANDLER_GET_ARG_def wp_simps)

lemma wp_JHANDLER_GET_ARG_IF_EXIST [wp_simps]:
  "wp (JHANDLER_GET_ARG_IF_EXIST i ty) Q s =
     Q (if i < length (h_argv s) \<and> ty (h_argv s ! i) then Some (h_argv s ! i) else None) s"
  by (simp add: JHANDLER_GET_ARG_IF_EXIST_def wp_simps)

lemma wp_JHANDLER_CHECK [wp_simps]:
  "wp (JHANDLER_CHECK E func p rest) Q s =
     (if p then wp rest Q s
      else wp (JHANDLER_THROW E IOTJS_ERROR_COMMON
                 (take 62 (''Internal error ('' @ func @ '')''))) Q s)"
  by (simp add: JHANDLER_CHECK_def)

definition check_failed :: "'c engine \<Rightarrow> string \<Rightarrow> (('c, 'z) hrt_scheme, unit) prog" where
  "check_failed E func =
     JHANDLER_THROW E IOTJS_ERROR_COMMON (take 62 (''Internal error ('' @ func @ '')''))"

lemma wp_check_failed [wp_simps]:
  "wp (check_failed E func) Q s =
     wp (JHANDLER_THROW E IOTJS_ERROR_COMMON (take 62 (''Internal error ('' @ func @ '')''))) Q s"
  by (simp add: check_failed_def)

lemma wp_check_arg_from [wp_simps]:
  "wp (JHANDLER_CHECK_ARG_FROM E func i [] rest) Q s = wp rest Q s"
  "wp (JHANDLER_CHECK_ARG_FROM E func i (t # ts) rest) Q s \<longleftrightarrow>
     i < length (h_argv s) \<and>
     (if t (h_argv s ! i) then wp (JHANDLER_CHECK_ARG_FROM E func (Suc i) ts rest) Q s
      else wp (check_failed E func) Q s)"
  by (simp_all add: wp_simps)

lemma wp_JHANDLER_CHECK_ARGS [wp_simps]:
  "wp (JHANDLER_CHECK_ARGS E func types rest) Q s =
     (if length types \<le> length (h_argv s)
      then wp (JHANDLER_CHECK_ARG_FROM E func 0 types rest) Q s
      else wp (check_failed E func) Q s)"
  by (simp add: JHANDLER_CHECK_ARGS_def wp_simps)

lemma wp_JHANDLER_CHECK_ARG_IF_EXIST [wp_simps]:
  "wp (JHANDLER_CHECK_ARG_IF_EXIST E func i ty rest) Q s =
     (if i < length (h_argv s) \<and> \<not> ty (h_argv s ! i) then wp (check_failed E func) Q s
      else wp rest Q s)"
  by (auto simp: JHANDLER_CHECK_ARG_IF_EXIST_def wp_simps)

lemma wp_JHANDLER_CHECK_THIS [wp_simps]:
  "wp (JHANDLER_CHECK_THIS E func ty rest) Q s =
     (if ty (h_this s) then wp rest Q s else wp (check_failed E func) Q s)"
  by (simp add: JHANDLER_CHECK_THIS_def wp_simps)

text \<open>The argument checks together: pass, or throw and skip the body.\<close>

fun args_match :: "(jval \<Rightarrow> bool) list \<Rightarrow> jval list \<Rightarrow> bool" where
  "args_match [] vs = True"
| "args_match (t # ts) [] = False"
| "args_match (t # ts) (v # vs) = (t v \<and> args_match ts vs)"

lemma args_match_length: "args_match ts vs \<Longrightarrow> length ts \<le> length vs"
  by (induction ts vs rule: args_match.induct) auto

lemma wp_check_from:
  "i + length ts \<le> length (h_argv s) \<Longrightarrow>
   wp (JHANDLER_CHECK_ARG_FROM E func i ts rest) Q s =
     (if args_match ts (drop i (h_argv s)) then wp rest Q s else wp (check_failed E func) Q s)"
proof (induction ts arbitrary: i)
  case Nil
  then show ?case by (simp add: wp_simps)
next
  case (Cons t ts)
  then have "drop i (h_argv s) = h_argv s ! i # drop (Suc i) (h_argv s)"
    by (simp add: Cons_nth_drop_Suc)
  with Cons show ?case by (simp add: wp_check_arg_from del: JHANDLER_CHECK_ARG_FROM.simps)
qed

lemma wp_check_args:
  "wp (JHANDLER_CHECK_ARGS E func ts rest) Q s =
     (if args_match ts (h_argv s) then wp rest Q s else wp (check_failed E func) Q s)"
  using wp_check_from[of 0 ts s E func rest Q] args_match_length[of ts "h_argv s"]
  by (auto simp: wp_JHANDLER_CHECK_ARGS)

text \<open>The state in which the body of a handler starts.\<close>

definition handler_entry ::
  "jval \<Rightarrow> jval list \<Rightarrow> ('c, 'z) hrt_scheme \<Rightarrow> ('c, 'z) hrt_scheme" where
  "handler_entry jthis jargv s =
     s\<lparr>trace := trace s @ [EAcquire JUndefined],
       blocks := blocks s + (if jargv = [] then 0 else 1),
       h_this := jthis, h_argv := jargv, h_ret := (False, JUndefined), h_finished := False\<rparr>"

lemma handler_entry_sel [simp]:
  "trace (handler_entry t args s) = trace s @ [EAcquire JUndefined]"
  "blocks (handler_entry t args s) = blocks s + (if args = [] then 0 else 1)"
  "h_this (handler_entry t args s) = t" "h_argv (handler_entry t args s) = args"
  "h_ret (handler_entry t args s) = (False, JUndefined)"
  "\<not> h_finished (handler_entry t args s)"
  by (simp_all add: handler_entry_def)

lemma wp_handler_tail:
  "wp (bnd (gets h_ret) (\<lambda>r. sq iotjs_jhandler_destroy (ret r))) Q =
     (\<lambda>u. Q (h_ret u) (u\<lparr>blocks := blocks u - (if h_argv u = [] then 0 else 1)\<rparr>))"
proof (rule ext)
  fix u :: "('a, 'b) hrt_scheme"
  show "wp (bnd (gets h_ret) (\<lambda>r. sq iotjs_jhandler_destroy (ret r))) Q u =
     Q (h_ret u) (u\<lparr>blocks := blocks u - (if h_argv u = [] then 0 else 1)\<rparr>)"
    by (cases u) (simp add: iotjs_jhandler_destroy_def wp_simps)
qed

lemma wp_jhandler_initialize [wp_simps]:
  "wp (iotjs_jhandler_initialize t args) Q s = Q () (handler_entry t args s)"
  by (cases s) (simp add: iotjs_jhandler_initialize_def handler_entry_def wp_simps)

lemma wp_JHANDLER_FUNCTION [wp_simps]:
  "wp (JHANDLER_FUNCTION native t args) Q s =
     wp native (\<lambda>_ u. Q (h_ret u) (u\<lparr>blocks := blocks u - (if h_argv u = [] then 0 else 1)\<rparr>))
       (handler_entry t args s)"
  by (simp add: JHANDLER_FUNCTION_def wp_sq wp_handler_tail wp_jhandler_initialize)

section \<open>The reference count of a handler frame\<close>

text \<open>
  The frame holds one reference, in its return slot, which \<^verbatim>\<open>JHANDLER_FUNCTION\<close> hands to the
  engine. \<open>frame_refs\<close> counts the others: a handler that leaves them as they are neither leaks a
  value nor releases one it does not own.
\<close>

definition frame_refs :: "('c, 'z) hrt_scheme \<Rightarrow> jval \<Rightarrow> int" where
  "frame_refs s v = owned (trace s) v - (if v = snd (h_ret s) then 1 else 0)"

lemma frame_refs_entry [simp]: "frame_refs (handler_entry t args s) v = owned (trace s) v"
  by (simp add: frame_refs_def)

lemma owned_release_all [simp]:
  "owned (map ERelease vs) v = - int (count_list vs v)"
  by (induction vs) auto

text \<open>
  The contract of a handler's body. \<open>kept\<close> is the references that the structures of the module
  hold in a state, \<open>held\<close> its heap blocks and \<open>inv\<close> its invariant; none depends on the frame.
\<close>

locale native_handler =
  fixes body :: "(('c, 'z) hrt_scheme, unit) prog"
    and inv :: "('c, 'z) hrt_scheme \<Rightarrow> bool"
    and kept :: "('c, 'z) hrt_scheme \<Rightarrow> jval \<Rightarrow> int"
    and heap :: "('c, 'z) hrt_scheme \<Rightarrow> int"
    and pre :: "jval \<Rightarrow> jval list \<Rightarrow> ('c, 'z) hrt_scheme \<Rightarrow> bool"
  assumes frame_free:
      "inv (s\<lparr>blocks := b\<rparr>) = inv s" "kept (s\<lparr>blocks := b\<rparr>) = kept s"
      "heap (s\<lparr>blocks := b\<rparr>) = heap s"
      "inv (s\<lparr>trace := trace s @ [ERelease v]\<rparr>) = inv s"
      "kept (s\<lparr>trace := trace s @ [ERelease v]\<rparr>) = kept s"
      "heap (s\<lparr>trace := trace s @ [ERelease v]\<rparr>) = heap s"
    and body_law: "inv s \<Longrightarrow> pre t args s \<Longrightarrow>
      wp body (\<lambda>_ u. inv u \<and> h_argv u = args \<and>
        (\<forall>v. frame_refs u v - kept u v = owned (trace s) v - kept s v) \<and>
        blocks u - heap u = blocks (handler_entry t args s) - heap s) (handler_entry t args s)"
begin

lemma call_law:
  assumes "inv s" "pre t args s"
  shows "wp (JHANDLER_FUNCTION body t args) (\<lambda>(th, r) u. inv u \<and>
     (\<forall>v. owned (trace u) v - kept u v = owned (trace s) v - kept s v + (if v = r then 1 else 0)) \<and>
     blocks u - heap u = blocks s - heap s) s"
  unfolding wp_JHANDLER_FUNCTION
proof (rule wp_mono[OF body_law[OF assms]])
  fix x u
  assume u: "inv u \<and> h_argv u = args \<and>
    (\<forall>v. frame_refs u v - kept u v = owned (trace s) v - kept s v) \<and>
    blocks u - heap u = blocks (handler_entry t args s) - heap s"
  have own: "owned (trace u) v - kept u v =
      owned (trace s) v - kept s v + (if v = snd (h_ret u) then 1 else 0)" for v
  proof -
    from u have "frame_refs u v - kept u v = owned (trace s) v - kept s v" by blast
    then show ?thesis by (simp add: frame_refs_def)
  qed
  show "(case h_ret u of (th, r) \<Rightarrow> \<lambda>u. inv u \<and>
     (\<forall>v. owned (trace u) v - kept u v = owned (trace s) v - kept s v + (if v = r then 1 else 0)) \<and>
     blocks u - heap u = blocks s - heap s) (u\<lparr>blocks := blocks u - (if h_argv u = [] then 0 else 1)\<rparr>)"
    by (cases "h_ret u") (use u own in \<open>simp add: frame_free\<close>)
qed

text \<open>The engine calls the handler and later drops the value it was given.\<close>

definition serve :: "jval \<times> jval list \<Rightarrow> (('c, 'z) hrt_scheme, unit) prog" where
  "serve = (\<lambda>(t, args). bnd (JHANDLER_FUNCTION body t args) (\<lambda>(th, r). iotjs_jval_destroy r))"

lemma serve_law:
  assumes "inv s" "pre t args s"
  shows "wp (serve (t, args)) (\<lambda>_ u. inv u \<and>
     (\<forall>v. owned (trace u) v - kept u v = owned (trace s) v - kept s v) \<and>
     blocks u - heap u = blocks s - heap s) s"
  unfolding serve_def prod.case wp_bnd
  by (rule wp_mono[OF call_law[OF assms]])
    (auto simp: wp_simps frame_free split: prod.splits if_splits)

lemma serve_all:
  assumes "inv s" "\<And>t args s. (t, args) \<in> set calls \<Longrightarrow> inv s \<Longrightarrow> pre t args s"
  shows "wp (for_each calls serve) (\<lambda>_ u. inv u \<and>
     (\<forall>v. owned (trace u) v - kept u v = owned (trace s) v - kept s v) \<and>
     blocks u - heap u = blocks s - heap s) s"
  using assms
proof (induction calls arbitrary: s)
  case Nil
  then show ?case by (simp add: wp_simps)
next
  case (Cons c calls)
  obtain t args where c: "c = (t, args)" by (cases c)
  have "wp (serve c) (\<lambda>_ u. wp (for_each calls serve) (\<lambda>_ u. inv u \<and>
     (\<forall>v. owned (trace u) v - kept u v = owned (trace s) v - kept s v) \<and>
     blocks u - heap u = blocks s - heap s) u) s"
    unfolding c
  proof (rule wp_mono[OF serve_law])
    fix x u
    assume u: "inv u \<and> (\<forall>v. owned (trace u) v - kept u v = owned (trace s) v - kept s v) \<and>
      blocks u - heap u = blocks s - heap s"
    then have "wp (for_each calls serve) (\<lambda>_ w. inv w \<and>
      (\<forall>v. owned (trace w) v - kept w v = owned (trace u) v - kept u v) \<and>
      blocks w - heap w = blocks u - heap u) u"
      using Cons.prems by (intro Cons.IH) auto
    then show "wp (for_each calls serve) (\<lambda>_ w. inv w \<and>
      (\<forall>v. owned (trace w) v - kept w v = owned (trace s) v - kept s v) \<and>
      blocks w - heap w = blocks s - heap s) u"
      using u by simp
  qed (use Cons.prems c in auto)
  then show ?case by (simp add: wp_simps)
qed

end

text \<open>From the end of a body that changes no count to the call as the engine sees it.\<close>

definition body_ends ::
  "jval \<Rightarrow> jval list \<Rightarrow> bool \<times> jval \<Rightarrow> ('c, 'z) hrt_scheme \<Rightarrow> ('c, 'z) hrt_scheme \<Rightarrow> bool" where
  "body_ends t args r s u \<longleftrightarrow> h_argv u = args \<and> h_ret u = r \<and>
     (\<forall>v. frame_refs u v = owned (trace s) v) \<and> blocks u = blocks (handler_entry t args s)"

text \<open>
  Inside the body: nothing gained or lost so far and no result yet. The return functions end such
  a body, and add to the trace only (\<open>finishes\<close>).
\<close>

definition in_frame ::
  "jval \<Rightarrow> jval list \<Rightarrow> ('c, 'z) hrt_scheme \<Rightarrow> ('c, 'z) hrt_scheme \<Rightarrow> bool" where
  "in_frame t args s u \<longleftrightarrow> h_argv u = args \<and> \<not> h_finished u \<and>
     (\<forall>v. frame_refs u v = owned (trace s) v) \<and> blocks u = blocks (handler_entry t args s)"

definition finishes :: "bool \<times> jval \<Rightarrow> ('c, 'z) hrt_scheme \<Rightarrow> ('c, 'z) hrt_scheme \<Rightarrow> bool" where
  "finishes r u z \<longleftrightarrow> (\<exists>tr. z = u\<lparr>trace := trace u @ tr, h_ret := r, h_finished := True\<rparr> \<and>
     natives tr = [])"

lemma in_frame_entry [simp]: "in_frame t args s (handler_entry t args s)"
  by (simp add: in_frame_def)

lemma finishes_intro:
  "natives tr = [] \<Longrightarrow> finishes r u (u\<lparr>trace := trace u @ tr, h_ret := r, h_finished := True\<rparr>)"
  unfolding finishes_def by blast

lemma frame_refs_finish [simp]:
  "frame_refs (u\<lparr>trace := tr, h_ret := r, h_finished := b\<rparr>) v =
     owned tr v - (if v = snd r then 1 else 0)"
  by (simp add: frame_refs_def)

lemma return_ends:
  assumes "in_frame t args s u"
  shows "wp (iotjs_jhandler_return_jval v)
      (\<lambda>_ z. body_ends t args (False, v) s z \<and> finishes (False, v) u z) u"
    and "wp (iotjs_jhandler_return_number d)
      (\<lambda>_ z. body_ends t args (False, JNumber d) s z \<and> finishes (False, JNumber d) u z) u"
    and "wp (iotjs_jhandler_return_string str) (\<lambda>_ z.
      body_ends t args (False, JString (contents str)) s z \<and> finishes (False, JString (contents str)) u z) u"
    and "wp (iotjs_jhandler_return_string_raw tx) (\<lambda>_ z.
      body_ends t args (False, JString tx) s z \<and> finishes (False, JString tx) u z) u"
    and "wp (JHANDLER_THROW E ty m) (\<lambda>_ z. body_ends t args (True, JObject (e_new E (trace u))) s z \<and>
      finishes (True, JObject (e_new E (trace u))) u z) u"
proof -
  have u: "h_argv u = args" "\<not> h_finished u" "blocks u = blocks (handler_entry t args s)"
    and f: "\<And>v. owned (trace u) v = owned (trace s) v + (if v = snd (h_ret u) then 1 else 0)"
    using assms by (auto simp: in_frame_def frame_refs_def algebra_simps)
  note facts = u f body_ends_def finishes_intro wp_simps
  show "wp (iotjs_jhandler_return_jval v)
      (\<lambda>_ z. body_ends t args (False, v) s z \<and> finishes (False, v) u z) u"
    by (auto simp: facts)
  show "wp (iotjs_jhandler_return_number d)
      (\<lambda>_ z. body_ends t args (False, JNumber d) s z \<and> finishes (False, JNumber d) u z) u"
    by (auto simp: facts)
  show "wp (iotjs_jhandler_return_string str) (\<lambda>_ z.
      body_ends t args (False, JString (contents str)) s z \<and> finishes (False, JString (contents str)) u z) u"
    by (auto simp: facts)
  show "wp (iotjs_jhandler_return_string_raw tx) (\<lambda>_ z.
      body_ends t args (False, JString tx) s z \<and> finishes (False, JString tx) u z) u"
    by (auto simp: facts)
  show "wp (JHANDLER_THROW E ty m) (\<lambda>_ z. body_ends t args (True, JObject (e_new E (trace u))) s z \<and>
      finishes (True, JObject (e_new E (trace u))) u z) u"
    by (auto simp: facts)
qed

lemma handler_call:
  assumes "wp body (\<lambda>_ u. body_ends t args r s u \<and> P u) (handler_entry t args s)"
    and "\<And>u b. P u \<Longrightarrow> P (u\<lparr>blocks := b\<rparr>)"
  shows "\<exists>u. JHANDLER_FUNCTION body t args s = Inr (r, u) \<and>
    (\<forall>v. owned (trace u) v = owned (trace s) v + (if v = snd r then 1 else 0)) \<and>
    blocks u = blocks s \<and> P u"
proof -
  have "wp (JHANDLER_FUNCTION body t args) (\<lambda>r' u. r' = r \<and>
      (\<forall>v. owned (trace u) v = owned (trace s) v + (if v = snd r then 1 else 0)) \<and>
      blocks u = blocks s \<and> P u) s"
    unfolding wp_JHANDLER_FUNCTION
  proof (rule wp_mono[OF assms(1)])
    fix x u
    assume u: "body_ends t args r s u \<and> P u"
    have "owned (trace u) v = owned (trace s) v + (if v = snd r then 1 else 0)" for v
    proof -
      from u have "frame_refs u v = owned (trace s) v" "h_ret u = r" by (simp_all add: body_ends_def)
      then show ?thesis by (simp add: frame_refs_def)
    qed
    then show "h_ret u = r \<and> (\<forall>v. owned (trace (u\<lparr>blocks := blocks u - (if h_argv u = [] then 0 else 1)\<rparr>)) v =
        owned (trace s) v + (if v = snd r then 1 else 0)) \<and>
      blocks (u\<lparr>blocks := blocks u - (if h_argv u = [] then 0 else 1)\<rparr>) = blocks s \<and>
      P (u\<lparr>blocks := blocks u - (if h_argv u = [] then 0 else 1)\<rparr>)"
      using u assms(2) by (simp add: body_ends_def)
  qed
  then show ?thesis by (auto simp: wp_runs)
qed

lemma return_refs:
  assumes "\<not> h_finished s"
  shows "wp (iotjs_jhandler_return_jval v) (\<lambda>_ t. frame_refs t = frame_refs s) s"
    and "wp (iotjs_jhandler_return_number d) (\<lambda>_ t. frame_refs t = frame_refs s) s"
    and "wp (iotjs_jhandler_return_string_raw str) (\<lambda>_ t. frame_refs t = frame_refs s) s"
    and "wp (JHANDLER_THROW E ty m) (\<lambda>_ t. frame_refs t = frame_refs s) s"
  using assms by (auto simp: wp_simps frame_refs_def fun_eq_iff)

lemma unat_word_of_nat_32: "n < 2 ^ 32 \<Longrightarrow> unat (word_of_nat n :: 32 word) = n"
  by (simp add: unat_of_nat)

lemma jval_as_string_wp:
  assumes "length s < 2 ^ 32 - 1"
  shows "wp (iotjs_jval_as_string (JString s))
    (\<lambda>str t. string_wf str \<and> contents str = s \<and> t = charge (held str) st) st"
proof (cases s)
  case Nil
  then show ?thesis using create_wp[of "[]" st] by (simp add: iotjs_jval_as_string_def)
next
  case (Cons c cs)
  have "unat (word_of_nat (length s) :: 32 word) = length s"
    using assms by (rule unat_word_of_nat_32[OF less_trans]) simp
  moreover from this have "(0 :: 32 word) < word_of_nat (length s)"
    using Cons by (simp add: word_less_nat_alt)
  ultimately show ?thesis
    using fresh_cells[of "word_of_nat (length s)" s] assms Cons
    by (simp add: iotjs_jval_as_string_def iotjs_string_create_with_buffer_def wp_simps
        held_def charge_def)
qed

section \<open>Properties\<close>

text \<open>C28. A JavaScript string read by \<^verbatim>\<open>iotjs_jval_as_string\<close> and made a value again by
  \<^verbatim>\<open>iotjs_jval_create_string\<close> is the same string, NUL characters included, for every string below
  4 GiB; the C string it passes through satisfies the representation invariant and holds the one
  block that was allocated.\<close>

theorem jval_string_roundtrip:
  assumes "length s < 2 ^ 32 - 1"
  shows "\<exists>str t. iotjs_jval_as_string (JString s) st = Inr (str, t) \<and> string_wf str \<and>
    blocks t = blocks st + held str \<and>
    (\<exists>u. iotjs_jval_create_string str t = Inr (JString s, u))"
  using jval_as_string_wp[OF assms, of st]
  by (auto simp: wp_runs iotjs_jval_create_string_def prog_defs emit_def)

theorem jval_string_roundtrip_witness:
  "\<exists>str t. iotjs_jval_as_string (JString ''ab'') \<lparr>trace = ([] :: unit ev list), blocks = 0\<rparr> =
     Inr (str, t) \<and> string_wf str \<and> blocks t = held str"
  using jval_string_roundtrip[of "''ab''" "\<lparr>trace = ([] :: unit ev list), blocks = 0\<rparr>"]
  by fastforce

definition call_with ::
  "'c engine \<Rightarrow> jval \<Rightarrow> jval \<Rightarrow> nat \<Rightarrow> jval list \<Rightarrow> (('c, 'z) rt_scheme, bool \<times> jval) prog" where
  "call_with E f this cap vs =
     bnd (iotjs_jargs_create cap) (\<lambda>jargs.
     bnd (fold_prog iotjs_jargs_append_jval jargs vs) (\<lambda>jargs.
     bnd (iotjs_jhelper_call E f this jargs) (\<lambda>res.
     sq (iotjs_jargs_destroy jargs) (ret res))))"

lemma wp_append_all:
  "length us + length vs \<le> cap \<Longrightarrow>
   wp (fold_prog iotjs_jargs_append_jval (jargs_of cap us) vs) Q s =
     Q (jargs_of cap (us @ vs)) (s\<lparr>trace := trace s @ map EAcquire vs\<rparr>)"
  by (induction vs arbitrary: us s) (auto simp: wp_simps)

lemma owned_acquire_all [simp]: "owned (map EAcquire vs) v = int (count_list vs v)"
  by (induction vs) auto

text \<open>C15. An argument vector to which values are appended up to its capacity, passed to a call and
  destroyed: the engine sees exactly those values in that order, every reference the vector took
  is released, the heap is as before, and the only reference gained is the result of the call.\<close>

theorem jargs_call_balanced:
  assumes "is_object f" "vs \<noteq> []" "length vs \<le> cap"
  shows "\<exists>th r t. call_with E f this cap vs s = Inr ((th, r), t) \<and>
    trace t = trace s @ map EAcquire vs @ [ECall f this vs th r] @ map ERelease vs \<and>
    blocks t = blocks s \<and>
    (\<forall>v. owned (trace t) v = owned (trace s) v + (if v = r then 1 else 0))"
proof -
  have "0 < cap" using assms by (cases vs) auto
  then have "wp (call_with E f this cap vs) (\<lambda>(th, r) t.
    trace t = trace s @ map EAcquire vs @ [ECall f this vs th r] @ map ERelease vs \<and>
    blocks t = blocks s \<and>
    (\<forall>v. owned (trace t) v = owned (trace s) v + (if v = r then 1 else 0))) s"
    using assms
    by (auto simp: call_with_def wp_simps wp_append_all[of "[]", simplified] split: prod.splits)
  then show ?thesis by (auto simp: wp_runs)
qed

theorem jargs_call_balanced_witness:
  "\<exists>th r t. call_with \<lparr>e_new = length, e_set = \<lambda>_ _ _ _. False, e_set_index = \<lambda>_ _ _ _. False,
      e_prop = \<lambda>_ _ _. (False, JNull), e_index = \<lambda>_ _ _. (False, JNull), e_native = \<lambda>_ _. 0,
      e_call = \<lambda>_ _ _ args. (False, hd args), e_eval = \<lambda>_ _. (False, JNull), e_sys = \<lambda>_ _. 0\<rparr>
    (JFunction 1) JUndefined 2 [JNull, JBool True] \<lparr>trace = ([] :: unit ev list), blocks = 0\<rparr> =
      Inr ((th, r), t) \<and> blocks t = 0"
  using jargs_call_balanced[of "JFunction 1" "[JNull, JBool True]" 2 _ JUndefined
      "\<lparr>trace = ([] :: unit ev list), blocks = 0\<rparr>"]
  by fastforce

text \<open>A vector with room that never got an argument cannot be destroyed: the debug build stops
  at the first assertion of \<^verbatim>\<open>iotjs_jargs_destroy\<close>, whatever the capacity asked for.\<close>

theorem jargs_destroy_unused_fails:
  "0 < cap \<longrightarrow> bnd (iotjs_jargs_create cap) iotjs_jargs_destroy s =
     Inl (Assertion ''iotjs_jargs_destroy'')"
  by (simp add: iotjs_jargs_create_def iotjs_jargs_destroy_def prog_defs iotjs_buffer_allocate_def)

theorem jargs_destroy_unused_fails_witness:
  "bnd (iotjs_jargs_create 5) iotjs_jargs_destroy \<lparr>trace = ([] :: unit ev list), blocks = 0\<rparr> =
     Inl (Assertion ''iotjs_jargs_destroy'')"
  using jargs_destroy_unused_fails[of 5 "\<lparr>trace = ([] :: unit ev list), blocks = 0\<rparr>"] by simp

end
