(* ===== verification/Iot_Module.thy ===== *)
theory Iot_Module
  imports Iot_Binding
begin

text \<open>
  \<^verbatim>\<open>src/iotjs_module.c\<close>: the table of the builtin modules. A module is registered the first
  time it is asked for; its value stays in the table, which holds the only reference the C code
  keeps. \<open>reg\<close> is the table of the \<^verbatim>\<open>Init*\<close> functions (the field \<^verbatim>\<open>fn_register\<close>), \<open>mods\<close> the
  modules that the build enables (\<^verbatim>\<open>MAP_MODULE_LIST\<close>).

  The locale \<open>module_init\<close> is the contract of an \<^verbatim>\<open>Init*\<close> function; each module theory interprets
  it on its own.
\<close>

datatype ModuleKind =
    MODULE_BUFFER | MODULE_CONSOLE | MODULE_CONSTANTS | MODULE_DNS | MODULE_FS | MODULE_GPIO
  | MODULE_HTTPPARSER | MODULE_I2C | MODULE_PIN | MODULE_PROCESS | MODULE_PWM
  | MODULE_TESTDRIVER | MODULE_TCP | MODULE_TIMER | MODULE_UDP

definition MAP_MODULE_LIST :: "ModuleKind list" where
  "MAP_MODULE_LIST =
     [MODULE_BUFFER, MODULE_CONSOLE, MODULE_CONSTANTS, MODULE_DNS, MODULE_FS, MODULE_GPIO,
      MODULE_HTTPPARSER, MODULE_I2C, MODULE_PIN, MODULE_PROCESS, MODULE_PWM,
      MODULE_TESTDRIVER, MODULE_TCP, MODULE_TIMER, MODULE_UDP]"

record 'c mrt = "'c hrt" +
  jmodule :: "ModuleKind \<Rightarrow> jval"

section \<open>Operations\<close>

definition iotjs_module_list_init ::
  "ModuleKind list \<Rightarrow> (('c, 'z) mrt_scheme, unit) prog" where
  "iotjs_module_list_init mods =
     for_each mods (\<lambda>k. upd (\<lambda>s. s\<lparr>jmodule := (jmodule s)(k := JUndefined)\<rparr>))"

definition iotjs_module_list_cleanup ::
  "ModuleKind list \<Rightarrow> (('c, 'z) mrt_scheme, unit) prog" where
  "iotjs_module_list_cleanup mods =
     for_each mods (\<lambda>k. bnd (gets (\<lambda>s. jmodule s k)) (\<lambda>j.
       if j \<noteq> JUndefined then iotjs_jval_destroy j else ret ()))"

definition iotjs_module_get :: "ModuleKind \<Rightarrow> (('c, 'z) mrt_scheme, jval) prog" where
  "iotjs_module_get kind =
     bnd (gets (\<lambda>s. jmodule s kind)) (\<lambda>j.
     sq (IOTJS_ASSERT ''iotjs_module_get'' (j \<noteq> JUndefined)) (ret j))"

definition iotjs_module_initialize_if_necessary ::
  "(ModuleKind \<Rightarrow> (('c, 'z) mrt_scheme, jval) prog) \<Rightarrow> ModuleKind \<Rightarrow>
     (('c, 'z) mrt_scheme, jval) prog" where
  "iotjs_module_initialize_if_necessary reg kind =
     bnd (gets (\<lambda>s. jmodule s kind)) (\<lambda>j.
     sq (if j = JUndefined
         then bnd (reg kind) (\<lambda>v. upd (\<lambda>s. s\<lparr>jmodule := (jmodule s)(kind := v)\<rparr>))
         else ret ())
     (iotjs_module_get kind))"

section \<open>The contract of an initializer\<close>

text \<open>Setting a property of an ordinary object raises no error.\<close>

definition sets_ok :: "'c engine \<Rightarrow> bool" where
  "sets_ok E \<longleftrightarrow> (\<forall>tr j n v. \<not> e_set E tr j n v) \<and> (\<forall>tr j i v. \<not> e_set_index E tr j i v)"

lemma sets_okD [simp]:
  "sets_ok E \<Longrightarrow> \<not> e_set E tr j n v" "sets_ok E \<Longrightarrow> \<not> e_set_index E tr j i v"
  by (simp_all add: sets_ok_def)

text \<open>\<open>gives s v t\<close>: the step from \<open>s\<close> to \<open>t\<close> changes the trace only and gains one reference, to \<open>v\<close>.\<close>

definition gives :: "('c, 'z) rt_scheme \<Rightarrow> jval \<Rightarrow> ('c, 'z) rt_scheme \<Rightarrow> bool" where
  "gives s v t \<longleftrightarrow> (\<exists>tr. t = s\<lparr>trace := trace s @ tr\<rparr> \<and>
     (\<forall>w. owned tr w = (if w = v then 1 else 0)) \<and> natives tr = [])"

definition quiet :: "('c, 'z) rt_scheme \<Rightarrow> ('c, 'z) rt_scheme \<Rightarrow> bool" where
  "quiet s t \<longleftrightarrow> (\<exists>tr. t = s\<lparr>trace := trace s @ tr\<rparr> \<and> (\<forall>w. owned tr w = 0) \<and> natives tr = [])"

lemma quiet_refl [simp]: "quiet s s"
  unfolding quiet_def by (rule exI[of _ "[]"]) simp

lemma quiet_trans: "quiet s t \<Longrightarrow> quiet t u \<Longrightarrow> quiet s u"
  unfolding quiet_def by (elim exE conjE, rename_tac a b, rule_tac x = "a @ b" in exI) simp

lemma gives_quiet: "gives s v t \<Longrightarrow> quiet t u \<Longrightarrow> gives s v u"
  unfolding quiet_def gives_def
  by (elim exE conjE, rename_tac a b, rule_tac x = "a @ b" in exI) simp

lemma quiet_gives: "quiet s t \<Longrightarrow> gives t v u \<Longrightarrow> gives s v u"
  unfolding quiet_def gives_def
  by (elim exE conjE, rename_tac a b, rule_tac x = "a @ b" in exI) simp

lemma quiet_for_each:
  assumes "\<And>x t. x \<in> set xs \<Longrightarrow> wp (f x) (\<lambda>_. quiet t) t"
  shows "wp (for_each xs f) (\<lambda>_. quiet s) s"
  using assms
proof (induction xs arbitrary: s)
  case Nil
  then show ?case by (simp add: wp_simps)
next
  case (Cons x xs)
  have "wp (f x) (\<lambda>_ t. wp (for_each xs f) (\<lambda>_. quiet s) t) s"
  proof (rule wp_mono)
    show "wp (f x) (\<lambda>_. quiet s) s" using Cons.prems by simp
    fix t assume "quiet s t"
    then show "wp (for_each xs f) (\<lambda>_. quiet s) t"
      using Cons.IH[of t] Cons.prems by (auto intro: wp_mono quiet_trans)
  qed
  then show ?case by (simp add: wp_simps)
qed

lemma quiet_set_property:
  assumes "sets_ok E" "is_object j"
  shows "wp (iotjs_jval_set_property_jval E j n v) (\<lambda>_. quiet s) s"
    and "wp (iotjs_jval_set_property_number E j n d) (\<lambda>_. quiet s) s"
    and "wp (iotjs_jval_set_property_string_raw E j n t) (\<lambda>_. quiet s) s"
    and "wp (iotjs_jval_set_property_string E j n str) (\<lambda>_. quiet s) s"
    and "wp (iotjs_jval_set_property_boolean E j n b) (\<lambda>_. quiet s) s"
    and "wp (iotjs_jval_set_method E j n) (\<lambda>_. quiet s) s"
  using assms
  by (auto simp: wp_simps quiet_def iotjs_jval_set_property_number_def
      iotjs_jval_set_property_string_raw_def iotjs_jval_set_property_string_def
      iotjs_jval_set_property_boolean_def iotjs_jval_set_method_def intro!: exI)

text \<open>The rule that carries the proof of an initializer.\<close>

lemma wp_quiet_sq:
  assumes "wp m (\<lambda>_. quiet s) s" "\<And>t. quiet s t \<Longrightarrow> wp n Q t"
  shows "wp (sq m n) Q s"
  unfolding wp_sq by (rule wp_mono[OF assms(1)]) (rule assms(2))

lemma quiet_bnd:
  assumes "quiet s0 s" "wp m (\<lambda>r t. r = x \<and> quiet s t) s"
    and "\<And>t. quiet s0 t \<Longrightarrow> wp (f x) Q t"
  shows "wp (bnd m f) Q s"
  unfolding wp_bnd
  by (rule wp_mono[OF assms(2)]) (use quiet_trans[OF assms(1)] assms(3) in auto)

lemma quiet_sq:
  assumes "quiet s0 s" "wp m (\<lambda>_ t. quiet s t) s" "\<And>t. quiet s0 t \<Longrightarrow> wp n Q t"
  shows "wp (sq m n) Q s"
  unfolding wp_sq
  by (rule wp_mono[OF assms(2)]) (use quiet_trans[OF assms(1)] assms(3) in auto)

locale module_init =
  fixes E :: "'c engine"
    and init :: "(('c, 'z) rt_scheme, jval) prog"
  assumes init_law: "sets_ok E \<Longrightarrow> wp init (\<lambda>v t. is_object v \<and> gives s v t) s"
begin

lemma init_defined: "sets_ok E \<Longrightarrow> wp init (\<lambda>v t. v \<noteq> JUndefined) s"
  by (rule wp_mono[OF init_law]) auto

lemma init_owned:
  "sets_ok E \<Longrightarrow> wp init (\<lambda>v t. blocks t = blocks s \<and>
     (\<forall>w. owned (trace t) w = owned (trace s) w + (if w = v then 1 else 0))) s"
  by (rule wp_mono[OF init_law]) (auto simp: gives_def)

end

text \<open>
  \<open>owes s d t\<close>: from \<open>s\<close> to \<open>t\<close> only the trace grew, and \<open>d\<close> is what that changed in the
  references held. It follows an initializer through the objects it creates and drops.
\<close>

definition owes :: "('c, 'z) rt_scheme \<Rightarrow> (jval \<Rightarrow> int) \<Rightarrow> ('c, 'z) rt_scheme \<Rightarrow> bool" where
  "owes s d t \<longleftrightarrow> (\<exists>tr. t = s\<lparr>trace := trace s @ tr\<rparr> \<and> (\<forall>w. owned tr w = d w) \<and> natives tr = [])"

abbreviation ref1 :: "jval \<Rightarrow> jval \<Rightarrow> int" where
  "ref1 v w \<equiv> (if w = v then 1 else 0)"

lemma owes_refl [simp]: "owes s (\<lambda>_. 0) s"
  unfolding owes_def by (rule exI[of _ "[]"]) simp

lemma owes_trans: "owes s d t \<Longrightarrow> owes t e u \<Longrightarrow> owes s (\<lambda>w. d w + e w) u"
  unfolding owes_def by (elim exE conjE, rename_tac a b, rule_tac x = "a @ b" in exI) simp

lemma quiet_owes: "quiet s t = owes s (\<lambda>_. 0) t"
  by (simp add: quiet_def owes_def)

lemma gives_owes: "gives s v t = owes s (ref1 v) t"
  by (simp add: gives_def owes_def)

lemma owes_quiet_sq:
  assumes "owes s0 d s" "\<And>s. wp m (\<lambda>_ t. quiet s t) s" "\<And>t. owes s0 d t \<Longrightarrow> wp n Q t"
  shows "wp (sq m n) Q s"
  unfolding wp_sq
  by (rule wp_mono[OF assms(2)]) (use owes_trans[OF assms(1)] assms(3) in \<open>force simp: quiet_owes\<close>)

lemma owes_create_bnd:
  assumes "owes s0 d s"
  shows "(\<And>n t. owes s0 (\<lambda>w. d w + ref1 (JObject n) w) t \<Longrightarrow> wp (f (JObject n)) Q t) \<Longrightarrow>
      wp (bnd (iotjs_jval_create_object E) f) Q s"
    and "(\<And>n t. owes s0 (\<lambda>w. d w + ref1 (JFunction n) w) t \<Longrightarrow> wp (f (JFunction n)) Q t) \<Longrightarrow>
      wp (bnd (iotjs_jval_create_function E) f) Q s"
    and "(\<And>n t. owes s0 (\<lambda>w. d w + ref1 (JArray n) w) t \<Longrightarrow> wp (f (JArray n)) Q t) \<Longrightarrow>
      wp (bnd (iotjs_jval_create_array E) f) Q s"
proof -
  have step: "owes s0 (\<lambda>w. d w + ref1 v w) (s\<lparr>trace := trace s @ [ECreate v]\<rparr>)" for v
    by (rule owes_trans[OF assms]) (auto simp: owes_def)
  note facts = wp_bnd wp_jval_create_new step
  show "(\<And>n t. owes s0 (\<lambda>w. d w + ref1 (JObject n) w) t \<Longrightarrow> wp (f (JObject n)) Q t) \<Longrightarrow>
      wp (bnd (iotjs_jval_create_object E) f) Q s" by (simp add: facts)
  show "(\<And>n t. owes s0 (\<lambda>w. d w + ref1 (JFunction n) w) t \<Longrightarrow> wp (f (JFunction n)) Q t) \<Longrightarrow>
      wp (bnd (iotjs_jval_create_function E) f) Q s" by (simp add: facts)
  show "(\<And>n t. owes s0 (\<lambda>w. d w + ref1 (JArray n) w) t \<Longrightarrow> wp (f (JArray n)) Q t) \<Longrightarrow>
      wp (bnd (iotjs_jval_create_array E) f) Q s" by (simp add: facts)
qed

lemma owes_destroy_sq:
  assumes "owes s0 d s" "\<And>t. owes s0 (\<lambda>w. d w - ref1 v w) t \<Longrightarrow> wp n Q t"
  shows "wp (sq (iotjs_jval_destroy v) n) Q s"
proof -
  have "owes s0 (\<lambda>w. d w + - ref1 v w) (s\<lparr>trace := trace s @ [ERelease v]\<rparr>)"
    by (rule owes_trans[OF assms(1)]) (auto simp: owes_def)
  then show ?thesis using assms(2) by (simp add: wp_simps)
qed

lemma owes_ret:
  "owes s d t \<Longrightarrow> is_object v \<Longrightarrow> (\<And>w. d w = ref1 v w) \<Longrightarrow> wp (ret v) (\<lambda>v t. is_object v \<and> gives s v t) t"
  by (simp add: wp_ret gives_def owes_def)

text \<open>The two shapes of the initializers: a constructor with a prototype, a plain object.\<close>

definition set_methods :: "'c engine \<Rightarrow> jval \<Rightarrow> string list \<Rightarrow> (('c, 'z) rt_scheme, unit) prog" where
  "set_methods E jobj names = for_each names (iotjs_jval_set_method E jobj)"

definition set_numbers ::
  "'c engine \<Rightarrow> jval \<Rightarrow> (string \<times> int) list \<Rightarrow> (('c, 'z) rt_scheme, unit) prog" where
  "set_numbers E jobj cs =
     for_each cs (\<lambda>(name, v). iotjs_jval_set_property_number E jobj name (num v))"

lemma quiet_set_methods:
  "sets_ok E \<Longrightarrow> is_object j \<Longrightarrow> wp (set_methods E j names) (\<lambda>_. quiet s) s"
  unfolding set_methods_def by (intro quiet_for_each quiet_set_property)

lemma quiet_set_numbers:
  "sets_ok E \<Longrightarrow> is_object j \<Longrightarrow> wp (set_numbers E j cs) (\<lambda>_. quiet s) s"
  unfolding set_numbers_def
  by (intro quiet_for_each) (auto intro: quiet_set_property split: prod.split)

lemma gives_created:
  "gives s (JFunction (e_new E (trace s))) (s\<lparr>trace := trace s @ [ECreate (JFunction (e_new E (trace s)))]\<rparr>)"
  "gives s (JObject (e_new E (trace s))) (s\<lparr>trace := trace s @ [ECreate (JObject (e_new E (trace s)))]\<rparr>)"
  by (auto simp: gives_def)

lemma init_prototype:
  assumes "sets_ok E"
  shows "wp (bnd (iotjs_jval_create_function E) (\<lambda>f. bnd (iotjs_jval_create_object E) (\<lambda>p.
      sq (iotjs_jval_set_property_jval E f ''prototype'' p)
     (sq (set_methods E p names) (sq (iotjs_jval_destroy p) (ret f))))))
    (\<lambda>v t. is_object v \<and> gives s v t) s"
proof -
  let ?f = "JFunction (e_new E (trace s))"
  let ?s = "s\<lparr>trace := trace s @ [ECreate ?f]\<rparr>"
  let ?p = "JObject (e_new E (trace ?s))"
  let ?t = "?s\<lparr>trace := trace ?s @ [ECreate ?p]\<rparr>"
  let ?n = "''prototype''"
  let ?u = "?t\<lparr>trace := trace ?t @ [ECreate (JString ?n), ESetProp ?f ?n ?p, ERelease (JString ?n)]\<rparr>"
  have "quiet ?t ?u" unfolding quiet_def by (intro exI conjI, rule refl) auto
  have "wp (set_methods E ?p names) (\<lambda>_ w. gives s ?f (w\<lparr>trace := trace w @ [ERelease ?p]\<rparr>)) ?u"
  proof (rule wp_mono[OF quiet_set_methods[OF assms]])
    fix x w
    assume "quiet ?u w"
    then obtain tr where "w = ?u\<lparr>trace := trace ?u @ tr\<rparr>" "\<And>v. owned tr v = 0" "natives tr = []"
      unfolding quiet_def by blast
    then show "gives s ?f (w\<lparr>trace := trace w @ [ERelease ?p]\<rparr>)"
      unfolding gives_def
      by (intro exI[of _ "[ECreate ?f, ECreate ?p, ECreate (JString ?n), ESetProp ?f ?n ?p,
            ERelease (JString ?n)] @ tr @ [ERelease ?p]"]) simp
  qed simp
  then show ?thesis
    using assms by (simp add: wp_simps) (erule wp_mono, simp add: wp_simps)
qed

lemma gives_object:
  assumes "wp (body (JObject (e_new E (trace s)))) (\<lambda>_. quiet (s\<lparr>trace := trace s @
     [ECreate (JObject (e_new E (trace s)))]\<rparr>)) (s\<lparr>trace := trace s @ [ECreate (JObject (e_new E (trace s)))]\<rparr>)"
  shows "wp (bnd (iotjs_jval_create_object E) (\<lambda>j. sq (body j) (ret j)))
    (\<lambda>v t. is_object v \<and> gives s v t) s"
  using assms
  by (simp add: wp_simps) (erule wp_mono, auto simp: wp_simps intro: gives_quiet gives_created)

section \<open>The table\<close>

text \<open>The references the table holds, counted over the enabled modules.\<close>

definition kept_modules :: "ModuleKind list \<Rightarrow> ('c, 'z) mrt_scheme \<Rightarrow> jval \<Rightarrow> int" where
  "kept_modules mods s v =
     (if v = JUndefined then 0 else int (count_list (map (jmodule s) mods) v))"

lemma kept_modules_upd:
  assumes "distinct mods" "k \<in> set mods" "jmodule s k = JUndefined" "w \<noteq> JUndefined"
  shows "kept_modules mods (s\<lparr>jmodule := (jmodule s)(k := w)\<rparr>) v =
    kept_modules mods s v + (if v = w then 1 else 0)"
proof -
  have "count_list (map ((jmodule s)(k := w)) ms) v =
      count_list (map (jmodule s) ms) v + (if v = w \<and> k \<in> set ms then 1 else 0)"
    if "distinct ms" "v \<noteq> JUndefined" for ms
    using that by (induction ms) (auto simp: assms(3))
  from this[OF assms(1)] show ?thesis
    using assms by (auto simp: kept_modules_def)
qed

definition registers :: "(ModuleKind \<Rightarrow> (('c, 'z) mrt_scheme, jval) prog) \<Rightarrow> bool" where
  "registers reg \<longleftrightarrow> (\<forall>k s. wp (reg k) (\<lambda>v t. v \<noteq> JUndefined \<and> gives s v t) s)"

lemma wp_module_get [wp_simps]:
  "wp (iotjs_module_get k) Q s \<longleftrightarrow> jmodule s k \<noteq> JUndefined \<and> Q (jmodule s k) s"
  by (auto simp: iotjs_module_get_def wp_simps)

lemma module_initialize_wp:
  assumes reg: "registers reg" and mods: "distinct mods" "k \<in> set mods"
  shows "wp (iotjs_module_initialize_if_necessary reg k) (\<lambda>v t. v = jmodule t k \<and>
     jmodule t k \<noteq> JUndefined \<and> blocks t = blocks s \<and>
     (jmodule s k \<noteq> JUndefined \<longrightarrow> t = s) \<and>
     (\<forall>w. owned (trace t) w - kept_modules mods t w = owned (trace s) w - kept_modules mods s w) \<and>
     (\<forall>k'. k' \<noteq> k \<longrightarrow> jmodule t k' = jmodule s k')) s"
proof (cases "jmodule s k = JUndefined")
  case False
  then show ?thesis by (simp add: iotjs_module_initialize_if_necessary_def wp_simps)
next
  case True
  have "wp (reg k) (\<lambda>v t. v \<noteq> JUndefined \<and> gives s v t) s"
    using reg by (simp add: registers_def)
  then have "wp (reg k) (\<lambda>v t. v \<noteq> JUndefined \<and> blocks t = blocks s \<and>
      (\<forall>w. owned (trace t) w - kept_modules mods (t\<lparr>jmodule := (jmodule t)(k := v)\<rparr>) w =
         owned (trace s) w - kept_modules mods s w) \<and> jmodule t = jmodule s) s"
  proof (rule wp_mono)
    fix v t
    assume a: "v \<noteq> JUndefined \<and> gives s v t"
    then have t: "jmodule t = jmodule s" "blocks t = blocks s"
      "owned (trace t) w = owned (trace s) w + (if w = v then 1 else 0)" for w
      by (auto simp: gives_def)
    have k: "kept_modules mods t w = kept_modules mods s w" for w
      using t by (simp add: kept_modules_def)
    have u: "kept_modules mods (t\<lparr>jmodule := (jmodule t)(k := v)\<rparr>) w =
        kept_modules mods s w + (if w = v then 1 else 0)" for w
      using kept_modules_upd[OF mods, of t v w] a t True k by simp
    show "v \<noteq> JUndefined \<and> blocks t = blocks s \<and>
      (\<forall>w. owned (trace t) w - kept_modules mods (t\<lparr>jmodule := (jmodule t)(k := v)\<rparr>) w =
         owned (trace s) w - kept_modules mods s w) \<and> jmodule t = jmodule s"
      unfolding u using a t by simp
  qed
  then show ?thesis
    unfolding iotjs_module_initialize_if_necessary_def wp_bnd wp_sq wp_gets wp_if
    using True by (simp add: wp_simps) (erule wp_mono, auto simp: wp_simps)
qed

lemma module_cleanup_wp:
  "wp (iotjs_module_list_cleanup mods) (\<lambda>_ t. blocks t = blocks s \<and> jmodule t = jmodule s \<and>
     (\<forall>w. owned (trace t) w = owned (trace s) w - kept_modules mods s w)) s"
proof -
  have "wp (iotjs_module_list_cleanup mods)
    (\<lambda>_ t. t = s\<lparr>trace := trace s @ map ERelease (filter (\<lambda>j. j \<noteq> JUndefined) (map (jmodule s) mods))\<rparr>) s"
  proof (induction mods arbitrary: s)
    case Nil
    then show ?case by (simp add: iotjs_module_list_cleanup_def wp_simps)
  next
    case (Cons k mods)
    from Cons[of s] Cons[of "s\<lparr>trace := trace s @ [ERelease (jmodule s k)]\<rparr>"]
    show ?case by (simp add: iotjs_module_list_cleanup_def wp_simps)
  qed
  then show ?thesis
  proof (rule wp_mono)
    fix x t
    assume t: "t = s\<lparr>trace := trace s @
      map ERelease (filter (\<lambda>j. j \<noteq> JUndefined) (map (jmodule s) mods))\<rparr>"
    have "count_list (filter (\<lambda>j. j \<noteq> JUndefined) xs) w =
        (if w = JUndefined then 0 else count_list xs w)" for xs w
      by (induction xs) auto
    then show "blocks t = blocks s \<and> jmodule t = jmodule s \<and>
     (\<forall>w. owned (trace t) w = owned (trace s) w - kept_modules mods s w)"
      using t by (simp add: kept_modules_def)
  qed
qed


section \<open>Properties\<close>

text \<open>The life of the table: set up, any sequence of requests, cleanup.\<close>

definition module_session ::
  "(ModuleKind \<Rightarrow> (('c, 'z) mrt_scheme, jval) prog) \<Rightarrow> ModuleKind list \<Rightarrow> ModuleKind list \<Rightarrow>
     (('c, 'z) mrt_scheme, unit) prog" where
  "module_session reg mods ks =
     sq (iotjs_module_list_init mods)
     (sq (for_each ks (\<lambda>k. bnd (iotjs_module_initialize_if_necessary reg k) (\<lambda>_. ret ())))
     (iotjs_module_list_cleanup mods))"

lemma module_list_init_wp:
  "wp (iotjs_module_list_init mods)
     (\<lambda>_ t. t = s\<lparr>jmodule := (\<lambda>k. if k \<in> set mods then JUndefined else jmodule s k)\<rparr>) s"
proof (induction mods arbitrary: s)
  case Nil
  then show ?case by (simp add: iotjs_module_list_init_def wp_simps)
next
  case (Cons k mods)
  have eq: "s\<lparr>jmodule := \<lambda>j. if j \<in> set mods then JUndefined else ((jmodule s)(k := JUndefined)) j\<rparr> =
      s\<lparr>jmodule := \<lambda>j. if j \<in> set (k # mods) then JUndefined else jmodule s j\<rparr>"
    by (rule arg_cong[where f = "\<lambda>f. s\<lparr>jmodule := f\<rparr>"]) auto
  show ?case
    using Cons[of "s\<lparr>jmodule := (jmodule s)(k := JUndefined)\<rparr>"]
    unfolding iotjs_module_list_init_def for_each.simps wp_sq wp_upd eq[symmetric]
    by (simp cong del: if_weak_cong)
qed

lemma module_requests_wp:
  assumes "registers reg" "distinct mods" "set ks \<subseteq> set mods"
  shows "wp (for_each ks (\<lambda>k. bnd (iotjs_module_initialize_if_necessary reg k) (\<lambda>_. ret ())))
    (\<lambda>_ t. blocks t = blocks s \<and>
     (\<forall>w. owned (trace t) w - kept_modules mods t w = owned (trace s) w - kept_modules mods s w) \<and>
     (\<forall>k. jmodule s k \<noteq> JUndefined \<or> k \<in> set ks \<longrightarrow> jmodule t k \<noteq> JUndefined) \<and>
     (\<forall>k. jmodule s k \<noteq> JUndefined \<longrightarrow> jmodule t k = jmodule s k)) s"
  using assms(3)
proof (induction ks arbitrary: s)
  case Nil
  then show ?case by (simp add: wp_simps)
next
  case (Cons k ks)
  have k: "k \<in> set mods" and ks: "set ks \<subseteq> set mods" using Cons.prems by auto
  show ?case
    unfolding for_each.simps wp_sq wp_bnd wp_ret
  proof (rule wp_mono[OF module_initialize_wp[OF assms(1,2) k]], goal_cases)
    case (1 x t)
    note t = 1
    show ?case
    proof (rule wp_mono[OF Cons.IH[OF ks]], goal_cases)
      case (1 y u)
      have "jmodule u j \<noteq> JUndefined" if "jmodule s j \<noteq> JUndefined \<or> j \<in> set (k # ks)" for j
        using that t 1 by (cases "j = k") auto
      moreover have "jmodule u j = jmodule s j" if "jmodule s j \<noteq> JUndefined" for j
        using that t 1 by (cases "j = k") auto
      ultimately show ?case using t 1 by simp
    qed
  qed
qed

text \<open>C16. The module table neither leaks nor releases too much: after it is set up, any sequence
  of requests for enabled modules runs without a fault, every request leaves its module registered,
  and cleanup releases exactly the references that the initializers handed over.\<close>

theorem module_session_balanced:
  assumes "registers reg" "distinct mods" "set ks \<subseteq> set mods"
  shows "\<exists>t. module_session reg mods ks s = Inr ((), t) \<and> blocks t = blocks s \<and>
    (\<forall>k \<in> set ks. jmodule t k \<noteq> JUndefined) \<and>
    (\<forall>w. owned (trace t) w = owned (trace s) w)"
proof -
  let ?s = "s\<lparr>jmodule := (\<lambda>k. if k \<in> set mods then JUndefined else jmodule s k)\<rparr>"
  have empty: "kept_modules mods ?s w = 0" for w
    by (auto simp: kept_modules_def count_list_0_iff)
  have "wp (module_session reg mods ks) (\<lambda>_ t. blocks t = blocks s \<and>
    (\<forall>k \<in> set ks. jmodule t k \<noteq> JUndefined) \<and> (\<forall>w. owned (trace t) w = owned (trace s) w)) s"
    unfolding module_session_def wp_sq
  proof (rule wp_mono[OF module_list_init_wp], goal_cases)
    case (1 x s1)
    show ?case
    proof (rule wp_mono[OF module_requests_wp[OF assms]], goal_cases)
      case (1 y t)
      then show ?case
        using \<open>s1 = _\<close> empty by (intro wp_mono[OF module_cleanup_wp]) auto
    qed
  qed
  then show ?thesis by (auto simp: wp_runs)
qed

theorem module_session_balanced_witness:
  "\<exists>t. module_session (\<lambda>_. iotjs_jval_create_object
        \<lparr>e_new = length, e_set = \<lambda>_ _ _ _. False, e_set_index = \<lambda>_ _ _ _. False,
         e_prop = \<lambda>_ _ _. (False, JNull), e_index = \<lambda>_ _ _. (False, JNull), e_native = \<lambda>_ _. 0,
         e_call = \<lambda>_ _ _ _. (False, JNull), e_eval = \<lambda>_ _. (False, JNull), e_sys = \<lambda>_ _. 0\<rparr>)
      MAP_MODULE_LIST [MODULE_FS, MODULE_PROCESS, MODULE_FS]
      \<lparr>trace = ([] :: unit ev list), blocks = 4, h_this = JNull, h_argv = [], h_ret = (False, JNull),
       h_finished = False, jmodule = \<lambda>_. JNull\<rparr> = Inr ((), t) \<and> blocks t = 4"
proof -
  have "registers (\<lambda>_. iotjs_jval_create_object E)" for E :: "unit engine"
    by (auto simp: registers_def wp_simps gives_def intro!: exI)
  from module_session_balanced[OF this, of MAP_MODULE_LIST "[MODULE_FS, MODULE_PROCESS, MODULE_FS]"]
  show ?thesis by (fastforce simp: MAP_MODULE_LIST_def)
qed

text \<open>Asking again for a module that is registered calls no initializer: the value in the
  table is returned and nothing changes, no event crosses the boundary.\<close>

theorem module_registered_once:
  assumes "jmodule s k \<noteq> JUndefined"
  shows "iotjs_module_initialize_if_necessary reg k s = Inr (jmodule s k, s)"
  using assms
  by (simp add: iotjs_module_initialize_if_necessary_def iotjs_module_get_def prog_defs)

theorem module_registered_once_witness:
  "iotjs_module_initialize_if_necessary (\<lambda>_. fail (Exits 1)) MODULE_FS
     \<lparr>trace = ([] :: unit ev list), blocks = 0, h_this = JNull, h_argv = [], h_ret = (False, JNull),
      h_finished = False, jmodule = \<lambda>_. JObject 3\<rparr> =
     Inr (JObject 3, \<lparr>trace = [], blocks = 0, h_this = JNull, h_argv = [], h_ret = (False, JNull),
      h_finished = False, jmodule = \<lambda>_. JObject 3\<rparr>)"
  using module_registered_once[of "\<lparr>trace = ([] :: unit ev list), blocks = 0, h_this = JNull,
      h_argv = [], h_ret = (False, JNull), h_finished = False, jmodule = \<lambda>_. JObject 3\<rparr>" MODULE_FS]
  by simp

end
