(* ===== verification/Iot_Env.thy ===== *)
theory Iot_Env
  imports Iot_Module
begin

text \<open>
  \<^verbatim>\<open>src/iotjs_env.c\<close>: the environment singleton, the command line and the phases of the
  program. The argument vector is a block of pointers, \<open>None\<close> while a slot is not set; its slots
  from 2 on own one heap block each. The event loop is identified by a number.
\<close>

datatype State = kInitializing | kRunningMain | kRunningLoop | kExiting

text \<open>The order of the C enumeration, which \<^verbatim>\<open>iotjs_environment_go_state_exiting\<close> compares with.\<close>

primrec state_number :: "State \<Rightarrow> nat" where
  "state_number kInitializing = 0"
| "state_number kRunningMain = 1"
| "state_number kRunningLoop = 2"
| "state_number kExiting = 3"

lemma state_number_inject: "state_number a = state_number b \<longleftrightarrow> a = b"
  by (cases a; cases b) simp_all

instantiation State :: linorder
begin

definition less_eq_State :: "State \<Rightarrow> State \<Rightarrow> bool" where
  "less_eq_State a b \<longleftrightarrow> state_number a \<le> state_number b"

definition less_State :: "State \<Rightarrow> State \<Rightarrow> bool" where
  "less_State a b \<longleftrightarrow> state_number a < state_number b"

instance
  by standard (auto simp: less_eq_State_def less_State_def state_number_inject)

end

record Config =
  memstat :: bool
  show_opcode :: bool

record iotjs_environment_t =
  env_argc :: nat
  env_argv :: "string option list option"
  env_loop :: "nat option"
  env_state :: State
  env_config :: Config

record 'c ert = "'c mrt" +
  env :: iotjs_environment_t
  env_initialized :: bool

section \<open>The singleton\<close>

definition fresh_environment :: iotjs_environment_t where
  "fresh_environment =
     \<lparr>env_argc = 0, env_argv = None, env_loop = None, env_state = kInitializing,
      env_config = \<lparr>memstat = False, show_opcode = False\<rparr>\<rparr>"

definition iotjs_environment_get :: "(('c, 'z) ert_scheme, iotjs_environment_t) prog" where
  "iotjs_environment_get =
     bnd (gets env_initialized) (\<lambda>b.
     sq (if b then ret () else upd (\<lambda>s. s\<lparr>env := fresh_environment, env_initialized := True\<rparr>))
     (gets env))"

definition iotjs_environment_destroy :: "(('c, 'z) ert_scheme, unit) prog" where
  "iotjs_environment_destroy =
     bnd (gets env) (\<lambda>e.
     case env_argv e of
       None \<Rightarrow> ret ()
     | Some slots \<Rightarrow>
         sq (for_each [2..<env_argc e] (\<lambda>i.
               if length slots \<le> i then fail (OutOfBounds ''argv'')
               else if slots ! i = None then fail (NullPointer ''argv'')
               else iotjs_buffer_release))
         iotjs_buffer_release)"

definition iotjs_environment_release :: "(('c, 'z) ert_scheme, unit) prog" where
  "iotjs_environment_release =
     bnd (gets env_initialized) (\<lambda>b.
     if b then sq iotjs_environment_destroy (upd (\<lambda>s. s\<lparr>env_initialized := False\<rparr>)) else ret ())"

section \<open>The command line\<close>

text \<open>The loop over the options: the configuration it has set, and the rest of the arguments.\<close>

fun parse_options :: "Config \<Rightarrow> string list \<Rightarrow> Config \<times> string list option" where
  "parse_options c [] = (c, Some [])"
| "parse_options c (a # as) =
     (if a = ''--'' then (c, Some as)
      else if a = ''--memstat'' then parse_options (c\<lparr>memstat := True\<rparr>) as
      else if a = ''--show-opcodes'' then parse_options (c\<lparr>show_opcode := True\<rparr>) as
      else (c, None))"

definition set_slot :: "nat \<Rightarrow> string \<Rightarrow> (('c, 'z) ert_scheme, unit) prog" where
  "set_slot i a =
     bnd (gets (\<lambda>s. env_argv (env s))) (\<lambda>argv.
     case argv of
       None \<Rightarrow> fail (NullPointer ''argv'')
     | Some slots \<Rightarrow>
         if length slots \<le> i then fail (OutOfBounds ''argv'')
         else upd (\<lambda>s. s\<lparr>env := (env s)\<lparr>env_argv := Some (slots[i := Some a])\<rparr>\<rparr>))"

definition copy_argument :: "string \<Rightarrow> (('c, 'z) ert_scheme, unit) prog" where
  "copy_argument a =
     bnd (gets (\<lambda>s. env_argc (env s))) (\<lambda>k.
     bnd (iotjs_buffer_allocate (length a + 1)) (\<lambda>_.
     sq (set_slot k a)
     (upd (\<lambda>s. s\<lparr>env := (env s)\<lparr>env_argc := k + 1\<rparr>\<rparr>))))"

definition iotjs_environment_parse_command_line_arguments ::
  "string list \<Rightarrow> (('c, 'z) ert_scheme, bool) prog" where
  "iotjs_environment_parse_command_line_arguments args =
     (if length args < 2 then ret False
      else bnd (gets (\<lambda>s. parse_options (env_config (env s)) (drop 2 args))) (\<lambda>(c, rest).
        sq (upd (\<lambda>s. s\<lparr>env := (env s)\<lparr>env_config := c\<rparr>\<rparr>))
        (case rest of
           None \<Rightarrow> ret False
         | Some app \<Rightarrow>
             sq (upd (\<lambda>s. s\<lparr>env := (env s)\<lparr>env_argc := 2\<rparr>\<rparr>))
            (bnd (iotjs_buffer_allocate (2 + length app)) (\<lambda>_.
             sq (upd (\<lambda>s. s\<lparr>env := (env s)\<lparr>env_argv := Some (replicate (2 + length app) None)\<rparr>\<rparr>))
            (sq (set_slot 0 (args ! 0))
            (sq (set_slot 1 (args ! 1))
            (sq (for_each app copy_argument)
            (ret True)))))))))"

definition iotjs_environment_argc :: "(('c, 'z) ert_scheme, nat) prog" where
  "iotjs_environment_argc = gets (\<lambda>s. env_argc (env s))"

definition iotjs_environment_argv :: "nat \<Rightarrow> (('c, 'z) ert_scheme, string) prog" where
  "iotjs_environment_argv idx =
     bnd (gets (\<lambda>s. env_argv (env s))) (\<lambda>argv.
     case argv of
       None \<Rightarrow> fail (NullPointer ''argv'')
     | Some slots \<Rightarrow>
         if length slots \<le> idx then fail (OutOfBounds ''argv'')
         else case slots ! idx of None \<Rightarrow> fail (NullPointer ''argv'') | Some a \<Rightarrow> ret a)"

definition iotjs_environment_loop :: "(('c, 'z) ert_scheme, nat option) prog" where
  "iotjs_environment_loop = gets (\<lambda>s. env_loop (env s))"

definition iotjs_environment_set_loop :: "nat option \<Rightarrow> (('c, 'z) ert_scheme, unit) prog" where
  "iotjs_environment_set_loop l = upd (\<lambda>s. s\<lparr>env := (env s)\<lparr>env_loop := l\<rparr>\<rparr>)"

definition iotjs_environment_config :: "(('c, 'z) ert_scheme, Config) prog" where
  "iotjs_environment_config = gets (\<lambda>s. env_config (env s))"

section \<open>The phases\<close>

definition go_state :: "string \<Rightarrow> (State \<Rightarrow> bool) \<Rightarrow> State \<Rightarrow> (('c, 'z) ert_scheme, unit) prog" where
  "go_state loc from to =
     bnd (gets (\<lambda>s. env_state (env s))) (\<lambda>st.
     sq (IOTJS_ASSERT loc (from st))
     (upd (\<lambda>s. s\<lparr>env := (env s)\<lparr>env_state := to\<rparr>\<rparr>)))"

definition iotjs_environment_go_state_running_main :: "(('c, 'z) ert_scheme, unit) prog" where
  "iotjs_environment_go_state_running_main =
     go_state ''iotjs_environment_go_state_running_main'' (\<lambda>st. st = kInitializing) kRunningMain"

definition iotjs_environment_go_state_running_loop :: "(('c, 'z) ert_scheme, unit) prog" where
  "iotjs_environment_go_state_running_loop =
     go_state ''iotjs_environment_go_state_running_loop'' (\<lambda>st. st = kRunningMain) kRunningLoop"

definition iotjs_environment_go_state_exiting :: "(('c, 'z) ert_scheme, unit) prog" where
  "iotjs_environment_go_state_exiting =
     go_state ''iotjs_environment_go_state_exiting'' (\<lambda>st. st < kExiting) kExiting"

section \<open>Lemmas\<close>

abbreviation app_args :: "string list \<Rightarrow> string list" where
  "app_args args \<equiv> tl (dropWhile (\<lambda>a. a \<noteq> ''--'') (drop 2 args))"

abbreviation option_args :: "string list \<Rightarrow> string list" where
  "option_args args \<equiv> takeWhile (\<lambda>a. a \<noteq> ''--'') (drop 2 args)"

lemma parse_options_spec:
  "parse_options c as =
    (let os = takeWhile (\<lambda>a. a \<noteq> ''--'') as; ok = takeWhile (\<lambda>a. a \<in> {''--memstat'', ''--show-opcodes''}) os
     in (\<lparr>memstat = memstat c \<or> ''--memstat'' \<in> set ok,
          show_opcode = show_opcode c \<or> ''--show-opcodes'' \<in> set ok\<rparr>,
         if set os \<subseteq> {''--memstat'', ''--show-opcodes''}
         then Some (tl (dropWhile (\<lambda>a. a \<noteq> ''--'') as)) else None))"
proof (induction c as rule: parse_options.induct)
  case (2 c a as)
  show ?case
    by (cases "a = ''--''"; cases "a = ''--memstat''"; cases "a = ''--show-opcodes''")
      (simp_all add: Let_def 2)
qed simp

lemma wp_set_slot [wp_simps]:
  "wp (set_slot i a) Q s \<longleftrightarrow> (\<exists>slots. env_argv (env s) = Some slots \<and> i < length slots \<and>
     Q () (s\<lparr>env := (env s)\<lparr>env_argv := Some (slots[i := Some a])\<rparr>\<rparr>))"
  by (cases "env_argv (env s)") (simp_all add: set_slot_def wp_simps)

lemma copy_arguments_wp:
  "env_argv (env s) = Some (map Some xs @ replicate (length app) None) \<Longrightarrow>
   env_argc (env s) = length xs \<Longrightarrow>
   wp (for_each app copy_argument) (\<lambda>_ t. t = s\<lparr>blocks := blocks s + int (length app),
     env := (env s)\<lparr>env_argc := length xs + length app, env_argv := Some (map Some (xs @ app))\<rparr>\<rparr>) s"
proof (induction app arbitrary: xs s)
  case Nil
  then show ?case by (cases s, cases "env s") (simp add: wp_simps)
next
  case (Cons a app)
  let ?s = "s\<lparr>blocks := blocks s + 1, env := (env s)\<lparr>env_argc := length (xs @ [a]),
     env_argv := Some (map Some (xs @ [a]) @ replicate (length app) None)\<rparr>\<rparr>"
  have "wp (copy_argument a) (\<lambda>_ t. t = ?s) s"
    using Cons.prems by (cases s, cases "env s")
      (simp add: copy_argument_def wp_simps list_update_append)
  then have "wp (copy_argument a) (\<lambda>_. wp (for_each app copy_argument)
    (\<lambda>_ t. t = s\<lparr>blocks := blocks s + int (length (a # app)),
     env := (env s)\<lparr>env_argc := length xs + length (a # app),
       env_argv := Some (map Some (xs @ a # app))\<rparr>\<rparr>)) s"
    by (rule wp_mono) (use Cons.IH[of ?s "xs @ [a]"] in \<open>auto simp: algebra_simps\<close>)
  then show ?case by (simp add: wp_simps)
qed

definition options_valid :: "string list \<Rightarrow> bool" where
  "options_valid args \<longleftrightarrow>
     2 \<le> length args \<and> set (option_args args) \<subseteq> {''--memstat'', ''--show-opcodes''}"

lemma takeWhile_all: "set xs \<subseteq> A \<Longrightarrow> takeWhile (\<lambda>a. a \<in> A) xs = xs"
  by (simp add: subset_iff)

lemma parse_valid:
  assumes "set (takeWhile (\<lambda>a. a \<noteq> ''--'') as) \<subseteq> {''--memstat'', ''--show-opcodes''}"
  shows "parse_options c as =
     (\<lparr>memstat = memstat c \<or> ''--memstat'' \<in> set (takeWhile (\<lambda>a. a \<noteq> ''--'') as),
       show_opcode = show_opcode c \<or> ''--show-opcodes'' \<in> set (takeWhile (\<lambda>a. a \<noteq> ''--'') as)\<rparr>,
      Some (tl (dropWhile (\<lambda>a. a \<noteq> ''--'') as)))"
  unfolding parse_options_spec Let_def takeWhile_all[OF assms] by (simp add: assms)

lemma parse_invalid:
  "\<not> set (takeWhile (\<lambda>a. a \<noteq> ''--'') as) \<subseteq> {''--memstat'', ''--show-opcodes''} \<Longrightarrow>
   \<exists>c'. parse_options c as = (c', None)"
  by (simp add: parse_options_spec Let_def)

lemma parse_valid_wp:
  assumes "options_valid args"
  shows "wp (iotjs_environment_parse_command_line_arguments args)
    (\<lambda>r t. r \<and> trace t = trace s \<and> blocks t = blocks s + 1 + int (length (app_args args)) \<and>
      env_argc (env t) = 2 + length (app_args args) \<and>
      env_argv (env t) = Some (map Some (take 2 args @ app_args args)) \<and>
      env_config (env t) =
        \<lparr>memstat = memstat (env_config (env s)) \<or> ''--memstat'' \<in> set (option_args args),
         show_opcode = show_opcode (env_config (env s)) \<or> ''--show-opcodes'' \<in> set (option_args args)\<rparr> \<and>
      env_initialized t = env_initialized s \<and> env_state (env t) = env_state (env s)) s"
proof -
  from assms have len: "\<not> length args < 2" and v: "set (option_args args) \<subseteq> {''--memstat'', ''--show-opcodes''}"
    by (simp_all add: options_valid_def)
  from len obtain a b as where args: "args = a # b # as"
    by (cases args; cases "tl args") auto
  show ?thesis
    using v unfolding iotjs_environment_parse_command_line_arguments_def args
    by (simp add: wp_simps parse_valid)
      (rule wp_mono[OF copy_arguments_wp[of _ "[a, b]"]], simp_all add: wp_simps)
qed


lemma parse_invalid_wp:
  assumes "\<not> options_valid args"
  shows "wp (iotjs_environment_parse_command_line_arguments args)
    (\<lambda>r t. \<not> r \<and> trace t = trace s \<and> blocks t = blocks s \<and> env_argc (env t) = env_argc (env s) \<and>
      env_argv (env t) = env_argv (env s)) s"
proof (cases "length args < 2")
  case True
  then show ?thesis by (simp add: iotjs_environment_parse_command_line_arguments_def wp_simps)
next
  case False
  then obtain c' where "parse_options (env_config (env s)) (drop 2 args) = (c', None)"
    using assms parse_invalid[of "drop 2 args"] by (auto simp: options_valid_def)
  then show ?thesis
    using False by (simp add: iotjs_environment_parse_command_line_arguments_def wp_simps)
qed

lemma release_wp:
  assumes "env_initialized s" "env_argv (env s) = Some (map Some xs)" "env_argc (env s) = length xs"
    "2 \<le> length xs"
  shows "wp iotjs_environment_release (\<lambda>_ t. t =
     s\<lparr>blocks := blocks s - 1 - int (length xs - 2), env_initialized := False\<rparr>) s"
proof -
  have "wp (for_each [k..<length xs] (\<lambda>i.
      if length (map Some xs) \<le> i then fail (OutOfBounds ''argv'')
      else if map Some xs ! i = None then fail (NullPointer ''argv'')
      else iotjs_buffer_release)) (\<lambda>_ t. t = u\<lparr>blocks := blocks u + int k - int (length xs)\<rparr>) u"
    if "k \<le> length xs" for k and u :: "('a, 'b) ert_scheme"
    using that
  proof (induction "length xs - k" arbitrary: k u)
    case 0
    then show ?case by (simp add: wp_simps)
  next
    case (Suc n)
    then have k: "k < length xs" by simp
    then have "[k..<length xs] = k # [Suc k..<length xs]" by (rule upt_conv_Cons)
    with k Suc(1)[of "Suc k" "u\<lparr>blocks := blocks u - 1\<rparr>"] Suc(2) show ?case
      by (simp add: wp_simps)
  qed
  note loop = this[OF assms(4), simplified]
  show ?thesis
    using assms unfolding iotjs_environment_release_def iotjs_environment_destroy_def
    by (simp add: wp_simps) (rule wp_mono[OF loop], simp add: wp_simps of_nat_diff)
qed

lemma argv_nth:
  "env_argv (env t) = Some (map Some xs) \<Longrightarrow> i < length xs \<Longrightarrow>
   iotjs_environment_argv i t = Inr (xs ! i, t)"
  by (simp add: iotjs_environment_argv_def prog_defs)

section \<open>Properties\<close>

text \<open>C31. A command line is accepted exactly when it has the program and the script and every
  argument before the first \<^verbatim>\<open>--\<close> is a known option. The flags are then set as given, the
  application sees the program, the script and the arguments after \<^verbatim>\<open>--\<close>, and releasing the
  environment afterwards gives back every heap block that parsing took. A rejected one allocates
  nothing and leaves the arguments as they were.\<close>

theorem parse_command_line_correct:
  "(options_valid args \<longrightarrow>
     (\<exists>t. iotjs_environment_parse_command_line_arguments args s = Inr (True, t) \<and>
        env_argc (env t) = 2 + length (app_args args) \<and>
        (\<forall>i < env_argc (env t). iotjs_environment_argv i t = Inr ((take 2 args @ app_args args) ! i, t)) \<and>
        memstat (env_config (env t)) =
          (memstat (env_config (env s)) \<or> ''--memstat'' \<in> set (option_args args)) \<and>
        (env_initialized s \<longrightarrow> (\<exists>u. iotjs_environment_release t = Inr ((), u) \<and>
           blocks u = blocks s \<and> \<not> env_initialized u)))) \<and>
   (\<not> options_valid args \<longrightarrow>
     (\<exists>t. iotjs_environment_parse_command_line_arguments args s = Inr (False, t) \<and>
        blocks t = blocks s \<and> env_argv (env t) = env_argv (env s)))"
proof (intro conjI impI)
  assume v: "options_valid args"
  then have two: "2 \<le> length args" by (simp add: options_valid_def)
  obtain t where t: "iotjs_environment_parse_command_line_arguments args s = Inr (True, t)"
    "blocks t = blocks s + 1 + int (length (app_args args))"
    "env_argc (env t) = 2 + length (app_args args)"
    "env_argv (env t) = Some (map Some (take 2 args @ app_args args))"
    "memstat (env_config (env t)) =
       (memstat (env_config (env s)) \<or> ''--memstat'' \<in> set (option_args args))"
    "env_initialized t = env_initialized s"
    using parse_valid_wp[OF v, of s] unfolding wp_runs by auto
  let ?xs = "take 2 args @ app_args args"
  have len: "env_argc (env t) = length ?xs" "2 \<le> length ?xs"
    using t(3) two by simp_all
  have "iotjs_environment_argv i t = Inr (?xs ! i, t)" if "i < env_argc (env t)" for i
    using argv_nth[OF t(4)] that len(1) by metis
  moreover have "\<exists>u. iotjs_environment_release t = Inr ((), u) \<and> blocks u = blocks s \<and>
      \<not> env_initialized u" if "env_initialized s"
    using release_wp[OF _ t(4) len(1) len(2)] that t(2,6) two by (auto simp: wp_runs)
  ultimately show "\<exists>t. iotjs_environment_parse_command_line_arguments args s = Inr (True, t) \<and>
        env_argc (env t) = 2 + length (app_args args) \<and>
        (\<forall>i < env_argc (env t). iotjs_environment_argv i t = Inr ((take 2 args @ app_args args) ! i, t)) \<and>
        memstat (env_config (env t)) =
          (memstat (env_config (env s)) \<or> ''--memstat'' \<in> set (option_args args)) \<and>
        (env_initialized s \<longrightarrow> (\<exists>u. iotjs_environment_release t = Inr ((), u) \<and>
           blocks u = blocks s \<and> \<not> env_initialized u))"
    using t by blast
next
  assume "\<not> options_valid args"
  from parse_invalid_wp[OF this, of s]
  show "\<exists>t. iotjs_environment_parse_command_line_arguments args s = Inr (False, t) \<and>
        blocks t = blocks s \<and> env_argv (env t) = env_argv (env s)"
    unfolding wp_runs by auto
qed

definition start_state :: "iotjs_environment_t \<Rightarrow> unit ert" where
  "start_state e = \<lparr>trace = [], blocks = 0, h_this = JNull, h_argv = [], h_ret = (False, JNull),
     h_finished = False, jmodule = \<lambda>_. JUndefined, env = e, env_initialized = True\<rparr>"

theorem parse_command_line_correct_witness:
  "\<exists>t. iotjs_environment_parse_command_line_arguments
      [''iotjs'', ''a.js'', ''--memstat'', ''--'', ''x''] (start_state fresh_environment) = Inr (True, t) \<and>
    iotjs_environment_argv 2 t = Inr (''x'', t) \<and> memstat (env_config (env t))"
proof -
  have "options_valid [''iotjs'', ''a.js'', ''--memstat'', ''--'', ''x'']"
    by (simp add: options_valid_def)
  with parse_command_line_correct[of "[''iotjs'', ''a.js'', ''--memstat'', ''--'', ''x'']"
      "start_state fresh_environment"]
  obtain t where t: "iotjs_environment_parse_command_line_arguments
      [''iotjs'', ''a.js'', ''--memstat'', ''--'', ''x''] (start_state fresh_environment) = Inr (True, t)"
    "env_argc (env t) = 3" "memstat (env_config (env t))"
    "\<forall>i < env_argc (env t). iotjs_environment_argv i t =
      Inr ((take 2 [''iotjs'', ''a.js'', ''--memstat'', ''--'', ''x''] @ [''x'']) ! i, t)"
    by auto
  from t(4) have "iotjs_environment_argv 2 t =
      Inr ((take 2 [''iotjs'', ''a.js'', ''--memstat'', ''--'', ''x''] @ [''x'']) ! 2, t)"
    unfolding t(2) by (rule allE[of _ 2]) simp
  with t show ?thesis by auto
qed

text \<open>The phases as steps: \<open>phase_step\<close> relates the phase before and after a successful call.\<close>

datatype go = Go_main | Go_loop | Go_exit

primrec go_prog :: "go \<Rightarrow> (('c, 'z) ert_scheme, unit) prog" where
  "go_prog Go_main = iotjs_environment_go_state_running_main"
| "go_prog Go_loop = iotjs_environment_go_state_running_loop"
| "go_prog Go_exit = iotjs_environment_go_state_exiting"

inductive phase_step :: "State \<Rightarrow> go \<Rightarrow> State \<Rightarrow> bool" where
  main: "phase_step kInitializing Go_main kRunningMain"
| loop: "phase_step kRunningMain Go_loop kRunningLoop"
| exit: "st < kExiting \<Longrightarrow> phase_step st Go_exit kExiting"

inductive phase_run :: "State \<Rightarrow> go list \<Rightarrow> State \<Rightarrow> bool" where
  stop: "phase_run st [] st"
| move: "phase_step st g st' \<Longrightarrow> phase_run st' gs st'' \<Longrightarrow> phase_run st (g # gs) st''"

inductive_cases phase_stepE: "phase_step st g st'"

inductive_simps phase_run_simps [simp]: "phase_run st [] st'" "phase_run st (g # gs) st'"

inductive_simps phase_step_simps [simp]:
  "phase_step st Go_main st'" "phase_step st Go_loop st'" "phase_step st Go_exit st'"

lemma phase_step_less: "phase_step st g st' \<Longrightarrow> st < st'"
  by (auto elim!: phase_stepE simp: less_State_def)

lemma go_prog_step:
  "wp (go_prog g) (\<lambda>_ t. Q t) s \<longleftrightarrow>
     (\<exists>st'. phase_step (env_state (env s)) g st' \<and>
        Q (s\<lparr>env := (env s)\<lparr>env_state := st'\<rparr>\<rparr>))"
  by (cases g) (auto simp: iotjs_environment_go_state_running_main_def go_state_def
      iotjs_environment_go_state_running_loop_def iotjs_environment_go_state_exiting_def wp_simps)

lemma go_progs_run:
  "wp (for_each gs go_prog) (\<lambda>_ t. env_state (env t) = st') s \<longleftrightarrow>
     phase_run (env_state (env s)) gs st'"
  by (induction gs arbitrary: s) (auto simp: wp_simps go_prog_step)

lemma phase_run_length: "phase_run st gs st' \<Longrightarrow> length gs + state_number st \<le> state_number st'"
  by (induction rule: phase_run.induct)
    (auto dest!: phase_step_less simp: less_State_def)

text \<open>The sequences of phase changes that run without a failed assertion from the initial
  phase are exactly these: the main program is entered first, the loop only from the main
  program, exiting from any earlier phase, and nothing follows it.\<close>

theorem phase_sequences:
  assumes "env_state (env s) = kInitializing"
  shows "(\<exists>t. for_each gs go_prog s = Inr ((), t)) \<longleftrightarrow>
    gs \<in> {[], [Go_main], [Go_exit], [Go_main, Go_loop], [Go_main, Go_exit],
           [Go_main, Go_loop, Go_exit]}"
proof -
  have "(\<exists>t. for_each gs go_prog s = Inr ((), t)) \<longleftrightarrow> (\<exists>st'. phase_run kInitializing gs st')"
    unfolding go_progs_run[symmetric, of s gs, unfolded assms] by (auto simp: wp_runs)
  also have "\<dots> \<longleftrightarrow> gs \<in> {[], [Go_main], [Go_exit], [Go_main, Go_loop], [Go_main, Go_exit],
           [Go_main, Go_loop, Go_exit]}"
  proof
    assume "\<exists>st'. phase_run kInitializing gs st'"
    then obtain st' where r: "phase_run kInitializing gs st'" ..
    have "state_number st' \<le> 3" by (cases st') simp_all
    with phase_run_length[OF r] have "length gs \<le> 3" by simp
    then have "gs = [] \<or> (\<exists>a. gs = [a]) \<or> (\<exists>a b. gs = [a, b]) \<or> (\<exists>a b c. gs = [a, b, c])"
      by (cases gs; cases "tl gs"; cases "tl (tl gs)") auto
    moreover have "a = Go_main \<or> a = Go_loop \<or> a = Go_exit" for a by (cases a) simp_all
    ultimately show "gs \<in> {[], [Go_main], [Go_exit], [Go_main, Go_loop], [Go_main, Go_exit],
           [Go_main, Go_loop, Go_exit]}"
      using r by (elim disjE exE) (auto elim!: phase_stepE simp: less_State_def)
  next
    assume "gs \<in> {[], [Go_main], [Go_exit], [Go_main, Go_loop], [Go_main, Go_exit],
           [Go_main, Go_loop, Go_exit]}"
    then show "\<exists>st'. phase_run kInitializing gs st'" by (auto simp: less_State_def)
  qed
  finally show ?thesis .
qed

theorem phase_sequences_witness:
  "(\<exists>t. for_each [Go_main, Go_loop, Go_exit] go_prog (start_state fresh_environment) = Inr ((), t)) \<and>
   \<not> (\<exists>t. for_each [Go_loop] go_prog (start_state fresh_environment) = Inr ((), t))"
  using phase_sequences[of "start_state fresh_environment" "[Go_main, Go_loop, Go_exit]"]
    phase_sequences[of "start_state fresh_environment" "[Go_loop]"]
  by (simp add: start_state_def fresh_environment_def)

end
