(* ===== verification/Iot_Helper.thy ===== *)
theory Iot_Helper
  imports Iot_Env
begin

text \<open>
  \<^verbatim>\<open>src/iotjs_binding_helper.c\<close> (callbacks into JavaScript followed by the next tick),
  \<^verbatim>\<open>src/iotjs_exception.c\<close>, \<^verbatim>\<open>iotjs_file_read\<close> of \<^verbatim>\<open>src/iotjs_util.c\<close> and
  \<^verbatim>\<open>src/iotjs_debuglog.c\<close>.

  What the callback does in JavaScript is the answer of the engine; natives that it calls back
  run as transitions of their own in the component theories.
\<close>

section \<open>Callbacks\<close>

definition iotjs_uncaught_exception ::
  "'c engine \<Rightarrow> jval \<Rightarrow> (('c, 'z) mrt_scheme, unit) prog" where
  "iotjs_uncaught_exception E jexception =
     bnd (iotjs_module_get MODULE_PROCESS) (\<lambda>process.
     bnd (iotjs_jval_get_property E process ''_onUncaughtExcecption'') (\<lambda>jonuncaughtexception.
     sq (IOTJS_ASSERT ''iotjs_uncaught_exception'' (is_function jonuncaughtexception))
    (bnd (iotjs_jargs_create 1) (\<lambda>args.
     bnd (iotjs_jargs_append_jval args jexception) (\<lambda>args.
     bnd (iotjs_jhelper_call_ok E jonuncaughtexception process args) (\<lambda>jres.
     sq (iotjs_jval_destroy jres)
    (sq (iotjs_jargs_destroy args)
    (iotjs_jval_destroy jonuncaughtexception))))))))"

definition iotjs_process_emit_exit :: "'c engine \<Rightarrow> int \<Rightarrow> (('c, 'z) mrt_scheme, unit) prog" where
  "iotjs_process_emit_exit E code =
     bnd (iotjs_module_get MODULE_PROCESS) (\<lambda>process.
     bnd (iotjs_jval_get_property E process ''emitExit'') (\<lambda>jexit.
     sq (IOTJS_ASSERT ''iotjs_process_emit_exit'' (is_function jexit))
    (bnd (iotjs_jargs_create 1) (\<lambda>jargs.
     bnd (iotjs_jargs_append_number jargs (num code)) (\<lambda>jargs.
     bnd (iotjs_jhelper_call E jexit process jargs) (\<lambda>(throws, jres).
     sq (iotjs_jargs_destroy jargs)
    (sq (iotjs_jval_destroy jres)
    (sq (iotjs_jval_destroy jexit)
    (if throws then fail (Exits 2) else ret ())))))))))"

definition iotjs_process_next_tick :: "'c engine \<Rightarrow> (('c, 'z) mrt_scheme, bool) prog" where
  "iotjs_process_next_tick E =
     bnd (iotjs_module_get MODULE_PROCESS) (\<lambda>process.
     bnd (iotjs_jval_get_property E process ''_onNextTick'') (\<lambda>jon_next_tick.
     sq (IOTJS_ASSERT ''iotjs_process_next_tick'' (is_function jon_next_tick))
    (bnd (iotjs_jhelper_call_ok E jon_next_tick JUndefined jargs_empty) (\<lambda>jres.
     sq (IOTJS_ASSERT ''iotjs_process_next_tick'' (is_boolean jres))
    (bnd (iotjs_jval_as_boolean jres) (\<lambda>r.
     sq (iotjs_jval_destroy jres)
    (sq (iotjs_jval_destroy jon_next_tick)
    (ret r))))))))"

definition iotjs_make_callback_with_result ::
  "'c engine \<Rightarrow> jval \<Rightarrow> jval \<Rightarrow> iotjs_jargs_t \<Rightarrow> (('c, 'z) mrt_scheme, jval) prog" where
  "iotjs_make_callback_with_result E jfunction jthis jargs =
     bnd (iotjs_jhelper_call E jfunction jthis jargs) (\<lambda>(throws, jres).
     sq (if throws then iotjs_uncaught_exception E jres else ret ())
    (bnd (iotjs_process_next_tick E) (\<lambda>_.
     ret jres)))"

definition iotjs_make_callback ::
  "'c engine \<Rightarrow> jval \<Rightarrow> jval \<Rightarrow> iotjs_jargs_t \<Rightarrow> (('c, 'z) mrt_scheme, unit) prog" where
  "iotjs_make_callback E jfunction jthis jargs =
     bnd (iotjs_make_callback_with_result E jfunction jthis jargs) (\<lambda>result.
     iotjs_jval_destroy result)"

definition iotjs_init_process_module ::
  "(ModuleKind \<Rightarrow> (('c, 'z) mrt_scheme, jval) prog) \<Rightarrow> (('c, 'z) mrt_scheme, jval) prog" where
  "iotjs_init_process_module reg = iotjs_module_initialize_if_necessary reg MODULE_PROCESS"

section \<open>Exceptions of libuv\<close>

text \<open>The decimal digits of a number, as \<^verbatim>\<open>printf\<close> prints them.\<close>

fun nat_digits :: "nat \<Rightarrow> string" where
  "nat_digits n =
     (if n < 10 then [char_of (48 + n)] else nat_digits (n div 10) @ [char_of (48 + n mod 10)])"

definition int_digits :: "int \<Rightarrow> string" where
  "int_digits i = (if i < 0 then ''-'' @ nat_digits (nat (- i)) else nat_digits (nat i))"

text \<open>\<open>strerror\<close> is \<^verbatim>\<open>uv_strerror\<close>; the message is cut to the 256 bytes of its buffer.\<close>

definition iotjs_create_uv_exception ::
  "'c engine \<Rightarrow> (int \<Rightarrow> string) \<Rightarrow> int \<Rightarrow> string \<Rightarrow> (('c, 'z) rt_scheme, jval) prog" where
  "iotjs_create_uv_exception E strerror errorno syscall =
     iotjs_jval_create_error E (take 255 ([CHR 0x27] @ syscall @ [CHR 0x27, CHR 0x20] @ strerror errorno))"


section \<open>Reading a file\<close>

text \<open>\<open>files\<close> is the file system: the bytes of a file, \<open>None\<close> when \<^verbatim>\<open>fopen\<close> fails.\<close>

definition iotjs_file_read ::
  "(string \<Rightarrow> char list option) \<Rightarrow> string \<Rightarrow> (('c, 'z) rt_scheme, iotjs_string_t) prog" where
  "iotjs_file_read files path =
     (case files path of
        None \<Rightarrow> fail (Assertion ''iotjs_file_read'')
      | Some bytes \<Rightarrow>
          bnd (iotjs_buffer_allocate (nat (c_uint32 (int (length bytes) + 1)))) (\<lambda>blk.
          bnd (store ''fread'' (map Some blk) 0 bytes) (\<lambda>b.
          bnd (store ''terminator'' b (length bytes) [NUL]) (\<lambda>b.
          iotjs_string_create_with_buffer b (word_of_nat (length bytes))))))"

section \<open>The debug log\<close>

datatype stream = Stderr | Stdout | LogFile string

record dbg =
  iotjs_debug_level :: int
  iotjs_log_stream :: stream
  open_streams :: "stream list"

fun digits_value :: "int \<Rightarrow> string \<Rightarrow> int" where
  "digits_value acc [] = acc"
| "digits_value acc (c # cs) =
     (if 48 \<le> (of_char c :: int) \<and> of_char c \<le> (57 :: int) then digits_value (acc * 10 + (of_char c - 48)) cs else acc)"

text \<open>\<^verbatim>\<open>atoi\<close> on a number that fits an \<^verbatim>\<open>int\<close>.\<close>

definition atoi :: "string \<Rightarrow> int" where
  "atoi s =
     (case dropWhile (\<lambda>c. c = CHR 0x20) s of
        [] \<Rightarrow> 0
      | c # cs \<Rightarrow> (if c = CHR ''-'' then - digits_value 0 cs
                 else if c = CHR ''+'' then digits_value 0 cs
                 else digits_value 0 (c # cs)))"

definition init_debug_settings ::
  "string option \<Rightarrow> string option \<Rightarrow> (string \<Rightarrow> bool) \<Rightarrow> (dbg, unit) prog" where
  "init_debug_settings dbglevel dbglogfile can_open =
     sq (case dbglevel of
           None \<Rightarrow> ret ()
         | Some l \<Rightarrow>
             sq (upd (\<lambda>s. s\<lparr>iotjs_debug_level := atoi l\<rparr>))
            (sq (upd (\<lambda>s. if iotjs_debug_level s < 0 then s\<lparr>iotjs_debug_level := 0\<rparr> else s))
            (upd (\<lambda>s. if 3 < iotjs_debug_level s then s\<lparr>iotjs_debug_level := 3\<rparr> else s))))
    (sq (upd (\<lambda>s. s\<lparr>iotjs_log_stream := Stderr\<rparr>))
    (case dbglogfile of
       None \<Rightarrow> ret ()
     | Some f \<Rightarrow>
         if can_open f
         then upd (\<lambda>s. s\<lparr>iotjs_log_stream := LogFile f, open_streams := LogFile f # open_streams s\<rparr>)
         else ret ()))"

definition fclose :: "stream \<Rightarrow> (dbg, unit) prog" where
  "fclose f = bnd (gets open_streams) (\<lambda>fs.
     if f \<in> set fs then upd (\<lambda>s. s\<lparr>open_streams := remove1 f (open_streams s)\<rparr>)
     else fail (UseAfterFree ''fclose''))"

definition release_debug_settings :: "(dbg, unit) prog" where
  "release_debug_settings =
     bnd (gets iotjs_log_stream) (\<lambda>f.
     sq (if f \<noteq> Stderr \<or> f \<noteq> Stdout then fclose f else ret ())
     (upd (\<lambda>s. s\<lparr>iotjs_log_stream := Stderr, iotjs_debug_level := 1\<rparr>)))"

section \<open>Rules\<close>

text \<open>
  What the callbacks rely on from the JavaScript side of the process module
  (\<^verbatim>\<open>src/js/iotjs.js\<close>): its two entry points are functions that do not throw, and the next tick
  returns a boolean.
\<close>

definition process_ok :: "'c engine \<Rightarrow> jval \<Rightarrow> bool" where
  "process_ok E p \<longleftrightarrow> is_object p \<and>
     (\<forall>tr. \<exists>f. e_prop E tr p ''_onNextTick'' = (False, f) \<and> is_function f \<and>
        (\<forall>tr. \<exists>b. e_call E tr f JUndefined [] = (False, JBool b))) \<and>
     (\<forall>tr. \<exists>f. e_prop E tr p ''_onUncaughtExcecption'' = (False, f) \<and> is_function f \<and>
        (\<forall>tr x. \<exists>r. e_call E tr f p [x] = (False, r)))"

abbreviation process_module :: "'c engine \<Rightarrow> ('c, 'z) mrt_scheme \<Rightarrow> bool" where
  "process_module E s \<equiv>
     jmodule s MODULE_PROCESS \<noteq> JUndefined \<and> process_ok E (jmodule s MODULE_PROCESS)"

definition args_hold :: "iotjs_jargs_t \<Rightarrow> jval list \<Rightarrow> bool" where
  "args_hold jargs vs \<longleftrightarrow> jargs = jargs_empty \<and> vs = [] \<or> (\<exists>cap. jargs = jargs_of cap vs)"

lemma args_hold_intros [simp]: "args_hold jargs_empty []" "args_hold (jargs_of cap vs) vs"
  by (auto simp: args_hold_def)

lemma wp_jhelper_call_hold:
  "args_hold jargs vs \<Longrightarrow>
   wp (iotjs_jhelper_call E f t jargs) Q s \<longleftrightarrow> is_object f \<and>
     (case e_call E (trace s) f t vs of (th, r) \<Rightarrow>
        Q (th, r) (s\<lparr>trace := trace s @ [ECall f t vs th r]\<rparr>))"
  by (auto simp: args_hold_def wp_simps)

lemma is_function_object [simp]: "is_function f \<Longrightarrow> is_object f"
  by (cases f) simp_all

lemma next_tick_wp:
  assumes "process_module E s"
  shows "wp (iotjs_process_next_tick E) (\<lambda>_. quiet s) s"
proof -
  let ?p = "jmodule s MODULE_PROCESS"
  let ?tr = "trace s @ [ECreate (JString ''_onNextTick'')]"
  from assms obtain f where f: "e_prop E ?tr ?p ''_onNextTick'' = (False, f)" "is_function f"
    "\<And>tr. \<exists>b. e_call E tr f JUndefined [] = (False, JBool b)"
    unfolding process_ok_def by metis
  let ?tr' = "?tr @ [EGetProp ?p ''_onNextTick'' f, ERelease (JString ''_onNextTick'')]"
  from f(3) obtain b where b: "e_call E ?tr' f JUndefined [] = (False, JBool b)" by blast
  show ?thesis
    using assms f(1,2) b
    by (auto simp: iotjs_process_next_tick_def iotjs_jhelper_call_ok_def wp_simps quiet_def
        process_ok_def intro!: exI)
qed

lemma uncaught_exception_wp:
  assumes "process_module E s"
  shows "wp (iotjs_uncaught_exception E x) (\<lambda>_. quiet s) s"
proof -
  let ?p = "jmodule s MODULE_PROCESS" and ?n = "''_onUncaughtExcecption''"
  let ?tr = "trace s @ [ECreate (JString ?n)]"
  from assms obtain f where f: "e_prop E ?tr ?p ?n = (False, f)" "is_function f"
    "\<And>tr x. \<exists>r. e_call E tr f ?p [x] = (False, r)"
    unfolding process_ok_def by metis
  let ?tr' = "?tr @ [EGetProp ?p ?n f, ERelease (JString ?n), EAcquire x]"
  from f(3) obtain r where r: "e_call E ?tr' f ?p [x] = (False, r)" by blast
  show ?thesis
    using assms f(1,2) r
    by (cases s) (auto simp: iotjs_uncaught_exception_def iotjs_jhelper_call_ok_def wp_simps
        quiet_def process_ok_def intro!: exI)
qed

text \<open>\<open>called f t vs s u\<close>: from \<open>s\<close> to \<open>u\<close> only the trace grew, by the call and what follows it.\<close>

definition called :: "jval \<Rightarrow> jval \<Rightarrow> jval list \<Rightarrow> ('c, 'z) rt_scheme \<Rightarrow> ('c, 'z) rt_scheme \<Rightarrow> bool" where
  "called f t vs s u \<longleftrightarrow> (\<exists>th r tr. u = s\<lparr>trace := trace s @ ECall f t vs th r # tr\<rparr> \<and>
     (\<forall>v. owned (ECall f t vs th r # tr) v = 0) \<and> natives tr = [])"

lemma called_quiet: "called f t vs s u \<Longrightarrow> quiet s u"
  unfolding called_def quiet_def by fastforce

lemma make_callback_with_result_wp:
  assumes "process_module E s" "is_object f" "args_hold jargs vs"
  shows "wp (iotjs_make_callback_with_result E f t jargs) (\<lambda>r u. \<exists>th tr.
     u = s\<lparr>trace := trace s @ ECall f t vs th r # tr\<rparr> \<and> (\<forall>v. owned tr v = 0) \<and> natives tr = [] \<and>
     (th, r) = e_call E (trace s) f t vs) s"
proof -
  obtain th r where c: "e_call E (trace s) f t vs = (th, r)" by (cases "e_call E (trace s) f t vs")
  let ?s = "s\<lparr>trace := trace s @ [ECall f t vs th r]\<rparr>"
  have "wp (if th then iotjs_uncaught_exception E r else ret ()) (\<lambda>_. quiet ?s) ?s"
    using uncaught_exception_wp[where E = E and s = ?s and x = r] assms(1)
    by (cases th) (simp_all add: wp_simps)
  then have "wp (if th then iotjs_uncaught_exception E r else ret ())
    (\<lambda>_. wp (iotjs_process_next_tick E) (\<lambda>_. quiet ?s)) ?s"
  proof (rule wp_mono)
    fix x u assume u: "quiet ?s u"
    then have "process_module E u" using assms(1) by (auto simp: quiet_def)
    from next_tick_wp[OF this] show "wp (iotjs_process_next_tick E) (\<lambda>_. quiet ?s) u"
      by (rule wp_mono) (use u quiet_trans in blast)
  qed
  then have "wp (sq (if th then iotjs_uncaught_exception E r else ret ())
      (bnd (iotjs_process_next_tick E) (\<lambda>_. ret r))) (\<lambda>x u. x = r \<and> quiet ?s u) ?s"
    unfolding wp_sq wp_bnd wp_ret by (elim wp_mono) simp
  then have "wp (sq (if th then iotjs_uncaught_exception E r else ret ())
      (bnd (iotjs_process_next_tick E) (\<lambda>_. ret r))) (\<lambda>x u. \<exists>th tr.
     u = s\<lparr>trace := trace s @ ECall f t vs th x # tr\<rparr> \<and> (\<forall>v. owned tr v = 0) \<and> natives tr = [] \<and>
     (th, x) = e_call E (trace s) f t vs) ?s"
    by (rule wp_mono) (auto simp: quiet_def c)
  then show ?thesis
    unfolding iotjs_make_callback_with_result_def wp_bnd wp_jhelper_call_hold[OF assms(3)] c prod.case
    using assms(2) by simp
qed

lemma make_callback_wp:
  assumes "process_module E s" "is_object f" "args_hold jargs vs"
  shows "wp (iotjs_make_callback E f t jargs) (\<lambda>_. called f t vs s) s"
  unfolding iotjs_make_callback_def wp_bnd
proof (rule wp_mono[OF make_callback_with_result_wp[OF assms]], elim exE conjE)
  fix r u th tr
  assume u: "u = s\<lparr>trace := trace s @ ECall f t vs th r # tr\<rparr>" and tr: "\<forall>v. owned tr v = 0"
    and nat: "natives tr = []"
  have "u\<lparr>trace := trace u @ [ERelease r]\<rparr> =
      s\<lparr>trace := trace s @ ECall f t vs th r # (tr @ [ERelease r])\<rparr>"
    using u by simp
  moreover have "\<forall>v. owned (ECall f t vs th r # (tr @ [ERelease r])) v = 0"
    using tr by simp
  moreover have "natives (tr @ [ERelease r]) = []" using nat by simp
  ultimately have "called f t vs s (u\<lparr>trace := trace u @ [ERelease r]\<rparr>)"
    unfolding called_def by blast
  then show "wp (iotjs_jval_destroy r) (\<lambda>_. called f t vs s) u"
    by (simp add: wp_simps)
qed

lemma file_read_wp:
  assumes "files path = Some bytes" "length bytes < 2 ^ 32 - 1"
  shows "wp (iotjs_file_read files path) (\<lambda>str t. contents str = bytes \<and>
    t = st\<lparr>blocks := blocks st + 1\<rparr> \<and> string_wf str = (bytes \<noteq> [])) st"
proof -
  have n: "unat (word_of_nat (length bytes) :: 32 word) = length bytes"
    using assms by (simp add: unat_of_nat)
  have w: "(0 :: 32 word) < word_of_nat (length bytes) \<longleftrightarrow> bytes \<noteq> []"
    using n by (simp add: word_less_nat_alt)
  have a: "nat (c_uint32 (int (length bytes) + 1)) = Suc (length bytes)"
    using assms by simp
  show ?thesis
    using assms n w
    by (auto simp: iotjs_file_read_def a wp_simps iotjs_string_create_with_buffer_def
        contents_def string_wf_def nth_append comp_def)
qed


section \<open>Properties\<close>


definition sample_engine :: "'c engine" where
  "sample_engine = \<lparr>e_new = length, e_set = \<lambda>_ _ _ _. False, e_set_index = \<lambda>_ _ _ _. False,
     e_prop = \<lambda>_ _ n. (False, JFunction (length n)), e_index = \<lambda>_ _ _. (False, JNull),
     e_native = \<lambda>_ _. 0, e_call = \<lambda>_ _ _ args. (args \<noteq> [] \<and> args \<noteq> [JNull], JBool (args = [])),
     e_eval = \<lambda>_ _. (False, JNull), e_sys = \<lambda>_ _. 0\<rparr>"

definition sample_state :: "unit mrt" where
  "sample_state = \<lparr>trace = [], blocks = 0, h_this = JNull, h_argv = [], h_ret = (False, JNull),
     h_finished = False, jmodule = \<lambda>_. JObject 0\<rparr>"

lemma sample_process_ok: "process_ok (sample_engine\<lparr>e_call := \<lambda>_ _ _ _. (False, JBool b)\<rparr>) (JObject 0)"
  by (simp add: process_ok_def sample_engine_def)


text \<open>\<^verbatim>\<open>iotjs_file_read\<close> returns exactly the bytes of the file, in a string that satisfies the
  representation invariant, unless the file is empty: then the string breaks the invariant, and
  appending to it fails.\<close>

theorem file_read_correct:
  assumes "files path = Some bytes" "length bytes < 2 ^ 32 - 1"
  shows "\<exists>str t. iotjs_file_read files path st = Inr (str, t) \<and> contents str = bytes \<and>
    blocks t = blocks st + 1 \<and> string_wf str = (bytes \<noteq> []) \<and>
    (bytes = [] \<longrightarrow> (\<forall>c cs u. iotjs_string_append str (c # cs) 1 u = Inl (Assertion ''iotjs_string_append'')))"
proof -
  obtain str t where r: "iotjs_file_read files path st = Inr (str, t)" "contents str = bytes"
    "t = st\<lparr>blocks := blocks st + 1\<rparr>" "string_wf str = (bytes \<noteq> [])"
    using file_read_wp[of files path bytes st, OF assms] by (auto simp: wp_runs)
  have "iotjs_string_append str (c # cs) 1 u = Inl (Assertion ''iotjs_string_append'')"
    if "bytes = []" for c cs and u :: "('c, 'd) rt_scheme"
  proof -
    from r(1) assms that obtain b where "str = \<lparr>str_size = 0, str_cap = 0, str_data = Some b\<rparr>"
      by (auto simp: iotjs_file_read_def prog_defs iotjs_buffer_allocate_def store_def
          iotjs_string_create_with_buffer_def split: if_splits)
    then show ?thesis
      by (simp add: iotjs_string_append_def append_bytes_def prog_defs)
  qed
  with r show ?thesis by fastforce
qed

theorem file_read_correct_witness:
  "\<exists>str t. iotjs_file_read [''a.js'' \<mapsto> ''x()''] ''a.js'' \<lparr>trace = ([] :: unit ev list), blocks = 0\<rparr> =
     Inr (str, t) \<and> contents str = ''x()'' \<and> string_wf str"
  using file_read_correct[of "[''a.js'' \<mapsto> ''x()'']" "''a.js''" "''x()''"
      "\<lparr>trace = ([] :: unit ev list), blocks = 0\<rparr>"] by auto

text \<open>The debug level always ends between 0 and 3, a log file that cannot be opened leaves the
  log on standard error, and, because its guard joins two inequalities with \<^verbatim>\<open>||\<close>,
  \<^verbatim>\<open>release_debug_settings\<close> closes standard error when no log file is in use; with a log file it
  closes that file alone.\<close>

theorem debug_settings:
  assumes "Stderr \<in> set (open_streams s)" "0 \<le> iotjs_debug_level s" "iotjs_debug_level s \<le> 3"
  shows "\<exists>t u. init_debug_settings lvl logf can_open s = Inr ((), t) \<and>
    0 \<le> iotjs_debug_level t \<and> iotjs_debug_level t \<le> 3 \<and>
    release_debug_settings t = Inr ((), u) \<and> iotjs_debug_level u = 1 \<and>
    (if logf \<noteq> None \<and> can_open (the logf)
     then iotjs_log_stream t = LogFile (the logf) \<and> open_streams u = open_streams s
     else iotjs_log_stream t = Stderr \<and> open_streams u = remove1 Stderr (open_streams s))"
  using assms
  by (cases lvl; cases logf)
    (auto simp: init_debug_settings_def release_debug_settings_def fclose_def prog_defs)

theorem debug_settings_witness:
  "\<exists>t u. init_debug_settings (Some ''7'') None (\<lambda>_. False)
      \<lparr>iotjs_debug_level = 1, iotjs_log_stream = Stderr, open_streams = [Stdout, Stderr]\<rparr> = Inr ((), t) \<and>
    release_debug_settings t = Inr ((), u) \<and> open_streams u = [Stdout]"
  using debug_settings[of "\<lparr>iotjs_debug_level = 1, iotjs_log_stream = Stderr,
      open_streams = [Stdout, Stderr]\<rparr>" "Some ''7''" None "\<lambda>_. False"]
  by fastforce

end
