(* ===== verification/Iot_Wraps.thy ===== *)
theory Iot_Wraps
  imports Iot_Helper
begin

text \<open>
  \<^verbatim>\<open>src/iotjs_objectwrap.c\<close>, \<^verbatim>\<open>src/iotjs_handlewrap.c\<close> and \<^verbatim>\<open>src/iotjs_reqwrap.c\<close>: the structures
  that tie JavaScript objects to libuv handles and JavaScript callbacks to libuv requests, and the
  life cycle of the references they hold.

  A wrapper is known by a number, its address; \<open>handles\<close> and \<open>reqs\<close> are the live ones. The
  \<^verbatim>\<open>uv_handle_t\<close> or \<^verbatim>\<open>uv_req_t\<close> lies inside the wrapper's allocation and its \<^verbatim>\<open>data\<close> field points
  back, so it has the same number. \<open>hw_open\<close> is \<^verbatim>\<open>handle != NULL\<close>, \<open>hw_on_close\<close> is
  \<^verbatim>\<open>on_close_cb != NULL\<close> (the only handler the sources pass is \<^verbatim>\<open>AfterClose\<close> of the TCP module).
\<close>

section \<open>System calls\<close>

text \<open>
  The calls of libuv and of the operating system that the modules make. The event loop,
  handles, requests and file descriptors are numbers, an address is its text and port. The memory
  of \<open>FsRead\<close> and \<open>FsWrite\<close> is a buffer wrapper, an offset in its block and a length; \<open>FsCleanup\<close> is
  \<^verbatim>\<open>uv_fs_req_cleanup\<close>. \<open>UvFsRead\<close> and \<open>UvFsWrite\<close> are \<^verbatim>\<open>uv_fs_read\<close> and \<^verbatim>\<open>uv_fs_write\<close> with a local
  array of the caller instead: the number of bytes wanted, the bytes given.
\<close>

datatype fs_op =
    FsClose int
  | FsOpen string int int
  | FsRead int nat nat nat int
  | FsWrite int nat nat nat int
  | FsStat string
  | FsMkdir string int
  | FsRmdir string
  | FsUnlink string
  | FsRename string string
  | FsScandir string
  | FsCleanup

datatype call =
    UvIsClosing nat
  | UvClose nat
  | UvTimerInit "nat option" nat
  | UvTimerStart nat int int
  | UvIp4Addr string int
  | UvTcpInit "nat option" nat
  | UvTcpBind nat string int
  | UvTcpConnect nat nat string int
  | UvListen nat int
  | UvAccept nat nat
  | UvWrite nat nat "char list"
  | UvReadStart nat
  | UvShutdown nat nat
  | UvTcpKeepalive nat int int
  | UvTcpGetsockname nat
  | UvUdpInit "nat option" nat
  | UvUdpBind nat string int int
  | UvUdpRecvStart nat
  | UvUdpRecvStop nat
  | UvUdpSend nat nat "char list" string int
  | UvUdpGetsockname nat
  | UvUdpSetBroadcast nat int
  | UvUdpSetTTL nat int
  | UvUdpSetMulticastTTL nat int
  | UvUdpSetMulticastLoop nat int
  | UvUdpSetMembership nat string "string option" bool
  | UvGetaddrinfo "nat option" nat string int int
  | UvFreeaddrinfo
  | UvFs "nat option" "nat option" fs_op
  | UvFsRead "nat option" int nat int
  | UvFsWrite "nat option" int "char list" int
  | UvQueueWork "nat option" nat string
  | UvRun "nat option" bool
  | UvLoopAlive "nat option"
  | UvLoopClose "nat option"
  | UvLoopCount "nat option" string
  | UvIsActive nat
  | UvCwd
  | UvCd string
  | JerryInit bool bool
  | JerryMagicStrings
  | JerryParse
  | JerryRun
  | JerryCleanup
  | SysPuts string string
  | SysOpen string
  | SysRead int nat
  | SysWrite int "char list"
  | SysClose int
  | SysIoctl int int
  | SysSmbus int bool int int "char list option"
  | SysUsleep int

section \<open>The state\<close>

record iotjs_handlewrap_t =
  hw_jobject :: jval
  hw_open :: bool
  hw_on_close :: bool

record 'c wrt = "'c ert" +
  handles :: "nat \<Rightarrow> iotjs_handlewrap_t option"
  reqs :: "nat \<Rightarrow> jval option"
  next_ptr :: nat

definition IOTJS_ALLOC :: "(('c, 'z) wrt_scheme, nat) prog" where
  "IOTJS_ALLOC =
     bnd (gets next_ptr) (\<lambda>p.
     sq (upd (\<lambda>s. s\<lparr>blocks := blocks s + 1, next_ptr := p + 1\<rparr>)) (ret p))"

definition IOTJS_RELEASE :: "(('c, 'z) rt_scheme, unit) prog" where
  "IOTJS_RELEASE = iotjs_buffer_release"

section \<open>Object wrappers\<close>

definition iotjs_jobjectwrap_initialize :: "nat \<Rightarrow> jval \<Rightarrow> (('c, 'z) rt_scheme, unit) prog" where
  "iotjs_jobjectwrap_initialize p jobject =
     sq (IOTJS_ASSERT ''iotjs_jobjectwrap_initialize'' (is_object jobject))
     (iotjs_jval_set_object_native_handle jobject p)"

text \<open>\<open>obj\<close> is the field \<^verbatim>\<open>jobject\<close> of the wrapper.\<close>

definition iotjs_jobjectwrap_jobject ::
  "'c engine \<Rightarrow> nat \<Rightarrow> jval \<Rightarrow> (('c, 'z) rt_scheme, jval) prog" where
  "iotjs_jobjectwrap_jobject E p obj =
     bnd (iotjs_jval_get_object_native_handle E obj) (\<lambda>n.
     sq (IOTJS_ASSERT ''iotjs_jobjectwrap_jobject'' (p = n))
    (sq (IOTJS_ASSERT ''iotjs_jobjectwrap_jobject'' (is_object obj))
    (ret obj)))"

section \<open>Handle wrappers\<close>

definition get_handlewrap :: "nat \<Rightarrow> (('c, 'z) wrt_scheme, iotjs_handlewrap_t) prog" where
  "get_handlewrap p =
     bnd (gets (\<lambda>s. handles s p)) (\<lambda>h.
     case h of
       None \<Rightarrow> fail (if p = 0 then NullPointer ''handlewrap'' else UseAfterFree ''handlewrap'')
     | Some h \<Rightarrow> ret h)"

definition set_handlewrap ::
  "nat \<Rightarrow> iotjs_handlewrap_t option \<Rightarrow> (('c, 'z) wrt_scheme, unit) prog" where
  "set_handlewrap p h = upd (\<lambda>s. s\<lparr>handles := (handles s)(p := h)\<rparr>)"

definition iotjs_handlewrap_validate :: "'c engine \<Rightarrow> nat \<Rightarrow> (('c, 'z) wrt_scheme, unit) prog" where
  "iotjs_handlewrap_validate E p =
     bnd (get_handlewrap p) (\<lambda>h.
     if hw_open h
     then bnd (iotjs_jobjectwrap_jobject E p (hw_jobject h)) (\<lambda>j.
          bnd (iotjs_jval_get_object_native_handle E j) (\<lambda>n.
          IOTJS_ASSERT ''iotjs_handlewrap_validate'' (p = n)))
     else fail (NullPointer ''handle''))"

definition iotjs_handlewrap_initialize ::
  "'c engine \<Rightarrow> nat \<Rightarrow> jval \<Rightarrow> (('c, 'z) wrt_scheme, unit) prog" where
  "iotjs_handlewrap_initialize E p jobject =
     bnd (iotjs_jval_create_copied jobject) (\<lambda>jobjectref.
     sq (iotjs_jobjectwrap_initialize p jobjectref)
    (sq (set_handlewrap p (Some \<lparr>hw_jobject = jobjectref, hw_open = True, hw_on_close = False\<rparr>))
    (iotjs_handlewrap_validate E p)))"

definition iotjs_handlewrap_destroy :: "nat \<Rightarrow> (('c, 'z) wrt_scheme, unit) prog" where
  "iotjs_handlewrap_destroy p =
     bnd (get_handlewrap p) (\<lambda>h.
     sq (IOTJS_ASSERT ''iotjs_handlewrap_destroy'' (\<not> hw_open h))
     (set_handlewrap p None))"

definition iotjs_handlewrap_from_handle :: "'c engine \<Rightarrow> nat \<Rightarrow> (('c, 'z) wrt_scheme, nat) prog" where
  "iotjs_handlewrap_from_handle E q = sq (iotjs_handlewrap_validate E q) (ret q)"

definition iotjs_handlewrap_from_jobject :: "'c engine \<Rightarrow> jval \<Rightarrow> (('c, 'z) wrt_scheme, nat) prog" where
  "iotjs_handlewrap_from_jobject E jobject =
     bnd (iotjs_jval_get_object_native_handle E jobject) (\<lambda>p.
     sq (iotjs_handlewrap_validate E p) (ret p))"

definition iotjs_handlewrap_get_uv_handle :: "'c engine \<Rightarrow> nat \<Rightarrow> (('c, 'z) wrt_scheme, nat) prog" where
  "iotjs_handlewrap_get_uv_handle E p = sq (iotjs_handlewrap_validate E p) (ret p)"

definition iotjs_handlewrap_jobject :: "'c engine \<Rightarrow> nat \<Rightarrow> (('c, 'z) wrt_scheme, jval) prog" where
  "iotjs_handlewrap_jobject E p =
     sq (iotjs_handlewrap_validate E p)
     (bnd (get_handlewrap p) (\<lambda>h. iotjs_jobjectwrap_jobject E p (hw_jobject h)))"

text \<open>\<open>cb\<close> is what the registered close handler does.\<close>

definition iotjs_handlewrap_on_close ::
  "'c engine \<Rightarrow> (nat \<Rightarrow> (('c, 'z) wrt_scheme, unit) prog) \<Rightarrow> nat \<Rightarrow> (('c, 'z) wrt_scheme, unit) prog" where
  "iotjs_handlewrap_on_close E cb p =
     bnd (get_handlewrap p) (\<lambda>h.
     sq (if hw_on_close h then cb p else ret ())
    (bnd (get_handlewrap p) (\<lambda>h.
     sq (set_handlewrap p (Some (h\<lparr>hw_open := False\<rparr>)))
    (bnd (iotjs_jobjectwrap_jobject E p (hw_jobject h)) iotjs_jval_destroy))))"

definition iotjs_on_handle_closed ::
  "'c engine \<Rightarrow> (nat \<Rightarrow> (('c, 'z) wrt_scheme, unit) prog) \<Rightarrow> nat \<Rightarrow> (('c, 'z) wrt_scheme, unit) prog" where
  "iotjs_on_handle_closed E cb q =
     bnd (iotjs_handlewrap_from_handle E q) (iotjs_handlewrap_on_close E cb)"

definition iotjs_handlewrap_close ::
  "call engine \<Rightarrow> nat \<Rightarrow> bool \<Rightarrow> ((call, 'z) wrt_scheme, unit) prog" where
  "iotjs_handlewrap_close E p on_close =
     bnd (get_handlewrap p) (\<lambda>h.
     if hw_open h
     then bnd (sys E (UvIsClosing p)) (\<lambda>closing.
          if closing = 0
          then sq (set_handlewrap p (Some (h\<lparr>hw_on_close := on_close\<rparr>)))
              (bnd (sys E (UvClose p)) (\<lambda>_. ret ()))
          else ret ())
     else ret ())"

section \<open>Request wrappers\<close>

definition iotjs_reqwrap_initialize :: "nat \<Rightarrow> jval \<Rightarrow> (('c, 'z) wrt_scheme, unit) prog" where
  "iotjs_reqwrap_initialize p jcallback =
     sq (IOTJS_ASSERT ''iotjs_reqwrap_initialize'' (is_function jcallback))
    (bnd (iotjs_jval_create_copied jcallback) (\<lambda>j.
     upd (\<lambda>s. s\<lparr>reqs := (reqs s)(p \<mapsto> j)\<rparr>)))"

definition iotjs_reqwrap_jcallback :: "nat \<Rightarrow> (('c, 'z) wrt_scheme, jval) prog" where
  "iotjs_reqwrap_jcallback p =
     bnd (gets (\<lambda>s. reqs s p)) (\<lambda>r.
     case r of None \<Rightarrow> fail (UseAfterFree ''reqwrap'') | Some j \<Rightarrow> ret j)"

definition iotjs_reqwrap_destroy :: "nat \<Rightarrow> (('c, 'z) wrt_scheme, unit) prog" where
  "iotjs_reqwrap_destroy p =
     bnd (iotjs_reqwrap_jcallback p) (\<lambda>j.
     sq (upd (\<lambda>s. s\<lparr>reqs := (reqs s)(p := None)\<rparr>))
     (iotjs_jval_destroy j))"

section \<open>The references and blocks the wrappers hold\<close>

definition keys_with :: "('k \<Rightarrow> 'b option) \<Rightarrow> ('b \<Rightarrow> bool) \<Rightarrow> int" where
  "keys_with m P = int (card {k. \<exists>x. m k = Some x \<and> P x})"

lemma finite_keys: "finite (dom m) \<Longrightarrow> finite {k. \<exists>x. m k = Some x \<and> P x}"
  by (rule finite_subset[of _ "dom m"]) auto

lemma keys_with_insert:
  assumes "finite (dom m)" "m k = None"
  shows "keys_with (m(k \<mapsto> x)) P = keys_with m P + (if P x then 1 else 0)"
proof -
  let ?S = "{k. \<exists>x. m k = Some x \<and> P x}"
  have "{j. \<exists>y. (m(k \<mapsto> x)) j = Some y \<and> P y} = (if P x then insert k ?S else ?S)"
    using assms(2) by auto
  moreover have "k \<notin> ?S" using assms(2) by simp
  ultimately show ?thesis
    using finite_keys[OF assms(1), of P] by (simp add: keys_with_def)
qed

lemma keys_with_remove:
  assumes "finite (dom m)" "m k = Some x"
  shows "keys_with (m(k := None)) P = keys_with m P - (if P x then 1 else 0)"
proof -
  have "finite (dom (m(k := None)))" using assms(1) by simp
  from keys_with_insert[OF this, of k x P] assms(2)
  have "keys_with m P = keys_with (m(k := None)) P + (if P x then 1 else 0)"
    by (simp add: fun_upd_idem)
  then show ?thesis by simp
qed

lemma keys_with_update:
  assumes "finite (dom m)" "m k = Some x"
  shows "keys_with (m(k \<mapsto> y)) P = keys_with m P - (if P x then 1 else 0) + (if P y then 1 else 0)"
  using keys_with_remove[OF assms, of P] keys_with_insert[of "m(k := None)" k y P] assms(1)
  by simp

definition kept_wraps :: "('c, 'z) wrt_scheme \<Rightarrow> jval \<Rightarrow> int" where
  "kept_wraps s v = keys_with (reqs s) (\<lambda>w. w = v) +
     keys_with (handles s) (\<lambda>h. hw_open h \<and> hw_jobject h = v)"

definition heap_wraps :: "('c, 'z) wrt_scheme \<Rightarrow> int" where
  "heap_wraps s = keys_with (reqs s) (\<lambda>_. True) + keys_with (handles s) (\<lambda>_. True)"

definition wraps_wf :: "('c, 'z) wrt_scheme \<Rightarrow> bool" where
  "wraps_wf s \<longleftrightarrow> finite (dom (reqs s)) \<and> finite (dom (handles s)) \<and> 0 < next_ptr s \<and>
     (\<forall>p f. reqs s p = Some f \<longrightarrow> is_function f \<and> 0 < p \<and> p < next_ptr s) \<and>
     (\<forall>p h. handles s p = Some h \<longrightarrow> 0 < p \<and> p < next_ptr s \<and>
        (hw_open h \<longrightarrow> is_object (hw_jobject h) \<and> native_of (trace s) (hw_jobject h) = p))"

text \<open>
  The references and blocks owned beyond what the wrappers hold, the frame's return slot aside.
  \<open>keeps s t\<close> is that a step leaves them as they are, with the frame's arguments and the module
  table.
\<close>

definition spare :: "('c, 'z) wrt_scheme \<Rightarrow> jval \<Rightarrow> int" where
  "spare s v = frame_refs s v - kept_wraps s v"

definition keeps :: "('c, 'z) wrt_scheme \<Rightarrow> ('c, 'z) wrt_scheme \<Rightarrow> bool" where
  "keeps s t \<longleftrightarrow> spare t = spare s \<and> blocks t - heap_wraps t = blocks s - heap_wraps s \<and>
     jmodule t = jmodule s \<and> h_this t = h_this s \<and> h_argv t = h_argv s"

lemma keeps_refl [simp]: "keeps s s"
  by (simp add: keeps_def)

lemma keeps_trans [trans]: "keeps s t \<Longrightarrow> keeps t u \<Longrightarrow> keeps s u"
  by (simp add: keeps_def)

section \<open>Rules for the wrappers\<close>

lemma quiet_keeps: "quiet s t \<Longrightarrow> keeps s t"
  by (auto simp: quiet_def keeps_def spare_def frame_refs_def kept_wraps_def heap_wraps_def)

lemma quiet_wf: "quiet s t \<Longrightarrow> wraps_wf t = wraps_wf s"
  by (auto simp: quiet_def wraps_wf_def native_of_append)

lemma quiet_fields:
  "quiet s t \<Longrightarrow> handles t = handles s" "quiet s t \<Longrightarrow> reqs t = reqs s"
  "quiet s t \<Longrightarrow> next_ptr t = next_ptr s" "quiet s t \<Longrightarrow> blocks t = blocks s"
  "quiet s t \<Longrightarrow> jmodule t = jmodule s" "quiet s t \<Longrightarrow> env t = env s"
  "quiet s t \<Longrightarrow> h_finished t = h_finished s" "quiet s t \<Longrightarrow> h_ret t = h_ret s"
  "quiet s t \<Longrightarrow> native_of (trace t) j = native_of (trace s) j"
  by (auto simp: quiet_def native_of_append)

text \<open>
  A step that also leaves the frame's result, the environment, the native handles and the state
  of the other components as they are.
\<close>

definition steps :: "('c, 'z) wrt_scheme \<Rightarrow> ('c, 'z) wrt_scheme \<Rightarrow> bool" where
  "steps s t \<longleftrightarrow> keeps s t \<and> h_finished t = h_finished s \<and> h_ret t = h_ret s \<and> env t = env s \<and>
     env_initialized t = env_initialized s \<and> wrt.more t = wrt.more s \<and>
     natives (trace t) = natives (trace s) \<and> (\<exists>tr. trace t = trace s @ tr)"

lemma steps_refl [simp]: "steps s s"
  by (simp add: steps_def)

lemma steps_trans [trans]: "steps s t \<Longrightarrow> steps t u \<Longrightarrow> steps s u"
  unfolding steps_def keeps_def by (elim conjE exE) simp

lemma steps_keeps: "steps s t \<Longrightarrow> keeps s t"
  by (simp add: steps_def)

lemma quiet_steps: "quiet s t \<Longrightarrow> steps s t"
  using quiet_keeps[of s t] by (auto simp: quiet_def steps_def)

lemma steps_fields:
  "steps s t \<Longrightarrow> jmodule t = jmodule s" "steps s t \<Longrightarrow> env t = env s"
  "steps s t \<Longrightarrow> env_initialized t = env_initialized s"
  "steps s t \<Longrightarrow> h_finished t = h_finished s" "steps s t \<Longrightarrow> h_ret t = h_ret s"
  "steps s t \<Longrightarrow> h_argv t = h_argv s" "steps s t \<Longrightarrow> h_this t = h_this s"
  "steps s t \<Longrightarrow> native_of (trace t) j = native_of (trace s) j"
  by (simp_all add: steps_def keeps_def native_of_def)

definition open_handle :: "('c, 'z) wrt_scheme \<Rightarrow> nat \<Rightarrow> jval \<Rightarrow> bool" where
  "open_handle s p j \<longleftrightarrow> (\<exists>h. handles s p = Some h \<and> hw_open h \<and> hw_jobject h = j)"

lemma open_handle_native:
  "wraps_wf s \<Longrightarrow> open_handle s p j \<Longrightarrow> native_of (trace s) j = p \<and> is_object j"
  by (auto simp: wraps_wf_def open_handle_def)

lemma wp_get_handlewrap [wp_simps]:
  "wp (get_handlewrap p) Q s \<longleftrightarrow> (\<exists>h. handles s p = Some h \<and> Q h s)"
  by (cases "handles s p") (simp_all add: get_handlewrap_def wp_simps)

lemma wp_set_handlewrap [wp_simps]:
  "wp (set_handlewrap p h) Q s = Q () (s\<lparr>handles := (handles s)(p := h)\<rparr>)"
  by (simp add: set_handlewrap_def wp_simps)

lemma wp_jobjectwrap [wp_simps]:
  "wp (iotjs_jobjectwrap_initialize p j) Qu s \<longleftrightarrow>
     is_object j \<and> Qu () (s\<lparr>trace := trace s @ [ESetNative j p]\<rparr>)"
  "wp (iotjs_jobjectwrap_jobject E p j) Q s \<longleftrightarrow>
     is_object j \<and> p = e_native E (trace s) j \<and> Q j s"
  by (auto simp: iotjs_jobjectwrap_initialize_def iotjs_jobjectwrap_jobject_def wp_simps)

lemma wp_handlewrap_validate [wp_simps]:
  "wp (iotjs_handlewrap_validate E p) Q s \<longleftrightarrow>
     (\<exists>h. handles s p = Some h \<and> hw_open h \<and> is_object (hw_jobject h) \<and>
        e_native E (trace s) (hw_jobject h) = p \<and> Q () s)"
  by (auto simp: iotjs_handlewrap_validate_def wp_simps)

text \<open>On an open handle every accessor succeeds and changes nothing.\<close>

lemma handle_access:
  assumes "wraps_wf s" "native_law E" "open_handle s p j"
  shows "iotjs_handlewrap_validate E p s = Inr ((), s)"
    and "iotjs_handlewrap_from_handle E p s = Inr (p, s)"
    and "iotjs_handlewrap_from_jobject E j s = Inr (p, s)"
    and "iotjs_handlewrap_get_uv_handle E p s = Inr (p, s)"
    and "iotjs_handlewrap_jobject E p s = Inr (j, s)"
proof -
  from assms obtain h where h: "handles s p = Some h" "hw_open h" "hw_jobject h = j"
    and n: "is_object j" "e_native E (trace s) j = p"
    using open_handle_native[OF assms(1,3)] by (auto simp: open_handle_def native_law_def)
  note facts = h n wp_simps iotjs_handlewrap_from_handle_def iotjs_handlewrap_from_jobject_def
    iotjs_handlewrap_get_uv_handle_def iotjs_handlewrap_jobject_def
  show "iotjs_handlewrap_validate E p s = Inr ((), s)"
    by (rule wp_eqD) (simp add: facts)
  show "iotjs_handlewrap_from_handle E p s = Inr (p, s)"
    by (rule wp_eqD) (simp add: facts)
  show "iotjs_handlewrap_from_jobject E j s = Inr (p, s)"
    by (rule wp_eqD) (simp add: facts)
  show "iotjs_handlewrap_get_uv_handle E p s = Inr (p, s)"
    by (rule wp_eqD) (simp add: facts)
  show "iotjs_handlewrap_jobject E p s = Inr (j, s)"
    by (rule wp_eqD) (simp add: facts)
qed

lemma wp_handle_access:
  assumes "wraps_wf s" "native_law E" "open_handle s p j"
  shows "wp (iotjs_handlewrap_validate E p) Qu s = Qu () s"
    and "wp (iotjs_handlewrap_from_handle E p) Qn s = Qn p s"
    and "wp (iotjs_handlewrap_from_jobject E j) Qn s = Qn p s"
    and "wp (iotjs_handlewrap_get_uv_handle E p) Qn s = Qn p s"
    and "wp (iotjs_handlewrap_jobject E p) Qj s = Qj j s"
  using handle_access[OF assms] by (simp_all add: wp_def)

subsection \<open>Requests\<close>

definition reqwrap_new :: "jval \<Rightarrow> (('c, 'z) wrt_scheme, nat) prog" where
  "reqwrap_new jcallback =
     bnd IOTJS_ALLOC (\<lambda>p. sq (iotjs_reqwrap_initialize p jcallback) (ret p))"

definition reqwrap_free :: "nat \<Rightarrow> (('c, 'z) wrt_scheme, unit) prog" where
  "reqwrap_free p = sq (iotjs_reqwrap_destroy p) IOTJS_RELEASE"

lemma wp_IOTJS_ALLOC [wp_simps]:
  "wp IOTJS_ALLOC Qn s = Qn (next_ptr s) (s\<lparr>blocks := blocks s + 1, next_ptr := next_ptr s + 1\<rparr>)"
  "wp IOTJS_RELEASE Q t = Q () (t\<lparr>blocks := blocks t - 1\<rparr>)"
  by (simp_all add: IOTJS_ALLOC_def IOTJS_RELEASE_def wp_simps)

lemma wp_reqwrap_initialize [wp_simps]:
  "wp (iotjs_reqwrap_initialize p j) Qu s \<longleftrightarrow> is_function j \<and>
     Qu () (s\<lparr>trace := trace s @ [EAcquire j], reqs := (reqs s)(p \<mapsto> j)\<rparr>)"
  by (simp add: iotjs_reqwrap_initialize_def wp_simps)

lemma wp_reqwrap_jcallback [wp_simps]:
  "wp (iotjs_reqwrap_jcallback p) Q s \<longleftrightarrow> (\<exists>j. reqs s p = Some j \<and> Q j s)"
  by (cases "reqs s p") (simp_all add: iotjs_reqwrap_jcallback_def wp_simps)

lemma wp_reqwrap_destroy [wp_simps]:
  "wp (iotjs_reqwrap_destroy p) Qu s \<longleftrightarrow> (\<exists>j. reqs s p = Some j \<and>
     Qu () (s\<lparr>reqs := (reqs s)(p := None), trace := trace s @ [ERelease j]\<rparr>))"
  by (simp add: iotjs_reqwrap_destroy_def wp_simps)

lemma fresh_ptr:
  assumes "wraps_wf s"
  shows "reqs s (next_ptr s) = None \<and> handles s (next_ptr s) = None \<and> next_ptr s \<noteq> 0"
proof -
  have "reqs s (next_ptr s) \<noteq> Some f" "handles s (next_ptr s) \<noteq> Some h" for f h
    using assms by (auto simp: wraps_wf_def)
  moreover have "0 < next_ptr s" using assms by (simp add: wraps_wf_def)
  ultimately show ?thesis by (metis not_None_eq less_numeral_extra(3))
qed

lemma reqwrap_new_wp:
  assumes "wraps_wf s" "is_function cb"
  shows "wp (reqwrap_new cb) (\<lambda>p t. wraps_wf t \<and> steps s t \<and> next_ptr s = p \<and> p \<noteq> 0 \<and> reqs s p = None \<and>
    reqs t = (reqs s)(p \<mapsto> cb) \<and> handles t = handles s) s"
proof -
  let ?p = "next_ptr s"
  let ?t = "s\<lparr>blocks := blocks s + 1, next_ptr := ?p + 1, trace := trace s @ [EAcquire cb],
    reqs := (reqs s)(?p \<mapsto> cb)\<rparr>"
  have "wraps_wf ?t"
    using assms by (auto simp: wraps_wf_def native_of_append less_SucI)
  moreover have "keeps s ?t"
    using assms(1) fresh_ptr[OF assms(1)]
    by (auto simp: keeps_def spare_def frame_refs_def kept_wraps_def heap_wraps_def
        keys_with_insert wraps_wf_def fun_eq_iff)
  moreover from this have "steps s ?t" by (simp add: steps_def)
  ultimately show ?thesis
    using assms(2) fresh_ptr[OF assms(1)]
    by (simp add: reqwrap_new_def wp_simps)
qed

lemma reqwrap_free_wp:
  assumes "wraps_wf s" "reqs s p = Some cb"
  shows "wp (reqwrap_free p) (\<lambda>_ t. wraps_wf t \<and> steps s t \<and>
    reqs t = (reqs s)(p := None) \<and> handles t = handles s) s"
proof -
  let ?t = "s\<lparr>reqs := (reqs s)(p := None), trace := trace s @ [ERelease cb],
    blocks := blocks s - 1\<rparr>"
  have "wraps_wf ?t"
    using assms by (auto simp: wraps_wf_def native_of_append)
  moreover have "keeps s ?t"
    using assms
    by (auto simp: keeps_def spare_def frame_refs_def kept_wraps_def heap_wraps_def
        keys_with_remove wraps_wf_def fun_eq_iff)
  moreover from this have "steps s ?t" by (simp add: steps_def)
  ultimately show ?thesis
    using assms(2) by (simp add: reqwrap_free_def wp_simps)
qed


subsection \<open>Handles\<close>

lemma handlewrap_initialize_wp:
  assumes wf: "wraps_wf s" and E: "native_law E" and j: "is_object j" "native_of (trace s) j = 0"
  shows "wp (bnd IOTJS_ALLOC (\<lambda>p. sq (iotjs_handlewrap_initialize E p j) (ret p)))
    (\<lambda>p t. wraps_wf t \<and> keeps s t \<and> p \<noteq> 0 \<and> handles s p = None \<and> open_handle t p j \<and>
      reqs t = reqs s \<and> env t = env s \<and> env_initialized t = env_initialized s \<and>
      h_finished t = h_finished s \<and> h_ret t = h_ret s \<and> wrt.more t = wrt.more s \<and>
      natives (trace t) = natives (trace s) @ [(j, p)] \<and>
      (\<forall>q k. open_handle s q k \<longrightarrow> open_handle t q k)) s"
proof -
  let ?p = "next_ptr s"
  let ?h = "\<lparr>hw_jobject = j, hw_open = True, hw_on_close = False\<rparr>"
  let ?t = "s\<lparr>blocks := blocks s + 1, next_ptr := ?p + 1,
    trace := trace s @ [EAcquire j, ESetNative j ?p], handles := (handles s)(?p \<mapsto> ?h)\<rparr>"
  have nat: "native_of (trace s @ [EAcquire j, ESetNative j ?p]) k =
      (if k = j then ?p else native_of (trace s) k)" for k
    by (simp add: native_of_append)
  have other: "k \<noteq> j" if "open_handle s q k" for q k
  proof
    assume "k = j"
    with open_handle_native[OF wf that] j(2) have "q = 0" by simp
    with that wf show False by (auto simp: wraps_wf_def open_handle_def)
  qed
  have "hw_jobject h \<noteq> j" if "handles s q = Some h" "hw_open h" for q h
    using other[of q "hw_jobject h"] that by (simp add: open_handle_def)
  then have "wraps_wf ?t"
    using wf j(1) by (auto simp: wraps_wf_def nat less_SucI)
  moreover have "keeps s ?t"
    using wf fresh_ptr[OF wf]
    by (auto simp: keeps_def spare_def frame_refs_def kept_wraps_def heap_wraps_def
        keys_with_insert wraps_wf_def fun_eq_iff)
  moreover have "open_handle ?t q k" if "open_handle s q k" for q k
    using that fresh_ptr[OF wf] by (auto simp: open_handle_def)
  moreover have "open_handle ?t ?p j" by (simp add: open_handle_def)
  ultimately show ?thesis
    using E j(1) fresh_ptr[OF wf]
    by (simp add: iotjs_handlewrap_initialize_def wp_simps native_law_def nat)
qed

text \<open>
  A call to libuv or to the operating system changes the trace only, and no reference with it.
\<close>

lemma sys_quiet: "quiet s (s\<lparr>trace := trace s @ [ESys c r]\<rparr>)"
  unfolding quiet_def by (rule exI[of _ "[ESys c r]"]) simp

lemma wp_sys_quiet:
  "(\<And>r t. quiet s t \<Longrightarrow> Q r t) \<Longrightarrow> wp (sys E c) Q s"
  by (simp add: wp_sys sys_quiet)

lemma handlewrap_close_wp:
  assumes wf: "wraps_wf s" and h: "handles s p = Some h"
  shows "wp (iotjs_handlewrap_close E p cb)
    (\<lambda>_ t. wraps_wf t \<and> steps s t \<and> reqs t = reqs s \<and> (\<forall>q k. open_handle t q k = open_handle s q k) \<and>
      (handles t = handles s \<or> hw_open h \<and> handles t = (handles s)(p \<mapsto> h\<lparr>hw_on_close := cb\<rparr>) \<and>
         (\<exists>r. last (trace t) = ESys (UvClose p) r))) s"
proof -
  let ?h = "h\<lparr>hw_on_close := cb\<rparr>"
  have a: "wraps_wf (u\<lparr>handles := (handles u)(p \<mapsto> ?h)\<rparr>)" "steps u (u\<lparr>handles := (handles u)(p \<mapsto> ?h)\<rparr>)"
    if "wraps_wf u" "handles u p = Some h" for u :: "(call, 'a) wrt_scheme"
    using that by (auto simp: steps_def wraps_wf_def keeps_def spare_def frame_refs_def kept_wraps_def
        heap_wraps_def keys_with_update)
  let ?r1 = "e_sys E (trace s) (UvIsClosing p)"
  let ?s1 = "s\<lparr>trace := trace s @ [ESys (UvIsClosing p) ?r1]\<rparr>"
  let ?s2 = "?s1\<lparr>handles := (handles s)(p \<mapsto> ?h)\<rparr>"
  let ?r2 = "e_sys E (trace ?s1) (UvClose p)"
  let ?s3 = "?s2\<lparr>trace := trace ?s1 @ [ESys (UvClose p) ?r2]\<rparr>"
  have s1: "wraps_wf ?s1" "steps s ?s1"
    using quiet_wf[OF sys_quiet[of s "UvIsClosing p" ?r1]] wf
      quiet_steps[OF sys_quiet[of s "UvIsClosing p" ?r1]] by simp_all
  have s2: "wraps_wf ?s2" "steps s ?s2"
    using a[OF s1(1)] h steps_trans[OF s1(2)] by simp_all
  have s3: "wraps_wf ?s3" "steps s ?s3"
    using s2 quiet_wf[OF sys_quiet[of ?s2 "UvClose p" ?r2]]
      steps_trans[OF s2(2) quiet_steps[OF sys_quiet[of ?s2 "UvClose p" ?r2]]] by simp_all
  show ?thesis
    using wf h s1 s3
    by (auto simp: iotjs_handlewrap_close_def wp_simps open_handle_def)
qed

text \<open>The close callback of libuv: the reference to the object is given up, once.\<close>

lemma on_handle_closed_wp:
  assumes wf: "wraps_wf s" and E: "native_law E" and op: "open_handle s p j"
    and cb: "wp (cb p) (\<lambda>_. quiet s) s"
  shows "wp (iotjs_on_handle_closed E cb p)
    (\<lambda>_ t. wraps_wf t \<and> steps s t \<and> reqs t = reqs s \<and>
      (\<forall>q k. open_handle t q k \<longleftrightarrow> open_handle s q k \<and> q \<noteq> p) \<and> handles t p \<noteq> None \<and>
      dom (handles t) = dom (handles s)) s"
proof -
  from op obtain h where h: "handles s p = Some h" "hw_open h" "hw_jobject h = j"
    by (auto simp: open_handle_def)
  have j: "is_object j" "native_of (trace s) j = p"
    using open_handle_native[OF wf op] by simp_all
  have body: "wp (sq (set_handlewrap p (Some (h\<lparr>hw_open := False\<rparr>)))
      (bnd (iotjs_jobjectwrap_jobject E p (hw_jobject h)) iotjs_jval_destroy))
    (\<lambda>_ t. wraps_wf t \<and> steps s t \<and> reqs t = reqs s \<and>
      (\<forall>q k. open_handle t q k \<longleftrightarrow> open_handle s q k \<and> q \<noteq> p) \<and> handles t p \<noteq> None \<and>
      dom (handles t) = dom (handles s)) u"
    if u: "quiet s u" for u
  proof -
    note q = quiet_fields[OF u]
    let ?t = "u\<lparr>handles := (handles u)(p \<mapsto> h\<lparr>hw_open := False\<rparr>), trace := trace u @ [ERelease j]\<rparr>"
    have wfu: "wraps_wf u" using quiet_wf[OF u] wf by simp
    have "wraps_wf ?t"
      using wfu h q(1) by (auto simp: wraps_wf_def native_of_append)
    moreover have "handles u p = Some h" using h(1) q(1) by simp
    then have "keeps u ?t"
      using wfu h(2,3)
      by (auto simp: keeps_def spare_def frame_refs_def kept_wraps_def heap_wraps_def
          keys_with_update wraps_wf_def fun_eq_iff)
    then have "steps u ?t" by (simp add: steps_def)
    then have "steps s ?t" by (rule steps_trans[OF quiet_steps[OF u]])
    moreover have "open_handle ?t q k \<longleftrightarrow> open_handle s q k \<and> q \<noteq> p" for q k
      using h q(1) by (auto simp: open_handle_def)
    ultimately show ?thesis
      using j h q(1,2) E quiet_fields(9)[OF u, of j]
      by (auto simp: wp_simps native_law_def)
  qed
  have "wp (if hw_on_close h then cb p else ret ()) (\<lambda>_. quiet s) s"
    using cb by (simp add: wp_simps)
  then have "wp (if hw_on_close h then cb p else ret ()) (\<lambda>_ u. quiet s u \<and> handles u p = Some h) s"
    by (rule wp_mono) (use h in \<open>simp add: quiet_fields\<close>)
  then show ?thesis
    unfolding iotjs_on_handle_closed_def iotjs_handlewrap_on_close_def
      wp_bnd wp_handle_access(2)[OF wf E op]
      wp_get_handlewrap[of p _ s] wp_sq[of "if _ then _ else _"]
    by (intro exI[of _ h] conjI h(1), rule wp_mono)
      (use body in \<open>auto simp: wp_bnd[of "get_handlewrap _"] wp_get_handlewrap\<close>)
qed

lemma handlewrap_free_wp:
  assumes wf: "wraps_wf s" and h: "handles s p = Some h" "\<not> hw_open h"
  shows "wp (sq (iotjs_handlewrap_destroy p) IOTJS_RELEASE)
    (\<lambda>_ t. wraps_wf t \<and> steps s t \<and> reqs t = reqs s \<and> handles t = (handles s)(p := None)) s"
proof -
  let ?t = "s\<lparr>handles := (handles s)(p := None), blocks := blocks s - 1\<rparr>"
  have "wraps_wf ?t" using wf by (auto simp: wraps_wf_def)
  moreover have "keeps s ?t"
    using wf h by (auto simp: keeps_def spare_def frame_refs_def kept_wraps_def heap_wraps_def
        keys_with_remove wraps_wf_def fun_eq_iff)
  moreover from this have "steps s ?t" by (simp add: steps_def)
  ultimately show ?thesis using h by (simp add: iotjs_handlewrap_destroy_def wp_simps)
qed

section \<open>The interface of a request wrapper\<close>

text \<open>
  Every module has its own request wrapper (\<^verbatim>\<open>iotjs_connect_reqwrap_t\<close>,
  \<^verbatim>\<open>iotjs_send_reqwrap_t\<close>, ...). They share this contract: creating one takes a reference
  to the callback, disposing of it gives the reference back, and in between the callback can be
  read. The two lemmas are the two shapes in which the modules use it: submitting a request, and
  the completion that calls the callback.
\<close>

fun calls :: "'c ev list \<Rightarrow> (jval \<times> jval \<times> jval list) list" where
  "calls [] = []"
| "calls (ECall f this vs th r # es) = (f, this, vs) # calls es"
| "calls (e # es) = calls es"

lemma calls_append [simp]: "calls (es @ fs) = calls es @ calls fs"
  by (induction es rule: calls.induct) auto

definition args_built ::
  "jval list \<Rightarrow> iotjs_jargs_t \<Rightarrow> ('c, 'z) wrt_scheme \<Rightarrow> ('c, 'z) wrt_scheme \<Rightarrow> bool" where
  "args_built vs args s t \<longleftrightarrow> (\<exists>cap tr. args = jargs_of cap vs \<and> vs \<noteq> [] \<and> length vs \<le> cap \<and>
     t = s\<lparr>blocks := blocks s + 1, trace := trace s @ tr\<rparr> \<and>
     (\<forall>v. owned tr v = int (count_list vs v)) \<and> natives tr = [] \<and> calls tr = [])"

text \<open>The next call into JavaScript that was made after \<open>s\<close>.\<close>

definition callback_made ::
  "jval \<Rightarrow> jval \<Rightarrow> jval list \<Rightarrow> ('c, 'z) wrt_scheme \<Rightarrow> ('c, 'z) wrt_scheme \<Rightarrow> bool" where
  "callback_made f this vs s t \<longleftrightarrow>
     (\<exists>pre post th r. trace t = trace s @ pre @ ECall f this vs th r # post \<and> calls pre = [])"

lemma callback_made_steps: "callback_made f this vs s t \<Longrightarrow> steps t u \<Longrightarrow> callback_made f this vs s u"
  unfolding callback_made_def steps_def by fastforce

lemma make_callback_args:
  assumes "args_built vs args s u" "process_module E s" "is_object f"
  shows "wp (sq (iotjs_make_callback E f this args) (iotjs_jargs_destroy args))
    (\<lambda>_ t. quiet s t \<and> callback_made f this vs s t) u"
proof -
  from assms(1) obtain cap tr where a: "args = jargs_of cap vs" "vs \<noteq> []" "length vs \<le> cap"
    "u = s\<lparr>blocks := blocks s + 1, trace := trace s @ tr\<rparr>"
    "\<And>v. owned tr v = int (count_list vs v)" "natives tr = []" "calls tr = []"
    unfolding args_built_def by blast
  have "process_module E u" using assms(2) a(4) by simp
  then have "wp (iotjs_make_callback E f this args) (\<lambda>_. called f this vs u) u"
    using assms(3) a(1) by (intro make_callback_wp) simp_all
  then show ?thesis
    unfolding wp_sq
  proof (rule wp_mono)
    fix x w
    assume "called f this vs u w"
    then obtain th r tr' where w: "w = u\<lparr>trace := trace u @ ECall f this vs th r # tr'\<rparr>"
      "\<And>v. owned (ECall f this vs th r # tr') v = 0" "natives tr' = []"
      unfolding called_def by blast
    let ?tr = "tr @ (ECall f this vs th r # tr') @ map ERelease vs"
    let ?w = "w\<lparr>trace := trace w @ map ERelease vs, blocks := blocks w - 1\<rparr>"
    have eq: "?w = s\<lparr>trace := trace s @ ?tr\<rparr>"
      using a(4) w(1) by (cases s) simp
    moreover have "owned ?tr v = 0" for v
      using a(5)[of v] w(2)[of v] by (simp only: owned_append owned_release_all)
    moreover have "natives ?tr = []" using a(6) w(3) by simp
    ultimately have "quiet s ?w"
      unfolding quiet_def by blast
    moreover have "callback_made f this vs s ?w"
      unfolding callback_made_def eq using a(7)
      by (intro exI[of _ tr] exI[of _ "tr' @ map ERelease vs"] exI[of _ th] exI[of _ r]) simp
    ultimately show "wp (iotjs_jargs_destroy args) (\<lambda>_ t. quiet s t \<and> callback_made f this vs s t) w"
      using a(1,2,3) by (simp add: wp_jargs_destroy)
  qed
qed

locale request_wrapper =
  fixes create :: "jval \<Rightarrow> (('c, 'z) wrt_scheme, nat) prog"
    and dispatched :: "nat \<Rightarrow> (('c, 'z) wrt_scheme, unit) prog"
    and jcallback :: "nat \<Rightarrow> (('c, 'z) wrt_scheme, jval) prog"
  assumes create_law: "wraps_wf s \<Longrightarrow> is_function cb \<Longrightarrow> wp (create cb)
      (\<lambda>p t. wraps_wf t \<and> steps s t \<and> next_ptr s = p \<and> p \<noteq> 0 \<and> reqs s p = None \<and>
         reqs t = (reqs s)(p \<mapsto> cb) \<and> handles t = handles s) s"
    and dispatched_law: "wraps_wf s \<Longrightarrow> reqs s p = Some cb \<Longrightarrow> wp (dispatched p)
      (\<lambda>_ t. wraps_wf t \<and> steps s t \<and> reqs t = (reqs s)(p := None) \<and> handles t = handles s) s"
    and jcallback_law: "reqs s p = Some cb \<Longrightarrow> wp (jcallback p) (\<lambda>j t. j = cb \<and> t = s) s"
begin

lemma submit:
  assumes "wraps_wf s" "is_function cb"
    and issue: "\<And>p t. wraps_wf t \<Longrightarrow> steps s t \<Longrightarrow> next_ptr s = p \<Longrightarrow> p \<noteq> 0 \<Longrightarrow> reqs s p = None \<Longrightarrow> reqs t = (reqs s)(p \<mapsto> cb) \<Longrightarrow>
      handles t = handles s \<Longrightarrow> wp (issue p) (\<lambda>err u. quiet t u \<and> I p err (trace u)) t"
    and rest: "\<And>err t p pre post. wraps_wf t \<Longrightarrow> steps s t \<Longrightarrow> handles t = handles s \<Longrightarrow> next_ptr s = p \<Longrightarrow> reqs s p = None \<Longrightarrow>
      reqs t = (if err = 0 then (reqs s)(p \<mapsto> cb) else reqs s) \<Longrightarrow> trace t = pre @ post \<Longrightarrow> I p err pre \<Longrightarrow>
      wp (rest (err :: int)) Q t"
  shows "wp (bnd (create cb) (\<lambda>p. bnd (issue p) (\<lambda>err.
    sq (if err \<noteq> 0 then dispatched p else ret ()) (rest err)))) Q s"
  unfolding wp_bnd
proof (rule wp_mono[OF create_law[OF assms(1,2)]])
  fix p t
  assume t: "wraps_wf t \<and> steps s t \<and> next_ptr s = p \<and> p \<noteq> 0 \<and> reqs s p = None \<and> reqs t = (reqs s)(p \<mapsto> cb) \<and>
    handles t = handles s"
  then have "wp (issue p) (\<lambda>err u. quiet t u \<and> I p err (trace u)) t" by (intro issue) simp_all
  then show "wp (issue p) (\<lambda>err. wp (sq (if err \<noteq> 0 then dispatched p else ret ()) (rest err)) Q) t"
  proof (rule wp_mono)
    fix err u
    assume q: "quiet t u \<and> I p err (trace u)"
    have u: "wraps_wf u" "steps s u" "reqs u = (reqs s)(p \<mapsto> cb)" "handles u = handles s" "I p err (trace u)"
      using t quiet_wf[of t u] quiet_fields[of t u] steps_trans[OF _ quiet_steps[of t u], of s] q by simp_all
    show "wp (sq (if err \<noteq> 0 then dispatched p else ret ()) (rest err)) Q u"
    proof (cases "err = 0")
      case True
      then show ?thesis using u t rest[of u p err "trace u" "[]"] by (simp add: wp_simps)
    next
      case False
      have "wp (dispatched p) (\<lambda>_ w. wraps_wf w \<and> steps u w \<and> reqs w = (reqs u)(p := None) \<and>
          handles w = handles u) u"
        using u by (intro dispatched_law[where cb = cb]) simp_all
      then have "wp (dispatched p) (\<lambda>_. wp (rest err) Q) u"
      proof (rule wp_mono)
        fix x w
        assume w: "wraps_wf w \<and> steps u w \<and> reqs w = (reqs u)(p := None) \<and> handles w = handles u"
        then obtain post where "trace w = trace u @ post" by (auto simp: steps_def)
        then show "wp (rest err) Q w"
          using w u t False steps_trans[OF u(2), of w] rest[of w p err "trace u" post]
          by (simp add: fun_upd_idem)
      qed
      then show ?thesis using False by (simp add: wp_sq)
    qed
  qed
qed

lemma complete:
  assumes "wraps_wf s" "reqs s p = Some cb" "process_module E s"
    and args: "wp (mk cb) (\<lambda>a t. args_built vs a s t) s"
  shows "wp (bnd (jcallback p) (\<lambda>j. bnd (mk j) (\<lambda>a.
      sq (iotjs_make_callback E j this a) (sq (iotjs_jargs_destroy a) (dispatched p)))))
    (\<lambda>_ t. wraps_wf t \<and> steps s t \<and> reqs t = (reqs s)(p := None) \<and> handles t = handles s \<and>
       callback_made cb this vs s t) s"
proof -
  let ?Q = "\<lambda>_ t. wraps_wf t \<and> steps s t \<and> reqs t = (reqs s)(p := None) \<and> handles t = handles s \<and>
       callback_made cb this vs s t"
  have f: "is_object cb" using assms(1,2) by (auto simp: wraps_wf_def)
  have "wp (mk cb) (\<lambda>a. wp (sq (iotjs_make_callback E cb this a) (sq (iotjs_jargs_destroy a) (dispatched p))) ?Q) s"
    using args
  proof (rule wp_mono)
    fix a t
    assume a: "args_built vs a s t"
    have "wp (sq (iotjs_make_callback E cb this a) (iotjs_jargs_destroy a))
      (\<lambda>_. wp (dispatched p) ?Q) t"
    proof (rule wp_mono[OF make_callback_args[OF a assms(3) f]])
      fix x u
      assume q: "quiet s u \<and> callback_made cb this vs s u"
      then have "wraps_wf u" "reqs u p = Some cb"
        using assms(1,2) quiet_wf[of s u] quiet_fields(2)[of s u] by simp_all
      from dispatched_law[OF this]
      show "wp (dispatched p) ?Q u"
        by (rule wp_mono)
          (use q quiet_fields(1,2)[of s u] in \<open>auto intro: steps_trans[OF quiet_steps] callback_made_steps\<close>)
    qed
    then show "wp (sq (iotjs_make_callback E cb this a) (sq (iotjs_jargs_destroy a) (dispatched p))) ?Q t"
      by (simp add: wp_sq)
  qed
  then show ?thesis
    unfolding wp_bnd by (intro wp_mono[OF jcallback_law[OF assms(2)]]) simp
qed

end

lemma args_built_number:
  "wp (bnd (iotjs_jargs_create 1) (\<lambda>args. iotjs_jargs_append_number args d))
     (\<lambda>a t. args_built [JNumber d] a s t) s"
  by (auto simp: wp_simps args_built_def intro!: exI)

section \<open>The life cycle as a transition system\<close>

text \<open>
  What can happen to the wrappers, in any order: a handle is created on an object without one, a
  live handle is closed by the program, libuv reports it closed (once, as libuv promises), the
  collector frees a wrapper whose handle is gone, a request is created and is disposed of.
\<close>

inductive life :: "call engine \<Rightarrow> call wrt \<Rightarrow> call wrt \<Rightarrow> bool" for E where
  create: "is_object j \<Longrightarrow> native_of (trace s) j = 0 \<Longrightarrow>
     bnd IOTJS_ALLOC (\<lambda>p. sq (iotjs_handlewrap_initialize E p j) (ret p)) s = Inr (p, t) \<Longrightarrow> life E s t"
| close: "open_handle s p j \<Longrightarrow> iotjs_handlewrap_close E p False s = Inr ((), t) \<Longrightarrow> life E s t"
| closed: "open_handle s p j \<Longrightarrow>
     iotjs_on_handle_closed E (\<lambda>_. ret ()) p s = Inr ((), t) \<Longrightarrow> life E s t"
| collect: "handles s p = Some h \<Longrightarrow> \<not> hw_open h \<Longrightarrow>
     sq (iotjs_handlewrap_destroy p) IOTJS_RELEASE s = Inr ((), t) \<Longrightarrow> life E s t"
| request: "is_function cb \<Longrightarrow> reqwrap_new cb s = Inr (p, t) \<Longrightarrow> life E s t"
| dispatched: "reqs s p = Some cb \<Longrightarrow> reqwrap_free p s = Inr ((), t) \<Longrightarrow> life E s t"

inductive life_run :: "call engine \<Rightarrow> call wrt \<Rightarrow> call wrt \<Rightarrow> bool" for E where
  start: "life_run E s s"
| after: "life_run E s t \<Longrightarrow> life E t u \<Longrightarrow> life_run E s u"

inductive_cases life_cases: "life E s t"

lemma life_keeps:
  assumes "native_law E" "life E s t" "wraps_wf s"
  shows "wraps_wf t \<and> keeps s t \<and> h_ret t = h_ret s"
  using assms(2)
proof cases
  case (create j p)
  from handlewrap_initialize_wp[OF assms(3,1) create(1,2)] create(3) show ?thesis
    by (simp only: wp_runsD)
next
  case (close p j)
  then obtain h where "handles s p = Some h" by (auto simp: open_handle_def)
  from handlewrap_close_wp[OF assms(3) this, where E = E and cb = False] close(2) show ?thesis
    by (simp add: wp_runsD steps_keeps steps_fields)
next
  case (closed p j)
  have "wp ((\<lambda>_. ret ()) p) (\<lambda>_. quiet s) s" by (simp add: wp_simps)
  from on_handle_closed_wp[OF assms(3,1) closed(1) this] closed(2) show ?thesis
    by (simp only: wp_runsD steps_keeps steps_fields simp_thms)
next
  case (collect p h)
  from handlewrap_free_wp[OF assms(3) collect(1,2)] collect(3) show ?thesis
    by (simp only: wp_runsD steps_keeps steps_fields simp_thms)
next
  case (request cb p)
  from reqwrap_new_wp[OF assms(3) request(1)] request(2) show ?thesis
    by (simp only: wp_runsD steps_keeps steps_fields simp_thms)
next
  case (dispatched p cb)
  from reqwrap_free_wp[OF assms(3) dispatched(1)] dispatched(2) show ?thesis
    by (simp only: wp_runsD steps_keeps steps_fields simp_thms)
qed

lemma life_run_keeps:
  assumes "native_law E" "life_run E s t" "wraps_wf s"
  shows "wraps_wf t \<and> keeps s t \<and> h_ret t = h_ret s"
  using assms(2,3)
  by (induction rule: life_run.induct) (auto dest: life_keeps[OF assms(1)] intro: keeps_trans)


interpretation rw: request_wrapper reqwrap_new reqwrap_free iotjs_reqwrap_jcallback
  by unfold_locales (rule reqwrap_new_wp reqwrap_free_wp | simp add: wp_simps; fail)+

section \<open>Properties\<close>

text \<open>C4. Whatever the order in which handles and requests are created, closed, completed and
  collected, no step of the wrappers leaks or over-releases: starting without wrappers, at every
  moment the references gained are exactly one per live request (its callback) and one per open
  handle (its object), and the heap holds one more block per live wrapper.\<close>

theorem wrappers_account_for_references:
  assumes "native_law E" "life_run E s t"
    and "reqs s = Map.empty" "handles s = Map.empty" "0 < next_ptr s"
  shows "owned (trace t) v - owned (trace s) v =
      int (card {p. reqs t p = Some v}) + int (card {p. open_handle t p v}) \<and>
    blocks t - blocks s = int (card (dom (reqs t))) + int (card (dom (handles t)))"
proof (rule conjI)
  have wf: "wraps_wf s" using assms(3-5) by (simp add: wraps_wf_def)
  from life_run_keeps[OF assms(1,2) wf]
  have k: "keeps s t" "h_ret t = h_ret s" by simp_all
  have e: "kept_wraps s v = 0" "heap_wraps s = 0"
    using assms(3,4) by (simp_all add: kept_wraps_def heap_wraps_def keys_with_def)
  have "spare t v = spare s v" using k(1) by (simp add: keeps_def)
  then show "owned (trace t) v - owned (trace s) v =
      int (card {p. reqs t p = Some v}) + int (card {p. open_handle t p v})"
    using e(1) k(2) by (simp add: spare_def frame_refs_def kept_wraps_def keys_with_def open_handle_def)
  have "{k. \<exists>x. m k = Some x \<and> True} = dom m" for m :: "nat \<Rightarrow> 'b option"
    by auto
  then show "blocks t - blocks s = int (card (dom (reqs t))) + int (card (dom (handles t)))"
    using k(1) e(2) by (simp add: keeps_def heap_wraps_def keys_with_def dom_def)
qed

definition sample_wraps :: "call wrt" where
  "sample_wraps = \<lparr>trace = [], blocks = 0, h_this = JNull, h_argv = [], h_ret = (False, JNull),
     h_finished = False, jmodule = \<lambda>_. JObject 0, env = fresh_environment, env_initialized = True,
     handles = Map.empty, reqs = Map.empty, next_ptr = 1\<rparr>"

definition wraps_engine :: "call engine" where
  "wraps_engine = sample_engine\<lparr>e_native := native_of, e_call := \<lambda>_ _ _ _. (False, JBool True)\<rparr>"

lemma wraps_engine_native [simp]: "native_law wraps_engine"
  by (simp add: native_law_def wraps_engine_def)

lemma sample_wraps_sel [simp]:
  "reqs sample_wraps = Map.empty" "handles sample_wraps = Map.empty" "next_ptr sample_wraps = 1"
  "trace sample_wraps = []" "blocks sample_wraps = 0"
  by (simp_all add: sample_wraps_def)

lemma sample_wraps_wf [simp]: "wraps_wf sample_wraps"
  by (simp add: wraps_wf_def)

theorem wrappers_account_for_references_witness:
  "\<exists>t. life_run wraps_engine sample_wraps t \<and> reqs t = [1 \<mapsto> JFunction 5] \<and>
     owned (trace t) (JFunction 5) = 1 + int (card {p. open_handle t p (JFunction 5)})"
proof -
  have "wp (reqwrap_new (JFunction 5)) (\<lambda>_ t. reqs t = [1 \<mapsto> JFunction 5]) sample_wraps"
    by (simp add: reqwrap_new_def wp_simps)
  then obtain p t where t: "reqwrap_new (JFunction 5) sample_wraps = Inr (p, t)"
    "reqs t = [1 \<mapsto> JFunction 5]"
    by (auto simp: wp_runs)
  have "life_run wraps_engine sample_wraps t"
    by (rule life_run.after[OF life_run.start life.request[OF _ t(1)]]) simp
  moreover from this have "owned (trace t) (JFunction 5) =
      int (card {p. reqs t p = Some (JFunction 5)}) + int (card {p. open_handle t p (JFunction 5)})"
    using wrappers_account_for_references[of wraps_engine sample_wraps t "JFunction 5"] by simp
  moreover have "{p. reqs t p = Some (JFunction 5)} = {1}" using t(2) by auto
  ultimately show ?thesis using t(2) by auto
qed

text \<open>Once libuv has reported a handle closed, the reference to its object has been given up
  exactly once, the collector can free the wrapper without tripping the assertion on the handle,
  and its block is returned; freeing a wrapper whose handle is open stops at that assertion.\<close>

theorem closed_handle_is_collectable:
  assumes "wraps_wf s" "native_law E" "open_handle s p j"
  shows "(\<exists>t u. iotjs_on_handle_closed E (\<lambda>_. ret ()) p s = Inr ((), t) \<and>
      owned (trace t) v = owned (trace s) v - (if v = j then 1 else 0) \<and>
      sq (iotjs_handlewrap_destroy p) IOTJS_RELEASE t = Inr ((), u) \<and>
      handles u p = None \<and> blocks u = blocks s - 1 \<and> trace u = trace t) \<and>
    sq (iotjs_handlewrap_destroy p) IOTJS_RELEASE s = Inl (Assertion ''iotjs_handlewrap_destroy'')"
proof (rule conjI[rotated])
  from assms(3) obtain h where h: "handles s p = Some h" "hw_open h" "hw_jobject h = j"
    by (auto simp: open_handle_def)
  have j: "is_object j" "native_of (trace s) j = p"
    using open_handle_native[OF assms(1,3)] by simp_all
  show "sq (iotjs_handlewrap_destroy p) IOTJS_RELEASE s = Inl (Assertion ''iotjs_handlewrap_destroy'')"
    using h by (simp add: iotjs_handlewrap_destroy_def get_handlewrap_def prog_defs)
  have "wp (iotjs_on_handle_closed E (\<lambda>_. ret ()) p) (\<lambda>_ t.
      t = s\<lparr>handles := (handles s)(p \<mapsto> h\<lparr>hw_open := False\<rparr>), trace := trace s @ [ERelease j]\<rparr>) s"
    unfolding iotjs_on_handle_closed_def iotjs_handlewrap_on_close_def wp_bnd
      wp_handle_access(2)[OF assms]
    using h j assms(2) by (simp add: wp_simps native_law_def)
  then obtain t where t: "iotjs_on_handle_closed E (\<lambda>_. ret ()) p s = Inr ((), t)"
    "t = s\<lparr>handles := (handles s)(p \<mapsto> h\<lparr>hw_open := False\<rparr>), trace := trace s @ [ERelease j]\<rparr>"
    by (auto simp: wp_runs)
  have "wp (sq (iotjs_handlewrap_destroy p) IOTJS_RELEASE)
      (\<lambda>_ u. handles u p = None \<and> blocks u = blocks s - 1 \<and> trace u = trace t) t"
    using t(2) by (simp add: iotjs_handlewrap_destroy_def wp_simps)
  then obtain u where "sq (iotjs_handlewrap_destroy p) IOTJS_RELEASE t = Inr ((), u)"
    "handles u p = None" "blocks u = blocks s - 1" "trace u = trace t"
    by (auto simp: wp_runs)
  with t show "\<exists>t u. iotjs_on_handle_closed E (\<lambda>_. ret ()) p s = Inr ((), t) \<and>
      owned (trace t) v = owned (trace s) v - (if v = j then 1 else 0) \<and>
      sq (iotjs_handlewrap_destroy p) IOTJS_RELEASE t = Inr ((), u) \<and>
      handles u p = None \<and> blocks u = blocks s - 1 \<and> trace u = trace t"
    by (intro exI[of _ t] exI[of _ u]) simp
qed

definition sample_open :: "call wrt" where
  "sample_open = sample_wraps\<lparr>trace := [EAcquire (JObject 3), ESetNative (JObject 3) 1],
     handles := [1 \<mapsto> \<lparr>hw_jobject = JObject 3, hw_open = True, hw_on_close = False\<rparr>], next_ptr := 2\<rparr>"

lemma sample_open_wf [simp]: "wraps_wf sample_open" "open_handle sample_open 1 (JObject 3)"
  by (simp_all add: sample_open_def wraps_wf_def open_handle_def native_of_def)

theorem closed_handle_is_collectable_witness:
  "\<exists>t u. iotjs_on_handle_closed wraps_engine (\<lambda>_. ret ()) 1 sample_open = Inr ((), t) \<and>
      owned (trace t) (JObject 3) = 0 \<and>
      sq (iotjs_handlewrap_destroy 1) IOTJS_RELEASE t = Inr ((), u) \<and> handles u 1 = None"
  using closed_handle_is_collectable[OF sample_open_wf(1) wraps_engine_native sample_open_wf(2),
      of "JObject 3"]
  by (auto simp: sample_open_def)

text \<open>The guard of \<^verbatim>\<open>iotjs_handlewrap_close\<close> against a handle that is already closed cannot be
  reached from JavaScript: once libuv has reported the close, getting the wrapper from the object
  reads \<^verbatim>\<open>handle->data\<close> through the NULL handle and the program stops.\<close>

theorem closed_handle_access_faults:
  assumes "handles s p = Some h" "\<not> hw_open h" "is_object j" "e_native E (trace s) j = p"
  shows "iotjs_handlewrap_from_jobject E j s = Inl (NullPointer ''handle'')"
  using assms
  by (simp add: iotjs_handlewrap_from_jobject_def iotjs_jval_get_object_native_handle_def
      iotjs_handlewrap_validate_def get_handlewrap_def prog_defs)

theorem closed_handle_access_faults_witness:
  "iotjs_handlewrap_from_jobject wraps_engine (JObject 3)
     (sample_open\<lparr>handles := [1 \<mapsto> \<lparr>hw_jobject = JObject 3, hw_open = False, hw_on_close = False\<rparr>]\<rparr>) =
   Inl (NullPointer ''handle'')"
  by (rule closed_handle_access_faults[where p = 1 and
        h = "\<lparr>hw_jobject = JObject 3, hw_open = False, hw_on_close = False\<rparr>"])
    (simp_all add: sample_open_def wraps_engine_def native_of_def)

end
