(* ===== verification/Iot_Buffer.thy ===== *)
theory Iot_Buffer
  imports Iot_Wraps
begin

text \<open>
  \<^verbatim>\<open>src/module/iotjs_module_buffer.c\<close>. A buffer is a JavaScript object whose property
  \<^verbatim>\<open>_builtin\<close> is an object with a native wrapper; \<open>bufs\<close> are the live wrappers. \<open>bw_buffer = None\<close>
  is the NULL pointer of an empty buffer. The source of a copy is a pointer, into a buffer or to
  other bytes, that every iteration reads again, so a copy within one buffer sees its own writes.
\<close>

section \<open>The state\<close>

record iotjs_bufferwrap_t =
  bw_builtin :: jval
  bw_buffer :: "char list option"
  bw_length :: nat

record 'c bst = "'c wrt" +
  bufs :: "nat \<Rightarrow> iotjs_bufferwrap_t option"

definition get_bufferwrap :: "nat \<Rightarrow> (('c, 'z) bst_scheme, iotjs_bufferwrap_t) prog" where
  "get_bufferwrap p =
     bnd (gets (\<lambda>s. bufs s p)) (\<lambda>w.
     case w of
       None \<Rightarrow> fail (UseAfterFree ''bufferwrap'')
     | Some w \<Rightarrow> ret w)"

definition iotjs_bufferwrap_create ::
  "'c engine \<Rightarrow> jval \<Rightarrow> int \<Rightarrow> (('c, 'z) bst_scheme, nat) prog" where
  "iotjs_bufferwrap_create E jbuiltin len =
     bnd IOTJS_ALLOC (\<lambda>p.
     sq (iotjs_jobjectwrap_initialize p jbuiltin)
    (bnd (if 0 < len
          then bnd (iotjs_buffer_allocate (nat (c_uint32 len))) (\<lambda>blk. ret (Some blk))
          else ret None) (\<lambda>b.
     sq (upd (\<lambda>s. s\<lparr>bufs := (bufs s)(p \<mapsto>
           \<lparr>bw_builtin = jbuiltin, bw_buffer = b, bw_length = nat len\<rparr>)\<rparr>))
    (bnd (iotjs_jval_get_object_native_handle E jbuiltin) (\<lambda>q.
     sq (IOTJS_ASSERT ''iotjs_bufferwrap_create'' (p = q))
    (ret p))))))"

definition iotjs_bufferwrap_destroy :: "nat \<Rightarrow> (('c, 'z) bst_scheme, unit) prog" where
  "iotjs_bufferwrap_destroy p =
     bnd (get_bufferwrap p) (\<lambda>w.
     sq (if bw_buffer w \<noteq> None then iotjs_buffer_release else ret ())
    (sq (upd (\<lambda>s. s\<lparr>bufs := (bufs s)(p := None)\<rparr>))
    IOTJS_RELEASE))"

definition iotjs_bufferwrap_from_jbuiltin ::
  "'c engine \<Rightarrow> jval \<Rightarrow> (('c, 'z) rt_scheme, nat) prog" where
  "iotjs_bufferwrap_from_jbuiltin E jbuiltin =
     sq (IOTJS_ASSERT ''iotjs_bufferwrap_from_jbuiltin'' (is_object jbuiltin))
    (bnd (iotjs_jval_get_object_native_handle E jbuiltin) (\<lambda>p.
     sq (IOTJS_ASSERT ''iotjs_bufferwrap_from_jbuiltin'' (p \<noteq> 0))
    (ret p)))"

definition iotjs_bufferwrap_from_jbuffer ::
  "'c engine \<Rightarrow> jval \<Rightarrow> (('c, 'z) rt_scheme, nat) prog" where
  "iotjs_bufferwrap_from_jbuffer E jbuffer =
     sq (IOTJS_ASSERT ''iotjs_bufferwrap_from_jbuffer'' (is_object jbuffer))
    (bnd (iotjs_jval_get_property E jbuffer ''_builtin'') (\<lambda>jbuiltin.
     bnd (iotjs_bufferwrap_from_jbuiltin E jbuiltin) (\<lambda>p.
     sq (iotjs_jval_destroy jbuiltin)
    (ret p))))"

definition iotjs_bufferwrap_jbuiltin :: "'c engine \<Rightarrow> nat \<Rightarrow> (('c, 'z) bst_scheme, jval) prog" where
  "iotjs_bufferwrap_jbuiltin E p =
     bnd (get_bufferwrap p) (\<lambda>w. iotjs_jobjectwrap_jobject E p (bw_builtin w))"

definition iotjs_bufferwrap_jbuffer :: "'c engine \<Rightarrow> nat \<Rightarrow> (('c, 'z) bst_scheme, jval) prog" where
  "iotjs_bufferwrap_jbuffer E p =
     bnd (iotjs_bufferwrap_jbuiltin E p) (\<lambda>jbuiltin.
     iotjs_jval_get_property E jbuiltin ''_buffer'')"

definition iotjs_bufferwrap_buffer :: "nat \<Rightarrow> (('c, 'z) bst_scheme, char list option) prog" where
  "iotjs_bufferwrap_buffer p = bnd (get_bufferwrap p) (\<lambda>w. ret (bw_buffer w))"

abbreviation to_size :: "double \<Rightarrow> ('s, int) prog" where
  "to_size \<equiv> double_to_int 0 (2 ^ 64)"

definition iotjs_bufferwrap_length :: "'c engine \<Rightarrow> nat \<Rightarrow> (('c, 'z) bst_scheme, nat) prog" where
  "iotjs_bufferwrap_length E p =
     bnd (get_bufferwrap p) (\<lambda>w.
     bnd (iotjs_bufferwrap_jbuffer E p) (\<lambda>jbuf.
     bnd (iotjs_jval_get_property E jbuf ''length'') (\<lambda>jlength.
     bnd (iotjs_jval_as_number jlength) (\<lambda>d.
     bnd (to_size d) (\<lambda>len.
     sq (IOTJS_ASSERT ''iotjs_bufferwrap_length'' (len = int (bw_length w)))
    (sq (iotjs_jval_destroy jbuf)
    (sq (iotjs_jval_destroy jlength)
    (ret (bw_length w)))))))))"

section \<open>Ranges, comparison, copying\<close>

definition bound_range :: "int \<Rightarrow> int \<Rightarrow> int \<Rightarrow> int" where
  "bound_range index low upper =
     (if index < c_int32 low then low
      else if index > c_int32 upper then upper
      else c_size index)"

text \<open>Reading one byte of a wrapper's block.\<close>

definition byte_at :: "char list option \<Rightarrow> nat \<Rightarrow> ('s, char) prog" where
  "byte_at b i =
     (case b of
        None \<Rightarrow> fail (NullPointer ''buffer'')
      | Some cs \<Rightarrow> (if i < length cs then ret (cs ! i) else fail (OutOfBounds ''buffer'')))"

function compare_loop ::
  "iotjs_bufferwrap_t \<Rightarrow> iotjs_bufferwrap_t \<Rightarrow> nat \<Rightarrow> nat \<Rightarrow> ('s, int) prog" where
  "compare_loop a b i j =
     (if i < bw_length a \<and> j < bw_length b
      then bnd (byte_at (bw_buffer a) i) (\<lambda>x.
           bnd (byte_at (bw_buffer b) j) (\<lambda>y.
           if char_value x < char_value y then ret (-1)
           else if char_value x > char_value y then ret 1
           else compare_loop a b (Suc i) (Suc j)))
      else if j < bw_length b then ret (-1)
      else if i < bw_length a then ret 1
      else ret 0)"
  by auto
termination
  by (relation "measure (\<lambda>(a, b, i, j). bw_length a - i)") auto

definition iotjs_bufferwrap_compare :: "nat \<Rightarrow> nat \<Rightarrow> (('c, 'z) bst_scheme, int) prog" where
  "iotjs_bufferwrap_compare p q =
     bnd (get_bufferwrap p) (\<lambda>a.
     bnd (get_bufferwrap q) (\<lambda>b.
     compare_loop a b 0 0))"

datatype src_ptr = SrcBuffer nat | SrcBytes "char list"

definition read_src :: "src_ptr \<Rightarrow> nat \<Rightarrow> (('c, 'z) bst_scheme, char) prog" where
  "read_src src i =
     (case src of
        SrcBuffer q \<Rightarrow> bnd (iotjs_bufferwrap_buffer q) (\<lambda>b. byte_at b i)
      | SrcBytes cs \<Rightarrow> byte_at (Some cs) i)"

definition write_buffer :: "nat \<Rightarrow> nat \<Rightarrow> char \<Rightarrow> (('c, 'z) bst_scheme, unit) prog" where
  "write_buffer p j c =
     bnd (get_bufferwrap p) (\<lambda>w.
     case bw_buffer w of
       None \<Rightarrow> fail (NullPointer ''buffer'')
     | Some cs \<Rightarrow>
         if j < length cs
         then upd (\<lambda>s. s\<lparr>bufs := (bufs s)(p \<mapsto> w\<lparr>bw_buffer := Some (cs[j := c])\<rparr>)\<rparr>)
         else fail (OutOfBounds ''buffer''))"

function copy_loop ::
  "nat \<Rightarrow> src_ptr \<Rightarrow> nat \<Rightarrow> nat \<Rightarrow> nat \<Rightarrow> nat \<Rightarrow> nat \<Rightarrow> (('c, 'z) bst_scheme, nat) prog" where
  "copy_loop p src i src_to j dst_length copied =
     (if i < src_to \<and> j < dst_length
      then bnd (read_src src i) (\<lambda>c.
           sq (write_buffer p j c)
           (copy_loop p src (Suc i) src_to (Suc j) dst_length (Suc copied)))
      else ret copied)"
  by auto
termination
  by (relation "measure (\<lambda>(p, src, i, src_to, j, dst_length, copied). src_to - i)") auto

declare compare_loop.simps [simp del] copy_loop.simps [simp del]

definition iotjs_bufferwrap_copy_internal ::
  "nat \<Rightarrow> src_ptr \<Rightarrow> nat \<Rightarrow> nat \<Rightarrow> nat \<Rightarrow> (('c, 'z) bst_scheme, nat) prog" where
  "iotjs_bufferwrap_copy_internal p src src_from src_to dst_from =
     bnd (get_bufferwrap p) (\<lambda>w.
     copy_loop p src src_from src_to dst_from (bw_length w) 0)"

definition iotjs_bufferwrap_copy ::
  "nat \<Rightarrow> src_ptr \<Rightarrow> nat \<Rightarrow> (('c, 'z) bst_scheme, nat) prog" where
  "iotjs_bufferwrap_copy p src len = iotjs_bufferwrap_copy_internal p src 0 len 0"


section \<open>Creating a buffer from C\<close>

text \<open>
  \<^verbatim>\<open>iotjs_bufferwrap_create_buffer\<close> calls the constructor \<^verbatim>\<open>Buffer\<close> of \<^verbatim>\<open>src/js/buffer.js\<close>,
  which calls the native constructor back on a new builtin object. \<open>js_Buffer\<close> is that
  call; \<open>global\<close> is the global object (\<^verbatim>\<open>iotjs_jval_get_global_object\<close>).
\<close>

definition js_Buffer :: "'c engine \<Rightarrow> nat \<Rightarrow> (('c, 'z) bst_scheme, unit) prog" where
  "js_Buffer E len =
     bnd (gets (\<lambda>s. JObject (e_new E (trace s)))) (\<lambda>b.
     bnd (iotjs_bufferwrap_create E b (int len)) (\<lambda>_. ret ()))"

definition iotjs_bufferwrap_create_buffer ::
  "'c engine \<Rightarrow> jval \<Rightarrow> nat \<Rightarrow> (('c, 'z) bst_scheme, jval) prog" where
  "iotjs_bufferwrap_create_buffer E global len =
     bnd (iotjs_jval_get_property E global ''Buffer'') (\<lambda>jbuffer.
     sq (IOTJS_ASSERT ''iotjs_bufferwrap_create_buffer'' (is_function jbuffer))
    (bnd (iotjs_jargs_create 1) (\<lambda>jargs.
     bnd (iotjs_jargs_append_number jargs (num (int len))) (\<lambda>jargs.
     sq (js_Buffer E len)
    (bnd (iotjs_jhelper_call_ok E jbuffer JUndefined jargs) (\<lambda>jres.
     sq (IOTJS_ASSERT ''iotjs_bufferwrap_create_buffer'' (is_object jres))
    (sq (iotjs_jargs_destroy jargs)
    (sq (iotjs_jval_destroy jbuffer)
    (ret jres)))))))))"

section \<open>Handlers\<close>

definition JHANDLER_GET_INT :: "nat \<Rightarrow> (('c, 'z) hrt_scheme, int) prog" where
  "JHANDLER_GET_INT i = bnd (JHANDLER_GET_ARG i iotjs_jval_as_number) to_int"

definition Buffer :: "'c engine \<Rightarrow> (('c, 'z) bst_scheme, unit) prog" where
  "Buffer E =
     JHANDLER_CHECK_THIS E ''___Buffer_native'' is_object
    (JHANDLER_CHECK_ARGS E ''___Buffer_native'' [is_object, is_number]
    (bnd JHANDLER_GET_THIS (\<lambda>jbuiltin.
     bnd (JHANDLER_GET_ARG 0 iotjs_jval_as_object) (\<lambda>jbuffer.
     bnd (JHANDLER_GET_INT 1) (\<lambda>len.
     sq (iotjs_jval_set_property_jval E jbuiltin ''_buffer'' jbuffer)
    (bnd (iotjs_bufferwrap_create E jbuiltin (c_size len)) (\<lambda>_. ret ())))))))"

definition Compare :: "'c engine \<Rightarrow> (('c, 'z) bst_scheme, unit) prog" where
  "Compare E =
     JHANDLER_CHECK_THIS E ''___Compare_native'' is_object
    (JHANDLER_CHECK_ARGS E ''___Compare_native'' [is_object]
    (bnd JHANDLER_GET_THIS (\<lambda>jsrc_builtin.
     bnd (iotjs_bufferwrap_from_jbuiltin E jsrc_builtin) (\<lambda>src_buffer_wrap.
     bnd (JHANDLER_GET_ARG 0 iotjs_jval_as_object) (\<lambda>jdst_buffer.
     bnd (iotjs_bufferwrap_from_jbuffer E jdst_buffer) (\<lambda>dst_buffer_wrap.
     bnd (iotjs_bufferwrap_compare src_buffer_wrap dst_buffer_wrap) (\<lambda>compare.
     iotjs_jhandler_return_number (num compare))))))))"

definition Copy :: "'c engine \<Rightarrow> (('c, 'z) bst_scheme, unit) prog" where
  "Copy E =
     JHANDLER_CHECK_THIS E ''___Copy_native'' is_object
    (JHANDLER_CHECK_ARGS E ''___Copy_native'' [is_object, is_number, is_number, is_number]
    (bnd JHANDLER_GET_THIS (\<lambda>jsrc_builtin.
     bnd (iotjs_bufferwrap_from_jbuiltin E jsrc_builtin) (\<lambda>src_buffer_wrap.
     bnd (JHANDLER_GET_ARG 0 iotjs_jval_as_object) (\<lambda>jdst_buffer.
     bnd (iotjs_bufferwrap_from_jbuffer E jdst_buffer) (\<lambda>dst_buffer_wrap.
     bnd (JHANDLER_GET_INT 1) (\<lambda>dst_start.
     bnd (JHANDLER_GET_INT 2) (\<lambda>src_start.
     bnd (JHANDLER_GET_INT 3) (\<lambda>src_end.
     bnd (iotjs_bufferwrap_length E dst_buffer_wrap) (\<lambda>dst_length.
     bnd (iotjs_bufferwrap_length E src_buffer_wrap) (\<lambda>src_length.
     let dst_start = c_int32 (bound_range dst_start 0 (int dst_length));
         src_start = c_int32 (bound_range src_start 0 (int src_length));
         src_end = c_int32 (bound_range src_end 0 (int src_length));
         src_end = (if src_end < src_start then src_start else src_end)
     in bnd (iotjs_bufferwrap_copy_internal dst_buffer_wrap (SrcBuffer src_buffer_wrap)
               (nat (c_size src_start)) (nat (c_size src_end)) (nat (c_size dst_start))) (\<lambda>copied.
        iotjs_jhandler_return_number (num (int copied))))))))))))))"

definition Write :: "'c engine \<Rightarrow> (('c, 'z) bst_scheme, unit) prog" where
  "Write E =
     JHANDLER_CHECK_ARGS E ''___Write_native'' [is_string, is_number, is_number]
    (bnd (JHANDLER_GET_ARG 0 iotjs_jval_as_string) (\<lambda>src.
     bnd (JHANDLER_GET_INT 1) (\<lambda>offset.
     bnd (JHANDLER_GET_INT 2) (\<lambda>len.
     bnd JHANDLER_GET_THIS (\<lambda>jbuiltin.
     bnd (iotjs_bufferwrap_from_jbuiltin E jbuiltin) (\<lambda>buffer_wrap.
     bnd (iotjs_bufferwrap_length E buffer_wrap) (\<lambda>buffer_length.
     let offset = c_int32 (bound_range offset 0 (int buffer_length));
         len = c_int32 (bound_range len 0 (c_size (int buffer_length - offset)));
         len = c_int32 (bound_range len 0 (uint (str_size src)))
     in bnd (iotjs_bufferwrap_copy_internal buffer_wrap
               (SrcBytes (map the (iotjs_string_data src))) 0 (nat (c_size len))
               (nat (c_size offset))) (\<lambda>copied.
        sq (iotjs_jhandler_return_number (num (int copied)))
        (iotjs_string_destroy src)))))))))"

definition Slice :: "'c engine \<Rightarrow> jval \<Rightarrow> (('c, 'z) bst_scheme, unit) prog" where
  "Slice E global =
     JHANDLER_CHECK_ARGS E ''___Slice_native'' [is_number, is_number]
    (bnd JHANDLER_GET_THIS (\<lambda>jbuiltin.
     bnd (iotjs_bufferwrap_from_jbuiltin E jbuiltin) (\<lambda>buffer_wrap.
     bnd (JHANDLER_GET_INT 0) (\<lambda>start.
     bnd (JHANDLER_GET_INT 1) (\<lambda>stop.
     bnd (if start < 0
          then bnd (iotjs_bufferwrap_length E buffer_wrap) (\<lambda>n. ret (c_int32 (c_size (start + int n))))
          else ret start) (\<lambda>start.
     bnd (iotjs_bufferwrap_length E buffer_wrap) (\<lambda>n.
     let start = c_int32 (bound_range start 0 (int n)) in
     bnd (if stop < 0
          then bnd (iotjs_bufferwrap_length E buffer_wrap) (\<lambda>n. ret (c_int32 (c_size (stop + int n))))
          else ret stop) (\<lambda>stop.
     bnd (iotjs_bufferwrap_length E buffer_wrap) (\<lambda>n.
     let stop = c_int32 (bound_range stop 0 (int n));
         stop = (if stop < start then start else stop);
         len = stop - start
     in sq (IOTJS_ASSERT ''___Slice_native'' (0 \<le> len))
       (bnd (iotjs_bufferwrap_create_buffer E global (nat (c_size len))) (\<lambda>jnew_buffer.
        bnd (iotjs_bufferwrap_from_jbuffer E jnew_buffer) (\<lambda>new_buffer_wrap.
        bnd (iotjs_bufferwrap_copy_internal new_buffer_wrap (SrcBuffer buffer_wrap)
               (nat (c_size start)) (nat (c_size stop)) 0) (\<lambda>_.
        sq (iotjs_jhandler_return_jval jnew_buffer)
        (iotjs_jval_destroy jnew_buffer))))))))))))))"

text \<open>\<^verbatim>\<open>data\<close> is the block from \<^verbatim>\<open>start\<close> on; the pointer of an empty buffer is never read.\<close>

definition ToString :: "'c engine \<Rightarrow> (('c, 'z) bst_scheme, unit) prog" where
  "ToString E =
     JHANDLER_CHECK_THIS E ''___ToString_native'' is_object
    (JHANDLER_CHECK_ARGS E ''___ToString_native'' [is_number, is_number]
    (bnd JHANDLER_GET_THIS (\<lambda>jbuiltin.
     bnd (iotjs_bufferwrap_from_jbuiltin E jbuiltin) (\<lambda>buffer_wrap.
     bnd (JHANDLER_GET_INT 0) (\<lambda>start.
     bnd (JHANDLER_GET_INT 1) (\<lambda>stop.
     bnd (iotjs_bufferwrap_length E buffer_wrap) (\<lambda>n.
     let start = c_int32 (bound_range start 0 (int n)) in
     bnd (iotjs_bufferwrap_length E buffer_wrap) (\<lambda>n.
     let stop = c_int32 (bound_range stop 0 (int n));
         stop = (if stop < start then start else stop);
         len = stop - start
     in sq (IOTJS_ASSERT ''___ToString_native'' (0 \<le> len))
       (bnd (iotjs_bufferwrap_buffer buffer_wrap) (\<lambda>b.
        let data = drop (nat start) (case b of None \<Rightarrow> [] | Some cs \<Rightarrow> cs) in
        bnd (read_option ''strnlen'' (c_strnlen data (nat (c_size len)))) (\<lambda>len.
        bnd (iotjs_string_create_with_size data (word_of_nat len)) (\<lambda>str.
        sq (iotjs_jhandler_return_string str)
        (iotjs_string_destroy str)))))))))))))"

definition InitBuffer :: "'c engine \<Rightarrow> (('c, 'z) rt_scheme, jval) prog" where
  "InitBuffer E =
     bnd (iotjs_jval_create_function E) (\<lambda>buffer.
     bnd (iotjs_jval_create_object E) (\<lambda>prototype.
     sq (iotjs_jval_set_property_jval E buffer ''prototype'' prototype)
    (sq (set_methods E prototype [''compare'', ''copy'', ''write'', ''slice'', ''toString''])
    (sq (iotjs_jval_destroy prototype)
    (ret buffer)))))"

interpretation buffer_module: module_init E "InitBuffer E" for E :: "'c engine"
  by unfold_locales (simp add: InitBuffer_def init_prototype)

section \<open>Rules\<close>

definition bytes :: "iotjs_bufferwrap_t \<Rightarrow> char list" where
  "bytes w = (case bw_buffer w of None \<Rightarrow> [] | Some cs \<Rightarrow> cs)"

text \<open>The representation invariant of a wrapper.\<close>

definition buf_wf :: "iotjs_bufferwrap_t \<Rightarrow> bool" where
  "buf_wf w \<longleftrightarrow> bw_length w < 2 ^ 31 \<and> length (bytes w) = bw_length w \<and>
     (bw_buffer w = None \<longleftrightarrow> bw_length w = 0)"

lemma buf_wf_cases:
  assumes "buf_wf w"
  obtains "bw_buffer w = None" "bw_length w = 0" "bytes w = []"
    | cs where "bw_buffer w = Some cs" "bytes w = cs" "length cs = bw_length w" "0 < bw_length w"
  using assms that by (cases "bw_buffer w") (auto simp: buf_wf_def bytes_def)

lemma wp_get_bufferwrap [wp_simps]:
  "wp (get_bufferwrap p) Q s \<longleftrightarrow> (\<exists>w. bufs s p = Some w \<and> Q w s)"
  by (cases "bufs s p") (simp_all add: get_bufferwrap_def wp_simps)

lemma wp_bufferwrap_buffer [wp_simps]:
  "wp (iotjs_bufferwrap_buffer p) Q s \<longleftrightarrow> (\<exists>w. bufs s p = Some w \<and> Q (bw_buffer w) s)"
  by (simp add: iotjs_bufferwrap_buffer_def wp_simps)

lemma wp_byte_at [wp_simps]:
  "wp (byte_at b i) Q s \<longleftrightarrow> (\<exists>cs. b = Some cs \<and> i < length cs \<and> Q (cs ! i) s)"
  by (cases b) (simp_all add: byte_at_def wp_simps)

lemma wp_read_src [wp_simps]:
  "wp (read_src (SrcBytes cs) i) Q s \<longleftrightarrow> i < length cs \<and> Q (cs ! i) s"
  "wp (read_src (SrcBuffer q) i) Q s \<longleftrightarrow>
     (\<exists>w cs. bufs s q = Some w \<and> bw_buffer w = Some cs \<and> i < length cs \<and> Q (cs ! i) s)"
  by (auto simp: read_src_def wp_simps)

lemma wp_write_buffer [wp_simps]:
  "wp (write_buffer p j c) Q s \<longleftrightarrow>
     (\<exists>w cs. bufs s p = Some w \<and> bw_buffer w = Some cs \<and> j < length cs \<and>
        Q () (s\<lparr>bufs := (bufs s)(p \<mapsto> w\<lparr>bw_buffer := Some (cs[j := c])\<rparr>)\<rparr>))"
proof (cases "bufs s p")
  case (Some w)
  then show ?thesis by (cases "bw_buffer w") (simp_all add: write_buffer_def wp_simps)
qed (simp add: write_buffer_def wp_simps)

subsection \<open>The range check\<close>

definition clamp :: "int \<Rightarrow> nat \<Rightarrow> nat" where
  "clamp i n = nat (max 0 (min i (int n)))"

lemma bound_range_clamp:
  "n < 2 ^ 31 \<Longrightarrow> in_int32 i \<Longrightarrow> bound_range i 0 (int n) = int (clamp i n)"
  by (auto simp: bound_range_def clamp_def in_int32_def)

lemma clamp_le [simp]: "clamp i n \<le> n"
  by (simp add: clamp_def)

lemma small_int:
  assumes "m < 2 ^ 31"
  shows "c_int32 (int m) = int m" "c_size (int m) = int m"
proof -
  from assms have "int m < 2147483648" by simp
  then show "c_int32 (int m) = int m" "c_size (int m) = int m"
    by (intro c_int32_id c_size_id; simp)+
qed

lemma clamp_small: "n < 2 ^ 31 \<Longrightarrow> clamp i n < 2 ^ 31"
  by (rule le_less_trans[OF clamp_le])

lemmas clamp_simps = small_int[OF clamp_small]

subsection \<open>The copy loop\<close>

definition overlay :: "'a list \<Rightarrow> nat \<Rightarrow> 'a list \<Rightarrow> 'a list" where
  "overlay ds j xs = take j ds @ xs @ drop (j + length xs) ds"

lemma overlay_Nil [simp]: "overlay ds j [] = ds"
  by (simp add: overlay_def)

lemma overlay_length [simp]: "j + length xs \<le> length ds \<Longrightarrow> length (overlay ds j xs) = length ds"
  by (simp add: overlay_def)

lemma overlay_step:
  assumes "j < length ds"
  shows "overlay (ds[j := x]) (Suc j) xs = overlay ds j (x # xs)"
  using assms by (simp add: overlay_def take_Suc_conv_app_nth)

abbreviation set_block :: "nat \<Rightarrow> iotjs_bufferwrap_t \<Rightarrow> char list \<Rightarrow>
    ('c, 'z) bst_scheme \<Rightarrow> ('c, 'z) bst_scheme" where
  "set_block p w cs s \<equiv> s\<lparr>bufs := (bufs s)(p \<mapsto> w\<lparr>bw_buffer := Some cs\<rparr>)\<rparr>"

definition src_holds :: "nat \<Rightarrow> src_ptr \<Rightarrow> char list \<Rightarrow> ('c, 'z) bst_scheme \<Rightarrow> bool" where
  "src_holds p src cs s \<longleftrightarrow> src = SrcBytes cs \<or>
     (\<exists>q v. src = SrcBuffer q \<and> q \<noteq> p \<and> bufs s q = Some v \<and> bytes v = cs)"

lemma wp_read_src_holds:
  "src_holds p src cs s \<Longrightarrow> i < length cs \<Longrightarrow> wp (read_src src i) Q s = Q (cs ! i) s"
  by (auto simp: src_holds_def wp_simps bytes_def split: option.splits)

lemma src_holds_set: "src_holds p src cs s \<Longrightarrow> src_holds p src cs (set_block p w ds s)"
  by (auto simp: src_holds_def)

lemma take_drop_step:
  "i < m \<Longrightarrow> m \<le> length cs \<Longrightarrow> j < n \<Longrightarrow>
   take (n - j) (drop i (take m cs)) = cs ! i # take (n - Suc j) (drop (Suc i) (take m cs))"
  by (simp add: Cons_nth_drop_Suc[symmetric] Suc_diff_Suc[symmetric])

lemma copy_loop_wp:
  assumes "bufs s p = Some w" "bw_buffer w = Some ds" "length ds = n"
    and "src_holds p src cs s" "m \<le> length cs"
  shows "wp (copy_loop p src i m j n k) (\<lambda>r t. r = k + min (m - i) (n - j) \<and>
    t = set_block p w (overlay ds j (take (n - j) (drop i (take m cs)))) s) s"
  using assms
proof (induction "m - i" arbitrary: i j k s w ds)
  case 0
  then show ?case
    by (simp add: copy_loop.simps wp_simps fun_upd_idem)
next
  case (Suc x)
  show ?case
  proof (cases "j < n")
    case False
    then show ?thesis
      using Suc.prems by (simp add: copy_loop.simps wp_simps fun_upd_idem)
  next
    case True
    let ?w = "w\<lparr>bw_buffer := Some (ds[j := cs ! i])\<rparr>"
    let ?s = "set_block p w (ds[j := cs ! i]) s"
    have i: "i < m" "i < length cs" using Suc by simp_all
    have "wp (copy_loop p src (Suc i) m (Suc j) n (Suc k)) (\<lambda>r t.
        r = Suc k + min (m - Suc i) (n - Suc j) \<and>
        t = set_block p ?w (overlay (ds[j := cs ! i]) (Suc j)
              (take (n - Suc j) (drop (Suc i) (take m cs)))) ?s) ?s"
      using Suc.prems Suc.hyps(2) src_holds_set[where ds = "ds[j := cs ! i]" and w = w, OF Suc.prems(4)]
      by (intro Suc.hyps(1)) simp_all
    then have "wp (copy_loop p src (Suc i) m (Suc j) n (Suc k)) (\<lambda>r t.
        r = k + min (m - i) (n - j) \<and>
        t = set_block p w (overlay ds j (take (n - j) (drop i (take m cs)))) s) ?s"
      using True i Suc.prems(3,5) take_drop_step[of i m cs j n]
      by (elim wp_mono) (simp add: overlay_step)
    then show ?thesis
      unfolding copy_loop.simps[of p src i]
      using True i Suc.prems
      by (simp add: wp_simps wp_read_src_holds[OF Suc.prems(4)])
  qed
qed

text \<open>Within one buffer the loop sees its own writes.\<close>

function move_bytes :: "char list \<Rightarrow> nat \<Rightarrow> nat \<Rightarrow> nat \<Rightarrow> char list" where
  "move_bytes cs i m j =
     (if i < m \<and> j < length cs then move_bytes (cs[j := cs ! i]) (Suc i) m (Suc j) else cs)"
  by auto
termination
  by (relation "measure (\<lambda>(cs, i, m, j). m - i)") auto

declare move_bytes.simps [simp del]

lemma copy_loop_same_wp:
  assumes "bufs s p = Some w" "bw_buffer w = Some cs" "length cs = n" "m \<le> n"
  shows "wp (copy_loop p (SrcBuffer p) i m j n k) (\<lambda>r t. r = k + min (m - i) (n - j) \<and>
    t = set_block p w (move_bytes cs i m j) s) s"
  using assms
proof (induction "m - i" arbitrary: i j k s w cs)
  case 0
  then show ?case
    by (simp add: copy_loop.simps move_bytes.simps wp_simps fun_upd_idem)
next
  case (Suc x)
  show ?case
  proof (cases "j < n")
    case False
    then show ?thesis
      using Suc.prems by (simp add: copy_loop.simps move_bytes.simps wp_simps fun_upd_idem)
  next
    case True
    let ?w = "w\<lparr>bw_buffer := Some (cs[j := cs ! i])\<rparr>"
    let ?s = "set_block p w (cs[j := cs ! i]) s"
    have i: "i < m" "i < n" using Suc by simp_all
    have "wp (copy_loop p (SrcBuffer p) (Suc i) m (Suc j) n (Suc k)) (\<lambda>r t.
        r = Suc k + min (m - Suc i) (n - Suc j) \<and>
        t = set_block p ?w (move_bytes (cs[j := cs ! i]) (Suc i) m (Suc j)) ?s) ?s"
      using Suc.prems Suc.hyps(2) by (intro Suc.hyps(1)) simp_all
    then have "wp (copy_loop p (SrcBuffer p) (Suc i) m (Suc j) n (Suc k)) (\<lambda>r t.
        r = k + min (m - i) (n - j) \<and> t = set_block p w (move_bytes cs i m j) s) ?s"
      using True i Suc.prems(3) by (elim wp_mono) (simp add: move_bytes.simps[of cs i])
    then show ?thesis
      unfolding copy_loop.simps[of p "SrcBuffer p" i]
      using True i Suc.prems by (simp add: wp_simps)
  qed
qed

lemma move_bytes_forward:
  assumes "j \<le> i" "m \<le> length cs"
  shows "move_bytes cs i m j = overlay cs j (drop i (take m cs))"
  using assms
proof (induction cs i m j rule: move_bytes.induct)
  case (1 cs i m j)
  show ?case
  proof (cases "i < m")
    case False
    then show ?thesis by (simp add: move_bytes.simps)
  next
    case True
    then have j: "j < length cs" using "1.prems" by simp
    have d: "drop i (take m cs) = cs ! i # drop (Suc i) (take m cs)"
      using True "1.prems" by (simp add: Cons_nth_drop_Suc[symmetric])
    have "drop (Suc i) (take m (cs[j := cs ! i])) = drop (Suc i) (take m cs)"
      using "1.prems"(1) by (simp add: take_update_swap drop_update_cancel)
    then show ?thesis
      using True j "1.IH" "1.prems" d by (simp add: move_bytes.simps[of cs i] overlay_step)
  qed
qed

section \<open>Buffers as the handlers see them\<close>

text \<open>
  \<open>builtin s j p w\<close>: the object \<open>j\<close> has the live wrapper \<open>w\<close>, at \<open>p\<close>. \<open>js_buffer\<close> is the
  JavaScript side of a buffer as \<^verbatim>\<open>src/js/buffer.js\<close> builds it: the two objects point to each
  other and \<^verbatim>\<open>length\<close> is the length of the wrapper.
\<close>

definition builtin :: "('c, 'z) bst_scheme \<Rightarrow> jval \<Rightarrow> nat \<Rightarrow> iotjs_bufferwrap_t \<Rightarrow> bool" where
  "builtin s j p w \<longleftrightarrow> is_object j \<and> native_of (trace s) j = p \<and> p \<noteq> 0 \<and>
     bufs s p = Some w \<and> bw_builtin w = j \<and> buf_wf w"

definition js_buffer :: "'c engine \<Rightarrow> jval \<Rightarrow> jval \<Rightarrow> iotjs_bufferwrap_t \<Rightarrow> bool" where
  "js_buffer E jb j w \<longleftrightarrow> is_object jb \<and>
     (\<forall>tr. e_prop E tr jb ''_builtin'' = (False, j)) \<and>
     (\<forall>tr. e_prop E tr j ''_buffer'' = (False, jb)) \<and>
     (\<forall>tr. e_prop E tr jb ''length'' = (False, JNumber (num (int (bw_length w)))))"

lemma quiet_bufs: "quiet s t \<Longrightarrow> bufs t = bufs s"
  by (auto simp: quiet_def)

lemma quiet_builtin: "quiet s t \<Longrightarrow> builtin t j p w = builtin s j p w"
  by (simp add: builtin_def quiet_bufs[of s t] quiet_fields(9)[of s t])

lemma quiet_frame:
  "quiet s t \<Longrightarrow> h_this t = h_this s" "quiet s t \<Longrightarrow> h_argv t = h_argv s"
  "quiet s t \<Longrightarrow> h_ret t = h_ret s" "quiet s t \<Longrightarrow> h_finished t = h_finished s"
  "quiet s t \<Longrightarrow> frame_refs t v = frame_refs s v" "quiet s t \<Longrightarrow> blocks t = blocks s"
  by (auto simp: quiet_def frame_refs_def)

lemma from_jbuiltin_wp:
  assumes "native_law E" "builtin s j p w"
  shows "wp (iotjs_bufferwrap_from_jbuiltin E j) (\<lambda>r t. r = p \<and> quiet s t) s"
  using assms by (auto simp: iotjs_bufferwrap_from_jbuiltin_def wp_simps builtin_def native_law_def)

lemma from_jbuffer_wp:
  assumes E: "native_law E" and b: "builtin s j p w"
    and jb: "is_object jb" "\<forall>tr. e_prop E tr jb ''_builtin'' = (False, j)"
  shows "wp (iotjs_bufferwrap_from_jbuffer E jb) (\<lambda>r t. r = p \<and> quiet s t) s"
proof -
  let ?n = "''_builtin''"
  let ?t = "s\<lparr>trace := trace s @ [ECreate (JString ?n), EGetProp jb ?n j, ERelease (JString ?n)]\<rparr>"
  have "builtin ?t j p w" using b by (simp add: builtin_def native_of_append)
  from from_jbuiltin_wp[OF E this]
  have "wp (iotjs_bufferwrap_from_jbuiltin E j) (\<lambda>r t. r = p \<and> t = ?t) ?t"
    using E b by (auto simp: iotjs_bufferwrap_from_jbuiltin_def wp_simps builtin_def native_law_def
        native_of_append)
  then have "wp (iotjs_bufferwrap_from_jbuiltin E j)
      (\<lambda>p'. wp (sq (iotjs_jval_destroy j) (ret p')) (\<lambda>r t. r = p \<and> quiet s t)) ?t"
    by (rule wp_mono) (auto simp: wp_simps quiet_def)
  then show ?thesis
    using jb by (simp add: iotjs_bufferwrap_from_jbuffer_def wp_simps)
qed

lemma c_trunc_of_nat [simp]: "c_trunc (of_nat n) = int n"
  using c_trunc_of_int[of "int n"] by simp

lemma js_bufferD:
  "js_buffer E jb j w \<Longrightarrow> is_object jb"
  "js_buffer E jb j w \<Longrightarrow> \<forall>tr. e_prop E tr jb ''_builtin'' = (False, j)"
  by (simp_all add: js_buffer_def)

lemma length_wp:
  assumes E: "native_law E" and b: "builtin s j p w" and jb: "js_buffer E jb j w"
  shows "wp (iotjs_bufferwrap_length E p) (\<lambda>r t. r = bw_length w \<and> quiet s t) s"
proof -
  have "bw_length w < 2 ^ 31" using b by (simp add: builtin_def buf_wf_def)
  then have "int (bw_length w) < 18446744073709551616" by simp
  then show ?thesis
    using assms
    by (auto simp: iotjs_bufferwrap_length_def iotjs_bufferwrap_jbuffer_def
        iotjs_bufferwrap_jbuiltin_def builtin_def js_buffer_def wp_simps native_law_def num_def
        quiet_def)
qed

lemma wp_GET_INT [wp_simps]:
  "wp (JHANDLER_GET_INT i) Q s \<longleftrightarrow> i < length (h_argv s) \<and>
     (\<exists>d. h_argv s ! i = JNumber d \<and> wp (to_int d) Q s)"
  by (auto simp: JHANDLER_GET_INT_def wp_simps)

lemma GET_INT_wp:
  "i < length (h_argv s) \<Longrightarrow> h_argv s ! i = JNumber (num n) \<Longrightarrow> in_int32 n \<Longrightarrow>
   wp (JHANDLER_GET_INT i) (\<lambda>r t. r = n \<and> quiet s t) s"
  by (simp add: wp_simps num_def in_int32_def)

text \<open>What the handlers do to a buffer: at most one block is rewritten, at the same length.\<close>

definition rewritten ::
  "nat \<Rightarrow> iotjs_bufferwrap_t \<Rightarrow> char list \<Rightarrow> ('c, 'z) bst_scheme \<Rightarrow> ('c, 'z) bst_scheme \<Rightarrow> bool" where
  "rewritten p w cs s t \<longleftrightarrow> bufs t = (bufs s)(p \<mapsto> w\<lparr>bw_buffer := (if bw_buffer w = None then None
     else Some cs)\<rparr>) \<and> handles t = handles s \<and> reqs t = reqs s \<and> next_ptr t = next_ptr s \<and>
     native_of (trace t) = native_of (trace s) \<and> jmodule t = jmodule s"

lemma rewritten_blocks: "rewritten p w cs s t \<Longrightarrow> rewritten p w cs s (t\<lparr>blocks := b\<rparr>)"
  by (simp add: rewritten_def)

lemma copy_internal_wp:
  assumes w: "bufs s p = Some w" "buf_wf w"
    and src: "src_holds p src cs s" "m \<le> length cs"
  shows "wp (iotjs_bufferwrap_copy_internal p src i m j)
    (\<lambda>r t. r = min (m - i) (bw_length w - j) \<and>
       t = s\<lparr>bufs := (bufs s)(p \<mapsto> w\<lparr>bw_buffer := (if bw_buffer w = None then None
         else Some (overlay (bytes w) j (take (bw_length w - j) (drop i (take m cs)))))\<rparr>)\<rparr>) s"
  using w(2)
proof (cases rule: buf_wf_cases)
  case 1
  have "w\<lparr>bw_buffer := None\<rparr> = w" using 1(1) by (cases w) simp
  then show ?thesis
    using w 1 by (simp add: iotjs_bufferwrap_copy_internal_def wp_simps copy_loop.simps fun_upd_idem)
next
  case (2 ds)
  then show ?thesis
    using copy_loop_wp[OF w(1) 2(1,3) src, of i j 0] w(1)
    by (simp add: iotjs_bufferwrap_copy_internal_def wp_simps)
qed

lemma copy_same_wp:
  assumes w: "bufs s p = Some w" "buf_wf w" and m: "m \<le> bw_length w"
  shows "wp (iotjs_bufferwrap_copy_internal p (SrcBuffer p) i m j)
    (\<lambda>r t. r = min (m - i) (bw_length w - j) \<and>
       t = s\<lparr>bufs := (bufs s)(p \<mapsto> w\<lparr>bw_buffer := (if bw_buffer w = None then None
         else Some (move_bytes (bytes w) i m j))\<rparr>)\<rparr>) s"
  using w(2)
proof (cases rule: buf_wf_cases)
  case 1
  have "w\<lparr>bw_buffer := None\<rparr> = w" using 1(1) by (cases w) simp
  then show ?thesis
    using w 1 by (simp add: iotjs_bufferwrap_copy_internal_def wp_simps copy_loop.simps fun_upd_idem)
next
  case (2 ds)
  then show ?thesis
    using copy_loop_same_wp[OF w(1) 2(1,3) m, of i j 0] w(1)
    by (simp add: iotjs_bufferwrap_copy_internal_def wp_simps)
qed

lemma entry_fields [simp]:
  "handles (handler_entry t args s) = handles s" "reqs (handler_entry t args s) = reqs s"
  "next_ptr (handler_entry t args s) = next_ptr s" "jmodule (handler_entry t args s) = jmodule s"
  "env (handler_entry t args s) = env s" "env_initialized (handler_entry t args s) = env_initialized s"
  by (simp_all add: handler_entry_def)

lemma entry_bufs [simp]: "bufs (handler_entry t args s) = bufs s"
  by (simp add: handler_entry_def)

lemma entry_builtin [simp]: "builtin (handler_entry t args s) j p w = builtin s j p w"
  by (simp add: builtin_def native_of_append)

lemma in_frame_quiet: "quiet (handler_entry t args s) u \<Longrightarrow> in_frame t args s u"
  by (simp add: in_frame_def quiet_frame[of "handler_entry t args s" u])

lemma in_frame_bufs [simp]: "in_frame t args s (u\<lparr>bufs := b\<rparr>) = in_frame t args s u"
  by (simp add: in_frame_def frame_refs_def)

lemma finishes_rewritten:
  assumes q: "quiet (handler_entry t args s) u"
    and z: "finishes r (u\<lparr>bufs := (bufs u)(p \<mapsto> w\<lparr>bw_buffer := (if bw_buffer w = None then None else Some cs)\<rparr>)\<rparr>) z"
  shows "rewritten p w cs s z"
  using z quiet_fields(1-5)[OF q] quiet_fields(9)[OF q] quiet_bufs[OF q]
  by (auto simp: finishes_def rewritten_def native_of_append fun_eq_iff)

section \<open>The handlers\<close>

definition copied :: "nat \<Rightarrow> nat \<Rightarrow> nat \<Rightarrow> nat" where
  "copied from_ix to_ix room = min (to_ix - from_ix) room"

lemma checked_int:
  assumes "quiet (handler_entry t args s) u" "i < length args" "args ! i = JNumber (num n)" "in_int32 n"
  shows "wp (JHANDLER_GET_INT i) (\<lambda>r t. r = n \<and> quiet u t) u"
  using assms by (intro GET_INT_wp) (simp_all add: quiet_frame[OF assms(1)])

text \<open>The part of \<^verbatim>\<open>Copy\<close> before the loop, for two buffers that may be the same.\<close>

lemma copy_handler_reduces:
  assumes E: "native_law E" and src: "builtin s j q v" "js_buffer E jb j v"
    and dst: "builtin s jd p w" "js_buffer E jbd jd w"
    and args: "args = [jbd, JNumber (num a), JNumber (num b), JNumber (num c)]"
    and ints: "in_int32 a" "in_int32 b" "in_int32 c"
    and rest: "\<And>u. quiet (handler_entry j args s) u \<Longrightarrow>
      wp (bnd (iotjs_bufferwrap_copy_internal p (SrcBuffer q) (clamp b (bw_length v))
            (max (clamp b (bw_length v)) (clamp c (bw_length v))) (clamp a (bw_length w)))
         (\<lambda>k. iotjs_jhandler_return_number (num (int k)))) Q u"
  shows "wp (Copy E) Q (handler_entry j args s)"
proof -
  let ?e = "handler_entry j args s"
  let ?to = "max (clamp b (bw_length v)) (clamp c (bw_length v))"
  have small: "bw_length w < 2 ^ 31" "bw_length v < 2 ^ 31"
    and obj: "is_object j" "is_object jd" "is_object jbd"
    using src dst by (simp_all add: builtin_def buf_wf_def js_buffer_def)
  have b: "\<And>u. quiet ?e u \<Longrightarrow> builtin u j q v" "\<And>u. quiet ?e u \<Longrightarrow> builtin u jd p w"
    using src(1) dst(1) by (simp_all add: quiet_builtin)
  have h: "\<And>u. quiet ?e u \<Longrightarrow> h_argv u = args"
    by (simp add: quiet_frame)
  note lets = Let_def bound_range_clamp[OF small(1) ints(1)] bound_range_clamp[OF small(2) ints(2)]
    bound_range_clamp[OF small(2) ints(3)] clamp_simps[OF small(1)] clamp_simps[OF small(2)]
  have mx: "(if int (clamp c (bw_length v)) < int (clamp b (bw_length v)) then int (clamp b (bw_length v))
      else int (clamp c (bw_length v))) = int ?to"
    by (simp add: max_def)
  have ts: "c_size (int ?to) = int ?to"
    using clamp_small[OF small(2), of b] clamp_small[OF small(2), of c]
    by (intro small_int(2)) simp
  have gi: "\<And>u. quiet ?e u \<Longrightarrow> wp (JHANDLER_GET_INT 1) (\<lambda>r t. r = a \<and> quiet u t) u"
    "\<And>u. quiet ?e u \<Longrightarrow> wp (JHANDLER_GET_INT 2) (\<lambda>r t. r = b \<and> quiet u t) u"
    "\<And>u. quiet ?e u \<Longrightarrow> wp (JHANDLER_GET_INT 3) (\<lambda>r t. r = c \<and> quiet u t) u"
    using ints by (auto intro!: checked_int simp: args)
  have am: "args_match [is_object, is_number, is_number, is_number] args"
    by (simp add: args obj)
  show ?thesis
    unfolding Copy_def
    apply (simp only: wp_JHANDLER_CHECK_THIS wp_check_args handler_entry_sel am obj if_True)
    apply (rule quiet_bnd[OF quiet_refl, where x = j], simp add: wp_simps obj)
    apply (rule quiet_bnd, assumption, rule from_jbuiltin_wp[OF E b(1)], assumption)
    apply (rule quiet_bnd[where x = jbd], assumption, simp add: wp_simps obj h args)
    apply (rule quiet_bnd, assumption, rule from_jbuffer_wp[OF E b(2) js_bufferD[OF dst(2)]], assumption)
    apply (rule quiet_bnd, assumption, rule gi(1), assumption)
    apply (rule quiet_bnd, assumption, rule gi(2), assumption)
    apply (rule quiet_bnd, assumption, rule gi(3), assumption)
    apply (rule quiet_bnd, assumption, rule length_wp[OF E b(2) dst(2)], assumption)
    apply (rule quiet_bnd, assumption, rule length_wp[OF E b(1) src(2)], assumption)
    apply (simp only: lets mx ts nat_int)
    apply (rule rest, assumption)
    done
qed

text \<open>The end of the handlers that write: one block rewritten, then the count returned.\<close>

lemma copied_ends:
  assumes q: "quiet (handler_entry j args s) u" and k: "k = k'"
    and v: "v = u\<lparr>bufs := (bufs u)(p \<mapsto> w\<lparr>bw_buffer := (if bw_buffer w = None then None else Some cs)\<rparr>)\<rparr>"
  shows "wp (iotjs_jhandler_return_number (num (int k)))
    (\<lambda>_ z. body_ends j args (False, JNumber (num (int k'))) s z \<and> rewritten p w cs s z) v"
  unfolding k
  by (rule wp_mono[OF return_ends(2)[where t = j and args = args and s = s]])
    (use in_frame_quiet[OF q] finishes_rewritten[OF q] v in auto)

lemma copy_handler_wp:
  assumes E: "native_law E" and src: "builtin s j q v" "js_buffer E jb j v"
    and dst: "builtin s jd p w" "js_buffer E jbd jd w" and pq: "p \<noteq> q"
    and args: "args = [jbd, JNumber (num a), JNumber (num b), JNumber (num c)]"
    and ints: "in_int32 a" "in_int32 b" "in_int32 c"
  defines "d \<equiv> clamp a (bw_length w)" and "from_ix \<equiv> clamp b (bw_length v)"
  defines "to_ix \<equiv> max from_ix (clamp c (bw_length v))"
  shows "wp (Copy E) (\<lambda>_ z. body_ends j args
      (False, JNumber (num (int (copied from_ix to_ix (bw_length w - d))))) s z \<and>
      rewritten p w (overlay (bytes w) d (take (bw_length w - d) (drop from_ix (take to_ix (bytes v))))) s z)
    (handler_entry j args s)"
proof (rule copy_handler_reduces[OF E src dst args ints], unfold wp_bnd)
  fix u
  assume q: "quiet (handler_entry j args s) u"
  have w: "bufs u p = Some w" "buf_wf w" and vq: "bufs u q = Some v" "buf_wf v"
    using src(1) dst(1) quiet_bufs[OF q] by (simp_all add: builtin_def)
  have "to_ix \<le> length (bytes v)"
    using vq(2) by (simp add: to_ix_def from_ix_def buf_wf_def)
  moreover have "src_holds p (SrcBuffer q) (bytes v) u"
    using vq(1) pq by (simp add: src_holds_def)
  ultimately show "wp (iotjs_bufferwrap_copy_internal p (SrcBuffer q) (clamp b (bw_length v))
      (max (clamp b (bw_length v)) (clamp c (bw_length v))) (clamp a (bw_length w)))
    (\<lambda>k. wp (iotjs_jhandler_return_number (num (int k))) (\<lambda>_ z. body_ends j args
      (False, JNumber (num (int (copied from_ix to_ix (bw_length w - d))))) s z \<and>
      rewritten p w (overlay (bytes w) d (take (bw_length w - d) (drop from_ix (take to_ix (bytes v))))) s z)) u"
    unfolding d_def[symmetric] from_ix_def[symmetric] to_ix_def[symmetric]
    by (intro wp_mono[OF copy_internal_wp[OF w]] copied_ends[OF q]) (auto simp: copied_def)
qed

text \<open>Copying within one buffer: the loop runs forwards over its own output.\<close>

lemma copy_handler_same_wp:
  assumes E: "native_law E" and src: "builtin s j q v" "js_buffer E jb j v"
    and args: "args = [jb, JNumber (num a), JNumber (num b), JNumber (num c)]"
    and ints: "in_int32 a" "in_int32 b" "in_int32 c"
  defines "d \<equiv> clamp a (bw_length v)" and "from_ix \<equiv> clamp b (bw_length v)"
  defines "to_ix \<equiv> max from_ix (clamp c (bw_length v))"
  shows "wp (Copy E) (\<lambda>_ z. body_ends j args
      (False, JNumber (num (int (copied from_ix to_ix (bw_length v - d))))) s z \<and>
      rewritten q v (move_bytes (bytes v) from_ix to_ix d) s z) (handler_entry j args s)"
proof (rule copy_handler_reduces[OF E src src args ints], unfold wp_bnd)
  fix u
  assume q: "quiet (handler_entry j args s) u"
  have w: "bufs u q = Some v" "buf_wf v"
    using src(1) quiet_bufs[OF q] by (simp_all add: builtin_def)
  have "to_ix \<le> bw_length v" by (simp add: to_ix_def from_ix_def)
  then show "wp (iotjs_bufferwrap_copy_internal q (SrcBuffer q) (clamp b (bw_length v))
      (max (clamp b (bw_length v)) (clamp c (bw_length v))) (clamp a (bw_length v)))
    (\<lambda>k. wp (iotjs_jhandler_return_number (num (int k))) (\<lambda>_ z. body_ends j args
      (False, JNumber (num (int (copied from_ix to_ix (bw_length v - d))))) s z \<and>
      rewritten q v (move_bytes (bytes v) from_ix to_ix d) s z)) u"
    unfolding d_def[symmetric] from_ix_def[symmetric] to_ix_def[symmetric]
    by (intro wp_mono[OF copy_same_wp[OF w]] copied_ends[OF q]) (auto simp: copied_def)
qed

subsection \<open>Writing a string\<close>

lemma charge_entry: "charge k (handler_entry t args s) = handler_entry t args (charge k s)"
  by (cases s) (simp add: charge_def handler_entry_def)

lemma frame_refs_charge [simp]: "frame_refs (charge k s) v = frame_refs s v"
  by (simp add: frame_refs_def charge_def)

lemma body_ends_charge:
  "body_ends t args r (charge k s) z \<Longrightarrow> body_ends t args r s (charge (- k) z)"
  by (simp add: body_ends_def) (simp add: charge_def)

lemma rewritten_charge:
  "rewritten p w cs (charge k s) z \<Longrightarrow> rewritten p w cs s (charge l z)"
  by (simp add: rewritten_def charge_def)

lemma builtin_charge [simp]: "builtin (charge k s) j p w = builtin s j p w"
  by (simp add: builtin_def charge_def)

lemma string_data_take:
  assumes "string_wf str" "n \<le> length (contents str)"
  shows "take n (map the (iotjs_string_data str)) = take n (contents str)"
    and "n \<le> length (iotjs_string_data str)"
proof -
  have "take n (map the (iotjs_string_data str)) = take n (contents str) \<and>
      n \<le> length (iotjs_string_data str)"
  proof (cases "str_data str")
    case None
    then show ?thesis using assms(2) by (simp add: contents_def)
  next
    case (Some b)
    then have "unat (str_size str) \<le> unat (str_cap str)" "length b = Suc (unat (str_cap str))"
      using assms(1) by (simp_all add: string_wf_def word_le_nat_alt)
    then show ?thesis
      using Some assms(2) by (simp add: contents_def iotjs_string_data_def take_map)
  qed
  then show "take n (map the (iotjs_string_data str)) = take n (contents str)"
    "n \<le> length (iotjs_string_data str)" by blast+
qed

lemma clamp_int: "clamp (int k) n = min k n"
  by (simp add: clamp_def min_def)

text \<open>The part of \<^verbatim>\<open>Write\<close> after the string has been read.\<close>

lemma write_body_wp:
  assumes E: "native_law E" and dst: "builtin s j p w" "js_buffer E jb j w"
    and args: "args = [JString tx, JNumber (num a), JNumber (num b)]"
    and ints: "in_int32 a" "in_int32 b" and tx: "length tx < 2 ^ 31"
    and str: "string_wf str" "contents str = tx"
  defines "off \<equiv> clamp a (bw_length w)"
  defines "len \<equiv> clamp (int (clamp b (bw_length w - off))) (length tx)"
  assumes fin: "\<And>z. body_ends j args (False, JNumber (num (int len))) s z \<Longrightarrow>
       rewritten p w (overlay (bytes w) off (take len tx)) s z \<Longrightarrow> wp fin Q z"
  shows "wp (bnd (JHANDLER_GET_INT 1) (\<lambda>offset.
     bnd (JHANDLER_GET_INT 2) (\<lambda>len.
     bnd JHANDLER_GET_THIS (\<lambda>jbuiltin.
     bnd (iotjs_bufferwrap_from_jbuiltin E jbuiltin) (\<lambda>buffer_wrap.
     bnd (iotjs_bufferwrap_length E buffer_wrap) (\<lambda>buffer_length.
     let offset = c_int32 (bound_range offset 0 (int buffer_length));
         len = c_int32 (bound_range len 0 (c_size (int buffer_length - offset)));
         len = c_int32 (bound_range len 0 (uint (str_size str)))
     in bnd (iotjs_bufferwrap_copy_internal buffer_wrap
               (SrcBytes (map the (iotjs_string_data str))) 0 (nat (c_size len))
               (nat (c_size offset))) (\<lambda>copied.
        sq (iotjs_jhandler_return_number (num (int copied))) fin)))))))
    Q (handler_entry j args s)"
proof -
  let ?e = "handler_entry j args s"
  have small: "bw_length w < 2 ^ 31" "bw_length w - off < 2 ^ 31"
    and obj: "is_object j"
    using dst less_imp_diff_less[of "bw_length w" "2 ^ 31" off] by (simp_all add: builtin_def buf_wf_def)
  have len_le: "len \<le> length tx" "len \<le> bw_length w - off" "off \<le> bw_length w"
    by (simp_all add: len_def off_def clamp_int min.coboundedI1)
  have ib: "in_int32 (int (clamp b (bw_length w - off)))"
    using clamp_small[OF small(2), of b] by (simp add: in_int32_def)
  have sub: "int (bw_length w) - int off = int (bw_length w - off)"
    by (simp add: off_def of_nat_diff)
  have sz: "uint (str_size str) = int (length tx)"
    using string_wf_size[OF str(1)] str(2) by (simp add: uint_nat)
  have b: "\<And>u. quiet ?e u \<Longrightarrow> builtin u j p w"
    using dst(1) by (simp add: quiet_builtin)
  have gi: "\<And>u. quiet ?e u \<Longrightarrow> wp (JHANDLER_GET_INT 1) (\<lambda>r t. r = a \<and> quiet u t) u"
    "\<And>u. quiet ?e u \<Longrightarrow> wp (JHANDLER_GET_INT 2) (\<lambda>r t. r = b \<and> quiet u t) u"
    using ints by (auto intro!: checked_int simp: args)
  note lets = Let_def bound_range_clamp[OF small(1) ints(1)] off_def[symmetric] sub
    small_int[OF le_less_trans[OF len_le(3) small(1)]] small_int[OF small(2)]
    bound_range_clamp[OF small(2) ints(2)] clamp_simps[OF small(2)] sz
    bound_range_clamp[OF tx ib] len_def[symmetric]
    small_int[OF le_less_trans[OF len_le(1) tx]] nat_int
  show ?thesis
    apply (rule quiet_bnd[OF quiet_refl gi(1)], simp)
    apply (rule quiet_bnd, assumption, rule gi(2), assumption)
    apply (rule quiet_bnd[where x = j], assumption, simp add: wp_simps obj quiet_frame)
    apply (rule quiet_bnd, assumption, rule from_jbuiltin_wp[OF E b], assumption)
    apply (rule quiet_bnd, assumption, rule length_wp[OF E b dst(2)], assumption)
    apply (simp only: lets wp_bnd wp_sq)
  proof -
    fix u
    assume q: "quiet ?e u"
    have w: "bufs u p = Some w" "buf_wf w"
      using dst(1) quiet_bufs[OF q] by (simp_all add: builtin_def)
    have src: "src_holds p (SrcBytes (map the (iotjs_string_data str)))
        (map the (iotjs_string_data str)) u"
      by (simp add: src_holds_def)
    have n: "len \<le> length (map the (iotjs_string_data str))"
      using string_data_take(2)[OF str(1), of len] len_le(1) str(2) by simp
    have tk: "take len (map the (iotjs_string_data str)) = take len tx"
      using string_data_take(1)[OF str(1), of len] len_le(1) str(2) by simp
    show "wp (iotjs_bufferwrap_copy_internal p (SrcBytes (map the (iotjs_string_data str))) 0 len off)
       (\<lambda>k. wp (iotjs_jhandler_return_number (num (int k)))
         (\<lambda>_. wp fin Q)) u"
      by (rule wp_mono[OF copy_internal_wp[OF w src n]], rule wp_mono[OF copied_ends[OF q]])
        (use len_le fin in \<open>auto simp: tk\<close>)
  qed
qed

lemma write_handler_wp:
  assumes E: "native_law E" and dst: "builtin s j p w" "js_buffer E jb j w"
    and args: "args = [JString tx, JNumber (num a), JNumber (num b)]"
    and ints: "in_int32 a" "in_int32 b" and tx: "length tx < 2 ^ 31"
  defines "off \<equiv> clamp a (bw_length w)"
  defines "len \<equiv> clamp (int (clamp b (bw_length w - off))) (length tx)"
  shows "wp (Write E) (\<lambda>_ z. body_ends j args (False, JNumber (num (int len))) s z \<and>
      rewritten p w (overlay (bytes w) off (take len tx)) s z) (handler_entry j args s)"
proof -
  have am: "args_match [is_string, is_number, is_number] args"
    by (simp add: args)
  have h: "args ! 0 = JString tx" "0 < length args" by (simp_all add: args)
  have l: "length tx < 2 ^ 32 - 1" using tx by simp
  note body = write_body_wp[OF E _ dst(2) args ints tx, folded off_def, folded len_def]
  show ?thesis
    unfolding Write_def
    apply (simp only: wp_check_args handler_entry_sel am if_True wp_bnd wp_JHANDLER_GET_ARG h simp_thms)
    apply (rule wp_mono[OF jval_as_string_wp[OF l]])
    apply (elim conjE, simp only: charge_entry wp_bnd[symmetric])
    apply (rule body[where p = p], simp add: dst(1), assumption, assumption)
    apply (rule wp_mono[OF destroy_wp])
    apply (auto dest: body_ends_charge rewritten_charge)
    done
qed

subsection \<open>Comparing and reading\<close>

text \<open>What the handlers that only read leave as it is.\<close>

definition untouched :: "('c, 'z) bst_scheme \<Rightarrow> ('c, 'z) bst_scheme \<Rightarrow> bool" where
  "untouched s t \<longleftrightarrow> bufs t = bufs s \<and> handles t = handles s \<and> reqs t = reqs s \<and>
     next_ptr t = next_ptr s \<and> native_of (trace t) = native_of (trace s) \<and> jmodule t = jmodule s"

lemma untouched_blocks: "untouched s t \<Longrightarrow> untouched s (t\<lparr>blocks := b\<rparr>)"
  by (simp add: untouched_def)

lemma untouched_charge: "untouched (charge k s) t \<Longrightarrow> untouched s (charge l t)"
  by (simp add: untouched_def charge_def)

lemma finishes_untouched:
  assumes q: "quiet (handler_entry t args s) u" and z: "finishes r u z"
  shows "untouched s z"
  using z quiet_fields(1-5)[OF q] quiet_fields(9)[OF q] quiet_bufs[OF q]
  by (auto simp: finishes_def untouched_def native_of_append fun_eq_iff)

lemma char_value_eq [simp]: "char_value x = char_value y \<longleftrightarrow> x = y"
proof
  assume *: "char_value x = char_value y"
  have "(of_char x :: int) < 256" "(of_char y :: int) < 256" "(0 :: int) \<le> of_char x" "(0 :: int) \<le> of_char y"
    by (metis of_char_mod_256 pos_mod_bound pos_mod_sign zero_less_numeral)+
  then show "x = y" using * by (auto simp: char_value_def Let_def split: if_splits)
qed simp

text \<open>The result of \<^verbatim>\<open>compare\<close>: the lexicographic order of the bytes read as signed numbers.\<close>

definition byte_order :: "char list \<Rightarrow> char list \<Rightarrow> int" where
  "byte_order xs ys =
     (if xs = ys then 0
      else if ord_class.lexordp (map char_value xs) (map char_value ys) then -1 else 1)"

lemma byte_order_simps [simp]:
  "byte_order [] [] = 0" "byte_order [] (y # ys) = -1" "byte_order (x # xs) [] = 1"
  "byte_order (x # xs) (y # ys) =
     (if char_value x < char_value y then -1 else if char_value y < char_value x then 1
      else byte_order xs ys)"
  by (auto simp: byte_order_def)

lemma compare_loop_wp:
  assumes "buf_wf v" "buf_wf w"
  shows "wp (compare_loop v w i j)
    (\<lambda>r t. r = byte_order (drop i (bytes v)) (drop j (bytes w)) \<and> t = s) s"
proof (induction "bw_length v - i" arbitrary: i j)
  case (0 i j)
  have v: "length (bytes v) = bw_length v" "length (bytes w) = bw_length w"
    using assms by (simp_all add: buf_wf_def)
  show ?case
  proof (cases "j < bw_length w")
    case True
    then show ?thesis using 0 v
      by (simp add: compare_loop.simps wp_simps Cons_nth_drop_Suc[symmetric])
  qed (use 0 v in \<open>simp add: compare_loop.simps wp_simps\<close>)
next
  case (Suc n i j)
  have v: "length (bytes v) = bw_length v" "length (bytes w) = bw_length w"
    using assms by (simp_all add: buf_wf_def)
  have i: "i < bw_length v" using Suc(2) by simp
  then have bv: "bw_buffer v = Some (bytes v)"
    using assms(1) by (auto elim: buf_wf_cases)
  show ?case
  proof (cases "j < bw_length w")
    case False
    then show ?thesis using i v
      by (simp add: compare_loop.simps wp_simps Cons_nth_drop_Suc[symmetric])
  next
    case True
    then have bw: "bw_buffer w = Some (bytes w)"
      using assms(2) by (auto elim: buf_wf_cases)
    have d: "drop i (bytes v) = bytes v ! i # drop (Suc i) (bytes v)"
      "drop j (bytes w) = bytes w ! j # drop (Suc j) (bytes w)"
      using True i v by (simp_all add: Cons_nth_drop_Suc)
    show ?thesis
      unfolding compare_loop.simps[of v w i j]
      using True i bv bw v Suc(1)[of "Suc i" "Suc j"] Suc(2)
      by (simp add: wp_simps d)
  qed
qed

lemma compare_handler_wp:
  assumes E: "native_law E" and src: "builtin s j q v"
    and dst: "builtin s jd p w" "js_buffer E jbd jd w" and args: "args = [jbd]"
  shows "wp (Compare E) (\<lambda>_ z. body_ends j args
      (False, JNumber (num (byte_order (bytes v) (bytes w)))) s z \<and> untouched s z)
    (handler_entry j args s)"
proof -
  let ?e = "handler_entry j args s"
  have obj: "is_object j" "is_object jbd" and wf: "buf_wf v" "buf_wf w"
    using src dst by (simp_all add: builtin_def js_buffer_def)
  have b: "\<And>u. quiet ?e u \<Longrightarrow> builtin u j q v" "\<And>u. quiet ?e u \<Longrightarrow> builtin u jd p w"
    using src(1) dst(1) by (simp_all add: quiet_builtin)
  have h: "\<And>u. quiet ?e u \<Longrightarrow> h_argv u = args"
    by (simp add: quiet_frame)
  have am: "args_match [is_object] args"
    by (simp add: args obj)
  have cmp: "wp (iotjs_bufferwrap_compare q p) (\<lambda>r t. r = byte_order (bytes v) (bytes w) \<and> quiet u t) u"
    if "quiet ?e u" for u
    using b[OF that] compare_loop_wp[OF wf, of 0 0 u]
    by (auto simp: iotjs_bufferwrap_compare_def wp_simps builtin_def elim: wp_mono)
  show ?thesis
    unfolding Compare_def
    apply (simp only: wp_JHANDLER_CHECK_THIS wp_check_args handler_entry_sel am obj if_True)
    apply (rule quiet_bnd[OF quiet_refl, where x = j], simp add: wp_simps obj)
    apply (rule quiet_bnd, assumption, rule from_jbuiltin_wp[OF E b(1)], assumption)
    apply (rule quiet_bnd[where x = jbd], assumption, simp add: wp_simps obj h args)
    apply (rule quiet_bnd, assumption, rule from_jbuffer_wp[OF E b(2) js_bufferD[OF dst(2)]], assumption)
    apply (rule quiet_bnd, assumption, rule cmp, assumption)
    subgoal for u
      by (rule wp_mono[OF return_ends(2)[OF in_frame_quiet]], assumption)
        (auto intro: finishes_untouched)
    done
qed

text \<open>What \<^verbatim>\<open>toString\<close> returns: the bytes of the range up to the first NUL.\<close>

definition text_of :: "char list \<Rightarrow> nat \<Rightarrow> nat \<Rightarrow> char list" where
  "text_of cs i m = takeWhile (\<lambda>c. c \<noteq> NUL) (drop i (take m cs))"

lemma text_of_le: "length (text_of cs i m) \<le> length cs"
  using length_takeWhile_le[of "\<lambda>c. c \<noteq> NUL" "drop i (take m cs)"] by (simp add: text_of_def)

lemma quiet_charge: "quiet s t \<Longrightarrow> quiet (charge k s) (charge k t)"
  by (cases s) (auto simp: quiet_def charge_def)

lemma bufs_charge [simp]: "bufs (charge k s) = bufs s"
  by (simp add: charge_def)

lemma tostring_wp:
  assumes E: "native_law E" and src: "builtin s j q v" "js_buffer E jb j v"
    and args: "args = [JNumber (num a), JNumber (num b)]" and ints: "in_int32 a" "in_int32 b"
  defines "i \<equiv> clamp a (bw_length v)" and "m \<equiv> max (clamp a (bw_length v)) (clamp b (bw_length v))"
  shows "wp (ToString E) (\<lambda>_ z. body_ends j args (False, JString (text_of (bytes v) i m)) s z \<and>
      untouched s z) (handler_entry j args s)"
proof -
  let ?e = "handler_entry j args s"
  have small: "bw_length v < 2 ^ 31" and obj: "is_object j" and wf: "buf_wf v"
    using src by (simp_all add: builtin_def buf_wf_def)
  have len: "length (bytes v) = bw_length v" using wf by (simp add: buf_wf_def)
  have b: "\<And>u. quiet ?e u \<Longrightarrow> builtin u j q v"
    using src(1) by (simp add: quiet_builtin)
  have h: "\<And>u. quiet ?e u \<Longrightarrow> h_argv u = args"
    by (simp add: quiet_frame)
  have am: "args_match [is_number, is_number] args"
    by (simp add: args)
  have gi: "\<And>u. quiet ?e u \<Longrightarrow> wp (JHANDLER_GET_INT 0) (\<lambda>r t. r = a \<and> quiet u t) u"
    "\<And>u. quiet ?e u \<Longrightarrow> wp (JHANDLER_GET_INT 1) (\<lambda>r t. r = b \<and> quiet u t) u"
    using ints by (auto intro!: checked_int simp: args)
  have mx: "(if int (clamp b (bw_length v)) < int i then int i else int (clamp b (bw_length v))) = int m"
    by (simp add: m_def i_def max_def)
  have im: "i \<le> m" "m \<le> bw_length v" by (simp_all add: i_def m_def)
  then have sub: "int m - int i = int (m - i)" "(0 \<le> int m - int i) = True" "(0 \<le> int (m - i)) = True"
    by (simp_all add: of_nat_diff)
  have small2: "m - i < 2 ^ 31" using im(2) small by simp
  note lets = Let_def bound_range_clamp[OF small ints(1)] bound_range_clamp[OF small ints(2)]
    clamp_simps[OF small] i_def[symmetric] mx sub small_int[OF small2] nat_int
    small_int[OF le_less_trans[OF le_trans[OF im] small]]
  let ?d = "drop i (case bw_buffer v of None \<Rightarrow> [] | Some cs \<Rightarrow> cs)"
  let ?tx = "text_of (bytes v) i m"
  have d: "?d = drop i (bytes v)" by (simp add: bytes_def)
  have tk: "take (m - i) (drop i (bytes v)) = drop i (take m (bytes v))"
    by (simp add: take_drop im)
  have sn: "c_strnlen ?d (m - i) = Some (length ?tx)"
    using im len by (subst c_strnlen_take) (simp_all add: d tk text_of_def)
  have k: "length ?tx < 2 ^ 31" using text_of_le[of "bytes v" i m] len small by simp
  have un: "unat (word_of_nat (length ?tx) :: 32 word) = length ?tx"
    using k by (intro unat_word_of_nat_32) simp
  have tx: "take (length ?tx) ?d = ?tx"
  proof -
    have "length ?tx \<le> m - i"
      using length_takeWhile_le[of "\<lambda>c. c \<noteq> NUL" "drop i (take m (bytes v))"] by (simp add: text_of_def)
    then have "take (length ?tx) ?d = take (length ?tx) (drop i (take m (bytes v)))"
      unfolding d tk[symmetric] by (simp add: min_def)
    then show ?thesis by (simp add: text_of_def takeWhile_eq_take[symmetric])
  qed
  have mk: "wp (iotjs_string_create_with_size ?d (word_of_nat (length ?tx)))
     (\<lambda>str t. string_wf str \<and> contents str = ?tx \<and> t = charge (held str) u) u" for u :: "('a, 'b) bst_scheme"
  proof -
    have "length ?tx = length (take (length ?tx) ?d)" by (simp only: tx)
    then have "length ?tx \<le> length ?d" by simp
    moreover have "NUL \<notin> set ?tx" by (auto simp: text_of_def dest: set_takeWhileD)
    ultimately show ?thesis
      using create_with_size_wp[of "word_of_nat (length ?tx)" ?d u] tx un k by simp
  qed
  show ?thesis
    unfolding ToString_def
    apply (simp only: wp_JHANDLER_CHECK_THIS wp_check_args handler_entry_sel am obj if_True)
    apply (rule quiet_bnd[OF quiet_refl, where x = j], simp add: wp_simps obj)
    apply (rule quiet_bnd, assumption, rule from_jbuiltin_wp[OF E b(1)], assumption)
    apply (rule quiet_bnd, assumption, rule gi(1), assumption)
    apply (rule quiet_bnd, assumption, rule gi(2), assumption)
    apply (rule quiet_bnd, assumption, rule length_wp[OF E b src(2)], assumption)
    apply (simp only: lets)
    apply (rule quiet_bnd, assumption, rule length_wp[OF E b src(2)], assumption)
    apply (simp only: lets wp_bnd wp_sq wp_assert simp_thms wp_bufferwrap_buffer wp_read_option)
    subgoal premises qs for u1 u2 u3 u4 u5 u
    proof -
      note q = qs(6)
      have w: "bufs u q = Some v" using b[OF q] by (simp add: builtin_def)
      show ?thesis
        apply (rule exI[of _ v], rule conjI[OF w], rule exI[of _ "length ?tx"], rule conjI[OF sn])
        apply (rule wp_mono[OF mk], elim conjE)
        subgoal for str t
          using quiet_charge[OF q, of "held str"]
          apply (simp only: charge_entry)
          apply (rule wp_mono[OF return_ends(3)[OF in_frame_quiet]], assumption)
          apply (rule wp_mono[OF destroy_wp])
          apply (auto dest: body_ends_charge intro: untouched_charge finishes_untouched)
          done
        done
    qed
    done
qed

section \<open>Sessions of handler calls\<close>

text \<open>
  \<open>live\<close> is the set of buffers the script holds, each with its builtin object, wrapper, buffer
  object and length. \<open>buffers_ok\<close> is the invariant of the handlers: all of them have a well-formed
  wrapper of that length.
\<close>

type_synonym live_buffers = "(jval \<times> nat \<times> jval \<times> nat) set"

definition buffers_ok :: "'c engine \<Rightarrow> live_buffers \<Rightarrow> ('c, 'z) bst_scheme \<Rightarrow> bool" where
  "buffers_ok E live s \<longleftrightarrow> (\<forall>(j, p, jb, n) \<in> live. \<exists>w. builtin s j p w \<and> js_buffer E jb j w \<and> bw_length w = n)"

datatype buffer_op = OpCompare | OpCopy | OpWrite | OpToString

definition buffer_body :: "'c engine \<Rightarrow> buffer_op \<Rightarrow> (('c, 'z) bst_scheme, unit) prog" where
  "buffer_body E op = (case op of
     OpCompare \<Rightarrow> Compare E | OpCopy \<Rightarrow> Copy E | OpWrite \<Rightarrow> Write E | OpToString \<Rightarrow> ToString E)"

text \<open>What \<^verbatim>\<open>src/js/buffer.js\<close> passes: live buffers, integers and strings below 2 GiB.\<close>

definition buffer_args :: "live_buffers \<Rightarrow> buffer_op \<Rightarrow> jval list \<Rightarrow> bool" where
  "buffer_args live op args \<longleftrightarrow> (case op of
     OpCompare \<Rightarrow> (\<exists>j p jb n. (j, p, jb, n) \<in> live \<and> args = [jb])
   | OpCopy \<Rightarrow> (\<exists>j p jb n a b c. (j, p, jb, n) \<in> live \<and> in_int32 a \<and> in_int32 b \<and> in_int32 c \<and>
       args = [jb, JNumber (num a), JNumber (num b), JNumber (num c)])
   | OpWrite \<Rightarrow> (\<exists>tx a b. length tx < 2 ^ 31 \<and> in_int32 a \<and> in_int32 b \<and>
       args = [JString tx, JNumber (num a), JNumber (num b)])
   | OpToString \<Rightarrow> (\<exists>a b. in_int32 a \<and> in_int32 b \<and> args = [JNumber (num a), JNumber (num b)]))"

lemma buffer_args_cases:
  assumes "buffer_args live op args"
  obtains (Compare) j p jb n where "op = OpCompare" "(j, p, jb, n) \<in> live" "args = [jb]"
    | (Copy) j p jb n a b c where "op = OpCopy" "(j, p, jb, n) \<in> live" "in_int32 a" "in_int32 b"
        "in_int32 c" "args = [jb, JNumber (num a), JNumber (num b), JNumber (num c)]"
    | (Write) tx a b where "op = OpWrite" "length tx < 2 ^ 31" "in_int32 a" "in_int32 b"
        "args = [JString tx, JNumber (num a), JNumber (num b)]"
    | (ToString) a b where "op = OpToString" "in_int32 a" "in_int32 b"
        "args = [JNumber (num a), JNumber (num b)]"
  using assms by (auto simp: buffer_args_def split: buffer_op.splits)

lemma buffers_okD:
  assumes "buffers_ok E live s" "(j, p, jb, n) \<in> live"
  obtains w where "builtin s j p w" "js_buffer E jb j w" "bw_length w = n"
  using assms by (fastforce simp: buffers_ok_def)

text \<open>Rewriting a block at its length keeps the wrappers well formed.\<close>

lemma rewritten_block:
  assumes "buf_wf w" "length cs = bw_length w"
  defines "w' \<equiv> w\<lparr>bw_buffer := (if bw_buffer w = None then None else Some cs)\<rparr>"
  shows "bytes w' = cs \<and> buf_wf w' \<and> bw_length w' = bw_length w \<and> bw_builtin w' = bw_builtin w"
  using assms by (cases "bw_buffer w") (auto simp: buf_wf_def bytes_def)

lemma js_buffer_length: "bw_length v = bw_length w \<Longrightarrow> js_buffer E jb j v = js_buffer E jb j w"
  by (simp add: js_buffer_def)

lemma rewritten_ok:
  assumes "rewritten p w cs s z" "builtin s j p w" "length cs = bw_length w" "buffers_ok E live s"
  shows "buffers_ok E live z"
  unfolding buffers_ok_def
proof (intro ballI, clarify)
  fix i q jb n
  assume "(i, q, jb, n) \<in> live"
  with assms(4) obtain v where v: "builtin s i q v" "js_buffer E jb i v" "bw_length v = n"
    by (rule buffers_okD)
  let ?w = "w\<lparr>bw_buffer := (if bw_buffer w = None then None else Some cs)\<rparr>"
  have wf: "buf_wf w" using assms(2) by (simp add: builtin_def)
  show "\<exists>w. builtin z i q w \<and> js_buffer E jb i w \<and> bw_length w = n"
  proof (cases "q = p")
    case True
    then have "v = w" using v(1) assms(2) by (simp add: builtin_def)
    then have "builtin z i q ?w" "bw_length ?w = bw_length v"
      using True assms(1) v(1) rewritten_block[OF wf assms(3)] by (auto simp: builtin_def rewritten_def)
    then show ?thesis using v js_buffer_length[of ?w v] by metis
  next
    case False
    then have "builtin z i q v"
      using assms(1) v(1) by (simp add: builtin_def rewritten_def)
    then show ?thesis using v by blast
  qed
qed

lemma untouched_ok: "untouched s z \<Longrightarrow> buffers_ok E live z = buffers_ok E live s"
  by (simp add: buffers_ok_def builtin_def untouched_def)

lemma move_bytes_length [simp]: "length (move_bytes cs i m j) = length cs"
proof (induction cs i m j rule: move_bytes.induct)
  case (1 cs i m j)
  then show ?case by (simp add: move_bytes.simps[of cs i])
qed


definition range_of :: "int \<Rightarrow> int \<Rightarrow> nat \<Rightarrow> nat" where
  "range_of b c n = max (clamp b n) (clamp c n)"

lemma range_of_le [simp]: "range_of b c n \<le> n"
  by (simp add: range_of_def)

lemma copied_length:
  assumes "i \<le> m" "m \<le> length xs" "d \<le> length ds"
  shows "length (overlay ds d (take (length ds - d) (drop i (take m xs)))) = length ds"
  using assms by (intro overlay_length) simp

lemma write_fits: "clamp a n + clamp b (n - clamp a n) \<le> n"
proof -
  have "clamp a n \<le> n" "clamp b (n - clamp a n) \<le> n - clamp a n" by (rule clamp_le)+
  then show ?thesis by linarith
qed

lemma buffer_body_wp:
  fixes s :: "('c, 'z) bst_scheme"
  assumes E: "native_law E" and ok: "buffers_ok E live s" and t: "(t, q, jb, n) \<in> live"
    and args: "buffer_args live op args"
  shows "wp (buffer_body E op) (\<lambda>_ z. (\<exists>r. body_ends t args (False, r) s z) \<and> buffers_ok E live z)
    (handler_entry t args s)"
proof -
  obtain v where v: "builtin s t q v" "js_buffer E jb t v" "bw_length v = n"
    using buffers_okD[OF ok t] .
  have vwf: "length (bytes v) = bw_length v" using v(1) by (simp add: builtin_def buf_wf_def)
  show ?thesis
    using args
  proof (cases rule: buffer_args_cases)
    case (Compare j p jb' n')
    obtain w where w: "builtin s j p w" "js_buffer E jb' j w"
      using buffers_okD[OF ok Compare(2)] by blast
    show ?thesis
      unfolding buffer_body_def Compare(1) buffer_op.case
      by (rule wp_mono[OF compare_handler_wp[OF E v(1) w Compare(3)]])
        (use untouched_ok[of s _ E live] ok in auto)
  next
    case (Copy j p jb' n' a b c)
    obtain w where w: "builtin s j p w" "js_buffer E jb' j w"
      using buffers_okD[OF ok Copy(2)] by blast
    have wwf: "length (bytes w) = bw_length w" using w(1) by (simp add: builtin_def buf_wf_def)
    show ?thesis
    proof (cases "p = q")
      case False
      have l: "length (overlay (bytes w) (clamp a (bw_length w)) (take (bw_length w - clamp a (bw_length w))
          (drop (clamp b (bw_length v)) (take (range_of b c (bw_length v)) (bytes v))))) = bw_length w"
        using copied_length[of "clamp b (bw_length v)" "range_of b c (bw_length v)" "bytes v"
            "clamp a (bw_length w)" "bytes w"] vwf wwf by (simp add: range_of_def)
      show ?thesis
        unfolding buffer_body_def Copy(1) buffer_op.case
        by (rule wp_mono[OF copy_handler_wp[OF E v(1,2) w False Copy(6,3-5)]])
          (use rewritten_ok[OF _ w(1) l ok] in \<open>auto simp: range_of_def\<close>)
    next
      case True
      then have eq: "j = t" "w = v" "jb' = jb'"
        using w(1) v(1) by (auto simp: builtin_def)
      have "js_buffer E jb' t v" using w(2) eq by simp
      note same = copy_handler_same_wp[OF E v(1) this]
      show ?thesis
        unfolding buffer_body_def Copy(1) buffer_op.case
        by (rule wp_mono[OF same[OF Copy(6,3-5)]])
          (use rewritten_ok[OF _ v(1) _ ok] vwf in auto)
    qed
  next
    case (Write tx a b)
    have l: "length (overlay (bytes v) (clamp a (bw_length v))
       (take (clamp (int (clamp b (bw_length v - clamp a (bw_length v)))) (length tx)) tx)) = bw_length v"
      using vwf write_fits[of a "bw_length v" b] by (subst overlay_length) (auto simp: clamp_int min_def)
    show ?thesis
      unfolding buffer_body_def Write(1) buffer_op.case
      by (rule wp_mono[OF write_handler_wp[OF E v(1,2) Write(5,3,4,2)]])
        (use rewritten_ok[OF _ v(1) l ok] in auto)
  next
    case (ToString a b)
    show ?thesis
      unfolding buffer_body_def ToString(1) buffer_op.case
      by (rule wp_mono[OF tostring_wp[OF E v(1,2) ToString(4,2,3)]])
        (use untouched_ok[of s _ E live] ok in auto)
  qed
qed


text \<open>Each handler keeps the contract of a native handler; it keeps no references or blocks.\<close>

definition buffer_call :: "'c engine \<Rightarrow> live_buffers \<Rightarrow> buffer_op \<Rightarrow> jval \<Rightarrow> jval list \<Rightarrow> bool" where
  "buffer_call E live op t args \<longleftrightarrow> (\<exists>q jb n. (t, q, jb, n) \<in> live) \<and> buffer_args live op args"

lemma buffer_call_intros:
  "(t, q, jb, n) \<in> live \<Longrightarrow> (j, p, jd, k) \<in> live \<Longrightarrow> in_int32 a \<Longrightarrow> in_int32 b \<Longrightarrow> in_int32 c \<Longrightarrow>
   buffer_call E live OpCopy t [jd, JNumber (num a), JNumber (num b), JNumber (num c)]"
  "(t, q, jb, n) \<in> live \<Longrightarrow> (j, p, jd, k) \<in> live \<Longrightarrow> buffer_call E live OpCompare t [jd]"
  unfolding buffer_call_def buffer_args_def buffer_op.case by blast+

interpretation buffer_handler:
  native_handler "buffer_body E op" "\<lambda>s. native_law E \<and> buffers_ok E live s" "\<lambda>_ _. 0" "\<lambda>_. 0"
    "\<lambda>t args _. buffer_call E live op t args" for E :: "'c engine" and op live
proof unfold_locales
  fix s :: "('c, 'z) bst_scheme" and t args
  assume "native_law E \<and> buffers_ok E live s" "buffer_call E live op t args"
  then obtain q jb n where E: "native_law E" and ok: "buffers_ok E live s"
    and t: "(t, q, jb, n) \<in> live" and args: "buffer_args live op args"
    by (auto simp: buffer_call_def)
  show "wp (buffer_body E op) (\<lambda>_ u. (native_law E \<and> buffers_ok E live u) \<and> h_argv u = args \<and>
      (\<forall>v. frame_refs u v - 0 = owned (trace s) v - 0) \<and>
      blocks u - 0 = blocks (handler_entry t args s) - 0) (handler_entry t args s)"
    by (rule wp_mono[OF buffer_body_wp[OF E ok t args]]) (auto simp: body_ends_def E)
qed (auto simp: buffers_ok_def builtin_def native_of_append)

definition buffer_session ::
  "'c engine \<Rightarrow> (buffer_op \<times> jval \<times> jval list) list \<Rightarrow> (('c, 'z) bst_scheme, unit) prog" where
  "buffer_session E cs = for_each cs (\<lambda>(op, c). native_handler.serve (buffer_body E op) c)"

lemma buffer_session_wp:
  fixes s :: "('c, 'z) bst_scheme"
  assumes "native_law E" "buffers_ok E live s"
    and "\<And>op t args. (op, t, args) \<in> set cs \<Longrightarrow> buffer_call E live op t args"
  shows "wp (buffer_session E cs) (\<lambda>_ u. buffers_ok E live u \<and>
    (\<forall>v. owned (trace u) v = owned (trace s) v) \<and> blocks u = blocks s) s"
  using assms(2,3)
proof (induction cs arbitrary: s)
  case Nil
  then show ?case by (simp add: buffer_session_def wp_simps)
next
  case (Cons c cs)
  obtain op t args where c: "c = (op, t, args)" by (cases c)
  have call: "buffer_call E live op t args" using Cons.prems(2) c by simp
  have "wp (native_handler.serve (buffer_body E op) (t, args))
      (\<lambda>_. wp (buffer_session E cs) (\<lambda>_ u. buffers_ok E live u \<and>
        (\<forall>v. owned (trace u) v = owned (trace s) v) \<and> blocks u = blocks s)) s"
  proof (rule wp_mono[OF buffer_handler.serve_law[of E live s op t args]])
    show "native_law E \<and> buffers_ok E live s" using assms(1) Cons.prems(1) by blast
    show "buffer_call E live op t args" by (rule call)
  next
    fix x and u :: "('c, 'z) bst_scheme"
    assume u: "(native_law E \<and> buffers_ok E live u) \<and>
      (\<forall>v. owned (trace u) v - 0 = owned (trace s) v - 0) \<and> blocks u - 0 = blocks s - 0"
    have "wp (buffer_session E cs) (\<lambda>_ w. buffers_ok E live w \<and>
        (\<forall>v. owned (trace w) v = owned (trace u) v) \<and> blocks w = blocks u) u"
      using u Cons.prems(2) by (intro Cons.IH) auto
    then show "wp (buffer_session E cs) (\<lambda>_ w. buffers_ok E live w \<and>
        (\<forall>v. owned (trace w) v = owned (trace s) v) \<and> blocks w = blocks s) u"
      using u by simp
  qed
  then show ?case by (simp add: c buffer_session_def wp_simps)
qed


text \<open>One byte further is the worst overlap: the first byte fills the range.\<close>

lemma move_bytes_replicates:
  "Suc i \<le> m \<Longrightarrow> m < length cs \<Longrightarrow>
   move_bytes cs i m (Suc i) = overlay cs (Suc i) (replicate (m - i) (cs ! i))"
proof (induction "m - i" arbitrary: i cs)
  case (Suc n)
  show ?case
  proof (cases "Suc i = m")
    case True
    have "move_bytes cs i m (Suc i) = overlay (cs[Suc i := cs ! i]) (Suc (Suc i)) []"
      using Suc.prems True by (simp add: move_bytes.simps[of cs i] move_bytes.simps[of _ m])
    also have "\<dots> = overlay cs (Suc i) (replicate (m - i) (cs ! i))"
      unfolding overlay_step[of "Suc i" cs "cs ! i" "[]", OF le_less_trans[OF Suc.prems]]
      using True by (simp flip: True)
    finally show ?thesis .
  next
    case False
    let ?cs = "cs[Suc i := cs ! i]"
    have "move_bytes ?cs (Suc i) m (Suc (Suc i)) =
        overlay ?cs (Suc (Suc i)) (replicate (m - Suc i) (?cs ! Suc i))"
      using Suc.prems Suc.hyps(2) False by (intro Suc.hyps(1)) simp_all
    then show ?thesis using Suc.prems Suc.hyps(2)
      by (simp add: move_bytes.simps[of cs i] overlay_step Suc_diff_Suc[symmetric])
  qed
qed simp

lemma char_values_total:
  "xs \<noteq> ys \<Longrightarrow> \<not> ord_class.lexordp (map char_value xs) (map char_value ys) \<Longrightarrow>
   ord_class.lexordp (map char_value ys) (map char_value xs)"
  using lexordp_linear[of "map char_value xs" "map char_value ys"]
    inj_map_eq_map[of char_value xs ys] by (auto simp: inj_def)

section \<open>Properties\<close>

text \<open>Two buffers, of three bytes and of two, for the concrete instances.\<close>

definition buffer_engine :: "call engine" where
  "buffer_engine = wraps_engine\<lparr>e_prop := \<lambda>_ j n. (False,
     if n = ''_builtin'' then (if j = JObject 2 then JObject 1 else JObject 3)
     else if n = ''_buffer'' then (if j = JObject 1 then JObject 2 else JObject 4)
     else JNumber (num (if j = JObject 2 then 3 else 2)))\<rparr>"

definition wrap_abc :: iotjs_bufferwrap_t where
  "wrap_abc = \<lparr>bw_builtin = JObject 1, bw_buffer = Some ''abc'', bw_length = 3\<rparr>"

definition wrap_xy :: iotjs_bufferwrap_t where
  "wrap_xy = \<lparr>bw_builtin = JObject 3, bw_buffer = Some ''xy'', bw_length = 2\<rparr>"

definition sample_buffers :: "call bst" where
  "sample_buffers = \<lparr>trace = [ESetNative (JObject 1) 1, ESetNative (JObject 3) 2], blocks = 4,
     h_this = JNull, h_argv = [], h_ret = (False, JNull), h_finished = False,
     jmodule = \<lambda>_. JObject 0, env = fresh_environment, env_initialized = True,
     handles = Map.empty, reqs = Map.empty, next_ptr = 3, bufs = [1 \<mapsto> wrap_abc, 2 \<mapsto> wrap_xy]\<rparr>"

lemma sample_buffers_ok:
  "native_law buffer_engine"
  "builtin sample_buffers (JObject 1) 1 wrap_abc" "js_buffer buffer_engine (JObject 2) (JObject 1) wrap_abc"
  "builtin sample_buffers (JObject 3) 2 wrap_xy" "js_buffer buffer_engine (JObject 4) (JObject 3) wrap_xy"
  by (simp_all add: native_law_def buffer_engine_def wraps_engine_def builtin_def sample_buffers_def
      native_of_def buf_wf_def js_buffer_def wrap_abc_def wrap_xy_def bytes_def)

abbreviation sample_live :: live_buffers where
  "sample_live \<equiv> {(JObject 1, 1, JObject 2, 3), (JObject 3, 2, JObject 4, 2)}"

lemma sample_live_ok: "buffers_ok buffer_engine sample_live sample_buffers"
proof -
  have "bw_length wrap_abc = 3" "bw_length wrap_xy = 2" by (simp_all add: wrap_abc_def wrap_xy_def)
  then show ?thesis using sample_buffers_ok by (auto simp: buffers_ok_def)
qed



text \<open>C14. \<^verbatim>\<open>source.copy (target, targetStart, sourceStart, sourceEnd)\<close> on two buffers: with every bound
  clamped to its buffer, the bytes of the source range that fit go to the target, which is
  otherwise unchanged, the number of copied bytes is returned, and nothing else changes.\<close>

theorem buffer_copy_correct:
  assumes "native_law E" "builtin s j q v" "js_buffer E jb j v" "builtin s jd p w" "js_buffer E jbd jd w"
    and "p \<noteq> q" "in_int32 a" "in_int32 b" "in_int32 c"
  defines "d \<equiv> clamp a (bw_length w)" and "i \<equiv> clamp b (bw_length v)"
  defines "m \<equiv> max i (clamp c (bw_length v))"
  shows "\<exists>z w'. JHANDLER_FUNCTION (Copy E) j [jbd, JNumber (num a), JNumber (num b), JNumber (num c)] s =
      Inr ((False, JNumber (num (int (min (m - i) (bw_length w - d))))), z) \<and>
    bufs z = (bufs s)(p \<mapsto> w') \<and> builtin z jd p w' \<and> bw_length w' = bw_length w \<and>
    bytes w' = overlay (bytes w) d (take (bw_length w - d) (drop i (take m (bytes v)))) \<and>
    blocks z = blocks s"
proof -
  let ?cs = "overlay (bytes w) d (take (bw_length w - d) (drop i (take m (bytes v))))"
  let ?w = "w\<lparr>bw_buffer := (if bw_buffer w = None then None else Some ?cs)\<rparr>"
  have wf: "buf_wf w" "buf_wf v" using assms by (simp_all add: builtin_def)
  then have l: "length ?cs = bw_length w"
    using copied_length[of i m "bytes v" d "bytes w"] by (simp add: buf_wf_def m_def i_def d_def)
  obtain z where "JHANDLER_FUNCTION (Copy E) j [jbd, JNumber (num a), JNumber (num b), JNumber (num c)] s =
      Inr ((False, JNumber (num (int (copied i m (bw_length w - d))))), z)"
    and z: "blocks z = blocks s" "rewritten p w ?cs s z"
    using handler_call[OF copy_handler_wp[OF assms(1-6) HOL.refl assms(7-9), folded d_def i_def, folded m_def]
        rewritten_blocks] by auto
  moreover have "builtin z jd p ?w"
    using z(2) assms(4) rewritten_block[OF wf(1) l] by (simp add: builtin_def rewritten_def)
  ultimately show ?thesis
    using z rewritten_block[OF wf(1) l]
    by (intro exI[of _ z] exI[of _ ?w]) (simp add: rewritten_def copied_def)
qed

theorem buffer_copy_correct_witness:
  "\<exists>z w'. JHANDLER_FUNCTION (Copy buffer_engine) (JObject 1)
      [JObject 4, JNumber (num 1), JNumber (num (-1)), JNumber (num 9)] sample_buffers =
        Inr ((False, JNumber (num 1)), z) \<and> bufs z 2 = Some w' \<and> bytes w' = ''xa''"
  using buffer_copy_correct[OF sample_buffers_ok, of 1 "-1" 9]
  by (auto simp: in_int32_def clamp_def wrap_abc_def wrap_xy_def bytes_def overlay_def)


text \<open>Copying within one buffer: moved towards the start the bytes arrive as they were, moved
  towards the end over its own source the forward loop reads bytes it has already written.\<close>

theorem buffer_copy_within:
  assumes "native_law E" "builtin s j q v" "js_buffer E jb j v" "in_int32 a" "in_int32 b" "in_int32 c"
  defines "d \<equiv> clamp a (bw_length v)" and "i \<equiv> clamp b (bw_length v)"
  defines "m \<equiv> max i (clamp c (bw_length v))"
  shows "\<exists>z v'. JHANDLER_FUNCTION (Copy E) j [jb, JNumber (num a), JNumber (num b), JNumber (num c)] s =
      Inr ((False, JNumber (num (int (min (m - i) (bw_length v - d))))), z) \<and>
    builtin z j q v' \<and> bytes v' = move_bytes (bytes v) i m d \<and>
    (d \<le> i \<longrightarrow> bytes v' = overlay (bytes v) d (drop i (take m (bytes v)))) \<and>
    (d = Suc i \<and> d \<le> m \<and> m < bw_length v \<longrightarrow> bytes v' =
       overlay (bytes v) d (replicate (m - i) (bytes v ! i)))"
proof -
  let ?cs = "move_bytes (bytes v) i m d"
  let ?v = "v\<lparr>bw_buffer := (if bw_buffer v = None then None else Some ?cs)\<rparr>"
  have wf: "buf_wf v" using assms by (simp add: builtin_def)
  then have l: "length ?cs = bw_length v" and n: "length (bytes v) = bw_length v"
    by (simp_all add: buf_wf_def)
  have m: "m \<le> bw_length v" by (simp add: m_def i_def)
  obtain z where c: "JHANDLER_FUNCTION (Copy E) j [jb, JNumber (num a), JNumber (num b), JNumber (num c)] s =
      Inr ((False, JNumber (num (int (copied i m (bw_length v - d))))), z)"
    and z: "rewritten q v ?cs s z"
    using handler_call[OF copy_handler_same_wp[OF assms(1-3) HOL.refl assms(4-6), folded d_def i_def,
        folded m_def] rewritten_blocks] by auto
  have b: "builtin z j q ?v" "bytes ?v = ?cs"
    using z assms(2) rewritten_block[OF wf l] by (simp_all add: builtin_def rewritten_def)
  then show ?thesis
    using c move_bytes_forward[of d i m "bytes v"] move_bytes_replicates[of i m "bytes v"] m n
    by (intro exI[of _ z] exI[of _ ?v]) (simp add: copied_def)
qed

theorem buffer_copy_within_witness:
  "\<exists>z v'. JHANDLER_FUNCTION (Copy buffer_engine) (JObject 1)
      [JObject 2, JNumber (num 1), JNumber (num 0), JNumber (num 2)] sample_buffers =
        Inr ((False, JNumber (num 2)), z) \<and> builtin z (JObject 1) 1 v' \<and> bytes v' = ''aaa''"
  using buffer_copy_within[OF sample_buffers_ok(1-3), of 1 0 2]
  by (auto simp: in_int32_def clamp_def wrap_abc_def bytes_def overlay_def numeral_2_eq_2 move_bytes.simps)



text \<open>C30. \<^verbatim>\<open>compare\<close> returns the lexicographic order of the two contents, with bytes read as signed
  numbers, and changes nothing.\<close>

theorem buffer_compare_correct:
  assumes "native_law E" "builtin s j q v" "builtin s jd p w" "js_buffer E jbd jd w"
  shows "\<exists>z r. JHANDLER_FUNCTION (Compare E) j [jbd] s = Inr ((False, JNumber (num r)), z) \<and>
    (r = 0 \<longleftrightarrow> bytes v = bytes w) \<and>
    (r = -1 \<longleftrightarrow> ord_class.lexordp (map char_value (bytes v)) (map char_value (bytes w))) \<and>
    (r = 1 \<longleftrightarrow> ord_class.lexordp (map char_value (bytes w)) (map char_value (bytes v))) \<and>
    untouched s z \<and> blocks z = blocks s"
proof -
  obtain z where "JHANDLER_FUNCTION (Compare E) j [jbd] s =
      Inr ((False, JNumber (num (byte_order (bytes v) (bytes w)))), z)" "untouched s z" "blocks z = blocks s"
    using handler_call[OF compare_handler_wp[OF assms HOL.refl] untouched_blocks] by auto
  then show ?thesis
    by (intro exI[of _ z] exI[of _ "byte_order (bytes v) (bytes w)"])
      (auto simp: byte_order_def dest: lexordp_antisym intro: char_values_total)
qed

theorem buffer_compare_correct_witness:
  "\<exists>z. JHANDLER_FUNCTION (Compare buffer_engine) (JObject 3) [JObject 2] sample_buffers =
    Inr ((False, JNumber (num 1)), z)"
  using buffer_compare_correct[OF sample_buffers_ok(1,4,2,3)]
  by (auto simp: wrap_abc_def wrap_xy_def bytes_def char_value_def)

end
