(* ===== verification/Iot_Serve.thy ===== *)
theory Iot_Serve
  imports Iot_Buffer
begin

text \<open>
  Rules that the network modules share. A handler starts in \<open>handler_entry\<close> with its socket open
  and ends in a state that \<open>served\<close> describes: the wrappers are well formed, the references and
  blocks are those of the wrappers plus what there was before, and the result is the one given.
  \<open>net_inv\<close> is the invariant between two handlers or callbacks.
\<close>

text \<open>The C string that a \<^verbatim>\<open>const char*\<close> to the bytes of a string stands for.\<close>

definition string_text :: "iotjs_string_t \<Rightarrow> string" where
  "string_text str = takeWhile (\<lambda>c. c \<noteq> NUL) (map the (iotjs_string_data str))"

abbreviation to_unsigned :: "double \<Rightarrow> ('s, int) prog" where
  "to_unsigned \<equiv> double_to_int 0 (2 ^ 32)"

lemma string_text_contents:
  assumes "string_wf str" "NUL \<notin> set (contents str)"
  shows "string_text str = contents str"
proof (cases "str_data str")
  case None
  then show ?thesis
    by (simp add: string_text_def iotjs_string_data_def iotjs_empty_string_def contents_def)
next
  case (Some b)
  let ?n = "unat (str_size str)"
  have b: "?n < length b" "map the (take ?n b) = contents str"
    using assms(1) Some by (simp_all add: string_wf_def contents_def word_le_nat_alt)
  have "b ! ?n = Some NUL" using assms(1) Some by (auto simp: string_wf_def)
  then have "map the b = contents str @ NUL # map the (drop (Suc ?n) b)"
    using b(2) arg_cong[OF id_take_nth_drop[OF b(1)], of "map the"] by simp
  moreover have "takeWhile (\<lambda>c. c \<noteq> NUL) (contents str @ NUL # cs) = contents str" for cs
    using assms(2) by (subst takeWhile_append2) auto
  ultimately show ?thesis
    using Some by (simp add: string_text_def iotjs_string_data_def)
qed

definition net_inv :: "'c engine \<Rightarrow> ('c, 'z) wrt_scheme \<Rightarrow> bool" where
  "net_inv E s \<longleftrightarrow> native_law E \<and> wraps_wf s \<and> process_module E s"

definition served ::
  "jval \<Rightarrow> jval list \<Rightarrow> bool \<times> jval \<Rightarrow> ('c, 'z) wrt_scheme \<Rightarrow> ('c, 'z) wrt_scheme \<Rightarrow> bool" where
  "served t args r s u \<longleftrightarrow> wraps_wf u \<and> keeps (handler_entry t args s) u \<and> h_ret u = r \<and>
     native_of (trace u) = native_of (trace s) \<and> wrt.more u = wrt.more s \<and> env u = env s \<and>
     env_initialized u = env_initialized s"

text \<open>The state in which a part of a body runs, when only calls have been made since \<open>e\<close>.\<close>

lemma entry_wf [simp]: "wraps_wf (handler_entry t args s) = wraps_wf s"
  by (simp add: wraps_wf_def native_of_append)

lemma entry_open [simp]: "open_handle (handler_entry t args s) p j = open_handle s p j"
  by (simp add: open_handle_def)

lemma quiet_open: "quiet s t \<Longrightarrow> open_handle t p j = open_handle s p j"
  by (simp add: open_handle_def quiet_fields)

lemma same_handles: "handles t = handles s \<Longrightarrow> open_handle t q k = open_handle s q k"
  by (simp add: open_handle_def)

lemma charge_fields [simp]:
  "env_initialized (charge k s) = env_initialized s"
  "handles (charge k s) = handles s" "reqs (charge k s) = reqs s" "h_this (charge k s) = h_this s"
  "h_argv (charge k s) = h_argv s" "h_ret (charge k s) = h_ret s" "next_ptr (charge k s) = next_ptr s"
  "h_finished (charge k s) = h_finished s" "jmodule (charge k s) = jmodule s"
  "env (charge k s) = env s" "wrt.more (charge k s) = wrt.more s"
  by (simp_all add: charge_def)

lemma charge_wf [simp]: "wraps_wf (charge k s) = wraps_wf s"
  by (simp add: wraps_wf_def)

lemma charge_open [simp]: "open_handle (charge k s) p j = open_handle s p j"
  by (simp add: open_handle_def)

lemma charge_counts [simp]:
  "spare (charge k s) = spare s" "heap_wraps (charge k s) = heap_wraps s"
  by (simp_all add: spare_def kept_wraps_def heap_wraps_def fun_eq_iff)

lemma keeps_charge: "keeps (charge k s) t \<Longrightarrow> keeps s (charge (- k) t)"
  by (simp add: keeps_def)

lemma wp_string_destroy: "wp (iotjs_string_destroy str) Q s = Q () (charge (- held str) s)"
  using destroy_wp[of str s] by (auto simp: wp_runs)

text \<open>Reading a string argument charges the heap with its block.\<close>

lemma string_bnd:
  assumes "i < length (h_argv s)" "h_argv s ! i = JString tx" "length tx < 2 ^ 32 - 1"
    and "\<And>str. string_wf str \<Longrightarrow> contents str = tx \<Longrightarrow> wp (f str) Q (charge (held str) s)"
  shows "wp (bnd (JHANDLER_GET_ARG i iotjs_jval_as_string) f) Q s"
  unfolding wp_bnd wp_JHANDLER_GET_ARG assms(2)
  using assms(1) wp_mono[OF jval_as_string_wp[OF assms(3), of s], of "\<lambda>x. wp (f x) Q"] assms(4) by auto

text \<open>Returning a number at the end of a body.\<close>

lemma return_keeps:
  assumes "\<not> h_finished u" "wraps_wf u"
  shows "wp (iotjs_jhandler_return_number d) (\<lambda>_ z. wraps_wf z \<and> keeps u z \<and> h_ret z = (False, JNumber d) \<and>
    reqs z = reqs u \<and> handles z = handles u \<and> native_of (trace z) = native_of (trace u) \<and>
    wrt.more z = wrt.more u \<and> env z = env u \<and> env_initialized z = env_initialized u \<and>
    (\<exists>tr. trace z = trace u @ tr)) u"
  using assms
  by (auto simp: wp_simps wraps_wf_def native_of_append keeps_def spare_def frame_refs_def
      kept_wraps_def heap_wraps_def fun_eq_iff)

lemma served_number:
  assumes q: "quiet (handler_entry t args s) e" and u: "steps (charge k e) u" "wraps_wf u"
  shows "wp (iotjs_jhandler_return_number d) (\<lambda>_ z. served t args (False, JNumber d) s (charge (- k) z) \<and>
    reqs z = reqs u \<and> handles z = handles u \<and> (\<exists>tr. trace z = trace u @ tr)) u"
proof -
  note f = steps_fields[OF u(1)] quiet_fields[OF q] steps_fields(3)[OF quiet_steps[OF q]]
  have n: "native_of (trace u) = native_of (trace s)"
    using f(8) quiet_fields(9)[OF q] by (simp add: fun_eq_iff native_of_append)
  have m: "wrt.more u = wrt.more s"
    using u(1) q by (cases s) (auto simp: steps_def quiet_def handler_entry_def)
  have "keeps (handler_entry t args s) (charge (- k) z)" if "keeps u z" for z
    using keeps_trans[OF quiet_keeps[OF q] keeps_charge[OF keeps_trans[OF steps_keeps[OF u(1)] that]]] .
  then show ?thesis
    using f n m u(2) by (intro wp_mono[OF return_keeps]) (auto simp: served_def)
qed

lemma served_number_0:
  assumes "quiet (handler_entry t args s) e" "steps e u" "wraps_wf u"
  shows "wp (iotjs_jhandler_return_number d) (\<lambda>_ z. served t args (False, JNumber d) s z \<and>
    reqs z = reqs u \<and> handles z = handles u \<and> (\<exists>tr. trace z = trace u @ tr)) u"
  using served_number[of t args s e 0 u d] assms by simp

lemma sys_bnd:
  "quiet s0 s \<Longrightarrow> (\<And>r t. quiet s0 t \<Longrightarrow> trace t = trace s @ [ESys c r] \<Longrightarrow> wp (f r) Q t) \<Longrightarrow>
   wp (bnd (sys E c) f) Q s"
  unfolding wp_bnd wp_sys by (drule quiet_trans[OF _ sys_quiet[of s c "e_sys E (trace s) c"]]) simp

lemma quiet_pure:
  "quiet s0 s \<Longrightarrow> wp m (\<lambda>r t. r = x \<and> t = s) s \<Longrightarrow> wp (f x) Q s \<Longrightarrow> wp (bnd m f) Q s"
  unfolding wp_bnd by (erule wp_mono) simp

lemma args_entry:
  "quiet (handler_entry t args s) u \<Longrightarrow> h_argv u = args" "quiet (handler_entry t args s) u \<Longrightarrow> h_this u = t"
  by (simp_all add: quiet_frame)

section \<open>Submitting a request and returning its code\<close>

text \<open>
  \<open>submitted\<close>: the code \<open>err\<close> of the submission has been returned; on success exactly one request
  is new and holds the callback, otherwise none; \<open>I\<close> tells what was submitted.
\<close>

definition submitted ::
  "jval \<Rightarrow> jval list \<Rightarrow> (('c, 'z) wrt_scheme) \<Rightarrow> jval \<Rightarrow> (nat \<Rightarrow> int \<Rightarrow> 'c ev list \<Rightarrow> bool) \<Rightarrow> int \<Rightarrow>
   ('c, 'z) wrt_scheme \<Rightarrow> bool" where
  "submitted t args s cb I err u \<longleftrightarrow> served t args (False, JNumber (num err)) s u \<and>
     handles u = handles s \<and>
     (\<exists>p pre post. next_ptr s = p \<and> reqs s p = None \<and> reqs u = (if err = 0 then (reqs s)(p \<mapsto> cb) else reqs s) \<and>
        trace u = pre @ post \<and> I p err pre)"

lemma bnd_sq: "bnd (sq m n) f = sq m (bnd n f)"
  by (simp add: sq_def bnd_assoc)

lemma sq_ret: "sq m (ret ()) = m"
  by (rule ext) (simp add: sq_def bnd_def ret_def split: sum.splits prod.splits)

text \<open>A submission that already failed in an earlier call.\<close>

definition refused ::
  "jval \<Rightarrow> jval list \<Rightarrow> (('c, 'z) wrt_scheme) \<Rightarrow> int \<Rightarrow> ('c, 'z) wrt_scheme \<Rightarrow> bool" where
  "refused t args s err u \<longleftrightarrow> err \<noteq> 0 \<and> served t args (False, JNumber (num err)) s u \<and>
     handles u = handles s \<and> reqs u = reqs s"

context request_wrapper
begin

lemma submit_return:
  assumes q: "quiet (handler_entry t args s) e" "quiet (charge k e) u" and s: "wraps_wf s" "is_function cb"
    and issue: "\<And>p v. next_ptr s = p \<Longrightarrow> wraps_wf v \<Longrightarrow> steps u v \<Longrightarrow> reqs v = (reqs s)(p \<mapsto> cb) \<Longrightarrow> handles v = handles s \<Longrightarrow>
      wp (issue p) (\<lambda>err w. quiet v w \<and> I p err (trace w)) v"
    and fin: "\<And>err z. submitted t args s cb I err (charge (- k) z) \<Longrightarrow> wp fin Q z"
  shows "wp (bnd (create cb) (\<lambda>p. bnd (issue p) (\<lambda>err. sq (if err \<noteq> 0 then dispatched p else ret ())
      (sq (iotjs_jhandler_return_number (num err)) fin)))) Q u"
proof (rule submit[where I = I])
  have f: "reqs u = reqs s" "handles u = handles s" "next_ptr u = next_ptr s"
    using quiet_fields[OF q(1)] quiet_fields[OF q(2)] by simp_all
  show wf: "wraps_wf u" using s(1) quiet_wf[OF q(1)] quiet_wf[OF q(2)] by simp
  show "is_function cb" by (rule s(2))
  fix p and v :: "('c, 'z) wrt_scheme"
  assume "next_ptr u = p" "wraps_wf v" "steps u v" "reqs v = (reqs u)(p \<mapsto> cb)" "handles v = handles u"
  then show "wp (issue p) (\<lambda>err w. quiet v w \<and> I p err (trace w)) v"
    by (intro issue) (simp_all add: f)
next
  have f: "reqs u = reqs s" "handles u = handles s" "next_ptr u = next_ptr s"
    using quiet_fields[OF q(1)] quiet_fields[OF q(2)] by simp_all
  fix err p pre post and v :: "('c, 'z) wrt_scheme"
  assume v: "wraps_wf v" "steps u v" "handles v = handles u" "next_ptr u = p" "reqs u p = None"
    "reqs v = (if err = 0 then (reqs u)(p \<mapsto> cb) else reqs u)" "trace v = pre @ post" "I p err pre"
  show "wp (sq (iotjs_jhandler_return_number (num err)) fin) Q v"
    unfolding wp_sq
    by (rule wp_mono[OF served_number[OF q(1) steps_trans[OF quiet_steps[OF q(2)] v(2)] v(1)]], rule fin[of err])
      (use v f in \<open>auto simp: submitted_def\<close>)
qed

lemma submit_return_0:
  assumes q: "quiet (handler_entry t args s) u" and s: "wraps_wf s" "is_function cb"
    and issue: "\<And>p v. next_ptr s = p \<Longrightarrow> wraps_wf v \<Longrightarrow> steps u v \<Longrightarrow> reqs v = (reqs s)(p \<mapsto> cb) \<Longrightarrow> handles v = handles s \<Longrightarrow>
      wp (issue p) (\<lambda>err w. quiet v w \<and> I p err (trace w)) v"
  shows "wp (bnd (create cb) (\<lambda>p. bnd (issue p) (\<lambda>err. sq (if err \<noteq> 0 then dispatched p else ret ())
      (iotjs_jhandler_return_number (num err))))) (\<lambda>_ z. \<exists>err. submitted t args s cb I err z) u"
proof -
  let ?Q = "\<lambda>_ z. \<exists>err. submitted t args s cb I err z"
  have "wp (bnd (create cb) (\<lambda>p. bnd (issue p) (\<lambda>err. sq (if err \<noteq> 0 then dispatched p else ret ())
      (sq (iotjs_jhandler_return_number (num err)) (ret ()))))) ?Q u"
  proof (rule submit_return[OF q _ s, where k = 0])
    fix p and v :: "('c, 'z) wrt_scheme"
    assume "next_ptr s = p" "wraps_wf v" "steps u v" "reqs v = (reqs s)(p \<mapsto> cb)" "handles v = handles s"
    then show "wp (issue p) (\<lambda>err w. quiet v w \<and> I p err (trace w)) v" by (rule issue)
  next
    fix err and z :: "('c, 'z) wrt_scheme"
    assume "submitted t args s cb I err (charge (- 0) z)"
    then show "wp (ret ()) ?Q z" by (simp only: wp_ret charge_0 minus_zero) blast
  qed simp
  then show ?thesis unfolding sq_ret .
qed

end

lemma refused_return:
  assumes q: "quiet (handler_entry t args s) e" "quiet (charge k e) u" and "wraps_wf s" "err \<noteq> 0"
    and fin: "\<And>z. refused t args s err (charge (- k) z) \<Longrightarrow> wp fin Q z"
  shows "wp (sq (iotjs_jhandler_return_number (num err)) fin) Q u"
  unfolding wp_sq
  by (rule wp_mono[OF served_number[OF q(1) quiet_steps[OF q(2)]]], use quiet_wf[OF q(1)] quiet_wf[OF q(2)] assms(3) in simp,
      rule fin) (use assms(4) quiet_fields(1,2)[OF q(1)] quiet_fields(1,2)[OF q(2)] in \<open>auto simp: refused_def\<close>)

section \<open>From a body to the call\<close>

definition returned :: "jval \<Rightarrow> jval list \<Rightarrow> ('c, 'z) wrt_scheme \<Rightarrow> ('c, 'z) wrt_scheme \<Rightarrow> bool" where
  "returned t args s u \<longleftrightarrow> (\<exists>err. served t args (False, JNumber (num err)) s u) \<and>
     handles u = handles s \<and> reqs u = reqs s"

lemma returned_number:
  assumes "quiet (handler_entry t args s) u" "wraps_wf s"
  shows "wp (iotjs_jhandler_return_number (num err)) (\<lambda>_. returned t args s) u"
  by (rule wp_mono[OF served_number_0[OF quiet_refl quiet_steps[OF assms(1)]]],
      use quiet_wf[OF assms(1)] assms(2) in simp)
    (use quiet_fields(1,2)[OF assms(1)] in \<open>auto simp: returned_def\<close>)

lemma served_steps:
  assumes "steps (handler_entry t args s) u" "wraps_wf u"
  shows "served t args (False, JUndefined) s u"
proof -
  note f = steps_fields[OF assms(1)]
  have "native_of (trace u) = native_of (trace s)"
    using f(8) by (simp add: fun_eq_iff native_of_append)
  moreover have "wrt.more u = wrt.more s"
    using assms(1) by (cases s) (auto simp: steps_def handler_entry_def)
  ultimately show ?thesis
    using f(2,3,5) assms by (simp add: served_def steps_keeps)
qed

text \<open>The references and blocks beyond those of the wrappers, the result of the call included.\<close>

definition accounts :: "jval \<Rightarrow> ('c, 'z) wrt_scheme \<Rightarrow> ('c, 'z) wrt_scheme \<Rightarrow> bool" where
  "accounts r s u \<longleftrightarrow> (\<forall>v. owned (trace u) v - kept_wraps u v =
       owned (trace s) v - kept_wraps s v + (if v = r then 1 else 0)) \<and>
     blocks u - heap_wraps u = blocks s - heap_wraps s"

lemma served_account:
  assumes "served t args r s u"
  shows "accounts (snd r) s (u\<lparr>blocks := blocks u - (if h_argv u = [] then 0 else 1)\<rparr>) \<and> h_ret u = r \<and>
    h_argv u = args"
proof -
  have k: "keeps (handler_entry t args s) u" "h_ret u = r" using assms by (simp_all add: served_def)
  have "kept_wraps (handler_entry t args s) = kept_wraps s" "heap_wraps (handler_entry t args s) = heap_wraps s"
    "kept_wraps (u\<lparr>blocks := b\<rparr>) = kept_wraps u" "heap_wraps (u\<lparr>blocks := b\<rparr>) = heap_wraps u" for b
    by (simp_all add: kept_wraps_def heap_wraps_def fun_eq_iff)
  moreover have "owned (trace u) v - kept_wraps u v =
      owned (trace s) v - kept_wraps s v + (if v = snd r then 1 else 0)" for v
  proof -
    have "spare u v = spare (handler_entry t args s) v" using k(1) by (simp add: keeps_def)
    then show ?thesis
      using k(2) calculation(1) by (simp add: spare_def frame_refs_def split: if_splits)
  qed
  ultimately show ?thesis using k by (auto simp: accounts_def keeps_def)
qed

lemma served_call:
  assumes "wp body (\<lambda>_ u. \<exists>r. served t args r s u \<and> P r u) (handler_entry t args s0)"
    and "\<And>r u b. P r u \<Longrightarrow> P r (u\<lparr>blocks := b\<rparr>)"
  shows "\<exists>r u. JHANDLER_FUNCTION body t args s0 = Inr (r, u) \<and> wraps_wf u \<and> accounts (snd r) s u \<and>
    native_of (trace u) = native_of (trace s) \<and> wrt.more u = wrt.more s \<and> jmodule u = jmodule s \<and> P r u"
proof -
  have "wp (JHANDLER_FUNCTION body t args) (\<lambda>r u. wraps_wf u \<and> accounts (snd r) s u \<and>
      native_of (trace u) = native_of (trace s) \<and> wrt.more u = wrt.more s \<and> jmodule u = jmodule s \<and> P r u) s0"
    unfolding wp_JHANDLER_FUNCTION
  proof (rule wp_mono[OF assms(1)], elim exE conjE)
    fix x u r
    assume u: "served t args r s u" "P r u"
    have "wraps_wf (u\<lparr>blocks := b\<rparr>) = wraps_wf u" for b by (simp add: wraps_wf_def)
    moreover have "jmodule u = jmodule s" using u(1) by (simp add: served_def keeps_def)
    ultimately show "wraps_wf (u\<lparr>blocks := blocks u - (if h_argv u = [] then 0 else 1)\<rparr>) \<and>
      accounts (snd (h_ret u)) s (u\<lparr>blocks := blocks u - (if h_argv u = [] then 0 else 1)\<rparr>) \<and>
      native_of (trace (u\<lparr>blocks := blocks u - (if h_argv u = [] then 0 else 1)\<rparr>)) = native_of (trace s) \<and>
      wrt.more (u\<lparr>blocks := blocks u - (if h_argv u = [] then 0 else 1)\<rparr>) = wrt.more s \<and>
      jmodule (u\<lparr>blocks := blocks u - (if h_argv u = [] then 0 else 1)\<rparr>) = jmodule s \<and>
      P (h_ret u) (u\<lparr>blocks := blocks u - (if h_argv u = [] then 0 else 1)\<rparr>)"
      using u assms(2) conjunct1[OF served_account[OF u(1)]] conjunct2[OF served_account[OF u(1)]]
      by (simp only: served_def rt.simps hrt.simps mrt.simps ert.simps wrt.simps) auto
  qed
  then show ?thesis by (auto simp: wp_runs)
qed

section \<open>Handlers on an open handle\<close>

lemma at_handle:
  assumes "net_inv E s" "open_handle s p t" "quiet (handler_entry t args s) u"
  shows "wp (iotjs_handlewrap_from_jobject E t) (\<lambda>r v. r = p \<and> quiet u v) u"
    and "wp (iotjs_handlewrap_get_uv_handle E p) (\<lambda>r v. r = p \<and> quiet u v) u"
  using wp_handle_access(3,4)[of u E p t] assms quiet_wf[OF assms(3)] quiet_open[OF assms(3)]
  by (simp_all add: net_inv_def)

text \<open>The submission itself: one call of libuv on the open handle.\<close>

lemma issue_at:
  assumes "native_law E" "open_handle s p t" "wraps_wf v" "handles v = handles s"
    and "\<And>tr r. I q r (tr @ [ESys (c p) r])"
  shows "wp (bnd (iotjs_handlewrap_get_uv_handle E p) (\<lambda>h. sys E (c h)))
    (\<lambda>err w. quiet v w \<and> I q err (trace w)) v"
proof -
  have "open_handle v p t" using assms(2,4) by (simp add: open_handle_def)
  then show ?thesis
    using assms(5) by (simp add: wp_bnd wp_handle_access[OF assms(3,1)] wp_sys sys_quiet)
qed

text \<open>The handlers of one libuv call: read the arguments, call, return the code.\<close>

lemma one_call_at:
  assumes "net_inv E s" "open_handle s p t" "quiet (handler_entry t args s) u"
  shows "wp (bnd (iotjs_handlewrap_get_uv_handle E p) (\<lambda>h. bnd (sys E (c h)) (\<lambda>err.
      iotjs_jhandler_return_number (num (f err))))) (\<lambda>_. returned t args s) u"
  apply (rule quiet_bnd[OF assms(3) at_handle(2)[OF assms]])
  apply (rule sys_bnd, assumption)
  apply (rule returned_number, assumption)
  using assms(1) by (simp add: net_inv_def)

context request_wrapper
begin

text \<open>Completing a request whose argument vector has been built before the callback is read.\<close>

lemma complete_built:
  assumes "wraps_wf s" "reqs s p = Some cb" "process_module E s" and a: "args_built vs a s t"
  shows "wp (bnd (jcallback p) (\<lambda>j. sq (iotjs_make_callback E j this a) (sq (iotjs_jargs_destroy a) (dispatched p))))
    (\<lambda>_ u. wraps_wf u \<and> steps s u \<and> reqs u = (reqs s)(p := None) \<and> handles u = handles s \<and>
       callback_made cb this vs s u) t"
proof -
  have f: "is_object cb" using assms(1,2) by (auto simp: wraps_wf_def)
  have t: "reqs t p = Some cb" using a assms(2) by (auto simp: args_built_def)
  have "wp (sq (iotjs_make_callback E cb this a) (iotjs_jargs_destroy a))
    (\<lambda>_. wp (dispatched p) (\<lambda>_ u. wraps_wf u \<and> steps s u \<and> reqs u = (reqs s)(p := None) \<and> handles u = handles s \<and>
       callback_made cb this vs s u)) t"
  proof (rule wp_mono[OF make_callback_args[OF a assms(3) f]])
    fix x u
    assume q: "quiet s u \<and> callback_made cb this vs s u"
    then have "wraps_wf u" "reqs u p = Some cb"
      using assms(1,2) quiet_wf[of s u] quiet_fields(2)[of s u] by simp_all
    from dispatched_law[OF this]
    show "wp (dispatched p) (\<lambda>_ u. wraps_wf u \<and> steps s u \<and> reqs u = (reqs s)(p := None) \<and>
        handles u = handles s \<and> callback_made cb this vs s u) u"
      by (rule wp_mono)
        (use q quiet_fields(1,2)[of s u] in \<open>auto intro: steps_trans[OF quiet_steps] callback_made_steps\<close>)
  qed
  then show ?thesis
    unfolding wp_bnd by (intro wp_mono[OF jcallback_law[OF t]]) (simp add: wp_sq)
qed

end

section \<open>Runs that stop\<close>

definition fails :: "fault \<Rightarrow> ('s, 'a) prog \<Rightarrow> 's \<Rightarrow> bool" where
  "fails e m s \<longleftrightarrow> m s = Inl e"

text \<open>A sequence stops when its first part does, or runs and leads to a second part that does.\<close>

lemma fails_bnd: "wp m (\<lambda>x. fails e (f x)) s \<Longrightarrow> fails e (bnd m f) s"
  by (auto simp: wp_def fails_def bnd_def split: sum.splits)

lemma fails_first: "fails e m s \<Longrightarrow> fails e (bnd m f) s"
  by (simp add: fails_def bnd_def)

lemma fails_sq: "wp m (\<lambda>_. fails e n) s \<Longrightarrow> fails e (sq m n) s"
  unfolding sq_def by (rule fails_bnd)

lemma fails_sq_first: "fails e m s \<Longrightarrow> fails e (sq m n) s"
  unfolding sq_def by (rule fails_first)

lemma fails_ASSERT: "\<not> b \<Longrightarrow> fails (Assertion l) (IOTJS_ASSERT l b) s"
  by (simp add: fails_def IOTJS_ASSERT_def fail_def)

lemma fails_handler:
  "fails e body (handler_entry t args s) \<Longrightarrow> JHANDLER_FUNCTION body t args s = Inl e"
  unfolding fails_def[symmetric] JHANDLER_FUNCTION_def
  by (rule fails_sq) (simp add: wp_jhandler_initialize fails_sq_first)

lemma checks_pass:
  "f (h_this s) \<Longrightarrow> JHANDLER_CHECK_THIS E n f m s = m s"
  "args_match fs (h_argv s) \<Longrightarrow> JHANDLER_CHECK_ARGS E n fs m s = m s"
proof -
  have get: "iotjs_jhandler_get_this s = Inr (h_this s, s)"
    "iotjs_jhandler_get_arg_length s = Inr (length (h_argv s), s)"
    by (rule wp_eqD, simp add: wp_handler_get)+
  have arg: "i < length (h_argv s) \<Longrightarrow> iotjs_jhandler_get_arg i s = Inr (h_argv s ! i, s)" for i
    by (rule wp_eqD) (simp add: wp_handler_get)
  show "f (h_this s) \<Longrightarrow> JHANDLER_CHECK_THIS E n f m s = m s"
    by (simp add: JHANDLER_CHECK_THIS_def bnd_def get JHANDLER_CHECK_def)
  have from_i: "args_match fs (drop i (h_argv s)) \<Longrightarrow> JHANDLER_CHECK_ARG_FROM E n i fs m s = m s" for i
  proof (induction fs arbitrary: i)
    case (Cons f fs)
    then have i: "i < length (h_argv s)" by (cases "i < length (h_argv s)") simp_all
    then have "drop i (h_argv s) = h_argv s ! i # drop (Suc i) (h_argv s)" by (rule Cons_nth_drop_Suc[symmetric])
    then show ?case using Cons by (simp add: bnd_def arg[OF i] JHANDLER_CHECK_def)
  qed simp
  show "args_match fs (h_argv s) \<Longrightarrow> JHANDLER_CHECK_ARGS E n fs m s = m s"
    by (simp add: JHANDLER_CHECK_ARGS_def bnd_def get JHANDLER_CHECK_def args_match_length from_i)
qed

lemma fails_checks:
  "f (h_this s) \<Longrightarrow> fails e m s \<Longrightarrow> fails e (JHANDLER_CHECK_THIS E n f m) s"
  "args_match fs (h_argv s) \<Longrightarrow> fails e m s \<Longrightarrow> fails e (JHANDLER_CHECK_ARGS E n fs m) s"
  by (simp_all add: fails_def checks_pass)

section \<open>The account between two events\<close>

lemma bnd_ASSERT: "b \<Longrightarrow> sq (IOTJS_ASSERT l b) m = m"
  by (simp add: sq_def IOTJS_ASSERT_def bnd_ret_left)

definition issued :: "('q \<Rightarrow> 'c) \<Rightarrow> 'q \<Rightarrow> int \<Rightarrow> 'c ev list \<Rightarrow> bool" where
  "issued c q r tr \<longleftrightarrow> (\<exists>pre. tr = pre @ [ESys (c q) r])"

lemma issued_last: "issued c q 0 tr \<Longrightarrow> \<exists>pre. tr = pre @ [ESys (c q) 0]"
  by (simp add: issued_def)

definition balance :: "('c, 'z) wrt_scheme \<Rightarrow> ('c, 'z) wrt_scheme \<Rightarrow> bool" where
  "balance s u \<longleftrightarrow> (\<forall>v. owned (trace u) v - kept_wraps u v = owned (trace s) v - kept_wraps s v) \<and>
     blocks u - heap_wraps u = blocks s - heap_wraps s"

lemma balance_refl [simp]: "balance s s"
  by (simp add: balance_def)

lemma balance_trans: "balance s t \<Longrightarrow> balance t u \<Longrightarrow> balance s u"
  by (simp add: balance_def)

lemma steps_balance: "steps s t \<Longrightarrow> balance s t"
proof -
  assume st: "steps s t"
  have "spare t v = spare s v" for v using st by (simp add: steps_def keeps_def)
  moreover have "h_ret t = h_ret s" using st by (simp add: steps_def)
  ultimately have "owned (trace t) v - kept_wraps t v = owned (trace s) v - kept_wraps s v" for v
    by (simp add: spare_def frame_refs_def algebra_simps)
  then show ?thesis using st by (simp add: balance_def steps_def keeps_def)
qed

text \<open>The engine calls a handler and drops the value it was given.\<close>

lemma serve_eq:
  "native_handler.serve body (t, args) = bnd (JHANDLER_FUNCTION body t args) (\<lambda>(th, r). iotjs_jval_destroy r)"
proof -
  have "native_handler body (\<lambda>_. False) (\<lambda>_ _. 0) (\<lambda>_. 0) (\<lambda>_ _ _. True)"
    by unfold_locales simp_all
  from native_handler.serve_def[OF this] show ?thesis by simp
qed

lemma serve_keeps:
  assumes "wp body (\<lambda>_ u. wraps_wf u \<and> keeps (handler_entry t args s) u \<and> P u) (handler_entry t args s)"
    and P: "\<And>u b v. P u \<Longrightarrow> P (u\<lparr>blocks := b, trace := trace u @ [ERelease v]\<rparr>)"
  shows "wp (native_handler.serve body (t, args)) (\<lambda>_ w. wraps_wf w \<and> balance s w \<and> jmodule w = jmodule s \<and> P w) s"
  unfolding serve_eq wp_bnd wp_JHANDLER_FUNCTION
proof (rule wp_mono[OF assms(1)], elim conjE)
  fix x u
  assume u: "wraps_wf u" "keeps (handler_entry t args s) u" "P u"
  let ?w = "u\<lparr>blocks := blocks u - (if h_argv u = [] then 0 else 1), trace := trace u @ [ERelease (snd (h_ret u))]\<rparr>"
  have c: "kept_wraps (handler_entry t args s) = kept_wraps s" "heap_wraps (handler_entry t args s) = heap_wraps s"
    "kept_wraps ?w = kept_wraps u" "heap_wraps ?w = heap_wraps u"
    by (simp_all add: kept_wraps_def heap_wraps_def fun_eq_iff)
  have "owned (trace ?w) v - kept_wraps ?w v = owned (trace s) v - kept_wraps s v" for v
  proof -
    have "spare u v = spare (handler_entry t args s) v" using u(2) by (simp add: keeps_def)
    then show ?thesis using c by (auto simp: spare_def frame_refs_def split: if_splits)
  qed
  then have "balance s ?w" using u(2) c by (auto simp: balance_def keeps_def)
  moreover have "wraps_wf ?w" using u(1) by (simp add: wraps_wf_def native_of_append)
  moreover have "jmodule ?w = jmodule s" using u(2) by (simp add: keeps_def)
  ultimately show "wp (case h_ret u of (th, r) \<Rightarrow> iotjs_jval_destroy r)
      (\<lambda>_ w. wraps_wf w \<and> balance s w \<and> jmodule w = jmodule s \<and> P w)
      (u\<lparr>blocks := blocks u - (if h_argv u = [] then 0 else 1)\<rparr>)"
    using P[OF u(3), of "snd (h_ret u)" "blocks u - (if h_argv u = [] then 0 else 1)"]
    by (cases "h_ret u") (simp add: wp_simps)
qed

text \<open>A submission seen from the caller, and its completion.\<close>

lemma submitted_call:
  fixes s :: "(call, 'z) wrt_scheme"
  assumes "net_inv E s"
    and "wp body (\<lambda>_ u. (\<exists>err. refused t args s err u) \<or> (\<exists>err. submitted t args s cb I err u))
      (handler_entry t args s0)"
  obtains (failed) err u where "JHANDLER_FUNCTION body t args s0 = Inr ((False, JNumber (num err)), u)"
      "accounts (JNumber (num err)) s u" "err \<noteq> 0" "reqs u = reqs s"
    | (pending) u q pre post where "JHANDLER_FUNCTION body t args s0 = Inr ((False, JNumber (num 0)), u)"
      "accounts (JNumber (num 0)) s u" "net_inv E u" "wrt.more u = wrt.more s" "next_ptr s = q" "reqs s q = None" "reqs u = (reqs s)(q \<mapsto> cb)"
      "trace u = pre @ post" "I q 0 pre"
proof -
  let ?P = "\<lambda>r u. (\<exists>err. r = (False, JNumber (num err)) \<and> err \<noteq> 0 \<and> reqs u = reqs s) \<or>
    (\<exists>q pre post. r = (False, JNumber (num 0)) \<and> next_ptr s = q \<and> reqs s q = None \<and> reqs u = (reqs s)(q \<mapsto> cb) \<and>
       trace u = pre @ post \<and> I q 0 pre)"
  have "wp body (\<lambda>_ u. \<exists>r. served t args r s u \<and> ?P r u) (handler_entry t args s0)"
  proof (rule wp_mono[OF assms(2)], elim disjE exE)
    fix x u err assume "refused t args s err u"
    then have "served t args (False, JNumber (num err)) s u \<and> ?P (False, JNumber (num err)) u"
      unfolding refused_def by (intro conjI disjI1 exI[of _ err]) simp_all
    then show "\<exists>r. served t args r s u \<and> ?P r u" by blast
  next
    fix x u err assume "submitted t args s cb I err u"
    then obtain p pre post where *: "next_ptr s = p \<and> reqs s p = None" "reqs u = (if err = 0 then (reqs s)(p \<mapsto> cb) else reqs s)"
      "trace u = pre @ post" "I p err pre" "served t args (False, JNumber (num err)) s u"
      by (auto simp: submitted_def)
    have "?P (False, JNumber (num err)) u"
    proof (cases "err = 0")
      case True
      then show ?thesis using *(1-4) by (intro disjI2 exI[of _ p] exI[of _ pre] exI[of _ post]) simp
    next
      case False
      then show ?thesis using *(2) by (intro disjI1 exI[of _ err]) simp
    qed
    with *(5) show "\<exists>r. served t args r s u \<and> ?P r u" by blast
  qed
  moreover have "\<And>r u b. ?P r u \<Longrightarrow> ?P r (u\<lparr>blocks := b\<rparr>)" by simp
  ultimately have "\<exists>r u. JHANDLER_FUNCTION body t args s0 = Inr (r, u) \<and> wraps_wf u \<and> accounts (snd r) s u \<and>
    native_of (trace u) = native_of (trace s) \<and> wrt.more u = wrt.more s \<and> jmodule u = jmodule s \<and> ?P r u"
    by (rule served_call)
  then obtain r u where
    c: "JHANDLER_FUNCTION body t args s0 = Inr (r, u)" "wraps_wf u" "accounts (snd r) s u"
      "jmodule u = jmodule s" "?P r u" "wrt.more u = wrt.more s"
    by (elim exE conjE) (rule that)
  have net: "net_inv E u" using c(2,4) assms(1) by (simp add: net_inv_def)
  from c(5) show thesis
  proof (elim disjE exE conjE)
    fix err assume "r = (False, JNumber (num err))" "err \<noteq> 0" "reqs u = reqs s"
    then show thesis using c(1,3) by (intro failed[of err u]) simp_all
  next
    fix q pre post assume "r = (False, JNumber (num 0))" "next_ptr s = q" "reqs s q = None" "reqs u = (reqs s)(q \<mapsto> cb)"
      "trace u = pre @ post" "I q 0 pre"
    then show thesis using c(1,3,6) net by (intro pending[of u q pre post]) simp_all
  qed
qed

text \<open>
  \<open>outcome s cb c after vs err u\<close>: what the caller of a submission sees. With code 0 one request is new,
  \<open>c q\<close> was called, and \<open>after q x\<close> completes it; otherwise no request remains.
\<close>

definition outcome ::
  "(call, 'z) wrt_scheme \<Rightarrow> jval \<Rightarrow> (nat \<Rightarrow> call) \<Rightarrow> (nat \<Rightarrow> 'x \<Rightarrow> ((call, 'z) wrt_scheme, unit) prog) \<Rightarrow>
   ('x \<Rightarrow> jval list) \<Rightarrow> int \<Rightarrow> (call, 'z) wrt_scheme \<Rightarrow> bool" where
  "outcome s cb c after vs err u \<longleftrightarrow> accounts (JNumber (num err)) s u \<and>
     (if err \<noteq> 0 then reqs u = reqs s
      else \<exists>q. reqs s q = None \<and> reqs u = (reqs s)(q \<mapsto> cb) \<and>
        (\<exists>pre post. trace u = pre @ ESys (c q) 0 # post) \<and>
        (\<forall>x. \<exists>w. after q x u = Inr ((), w) \<and> reqs w = reqs s \<and> balance u w \<and>
           callback_made cb JUndefined (vs x) u w))"

lemma submitted_outcome_by:
  fixes s :: "(call, 'z) wrt_scheme"
  assumes "net_inv E s"
    and "wp body (\<lambda>_ u. (\<exists>err. refused t args s err u) \<or> (\<exists>err. submitted t args s cb I err u))
      (handler_entry t args s0)"
    and after: "\<And>u :: (call, 'z) wrt_scheme. \<And>q x. net_inv E u \<Longrightarrow> reqs u q = Some cb \<Longrightarrow>
      wrt.more u = wrt.more s \<Longrightarrow> next_ptr s = q \<Longrightarrow>
      wp (after q x) (\<lambda>_ w. wraps_wf w \<and> steps u w \<and> reqs w = (reqs u)(q := None) \<and>
        handles w = handles u \<and> callback_made cb JUndefined (vs x) u w) u"
    and issue: "\<And>q tr. I q 0 tr \<Longrightarrow> \<exists>pre. tr = pre @ [ESys (c q) 0]"
  shows "\<exists>err u. JHANDLER_FUNCTION body t args s0 = Inr ((False, JNumber (num err)), u) \<and>
    outcome s cb c after vs err u"
proof (cases rule: submitted_call[OF assms(1,2)])
  case (1 err u)
  then show ?thesis by (intro exI[of _ err] exI[of _ u]) (simp add: outcome_def)
next
  case (2 u q pre post)
  note pending = 2
  have "\<exists>w. after q x u = Inr ((), w) \<and> reqs w = reqs s \<and> balance u w \<and>
      callback_made cb JUndefined (vs x) u w" for x
  proof -
    have "wp (after q x) (\<lambda>_ w. reqs w = reqs s \<and> balance u w \<and>
        callback_made cb JUndefined (vs x) u w) u"
      by (rule wp_mono[OF after[OF pending(3) _ pending(4,5)]])
        (use pending(6,7) steps_balance in \<open>auto simp: fun_upd_idem\<close>)
    then show ?thesis by (auto simp: wp_runs)
  qed
  moreover obtain pre' where "pre = pre' @ [ESys (c q) 0]" using issue[OF pending(9)] by blast
  ultimately show ?thesis
    using pending by (intro exI[of _ 0] exI[of _ u]) (auto simp: outcome_def)
qed

lemma submitted_outcome:
  fixes s :: "(call, 'z) wrt_scheme"
  assumes "net_inv E s"
    and "wp body (\<lambda>_ u. (\<exists>err. refused t args s err u) \<or> (\<exists>err. submitted t args s cb (issued c) err u))
      (handler_entry t args s0)"
    and after: "\<And>u :: (call, 'z) wrt_scheme. \<And>q x. net_inv E u \<Longrightarrow> reqs u q = Some cb \<Longrightarrow>
      wp (after q x) (\<lambda>_ w. wraps_wf w \<and> steps u w \<and> reqs w = (reqs u)(q := None) \<and>
        handles w = handles u \<and> callback_made cb JUndefined (vs x) u w) u"
  shows "\<exists>err u. JHANDLER_FUNCTION body t args s0 = Inr ((False, JNumber (num err)), u) \<and>
    outcome s cb c after vs err u"
proof (rule submitted_outcome_by[OF assms(1,2)])
  fix u :: "(call, 'z) wrt_scheme" and q x
  assume "net_inv E u" "reqs u q = Some cb"
  then show "wp (after q x) (\<lambda>_ w. wraps_wf w \<and> steps u w \<and> reqs w = (reqs u)(q := None) \<and>
        handles w = handles u \<and> callback_made cb JUndefined (vs x) u w) u" by (rule after)
qed (rule issued_last)

section \<open>The calls made to libuv\<close>

text \<open>
  \<open>syscalls\<close> are the calls of libuv and of the operating system in a trace, with their results. A
  \<open>silent\<close> program makes none; the callbacks into JavaScript are silent.
\<close>

fun syscalls :: "'c ev list \<Rightarrow> ('c \<times> int) list" where
  "syscalls [] = []"
| "syscalls (ESys c r # es) = (c, r) # syscalls es"
| "syscalls (e # es) = syscalls es"

lemma syscalls_append [simp]: "syscalls (es @ fs) = syscalls es @ syscalls fs"
  by (induction es rule: syscalls.induct) auto

text \<open>
  \<open>unseen obs m\<close>: the program \<open>m\<close> does not change what \<open>obs\<close> sees of the trace. The locale
  \<open>observation\<close> is what the shared functions need of \<open>obs\<close>: the events of values, properties and
  calls into JavaScript do not count.
\<close>

definition unseen :: "('c ev list \<Rightarrow> 'o) \<Rightarrow> (('c, 'z) rt_scheme, 'a) prog \<Rightarrow> bool" where
  "unseen obs m \<longleftrightarrow> (\<forall>s x t. m s = Inr (x, t) \<longrightarrow> obs (trace t) = obs (trace s))"

fun plain :: "'c ev \<Rightarrow> bool" where
  "plain (ESys _ _) = False"
| "plain (ESetIndex _ _ _) = False"
| "plain (ESetProp _ _ _) = False"
| "plain _ = True"

locale observation =
  fixes obs :: "'c ev list \<Rightarrow> 'o"
  assumes obs_plain: "plain e \<Longrightarrow> obs (tr @ [e]) = obs tr"
begin

lemma unseen_bnd: "unseen obs m \<Longrightarrow> (\<And>x. unseen obs (f x)) \<Longrightarrow> unseen obs (bnd m f)"
  unfolding unseen_def bnd_def by (auto split: sum.splits prod.splits)

lemma unseen_sq: "unseen obs m \<Longrightarrow> unseen obs n \<Longrightarrow> unseen obs (sq m n)"
  unfolding sq_def by (rule unseen_bnd)

lemma unseen_for_each: "(\<And>x. unseen obs (f x)) \<Longrightarrow> unseen obs (for_each xs f)"
  by (induction xs) (simp_all add: unseen_sq, simp add: unseen_def ret_def)

lemma unseen_upd: "(\<And>s. trace (f s) = trace s) \<Longrightarrow> unseen obs (upd f)"
  by (auto simp: unseen_def upd_def)

lemma unseen_basic:
  "unseen obs (ret x)" "unseen obs (fail f)" "unseen obs (gets g)" "unseen obs (IOTJS_ASSERT l b)"
  "unseen obs iotjs_buffer_release" "unseen obs (iotjs_buffer_allocate n)"
  "plain e \<Longrightarrow> unseen obs (emit e)"
  by (auto simp: unseen_def iotjs_buffer_allocate_def iotjs_buffer_release_def emit_def prog_defs
      obs_plain)

lemma unseen_jargs_values: "unseen obs (jargs_values jargs is)"
  by (induction "is")
    (auto simp: iotjs_jargs_get_def jargs_slot_def intro!: unseen_bnd unseen_sq unseen_basic split: option.split)

lemmas unseen_intros = unseen_bnd unseen_sq unseen_for_each unseen_basic unseen_jargs_values

lemma unseen_callback_with_result: "unseen obs (iotjs_make_callback_with_result E f this args)"
  unfolding iotjs_make_callback_with_result_def iotjs_process_next_tick_def
    iotjs_uncaught_exception_def iotjs_jhelper_call_ok_def iotjs_jhelper_call_def iotjs_module_get_def
    iotjs_jval_get_property_def iotjs_jargs_create_def iotjs_jargs_append_jval_def jargs_set_def
    iotjs_jargs_destroy_def jargs_slot_def iotjs_jval_as_boolean_def iotjs_jval_destroy_def
    iotjs_jval_create_copied_def
  by (auto intro!: unseen_intros split: option.split prod.split jval.split)

lemma unseen_make_callback: "unseen obs (iotjs_make_callback E f this args)"
  unfolding iotjs_make_callback_def iotjs_jval_destroy_def
  by (auto intro!: unseen_intros unseen_callback_with_result)

lemma unseen_return_number: "unseen obs (iotjs_jhandler_return_number d)"
  unfolding iotjs_jhandler_return_number_def iotjs_jval_create_number_def iotjs_jval_destroy_def
    iotjs_jhandler_return_jval_def iotjs_jval_create_copied_def
  by (auto intro!: unseen_intros unseen_upd)

lemma wp_unseen:
  "unseen obs m \<Longrightarrow> wp m Q s \<Longrightarrow> wp m (\<lambda>x t. Q x t \<and> obs (trace t) = obs (trace s)) s"
  by (auto simp: wp_runs unseen_def)

end

lemma syscalls_plain: "plain e \<Longrightarrow> syscalls (tr @ [e]) = syscalls tr"
  by (cases e) simp_all

interpretation system: observation syscalls
  by unfold_locales (rule syscalls_plain)

abbreviation silent :: "(('c, 'z) rt_scheme, 'a) prog \<Rightarrow> bool" where
  "silent m \<equiv> unseen syscalls m"

lemmas silent_intros = system.unseen_intros
lemmas silent_upd = system.unseen_upd
lemmas silent_make_callback = system.unseen_make_callback
lemmas silent_return_number = system.unseen_return_number
lemmas wp_silent = system.wp_unseen

section \<open>Creating a handle\<close>

text \<open>The constructors of timers and sockets: allocate, tie to the object, tell libuv.\<close>

definition handle_made ::
  "(nat \<Rightarrow> 'c) \<Rightarrow> jval \<Rightarrow> nat \<Rightarrow> ('c, 'z) wrt_scheme \<Rightarrow> ('c, 'z) wrt_scheme \<Rightarrow> bool" where
  "handle_made c j p s u \<longleftrightarrow> wraps_wf u \<and> keeps s u \<and> p \<noteq> 0 \<and> handles s p = None \<and> open_handle u p j \<and>
     reqs u = reqs s \<and> env u = env s \<and> env_initialized u = env_initialized s \<and>
     h_finished u = h_finished s \<and> h_ret u = h_ret s \<and> wrt.more u = wrt.more s \<and>
     natives (trace u) = natives (trace s) @ [(j, p)] \<and>
     (\<exists>r. syscalls (trace u) = syscalls (trace s) @ [(c p, r)]) \<and>
     (\<forall>q k. open_handle s q k \<longrightarrow> open_handle u q k)"

lemma silent_initialize: "silent (iotjs_handlewrap_initialize E p j)"
  unfolding iotjs_handlewrap_initialize_def iotjs_handlewrap_validate_def get_handlewrap_def
    iotjs_jval_create_copied_def iotjs_jobjectwrap_initialize_def iotjs_jval_set_object_native_handle_def
    iotjs_jobjectwrap_jobject_def iotjs_jval_get_object_native_handle_def
  by (auto intro!: silent_intros split: option.split)
    (auto simp: unseen_def set_handlewrap_def upd_def)

lemma silent_alloc: "silent IOTJS_ALLOC"
  by (simp add: unseen_def IOTJS_ALLOC_def prog_defs)

lemma handle_new_wp:
  assumes "wraps_wf s" "native_law E" "is_object j" "native_of (trace s) j = 0" "env_initialized s"
  shows "wp (bnd IOTJS_ALLOC (\<lambda>p. sq (iotjs_handlewrap_initialize E p j)
      (bnd iotjs_environment_get (\<lambda>_. bnd iotjs_environment_loop (\<lambda>loop.
       bnd (sys E (c loop p)) (\<lambda>_. ret p)))))) (\<lambda>p u. \<exists>loop. handle_made (c loop) j p s u) s"
proof -
  let ?init = "bnd IOTJS_ALLOC (\<lambda>p. sq (iotjs_handlewrap_initialize E p j) (ret p))"
  have eq: "bnd IOTJS_ALLOC (\<lambda>p. sq (iotjs_handlewrap_initialize E p j) (f p)) = bnd ?init f" for f
    by (simp add: bnd_assoc bnd_sq bnd_ret_left)
  have "silent ?init" by (intro silent_intros silent_alloc silent_initialize)
  from wp_silent[OF this handlewrap_initialize_wp[OF assms(1-4)]]
  have "wp ?init (\<lambda>p. wp (bnd iotjs_environment_get (\<lambda>_. bnd iotjs_environment_loop (\<lambda>loop.
      bnd (sys E (c loop p)) (\<lambda>_. ret p)))) (\<lambda>p u. \<exists>loop. handle_made (c loop) j p s u)) s"
  proof (rule wp_mono, elim conjE)
    fix p u
    assume u: "wraps_wf u" "keeps s u" "p \<noteq> 0" "handles s p = None" "open_handle u p j" "reqs u = reqs s"
      "env u = env s" "env_initialized u = env_initialized s" "h_finished u = h_finished s" "h_ret u = h_ret s"
      "wrt.more u = wrt.more s" "natives (trace u) = natives (trace s) @ [(j, p)]"
      "\<forall>q k. open_handle s q k \<longrightarrow> open_handle u q k" "syscalls (trace u) = syscalls (trace s)"
    let ?loop = "env_loop (env u)"
    let ?w = "u\<lparr>trace := trace u @ [ESys (c ?loop p) (e_sys E (trace u) (c ?loop p))]\<rparr>"
    have q: "quiet u ?w" by (rule sys_quiet)
    have "handle_made (c ?loop) j p s ?w"
      using u keeps_trans[OF u(2) quiet_keeps[OF q]] quiet_wf[OF q] quiet_open[OF q]
      by (simp add: handle_made_def)
    then show "wp (bnd iotjs_environment_get (\<lambda>_. bnd iotjs_environment_loop (\<lambda>loop.
        bnd (sys E (c loop p)) (\<lambda>_. ret p)))) (\<lambda>p u. \<exists>loop. handle_made (c loop) j p s u) u"
      using u(8) assms(5)
      by (auto simp: iotjs_environment_get_def iotjs_environment_loop_def wp_simps)
  qed
  then show ?thesis by (subst eq) (simp only: wp_bnd[of ?init])
qed

end
