(* ===== verification/Iot_Timer.thy ===== *)
theory Iot_Timer
  imports Iot_Serve
begin

text \<open>
  \<^verbatim>\<open>src/module/iotjs_module_timer.c\<close>: timers. A \<^verbatim>\<open>iotjs_timerwrap_t\<close> is a handle wrapper followed by
  its \<^verbatim>\<open>uv_timer_t\<close>, so both have the number of the handle wrapper. The theory ends with the
  refinement of an abstract timer, which is armed or closing.
\<close>

section \<open>Timer wrappers\<close>

definition iotjs_timerwrap_create :: "call engine \<Rightarrow> jval \<Rightarrow> ((call, 'z) wrt_scheme, nat) prog" where
  "iotjs_timerwrap_create E jtimer =
     bnd IOTJS_ALLOC (\<lambda>timerwrap.
     sq (iotjs_handlewrap_initialize E timerwrap jtimer)
    (bnd iotjs_environment_get (\<lambda>_.
     bnd iotjs_environment_loop (\<lambda>loop.
     bnd (sys E (UvTimerInit loop timerwrap)) (\<lambda>_.
     ret timerwrap)))))"

definition iotjs_timerwrap_destroy :: "nat \<Rightarrow> (('c, 'z) wrt_scheme, unit) prog" where
  "iotjs_timerwrap_destroy timerwrap = sq (iotjs_handlewrap_destroy timerwrap) IOTJS_RELEASE"

definition iotjs_timerwrap_handle :: "nat \<Rightarrow> nat" where
  "iotjs_timerwrap_handle timerwrap = timerwrap"

definition iotjs_timerwrap_jobject :: "'c engine \<Rightarrow> nat \<Rightarrow> (('c, 'z) wrt_scheme, jval) prog" where
  "iotjs_timerwrap_jobject E timerwrap =
     bnd (iotjs_handlewrap_jobject E timerwrap) (\<lambda>jobject.
     sq (IOTJS_ASSERT ''iotjs_timerwrap_jobject'' (is_object jobject))
    (ret jobject))"

definition iotjs_timerwrap_from_handle :: "'c engine \<Rightarrow> nat \<Rightarrow> (('c, 'z) wrt_scheme, nat) prog" where
  "iotjs_timerwrap_from_handle E timer_handle =
     bnd (iotjs_handlewrap_from_handle E timer_handle) (\<lambda>timerwrap.
     sq (IOTJS_ASSERT ''iotjs_timerwrap_from_handle'' (iotjs_timerwrap_handle timerwrap = timer_handle))
    (ret timerwrap))"

definition iotjs_timerwrap_from_jobject :: "'c engine \<Rightarrow> jval \<Rightarrow> (('c, 'z) wrt_scheme, nat) prog" where
  "iotjs_timerwrap_from_jobject E jtimer = iotjs_handlewrap_from_jobject E jtimer"

definition iotjs_timerwrap_start ::
  "call engine \<Rightarrow> nat \<Rightarrow> int \<Rightarrow> int \<Rightarrow> ((call, 'z) wrt_scheme, int) prog" where
  "iotjs_timerwrap_start E timerwrap timeout repeat =
     sys E (UvTimerStart (iotjs_timerwrap_handle timerwrap) timeout repeat)"

definition iotjs_timerwrap_stop :: "call engine \<Rightarrow> nat \<Rightarrow> ((call, 'z) wrt_scheme, int) prog" where
  "iotjs_timerwrap_stop E timerwrap =
     bnd (iotjs_handlewrap_get_uv_handle E timerwrap) (\<lambda>h.
     bnd (sys E (UvIsClosing h)) (\<lambda>closing.
     sq (if closing = 0 then iotjs_handlewrap_close E timerwrap False else ret ())
    (ret 0)))"

definition iotjs_timerwrap_on_timeout :: "'c engine \<Rightarrow> nat \<Rightarrow> (('c, 'z) wrt_scheme, unit) prog" where
  "iotjs_timerwrap_on_timeout E timerwrap =
     bnd (iotjs_timerwrap_jobject E timerwrap) (\<lambda>jobject.
     bnd (iotjs_jval_get_property E jobject ''handleTimeout'') (\<lambda>jcallback.
     sq (iotjs_make_callback E jcallback jobject jargs_empty)
    (iotjs_jval_destroy jcallback)))"

definition TimeoutHandler :: "'c engine \<Rightarrow> nat \<Rightarrow> (('c, 'z) wrt_scheme, unit) prog" where
  "TimeoutHandler E handle = bnd (iotjs_timerwrap_from_handle E handle) (iotjs_timerwrap_on_timeout E)"

section \<open>Handlers\<close>

text \<open>The two parameters of \<^verbatim>\<open>start\<close> are converted to \<^verbatim>\<open>int64_t\<close>.\<close>

abbreviation to_int64 :: "double \<Rightarrow> ('s, int) prog" where
  "to_int64 \<equiv> double_to_int (- (2 ^ 63)) (2 ^ 63)"

definition Start :: "call engine \<Rightarrow> ((call, 'z) wrt_scheme, unit) prog" where
  "Start E =
     JHANDLER_CHECK_THIS E ''___Start_native'' is_object
    (JHANDLER_CHECK_ARGS E ''___Start_native'' [is_number, is_number]
    (bnd JHANDLER_GET_THIS (\<lambda>jtimer.
     bnd (iotjs_timerwrap_from_jobject E jtimer) (\<lambda>timer_wrap.
     bnd (bnd (JHANDLER_GET_ARG 0 iotjs_jval_as_number) to_int64) (\<lambda>timeout.
     bnd (bnd (JHANDLER_GET_ARG 1 iotjs_jval_as_number) to_int64) (\<lambda>repeat.
     bnd (iotjs_timerwrap_start E timer_wrap timeout repeat) (\<lambda>res.
     iotjs_jhandler_return_number (num res))))))))"

definition Stop :: "call engine \<Rightarrow> ((call, 'z) wrt_scheme, unit) prog" where
  "Stop E =
     JHANDLER_CHECK_THIS E ''___Stop_native'' is_object
    (bnd JHANDLER_GET_THIS (\<lambda>jtimer.
     bnd (iotjs_timerwrap_from_jobject E jtimer) (\<lambda>timer_wrap.
     bnd (iotjs_timerwrap_stop E timer_wrap) (\<lambda>res.
     iotjs_jhandler_return_number (num res)))))"

definition Timer :: "call engine \<Rightarrow> ((call, 'z) wrt_scheme, unit) prog" where
  "Timer E =
     JHANDLER_CHECK_THIS E ''___Timer_native'' is_object
    (bnd JHANDLER_GET_THIS (\<lambda>jtimer.
     bnd (iotjs_timerwrap_create E jtimer) (\<lambda>timer_wrap.
     bnd (iotjs_timerwrap_jobject E timer_wrap) (\<lambda>j.
     sq (IOTJS_ASSERT ''Timer'' (is_object j))
    (bnd (iotjs_jval_get_object_native_handle E jtimer) (\<lambda>n.
     IOTJS_ASSERT ''Timer'' (n \<noteq> 0)))))))"

definition InitTimer :: "'c engine \<Rightarrow> (('c, 'z) rt_scheme, jval) prog" where
  "InitTimer E =
     bnd (iotjs_jval_create_function E) (\<lambda>timer.
     bnd (iotjs_jval_create_object E) (\<lambda>prototype.
     sq (iotjs_jval_set_property_jval E timer ''prototype'' prototype)
    (sq (set_methods E prototype [''start'', ''stop''])
    (sq (iotjs_jval_destroy prototype)
    (ret timer)))))"

interpretation timer_module: module_init E "InitTimer E" for E :: "'c engine"
  by unfold_locales (simp add: InitTimer_def init_prototype)

section \<open>What the handlers do\<close>

text \<open>
  \<open>acted c s u\<close>: a handler or callback ran from \<open>s\<close> to \<open>u\<close>, asked libuv for exactly the calls \<open>c\<close>
  in order, and kept the account of references and blocks.
\<close>

definition timer_inv :: "'c engine \<Rightarrow> ('c, 'z) wrt_scheme \<Rightarrow> bool" where
  "timer_inv E s \<longleftrightarrow> net_inv E s \<and> env_initialized s"

lemma wp_timer_access:
  assumes "wraps_wf s" "native_law E" "open_handle s p j"
  shows "wp (iotjs_timerwrap_from_jobject E j) Qn s = Qn p s"
    and "wp (iotjs_timerwrap_from_handle E p) Qn s = Qn p s"
    and "wp (iotjs_timerwrap_jobject E p) Qj s = Qj j s"
  using open_handle_native[OF assms(1,3)]
  by (simp_all add: iotjs_timerwrap_from_jobject_def iotjs_timerwrap_from_handle_def
      iotjs_timerwrap_jobject_def iotjs_timerwrap_handle_def wp_handle_access[OF assms] wp_simps)

lemma Start_wp:
  assumes inv: "net_inv E s" "open_handle s p t"
    and args: "- (2 ^ 63) \<le> c_trunc a" "c_trunc a < 2 ^ 63" "- (2 ^ 63) \<le> c_trunc b" "c_trunc b < 2 ^ 63"
  shows "wp (Start E) (\<lambda>_ u. \<exists>res. served t [JNumber (Finite a), JNumber (Finite b)] (False, JNumber (num res)) s u \<and>
      syscalls (trace u) = syscalls (trace s) @ [(UvTimerStart p (c_trunc a) (c_trunc b), res)] \<and>
      handles u = handles s \<and> reqs u = reqs s) (handler_entry t [JNumber (Finite a), JNumber (Finite b)] s)"
proof -
  let ?args = "[JNumber (Finite a), JNumber (Finite b)]"
  let ?e = "handler_entry t ?args s"
  let ?c = "UvTimerStart p (c_trunc a) (c_trunc b)"
  let ?r = "e_sys E (trace ?e) ?c"
  let ?u = "?e\<lparr>trace := trace ?e @ [ESys ?c ?r]\<rparr>"
  have E: "native_law E" and wf: "wraps_wf s" using inv(1) by (simp_all add: net_inv_def)
  have t: "is_object t" using open_handle_native[OF wf inv(2)] by simp
  have am: "args_match [is_number, is_number] ?args" by simp
  have e: "wraps_wf ?e" "open_handle ?e p t" using wf inv(2) by simp_all
  have q: "quiet ?e ?u" by (rule sys_quiet)
  have st: "steps ?e ?u" "wraps_wf ?u" using quiet_steps[OF q] quiet_wf[OF q] e(1) by simp_all
  have fin: "wp (iotjs_jhandler_return_number (num ?r)) (\<lambda>_ z. \<exists>res. served t ?args (False, JNumber (num res)) s z \<and>
      syscalls (trace z) = syscalls (trace s) @ [(?c, res)] \<and> handles z = handles s \<and> reqs z = reqs s) ?u"
    by (rule wp_mono[OF wp_silent[OF silent_return_number served_number_0[OF quiet_refl st]]])
      (rule exI[of _ ?r], simp)
  show ?thesis
    unfolding Start_def iotjs_timerwrap_start_def iotjs_timerwrap_handle_def
    by (simp only: wp_JHANDLER_CHECK_THIS wp_check_args handler_entry_sel am t if_True)
      (use args fin in \<open>simp add: wp_bnd wp_timer_access[OF e(1) E e(2)] wp_sys wp_simps t\<close>)
qed


definition closing_law :: "call engine \<Rightarrow> bool" where
  "closing_law E \<longleftrightarrow> (\<forall>tr p. (e_sys E tr (UvIsClosing p) = 0) = (\<forall>r. (UvClose p, r) \<notin> set (syscalls tr)))"

text \<open>What \<^verbatim>\<open>stop\<close> asks of libuv: whether the handle is closing, and to close it when it is not.\<close>

definition stop_calls :: "nat \<Rightarrow> (call \<times> int) list \<Rightarrow> (call \<times> int) list \<Rightarrow> bool" where
  "stop_calls p before cs \<longleftrightarrow>
     (if \<exists>r. (UvClose p, r) \<in> set before then \<exists>c. cs = [(UvIsClosing p, c)]
      else \<exists>r. cs = [(UvIsClosing p, 0), (UvIsClosing p, 0), (UvClose p, r)])"

lemma Stop_wp:
  assumes inv: "net_inv E s" "open_handle s p t" and law: "closing_law E"
  shows "wp (Stop E) (\<lambda>_ u. served t args (False, JNumber (num 0)) s u \<and>
      (\<exists>cs. stop_calls p (syscalls (trace s)) cs \<and> syscalls (trace u) = syscalls (trace s) @ cs) \<and>
      (\<forall>q k. open_handle u q k = open_handle s q k) \<and> reqs u = reqs s) (handler_entry t args s)"
proof -
  let ?e = "handler_entry t args s"
  let ?c = "e_sys E (trace ?e) (UvIsClosing p)"
  let ?u = "?e\<lparr>trace := trace ?e @ [ESys (UvIsClosing p) ?c]\<rparr>"
  have E: "native_law E" and wf: "wraps_wf s" using inv(1) by (simp_all add: net_inv_def)
  have t: "is_object t" using open_handle_native[OF wf inv(2)] by simp
  have e: "wraps_wf ?e" "open_handle ?e p t" using wf inv(2) by simp_all
  obtain h where h: "handles ?u p = Some h" "hw_open h" using e(2) by (auto simp: open_handle_def)
  have q: "quiet ?e ?u" by (rule sys_quiet)
  have st: "steps ?e ?u" "wraps_wf ?u" using quiet_steps[OF q] quiet_wf[OF q] e(1) by simp_all
  let ?Q = "\<lambda>u. steps ?e u \<and> wraps_wf u \<and> (\<forall>q k. open_handle u q k = open_handle s q k) \<and> reqs u = reqs s \<and>
      (\<exists>cs. stop_calls p (syscalls (trace s)) cs \<and> syscalls (trace u) = syscalls (trace s) @ cs)"
  have sy: "syscalls (trace ?e) = syscalls (trace s)" by simp
  have op: "open_handle ?u q k = open_handle s q k" for q k by (simp add: open_handle_def)
  have close: "wp (if ?c = 0 then iotjs_handlewrap_close E p False else ret ()) (\<lambda>_. ?Q) ?u"
  proof (cases "?c = 0")
    case False
    then have "\<exists>r. (UvClose p, r) \<in> set (syscalls (trace s))" using law sy by (simp add: closing_law_def)
    then show ?thesis
      using st sy op False by (simp add: wp_ret stop_calls_def)
  next
    case True
    then have no: "\<forall>r. (UvClose p, r) \<notin> set (syscalls (trace s))" using law sy by (simp add: closing_law_def)
    have again: "e_sys E (trace ?u) (UvIsClosing p) = 0"
      using law no sy by (simp add: closing_law_def)
    have "wp (iotjs_handlewrap_close E p False) (\<lambda>_ u. \<exists>cs. stop_calls p (syscalls (trace s)) cs \<and>
        syscalls (trace u) = syscalls (trace s) @ cs) ?u"
      using h again no True sy by (simp add: iotjs_handlewrap_close_def wp_simps stop_calls_def)
    from wp_conj[OF this handlewrap_close_wp[OF st(2) h(1)]]
    show ?thesis
      unfolding if_P[OF True] by (rule wp_mono) (use st op in \<open>auto intro: steps_trans\<close>)
  qed
  have fin: "wp (iotjs_jhandler_return_number (num 0)) (\<lambda>_ z. served t args (False, JNumber (num 0)) s z \<and>
      (\<exists>cs. stop_calls p (syscalls (trace s)) cs \<and> syscalls (trace z) = syscalls (trace s) @ cs) \<and>
      (\<forall>q k. open_handle z q k = open_handle s q k) \<and> reqs z = reqs s) u" if u: "?Q u" for u
  proof (rule wp_mono[OF wp_silent[OF silent_return_number
        served_number_0[OF quiet_refl conjunct1[OF u] conjunct1[OF conjunct2[OF u]]]]], elim conjE)
    fix z
    assume z: "served t args (False, JNumber (num 0)) s z" "reqs z = reqs u" "handles z = handles u"
      "syscalls (trace z) = syscalls (trace u)"
    show "served t args (False, JNumber (num 0)) s z \<and>
      (\<exists>cs. stop_calls p (syscalls (trace s)) cs \<and> syscalls (trace z) = syscalls (trace s) @ cs) \<and>
      (\<forall>q k. open_handle z q k = open_handle s q k) \<and> reqs z = reqs s"
      using u z(1,2,4) unfolding same_handles[OF z(3)] by simp
  qed
  have this_e: "h_this ?e = t" by simp
  show ?thesis
    unfolding Stop_def iotjs_timerwrap_stop_def
    by (simp only: wp_JHANDLER_CHECK_THIS this_e t if_True)
      (simp only: wp_bnd wp_sq wp_handler_get this_e t simp_thms wp_timer_access[OF e(1) E e(2)]
         wp_handle_access[OF e(1) E e(2)] wp_sys, rule wp_mono[OF close], simp only: wp_ret, rule fin)
qed


text \<open>The timeout runs \<^verbatim>\<open>handleTimeout\<close> of the timer, with the timer as receiver, and asks nothing of libuv.\<close>

lemma timeout_wp:
  assumes inv: "net_inv E s" "open_handle s p t"
    and on: "\<And>tr. e_prop E tr t ''handleTimeout'' = (False, f)" "is_function f"
  shows "wp (TimeoutHandler E p) (\<lambda>_ u. quiet s u \<and> syscalls (trace u) = syscalls (trace s) \<and>
    callback_made f t [] s u) s"
proof -
  have E: "native_law E" and wf: "wraps_wf s" and pm: "process_module E s"
    using inv(1) by (simp_all add: net_inv_def)
  have t: "is_object t" using open_handle_native[OF wf inv(2)] by simp
  let ?n = "''handleTimeout''"
  let ?pre = "[ECreate (JString ?n), EGetProp t ?n f, ERelease (JString ?n)]"
  let ?s = "s\<lparr>trace := trace s @ ?pre\<rparr>"
  have "wp (iotjs_make_callback E f t jargs_empty) (\<lambda>_ u. called f t [] ?s u \<and> syscalls (trace u) = syscalls (trace ?s)) ?s"
    using pm on(2) by (intro wp_silent silent_make_callback make_callback_wp) simp_all
  then have "wp (iotjs_make_callback E f t jargs_empty) (\<lambda>_ u.
      quiet s (u\<lparr>trace := trace u @ [ERelease f]\<rparr>) \<and>
      syscalls (trace u @ [ERelease f]) = syscalls (trace s) \<and>
      callback_made f t [] s (u\<lparr>trace := trace u @ [ERelease f]\<rparr>)) ?s"
  proof (rule wp_mono, elim conjE)
    fix x u
    assume u: "called f t [] ?s u" "syscalls (trace u) = syscalls (trace ?s)"
    then obtain th r tr where tr: "u = ?s\<lparr>trace := trace ?s @ ECall f t [] th r # tr\<rparr>"
      "\<And>v. owned (ECall f t [] th r # tr) v = 0" "natives tr = []"
      unfolding called_def by blast
    have "quiet s (u\<lparr>trace := trace u @ [ERelease f]\<rparr>)"
      unfolding quiet_def
      by (rule exI[of _ "?pre @ (ECall f t [] th r # tr) @ [ERelease f]"])
        (use tr(1,3) in \<open>simp only: owned_append tr(2)\<close>, auto)
    moreover have "callback_made f t [] s (u\<lparr>trace := trace u @ [ERelease f]\<rparr>)"
      unfolding callback_made_def
      by (intro exI[of _ ?pre] exI[of _ "tr @ [ERelease f]"] exI[of _ th] exI[of _ r]) (use tr(1) in simp)
    ultimately show "quiet s (u\<lparr>trace := trace u @ [ERelease f]\<rparr>) \<and>
      syscalls (trace u @ [ERelease f]) = syscalls (trace s) \<and>
      callback_made f t [] s (u\<lparr>trace := trace u @ [ERelease f]\<rparr>)"
      using u(2) by simp
  qed
  then show ?thesis
    unfolding TimeoutHandler_def iotjs_timerwrap_on_timeout_def wp_bnd wp_timer_access[OF wf E inv(2)]
    using t on by (simp add: wp_simps) (erule wp_mono, simp add: wp_simps)
qed

lemma Timer_wp:
  assumes inv: "timer_inv E s" and t: "is_object t" "native_of (trace s) t = 0"
  shows "wp (Timer E) (\<lambda>_ u. \<exists>p loop. handle_made (\<lambda>q. UvTimerInit loop q) t p (handler_entry t args s) u)
    (handler_entry t args s)"
proof -
  let ?e = "handler_entry t args s"
  have E: "native_law E" and e: "wraps_wf ?e" "native_of (trace ?e) t = 0" "env_initialized ?e"
    using inv t(2) by (simp_all add: timer_inv_def net_inv_def native_of_append)
  have this_e: "h_this ?e = t" by simp
  have new: "wp (iotjs_timerwrap_create E t) (\<lambda>p u. \<exists>loop. handle_made (\<lambda>q. UvTimerInit loop q) t p ?e u) ?e"
    unfolding iotjs_timerwrap_create_def by (rule handle_new_wp[OF e(1) E t(1) e(2,3)])
  show ?thesis
    unfolding Timer_def
    by (simp only: wp_JHANDLER_CHECK_THIS this_e t if_True)
      (simp only: wp_bnd wp_sq wp_handler_get this_e t simp_thms, rule wp_mono[OF new], elim exE,
       use E t in \<open>auto simp: wp_timer_access(3) wp_simps native_law_def open_handle_native handle_made_def\<close>)
qed

section \<open>Runs of the module\<close>

text \<open>
  What the engine and libuv can do to timers: construct one on an object without a handle, start
  and stop one that is open, let it expire, report it closed, and collect a wrapper that is closed.
\<close>

datatype timer_event =
    Construct jval
  | Started jval rat rat
  | Stopped jval
  | Expired nat
  | TimerClosed nat
  | Collected nat

text \<open>\<open>handleTimeout\<close> is a function that can be read without an error (\<^verbatim>\<open>src/js/timers.js\<close>).\<close>

definition timers_ok :: "'c engine \<Rightarrow> bool" where
  "timers_ok E \<longleftrightarrow> (\<forall>j. \<exists>f. is_function f \<and> (\<forall>tr. e_prop E tr j ''handleTimeout'' = (False, f)))"

fun timer_enabled :: "(call, 'z) wrt_scheme \<Rightarrow> timer_event \<Rightarrow> bool" where
  "timer_enabled s (Construct t) \<longleftrightarrow> is_object t \<and> native_of (trace s) t = 0"
| "timer_enabled s (Started t a b) \<longleftrightarrow> (\<exists>p. open_handle s p t) \<and> - (2 ^ 63) \<le> c_trunc a \<and>
     c_trunc a < 2 ^ 63 \<and> - (2 ^ 63) \<le> c_trunc b \<and> c_trunc b < 2 ^ 63"
| "timer_enabled s (Stopped t) \<longleftrightarrow> (\<exists>p. open_handle s p t)"
| "timer_enabled s (Expired p) \<longleftrightarrow> (\<exists>t. open_handle s p t)"
| "timer_enabled s (TimerClosed p) \<longleftrightarrow> (\<exists>t. open_handle s p t)"
| "timer_enabled s (Collected p) \<longleftrightarrow> (\<exists>h. handles s p = Some h \<and> \<not> hw_open h)"

fun timer_perform :: "call engine \<Rightarrow> timer_event \<Rightarrow> ((call, 'z) wrt_scheme, unit) prog" where
  "timer_perform E (Construct t) = native_handler.serve (Timer E) (t, [])"
| "timer_perform E (Started t a b) = native_handler.serve (Start E) (t, [JNumber (Finite a), JNumber (Finite b)])"
| "timer_perform E (Stopped t) = native_handler.serve (Stop E) (t, [])"
| "timer_perform E (Expired p) = TimeoutHandler E p"
| "timer_perform E (TimerClosed p) = iotjs_on_handle_closed E (\<lambda>_. ret ()) p"
| "timer_perform E (Collected p) = iotjs_timerwrap_destroy p"

text \<open>The calls of libuv that an event makes, given the calls made before it.\<close>

fun event_calls ::
  "(call, 'z) wrt_scheme \<Rightarrow> timer_event \<Rightarrow> (call \<times> int) list \<Rightarrow> bool" where
  "event_calls s (Construct t) cs \<longleftrightarrow> (\<exists>loop p r. cs = [(UvTimerInit loop p, r)] \<and> handles s p = None)"
| "event_calls s (Started t a b) cs \<longleftrightarrow>
     (\<exists>r. cs = [(UvTimerStart (native_of (trace s) t) (c_trunc a) (c_trunc b), r)])"
| "event_calls s (Stopped t) cs \<longleftrightarrow> stop_calls (native_of (trace s) t) (syscalls (trace s)) cs"
| "event_calls s (Expired p) cs \<longleftrightarrow> cs = []"
| "event_calls s (TimerClosed p) cs \<longleftrightarrow> cs = []"
| "event_calls s (Collected p) cs \<longleftrightarrow> cs = []"

lemma wp_silent_calls:
  "silent m \<Longrightarrow> wp m Q s \<Longrightarrow> wp m (\<lambda>x t. Q x t \<and> (\<exists>cs. cs = [] \<and> syscalls (trace t) = syscalls (trace s) @ cs)) s"
  by (drule (1) wp_silent) (erule wp_mono, simp)

lemma silent_closed: "silent (iotjs_on_handle_closed E (\<lambda>_. ret ()) p)" "silent (iotjs_timerwrap_destroy p)"
  unfolding iotjs_on_handle_closed_def iotjs_handlewrap_on_close_def iotjs_handlewrap_from_handle_def
    iotjs_handlewrap_validate_def get_handlewrap_def iotjs_jobjectwrap_jobject_def set_handlewrap_def
    iotjs_jval_get_object_native_handle_def iotjs_jval_destroy_def iotjs_timerwrap_destroy_def
    iotjs_handlewrap_destroy_def IOTJS_RELEASE_def
  by (auto intro!: silent_intros silent_upd split: option.split)

lemma steps_timer_inv: "steps s t \<Longrightarrow> wraps_wf t \<Longrightarrow> timer_inv E s \<Longrightarrow> timer_inv E t"
  by (simp add: timer_inv_def net_inv_def steps_def keeps_def)

lemma timer_perform_wp:
  fixes s :: "(call, 'z) wrt_scheme"
  assumes inv: "timer_inv E s" and laws: "timers_ok E" "closing_law E" and en: "timer_enabled s e"
  shows "wp (timer_perform E e) (\<lambda>_ u. timer_inv E u \<and> balance s u \<and>
    (\<exists>cs. event_calls s e cs \<and> syscalls (trace u) = syscalls (trace s) @ cs)) s"
proof -
  have net: "net_inv E s" and E: "native_law E" and wf: "wraps_wf s" and pm: "process_module E s"
    and ei: "env_initialized s"
    using inv by (simp_all add: timer_inv_def net_inv_def)
  have on: "native_of (trace s) t = p" if "open_handle s p t" for p t
    using open_handle_native[OF wf that] by simp
  let ?P = "\<lambda>u. env_initialized u \<and> (\<exists>cs. event_calls s e cs \<and> syscalls (trace u) = syscalls (trace s) @ cs)"
  have served: "wp (native_handler.serve body (t, args)) (\<lambda>_ u. timer_inv E u \<and> balance s u \<and>
      (\<exists>cs. event_calls s e cs \<and> syscalls (trace u) = syscalls (trace s) @ cs)) s"
    if b: "wp body (\<lambda>_ u. wraps_wf u \<and> keeps (handler_entry t args s) u \<and> ?P u) (handler_entry t args s)"
    for body t args
    by (rule wp_mono[OF serve_keeps[OF b]]) (use E pm in \<open>simp_all add: timer_inv_def net_inv_def\<close>)
  show ?thesis
  proof (cases e)
    case (Construct t)
    show ?thesis
      unfolding Construct timer_perform.simps
      by (rule served[unfolded Construct], rule wp_mono[OF Timer_wp[OF inv]])
        (use en Construct ei in \<open>auto simp: handle_made_def\<close>)
  next
    case (Started t a b)
    then obtain p where p: "open_handle s p t" using en by auto
    show ?thesis
      unfolding Started timer_perform.simps
      by (rule served[unfolded Started], rule wp_mono[OF Start_wp[OF net p]])
        (use en Started ei on[OF p] in \<open>auto simp: served_def\<close>)
  next
    case (Stopped t)
    then obtain p where p: "open_handle s p t" using en by auto
    show ?thesis
      unfolding Stopped timer_perform.simps
      by (rule served[unfolded Stopped], rule wp_mono[OF Stop_wp[OF net p laws(2)]])
        (use ei on[OF p] in \<open>auto simp: served_def\<close>)
  next
    case (Expired p)
    then obtain t where p: "open_handle s p t" using en by auto
    obtain f where f: "\<And>tr. e_prop E tr t ''handleTimeout'' = (False, f)" "is_function f"
      using laws(1) unfolding timers_ok_def by blast
    show ?thesis
      unfolding Expired timer_perform.simps
      by (rule wp_mono[OF timeout_wp[OF net p f]])
        (auto intro: steps_timer_inv[OF quiet_steps _ inv] steps_balance quiet_steps simp: quiet_wf wf)
  next
    case (TimerClosed p)
    then obtain t where p: "open_handle s p t" using en by auto
    have cb: "wp ((\<lambda>_. ret ()) p) (\<lambda>_. quiet s) s" by (simp add: wp_ret)
    show ?thesis
      unfolding TimerClosed timer_perform.simps
      by (rule wp_mono[OF wp_silent_calls[OF silent_closed(1) on_handle_closed_wp[OF wf E p cb]]])
        (auto intro: steps_timer_inv[OF _ _ inv] steps_balance)
  next
    case (Collected p)
    then obtain h where h: "handles s p = Some h" "\<not> hw_open h" using en by auto
    show ?thesis
      unfolding Collected timer_perform.simps iotjs_timerwrap_destroy_def
      by (rule wp_mono[OF wp_silent_calls[OF silent_closed(2)[unfolded iotjs_timerwrap_destroy_def]
            handlewrap_free_wp[OF wf h]]])
        (auto intro: steps_timer_inv[OF _ _ inv] steps_balance)
  qed
qed

inductive timer_run :: "call engine \<Rightarrow> (call, 'z) wrt_scheme \<Rightarrow> (call, 'z) wrt_scheme \<Rightarrow> bool" for E where
  start: "timer_run E s s"
| after: "timer_run E s t \<Longrightarrow> timer_enabled t e \<Longrightarrow> timer_perform E e t = Inr ((), u) \<Longrightarrow> timer_run E s u"

text \<open>How often the handle \<open>p\<close> has been given to \<^verbatim>\<open>uv_close\<close>.\<close>

definition closes :: "nat \<Rightarrow> (call \<times> int) list \<Rightarrow> nat" where
  "closes p cs = length (filter (\<lambda>(c, r). c = UvClose p) cs)"

lemma closes_append [simp]: "closes p (cs @ ds) = closes p cs + closes p ds"
  by (simp add: closes_def)

lemma closes_pos: "0 < closes p cs \<longleftrightarrow> (\<exists>r. (UvClose p, r) \<in> set cs)"
  by (auto simp: closes_def filter_empty_conv)

lemma stop_closes_once:
  assumes "stop_calls q cs ds" "closes p cs \<le> 1"
  shows "closes p (cs @ ds) \<le> 1"
proof (cases "0 < closes q cs")
  case True
  then have "\<exists>c. ds = [(UvIsClosing q, c)]" using assms(1) unfolding stop_calls_def closes_pos by simp
  then show ?thesis using assms(2) by (auto simp: closes_def)
next
  case False
  then obtain r where "ds = [(UvIsClosing q, 0), (UvIsClosing q, 0), (UvClose q, r)]"
    using assms(1) unfolding stop_calls_def closes_pos by auto
  then show ?thesis using assms(2) False by (cases "p = q") (simp_all add: closes_def)
qed

lemma event_closes_once:
  assumes "event_calls s e ds" "closes p (syscalls (trace s)) \<le> 1"
  shows "closes p (syscalls (trace s) @ ds) \<le> 1"
proof (cases e)
  case (Stopped t)
  then show ?thesis using assms stop_closes_once by simp
qed (use assms in \<open>auto simp: closes_def\<close>)

lemma timer_run_keeps:
  assumes "timer_run E s t" "timer_inv E s" "timers_ok E" "closing_law E"
    and "\<And>p. closes p (syscalls (trace s)) \<le> 1"
  shows "timer_inv E t \<and> balance s t \<and> (\<forall>p. closes p (syscalls (trace t)) \<le> 1)"
  using assms
proof (induction rule: timer_run.induct)
  case (after s t e u)
  then have t: "timer_inv E t" "balance s t" "\<And>p. closes p (syscalls (trace t)) \<le> 1" by simp_all
  have "timer_inv E u \<and> balance t u \<and> (\<exists>cs. event_calls t e cs \<and> syscalls (trace u) = syscalls (trace t) @ cs)"
    using timer_perform_wp[OF t(1) after.prems(2,3) after.hyps(2)] after.hyps(3) by (simp add: wp_runsD)
  then show ?case using t event_closes_once[OF _ t(3)] by (auto intro: balance_trans)
qed simp

section \<open>An abstract timer\<close>

text \<open>
  To a script a timer is idle, armed with a timeout and a period, or closing. The abstract state of
  the timer with handle \<open>p\<close> is read off the calls that libuv has got.
\<close>

datatype timer_state = Idle | Armed int int | Closing

fun timer_after :: "nat \<Rightarrow> timer_state \<Rightarrow> call \<times> int \<Rightarrow> timer_state" where
  "timer_after p st (UvTimerStart q a b, r) = (if q = p \<and> r = 0 \<and> st \<noteq> Closing then Armed a b else st)"
| "timer_after p st (UvClose q, r) = (if q = p then Closing else st)"
| "timer_after p st _ = st"

definition timer_view :: "nat \<Rightarrow> call ev list \<Rightarrow> timer_state" where
  "timer_view p tr = foldl (timer_after p) Idle (syscalls tr)"

text \<open>The specification: what an event means for the timer object \<open>t\<close> when \<^verbatim>\<open>start\<close> returns \<open>code\<close>.\<close>

fun timer_spec :: "jval \<Rightarrow> timer_event \<Rightarrow> int \<Rightarrow> timer_state \<Rightarrow> timer_state" where
  "timer_spec t (Started t' a b) code st =
     (if t' = t \<and> code = 0 \<and> st \<noteq> Closing then Armed (c_trunc a) (c_trunc b) else st)"
| "timer_spec t (Stopped t') code st = (if t' = t then Closing else st)"
| "timer_spec t _ code st = st"

lemma closing_stays: "foldl (timer_after p) Closing cs = Closing"
proof (induction cs)
  case (Cons c cs)
  have "timer_after p Closing c = Closing" by (rule timer_after.cases[of "(p, Closing, c)"]) auto
  then show ?case using Cons by simp
qed simp

lemma view_closing:
  assumes "0 < closes p (syscalls tr)"
  shows "timer_view p tr = Closing"
proof -
  obtain as bs r where "syscalls tr = as @ (UvClose p, r) # bs"
    using assms unfolding closes_pos by (auto dest: split_list)
  then show ?thesis by (simp add: timer_view_def closing_stays)
qed

lemma event_view:
  assumes wf: "wraps_wf s" and t: "open_handle s p t" and en: "timer_enabled s e"
    and cs: "event_calls s e cs"
  shows "\<exists>code. foldl (timer_after p) (timer_view p (trace s)) cs = timer_spec t e code (timer_view p (trace s))"
proof -
  have one: "native_of (trace s) t' = p \<longleftrightarrow> t' = t" if ex: "\<exists>q. open_handle s q t'" for t'
  proof -
    obtain q where q: "open_handle s q t'" using ex by (rule exE)
    then have n: "native_of (trace s) t' = q" "native_of (trace s) t = p"
      using t open_handle_native[OF wf] by auto
    show ?thesis
    proof
      assume "native_of (trace s) t' = p"
      then show "t' = t" using n q t by (auto simp: open_handle_def)
    qed (use n in simp)
  qed
  show ?thesis
  proof (cases e)
    case (Started t' a b)
    then obtain r where "cs = [(UvTimerStart (native_of (trace s) t') (c_trunc a) (c_trunc b), r)]"
      using cs by auto
    then show ?thesis using Started en one[of t'] by (intro exI[of _ r]) simp
  next
    case (Stopped t')
    then have st: "stop_calls (native_of (trace s) t') (syscalls (trace s)) cs" "\<exists>q. open_handle s q t'"
      using cs en by simp_all
    show ?thesis
    proof (cases "0 < closes (native_of (trace s) t') (syscalls (trace s))")
      case True
      then obtain c where c: "cs = [(UvIsClosing (native_of (trace s) t'), c)]"
        using st(1) unfolding stop_calls_def closes_pos by auto
      show ?thesis
      proof (cases "t' = t")
        case same: True
        then have "timer_view p (trace s) = Closing" using view_closing[of p "trace s"] True one[OF st(2)] by simp
        then show ?thesis using c Stopped same by simp
      qed (use c Stopped in simp)
    next
      case False
      then obtain r where "cs = [(UvIsClosing (native_of (trace s) t'), 0), (UvIsClosing (native_of (trace s) t'), 0),
          (UvClose (native_of (trace s) t'), r)]"
        using st(1) unfolding stop_calls_def closes_pos by auto
      then show ?thesis using Stopped one[OF st(2)] by simp
    qed
  qed (use cs in auto)
qed

section \<open>Properties\<close>

text \<open>C26. Timers never get stuck, never leak and are closed once: after any sequence of
  constructions, starts, stops, timeouts, close reports and collections, every further such event
  runs without a fault; the references and blocks gained are exactly those of the timer wrappers
  alive; and no handle has been given to \<^verbatim>\<open>uv_close\<close> twice, however often it was stopped.\<close>

theorem timer_events_safe:
  assumes "timer_inv E s" "timers_ok E" "closing_law E" "\<forall>p. closes p (syscalls (trace s)) \<le> 1"
    and "timer_run E s t" "timer_enabled t e"
  shows "(\<exists>u. timer_perform E e t = Inr ((), u)) \<and> balance s t \<and> closes p (syscalls (trace t)) \<le> 1"
  using timer_run_keeps[OF assms(5,1,2,3)] assms(4) timer_perform_wp[OF _ assms(2,3,6)]
  by (auto simp: wp_runs)


definition timer_engine :: "call engine" where
  "timer_engine = wraps_engine\<lparr>e_prop := \<lambda>_ _ n. (False, JFunction (length n)),
     e_sys := \<lambda>tr c. (case c of UvIsClosing p \<Rightarrow> (if 0 < closes p (syscalls tr) then 1 else 0) | _ \<Rightarrow> 0)\<rparr>"

lemma timer_engine_laws: "timers_ok timer_engine" "closing_law timer_engine" "timer_inv timer_engine sample_open"
proof -
  show "timers_ok timer_engine"
    unfolding timers_ok_def timer_engine_def by (auto intro!: exI[of _ "JFunction 13"])
  show "closing_law timer_engine"
    unfolding closing_law_def timer_engine_def using closes_pos by auto
  have "process_ok timer_engine (JObject 0)" "native_law timer_engine"
    by (auto simp: process_ok_def native_law_def timer_engine_def wraps_engine_def sample_engine_def)
  then show "timer_inv timer_engine sample_open"
    by (simp add: timer_inv_def net_inv_def) (simp add: sample_open_def sample_wraps_def)
qed

theorem timer_events_safe_witness:
  "\<exists>u. timer_perform timer_engine (Started (JObject 3) 50 0) sample_open = Inr ((), u)"
proof -
  have "timer_enabled sample_open (Started (JObject 3) 50 0)" using sample_open_wf(2) by auto
  moreover have "\<forall>p. closes p (syscalls (trace sample_open)) \<le> 1" by (simp add: sample_open_def closes_def)
  ultimately show ?thesis
    using timer_events_safe[OF timer_engine_laws(3,1,2) _ timer_run.start] by blast
qed


end
