(* ===== verification/Iot_Dns.thy ===== *)
theory Iot_Dns
  imports Iot_Serve
begin

text \<open>
  \<^verbatim>\<open>src/module/iotjs_module_dns.c\<close>: looking up a host name, as built for Linux (the branch for NuttX,
  which resolves in place, is not modelled). \<^verbatim>\<open>uv_getaddrinfo\<close> returns at once and calls
  \<^verbatim>\<open>AfterGetAddrInfo\<close> later with a list of addresses, of which the first is \<open>addrinfo\<close>; what
  \<^verbatim>\<open>uv_inet_ntop\<close> answers is the parameter \<open>ntop\<close>.
\<close>

section \<open>The request wrapper\<close>

definition iotjs_getaddrinfo_reqwrap_create :: "jval \<Rightarrow> (('c, 'z) wrt_scheme, nat) prog" where
  "iotjs_getaddrinfo_reqwrap_create jcallback =
     bnd IOTJS_ALLOC (\<lambda>getaddrinfo_reqwrap.
     sq (iotjs_reqwrap_initialize getaddrinfo_reqwrap jcallback) (ret getaddrinfo_reqwrap))"

definition iotjs_getaddrinfo_reqwrap_destroy :: "nat \<Rightarrow> (('c, 'z) wrt_scheme, unit) prog" where
  "iotjs_getaddrinfo_reqwrap_destroy p = sq (iotjs_reqwrap_destroy p) IOTJS_RELEASE"

definition iotjs_getaddrinfo_reqwrap_dispatched :: "nat \<Rightarrow> (('c, 'z) wrt_scheme, unit) prog" where
  "iotjs_getaddrinfo_reqwrap_dispatched p = iotjs_getaddrinfo_reqwrap_destroy p"

definition iotjs_getaddrinfo_reqwrap_req :: "nat \<Rightarrow> nat" where
  "iotjs_getaddrinfo_reqwrap_req p = p"

definition iotjs_getaddrinfo_reqwrap_jcallback :: "nat \<Rightarrow> (('c, 'z) wrt_scheme, jval) prog" where
  "iotjs_getaddrinfo_reqwrap_jcallback p = iotjs_reqwrap_jcallback p"

interpretation getaddrinfo_req: request_wrapper
  iotjs_getaddrinfo_reqwrap_create iotjs_getaddrinfo_reqwrap_dispatched iotjs_getaddrinfo_reqwrap_jcallback
  unfolding iotjs_getaddrinfo_reqwrap_create_def iotjs_getaddrinfo_reqwrap_dispatched_def
    iotjs_getaddrinfo_reqwrap_destroy_def iotjs_getaddrinfo_reqwrap_jcallback_def
    reqwrap_new_def[symmetric] reqwrap_free_def[symmetric]
  by (rule rw.request_wrapper_axioms)

section \<open>The lookup and its completion\<close>

text \<open>\<^verbatim>\<open>AF_UNSPEC\<close>, \<^verbatim>\<open>AF_INET\<close> and \<^verbatim>\<open>AF_INET6\<close> are 0, 2 and 10 on Linux.\<close>

text \<open>The bytes of the two address fields that \<^verbatim>\<open>ai_addr\<close> can be read as.\<close>

record addrinfo =
  ai_family :: int
  sin_addr :: "char list"
  sin6_addr :: "char list"

definition AfterGetAddrInfo ::
  "call engine \<Rightarrow> (int \<Rightarrow> char list \<Rightarrow> int \<times> string) \<Rightarrow> nat \<Rightarrow> int \<Rightarrow> addrinfo option \<Rightarrow>
     ((call, 'z) wrt_scheme, unit) prog" where
  "AfterGetAddrInfo E ntop req_wrap status res =
     bnd (iotjs_jargs_create 3) (\<lambda>args.
     bnd (iotjs_jargs_append_number args (num status)) (\<lambda>args.
     bnd (if status = 0
          then case res of
                 None \<Rightarrow> fail (NullPointer ''res'')
               | Some ai \<Rightarrow>
                   (let addr = (if ai_family ai = 2 then sin_addr ai else sin6_addr ai);
                        (err, text) = ntop (ai_family ai) addr;
                        ip = (if err \<noteq> 0 then [] else text)
                    in iotjs_jargs_append_string_raw args ip)
          else ret args) (\<lambda>args.
     bnd (sys E UvFreeaddrinfo) (\<lambda>_.
     bnd (iotjs_getaddrinfo_reqwrap_jcallback req_wrap) (\<lambda>jcallback.
     sq (iotjs_make_callback E jcallback JUndefined args)
    (sq (iotjs_jargs_destroy args)
    (iotjs_getaddrinfo_reqwrap_dispatched req_wrap)))))))"

text \<open>The part of \<^verbatim>\<open>GetAddrInfo\<close> that makes the request.\<close>

definition GetAddrInfo_request ::
  "call engine \<Rightarrow> iotjs_string_t \<Rightarrow> int \<Rightarrow> int \<Rightarrow> jval \<Rightarrow> ((call, 'z) wrt_scheme, unit) prog" where
  "GetAddrInfo_request E hostname family flags jcallback =
     bnd (iotjs_getaddrinfo_reqwrap_create jcallback) (\<lambda>req_wrap.
     bnd (bnd iotjs_environment_get (\<lambda>_. bnd iotjs_environment_loop (\<lambda>loop.
          sys E (UvGetaddrinfo loop (iotjs_getaddrinfo_reqwrap_req req_wrap) (string_text hostname)
             family flags)))) (\<lambda>err.
     sq (if err \<noteq> 0 then iotjs_getaddrinfo_reqwrap_dispatched req_wrap else ret ())
    (sq (iotjs_jhandler_return_number (num err))
    (iotjs_string_destroy hostname))))"

definition GetAddrInfo :: "call engine \<Rightarrow> ((call, 'z) wrt_scheme, unit) prog" where
  "GetAddrInfo E =
     JHANDLER_CHECK_THIS E ''___GetAddrInfo_native'' is_object
    (JHANDLER_CHECK_ARGS E ''___GetAddrInfo_native'' [is_string, is_number, is_number, is_function]
    (bnd (JHANDLER_GET_ARG 0 iotjs_jval_as_string) (\<lambda>hostname.
     bnd (JHANDLER_GET_INT 1) (\<lambda>option.
     bnd (JHANDLER_GET_INT 2) (\<lambda>flags.
     bnd (JHANDLER_GET_ARG 3 iotjs_jval_as_function) (\<lambda>jcallback.
     case (if option = 0 then Some 0
           else if option = 4 then Some 2
           else if option = 6 then Some 10
           else None) of
       None \<Rightarrow> JHANDLER_THROW E IOTJS_ERROR_TYPE ''bad address family''
     | Some family \<Rightarrow> GetAddrInfo_request E hostname family flags jcallback))))))"

text \<open>\<^verbatim>\<open>AI_ADDRCONFIG\<close> and \<^verbatim>\<open>AI_V4MAPPED\<close> have these values on Linux.\<close>

definition InitDns :: "'c engine \<Rightarrow> (('c, 'z) rt_scheme, jval) prog" where
  "InitDns E =
     bnd (iotjs_jval_create_object E) (\<lambda>dns.
     sq (sq (set_methods E dns [''getaddrinfo''])
        (set_numbers E dns [(''AI_ADDRCONFIG'', 32), (''AI_V4MAPPED'', 8)]))
    (ret dns))"

interpretation dns_module: module_init E "InitDns E" for E :: "'c engine"
proof unfold_locales
  fix s :: "('c, 'b) rt_scheme"
  assume E: "sets_ok E"
  show "wp (InitDns E) (\<lambda>v t. is_object v \<and> gives s v t) s"
    unfolding InitDns_def
    by (rule gives_object)
      (rule quiet_sq[OF quiet_refl quiet_set_methods[OF E]], simp,
       rule wp_mono[OF quiet_set_numbers[OF E]], simp, rule quiet_trans)
qed

section \<open>What they do\<close>

definition family_of :: "int \<Rightarrow> int option" where
  "family_of option = (if option = 0 then Some 0
           else if option = 4 then Some 2
           else if option = 6 then Some 10 else None)"

text \<open>The arguments of the callback.\<close>

definition answer :: "(int \<Rightarrow> char list \<Rightarrow> int \<times> string) \<Rightarrow> int \<times> addrinfo \<Rightarrow> jval list" where
  "answer ntop = (\<lambda>(status, ai).
     JNumber (num status) #
     (if status \<noteq> 0 then [] else
        [JString (case ntop (ai_family ai) (if ai_family ai = 2 then sin_addr ai else sin6_addr ai) of
           (err, ip) \<Rightarrow> if err \<noteq> 0 then [] else ip)]))"

lemma AfterGetAddrInfo_wp:
  fixes s :: "(call, 'z) wrt_scheme"
  assumes inv: "net_inv E s" "reqs s p = Some cb"
  shows "wp (AfterGetAddrInfo E ntop p status (if status = 0 then Some ai else None))
    (\<lambda>_ t. wraps_wf t \<and> steps s t \<and> reqs t = (reqs s)(p := None) \<and>
    handles t = handles s \<and> callback_made cb JUndefined (answer ntop (status, ai)) s t) s"
proof -
  have wf: "wraps_wf s" and pm: "process_module E s" using inv(1) by (simp_all add: net_inv_def)
  let ?vs = "answer ntop (status, ai)"
  let ?tail = "\<lambda>args. bnd (iotjs_getaddrinfo_reqwrap_jcallback p) (\<lambda>jcallback.
     sq (iotjs_make_callback E jcallback JUndefined args)
    (sq (iotjs_jargs_destroy args) (iotjs_getaddrinfo_reqwrap_dispatched p)))"
  note tail = getaddrinfo_req.complete_built[OF wf inv(2) pm, where vs = ?vs and this = JUndefined]
  show ?thesis
  proof (cases "status = 0")
    case False
    let ?s = "s\<lparr>blocks := blocks s + 1, trace := trace s @ [ECreate (JNumber (num status)),
      EAcquire (JNumber (num status)), ERelease (JNumber (num status)),
      ESys UvFreeaddrinfo (e_sys E (trace s @ [ECreate (JNumber (num status)),
        EAcquire (JNumber (num status)), ERelease (JNumber (num status))]) UvFreeaddrinfo)]\<rparr>"
    have "args_built ?vs (jargs_of 3 ?vs) s ?s"
      unfolding args_built_def by (intro exI conjI, rule refl) (use False in \<open>auto simp: answer_def\<close>)
    from tail[OF this] show ?thesis
      using False by (simp add: AfterGetAddrInfo_def wp_bnd wp_simps answer_def)
  next
    case True
    obtain err msg where n: "ntop (ai_family ai) (if ai_family ai = 2 then sin_addr ai else sin6_addr ai) = (err, msg)"
      by (cases "ntop (ai_family ai) (if ai_family ai = 2 then sin_addr ai else sin6_addr ai)")
    let ?ip = "if err \<noteq> 0 then [] else msg"
    let ?tr = "[ECreate (JNumber (num 0)), EAcquire (JNumber (num 0)), ERelease (JNumber (num 0)),
      ECreate (JString ?ip), EAcquire (JString ?ip), ERelease (JString ?ip)]"
    let ?s = "s\<lparr>blocks := blocks s + 1, trace := trace s @ ?tr @
      [ESys UvFreeaddrinfo (e_sys E (trace s @ ?tr) UvFreeaddrinfo)]\<rparr>"
    have vs: "?vs = [JNumber (num 0), JString ?ip]" using True n by (simp add: answer_def)
    have "args_built ?vs (jargs_of 3 ?vs) s ?s"
      unfolding args_built_def vs by (intro exI conjI, rule refl) auto
    from tail[OF this] show ?thesis
      using True n vs[unfolded True]
      by (cases "err = 0") (simp_all add: AfterGetAddrInfo_def wp_bnd wp_simps Let_def)
  qed
qed

lemma GetAddrInfo_wp:
  fixes s :: "(call, 'z) wrt_scheme"
  assumes inv: "net_inv E s" "env_initialized s" "is_object t"
    and args: "args = [JString tx, JNumber (num opt), JNumber (num flags), cb]" "is_function cb"
      "in_int32 opt" "in_int32 flags" "length tx < 2 ^ 32 - 1" "family_of opt = Some fam"
  shows "wp (GetAddrInfo E) (\<lambda>_ u.
      (\<exists>err host. submitted t args s cb (issued (\<lambda>q. UvGetaddrinfo (env_loop (env s)) q host fam flags)) err u \<and>
         (NUL \<notin> set tx \<longrightarrow> host = tx))) (handler_entry t args s)"
proof -
  let ?e = "handler_entry t args s"
  let ?c = "\<lambda>host q. UvGetaddrinfo (env_loop (env s)) q host fam flags"
  let ?R = "\<lambda>u. \<exists>err host. submitted t args s cb (issued (?c host)) err u \<and> (NUL \<notin> set tx \<longrightarrow> host = tx)"
  have E: "native_law E" and wf: "wraps_wf s" using inv(1) by (simp_all add: net_inv_def)
  have am: "args_match [is_string, is_number, is_number, is_function] args" using args(1,2) by simp
  show ?thesis
    unfolding GetAddrInfo_def family_of_def[symmetric]
    apply (simp only: wp_JHANDLER_CHECK_THIS wp_check_args handler_entry_sel am inv(3) if_True)
    apply (rule string_bnd[where tx = tx], simp add: args(1), simp add: args(1), rule args(5))
    apply (rule quiet_bnd[OF quiet_refl, where x = opt], rule GET_INT_wp, simp add: args(1),
        simp add: args(1), rule args(3))
    apply (rule quiet_bnd[where x = flags], assumption, rule GET_INT_wp, simp add: args(1) quiet_frame,
        simp add: args(1) quiet_frame, rule args(4))
    apply (rule quiet_bnd[where x = cb], assumption, simp add: wp_simps args(1,2) quiet_frame)
    subgoal premises pr for str u1 u2 u
    proof -
      have q: "quiet (charge (held str) ?e) u" and str: "string_wf str" "contents str = tx"
        using pr by blast+
      have e: "env_loop (env u) = env_loop (env s)" "env_initialized u"
        using quiet_fields(6)[OF q] steps_fields(3)[OF quiet_steps[OF q]] inv(2) by simp_all
      show ?thesis
        unfolding args(6) option.case GetAddrInfo_request_def
      proof (rule getaddrinfo_req.submit_return[OF quiet_refl q wf args(2), where I = "issued (?c (string_text str))"])
        fix err and z :: "(call, 'z) wrt_scheme"
        assume "submitted t args s cb (issued (?c (string_text str))) err (charge (- held str) z)"
        then show "wp (iotjs_string_destroy str) (\<lambda>_. ?R) z"
          using string_text_contents[OF str(1)] str(2) by (auto simp: wp_string_destroy)
      next
        fix p and v :: "(call, 'z) wrt_scheme"
        assume v: "steps u v"
        show "wp (bnd iotjs_environment_get (\<lambda>_. bnd iotjs_environment_loop (\<lambda>loop.
            sys E (UvGetaddrinfo loop (iotjs_getaddrinfo_reqwrap_req p) (string_text str) fam flags))))
          (\<lambda>err w. quiet v w \<and> issued (?c (string_text str)) p err (trace w)) v"
          using steps_fields(2,3)[OF v] e
          by (simp add: iotjs_environment_get_def iotjs_environment_loop_def wp_simps sys_quiet issued_def
              iotjs_getaddrinfo_reqwrap_req_def)
      qed
    qed
    done
qed


text \<open>An address family the code does not know: the handler throws, and the block of the name stays.\<close>

lemma GetAddrInfo_bad_family_wp:
  fixes s :: "(call, 'z) wrt_scheme"
  assumes t: "is_object t"
    and args: "args = [JString tx, JNumber (num opt), JNumber (num flags), cb]" "is_function cb"
      "in_int32 opt" "in_int32 flags" "length tx < 2 ^ 32 - 1" "family_of opt = None"
  shows "wp (GetAddrInfo E) (\<lambda>_ u. \<exists>str e. string_wf str \<and> contents str = tx \<and>
      h_ret u = (True, e) \<and> h_argv u = args \<and> blocks u = blocks s + 1 + held str \<and>
      (\<forall>v. owned (trace u) v = owned (trace s) v + (if v = e then 1 else 0)) \<and>
      reqs u = reqs s \<and> handles u = handles s) (handler_entry t args s)"
proof -
  let ?e = "handler_entry t args s"
  have am: "args_match [is_string, is_number, is_number, is_function] args" using args(1,2) by simp
  show ?thesis
    unfolding GetAddrInfo_def family_of_def[symmetric]
    apply (simp only: wp_JHANDLER_CHECK_THIS wp_check_args handler_entry_sel am t if_True)
    apply (rule string_bnd[where tx = tx], simp add: args(1), simp add: args(1), rule args(5))
    apply (rule quiet_bnd[OF quiet_refl, where x = opt], rule GET_INT_wp, simp add: args(1),
        simp add: args(1), rule args(3))
    apply (rule quiet_bnd[where x = flags], assumption, rule GET_INT_wp, simp add: args(1) quiet_frame,
        simp add: args(1) quiet_frame, rule args(4))
    apply (rule quiet_bnd[where x = cb], assumption, simp add: wp_simps args(1,2) quiet_frame)
    subgoal premises pr for str u1 u2 u
    proof -
      have q: "quiet (charge (held str) ?e) u" and str: "string_wf str" "contents str = tx"
        using pr by blast+
      from q obtain tr where u: "u = (charge (held str) ?e)\<lparr>trace := trace ?e @ tr\<rparr>"
        "\<And>v. owned tr v = 0"
        by (auto simp: quiet_def)
      show ?thesis
        using str u args(1) unfolding args(6) option.case
        by (auto simp: wp_JHANDLER_THROW intro!: exI[of _ str])
    qed
    done
qed

section \<open>Properties\<close>



text \<open>A family option other than 0, 4 and 6 makes the lookup throw before any request is made,
  and leaks: the block of a non-empty host name is not returned to the heap.\<close>

theorem dns_bad_family_leaks:
  fixes s :: "(call, 'z) wrt_scheme"
  assumes "is_object t" "is_function cb" "in_int32 opt" "in_int32 flags" "length tx < 2 ^ 32 - 1"
    and "tx \<noteq> []" "opt \<notin> {0, 4, 6}"
  shows "\<exists>e u. JHANDLER_FUNCTION (GetAddrInfo E) t [JString tx, JNumber (num opt), JNumber (num flags), cb] s =
      Inr ((True, e), u) \<and> reqs u = reqs s \<and> blocks u = blocks s + 1 \<and>
      (\<forall>v. owned (trace u) v = owned (trace s) v + (if v = e then 1 else 0))"
proof -
  have f: "family_of opt = None" using assms(7) by (simp add: family_of_def)
  have "wp (JHANDLER_FUNCTION (GetAddrInfo E) t [JString tx, JNumber (num opt), JNumber (num flags), cb])
    (\<lambda>r u. \<exists>e. r = (True, e) \<and> reqs u = reqs s \<and> blocks u = blocks s + 1 \<and>
      (\<forall>v. owned (trace u) v = owned (trace s) v + (if v = e then 1 else 0))) s"
    unfolding wp_JHANDLER_FUNCTION
  proof (rule wp_mono[OF GetAddrInfo_bad_family_wp[OF assms(1) HOL.refl assms(2-5) f]], elim exE conjE)
    fix x u str e
    assume u: "contents str = tx" "h_ret u = (True, e)" "blocks u = blocks s + 1 + held str"
      "h_argv u = [JString tx, JNumber (num opt), JNumber (num flags), cb]"
      "\<forall>v. owned (trace u) v = owned (trace s) v + (if v = e then 1 else 0)" "reqs u = reqs s"
    have "str_data str \<noteq> None" using u(1) assms(6) by (auto simp: contents_def split: option.splits)
    then show "\<exists>e. h_ret u = (True, e) \<and>
      reqs (u\<lparr>blocks := blocks u - (if h_argv u = [] then 0 else 1)\<rparr>) = reqs s \<and>
      blocks (u\<lparr>blocks := blocks u - (if h_argv u = [] then 0 else 1)\<rparr>) = blocks s + 1 \<and>
      (\<forall>v. owned (trace (u\<lparr>blocks := blocks u - (if h_argv u = [] then 0 else 1)\<rparr>)) v =
        owned (trace s) v + (if v = e then 1 else 0))"
      using u by (simp add: held_def)
  qed
  then show ?thesis by (auto simp: wp_runs)
qed

theorem dns_bad_family_leaks_witness:
  "\<exists>e u. JHANDLER_FUNCTION (GetAddrInfo wraps_engine) (JObject 3)
      [JString ''localhost'', JNumber (num 5), JNumber (num 0), JFunction 9] sample_open =
    Inr ((True, e), u) \<and> blocks u = blocks sample_open + 1"
  using dns_bad_family_leaks[of "JObject 3" "JFunction 9" 5 0 "''localhost''" wraps_engine sample_open]
  by (auto simp: in_int32_def)

end
