(* ===== verification/Iot_Tcp.thy ===== *)
theory Iot_Tcp
  imports Iot_Serve
begin

text \<open>
  \<^verbatim>\<open>src/module/iotjs_module_tcp.c\<close>: sockets. A \<^verbatim>\<open>iotjs_tcpwrap_t\<close> is a handle wrapper followed by
  its \<^verbatim>\<open>uv_tcp_t\<close>, so it is known by the number of the handle wrapper; the three request wrappers
  are a request wrapper followed by the libuv request. A socket address is the text and the port
  from which \<^verbatim>\<open>uv_ip4_addr\<close> made it. What libuv writes into a \<^verbatim>\<open>sockaddr_storage\<close> is a
  parameter, \<open>sn\<close>, a function of the calls made so far.
\<close>

section \<open>Socket wrappers\<close>

definition iotjs_tcpwrap_create :: "call engine \<Rightarrow> jval \<Rightarrow> ((call, 'z) wrt_scheme, nat) prog" where
  "iotjs_tcpwrap_create E jtcp =
     bnd IOTJS_ALLOC (\<lambda>tcpwrap.
     sq (iotjs_handlewrap_initialize E tcpwrap jtcp)
    (bnd iotjs_environment_get (\<lambda>_.
     bnd iotjs_environment_loop (\<lambda>loop.
     bnd (sys E (UvTcpInit loop tcpwrap)) (\<lambda>_.
     ret tcpwrap)))))"

definition iotjs_tcpwrap_destroy :: "nat \<Rightarrow> (('c, 'z) wrt_scheme, unit) prog" where
  "iotjs_tcpwrap_destroy tcpwrap = sq (iotjs_handlewrap_destroy tcpwrap) IOTJS_RELEASE"

definition iotjs_tcpwrap_tcp_handle :: "'c engine \<Rightarrow> nat \<Rightarrow> (('c, 'z) wrt_scheme, nat) prog" where
  "iotjs_tcpwrap_tcp_handle E tcpwrap = iotjs_handlewrap_get_uv_handle E tcpwrap"

definition iotjs_tcpwrap_from_handle :: "'c engine \<Rightarrow> nat \<Rightarrow> (('c, 'z) wrt_scheme, nat) prog" where
  "iotjs_tcpwrap_from_handle E tcp_handle =
     bnd (iotjs_handlewrap_from_handle E tcp_handle) (\<lambda>tcpwrap.
     bnd (iotjs_tcpwrap_tcp_handle E tcpwrap) (\<lambda>h.
     sq (IOTJS_ASSERT ''iotjs_tcpwrap_from_handle'' (h = tcp_handle))
    (ret tcpwrap)))"

definition iotjs_tcpwrap_from_jobject :: "'c engine \<Rightarrow> jval \<Rightarrow> (('c, 'z) wrt_scheme, nat) prog" where
  "iotjs_tcpwrap_from_jobject E jtcp = iotjs_handlewrap_from_jobject E jtcp"

definition iotjs_tcpwrap_jobject :: "'c engine \<Rightarrow> nat \<Rightarrow> (('c, 'z) wrt_scheme, jval) prog" where
  "iotjs_tcpwrap_jobject E tcpwrap = iotjs_handlewrap_jobject E tcpwrap"

section \<open>Request wrappers\<close>

definition iotjs_connect_reqwrap_create :: "jval \<Rightarrow> (('c, 'z) wrt_scheme, nat) prog" where
  "iotjs_connect_reqwrap_create jcallback =
     bnd IOTJS_ALLOC (\<lambda>connect_reqwrap.
     sq (iotjs_reqwrap_initialize connect_reqwrap jcallback) (ret connect_reqwrap))"

definition iotjs_connect_reqwrap_destroy :: "nat \<Rightarrow> (('c, 'z) wrt_scheme, unit) prog" where
  "iotjs_connect_reqwrap_destroy p = sq (iotjs_reqwrap_destroy p) IOTJS_RELEASE"

definition iotjs_connect_reqwrap_dispatched :: "nat \<Rightarrow> (('c, 'z) wrt_scheme, unit) prog" where
  "iotjs_connect_reqwrap_dispatched p = iotjs_connect_reqwrap_destroy p"

definition iotjs_connect_reqwrap_req :: "nat \<Rightarrow> nat" where
  "iotjs_connect_reqwrap_req p = p"

definition iotjs_connect_reqwrap_jcallback :: "nat \<Rightarrow> (('c, 'z) wrt_scheme, jval) prog" where
  "iotjs_connect_reqwrap_jcallback p = iotjs_reqwrap_jcallback p"

definition iotjs_write_reqwrap_create :: "jval \<Rightarrow> (('c, 'z) wrt_scheme, nat) prog" where
  "iotjs_write_reqwrap_create jcallback =
     bnd IOTJS_ALLOC (\<lambda>write_reqwrap.
     sq (iotjs_reqwrap_initialize write_reqwrap jcallback) (ret write_reqwrap))"

definition iotjs_write_reqwrap_destroy :: "nat \<Rightarrow> (('c, 'z) wrt_scheme, unit) prog" where
  "iotjs_write_reqwrap_destroy p = sq (iotjs_reqwrap_destroy p) IOTJS_RELEASE"

definition iotjs_write_reqwrap_dispatched :: "nat \<Rightarrow> (('c, 'z) wrt_scheme, unit) prog" where
  "iotjs_write_reqwrap_dispatched p = iotjs_write_reqwrap_destroy p"

definition iotjs_write_reqwrap_req :: "nat \<Rightarrow> nat" where
  "iotjs_write_reqwrap_req p = p"

definition iotjs_write_reqwrap_jcallback :: "nat \<Rightarrow> (('c, 'z) wrt_scheme, jval) prog" where
  "iotjs_write_reqwrap_jcallback p = iotjs_reqwrap_jcallback p"

definition iotjs_shutdown_reqwrap_create :: "jval \<Rightarrow> (('c, 'z) wrt_scheme, nat) prog" where
  "iotjs_shutdown_reqwrap_create jcallback =
     bnd IOTJS_ALLOC (\<lambda>shutdown_reqwrap.
     sq (iotjs_reqwrap_initialize shutdown_reqwrap jcallback) (ret shutdown_reqwrap))"

definition iotjs_shutdown_reqwrap_destroy :: "nat \<Rightarrow> (('c, 'z) wrt_scheme, unit) prog" where
  "iotjs_shutdown_reqwrap_destroy p = sq (iotjs_reqwrap_destroy p) IOTJS_RELEASE"

definition iotjs_shutdown_reqwrap_dispatched :: "nat \<Rightarrow> (('c, 'z) wrt_scheme, unit) prog" where
  "iotjs_shutdown_reqwrap_dispatched p = iotjs_shutdown_reqwrap_destroy p"

definition iotjs_shutdown_reqwrap_req :: "nat \<Rightarrow> nat" where
  "iotjs_shutdown_reqwrap_req p = p"

definition iotjs_shutdown_reqwrap_jcallback :: "nat \<Rightarrow> (('c, 'z) wrt_scheme, jval) prog" where
  "iotjs_shutdown_reqwrap_jcallback p = iotjs_reqwrap_jcallback p"

interpretation connect_req: request_wrapper
  iotjs_connect_reqwrap_create iotjs_connect_reqwrap_dispatched iotjs_connect_reqwrap_jcallback
  unfolding iotjs_connect_reqwrap_create_def iotjs_connect_reqwrap_dispatched_def
    iotjs_connect_reqwrap_destroy_def iotjs_connect_reqwrap_jcallback_def
    reqwrap_new_def[symmetric] reqwrap_free_def[symmetric]
  by (rule rw.request_wrapper_axioms)

interpretation write_req: request_wrapper
  iotjs_write_reqwrap_create iotjs_write_reqwrap_dispatched iotjs_write_reqwrap_jcallback
  unfolding iotjs_write_reqwrap_create_def iotjs_write_reqwrap_dispatched_def
    iotjs_write_reqwrap_destroy_def iotjs_write_reqwrap_jcallback_def
    reqwrap_new_def[symmetric] reqwrap_free_def[symmetric]
  by (rule rw.request_wrapper_axioms)

interpretation shutdown_req: request_wrapper
  iotjs_shutdown_reqwrap_create iotjs_shutdown_reqwrap_dispatched iotjs_shutdown_reqwrap_jcallback
  unfolding iotjs_shutdown_reqwrap_create_def iotjs_shutdown_reqwrap_dispatched_def
    iotjs_shutdown_reqwrap_destroy_def iotjs_shutdown_reqwrap_jcallback_def
    reqwrap_new_def[symmetric] reqwrap_free_def[symmetric]
  by (rule rw.request_wrapper_axioms)

section \<open>Handlers and callbacks\<close>

definition TCP :: "call engine \<Rightarrow> ((call, 'z) wrt_scheme, unit) prog" where
  "TCP E =
     JHANDLER_CHECK_THIS E ''___TCP_native'' is_object
    (JHANDLER_CHECK_ARGS E ''___TCP_native'' []
    (bnd JHANDLER_GET_THIS (\<lambda>jtcp.
     bnd (iotjs_tcpwrap_create E jtcp) (\<lambda>_. ret ()))))"

definition Open_tcp :: "(('c, 'z) hrt_scheme, unit) prog" where
  "Open_tcp = ret ()"

definition AfterClose :: "'c engine \<Rightarrow> nat \<Rightarrow> (('c, 'z) wrt_scheme, unit) prog" where
  "AfterClose E handle =
     bnd (iotjs_handlewrap_from_handle E handle) (\<lambda>wrap.
     bnd (iotjs_handlewrap_jobject E wrap) (\<lambda>jtcp.
     bnd (iotjs_jval_get_property E jtcp ''onclose'') (\<lambda>jcallback.
     sq (if is_function jcallback
         then iotjs_make_callback E jcallback JUndefined jargs_empty else ret ())
    (iotjs_jval_destroy jcallback))))"

definition Close_tcp :: "call engine \<Rightarrow> ((call, 'z) wrt_scheme, unit) prog" where
  "Close_tcp E =
     JHANDLER_CHECK_THIS E ''___Close_native'' is_object
    (JHANDLER_CHECK_ARGS E ''___Close_native'' []
    (bnd JHANDLER_GET_THIS (\<lambda>jtcp.
     bnd (iotjs_handlewrap_from_jobject E jtcp) (\<lambda>wrap.
     iotjs_handlewrap_close E wrap True))))"

definition Bind_tcp :: "call engine \<Rightarrow> ((call, 'z) wrt_scheme, unit) prog" where
  "Bind_tcp E =
     JHANDLER_CHECK_THIS E ''___Bind_native'' is_object
    (JHANDLER_CHECK_ARGS E ''___Bind_native'' [is_string, is_number]
    (bnd JHANDLER_GET_THIS (\<lambda>jtcp.
     bnd (JHANDLER_GET_ARG 0 iotjs_jval_as_string) (\<lambda>address.
     bnd (JHANDLER_GET_INT 1) (\<lambda>port.
     bnd (sys E (UvIp4Addr (string_text address) port)) (\<lambda>err.
     bnd (if err = 0
          then bnd (iotjs_tcpwrap_from_jobject E jtcp) (\<lambda>tcp_wrap.
               bnd (iotjs_tcpwrap_tcp_handle E tcp_wrap) (\<lambda>h.
               sys E (UvTcpBind h (string_text address) port)))
          else ret err) (\<lambda>err.
     sq (iotjs_jhandler_return_number (num err))
    (iotjs_string_destroy address))))))))"

definition AfterConnect :: "'c engine \<Rightarrow> nat \<Rightarrow> int \<Rightarrow> (('c, 'z) wrt_scheme, unit) prog" where
  "AfterConnect E req_wrap status =
     sq (IOTJS_ASSERT ''AfterConnect'' (req_wrap \<noteq> 0))
    (bnd (iotjs_connect_reqwrap_jcallback req_wrap) (\<lambda>jcallback.
     sq (IOTJS_ASSERT ''AfterConnect'' (is_function jcallback))
    (bnd (iotjs_jargs_create 1) (\<lambda>args.
     bnd (iotjs_jargs_append_number args (num status)) (\<lambda>args.
     sq (iotjs_make_callback E jcallback JUndefined args)
    (sq (iotjs_jargs_destroy args)
    (iotjs_connect_reqwrap_dispatched req_wrap)))))))"

definition Connect_tcp :: "call engine \<Rightarrow> ((call, 'z) wrt_scheme, unit) prog" where
  "Connect_tcp E =
     JHANDLER_CHECK_THIS E ''___Connect_native'' is_object
    (JHANDLER_CHECK_ARGS E ''___Connect_native'' [is_string, is_number, is_function]
    (bnd JHANDLER_GET_THIS (\<lambda>jtcp.
     bnd (JHANDLER_GET_ARG 0 iotjs_jval_as_string) (\<lambda>address.
     bnd (JHANDLER_GET_INT 1) (\<lambda>port.
     bnd (JHANDLER_GET_ARG 2 iotjs_jval_as_function) (\<lambda>jcallback.
     bnd (sys E (UvIp4Addr (string_text address) port)) (\<lambda>err.
     bnd (if err = 0
          then bnd (iotjs_tcpwrap_from_jobject E jtcp) (\<lambda>tcp_wrap.
               bnd (iotjs_connect_reqwrap_create jcallback) (\<lambda>req_wrap.
               bnd (bnd (iotjs_tcpwrap_tcp_handle E tcp_wrap) (\<lambda>h.
                    sys E (UvTcpConnect (iotjs_connect_reqwrap_req req_wrap) h (string_text address) port))) (\<lambda>err.
               sq (if err \<noteq> 0 then iotjs_connect_reqwrap_dispatched req_wrap else ret ())
               (ret err))))
          else ret err) (\<lambda>err.
     sq (iotjs_jhandler_return_number (num err))
    (iotjs_string_destroy address)))))))))"

text \<open>
  \<^verbatim>\<open>OnConnection\<close>: when \<^verbatim>\<open>uv_accept\<close> fails the function returns at once; the argument vector and
  the three values it holds stay allocated.
\<close>

definition OnConnection :: "call engine \<Rightarrow> nat \<Rightarrow> int \<Rightarrow> ((call, 'z) wrt_scheme, unit) prog" where
  "OnConnection E handle status =
     bnd (iotjs_tcpwrap_from_handle E handle) (\<lambda>tcp_wrap.
     bnd (iotjs_tcpwrap_jobject E tcp_wrap) (\<lambda>jtcp.
     bnd (iotjs_jval_get_property E jtcp ''onconnection'') (\<lambda>jonconnection.
     sq (IOTJS_ASSERT ''OnConnection'' (is_function jonconnection))
    (bnd (iotjs_jargs_create 2) (\<lambda>args.
     bnd (iotjs_jargs_append_number args (num status)) (\<lambda>args.
     bnd (if status = 0
          then bnd (iotjs_jval_get_property E jtcp ''createTCP'') (\<lambda>jcreate_tcp.
               sq (IOTJS_ASSERT ''OnConnection'' (is_function jcreate_tcp))
              (bnd (iotjs_jhelper_call_ok E jcreate_tcp JUndefined jargs_empty) (\<lambda>jclient_tcp.
               sq (IOTJS_ASSERT ''OnConnection'' (is_object jclient_tcp))
              (bnd (iotjs_jval_get_object_native_handle E jclient_tcp) (\<lambda>client_wrap.
               bnd (iotjs_tcpwrap_tcp_handle E client_wrap) (\<lambda>client_handle.
               bnd (sys E (UvAccept handle client_handle)) (\<lambda>err.
               if err \<noteq> 0 then ret None
               else bnd (iotjs_jargs_append_jval args jclient_tcp) (\<lambda>args.
                    sq (iotjs_jval_destroy jcreate_tcp)
                   (sq (iotjs_jval_destroy jclient_tcp)
                   (ret (Some args)))))))))))
          else ret (Some args)) (\<lambda>go_on.
     case go_on of
       None \<Rightarrow> ret ()
     | Some args \<Rightarrow>
         sq (iotjs_make_callback E jonconnection jtcp args)
        (sq (iotjs_jval_destroy jonconnection)
        (iotjs_jargs_destroy args)))))))))"

definition Listen_tcp :: "call engine \<Rightarrow> ((call, 'z) wrt_scheme, unit) prog" where
  "Listen_tcp E =
     JHANDLER_CHECK_THIS E ''___Listen_native'' is_object
    (JHANDLER_CHECK_ARGS E ''___Listen_native'' [is_number]
    (bnd JHANDLER_GET_THIS (\<lambda>jtcp.
     bnd (iotjs_tcpwrap_from_jobject E jtcp) (\<lambda>tcp_wrap.
     bnd (JHANDLER_GET_INT 0) (\<lambda>backlog.
     bnd (iotjs_tcpwrap_tcp_handle E tcp_wrap) (\<lambda>h.
     bnd (sys E (UvListen h backlog)) (\<lambda>err.
     iotjs_jhandler_return_number (num err))))))))"

text \<open>\<open>tcp_wrap\<close> is \<^verbatim>\<open>req->handle->data\<close>, which the function only compares with NULL.\<close>

definition AfterWrite :: "'c engine \<Rightarrow> nat \<Rightarrow> nat \<Rightarrow> int \<Rightarrow> (('c, 'z) wrt_scheme, unit) prog" where
  "AfterWrite E req_wrap tcp_wrap status =
     sq (IOTJS_ASSERT ''AfterWrite'' (req_wrap \<noteq> 0))
    (sq (IOTJS_ASSERT ''AfterWrite'' (tcp_wrap \<noteq> 0))
    (bnd (iotjs_write_reqwrap_jcallback req_wrap) (\<lambda>jcallback.
     bnd (iotjs_jargs_create 1) (\<lambda>args.
     bnd (iotjs_jargs_append_number args (num status)) (\<lambda>args.
     sq (iotjs_make_callback E jcallback JUndefined args)
    (sq (iotjs_jargs_destroy args)
    (iotjs_write_reqwrap_dispatched req_wrap)))))))"

text \<open>The bytes that libuv gets: \<^verbatim>\<open>len\<close> of them from the block of the buffer.\<close>

definition Write_tcp :: "call engine \<Rightarrow> ((call, 'z) bst_scheme, unit) prog" where
  "Write_tcp E =
     JHANDLER_CHECK_THIS E ''___Write_native'' is_object
    (JHANDLER_CHECK_ARGS E ''___Write_native'' [is_object, is_function]
    (bnd JHANDLER_GET_THIS (\<lambda>jtcp.
     bnd (iotjs_tcpwrap_from_jobject E jtcp) (\<lambda>tcp_wrap.
     bnd (JHANDLER_GET_ARG 0 iotjs_jval_as_object) (\<lambda>jbuffer.
     bnd (iotjs_bufferwrap_from_jbuffer E jbuffer) (\<lambda>buffer_wrap.
     bnd (iotjs_bufferwrap_buffer buffer_wrap) (\<lambda>buffer.
     bnd (iotjs_bufferwrap_length E buffer_wrap) (\<lambda>len.
     bnd (JHANDLER_GET_ARG 1 iotjs_jval_as_object) (\<lambda>arg1.
     bnd (iotjs_write_reqwrap_create arg1) (\<lambda>req_wrap.
     bnd (bnd (iotjs_tcpwrap_tcp_handle E tcp_wrap) (\<lambda>h.
          sys E (UvWrite (iotjs_write_reqwrap_req req_wrap) h
            (take len (case buffer of None \<Rightarrow> [] | Some cs \<Rightarrow> cs))))) (\<lambda>err.
     sq (if err \<noteq> 0 then iotjs_write_reqwrap_dispatched req_wrap else ret ())
     (iotjs_jhandler_return_number (num err)))))))))))))"

abbreviation IOTJS_MAX_READ_BUFFER_SIZE :: nat where
  "IOTJS_MAX_READ_BUFFER_SIZE \<equiv> 65535"

definition OnAlloc :: "nat \<Rightarrow> (('c, 'z) rt_scheme, char list \<times> nat) prog" where
  "OnAlloc suggested_size =
     (let suggested_size = (if suggested_size > IOTJS_MAX_READ_BUFFER_SIZE
                            then IOTJS_MAX_READ_BUFFER_SIZE else suggested_size)
      in bnd (iotjs_buffer_allocate suggested_size) (\<lambda>base. ret (base, suggested_size)))"

abbreviation UV__EOF :: int where
  "UV__EOF \<equiv> -4095"

text \<open>\<open>base\<close> is the block of the \<^verbatim>\<open>uv_buf_t\<close>, \<open>None\<close> for NULL.\<close>

definition OnRead ::
  "call engine \<Rightarrow> jval \<Rightarrow> nat \<Rightarrow> int \<Rightarrow> char list option \<Rightarrow> ((call, 'z) bst_scheme, unit) prog" where
  "OnRead E global handle nread base =
     bnd (iotjs_tcpwrap_from_handle E handle) (\<lambda>tcp_wrap.
     bnd (iotjs_tcpwrap_jobject E tcp_wrap) (\<lambda>jtcp.
     bnd (iotjs_jval_get_property E jtcp ''owner'') (\<lambda>jsocket.
     sq (IOTJS_ASSERT ''OnRead'' (is_object jsocket))
    (bnd (iotjs_jval_get_property E jtcp ''onread'') (\<lambda>jonread.
     sq (IOTJS_ASSERT ''OnRead'' (is_function jonread))
    (bnd (iotjs_jargs_create 4) (\<lambda>jargs.
     bnd (iotjs_jargs_append_jval jargs jsocket) (\<lambda>jargs.
     bnd (iotjs_jargs_append_number jargs (num nread)) (\<lambda>jargs.
     bnd (iotjs_jargs_append_bool jargs False) (\<lambda>jargs.
     bnd (if nread \<le> 0
          then sq (if base \<noteq> None then iotjs_buffer_release else ret ())
              (if nread < 0
               then bnd (if nread = UV__EOF
                         then iotjs_jargs_replace jargs 2 (JBool True) else ret jargs) (\<lambda>jargs.
                    sq (iotjs_make_callback E jonread JUndefined jargs) (ret jargs))
               else ret jargs)
          else bnd (iotjs_bufferwrap_create_buffer E global (nat nread)) (\<lambda>jbuffer.
               bnd (iotjs_bufferwrap_from_jbuffer E jbuffer) (\<lambda>buffer_wrap.
               bnd (iotjs_bufferwrap_copy buffer_wrap
                      (SrcBytes (case base of None \<Rightarrow> [] | Some cs \<Rightarrow> cs)) (nat nread)) (\<lambda>_.
               bnd (iotjs_jargs_append_jval jargs jbuffer) (\<lambda>jargs.
               sq (iotjs_make_callback E jonread JUndefined jargs)
              (sq (iotjs_jval_destroy jbuffer)
              (sq iotjs_buffer_release
              (ret jargs)))))))) (\<lambda>jargs.
     sq (iotjs_jargs_destroy jargs)
    (sq (iotjs_jval_destroy jonread)
    (iotjs_jval_destroy jsocket)))))))))))))"

definition ReadStart :: "call engine \<Rightarrow> ((call, 'z) wrt_scheme, unit) prog" where
  "ReadStart E =
     JHANDLER_CHECK_THIS E ''___ReadStart_native'' is_object
    (bnd JHANDLER_GET_THIS (\<lambda>jtcp.
     bnd (iotjs_tcpwrap_from_jobject E jtcp) (\<lambda>tcp_wrap.
     bnd (iotjs_tcpwrap_tcp_handle E tcp_wrap) (\<lambda>h.
     bnd (sys E (UvReadStart h)) (\<lambda>err.
     iotjs_jhandler_return_number (num err))))))"

definition AfterShutdown :: "'c engine \<Rightarrow> nat \<Rightarrow> nat \<Rightarrow> int \<Rightarrow> (('c, 'z) wrt_scheme, unit) prog" where
  "AfterShutdown E req_wrap tcp_wrap status =
     sq (IOTJS_ASSERT ''AfterShutdown'' (req_wrap \<noteq> 0))
    (sq (IOTJS_ASSERT ''AfterShutdown'' (tcp_wrap \<noteq> 0))
    (bnd (iotjs_shutdown_reqwrap_jcallback req_wrap) (\<lambda>jonshutdown.
     sq (IOTJS_ASSERT ''AfterShutdown'' (is_function jonshutdown))
    (bnd (iotjs_jargs_create 1) (\<lambda>args.
     bnd (iotjs_jargs_append_number args (num status)) (\<lambda>args.
     sq (iotjs_make_callback E jonshutdown JUndefined args)
    (sq (iotjs_jargs_destroy args)
    (iotjs_shutdown_reqwrap_dispatched req_wrap))))))))"

definition Shutdown_tcp :: "call engine \<Rightarrow> ((call, 'z) wrt_scheme, unit) prog" where
  "Shutdown_tcp E =
     JHANDLER_CHECK_THIS E ''___Shutdown_native'' is_object
    (JHANDLER_CHECK_ARGS E ''___Shutdown_native'' [is_function]
    (bnd JHANDLER_GET_THIS (\<lambda>jtcp.
     bnd (iotjs_tcpwrap_from_jobject E jtcp) (\<lambda>tcp_wrap.
     bnd (JHANDLER_GET_ARG 0 iotjs_jval_as_object) (\<lambda>arg0.
     bnd (iotjs_shutdown_reqwrap_create arg0) (\<lambda>req_wrap.
     bnd (bnd (iotjs_tcpwrap_tcp_handle E tcp_wrap) (\<lambda>h.
          sys E (UvShutdown (iotjs_shutdown_reqwrap_req req_wrap) h))) (\<lambda>err.
     sq (if err \<noteq> 0 then iotjs_shutdown_reqwrap_dispatched req_wrap else ret ())
     (iotjs_jhandler_return_number (num err)))))))))"

definition SetKeepAlive :: "call engine \<Rightarrow> ((call, 'z) wrt_scheme, unit) prog" where
  "SetKeepAlive E =
     JHANDLER_CHECK_THIS E ''___SetKeepAlive_native'' is_object
    (JHANDLER_CHECK_ARGS E ''___SetKeepAlive_native'' [is_number, is_number]
    (bnd JHANDLER_GET_THIS (\<lambda>jtcp.
     bnd (JHANDLER_GET_INT 0) (\<lambda>enable.
     bnd (bnd (JHANDLER_GET_ARG 1 iotjs_jval_as_number) to_unsigned) (\<lambda>delay.
     bnd (iotjs_tcpwrap_from_jobject E jtcp) (\<lambda>tcp_wrap.
     bnd (iotjs_tcpwrap_tcp_handle E tcp_wrap) (\<lambda>h.
     bnd (sys E (UvTcpKeepalive h enable delay)) (\<lambda>err.
     iotjs_jhandler_return_number (num err)))))))))"

section \<open>Addresses\<close>

text \<open>
  A \<^verbatim>\<open>sockaddr\<close> that libuv wrote: its family, the text \<^verbatim>\<open>uv_inet_ntop\<close> makes of its address and
  its port in network byte order, read on a little-endian host.
\<close>

datatype sockaddr = AF_INET6 string "16 word" | AF_INET string "16 word" | AF_other

definition ntohs :: "16 word \<Rightarrow> 16 word" where
  "ntohs w = or (push_bit 8 w) (drop_bit 8 w)"

definition AddressToJS :: "'c engine \<Rightarrow> jval \<Rightarrow> sockaddr \<Rightarrow> (('c, 'z) rt_scheme, unit) prog" where
  "AddressToJS E obj addr =
     (case addr of
        AF_INET6 ip p \<Rightarrow>
          sq (iotjs_jval_set_property_string_raw E obj ''address'' ip)
         (sq (iotjs_jval_set_property_string_raw E obj ''family'' ''IPv6'')
         (iotjs_jval_set_property_number E obj ''port'' (num (uint (ntohs p)))))
      | AF_INET ip p \<Rightarrow>
          sq (iotjs_jval_set_property_string_raw E obj ''address'' ip)
         (sq (iotjs_jval_set_property_string_raw E obj ''family'' ''IPv4'')
         (iotjs_jval_set_property_number E obj ''port'' (num (uint (ntohs p)))))
      | AF_other \<Rightarrow> iotjs_jval_set_property_string_raw E obj ''address'' [])"

definition DoGetSockName_tcp ::
  "call engine \<Rightarrow> (call ev list \<Rightarrow> sockaddr) \<Rightarrow> ((call, 'z) wrt_scheme, unit) prog" where
  "DoGetSockName_tcp E sn =
     JHANDLER_CHECK_ARGS E ''DoGetSockName'' [is_object]
    (bnd JHANDLER_GET_THIS (\<lambda>jthis.
     bnd (iotjs_tcpwrap_from_jobject E jthis) (\<lambda>wrap.
     sq (IOTJS_ASSERT ''DoGetSockName'' (wrap \<noteq> 0))
    (bnd (iotjs_tcpwrap_tcp_handle E wrap) (\<lambda>h.
     bnd (sys E (UvTcpGetsockname h)) (\<lambda>err.
     bnd (gets (\<lambda>s. sn (trace s))) (\<lambda>addr.
     sq (if err = 0
         then bnd (JHANDLER_GET_ARG 0 iotjs_jval_as_object) (\<lambda>obj. AddressToJS E obj addr)
         else ret ())
     (iotjs_jhandler_return_number (num err)))))))))"

definition GetSockeName_tcp ::
  "call engine \<Rightarrow> (call ev list \<Rightarrow> sockaddr) \<Rightarrow> ((call, 'z) wrt_scheme, unit) prog" where
  "GetSockeName_tcp E sn = DoGetSockName_tcp E sn"

definition InitTcp :: "'c engine \<Rightarrow> (('c, 'z) rt_scheme, jval) prog" where
  "InitTcp E =
     bnd (iotjs_jval_create_function E) (\<lambda>tcp.
     bnd (iotjs_jval_create_object E) (\<lambda>prototype.
     sq (iotjs_jval_set_property_jval E tcp ''prototype'' prototype)
    (sq (set_methods E prototype [''open'', ''close'', ''connect'', ''bind'', ''listen'', ''write'',
           ''readStart'', ''shutdown'', ''setKeepAlive'', ''getsockname''])
    (sq (iotjs_jval_destroy prototype)
    (ret tcp)))))"

interpretation tcp_module: module_init E "InitTcp E" for E :: "'c engine"
  by unfold_locales (simp add: InitTcp_def init_prototype)

section \<open>What the handlers do\<close>

lemma wp_tcp_access:
  assumes "wraps_wf s" "native_law E" "open_handle s p j"
  shows "wp (iotjs_tcpwrap_from_jobject E j) Qn s = Qn p s"
    and "wp (iotjs_tcpwrap_tcp_handle E p) Qn s = Qn p s"
    and "wp (iotjs_tcpwrap_from_handle E p) Qn s = Qn p s"
    and "wp (iotjs_tcpwrap_jobject E p) Qj s = Qj j s"
  by (simp_all add: iotjs_tcpwrap_from_jobject_def iotjs_tcpwrap_tcp_handle_def
      iotjs_tcpwrap_from_handle_def iotjs_tcpwrap_jobject_def wp_handle_access[OF assms] wp_simps)

lemma at_socket:
  assumes "net_inv E s" "open_handle s p t" "quiet (handler_entry t args s) u"
  shows "wp (iotjs_tcpwrap_from_jobject E t) (\<lambda>r v. r = p \<and> quiet u v) u"
    and "wp (iotjs_tcpwrap_tcp_handle E p) (\<lambda>r v. r = p \<and> quiet u v) u"
  unfolding iotjs_tcpwrap_from_jobject_def iotjs_tcpwrap_tcp_handle_def by (rule at_handle[OF assms])+

lemmas issue_wp = issue_at[folded iotjs_tcpwrap_tcp_handle_def]
  and one_call = one_call_at[where f = "\<lambda>err. err", folded iotjs_tcpwrap_tcp_handle_def]

lemma Connect_wp:
  fixes s :: "(call, 'z) wrt_scheme"
  assumes inv: "net_inv E s" "open_handle s p t"
    and args: "args = [JString tx, JNumber (num port), cb]" "is_function cb" "in_int32 port"
      "length tx < 2 ^ 32 - 1"
  shows "wp (Connect_tcp E) (\<lambda>_ u. (\<exists>err. refused t args s err u) \<or>
      (\<exists>err ip. submitted t args s cb (issued (\<lambda>q. UvTcpConnect q p ip port)) err u \<and>
         (NUL \<notin> set tx \<longrightarrow> ip = tx))) (handler_entry t args s)"
proof -
  let ?e = "handler_entry t args s"
  let ?R = "\<lambda>u. (\<exists>err. refused t args s err u) \<or>
      (\<exists>err ip. submitted t args s cb (issued (\<lambda>q. UvTcpConnect q p ip port)) err u \<and>
         (NUL \<notin> set tx \<longrightarrow> ip = tx))"
  have E: "native_law E" and wf: "wraps_wf s" using inv(1) by (simp_all add: net_inv_def)
  have t: "is_object t" using open_handle_native[OF wf inv(2)] by simp
  have am: "args_match [is_string, is_number, is_function] args" using args(1,2) by simp
  show ?thesis
    unfolding Connect_tcp_def
    apply (simp only: wp_JHANDLER_CHECK_THIS wp_check_args handler_entry_sel am t if_True)
    apply (rule quiet_bnd[OF quiet_refl, where x = t], simp add: wp_simps t)
    apply (rule string_bnd[where tx = tx], simp add: args_entry args(1), simp add: args_entry args(1), rule args(4))
    apply (rule quiet_bnd[OF quiet_refl, where x = port], rule GET_INT_wp, simp add: args_entry args(1),
        simp add: args_entry args(1), rule args(3))
    apply (rule quiet_bnd[where x = cb], assumption, simp add: wp_simps args(1,2) args_entry quiet_frame)
    apply (rule sys_bnd, assumption)
    subgoal premises pr for e str u1 u2 err u
    proof -
      have q: "quiet (charge (held str) e) u" and e: "quiet ?e e" and str: "string_wf str" "contents str = tx"
        using pr by blast+
      have u: "wraps_wf u" "open_handle u p t"
        using inv wf quiet_wf[OF q] quiet_wf[OF e] quiet_open[OF q] quiet_open[OF e] by simp_all
      show ?thesis
      proof (cases "err = 0")
        case False
        then show ?thesis
          by (simp only: if_False bnd_ret_left, intro refused_return[OF e q wf]) (auto simp: wp_string_destroy)
      next
        case True
        have "wp (bnd (iotjs_connect_reqwrap_create cb) (\<lambda>req_wrap.
            bnd (bnd (iotjs_tcpwrap_tcp_handle E p) (\<lambda>h.
                 sys E (UvTcpConnect (iotjs_connect_reqwrap_req req_wrap) h (string_text str) port))) (\<lambda>err.
            sq (if err \<noteq> 0 then iotjs_connect_reqwrap_dispatched req_wrap else ret ())
            (sq (iotjs_jhandler_return_number (num err)) (iotjs_string_destroy str))))) (\<lambda>_. ?R) u"
        proof (rule connect_req.submit_return[OF e q wf args(2),
              where I = "issued (\<lambda>q. UvTcpConnect q p (string_text str) port)"])
          fix err and z :: "(call, 'z) wrt_scheme"
          assume "submitted t args s cb (issued (\<lambda>q. UvTcpConnect q p (string_text str) port)) err
            (charge (- held str) z)"
          then show "wp (iotjs_string_destroy str) (\<lambda>_. ?R) z"
            using string_text_contents[OF str(1)] str(2) by (auto simp: wp_string_destroy)
        qed (rule issue_wp[OF E inv(2)]; simp add: issued_def iotjs_connect_reqwrap_req_def)
        then show ?thesis
          unfolding if_P[OF True] bnd_assoc bnd_sq bnd_ret_left
          by (simp only: wp_bnd[of "iotjs_tcpwrap_from_jobject E t"] wp_tcp_access[OF u(1) E u(2)])
      qed
    qed
    done
qed

lemma Shutdown_wp:
  fixes s :: "(call, 'z) wrt_scheme"
  assumes inv: "net_inv E s" "open_handle s p t" and args: "args = [cb]" "is_function cb"
  shows "wp (Shutdown_tcp E) (\<lambda>_ u. \<exists>err. submitted t args s cb (issued (\<lambda>q. UvShutdown q p)) err u)
    (handler_entry t args s)"
proof -
  let ?e = "handler_entry t args s"
  have E: "native_law E" and wf: "wraps_wf s" using inv(1) by (simp_all add: net_inv_def)
  have t: "is_object t" using open_handle_native[OF wf inv(2)] by simp
  have cb: "is_object cb" using args(2) by (cases cb) simp_all
  have am: "args_match [is_function] args" using args by simp
  show ?thesis
    unfolding Shutdown_tcp_def
    apply (simp only: wp_JHANDLER_CHECK_THIS wp_check_args handler_entry_sel am t if_True)
    apply (rule quiet_bnd[OF quiet_refl, where x = t], simp add: wp_simps t)
    apply (rule quiet_bnd, assumption, rule at_socket(1)[OF inv], assumption)
    apply (rule quiet_bnd[where x = cb], assumption, simp add: wp_simps args cb args_entry)
    apply (rule shutdown_req.submit_return_0[OF _ wf args(2)], assumption)
    apply (rule issue_wp[OF E inv(2)]; simp add: issued_def iotjs_shutdown_reqwrap_req_def)
    done
qed


lemma Write_tcp_wp:
  fixes s :: "(call, 'z) bst_scheme"
  assumes inv: "net_inv E s" "open_handle s p t"
    and buf: "builtin s j b w" "js_buffer E jb j w" and args: "args = [jb, cb]" "is_function cb"
  shows "wp (Write_tcp E) (\<lambda>_ u. \<exists>err. submitted t args s cb (issued (\<lambda>q. UvWrite q p (bytes w))) err u)
    (handler_entry t args s)"
proof -
  let ?e = "handler_entry t args s"
  have E: "native_law E" and wf: "wraps_wf s" using inv(1) by (simp_all add: net_inv_def)
  have t: "is_object t" using open_handle_native[OF wf inv(2)] by simp
  have cb: "is_object cb" using args(2) by (cases cb) simp_all
  have jb: "is_object jb" using buf(2) by (simp add: js_buffer_def)
  have am: "args_match [is_object, is_function] args" using args jb by simp
  have b: "\<And>u. quiet ?e u \<Longrightarrow> builtin u j b w"
    using buf(1) by (simp add: quiet_builtin)
  have bts: "(case bw_buffer w of None \<Rightarrow> [] | Some cs \<Rightarrow> cs) = bytes w" "take (bw_length w) (bytes w) = bytes w"
    using buf(1) by (simp_all add: bytes_def builtin_def buf_wf_def)
  have rd: "wp (iotjs_bufferwrap_buffer b) (\<lambda>r v. r = bw_buffer w \<and> quiet u v) u" if "quiet ?e u" for u
    using b[OF that] by (simp add: builtin_def wp_simps)
  show ?thesis
    unfolding Write_tcp_def
    apply (simp only: wp_JHANDLER_CHECK_THIS wp_check_args handler_entry_sel am t if_True)
    apply (rule quiet_bnd[OF quiet_refl, where x = t], simp add: wp_simps t)
    apply (rule quiet_bnd, assumption, rule at_socket(1)[OF inv], assumption)
    apply (rule quiet_bnd[where x = jb], assumption, simp add: wp_simps args jb args_entry)
    apply (rule quiet_bnd, assumption, rule from_jbuffer_wp[OF E b js_bufferD[OF buf(2)]], assumption)
    apply (rule quiet_bnd, assumption, rule rd, assumption)
    apply (rule quiet_bnd, assumption, rule length_wp[OF E b buf(2)], assumption)
    apply (rule quiet_bnd[where x = cb], assumption, simp add: wp_simps args cb args_entry)
    apply (simp only: bts)
    apply (rule write_req.submit_return_0[OF _ wf args(2)], assumption)
    apply (rule issue_wp[OF E inv(2)]; simp add: issued_def iotjs_write_reqwrap_req_def)
    done
qed

lemma Bind_wp:
  assumes inv: "net_inv E s" "open_handle s p t"
    and args: "args = [JString tx, JNumber (num port)]" "in_int32 port" "length tx < 2 ^ 32 - 1"
  shows "wp (Bind_tcp E) (\<lambda>_. returned t args s) (handler_entry t args s)"
proof -
  let ?e = "handler_entry t args s"
  have E: "native_law E" and wf: "wraps_wf s" using inv(1) by (simp_all add: net_inv_def)
  have t: "is_object t" using open_handle_native[OF wf inv(2)] by simp
  have am: "args_match [is_string, is_number] args" using args(1) by simp
  show ?thesis
    unfolding Bind_tcp_def
    apply (simp only: wp_JHANDLER_CHECK_THIS wp_check_args handler_entry_sel am t if_True)
    apply (rule quiet_bnd[OF quiet_refl, where x = t], simp add: wp_simps t)
    apply (rule string_bnd[where tx = tx], simp add: args_entry args(1), simp add: args_entry args(1), rule args(3))
    apply (rule quiet_bnd[OF quiet_refl, where x = port], rule GET_INT_wp, simp add: args_entry args(1),
        simp add: args_entry args(1), rule args(2))
    apply (rule sys_bnd, assumption)
    subgoal premises pr for e str u1 err u
    proof -
      have q: "quiet (charge (held str) e) u" and e: "quiet ?e e" using pr by blast+
      have fin: "wp (sq (iotjs_jhandler_return_number (num r)) (iotjs_string_destroy str))
          (\<lambda>_. returned t args s) v" if v: "quiet (charge (held str) e) v" for r v
        unfolding wp_sq
        by (rule wp_mono[OF served_number[OF e quiet_steps[OF v]]],
            use quiet_wf[OF e] quiet_wf[OF v] wf in simp)
          (use quiet_fields(1,2)[OF e] quiet_fields(1,2)[OF v] in \<open>auto simp: returned_def wp_string_destroy\<close>)
      have u: "wraps_wf u" "open_handle u p t"
        using inv wf quiet_wf[OF q] quiet_wf[OF e] quiet_open[OF q] quiet_open[OF e] by simp_all
      show ?thesis
      proof (cases "err = 0")
        case False
        then show ?thesis using fin[OF q] by (simp add: bnd_ret_left)
      next
        case True
        have "wp (bnd (sys E (UvTcpBind p (string_text str) port)) (\<lambda>err.
            sq (iotjs_jhandler_return_number (num err)) (iotjs_string_destroy str))) (\<lambda>_. returned t args s) u"
          by (rule sys_bnd[OF q]) (rule fin)
        then show ?thesis
          unfolding if_P[OF True] bnd_assoc
          by (simp only: wp_bnd[of "iotjs_tcpwrap_from_jobject E t"] wp_bnd[of "iotjs_tcpwrap_tcp_handle E p"]
              wp_tcp_access[OF u(1) E u(2)])
      qed
    qed
    done
qed

lemma Listen_wp:
  assumes inv: "net_inv E s" "open_handle s p t" and args: "args = [JNumber (num n)]" "in_int32 n"
  shows "wp (Listen_tcp E) (\<lambda>_. returned t args s) (handler_entry t args s)"
proof -
  have t: "is_object t" using inv open_handle_native[of s p t] by (simp add: net_inv_def)
  have am: "args_match [is_number] args" using args by simp
  show ?thesis
    unfolding Listen_tcp_def
    apply (simp only: wp_JHANDLER_CHECK_THIS wp_check_args handler_entry_sel am t if_True)
    apply (rule quiet_bnd[OF quiet_refl, where x = t], simp add: wp_simps t)
    apply (rule quiet_bnd, assumption, rule at_socket(1)[OF inv], assumption)
    apply (rule quiet_bnd, assumption, rule checked_int, assumption, simp add: args, simp add: args, rule args(2))
    apply (rule one_call[OF inv], assumption)
    done
qed

lemma ReadStart_wp:
  assumes inv: "net_inv E s" "open_handle s p t"
  shows "wp (ReadStart E) (\<lambda>_. returned t args s) (handler_entry t args s)"
proof -
  have t: "is_object t" using inv open_handle_native[of s p t] by (simp add: net_inv_def)
  show ?thesis
    unfolding ReadStart_def
    apply (simp only: wp_JHANDLER_CHECK_THIS handler_entry_sel t if_True)
    apply (rule quiet_bnd[OF quiet_refl, where x = t], simp add: wp_simps t)
    apply (rule quiet_bnd, assumption, rule at_socket(1)[OF inv], assumption)
    apply (rule one_call[OF inv], assumption)
    done
qed

lemma SetKeepAlive_wp:
  assumes inv: "net_inv E s" "open_handle s p t"
    and args: "args = [JNumber (num a), JNumber (num b)]" "in_int32 a" "0 \<le> b" "b < 2 ^ 32"
  shows "wp (SetKeepAlive E) (\<lambda>_. returned t args s) (handler_entry t args s)"
proof -
  have t: "is_object t" using inv open_handle_native[of s p t] by (simp add: net_inv_def)
  have am: "args_match [is_number, is_number] args" using args by simp
  show ?thesis
    unfolding SetKeepAlive_def
    apply (simp only: wp_JHANDLER_CHECK_THIS wp_check_args handler_entry_sel am t if_True)
    apply (rule quiet_bnd[OF quiet_refl, where x = t], simp add: wp_simps t)
    apply (rule quiet_bnd, assumption, rule checked_int, assumption, simp add: args, simp add: args, rule args(2))
    apply (rule quiet_bnd[where x = b], assumption, use args in \<open>simp add: wp_simps num_def args_entry\<close>)
    apply (rule quiet_bnd, assumption, rule at_socket(1)[OF inv], assumption)
    apply (rule one_call[OF inv], assumption)
    done
qed

lemma AddressToJS_wp:
  assumes "sets_ok E" "is_object obj"
  shows "wp (AddressToJS E obj addr) (\<lambda>_. quiet s) s"
  unfolding AddressToJS_def
  by (cases addr) (auto intro!: quiet_sq[OF quiet_refl quiet_set_property(3)[OF assms]]
      quiet_sq[OF _ quiet_set_property(3)[OF assms]] wp_mono[OF quiet_set_property(2)[OF assms]]
      quiet_set_property[OF assms] elim: quiet_trans)

lemma GetSockeName_wp:
  assumes inv: "net_inv E s" "open_handle s p t" and args: "args = [obj]" "is_object obj"
    and E: "sets_ok E"
  shows "wp (GetSockeName_tcp E sn) (\<lambda>_. returned t args s) (handler_entry t args s)"
proof -
  have t: "is_object t" and wf: "wraps_wf s"
    using inv open_handle_native[of s p t] by (simp_all add: net_inv_def)
  have p: "p \<noteq> 0" using inv(2) wf by (auto simp: open_handle_def wraps_wf_def)
  have am: "args_match [is_object] args" using args by simp
  have addr: "wp (if err = 0 then bnd (JHANDLER_GET_ARG 0 iotjs_jval_as_object) (\<lambda>obj. AddressToJS E obj a)
      else ret ()) (\<lambda>_. quiet u) u" if "quiet (handler_entry t args s) u" for err :: int and a u
    using that args AddressToJS_wp[OF E args(2), of a u] by (simp add: wp_simps args_entry)
  show ?thesis
    unfolding GetSockeName_tcp_def DoGetSockName_tcp_def
    apply (simp only: wp_check_args handler_entry_sel am if_True)
    apply (rule quiet_bnd[OF quiet_refl, where x = t], simp add: wp_simps t)
    apply (rule quiet_bnd, assumption, rule at_socket(1)[OF inv], assumption)
    apply (rule quiet_sq, assumption, simp add: wp_assert p)
    apply (rule quiet_bnd, assumption, rule at_socket(2)[OF inv], assumption)
    apply (rule sys_bnd, assumption)
    apply (simp only: wp_bnd[of "gets _"] wp_gets)
    apply (rule quiet_sq, assumption, rule addr, assumption)
    apply (rule returned_number[OF _ wf], assumption)
    done
qed

lemma Close_wp:
  assumes inv: "net_inv E s" "open_handle s p t"
  shows "wp (Close_tcp E) (\<lambda>_ u. served t [] (False, JUndefined) s u \<and> reqs u = reqs s \<and>
     (\<forall>q k. open_handle u q k = open_handle s q k)) (handler_entry t [] s)"
proof -
  have E: "native_law E" and wf: "wraps_wf s" using inv(1) by (simp_all add: net_inv_def)
  have t: "is_object t" using open_handle_native[OF wf inv(2)] by simp
  have from_j: "wp (iotjs_handlewrap_from_jobject E t) (\<lambda>r v. r = p \<and> quiet u v) u"
    if "quiet (handler_entry t [] s) u" for u
    using at_socket(1)[OF inv that] by (simp add: iotjs_tcpwrap_from_jobject_def)
  show ?thesis
    unfolding Close_tcp_def
    apply (simp only: wp_JHANDLER_CHECK_THIS wp_check_args handler_entry_sel t if_True args_match.simps)
    apply (rule quiet_bnd[OF quiet_refl, where x = t], simp add: wp_simps t)
    apply (rule quiet_bnd, assumption, rule from_j, assumption)
    subgoal premises q for u1 u
    proof -
      obtain h where "handles u p = Some h"
        using quiet_fields(1)[OF q(2)] inv(2) by (auto simp: open_handle_def)
      moreover have "wraps_wf u" using quiet_wf[OF q(2)] wf by simp
      ultimately show ?thesis
        using served_steps[OF steps_trans[OF quiet_steps[OF q(2)]]] quiet_fields[OF q(2)] quiet_open[OF q(2)]
        by (intro wp_mono[OF handlewrap_close_wp]) auto
    qed
    done
qed


section \<open>Callbacks of libuv\<close>

lemma AfterConnect_wp:
  assumes inv: "net_inv E s" "reqs s p = Some cb"
  shows "wp (AfterConnect E p status) (\<lambda>_ t. wraps_wf t \<and> steps s t \<and> reqs t = (reqs s)(p := None) \<and>
    handles t = handles s \<and> callback_made cb JUndefined [JNumber (num status)] s t) s"
proof -
  have wf: "wraps_wf s" and pm: "process_module E s" using inv(1) by (simp_all add: net_inv_def)
  then have p: "p \<noteq> 0" "is_function cb" using inv(2) by (auto simp: wraps_wf_def)
  have "wp (bnd (iotjs_connect_reqwrap_jcallback p) (\<lambda>j.
      bnd (sq (IOTJS_ASSERT ''AfterConnect'' (is_function j))
        (bnd (iotjs_jargs_create 1) (\<lambda>a. iotjs_jargs_append_number a (num status)))) (\<lambda>a.
      sq (iotjs_make_callback E j JUndefined a) (sq (iotjs_jargs_destroy a) (iotjs_connect_reqwrap_dispatched p)))))
    (\<lambda>_ t. wraps_wf t \<and> steps s t \<and> reqs t = (reqs s)(p := None) \<and>
      handles t = handles s \<and> callback_made cb JUndefined [JNumber (num status)] s t) s"
    by (rule connect_req.complete[OF wf inv(2) pm], simp only: bnd_ASSERT p) (rule args_built_number)
  then show ?thesis unfolding AfterConnect_def bnd_sq bnd_assoc bnd_ASSERT[OF p(1)] .
qed

lemma AfterWrite_wp:
  assumes inv: "net_inv E s" "reqs s p = Some cb" and h: "h \<noteq> 0"
  shows "wp (AfterWrite E p h status) (\<lambda>_ t. wraps_wf t \<and> steps s t \<and> reqs t = (reqs s)(p := None) \<and>
    handles t = handles s \<and> callback_made cb JUndefined [JNumber (num status)] s t) s"
proof -
  have wf: "wraps_wf s" and pm: "process_module E s" using inv(1) by (simp_all add: net_inv_def)
  then have p: "p \<noteq> 0" using inv(2) by (auto simp: wraps_wf_def)
  have "wp (bnd (iotjs_write_reqwrap_jcallback p) (\<lambda>j.
      bnd (bnd (iotjs_jargs_create 1) (\<lambda>a. iotjs_jargs_append_number a (num status))) (\<lambda>a.
      sq (iotjs_make_callback E j JUndefined a) (sq (iotjs_jargs_destroy a) (iotjs_write_reqwrap_dispatched p)))))
    (\<lambda>_ t. wraps_wf t \<and> steps s t \<and> reqs t = (reqs s)(p := None) \<and>
      handles t = handles s \<and> callback_made cb JUndefined [JNumber (num status)] s t) s"
    by (rule write_req.complete[OF wf inv(2) pm]) (rule args_built_number)
  then show ?thesis unfolding AfterWrite_def bnd_assoc bnd_ASSERT[OF p] bnd_ASSERT[OF h] .
qed

lemma AfterShutdown_wp:
  assumes inv: "net_inv E s" "reqs s p = Some cb" and h: "h \<noteq> 0"
  shows "wp (AfterShutdown E p h status) (\<lambda>_ t. wraps_wf t \<and> steps s t \<and> reqs t = (reqs s)(p := None) \<and>
    handles t = handles s \<and> callback_made cb JUndefined [JNumber (num status)] s t) s"
proof -
  have wf: "wraps_wf s" and pm: "process_module E s" using inv(1) by (simp_all add: net_inv_def)
  then have p: "p \<noteq> 0" "is_function cb" using inv(2) by (auto simp: wraps_wf_def)
  have "wp (bnd (iotjs_shutdown_reqwrap_jcallback p) (\<lambda>j.
      bnd (sq (IOTJS_ASSERT ''AfterShutdown'' (is_function j))
        (bnd (iotjs_jargs_create 1) (\<lambda>a. iotjs_jargs_append_number a (num status)))) (\<lambda>a.
      sq (iotjs_make_callback E j JUndefined a) (sq (iotjs_jargs_destroy a) (iotjs_shutdown_reqwrap_dispatched p)))))
    (\<lambda>_ t. wraps_wf t \<and> steps s t \<and> reqs t = (reqs s)(p := None) \<and>
      handles t = handles s \<and> callback_made cb JUndefined [JNumber (num status)] s t) s"
    by (rule shutdown_req.complete[OF wf inv(2) pm], simp only: bnd_ASSERT p) (rule args_built_number)
  then show ?thesis
    unfolding AfterShutdown_def bnd_sq bnd_assoc bnd_ASSERT[OF p(1)] bnd_ASSERT[OF h] .
qed

text \<open>The close callback of a socket runs \<^verbatim>\<open>onclose\<close> when the script set one.\<close>

lemma AfterClose_wp:
  assumes inv: "net_inv E s" "open_handle s p t"
    and on: "\<And>tr. e_prop E tr t ''onclose'' = (False, f)"
  shows "wp (AfterClose E p) (\<lambda>_. quiet s) s"
proof -
  have E: "native_law E" and wf: "wraps_wf s" and pm: "process_module E s"
    using inv(1) by (simp_all add: net_inv_def)
  have t: "is_object t" using open_handle_native[OF wf inv(2)] by simp
  let ?n = "''onclose''"
  let ?s = "s\<lparr>trace := trace s @ [ECreate (JString ?n), EGetProp t ?n f, ERelease (JString ?n)]\<rparr>"
  have quiet_end: "quiet s (u\<lparr>trace := trace u @ [ERelease f]\<rparr>)" if "quiet ?s u" for u
  proof -
    from that obtain tr where tr: "u = ?s\<lparr>trace := trace ?s @ tr\<rparr>" "\<And>v. owned tr v = 0" "natives tr = []"
      by (auto simp: quiet_def)
    show ?thesis
      unfolding quiet_def
      by (rule exI[of _ "[ECreate (JString ?n), EGetProp t ?n f, ERelease (JString ?n)] @ tr @ [ERelease f]"])
        (use tr in auto)
  qed
  have cb: "wp (if is_function f then iotjs_make_callback E f JUndefined jargs_empty else ret ())
      (\<lambda>_. quiet ?s) ?s"
  proof (cases "is_function f")
    case True
    have "wp (iotjs_make_callback E f JUndefined jargs_empty) (\<lambda>_. called f JUndefined [] ?s) ?s"
      using pm is_function_object[OF True] by (intro make_callback_wp) simp_all
    then show ?thesis unfolding if_P[OF True] by (rule wp_mono) (rule called_quiet)
  qed (simp add: wp_ret)
  have tail: "wp (sq (if is_function f then iotjs_make_callback E f JUndefined jargs_empty else ret ())
      (iotjs_jval_destroy f)) (\<lambda>_. quiet s) ?s"
    unfolding wp_sq by (rule wp_mono[OF cb]) (simp add: wp_simps quiet_end)
  show ?thesis
    unfolding AfterClose_def wp_bnd wp_handle_access(2)[OF wf E inv(2)] wp_handle_access(5)[OF wf E inv(2)]
    using t on tail by (simp add: wp_simps)
qed

section \<open>The contract of the handlers\<close>

datatype tcp_op =
  OpConnect | OpBind | OpListen | OpTcpWrite | OpReadStart | OpShutdown | OpSetKeepAlive | OpGetSockeName | OpClose

definition tcp_body ::
  "call engine \<Rightarrow> (call ev list \<Rightarrow> sockaddr) \<Rightarrow> tcp_op \<Rightarrow> ((call, 'z) bst_scheme, unit) prog" where
  "tcp_body E sn op = (case op of
     OpConnect \<Rightarrow> Connect_tcp E | OpBind \<Rightarrow> Bind_tcp E | OpListen \<Rightarrow> Listen_tcp E
   | OpTcpWrite \<Rightarrow> Write_tcp E | OpReadStart \<Rightarrow> ReadStart E | OpShutdown \<Rightarrow> Shutdown_tcp E
   | OpSetKeepAlive \<Rightarrow> SetKeepAlive E | OpGetSockeName \<Rightarrow> GetSockeName_tcp E sn
   | OpClose \<Rightarrow> Close_tcp E)"

text \<open>What \<^verbatim>\<open>src/js/net.js\<close> passes: integers of the right range, live buffers, functions.\<close>

definition tcp_args :: "live_buffers \<Rightarrow> tcp_op \<Rightarrow> jval list \<Rightarrow> bool" where
  "tcp_args live op args \<longleftrightarrow> (case op of
     OpConnect \<Rightarrow> (\<exists>tx port cb. args = [JString tx, JNumber (num port), cb] \<and> is_function cb \<and>
       in_int32 port \<and> length tx < 2 ^ 32 - 1)
   | OpBind \<Rightarrow> (\<exists>tx port. args = [JString tx, JNumber (num port)] \<and> in_int32 port \<and> length tx < 2 ^ 32 - 1)
   | OpListen \<Rightarrow> (\<exists>n. args = [JNumber (num n)] \<and> in_int32 n)
   | OpTcpWrite \<Rightarrow> (\<exists>j b jb n cb. (j, b, jb, n) \<in> live \<and> args = [jb, cb] \<and> is_function cb)
   | OpReadStart \<Rightarrow> True
   | OpShutdown \<Rightarrow> (\<exists>cb. args = [cb] \<and> is_function cb)
   | OpSetKeepAlive \<Rightarrow> (\<exists>a b. args = [JNumber (num a), JNumber (num b)] \<and> in_int32 a \<and> 0 \<le> b \<and> b < 2 ^ 32)
   | OpGetSockeName \<Rightarrow> (\<exists>obj. args = [obj] \<and> is_object obj)
   | OpClose \<Rightarrow> args = [])"

definition tcp_inv :: "call engine \<Rightarrow> live_buffers \<Rightarrow> (call, 'z) bst_scheme \<Rightarrow> bool" where
  "tcp_inv E live s \<longleftrightarrow> net_inv E s \<and> sets_ok E \<and> buffers_ok E live s"

lemma served_inv:
  assumes "served t args r s u" "tcp_inv E live s"
  shows "tcp_inv E live u \<and> h_argv u = args \<and>
    (\<forall>v. frame_refs u v - kept_wraps u v = owned (trace s) v - kept_wraps s v) \<and>
    blocks u - heap_wraps u = blocks (handler_entry t args s) - heap_wraps s"
proof -
  have k: "keeps (handler_entry t args s) u" using assms(1) by (simp add: served_def)
  have "kept_wraps (handler_entry t args s) = kept_wraps s" "heap_wraps (handler_entry t args s) = heap_wraps s"
    by (simp_all add: kept_wraps_def heap_wraps_def fun_eq_iff)
  moreover have "spare u v = spare (handler_entry t args s) v" for v using k by (simp add: keeps_def)
  moreover have "bufs u = bufs s" using assms(1) by (cases s; cases u) (simp add: served_def)
  then have "buffers_ok E live u = buffers_ok E live s"
    using assms(1) by (simp add: buffers_ok_def builtin_def served_def)
  ultimately show ?thesis
    using assms k by (simp add: tcp_inv_def net_inv_def served_def keeps_def spare_def)
qed

lemma tcp_body_wp:
  fixes s :: "(call, 'z) bst_scheme"
  assumes inv: "tcp_inv E live s" and sock: "open_handle s p t" and args: "tcp_args live op args"
  shows "wp (tcp_body E sn op) (\<lambda>_ u. \<exists>r. served t args r s u) (handler_entry t args s)"
proof -
  have net: "net_inv E s" and sets: "sets_ok E" and bufs: "buffers_ok E live s"
    using inv by (simp_all add: tcp_inv_def)
  have ret: "\<And>u. returned t args s u \<Longrightarrow> \<exists>r. served t args r s u"
    unfolding returned_def by blast
  have sub: "\<And>u cb I err. submitted t args s cb I err u \<Longrightarrow> \<exists>r. served t args r s u"
    unfolding submitted_def by blast
  have ref: "\<And>u err. refused t args s err u \<Longrightarrow> \<exists>r. served t args r s u"
    unfolding refused_def by blast
  show ?thesis
  proof (cases op)
    case OpConnect
    then obtain tx port cb where a: "args = [JString tx, JNumber (num port), cb]" "is_function cb"
      "in_int32 port" "length tx < 2 ^ 32 - 1"
      using args by (auto simp: tcp_args_def)
    show ?thesis unfolding tcp_body_def OpConnect tcp_op.case
      by (rule wp_mono[OF Connect_wp[OF net sock a]]) (blast intro: sub ref)
  next
    case OpBind
    then obtain tx port where a: "args = [JString tx, JNumber (num port)]" "in_int32 port"
      "length tx < 2 ^ 32 - 1"
      using args by (auto simp: tcp_args_def)
    show ?thesis unfolding tcp_body_def OpBind tcp_op.case
      by (rule wp_mono[OF Bind_wp[OF net sock a]]) (rule ret)
  next
    case OpListen
    then obtain n where a: "args = [JNumber (num n)]" "in_int32 n" using args by (auto simp: tcp_args_def)
    show ?thesis unfolding tcp_body_def OpListen tcp_op.case
      by (rule wp_mono[OF Listen_wp[OF net sock a]]) (rule ret)
  next
    case OpTcpWrite
    then obtain j b jb n cb where a: "args = [jb, cb]" "is_function cb" and l: "(j, b, jb, n) \<in> live"
      using args by (auto simp: tcp_args_def)
    obtain w where w: "builtin s j b w" "js_buffer E jb j w" using buffers_okD[OF bufs l] .
    show ?thesis unfolding tcp_body_def OpTcpWrite tcp_op.case
      by (rule wp_mono[OF Write_tcp_wp[OF net sock w a]]) (blast intro: sub)
  next
    case OpReadStart
    show ?thesis unfolding tcp_body_def OpReadStart tcp_op.case
      by (rule wp_mono[OF ReadStart_wp[OF net sock]]) (rule ret)
  next
    case OpShutdown
    then obtain cb where a: "args = [cb]" "is_function cb" using args by (auto simp: tcp_args_def)
    show ?thesis unfolding tcp_body_def OpShutdown tcp_op.case
      by (rule wp_mono[OF Shutdown_wp[OF net sock a]]) (blast intro: sub)
  next
    case OpSetKeepAlive
    then obtain a b where a: "args = [JNumber (num a), JNumber (num b)]" "in_int32 a" "0 \<le> b" "b < 2 ^ 32"
      using args by (auto simp: tcp_args_def)
    show ?thesis unfolding tcp_body_def OpSetKeepAlive tcp_op.case
      by (rule wp_mono[OF SetKeepAlive_wp[OF net sock a]]) (rule ret)
  next
    case OpGetSockeName
    then obtain obj where a: "args = [obj]" "is_object obj" using args by (auto simp: tcp_args_def)
    show ?thesis unfolding tcp_body_def OpGetSockeName tcp_op.case
      by (rule wp_mono[OF GetSockeName_wp[OF net sock a sets]]) (rule ret)
  next
    case OpClose
    then have a: "args = []" using args by (simp add: tcp_args_def)
    show ?thesis unfolding tcp_body_def OpClose tcp_op.case a
      by (rule wp_mono[OF Close_wp[OF net sock]]) blast
  qed
qed

interpretation tcp_handler:
  native_handler "tcp_body E sn op" "tcp_inv E live" kept_wraps heap_wraps
    "\<lambda>t args s. (\<exists>p. open_handle s p t) \<and> tcp_args live op args" for E sn op live
proof unfold_locales
  fix s :: "(call, 'z) bst_scheme" and t args
  assume inv: "tcp_inv E live s" and pre: "(\<exists>p. open_handle s p t) \<and> tcp_args live op args"
  then obtain p where p: "open_handle s p t" by blast
  show "wp (tcp_body E sn op) (\<lambda>_ u. tcp_inv E live u \<and> h_argv u = args \<and>
      (\<forall>v. frame_refs u v - kept_wraps u v = owned (trace s) v - kept_wraps s v) \<and>
      blocks u - heap_wraps u = blocks (handler_entry t args s) - heap_wraps s) (handler_entry t args s)"
    using tcp_body_wp[OF inv p conjunct2[OF pre]]
    by (rule wp_mono) (elim exE, rule served_inv[OF _ inv])
qed (auto simp: tcp_inv_def net_inv_def wraps_wf_def buffers_ok_def builtin_def kept_wraps_def
    heap_wraps_def native_of_append fun_eq_iff)

section \<open>Runs of the module\<close>

text \<open>
  What libuv and the engine can do to the module: call a handler on an open socket, complete a
  pending request, report a closed handle. \<open>script_ok\<close> says that reading \<^verbatim>\<open>onclose\<close> raises no error.
\<close>

datatype tcp_event =
    Handler tcp_op jval "jval list"
  | Connected nat int
  | Written nat nat int
  | ShutDown nat nat int
  | Closed nat

definition script_ok :: "'c engine \<Rightarrow> bool" where
  "script_ok E \<longleftrightarrow> (\<forall>j. \<exists>f. \<forall>tr. e_prop E tr j ''onclose'' = (False, f))"

fun enabled :: "live_buffers \<Rightarrow> (call, 'z) bst_scheme \<Rightarrow> tcp_event \<Rightarrow> bool" where
  "enabled live s (Handler op t args) \<longleftrightarrow> (\<exists>p. open_handle s p t) \<and> tcp_args live op args"
| "enabled live s (Connected p status) \<longleftrightarrow> reqs s p \<noteq> None"
| "enabled live s (Written p h status) \<longleftrightarrow> reqs s p \<noteq> None \<and> h \<noteq> 0"
| "enabled live s (ShutDown p h status) \<longleftrightarrow> reqs s p \<noteq> None \<and> h \<noteq> 0"
| "enabled live s (Closed p) \<longleftrightarrow> (\<exists>j. open_handle s p j)"

fun perform ::
  "call engine \<Rightarrow> (call ev list \<Rightarrow> sockaddr) \<Rightarrow> tcp_event \<Rightarrow> ((call, 'z) bst_scheme, unit) prog" where
  "perform E sn (Handler op t args) = native_handler.serve (tcp_body E sn op) (t, args)"
| "perform E sn (Connected p status) = AfterConnect E p status"
| "perform E sn (Written p h status) = AfterWrite E p h status"
| "perform E sn (ShutDown p h status) = AfterShutdown E p h status"
| "perform E sn (Closed p) = iotjs_on_handle_closed E (AfterClose E) p"

lemma steps_inv:
  assumes "steps s t" "wraps_wf t" "tcp_inv E live s"
  shows "tcp_inv E live t"
proof -
  have "bufs t = bufs s" using assms(1) by (cases s; cases t) (simp add: steps_def)
  then have "buffers_ok E live t = buffers_ok E live s"
    using assms(1) by (simp add: buffers_ok_def builtin_def steps_def native_of_def)
  then show ?thesis using assms by (simp add: tcp_inv_def net_inv_def steps_def keeps_def)
qed

lemma perform_wp:
  fixes s :: "(call, 'z) bst_scheme"
  assumes inv: "tcp_inv E live s" and on: "script_ok E" and en: "enabled live s e"
  shows "wp (perform E sn e) (\<lambda>_ u. tcp_inv E live u \<and> balance s u) s"
proof (cases e)
  case (Handler op t args)
  then have pre: "(\<exists>p. open_handle s p t) \<and> tcp_args live op args" using en by simp
  show ?thesis
    unfolding Handler perform.simps
    by (rule wp_mono[OF tcp_handler.serve_law[OF inv pre]]) (simp add: balance_def)
next
  case (Connected p status)
  then obtain cb where "reqs s p = Some cb" using en by auto
  then show ?thesis
    unfolding Connected perform.simps
    by (rule wp_mono[OF AfterConnect_wp[OF conjunct1[OF inv[unfolded tcp_inv_def]]]])
      (blast intro: steps_inv[OF _ _ inv] steps_balance)
next
  case (Written p h status)
  then obtain cb where "reqs s p = Some cb" "h \<noteq> 0" using en by auto
  then show ?thesis
    unfolding Written perform.simps
    by (rule wp_mono[OF AfterWrite_wp[OF conjunct1[OF inv[unfolded tcp_inv_def]]]])
      (blast intro: steps_inv[OF _ _ inv] steps_balance)
next
  case (ShutDown p h status)
  then obtain cb where "reqs s p = Some cb" "h \<noteq> 0" using en by auto
  then show ?thesis
    unfolding ShutDown perform.simps
    by (rule wp_mono[OF AfterShutdown_wp[OF conjunct1[OF inv[unfolded tcp_inv_def]]]])
      (blast intro: steps_inv[OF _ _ inv] steps_balance)
next
  case (Closed p)
  then obtain j where j: "open_handle s p j" using en by auto
  obtain f where f: "\<And>tr. e_prop E tr j ''onclose'' = (False, f)" using on unfolding script_ok_def by blast
  have net: "net_inv E s" using inv by (simp add: tcp_inv_def)
  then have wf: "wraps_wf s" and E: "native_law E" by (simp_all add: net_inv_def)
  show ?thesis
    unfolding Closed perform.simps
    by (rule wp_mono[OF on_handle_closed_wp[where cb = "AfterClose E", OF wf E j AfterClose_wp[OF net j f]]])
      (blast intro: steps_inv[OF _ _ inv] steps_balance)
qed

inductive tcp_run ::
  "call engine \<Rightarrow> (call ev list \<Rightarrow> sockaddr) \<Rightarrow> live_buffers \<Rightarrow> call bst \<Rightarrow> call bst \<Rightarrow> bool"
  for E sn live where
  start: "tcp_run E sn live s s"
| after: "tcp_run E sn live s t \<Longrightarrow> enabled live t e \<Longrightarrow> perform E sn e t = Inr ((), u) \<Longrightarrow>
    tcp_run E sn live s u"

lemma tcp_run_keeps:
  assumes "tcp_run E sn live s t" "tcp_inv E live s" "script_ok E"
  shows "tcp_inv E live t \<and> balance s t"
  using assms
proof (induction rule: tcp_run.induct)
  case (after s t e u)
  then show ?case
    using perform_wp[of E live t e sn] by (auto simp: wp_runsD intro: balance_trans)
qed simp

section \<open>Properties\<close>

text \<open>C1. The TCP module never gets stuck and never leaks: after any sequence of handler calls on
  open sockets, completed requests and closed handles, every further such event runs without a
  fault; and the references and blocks gained since the start are exactly those of the request
  and handle wrappers that are alive.\<close>

theorem tcp_events_safe:
  assumes "tcp_inv E live s" "script_ok E" "tcp_run E sn live s t" "enabled live t e"
  shows "(\<exists>u. perform E sn e t = Inr ((), u)) \<and> wraps_wf t \<and>
    (\<forall>v. owned (trace t) v - owned (trace s) v = kept_wraps t v - kept_wraps s v) \<and>
    blocks t - blocks s = heap_wraps t - heap_wraps s"
proof -
  have t: "tcp_inv E live t" "balance s t"
    using tcp_run_keeps[OF assms(3,1,2)] by simp_all
  then show ?thesis
    using perform_wp[OF t(1) assms(2,4), of sn]
    by (auto simp: wp_runs balance_def tcp_inv_def net_inv_def algebra_simps)
qed

definition sample_sockets :: "call bst" where
  "sample_sockets = wrt.extend sample_open (bst.fields Map.empty)"

definition net_engine :: "call engine" where
  "net_engine = wraps_engine\<lparr>e_call := \<lambda>_ _ _ args. (False, JBool True)\<rparr>"

lemma sample_sockets_sel [simp]:
  "trace sample_sockets = trace sample_open" "handles sample_sockets = handles sample_open"
  "reqs sample_sockets = reqs sample_open" "next_ptr sample_sockets = next_ptr sample_open"
  "jmodule sample_sockets = (\<lambda>_. JObject 0)" "blocks sample_sockets = 0"
  by (simp_all add: sample_sockets_def sample_open_def sample_wraps_def wrt.defs bst.defs)

lemma sample_sockets_inv: "tcp_inv net_engine {} sample_sockets" "open_handle sample_sockets 1 (JObject 3)"
  "script_ok net_engine"
proof -
  have "process_ok net_engine (JObject 0)" "sets_ok net_engine" "native_law net_engine"
    by (auto simp: process_ok_def sets_ok_def native_law_def net_engine_def wraps_engine_def sample_engine_def)
  moreover have "wraps_wf sample_sockets" using sample_open_wf(1) by (simp add: wraps_wf_def)
  ultimately show "tcp_inv net_engine {} sample_sockets"
    by (simp add: tcp_inv_def net_inv_def buffers_ok_def)
  show "open_handle sample_sockets 1 (JObject 3)"
    using sample_open_wf(2) by (simp add: open_handle_def)
  show "script_ok net_engine"
    by (simp add: script_ok_def net_engine_def wraps_engine_def sample_engine_def)
qed

theorem tcp_events_safe_witness:
  "\<exists>u. perform net_engine (\<lambda>_. AF_other) (Handler OpShutdown (JObject 3) [JFunction 9]) sample_sockets =
     Inr ((), u)"
proof -
  have "enabled {} sample_sockets (Handler OpShutdown (JObject 3) [JFunction 9])"
    using sample_sockets_inv(2) by (auto simp: tcp_args_def)
  from tcp_events_safe[OF sample_sockets_inv(1,3) tcp_run.start this]
  show ?thesis by blast
qed



definition socket_and_buffer :: "call bst" where
  "socket_and_buffer = sample_buffers\<lparr>
     trace := trace sample_buffers @ [EAcquire (JObject 7), ESetNative (JObject 7) 3],
     handles := [3 \<mapsto> \<lparr>hw_jobject = JObject 7, hw_open = True, hw_on_close = False\<rparr>], next_ptr := 4\<rparr>"

text \<open>The answers for the process object (0), and those of \<open>buffer_engine\<close> for the buffers.\<close>

definition socket_engine :: "call engine" where
  "socket_engine = wraps_engine\<lparr>e_prop := \<lambda>tr j n. if j = JObject 0 then e_prop wraps_engine tr j n
     else e_prop buffer_engine tr j n\<rparr>"

lemma socket_and_buffer_ok:
  "net_inv socket_engine socket_and_buffer" "open_handle socket_and_buffer 3 (JObject 7)"
  "builtin socket_and_buffer (JObject 1) 1 wrap_abc" "js_buffer socket_engine (JObject 2) (JObject 1) wrap_abc"
proof -
  have "process_ok socket_engine (JObject 0)"
    by (auto simp: process_ok_def socket_engine_def wraps_engine_def sample_engine_def)
  moreover have "wraps_wf socket_and_buffer"
    by (auto simp: wraps_wf_def socket_and_buffer_def sample_buffers_def native_of_def split: if_splits)
  moreover have "native_law socket_engine"
    by (simp add: native_law_def socket_engine_def wraps_engine_def)
  ultimately show "net_inv socket_engine socket_and_buffer"
    by (simp add: net_inv_def socket_and_buffer_def sample_buffers_def)
  show "open_handle socket_and_buffer 3 (JObject 7)"
    by (simp add: open_handle_def socket_and_buffer_def)
  show "builtin socket_and_buffer (JObject 1) 1 wrap_abc"
    using sample_buffers_ok(2) by (simp add: builtin_def socket_and_buffer_def native_of_append)
  show "js_buffer socket_engine (JObject 2) (JObject 1) wrap_abc"
    using sample_buffers_ok(3) by (simp add: js_buffer_def socket_engine_def)
qed



end
