(* ===== verification/Iot_Udp.thy ===== *)
theory Iot_Udp
  imports Iot_Tcp
begin

text \<open>
  \<^verbatim>\<open>src/module/iotjs_module_udp.c\<close>: datagram sockets, as built for Linux (on NuttX the socket options
  and the memberships are an assertion that fails). The wrapper of a socket is known by the number of
  its handle wrapper, as in the TCP module, whose address functions it uses. A send request also
  remembers the size of its message, the field \<open>msg_size\<close> of the state.
\<close>

record 'c ust = "'c bst" +
  msg_size :: "nat \<Rightarrow> int"

section \<open>Socket wrappers\<close>

definition iotjs_udpwrap_create :: "call engine \<Rightarrow> jval \<Rightarrow> ((call, 'z) wrt_scheme, nat) prog" where
  "iotjs_udpwrap_create E judp =
     bnd IOTJS_ALLOC (\<lambda>udpwrap.
     sq (iotjs_handlewrap_initialize E udpwrap judp)
    (bnd iotjs_environment_get (\<lambda>_.
     bnd iotjs_environment_loop (\<lambda>loop.
     bnd (sys E (UvUdpInit loop udpwrap)) (\<lambda>_.
     ret udpwrap)))))"

definition iotjs_udpwrap_destroy :: "nat \<Rightarrow> (('c, 'z) wrt_scheme, unit) prog" where
  "iotjs_udpwrap_destroy udpwrap = sq (iotjs_handlewrap_destroy udpwrap) IOTJS_RELEASE"

definition iotjs_udpwrap_udp_handle :: "'c engine \<Rightarrow> nat \<Rightarrow> (('c, 'z) wrt_scheme, nat) prog" where
  "iotjs_udpwrap_udp_handle E udpwrap = iotjs_handlewrap_get_uv_handle E udpwrap"

definition iotjs_udpwrap_from_handle :: "'c engine \<Rightarrow> nat \<Rightarrow> (('c, 'z) wrt_scheme, nat) prog" where
  "iotjs_udpwrap_from_handle E udp_handle =
     bnd (iotjs_handlewrap_from_handle E udp_handle) (\<lambda>udpwrap.
     bnd (iotjs_udpwrap_udp_handle E udpwrap) (\<lambda>h.
     sq (IOTJS_ASSERT ''iotjs_udpwrap_from_handle'' (h = udp_handle))
    (ret udpwrap)))"

definition iotjs_udpwrap_from_jobject :: "'c engine \<Rightarrow> jval \<Rightarrow> (('c, 'z) wrt_scheme, nat) prog" where
  "iotjs_udpwrap_from_jobject E judp = iotjs_handlewrap_from_jobject E judp"

definition iotjs_udpwrap_jobject :: "'c engine \<Rightarrow> nat \<Rightarrow> (('c, 'z) wrt_scheme, jval) prog" where
  "iotjs_udpwrap_jobject E udpwrap = iotjs_handlewrap_jobject E udpwrap"

section \<open>Send requests\<close>

definition iotjs_send_reqwrap_create :: "jval \<Rightarrow> int \<Rightarrow> (('c, 'z) ust_scheme, nat) prog" where
  "iotjs_send_reqwrap_create jcallback n =
     bnd IOTJS_ALLOC (\<lambda>send_reqwrap.
     sq (iotjs_reqwrap_initialize send_reqwrap jcallback)
    (sq (upd (\<lambda>s. s\<lparr>msg_size := (msg_size s)(send_reqwrap := n)\<rparr>))
    (ret send_reqwrap)))"

definition iotjs_send_reqwrap_destroy :: "nat \<Rightarrow> (('c, 'z) wrt_scheme, unit) prog" where
  "iotjs_send_reqwrap_destroy p = sq (iotjs_reqwrap_destroy p) IOTJS_RELEASE"

definition iotjs_send_reqwrap_dispatched :: "nat \<Rightarrow> (('c, 'z) wrt_scheme, unit) prog" where
  "iotjs_send_reqwrap_dispatched p = iotjs_send_reqwrap_destroy p"

definition iotjs_send_reqwrap_req :: "nat \<Rightarrow> nat" where
  "iotjs_send_reqwrap_req p = p"

definition iotjs_send_reqwrap_jcallback :: "nat \<Rightarrow> (('c, 'z) wrt_scheme, jval) prog" where
  "iotjs_send_reqwrap_jcallback p = iotjs_reqwrap_jcallback p"

definition iotjs_send_reqwrap_msg_size :: "nat \<Rightarrow> (('c, 'z) ust_scheme, int) prog" where
  "iotjs_send_reqwrap_msg_size p = gets (\<lambda>s. msg_size s p)"

text \<open>
  Setting the size commutes with the rest of the creation: creating the request is creating a plain
  one (\<open>reqwrap_new\<close>) in the state that already has the size.
\<close>

definition sized :: "int \<Rightarrow> ('c, 'z) ust_scheme \<Rightarrow> ('c, 'z) ust_scheme" where
  "sized n s = s\<lparr>msg_size := (msg_size s)(next_ptr s := n)\<rparr>"

interpretation send_req: request_wrapper
  reqwrap_new iotjs_send_reqwrap_dispatched iotjs_send_reqwrap_jcallback
  unfolding iotjs_send_reqwrap_dispatched_def
    iotjs_send_reqwrap_destroy_def iotjs_send_reqwrap_jcallback_def reqwrap_free_def[symmetric]
  by (rule rw.request_wrapper_axioms)

section \<open>Handlers and callbacks\<close>

definition UDP :: "call engine \<Rightarrow> ((call, 'z) wrt_scheme, unit) prog" where
  "UDP E =
     JHANDLER_CHECK_THIS E ''___UDP_native'' is_object
    (JHANDLER_CHECK_ARGS E ''___UDP_native'' []
    (bnd JHANDLER_GET_THIS (\<lambda>judp.
     bnd (iotjs_udpwrap_create E judp) (\<lambda>_. ret ()))))"

abbreviation UV_UDP_REUSEADDR :: int where
  "UV_UDP_REUSEADDR \<equiv> 4"

definition Bind_udp :: "call engine \<Rightarrow> ((call, 'z) wrt_scheme, unit) prog" where
  "Bind_udp E =
     JHANDLER_CHECK_THIS E ''___Bind_native'' is_object
    (JHANDLER_CHECK_ARGS E ''___Bind_native'' [is_string, is_number]
    (bnd JHANDLER_GET_THIS (\<lambda>judp.
     bnd (iotjs_udpwrap_from_jobject E judp) (\<lambda>udp_wrap.
     bnd (JHANDLER_GET_ARG 0 iotjs_jval_as_string) (\<lambda>address.
     bnd (JHANDLER_GET_INT 1) (\<lambda>port.
     bnd JHANDLER_GET_THIS (\<lambda>this_obj.
     bnd (iotjs_jval_get_property E this_obj ''_reuseAddr'') (\<lambda>reuse_addr.
     sq (IOTJS_ASSERT ''Bind'' (is_boolean reuse_addr \<or> reuse_addr = JUndefined))
    (bnd (if reuse_addr \<noteq> JUndefined
          then bnd (iotjs_jval_as_boolean reuse_addr) (\<lambda>b. ret (if b then UV_UDP_REUSEADDR else 0))
          else ret 0) (\<lambda>flags.
     bnd (sys E (UvIp4Addr (string_text address) port)) (\<lambda>err.
     bnd (if err = 0
          then bnd (iotjs_udpwrap_udp_handle E udp_wrap) (\<lambda>h.
               sys E (UvUdpBind h (string_text address) port flags))
          else ret err) (\<lambda>err.
     sq (iotjs_jhandler_return_number (num err))
    (sq (iotjs_jval_destroy reuse_addr)
    (iotjs_string_destroy address))))))))))))))"

definition OnAlloc_udp :: "nat \<Rightarrow> (('c, 'z) rt_scheme, char list \<times> nat) prog" where
  "OnAlloc_udp suggested_size =
     (let suggested_size = (if suggested_size > IOTJS_MAX_READ_BUFFER_SIZE
                            then IOTJS_MAX_READ_BUFFER_SIZE else suggested_size)
      in bnd (iotjs_buffer_allocate suggested_size) (\<lambda>base. ret (base, suggested_size)))"

text \<open>\<open>base\<close> is the block of the \<^verbatim>\<open>uv_buf_t\<close> and \<open>addr\<close> the sender, \<open>None\<close> for NULL.\<close>

definition OnRecv ::
  "call engine \<Rightarrow> jval \<Rightarrow> nat \<Rightarrow> int \<Rightarrow> char list option \<Rightarrow> sockaddr option \<Rightarrow>
     ((call, 'z) bst_scheme, unit) prog" where
  "OnRecv E global handle nread base addr =
     (if nread = 0 \<and> addr = None
      then if base \<noteq> None then iotjs_buffer_release else ret ()
      else
        bnd (iotjs_udpwrap_from_handle E handle) (\<lambda>udp_wrap.
        bnd (iotjs_udpwrap_jobject E udp_wrap) (\<lambda>judp.
        sq (IOTJS_ASSERT ''OnRecv'' (is_object judp))
       (bnd (iotjs_jval_get_property E judp ''onmessage'') (\<lambda>jonmessage.
        sq (IOTJS_ASSERT ''OnRecv'' (is_function jonmessage))
       (bnd (iotjs_jargs_create 4) (\<lambda>jargs.
        bnd (iotjs_jargs_append_number jargs (num nread)) (\<lambda>jargs.
        bnd (iotjs_jargs_append_jval jargs judp) (\<lambda>jargs.
        if nread < 0
        then sq (if base \<noteq> None then iotjs_buffer_release else ret ())
            (sq (iotjs_make_callback E jonmessage JUndefined jargs)
            (sq (iotjs_jval_destroy jonmessage)
            (iotjs_jargs_destroy jargs)))
        else
          bnd (iotjs_bufferwrap_create_buffer E global (nat nread)) (\<lambda>jbuffer.
          bnd (iotjs_bufferwrap_from_jbuffer E jbuffer) (\<lambda>buffer_wrap.
          bnd (iotjs_bufferwrap_copy buffer_wrap
                 (SrcBytes (case base of None \<Rightarrow> [] | Some cs \<Rightarrow> cs)) (nat nread)) (\<lambda>_.
          bnd (iotjs_jargs_append_jval jargs jbuffer) (\<lambda>jargs.
          bnd (iotjs_jval_create_object E) (\<lambda>rinfo.
          sq (case addr of None \<Rightarrow> fail (NullPointer ''addr'') | Some a \<Rightarrow> AddressToJS E rinfo a)
         (bnd (iotjs_jargs_append_jval jargs rinfo) (\<lambda>jargs.
          sq (iotjs_make_callback E jonmessage JUndefined jargs)
         (sq (iotjs_jval_destroy rinfo)
         (sq (iotjs_jval_destroy jbuffer)
         (sq (iotjs_jval_destroy jonmessage)
         (sq iotjs_buffer_release
         (iotjs_jargs_destroy jargs)))))))))))))))))))))"

abbreviation UV_EALREADY :: int where
  "UV_EALREADY \<equiv> -114"

definition RecvStart :: "call engine \<Rightarrow> ((call, 'z) wrt_scheme, unit) prog" where
  "RecvStart E =
     JHANDLER_CHECK_THIS E ''___RecvStart_native'' is_object
    (JHANDLER_CHECK_ARGS E ''___RecvStart_native'' []
    (bnd JHANDLER_GET_THIS (\<lambda>judp.
     bnd (iotjs_udpwrap_from_jobject E judp) (\<lambda>udp_wrap.
     bnd (iotjs_udpwrap_udp_handle E udp_wrap) (\<lambda>h.
     bnd (sys E (UvUdpRecvStart h)) (\<lambda>err.
     iotjs_jhandler_return_number (num (if err = UV_EALREADY then 0 else err))))))))"

definition RecvStop :: "call engine \<Rightarrow> ((call, 'z) wrt_scheme, unit) prog" where
  "RecvStop E =
     JHANDLER_CHECK_THIS E ''___RecvStop_native'' is_object
    (JHANDLER_CHECK_ARGS E ''___RecvStop_native'' []
    (bnd JHANDLER_GET_THIS (\<lambda>judp.
     bnd (iotjs_udpwrap_from_jobject E judp) (\<lambda>udp_wrap.
     bnd (iotjs_udpwrap_udp_handle E udp_wrap) (\<lambda>h.
     bnd (sys E (UvUdpRecvStop h)) (\<lambda>r.
     iotjs_jhandler_return_number (num r)))))))"

definition OnSend :: "'c engine \<Rightarrow> nat \<Rightarrow> int \<Rightarrow> (('c, 'z) ust_scheme, unit) prog" where
  "OnSend E req_wrap status =
     sq (IOTJS_ASSERT ''OnSend'' (req_wrap \<noteq> 0))
    (bnd (iotjs_send_reqwrap_jcallback req_wrap) (\<lambda>jcallback.
     sq (if is_function jcallback
         then bnd (iotjs_jargs_create 2) (\<lambda>jargs.
              bnd (iotjs_jargs_append_number jargs (num status)) (\<lambda>jargs.
              bnd (iotjs_send_reqwrap_msg_size req_wrap) (\<lambda>n.
              bnd (iotjs_jargs_append_number jargs (num n)) (\<lambda>jargs.
              sq (iotjs_make_callback E jcallback JUndefined jargs)
             (iotjs_jargs_destroy jargs)))))
         else ret ())
    (iotjs_send_reqwrap_dispatched req_wrap)))"

text \<open>
  The length goes through an \<^verbatim>\<open>int\<close> before it becomes a \<^verbatim>\<open>size_t\<close> again. The fourth argument may be
  undefined for the first assertion, not for the read that follows.
\<close>

definition Send :: "call engine \<Rightarrow> ((call, 'z) ust_scheme, unit) prog" where
  "Send E =
     JHANDLER_CHECK_THIS E ''___Send_native'' is_object
    (JHANDLER_CHECK_ARGS E ''___Send_native'' [is_object, is_number, is_string]
    (bnd (iotjs_jhandler_get_arg 3) (\<lambda>arg3.
     sq (IOTJS_ASSERT ''Send'' (is_function arg3 \<or> arg3 = JUndefined))
    (bnd JHANDLER_GET_THIS (\<lambda>judp.
     bnd (iotjs_udpwrap_from_jobject E judp) (\<lambda>udp_wrap.
     bnd (JHANDLER_GET_ARG 0 iotjs_jval_as_object) (\<lambda>jbuffer.
     bnd (bnd (JHANDLER_GET_ARG 1 iotjs_jval_as_number) (double_to_int 0 (2 ^ 16))) (\<lambda>port.
     bnd (JHANDLER_GET_ARG 2 iotjs_jval_as_string) (\<lambda>address.
     bnd (JHANDLER_GET_ARG 3 iotjs_jval_as_object) (\<lambda>jcallback.
     bnd (iotjs_bufferwrap_from_jbuffer E jbuffer) (\<lambda>buffer_wrap.
     bnd (iotjs_bufferwrap_buffer buffer_wrap) (\<lambda>buffer.
     bnd (bnd (iotjs_bufferwrap_length E buffer_wrap) (\<lambda>n. ret (c_int32 (int n)))) (\<lambda>len.
     bnd (iotjs_send_reqwrap_create jcallback (c_size len)) (\<lambda>req_wrap.
     bnd (bnd (sys E (UvIp4Addr (string_text address) port)) (\<lambda>err.
          if err = 0
          then bnd (iotjs_udpwrap_udp_handle E udp_wrap) (\<lambda>h.
               sys E (UvUdpSend (iotjs_send_reqwrap_req req_wrap) h
                 (take (nat (c_size len)) (case buffer of None \<Rightarrow> [] | Some cs \<Rightarrow> cs))
                 (string_text address) port))
          else ret err)) (\<lambda>err.
     sq (if err \<noteq> 0 then iotjs_send_reqwrap_dispatched req_wrap else ret ())
    (sq (iotjs_jhandler_return_number (num err))
    (iotjs_string_destroy address)))))))))))))))))"

definition Close_udp :: "call engine \<Rightarrow> ((call, 'z) wrt_scheme, unit) prog" where
  "Close_udp E =
     JHANDLER_CHECK_THIS E ''___Close_native'' is_object
    (JHANDLER_CHECK_ARGS E ''___Close_native'' []
    (bnd JHANDLER_GET_THIS (\<lambda>judp.
     bnd (iotjs_handlewrap_from_jobject E judp) (\<lambda>wrap.
     iotjs_handlewrap_close E wrap False))))"

definition DoGetSockName_udp ::
  "call engine \<Rightarrow> (call ev list \<Rightarrow> sockaddr) \<Rightarrow> ((call, 'z) wrt_scheme, unit) prog" where
  "DoGetSockName_udp E sn =
     JHANDLER_CHECK_ARGS E ''DoGetSockName'' [is_object]
    (bnd JHANDLER_GET_THIS (\<lambda>jthis.
     bnd (iotjs_udpwrap_from_jobject E jthis) (\<lambda>wrap.
     sq (IOTJS_ASSERT ''DoGetSockName'' (wrap \<noteq> 0))
    (bnd (iotjs_udpwrap_udp_handle E wrap) (\<lambda>h.
     bnd (sys E (UvUdpGetsockname h)) (\<lambda>err.
     bnd (gets (\<lambda>s. sn (trace s))) (\<lambda>addr.
     sq (if err = 0
         then bnd (JHANDLER_GET_ARG 0 iotjs_jval_as_object) (\<lambda>obj. AddressToJS E obj addr)
         else ret ())
     (iotjs_jhandler_return_number (num err)))))))))"

definition GetSockeName_udp ::
  "call engine \<Rightarrow> (call ev list \<Rightarrow> sockaddr) \<Rightarrow> ((call, 'z) wrt_scheme, unit) prog" where
  "GetSockeName_udp E sn = DoGetSockName_udp E sn"

text \<open>\<open>fn h flag\<close> is the call of libuv that sets the option.\<close>

definition IOTJS_UV_SET_SOCKOPT ::
  "call engine \<Rightarrow> string \<Rightarrow> (nat \<Rightarrow> int \<Rightarrow> call) \<Rightarrow> ((call, 'z) wrt_scheme, unit) prog" where
  "IOTJS_UV_SET_SOCKOPT E name fn =
     JHANDLER_CHECK_THIS E name is_object
    (JHANDLER_CHECK_ARGS E name [is_number]
    (bnd JHANDLER_GET_THIS (\<lambda>judp.
     bnd (iotjs_udpwrap_from_jobject E judp) (\<lambda>udp_wrap.
     bnd (JHANDLER_GET_INT 0) (\<lambda>flag.
     bnd (iotjs_udpwrap_udp_handle E udp_wrap) (\<lambda>h.
     bnd (sys E (fn h flag)) (\<lambda>err.
     iotjs_jhandler_return_number (num err))))))))"

definition SetBroadcast :: "call engine \<Rightarrow> ((call, 'z) wrt_scheme, unit) prog" where
  "SetBroadcast E = IOTJS_UV_SET_SOCKOPT E ''___SetBroadcast_native'' UvUdpSetBroadcast"

definition SetTTL :: "call engine \<Rightarrow> ((call, 'z) wrt_scheme, unit) prog" where
  "SetTTL E = IOTJS_UV_SET_SOCKOPT E ''___SetTTL_native'' UvUdpSetTTL"

definition SetMulticastTTL :: "call engine \<Rightarrow> ((call, 'z) wrt_scheme, unit) prog" where
  "SetMulticastTTL E = IOTJS_UV_SET_SOCKOPT E ''___SetMulticastTTL_native'' UvUdpSetMulticastTTL"

definition SetMulticastLoopback :: "call engine \<Rightarrow> ((call, 'z) wrt_scheme, unit) prog" where
  "SetMulticastLoopback E = IOTJS_UV_SET_SOCKOPT E ''___SetMulticastLoopback_native'' UvUdpSetMulticastLoop"

text \<open>\<open>join\<close> tells \<^verbatim>\<open>UV_JOIN_GROUP\<close> from \<^verbatim>\<open>UV_LEAVE_GROUP\<close>.\<close>

definition SetMembership :: "call engine \<Rightarrow> bool \<Rightarrow> ((call, 'z) wrt_scheme, unit) prog" where
  "SetMembership E join =
     JHANDLER_CHECK_THIS E ''SetMembership'' is_object
    (JHANDLER_CHECK_ARGS E ''SetMembership'' [is_string]
    (bnd JHANDLER_GET_THIS (\<lambda>judp.
     bnd (iotjs_udpwrap_from_jobject E judp) (\<lambda>udp_wrap.
     bnd (JHANDLER_GET_ARG 0 iotjs_jval_as_string) (\<lambda>address.
     bnd (iotjs_jhandler_get_arg 1) (\<lambda>arg1.
     bnd (if arg1 = JUndefined \<or> arg1 = JNull then ret None
          else bnd (iotjs_jval_as_string arg1) (\<lambda>iface. ret (Some iface))) (\<lambda>iface.
     bnd (iotjs_udpwrap_udp_handle E udp_wrap) (\<lambda>h.
     bnd (sys E (UvUdpSetMembership h (string_text address) (map_option string_text iface) join)) (\<lambda>err.
     sq (iotjs_jhandler_return_number (num err))
    (sq (iotjs_string_destroy address)
    (case iface of None \<Rightarrow> ret () | Some i \<Rightarrow> iotjs_string_destroy i)))))))))))"

definition AddMembership :: "call engine \<Rightarrow> ((call, 'z) wrt_scheme, unit) prog" where
  "AddMembership E = SetMembership E True"

definition DropMembership :: "call engine \<Rightarrow> ((call, 'z) wrt_scheme, unit) prog" where
  "DropMembership E = SetMembership E False"

definition Ref :: "(('c, 'z) hrt_scheme, unit) prog" where
  "Ref = sq (IOTJS_ASSERT ''Not implemented'' False) iotjs_jhandler_return_null"

definition Unref :: "(('c, 'z) hrt_scheme, unit) prog" where
  "Unref = sq (IOTJS_ASSERT ''Not implemented'' False) iotjs_jhandler_return_null"

definition InitUdp :: "'c engine \<Rightarrow> (('c, 'z) rt_scheme, jval) prog" where
  "InitUdp E =
     bnd (iotjs_jval_create_function E) (\<lambda>udp.
     bnd (iotjs_jval_create_object E) (\<lambda>prototype.
     sq (iotjs_jval_set_property_jval E udp ''prototype'' prototype)
    (sq (set_methods E prototype [''bind'', ''recvStart'', ''recvStop'', ''send'', ''close'', ''getsockname'',
           ''setBroadcast'', ''setTTL'', ''setMulticastTTL'', ''setMulticastLoopback'', ''addMembership'',
           ''dropMembership'', ''ref'', ''unref''])
    (sq (iotjs_jval_destroy prototype)
    (ret udp)))))"

interpretation udp_module: module_init E "InitUdp E" for E :: "'c engine"
  by unfold_locales (simp add: InitUdp_def init_prototype)

section \<open>What the handlers do\<close>

lemma at_udp:
  assumes "net_inv E s" "open_handle s p t" "quiet (handler_entry t args s) u"
  shows "wp (iotjs_udpwrap_from_jobject E t) (\<lambda>r v. r = p \<and> quiet u v) u"
    and "wp (iotjs_udpwrap_udp_handle E p) (\<lambda>r v. r = p \<and> quiet u v) u"
  unfolding iotjs_udpwrap_from_jobject_def iotjs_udpwrap_udp_handle_def by (rule at_handle[OF assms])+

lemmas udp_one_call = one_call_at[folded iotjs_udpwrap_udp_handle_def]

lemma RecvStart_wp:
  assumes inv: "net_inv E s" "open_handle s p t"
  shows "wp (RecvStart E) (\<lambda>_. returned t [] s) (handler_entry t [] s)"
proof -
  have t: "is_object t" using inv open_handle_native[of s p t] by (simp add: net_inv_def)
  show ?thesis
    unfolding RecvStart_def
    apply (simp only: wp_JHANDLER_CHECK_THIS wp_check_args handler_entry_sel t if_True args_match.simps)
    apply (rule quiet_bnd[OF quiet_refl, where x = t], simp add: wp_simps t)
    apply (rule quiet_bnd, assumption, rule at_udp(1)[OF inv], assumption)
    apply (rule udp_one_call[OF inv, where f = "\<lambda>err. if err = UV_EALREADY then 0 else err"], assumption)
    done
qed

lemma RecvStop_wp:
  assumes inv: "net_inv E s" "open_handle s p t"
  shows "wp (RecvStop E) (\<lambda>_. returned t [] s) (handler_entry t [] s)"
proof -
  have t: "is_object t" using inv open_handle_native[of s p t] by (simp add: net_inv_def)
  show ?thesis
    unfolding RecvStop_def
    apply (simp only: wp_JHANDLER_CHECK_THIS wp_check_args handler_entry_sel t if_True args_match.simps)
    apply (rule quiet_bnd[OF quiet_refl, where x = t], simp add: wp_simps t)
    apply (rule quiet_bnd, assumption, rule at_udp(1)[OF inv], assumption)
    apply (rule udp_one_call[OF inv, where f = "\<lambda>r. r"], assumption)
    done
qed

lemma SOCKOPT_wp:
  assumes inv: "net_inv E s" "open_handle s p t" and args: "args = [JNumber (num n)]" "in_int32 n"
  shows "wp (IOTJS_UV_SET_SOCKOPT E name fn) (\<lambda>_. returned t args s) (handler_entry t args s)"
proof -
  have t: "is_object t" using inv open_handle_native[of s p t] by (simp add: net_inv_def)
  have am: "args_match [is_number] args" using args by simp
  show ?thesis
    unfolding IOTJS_UV_SET_SOCKOPT_def
    apply (simp only: wp_JHANDLER_CHECK_THIS wp_check_args handler_entry_sel am t if_True)
    apply (rule quiet_bnd[OF quiet_refl, where x = t], simp add: wp_simps t)
    apply (rule quiet_bnd, assumption, rule at_udp(1)[OF inv], assumption)
    apply (rule quiet_bnd, assumption, rule checked_int, assumption, simp add: args, simp add: args, rule args(2))
    apply (rule udp_one_call[OF inv, where f = "\<lambda>r. r"], assumption)
    done
qed

lemma GetSockeName_udp_wp:
  assumes inv: "net_inv E s" "open_handle s p t" and args: "args = [obj]" "is_object obj"
    and E: "sets_ok E"
  shows "wp (GetSockeName_udp E sn) (\<lambda>_. returned t args s) (handler_entry t args s)"
proof -
  have t: "is_object t" and wf: "wraps_wf s"
    using inv open_handle_native[of s p t] by (simp_all add: net_inv_def)
  have p: "p \<noteq> 0" using inv(2) wf by (auto simp: open_handle_def wraps_wf_def)
  have am: "args_match [is_object] args" using args by simp
  have addr: "wp (if err = 0 then bnd (JHANDLER_GET_ARG 0 iotjs_jval_as_object) (\<lambda>obj. AddressToJS E obj a)
      else ret ()) (\<lambda>_. quiet u) u" if "quiet (handler_entry t args s) u" for err :: int and a u
    using that args AddressToJS_wp[OF E args(2), of a u] by (simp add: wp_simps args_entry)
  show ?thesis
    unfolding GetSockeName_udp_def DoGetSockName_udp_def
    apply (simp only: wp_check_args handler_entry_sel am if_True)
    apply (rule quiet_bnd[OF quiet_refl, where x = t], simp add: wp_simps t)
    apply (rule quiet_bnd, assumption, rule at_udp(1)[OF inv], assumption)
    apply (rule quiet_sq, assumption, simp add: wp_assert p)
    apply (rule quiet_bnd, assumption, rule at_udp(2)[OF inv], assumption)
    apply (rule sys_bnd, assumption)
    apply (simp only: wp_bnd[of "gets _"] wp_gets)
    apply (rule quiet_sq, assumption, rule addr, assumption)
    apply (rule returned_number[OF _ wf], assumption)
    done
qed

lemma Close_udp_wp:
  assumes inv: "net_inv E s" "open_handle s p t"
  shows "wp (Close_udp E) (\<lambda>_ u. served t [] (False, JUndefined) s u \<and> reqs u = reqs s \<and>
     (\<forall>q k. open_handle u q k = open_handle s q k)) (handler_entry t [] s)"
proof -
  have E: "native_law E" and wf: "wraps_wf s" using inv(1) by (simp_all add: net_inv_def)
  have t: "is_object t" using open_handle_native[OF wf inv(2)] by simp
  show ?thesis
    unfolding Close_udp_def
    apply (simp only: wp_JHANDLER_CHECK_THIS wp_check_args handler_entry_sel t if_True args_match.simps)
    apply (rule quiet_bnd[OF quiet_refl, where x = t], simp add: wp_simps t)
    apply (rule quiet_bnd, assumption, rule at_handle(1)[OF inv], assumption)
    subgoal premises q for u1 u
    proof -
      obtain h where "handles u p = Some h"
        using quiet_fields(1)[OF q(2)] inv(2) by (auto simp: open_handle_def)
      moreover have "wraps_wf u" using quiet_wf[OF q(2)] wf by simp
      ultimately show ?thesis
        using served_steps[OF steps_trans[OF quiet_steps[OF q(2)]]] quiet_fields[OF q(2)] quiet_open[OF q(2)]
        by (intro wp_mono[OF handlewrap_close_wp]) auto
    qed
    done
qed

text \<open>Returning the code and giving up the strings, which were charged to the heap.\<close>

lemma return_charged:
  assumes e: "quiet (handler_entry t args s) e" and v: "quiet (charge k e) v" and wf: "wraps_wf s"
    and fin: "\<And>z. wp fin (\<lambda>_ w. w = charge (- k) z) z"
  shows "wp (sq (iotjs_jhandler_return_number (num r)) fin) (\<lambda>_. returned t args s) v"
  unfolding wp_sq
  by (rule wp_mono[OF served_number[OF e quiet_steps[OF v]]], use quiet_wf[OF e] quiet_wf[OF v] wf in simp,
      rule wp_mono[OF fin])
    (use quiet_fields(1,2)[OF e] quiet_fields(1,2)[OF v] in \<open>auto simp: returned_def\<close>)

lemma SetMembership_wp:
  assumes inv: "net_inv E s" "open_handle s p t"
    and args: "args = [JString tx, i]" "length tx < 2 ^ 32 - 1"
      "i = JUndefined \<or> i = JNull \<or> (\<exists>iface. i = JString iface \<and> length iface < 2 ^ 32 - 1)"
  shows "wp (SetMembership E join) (\<lambda>_. returned t args s) (handler_entry t args s)"
proof -
  have wf: "wraps_wf s" using inv(1) by (simp add: net_inv_def)
  have t: "is_object t" using open_handle_native[OF wf inv(2)] by simp
  have am: "args_match [is_string] args" using args(1) by simp
  have last: "wp (bnd (iotjs_udpwrap_udp_handle E p) (\<lambda>h.
      bnd (sys E (UvUdpSetMembership h a b join)) (\<lambda>err.
      sq (iotjs_jhandler_return_number (num err)) fin))) (\<lambda>_. returned t args s) (charge k e)"
    if e: "quiet (handler_entry t args s) e" and fin: "\<And>z. wp fin (\<lambda>_ w. w = charge (- k) z) z" for e k a b fin
  proof -
    have u: "wraps_wf (charge k e)" "open_handle (charge k e) p t"
      using inv quiet_wf[OF e] quiet_open[OF e] wf by simp_all
    have E: "native_law E" using inv(1) by (simp add: net_inv_def)
    have "wp (bnd (sys E (UvUdpSetMembership p a b join)) (\<lambda>err.
      sq (iotjs_jhandler_return_number (num err)) fin)) (\<lambda>_. returned t args s) (charge k e)"
      by (rule sys_bnd[OF quiet_refl]) (rule return_charged[OF e _ wf fin])
    then show ?thesis
      unfolding iotjs_udpwrap_udp_handle_def
      by (subst wp_bnd) (simp only: wp_handle_access(4)[OF u(1) E u(2)])
  qed
  show ?thesis
    unfolding SetMembership_def
    apply (simp only: wp_JHANDLER_CHECK_THIS wp_check_args handler_entry_sel am t if_True)
    apply (rule quiet_bnd[OF quiet_refl, where x = t], simp add: wp_simps t)
    apply (rule quiet_bnd, assumption, rule at_udp(1)[OF inv], assumption)
    apply (rule string_bnd[where tx = tx], simp add: args_entry args(1), simp add: args_entry args(1), rule args(2))
    subgoal premises pr for u1 e str
    proof -
      have e: "quiet (handler_entry t args s) e" using pr by blast
      have i: "1 < length (h_argv (charge (held str) e))" "h_argv (charge (held str) e) ! 1 = i"
        using args_entry(1)[OF e] args(1) by simp_all
      show ?thesis
        unfolding wp_bnd[of "iotjs_jhandler_get_arg 1"] wp_handler_get
      proof (intro conjI i, simp only: i(2))
        from args(3) show "wp (bnd (if i = JUndefined \<or> i = JNull then ret None
              else bnd (iotjs_jval_as_string i) (\<lambda>iface. ret (Some iface))) (\<lambda>iface.
            bnd (iotjs_udpwrap_udp_handle E p) (\<lambda>h.
            bnd (sys E (UvUdpSetMembership h (string_text str) (map_option string_text iface) join)) (\<lambda>err.
            sq (iotjs_jhandler_return_number (num err))
           (sq (iotjs_string_destroy str)
           (case iface of None \<Rightarrow> ret () | Some i \<Rightarrow> iotjs_string_destroy i))))))
          (\<lambda>_. returned t args s) (charge (held str) e)"
        proof (elim disjE exE conjE)
          fix iface assume f: "i = JString iface" "length iface < 2 ^ 32 - 1"
          have "wp (iotjs_jval_as_string i) (\<lambda>x. wp (bnd (iotjs_udpwrap_udp_handle E p) (\<lambda>h.
            bnd (sys E (UvUdpSetMembership h (string_text str) (map_option string_text (Some x)) join)) (\<lambda>err.
            sq (iotjs_jhandler_return_number (num err))
           (sq (iotjs_string_destroy str)
           (case Some x of None \<Rightarrow> ret () | Some i \<Rightarrow> iotjs_string_destroy i)))))
             (\<lambda>_. returned t args s)) (charge (held str) e)"
            unfolding f(1)
          proof (rule wp_mono[OF jval_as_string_wp[OF f(2)]], elim conjE)
            fix x z assume z: "z = charge (held x) (charge (held str) e)"
            show "wp (bnd (iotjs_udpwrap_udp_handle E p) (\<lambda>h.
              bnd (sys E (UvUdpSetMembership h (string_text str) (map_option string_text (Some x)) join)) (\<lambda>err.
              sq (iotjs_jhandler_return_number (num err))
             (sq (iotjs_string_destroy str)
             (case Some x of None \<Rightarrow> ret () | Some i \<Rightarrow> iotjs_string_destroy i)))))
             (\<lambda>_. returned t args s) z"
              unfolding z charge_charge
              by (rule last[OF e]) (simp add: wp_sq wp_string_destroy charge_charge)
          qed
          then show ?thesis
            by (simp only: f(1) jval.distinct simp_thms if_False bnd_assoc bnd_ret_left) (subst wp_bnd, simp only: f(1))
        qed (simp_all only: simp_thms if_True bnd_ret_left option.case option.map,
             (rule last[OF e], simp add: wp_sq wp_string_destroy wp_ret)+)
      qed
    qed
    done
qed

text \<open>Returning a number while one more value is held, which is dropped afterwards.\<close>

lemma served_release:
  assumes e: "quiet (handler_entry t args s) e" and u: "quiet (charge k e) u" and wf: "wraps_wf s"
    and pre: "\<And>w. owned pre w = (if w = r then 1 else 0)" "natives pre = []"
    and v: "quiet (u\<lparr>trace := trace u @ pre\<rparr>) v"
  shows "wp (iotjs_jhandler_return_number d) (\<lambda>_ z.
    served t args (False, JNumber d) s (charge (- k) (z\<lparr>trace := trace z @ [ERelease r]\<rparr>)) \<and>
    reqs z = reqs s \<and> handles z = handles s) v"
proof -
  let ?u = "u\<lparr>trace := trace u @ pre\<rparr>"
  have wv: "wraps_wf v"
    using wf quiet_wf[OF e] quiet_wf[OF u] quiet_wf[OF v] pre(2) by (simp add: wraps_wf_def native_of_append)
  have fin: "\<not> h_finished v"
    using quiet_frame(4)[OF e] quiet_frame(4)[OF u] quiet_frame(4)[OF v] by simp
  note ke = quiet_keeps[OF e] and ku = quiet_keeps[OF u] and kv = quiet_keeps[OF v]
  show ?thesis
  proof (rule wp_mono[OF return_keeps[OF fin wv]], elim conjE exE)
    fix x z
    assume z: "wraps_wf z" "keeps v z" "h_ret z = (False, JNumber d)" "reqs z = reqs v" "handles z = handles v"
      "native_of (trace z) = native_of (trace v)" "wrt.more z = wrt.more v" "env z = env v"
      "env_initialized z = env_initialized v"
    let ?z = "z\<lparr>trace := trace z @ [ERelease r]\<rparr>"
    have kz: "kept_wraps ?z = kept_wraps z" "heap_wraps ?z = heap_wraps z"
      "kept_wraps ?u = kept_wraps u" "heap_wraps ?u = heap_wraps u"
      by (simp_all add: kept_wraps_def heap_wraps_def fun_eq_iff)
    have sp: "spare z = spare ?u" "spare u = spare (charge k e)" "spare e = spare (handler_entry t args s)"
      using z(2) ke ku kv by (simp_all add: keeps_def)
    have "spare ?z w = spare (handler_entry t args s) w" for w
    proof -
      have "spare ?z w = spare z w - (if w = r then 1 else 0)"
        unfolding spare_def frame_refs_def kz by simp
      also have "\<dots> = spare ?u w - (if w = r then 1 else 0)" using sp(1) by simp
      also have "\<dots> = spare u w" unfolding spare_def frame_refs_def kz by (simp add: pre(1))
      finally show ?thesis using sp(2,3) by simp
    qed
    then have "keeps (handler_entry t args s) (charge (- k) ?z)"
      using z(2) ke ku kv kz by (simp add: keeps_def fun_eq_iff)
    moreover have "native_of (trace ?z) = native_of (trace s)"
    proof -
      have "native_of (trace ?z) j = native_of (trace s) j" for j
        using z(6) quiet_fields(9)[OF e, of j] quiet_fields(9)[OF u, of j] quiet_fields(9)[OF v, of j] pre(2)
        by (simp add: native_of_append)
      then show ?thesis by (simp add: fun_eq_iff)
    qed
    moreover have "wraps_wf ?z" using z(1) by (simp add: wraps_wf_def native_of_append)
    moreover have "wrt.more z = wrt.more s" "env z = env s" "env_initialized z = env_initialized s"
      "reqs z = reqs s" "handles z = handles s"
      using z quiet_fields(1,2,6)[OF e] quiet_fields(1,2,6)[OF u] quiet_fields(1,2,6)[OF v]
        steps_fields(3)[OF quiet_steps[OF e]] steps_fields(3)[OF quiet_steps[OF u]]
        steps_fields(3)[OF quiet_steps[OF v]] quiet_steps[OF e] quiet_steps[OF u] quiet_steps[OF v]
      by (simp_all add: steps_def) (cases s, simp add: handler_entry_def)
    ultimately show "served t args (False, JNumber d) s (charge (- k) ?z) \<and> reqs z = reqs s \<and> handles z = handles s"
      using z(3) by (simp add: served_def)
  qed
qed

lemma Bind_udp_wp:
  assumes inv: "net_inv E s" "open_handle s p t"
    and args: "args = [JString tx, JNumber (num port)]" "in_int32 port" "length tx < 2 ^ 32 - 1"
    and reuse: "\<And>tr. e_prop E tr t ''_reuseAddr'' = (False, r)" "r = JUndefined \<or> is_boolean r"
  shows "wp (Bind_udp E) (\<lambda>_. returned t args s) (handler_entry t args s)"
proof -
  let ?e = "handler_entry t args s"
  have E: "native_law E" and wf: "wraps_wf s" using inv(1) by (simp_all add: net_inv_def)
  have t: "is_object t" using open_handle_native[OF wf inv(2)] by simp
  have am: "args_match [is_string, is_number] args" using args(1) by simp
  let ?n = "''_reuseAddr''"
  let ?pre = "[ECreate (JString ?n), EGetProp t ?n r, ERelease (JString ?n)]"
  show ?thesis
    unfolding Bind_udp_def
    apply (simp only: wp_JHANDLER_CHECK_THIS wp_check_args handler_entry_sel am t if_True)
    apply (rule quiet_bnd[OF quiet_refl, where x = t], simp add: wp_simps t)
    apply (rule quiet_bnd, assumption, rule at_udp(1)[OF inv], assumption)
    apply (rule string_bnd[where tx = tx], simp add: args_entry args(1), simp add: args_entry args(1), rule args(3))
    apply (rule quiet_bnd[OF quiet_refl, where x = port], rule GET_INT_wp, simp add: args_entry args(1),
        simp add: args_entry args(1), rule args(2))
    apply (rule quiet_bnd[where x = t], assumption, simp add: wp_simps t args_entry quiet_frame)
    subgoal premises pr for u1 e str u2 u
    proof -
      have q: "quiet (charge (held str) e) u" and e: "quiet ?e e" using pr by blast+
      let ?u = "u\<lparr>trace := trace u @ ?pre\<rparr>"
      have fin: "wp (sq (iotjs_jhandler_return_number (num x)) (sq (iotjs_jval_destroy r) (iotjs_string_destroy str)))
          (\<lambda>_. returned t args s) v" if v: "quiet ?u v" for x v
        unfolding wp_sq
        by (rule wp_mono[OF served_release[where r = r, OF e q wf _ _ v]])
          (auto simp: wp_simps wp_string_destroy returned_def)
      have u: "wraps_wf v" "open_handle v p t" if v: "quiet ?u v" for v
        using inv(2) wf quiet_wf[OF v] quiet_wf[OF q] quiet_wf[OF e] quiet_open[OF v] quiet_open[OF q] quiet_open[OF e]
        by (simp_all add: wraps_wf_def native_of_append open_handle_def)
      have bind: "wp (bnd (sys E (UvIp4Addr a port)) (\<lambda>err.
          bnd (if err = 0 then bnd (iotjs_udpwrap_udp_handle E p) (\<lambda>h. sys E (UvUdpBind h a port flags)) else ret err) (\<lambda>err.
          sq (iotjs_jhandler_return_number (num err)) (sq (iotjs_jval_destroy r) (iotjs_string_destroy str)))))
          (\<lambda>_. returned t args s) ?u" for a flags
      proof (rule sys_bnd[OF quiet_refl])
        fix err v
        assume v: "quiet ?u v"
        show "wp (bnd (if err = 0 then bnd (iotjs_udpwrap_udp_handle E p) (\<lambda>h. sys E (UvUdpBind h a port flags)) else ret err) (\<lambda>err.
          sq (iotjs_jhandler_return_number (num err)) (sq (iotjs_jval_destroy r) (iotjs_string_destroy str))))
          (\<lambda>_. returned t args s) v"
        proof (cases "err = 0")
          case True
          have "wp (bnd (sys E (UvUdpBind p a port flags)) (\<lambda>err.
              sq (iotjs_jhandler_return_number (num err)) (sq (iotjs_jval_destroy r) (iotjs_string_destroy str))))
              (\<lambda>_. returned t args s) v"
            by (rule sys_bnd[OF v]) (rule fin)
          then show ?thesis
            unfolding if_P[OF True] bnd_assoc iotjs_udpwrap_udp_handle_def
            by (subst wp_bnd) (simp only: wp_handle_access(4)[OF u(1)[OF v] E u(2)[OF v]])
        qed (simp only: if_False bnd_ret_left fin[OF v])
      qed
      show ?thesis
        by (subst wp_bnd)
          (use reuse bind t in \<open>auto simp: wp_get_property bnd_ASSERT bnd_ret_left iotjs_jval_as_boolean_def elim!: is_boolean.elims\<close>)
    qed
    done
qed

section \<open>Sending\<close>

lemma sized_fields [simp]:
  "trace (sized n s) = trace s" "blocks (sized n s) = blocks s" "handles (sized n s) = handles s"
  "reqs (sized n s) = reqs s" "next_ptr (sized n s) = next_ptr s" "bufs (sized n s) = bufs s"
  "jmodule (sized n s) = jmodule s" "env (sized n s) = env s" "env_initialized (sized n s) = env_initialized s"
  "h_this (sized n s) = h_this s" "h_argv (sized n s) = h_argv s" "h_ret (sized n s) = h_ret s"
  "msg_size (sized n s) = (msg_size s)(next_ptr s := n)"
  by (simp_all add: sized_def)

lemma sized_wf [simp]: "wraps_wf (sized n s) = wraps_wf s" "net_inv E (sized n s) = net_inv E s"
  by (simp_all add: wraps_wf_def net_inv_def)

lemma sized_commute:
  "sized n (charge k s) = charge k (sized n s)"
  "sized n (handler_entry t args s) = handler_entry t args (sized n s)"
  by (cases s, simp add: sized_def charge_def handler_entry_def)+

lemma quiet_sized: "quiet s t \<Longrightarrow> quiet (sized n s) (sized n t)"
  unfolding quiet_def sized_def by (elim exE conjE, rule_tac x = tr in exI) simp

lemma send_create_eq: "wp (bnd (iotjs_send_reqwrap_create cb n) f) Q s = wp (bnd (reqwrap_new cb) f) Q (sized n s)"
  by (cases s) (simp add: iotjs_send_reqwrap_create_def reqwrap_new_def wp_simps sized_def)

text \<open>When libuv accepts the message, the last call it got before the return is the send.\<close>

definition sent :: "(nat \<Rightarrow> call) \<Rightarrow> nat \<Rightarrow> int \<Rightarrow> call ev list \<Rightarrow> bool" where
  "sent c q r tr \<longleftrightarrow> (r = 0 \<longrightarrow> (\<exists>pre. tr = pre @ [ESys (c q) 0]))"

lemma Send_wp:
  fixes s :: "(call, 'z) ust_scheme"
  assumes inv: "net_inv E s" "open_handle s p t"
    and buf: "builtin s j b w" "js_buffer E jb j w"
    and args: "args = [jb, JNumber (num port), JString tx, cb]" "is_function cb" "0 \<le> port" "port < 2 ^ 16"
      "length tx < 2 ^ 32 - 1"
  shows "wp (Send E) (\<lambda>_ u. \<exists>err host. submitted t args (sized (int (bw_length w)) s) cb
      (sent (\<lambda>q. UvUdpSend q p (bytes w) host port)) err u \<and> (NUL \<notin> set tx \<longrightarrow> host = tx))
    (handler_entry t args s)"
proof -
  let ?e = "handler_entry t args s" and ?n = "int (bw_length w)"
  let ?c = "\<lambda>host q. UvUdpSend q p (bytes w) host port"
  let ?R = "\<lambda>u. \<exists>err host. submitted t args (sized ?n s) cb (sent (?c host)) err u \<and> (NUL \<notin> set tx \<longrightarrow> host = tx)"
  have E: "native_law E" and wf: "wraps_wf s" using inv(1) by (simp_all add: net_inv_def)
  have t: "is_object t" using open_handle_native[OF wf inv(2)] by simp
  have cb: "is_object cb" using args(2) by simp
  have jb: "is_object jb" using buf(2) by (simp add: js_buffer_def)
  have am: "args_match [is_object, is_number, is_string] args" using args jb by simp
  have len: "bw_length w < 2 ^ 31" using buf(1) by (simp add: builtin_def buf_wf_def)
  have bts: "(case bw_buffer w of None \<Rightarrow> [] | Some cs \<Rightarrow> cs) = bytes w"
    "take (nat (c_size ?n)) (bytes w) = bytes w" "c_size ?n = ?n"
    using buf(1) len by (simp_all add: bytes_def builtin_def buf_wf_def)
  show ?thesis
    unfolding Send_def
    apply (simp only: wp_JHANDLER_CHECK_THIS wp_check_args handler_entry_sel am t if_True)
    apply (rule quiet_bnd[OF quiet_refl, where x = cb], simp add: wp_handler_get args)
    apply (rule quiet_sq, assumption, simp add: wp_assert args(2))
    apply (rule quiet_bnd[where x = t], assumption, simp add: wp_simps t args_entry)
    apply (rule quiet_bnd, assumption, rule at_udp(1)[OF inv], assumption)
    apply (rule quiet_bnd[where x = jb], assumption, simp add: wp_simps args jb args_entry)
    apply (rule quiet_bnd[where x = port], assumption, use args in \<open>simp add: wp_simps num_def args_entry\<close>)
    apply (rule string_bnd[where tx = tx], simp add: args_entry args(1), simp add: args_entry args(1), rule args(5))
    apply (rule quiet_bnd[OF quiet_refl, where x = cb], simp add: wp_simps args cb args_entry)
    subgoal premises pr for u1 u2 u3 u4 u5 e str u
    proof -
      have q: "quiet (charge (held str) e) u" and e: "quiet ?e e" and str: "string_wf str" "contents str = tx"
        using pr by blast+
      have b: "builtin v j b w" if "quiet (charge (held str) e) v" for v
        using buf(1) that by (simp add: quiet_builtin[OF that] quiet_builtin[OF e])
      have rd: "wp (iotjs_bufferwrap_buffer b) (\<lambda>r v. r = bw_buffer w \<and> quiet u v) u"
        if "quiet (charge (held str) e) u" for u :: "(call, 'z) ust_scheme"
        using b[OF that] by (simp add: builtin_def wp_simps)
      have ln: "wp (bnd (iotjs_bufferwrap_length E b) (\<lambda>n. ret (c_int32 (int n)))) (\<lambda>r v. r = ?n \<and> quiet u v) u"
        if "quiet (charge (held str) e) u" for u :: "(call, 'z) ust_scheme"
        unfolding wp_bnd by (rule wp_mono[OF length_wp[OF E b[OF that] buf(2)]]) (use len in \<open>simp add: wp_ret\<close>)
      have last: "wp (bnd (iotjs_send_reqwrap_create cb (c_size ?n)) (\<lambda>req_wrap.
         bnd (bnd (sys E (UvIp4Addr (string_text str) port)) (\<lambda>err.
              if err = 0
              then bnd (iotjs_udpwrap_udp_handle E p) (\<lambda>h.
                   sys E (UvUdpSend (iotjs_send_reqwrap_req req_wrap) h (bytes w) (string_text str) port))
              else ret err)) (\<lambda>err.
         sq (if err \<noteq> 0 then iotjs_send_reqwrap_dispatched req_wrap else ret ())
        (sq (iotjs_jhandler_return_number (num err)) (iotjs_string_destroy str))))) (\<lambda>_. ?R) v"
        if v: "quiet (charge (held str) e) v" for v
        unfolding send_create_eq bts(3)
      proof (rule send_req.submit_return[where I = "sent (?c (string_text str))"])
        show "quiet (handler_entry t args (sized ?n s)) (sized ?n e)"
          using quiet_sized[OF e] by (simp only: sized_commute)
        show "quiet (charge (held str) (sized ?n e)) (sized ?n v)"
          using quiet_sized[OF v] by (simp only: sized_commute)
        show "wraps_wf (sized ?n s)" "is_function cb" using wf args(2) by simp_all
        fix err and z :: "(call, 'z) ust_scheme"
        assume "submitted t args (sized ?n s) cb (sent (?c (string_text str))) err (charge (- held str) z)"
        then show "wp (iotjs_string_destroy str) (\<lambda>_. ?R) z"
          using string_text_contents[OF str(1)] str(2) by (auto simp: wp_string_destroy)
      next
        fix q and x :: "(call, 'z) ust_scheme"
        assume x: "wraps_wf x" "handles x = handles (sized ?n s)"
        show "wp (bnd (sys E (UvIp4Addr (string_text str) port)) (\<lambda>err.
              if err = 0
              then bnd (iotjs_udpwrap_udp_handle E p) (\<lambda>h.
                   sys E (UvUdpSend (iotjs_send_reqwrap_req q) h (bytes w) (string_text str) port))
              else ret err)) (\<lambda>err w'. quiet x w' \<and> sent (?c (string_text str)) q err (trace w')) x"
        proof (rule sys_bnd[OF quiet_refl])
          fix err y assume y: "quiet x y"
          have oy: "wraps_wf y" "open_handle y p t"
            using inv(2) x quiet_wf[OF y] quiet_open[OF y] by (simp_all add: open_handle_def)
          show "wp (if err = 0 then bnd (iotjs_udpwrap_udp_handle E p) (\<lambda>h.
                   sys E (UvUdpSend (iotjs_send_reqwrap_req q) h (bytes w) (string_text str) port))
              else ret err) (\<lambda>err w'. quiet x w' \<and> sent (?c (string_text str)) q err (trace w')) y"
            using y quiet_trans[OF y sys_quiet]
            by (simp add: iotjs_udpwrap_udp_handle_def iotjs_send_reqwrap_req_def wp_bnd
                wp_handle_access(4)[OF oy(1) E oy(2)] wp_sys wp_ret sent_def)
        qed
      qed
      show ?thesis
        apply (rule quiet_bnd[OF q], rule from_jbuffer_wp[OF E b[OF q] js_bufferD[OF buf(2)]])
        apply (rule quiet_bnd, assumption, rule rd, assumption)
        apply (rule quiet_bnd, assumption, rule ln, assumption)
        apply (simp only: bts(1,2))
        apply (rule last, assumption)
        done
    qed
    done
qed

lemma args_built_send:
  assumes "msg_size s p = n"
  shows "wp (bnd (iotjs_jargs_create 2) (\<lambda>jargs.
      bnd (iotjs_jargs_append_number jargs (num status)) (\<lambda>jargs.
      bnd (iotjs_send_reqwrap_msg_size p) (\<lambda>n. iotjs_jargs_append_number jargs (num n)))))
     (\<lambda>a t. args_built [JNumber (num status), JNumber (num n)] a s t) s"
  using assms
  by (auto simp: wp_simps args_built_def iotjs_send_reqwrap_msg_size_def intro!: exI split: if_splits)

lemma OnSend_wp:
  fixes s :: "(call, 'z) ust_scheme"
  assumes inv: "net_inv E s" "reqs s p = Some cb"
  shows "wp (OnSend E p status) (\<lambda>_ t. wraps_wf t \<and> steps s t \<and> reqs t = (reqs s)(p := None) \<and>
    handles t = handles s \<and> callback_made cb JUndefined [JNumber (num status), JNumber (num (msg_size s p))] s t) s"
proof -
  have wf: "wraps_wf s" and pm: "process_module E s" using inv(1) by (simp_all add: net_inv_def)
  then have p: "p \<noteq> 0" "is_function cb" using inv(2) by (auto simp: wraps_wf_def)
  let ?vs = "[JNumber (num status), JNumber (num (msg_size s p))]"
  let ?Q = "\<lambda>_ t. wraps_wf t \<and> steps s t \<and> reqs t = (reqs s)(p := None) \<and>
    handles t = handles s \<and> callback_made cb JUndefined ?vs s t"
  have tail: "wp (sq (iotjs_make_callback E cb JUndefined a) (sq (iotjs_jargs_destroy a) (iotjs_send_reqwrap_dispatched p))) ?Q t"
    if a: "args_built ?vs a s t" for a t
  proof -
    have "reqs t p = Some cb" using a inv(2) by (auto simp: args_built_def)
    then show ?thesis
      using send_req.complete_built[OF wf inv(2) pm a, of JUndefined]
      by (simp add: wp_bnd iotjs_send_reqwrap_jcallback_def wp_reqwrap_jcallback)
  qed
  have "wp (bnd (iotjs_jargs_create 2) (\<lambda>jargs.
      bnd (iotjs_jargs_append_number jargs (num status)) (\<lambda>jargs.
      bnd (iotjs_send_reqwrap_msg_size p) (\<lambda>n.
      bnd (iotjs_jargs_append_number jargs (num n)) (\<lambda>a.
      sq (iotjs_make_callback E cb JUndefined a) (sq (iotjs_jargs_destroy a) (iotjs_send_reqwrap_dispatched p))))))) ?Q s"
    using wp_mono[OF args_built_send[OF HOL.refl, where s = s and p = p and status = status] tail]
    by (simp only: wp_bnd)
  then show ?thesis
    unfolding OnSend_def bnd_ASSERT[OF p(1)] iotjs_send_reqwrap_jcallback_def
    using inv(2) p(2) by (simp add: wp_bnd[of "iotjs_reqwrap_jcallback p"] wp_reqwrap_jcallback bnd_sq wp_sq wp_bnd)
qed

section \<open>Runs of the module\<close>

datatype udp_op =
  UdpBind | UdpRecvStart | UdpRecvStop | UdpSend | UdpClose | UdpGetSockName | UdpBroadcast | UdpTTL
  | UdpMulticastTTL | UdpMulticastLoopback | UdpAdd | UdpDrop

fun udp_body ::
  "call engine \<Rightarrow> (call ev list \<Rightarrow> sockaddr) \<Rightarrow> udp_op \<Rightarrow> ((call, 'z) ust_scheme, unit) prog" where
  "udp_body E sn UdpBind = Bind_udp E"
| "udp_body E sn UdpRecvStart = RecvStart E"
| "udp_body E sn UdpRecvStop = RecvStop E"
| "udp_body E sn UdpSend = Send E"
| "udp_body E sn UdpClose = Close_udp E"
| "udp_body E sn UdpGetSockName = GetSockeName_udp E sn"
| "udp_body E sn UdpBroadcast = SetBroadcast E"
| "udp_body E sn UdpTTL = SetTTL E"
| "udp_body E sn UdpMulticastTTL = SetMulticastTTL E"
| "udp_body E sn UdpMulticastLoopback = SetMulticastLoopback E"
| "udp_body E sn UdpAdd = AddMembership E"
| "udp_body E sn UdpDrop = DropMembership E"

definition text_arg :: "jval \<Rightarrow> bool" where
  "text_arg v \<longleftrightarrow> (\<exists>tx. v = JString tx \<and> length tx < 2 ^ 32 - 1)"

definition int_arg :: "jval \<Rightarrow> bool" where
  "int_arg v \<longleftrightarrow> (\<exists>n. v = JNumber (num n) \<and> in_int32 n)"

text \<open>What \<^verbatim>\<open>src/js/dgram.js\<close> passes.\<close>

fun udp_args :: "live_buffers \<Rightarrow> udp_op \<Rightarrow> jval list \<Rightarrow> bool" where
  "udp_args live UdpBind args \<longleftrightarrow> (\<exists>a b. args = [a, b] \<and> text_arg a \<and> int_arg b)"
| "udp_args live UdpRecvStart args \<longleftrightarrow> args = []"
| "udp_args live UdpRecvStop args \<longleftrightarrow> args = []"
| "udp_args live UdpSend args \<longleftrightarrow> (\<exists>j b jb n port a cb. (j, b, jb, n) \<in> live \<and>
     args = [jb, JNumber (num port), a, cb] \<and> 0 \<le> port \<and> port < 2 ^ 16 \<and> text_arg a \<and> is_function cb)"
| "udp_args live UdpClose args \<longleftrightarrow> args = []"
| "udp_args live UdpGetSockName args \<longleftrightarrow> (\<exists>obj. args = [obj] \<and> is_object obj)"
| "udp_args live UdpAdd args \<longleftrightarrow> (\<exists>a i. args = [a, i] \<and> text_arg a \<and> (i = JUndefined \<or> i = JNull \<or> text_arg i))"
| "udp_args live UdpDrop args \<longleftrightarrow> (\<exists>a i. args = [a, i] \<and> text_arg a \<and> (i = JUndefined \<or> i = JNull \<or> text_arg i))"
| "udp_args live _ args \<longleftrightarrow> (\<exists>a. args = [a] \<and> int_arg a)"

definition reuse_ok :: "'c engine \<Rightarrow> bool" where
  "reuse_ok E \<longleftrightarrow> (\<forall>j. \<exists>r. (r = JUndefined \<or> is_boolean r) \<and> (\<forall>tr. e_prop E tr j ''_reuseAddr'' = (False, r)))"

definition udp_inv :: "call engine \<Rightarrow> live_buffers \<Rightarrow> (call, 'z) bst_scheme \<Rightarrow> bool" where
  "udp_inv E live s \<longleftrightarrow> net_inv E s \<and> sets_ok E \<and> reuse_ok E \<and> buffers_ok E live s"

text \<open>What a handler leaves as it was, besides the account.\<close>

definition stays :: "(call, 'z) bst_scheme \<Rightarrow> (call, 'z) bst_scheme \<Rightarrow> bool" where
  "stays s u \<longleftrightarrow> native_of (trace u) = native_of (trace s) \<and> bufs u = bufs s"

lemma served_stays:
  "served t args r s u \<Longrightarrow> wraps_wf u \<and> keeps (handler_entry t args s) u \<and> stays s u"
  by (cases s; cases u) (simp add: served_def stays_def)

lemma served_sized:
  fixes s :: "(call, 'z) ust_scheme"
  assumes "served t args r (sized n s) u"
  shows "wraps_wf u \<and> keeps (handler_entry t args s) u \<and> stays s u"
proof -
  have "spare (sized n x) = spare x" "heap_wraps (sized n x) = heap_wraps x" for x :: "(call, 'z) ust_scheme"
    by (simp_all add: spare_def frame_refs_def kept_wraps_def heap_wraps_def sized_def fun_eq_iff)
  then have "keeps (sized n (handler_entry t args s)) u = keeps (handler_entry t args s) u"
    by (simp only: keeps_def sized_fields)
  then show ?thesis
    using served_stays[OF assms] by (simp add: sized_commute[symmetric] stays_def)
qed

lemma udp_body_wp:
  fixes s :: "(call, 'z) ust_scheme"
  assumes inv: "udp_inv E live s" and sock: "open_handle s p t" and args: "udp_args live op args"
  shows "wp (udp_body E sn op) (\<lambda>_ u. wraps_wf u \<and> keeps (handler_entry t args s) u \<and> stays s u)
    (handler_entry t args s)"
proof -
  have net: "net_inv E s" and sets: "sets_ok E" and bufs: "buffers_ok E live s"
    using inv by (simp_all add: udp_inv_def)
  obtain r where r: "r = JUndefined \<or> is_boolean r" "\<And>tr. e_prop E tr t ''_reuseAddr'' = (False, r)"
    using inv unfolding udp_inv_def reuse_ok_def by blast
  note st = served_stays served_sized
  have ret: "wp body (\<lambda>_ u. wraps_wf u \<and> keeps (handler_entry t args s) u \<and> stays s u) (handler_entry t args s)"
    if "wp body (\<lambda>_. returned t args s) (handler_entry t args s)" for body args
    using that by (rule wp_mono) (auto simp: returned_def dest: served_stays)
  show ?thesis
  proof (cases op)
    case UdpBind
    then show ?thesis using args ret[OF Bind_udp_wp[OF net sock _ _ _ r(2,1)]] by (auto simp: text_arg_def int_arg_def)
  next
    case UdpRecvStart
    then show ?thesis using args ret[OF RecvStart_wp[OF net sock]] by auto
  next
    case UdpRecvStop
    then show ?thesis using args ret[OF RecvStop_wp[OF net sock]] by auto
  next
    case UdpSend
    then obtain j b jb n port tx cb where l: "(j, b, jb, n) \<in> live"
      and a: "args = [jb, JNumber (num port), JString tx, cb]" "is_function cb" "0 \<le> port" "port < 2 ^ 16"
        "length tx < 2 ^ 32 - 1"
      using args by (auto simp: text_arg_def)
    obtain w where w: "builtin s j b w" "js_buffer E jb j w" using buffers_okD[OF bufs l] .
    show ?thesis unfolding UdpSend udp_body.simps
      by (rule wp_mono[OF Send_wp[OF net sock w a]]) (auto simp: submitted_def dest: served_sized)
  next
    case UdpClose
    then have a: "args = []" using args by simp
    show ?thesis unfolding UdpClose udp_body.simps a
      by (rule wp_mono[OF Close_udp_wp[OF net sock]]) (use served_stays in blast)
  next
    case UdpGetSockName
    then show ?thesis using args ret[OF GetSockeName_udp_wp[OF net sock _ _ sets]] by auto
  next
    case UdpAdd
    then show ?thesis using args ret[OF SetMembership_wp[OF net sock]]
      by (auto simp: text_arg_def AddMembership_def)
  next
    case UdpDrop
    then show ?thesis using args ret[OF SetMembership_wp[OF net sock]]
      by (auto simp: text_arg_def DropMembership_def)
  qed (use args ret[OF SOCKOPT_wp[OF net sock]] in
      \<open>auto simp: int_arg_def SetBroadcast_def SetTTL_def SetMulticastTTL_def SetMulticastLoopback_def\<close>)
qed

datatype udp_event = Call udp_op jval "jval list" | Sent nat int | SocketClosed nat

fun udp_enabled :: "live_buffers \<Rightarrow> (call, 'z) ust_scheme \<Rightarrow> udp_event \<Rightarrow> bool" where
  "udp_enabled live s (Call op t args) \<longleftrightarrow> (\<exists>p. open_handle s p t) \<and> udp_args live op args"
| "udp_enabled live s (Sent p status) \<longleftrightarrow> reqs s p \<noteq> None"
| "udp_enabled live s (SocketClosed p) \<longleftrightarrow> (\<exists>j. open_handle s p j)"

fun udp_perform ::
  "call engine \<Rightarrow> (call ev list \<Rightarrow> sockaddr) \<Rightarrow> udp_event \<Rightarrow> ((call, 'z) ust_scheme, unit) prog" where
  "udp_perform E sn (Call op t args) = native_handler.serve (udp_body E sn op) (t, args)"
| "udp_perform E sn (Sent p status) = OnSend E p status"
| "udp_perform E sn (SocketClosed p) = iotjs_on_handle_closed E (\<lambda>_. ret ()) p"

lemma stays_inv:
  assumes "wraps_wf u" "jmodule u = jmodule s" "stays s u" "udp_inv E live s"
  shows "udp_inv E live u"
proof -
  have "buffers_ok E live u = buffers_ok E live s"
    using assms(3) by (simp add: buffers_ok_def builtin_def stays_def)
  then show ?thesis using assms by (simp add: udp_inv_def net_inv_def)
qed

lemma steps_stays: "steps s u \<Longrightarrow> jmodule u = jmodule s \<and> stays s u"
  by (cases s; cases u) (simp add: steps_def keeps_def stays_def native_of_def fun_eq_iff)

lemma udp_perform_wp:
  fixes s :: "(call, 'z) ust_scheme"
  assumes inv: "udp_inv E live s" and en: "udp_enabled live s e"
  shows "wp (udp_perform E sn e) (\<lambda>_ u. udp_inv E live u \<and> balance s u) s"
proof -
  have net: "net_inv E s" and E: "native_law E" and wf: "wraps_wf s"
    using inv by (simp_all add: udp_inv_def net_inv_def)
  have step: "wp m (\<lambda>_ u. udp_inv E live u \<and> balance s u) s" if "wp m (\<lambda>_ u. wraps_wf u \<and> steps s u \<and> R u) s" for m R
    using that by (rule wp_mono) (use steps_stays stays_inv[OF _ _ _ inv] steps_balance in blast)
  show ?thesis
  proof (cases e)
    case (Call op t args)
    then obtain p where p: "open_handle s p t" "udp_args live op args" using en by auto
    show ?thesis
      unfolding Call udp_perform.simps
      by (rule wp_mono[OF serve_keeps[OF udp_body_wp[OF inv p]]])
        (auto simp: stays_def native_of_append intro: stays_inv[OF _ _ _ inv])
  next
    case (Sent p status)
    then obtain cb where "reqs s p = Some cb" using en by auto
    then show ?thesis unfolding Sent udp_perform.simps by (rule step[OF OnSend_wp[OF net]])
  next
    case (SocketClosed p)
    then obtain j where j: "open_handle s p j" using en by auto
    have "wp ((\<lambda>_. ret ()) p) (\<lambda>_. quiet s) s" by (simp add: wp_ret)
    then show ?thesis unfolding SocketClosed udp_perform.simps
      by (rule step[OF on_handle_closed_wp[where cb = "\<lambda>_. ret ()", OF wf E j]])
  qed
qed

inductive udp_run ::
  "call engine \<Rightarrow> (call ev list \<Rightarrow> sockaddr) \<Rightarrow> live_buffers \<Rightarrow> (call, 'z) ust_scheme \<Rightarrow> (call, 'z) ust_scheme \<Rightarrow> bool"
  for E sn live where
  start: "udp_run E sn live s s"
| after: "udp_run E sn live s t \<Longrightarrow> udp_enabled live t e \<Longrightarrow> udp_perform E sn e t = Inr ((), u) \<Longrightarrow>
    udp_run E sn live s u"

lemma udp_run_keeps:
  assumes "udp_run E sn live s t" "udp_inv E live s"
  shows "udp_inv E live t \<and> balance s t"
  using assms
proof (induction rule: udp_run.induct)
  case (after s t e u)
  then show ?case
    using udp_perform_wp[of E live t e sn] by (auto simp: wp_runsD intro: balance_trans)
qed simp

section \<open>Properties\<close>

text \<open>C11. The UDP module never gets stuck and never leaks: after any sequence of handler calls on
  open sockets, completed sends and closed handles, every further such event runs without a fault;
  and the references and blocks gained since the start are exactly those of the wrappers alive.\<close>

theorem udp_events_safe:
  fixes s :: "(call, 'z) ust_scheme"
  assumes "udp_inv E live s" "udp_run E sn live s t" "udp_enabled live t e"
  shows "(\<exists>u. udp_perform E sn e t = Inr ((), u)) \<and> wraps_wf t \<and>
    (\<forall>v. owned (trace t) v - owned (trace s) v = kept_wraps t v - kept_wraps s v) \<and>
    blocks t - blocks s = heap_wraps t - heap_wraps s"
proof -
  have t: "udp_inv E live t" "balance s t" using udp_run_keeps[OF assms(2,1)] by simp_all
  then show ?thesis
    using udp_perform_wp[OF t(1) assms(3), of sn]
    by (auto simp: wp_runs balance_def udp_inv_def net_inv_def algebra_simps)
qed


definition datagram_socket :: "call ust" where
  "datagram_socket = bst.extend socket_and_buffer (ust.fields (\<lambda>_. 0))"

lemma datagram_socket_sel [simp]:
  "trace datagram_socket = trace socket_and_buffer" "handles datagram_socket = handles socket_and_buffer"
  "reqs datagram_socket = reqs socket_and_buffer" "next_ptr datagram_socket = next_ptr socket_and_buffer"
  "jmodule datagram_socket = jmodule socket_and_buffer" "bufs datagram_socket = bufs socket_and_buffer"
  by (simp_all add: datagram_socket_def bst.defs ust.defs)

lemma datagram_socket_ok:
  "net_inv socket_engine datagram_socket" "open_handle datagram_socket 3 (JObject 7)"
  "builtin datagram_socket (JObject 1) 1 wrap_abc"
  using socket_and_buffer_ok(1,2,3) by (simp_all add: net_inv_def wraps_wf_def open_handle_def builtin_def)



definition datagram_engine :: "call engine" where
  "datagram_engine = socket_engine\<lparr>e_prop := \<lambda>tr j n. if n = ''_reuseAddr'' then (False, JUndefined)
     else e_prop socket_engine tr j n\<rparr>"

lemma datagram_engine_inv: "udp_inv datagram_engine {} datagram_socket"
proof -
  have "process_ok datagram_engine (JObject 0)"
    by (auto simp: process_ok_def datagram_engine_def socket_engine_def wraps_engine_def sample_engine_def)
  moreover have "sets_ok datagram_engine" "native_law datagram_engine"
    by (simp_all add: sets_ok_def native_law_def datagram_engine_def socket_engine_def wraps_engine_def sample_engine_def)
  moreover have "reuse_ok datagram_engine"
    unfolding reuse_ok_def datagram_engine_def by (auto intro!: exI[of _ JUndefined])
  moreover have "wraps_wf datagram_socket" "jmodule datagram_socket = (\<lambda>_. JObject 0)"
    using datagram_socket_ok(1) by (simp_all add: net_inv_def socket_and_buffer_def sample_buffers_def)
  ultimately show ?thesis by (simp add: udp_inv_def net_inv_def buffers_ok_def)
qed

theorem udp_events_safe_witness:
  "\<exists>u. udp_perform datagram_engine (\<lambda>_. AF_other) (Call UdpTTL (JObject 7) [JNumber (num 64)]) datagram_socket =
     Inr ((), u)"
proof -
  have "udp_enabled {} datagram_socket (Call UdpTTL (JObject 7) [JNumber (num 64)])"
    using datagram_socket_ok(2) by (auto simp: int_arg_def in_int32_def)
  from udp_events_safe[OF datagram_engine_inv udp_run.start this] show ?thesis by blast
qed

text \<open>The first assertion of \<^verbatim>\<open>send\<close> admits an undefined callback, but the handler cannot run
  without one: reading the callback as an object stops at an assertion.\<close>

theorem udp_send_needs_callback:
  fixes s :: "(call, 'z) ust_scheme"
  assumes "net_inv E s" "open_handle s p t" "is_object jb" "0 \<le> port" "port < 2 ^ 16" "length tx < 2 ^ 32 - 1"
  shows "JHANDLER_FUNCTION (Send E) t [jb, JNumber (num port), JString tx, JUndefined] s =
    Inl (Assertion ''iotjs_jval_as_object'')"
proof (rule fails_handler)
  let ?args = "[jb, JNumber (num port), JString tx, JUndefined]"
  let ?e = "handler_entry t ?args s"
  have E: "native_law E" and wf: "wraps_wf ?e" and op: "open_handle ?e p t"
    using assms(1,2) by (simp_all add: net_inv_def)
  have t: "is_object t" using open_handle_native[OF wf op] by simp
  have undef: "fails (Assertion ''iotjs_jval_as_object'')
      (bnd (JHANDLER_GET_ARG 3 iotjs_jval_as_object) f) u" if "3 < length (h_argv u)" "h_argv u ! 3 = JUndefined" for f and u :: "(call, 'z) ust_scheme"
    unfolding JHANDLER_GET_ARG_def
    by (intro fails_first fails_bnd)
      (use that in \<open>simp add: wp_handler_get iotjs_jval_as_object_def fails_sq_first fails_ASSERT\<close>)
  show "fails (Assertion ''iotjs_jval_as_object'') (Send E) ?e"
    unfolding Send_def
    apply (rule fails_checks(1), simp add: t)
    apply (rule fails_checks(2), simp add: assms(3))
    apply (rule fails_bnd, simp add: wp_handler_get, rule fails_sq, simp add: wp_assert)
    apply (rule fails_bnd, simp add: wp_handler_get t)
    apply (rule fails_bnd, simp only: iotjs_udpwrap_from_jobject_def wp_handle_access(3)[OF wf E op])
    apply (rule fails_bnd, simp add: wp_JHANDLER_GET_ARG wp_jval_as assms(3))
    apply (rule fails_bnd, simp add: wp_bnd wp_JHANDLER_GET_ARG wp_jval_as wp_double_to_int num_def assms(4))
    apply (rule conjI, use assms(5) in simp)
    apply (rule fails_bnd, subst bnd_ret_right[symmetric], rule string_bnd[where tx = tx], simp, simp, rule assms(6))
    apply (simp only: wp_ret, rule undef, simp_all)
    done
qed


theorem udp_send_needs_callback_witness:
  "JHANDLER_FUNCTION (Send socket_engine) (JObject 7)
     [JObject 2, JNumber (num 53), JString ''10.0.0.1'', JUndefined] datagram_socket =
   Inl (Assertion ''iotjs_jval_as_object'')"
  by (rule udp_send_needs_callback[OF datagram_socket_ok(1,2)]) simp_all

end
