(* ===== verification/Iot_Httpparser.thy ===== *)
theory Iot_Httpparser
  imports Iot_Buffer Iot_Serve
begin

text \<open>
  \<^verbatim>\<open>src/module/iotjs_module_httpparser.c\<close> and \<^verbatim>\<open>.h\<close>: the wrapper of the HTTP parser. It
  collects the header fields and values that the parser reports piece by piece, hands them to
  JavaScript when the message head is complete or ten of them are full, and passes on the body.

  The parser (\<^verbatim>\<open>http_parser\<close>, a submodule) is a parameter: the record \<open>http_lib\<close>. Its state is
  a number, and a call of \<^verbatim>\<open>http_parser_execute\<close> is a tree (\<open>http_run\<close>): it returns, or it makes
  a callback and goes on according to the callback's result. A position in the input is the
  input and an offset (\<^verbatim>\<open>const char* at\<close>).
\<close>

section \<open>The parser library\<close>

datatype http_event =
    OnMessageBegin
  | OnUrl nat nat
  | OnStatus nat nat
  | OnHeaderField nat nat
  | OnHeaderValue nat nat
  | OnHeadersComplete
  | OnBody nat nat
  | OnMessageComplete

datatype http_run =
    HttpReturn nat nat
  | HttpCall nat http_event "int \<Rightarrow> http_run"

record http_lib =
  HTTP_REQUEST :: int
  HTTP_RESPONSE :: int
  http_parser_init :: "int \<Rightarrow> nat"
  http_parser_pause :: "nat \<Rightarrow> bool \<Rightarrow> nat"
  http_parser_execute :: "nat \<Rightarrow> char list option \<Rightarrow> http_run"
  hp_type :: "nat \<Rightarrow> int"
  hp_method :: "nat \<Rightarrow> nat"
  hp_status_code :: "nat \<Rightarrow> nat"
  hp_upgrade :: "nat \<Rightarrow> bool"
  http_should_keep_alive :: "nat \<Rightarrow> bool"
  http_errno_name :: "nat \<Rightarrow> string"
  HTTP_METHOD_MAP :: "(string \<times> string) list"

text \<open>
  \<open>HttpReturn st n\<close>: the parser is left in state \<open>st\<close>, \<open>n\<close> is the value returned.
  \<open>HttpCall st ev k\<close>: in state \<open>st\<close> the callback \<open>ev\<close> is made and \<open>k\<close> continues with its result.
  \<^verbatim>\<open>http_errno_name (HTTP_PARSER_ERRNO (parser))\<close> is a function of the state.
\<close>

section \<open>The wrapper\<close>

definition HEADER_MAX :: nat where
  "HEADER_MAX = 10"

record iotjs_httpparserwrap_t =
  hp_jobject :: jval
  hp_parser :: nat
  hp_url :: iotjs_string_t
  hp_status_msg :: iotjs_string_t
  hp_fields :: "iotjs_string_t list"
  hp_values :: "iotjs_string_t list"
  hp_n_fields :: nat
  hp_n_values :: nat
  hp_cur_jbuf :: "jval option"
  hp_cur_buf :: "char list option"
  hp_cur_buf_len :: nat
  hp_flushed :: bool

record 'c hst = "'c bst" +
  parsers :: "nat \<Rightarrow> iotjs_httpparserwrap_t option"

type_synonym input_pos = "char list \<times> nat"

definition get_httpparserwrap :: "nat \<Rightarrow> (('c, 'z) hst_scheme, iotjs_httpparserwrap_t) prog" where
  "get_httpparserwrap p =
     bnd (gets (\<lambda>s. parsers s p)) (\<lambda>w.
     case w of
       None \<Rightarrow> fail (if p = 0 then NullPointer ''httpparserwrap'' else UseAfterFree ''httpparserwrap'')
     | Some w \<Rightarrow> ret w)"

definition put_httpparserwrap ::
  "nat \<Rightarrow> iotjs_httpparserwrap_t \<Rightarrow> (('c, 'z) hst_scheme, unit) prog" where
  "put_httpparserwrap p w = upd (\<lambda>s. s\<lparr>parsers := (parsers s)(p \<mapsto> w)\<rparr>)"

text \<open>\<^verbatim>\<open>xs[n - 1]\<close> on \<^verbatim>\<open>size_t\<close>: for \<open>n = 0\<close> the index wraps around and lies outside.\<close>

definition last_of :: "iotjs_string_t list \<Rightarrow> nat \<Rightarrow> ('s, iotjs_string_t) prog" where
  "last_of xs n =
     (if 0 < n \<and> n \<le> length xs then ret (xs ! (n - 1)) else fail (OutOfBounds ''headers''))"

section \<open>Life cycle\<close>

definition iotjs_httpparserwrap_initialize ::
  "http_lib \<Rightarrow> nat \<Rightarrow> int \<Rightarrow> (('c, 'z) hst_scheme, unit) prog" where
  "iotjs_httpparserwrap_initialize L p type =
     bnd (get_httpparserwrap p) (\<lambda>w.
     bnd (iotjs_string_make_empty (hp_url w)) (\<lambda>url.
     bnd (iotjs_string_make_empty (hp_status_msg w)) (\<lambda>status_msg.
     put_httpparserwrap p (w\<lparr>hp_parser := http_parser_init L type, hp_url := url,
       hp_status_msg := status_msg, hp_n_fields := 0, hp_n_values := 0, hp_flushed := False,
       hp_cur_jbuf := None, hp_cur_buf := None, hp_cur_buf_len := 0\<rparr>))))"

fun create_strings :: "nat \<Rightarrow> (('c, 'z) rt_scheme, (iotjs_string_t \<times> iotjs_string_t) list) prog" where
  "create_strings 0 = ret []"
| "create_strings (Suc n) =
     bnd (iotjs_string_create (c_str [])) (\<lambda>f.
     bnd (iotjs_string_create (c_str [])) (\<lambda>v.
     bnd (create_strings n) (\<lambda>fvs. ret ((f, v) # fvs))))"

definition iotjs_httpparserwrap_create ::
  "http_lib \<Rightarrow> jval \<Rightarrow> int \<Rightarrow> (('c, 'z) hst_scheme, nat) prog" where
  "iotjs_httpparserwrap_create L jparser type =
     bnd IOTJS_ALLOC (\<lambda>p.
     sq (iotjs_jobjectwrap_initialize p jparser)
    (bnd (iotjs_string_create (c_str [])) (\<lambda>url.
     bnd (iotjs_string_create (c_str [])) (\<lambda>status_msg.
     bnd (create_strings HEADER_MAX) (\<lambda>fvs.
     sq (put_httpparserwrap p \<lparr>hp_jobject = jparser, hp_parser = 0, hp_url = url,
           hp_status_msg = status_msg, hp_fields = map fst fvs, hp_values = map snd fvs,
           hp_n_fields = 0, hp_n_values = 0, hp_cur_jbuf = None, hp_cur_buf = None,
           hp_cur_buf_len = 0, hp_flushed = False\<rparr>)
    (sq (iotjs_httpparserwrap_initialize L p type)
    (ret p)))))))"

text \<open>\<^verbatim>\<open>iotjs_jobjectwrap_destroy\<close>: the object lives on without its native part.\<close>

definition iotjs_httpparserwrap_destroy :: "nat \<Rightarrow> (('c, 'z) hst_scheme, unit) prog" where
  "iotjs_httpparserwrap_destroy p =
     bnd (get_httpparserwrap p) (\<lambda>w.
     sq (iotjs_string_destroy (hp_url w))
    (sq (iotjs_string_destroy (hp_status_msg w))
    (sq (for_each (zip (hp_fields w) (hp_values w)) (\<lambda>(f, v).
           sq (iotjs_string_destroy f) (iotjs_string_destroy v)))
    (sq (upd (\<lambda>s. s\<lparr>parsers := (parsers s)(p := None)\<rparr>))
    IOTJS_RELEASE))))"

definition iotjs_httpparserwrap_set_buf ::
  "nat \<Rightarrow> jval option \<Rightarrow> char list option \<Rightarrow> int \<Rightarrow> (('c, 'z) hst_scheme, unit) prog" where
  "iotjs_httpparserwrap_set_buf p jbuf buf sz =
     bnd (get_httpparserwrap p) (\<lambda>w.
     put_httpparserwrap p
       (w\<lparr>hp_cur_jbuf := jbuf, hp_cur_buf := buf, hp_cur_buf_len := nat (c_size sz)\<rparr>))"

definition iotjs_httpparserwrap_jobject :: "'c engine \<Rightarrow> nat \<Rightarrow> (('c, 'z) hst_scheme, jval) prog" where
  "iotjs_httpparserwrap_jobject E p =
     bnd (get_httpparserwrap p) (\<lambda>w. iotjs_jobjectwrap_jobject E p (hp_jobject w))"

definition iotjs_httpparserwrap_parser :: "nat \<Rightarrow> (('c, 'z) hst_scheme, nat) prog" where
  "iotjs_httpparserwrap_parser p = bnd (get_httpparserwrap p) (\<lambda>w. ret (hp_parser w))"

text \<open>A write of the library to the parser's state, which lies inside the wrapper.\<close>

definition set_parser :: "nat \<Rightarrow> nat \<Rightarrow> (('c, 'z) hst_scheme, unit) prog" where
  "set_parser p st = bnd (get_httpparserwrap p) (\<lambda>w. put_httpparserwrap p (w\<lparr>hp_parser := st\<rparr>))"

section \<open>Callbacks of the parser\<close>

definition iotjs_httpparserwrap_on_message_begin :: "nat \<Rightarrow> (('c, 'z) hst_scheme, int) prog" where
  "iotjs_httpparserwrap_on_message_begin p =
     bnd (get_httpparserwrap p) (\<lambda>w.
     bnd (iotjs_string_make_empty (hp_url w)) (\<lambda>url.
     bnd (iotjs_string_make_empty (hp_status_msg w)) (\<lambda>status_msg.
     sq (put_httpparserwrap p (w\<lparr>hp_url := url, hp_status_msg := status_msg\<rparr>))
    (ret 0))))"

definition iotjs_httpparserwrap_on_url ::
  "nat \<Rightarrow> input_pos \<Rightarrow> nat \<Rightarrow> (('c, 'z) hst_scheme, int) prog" where
  "iotjs_httpparserwrap_on_url p pos len =
     bnd (get_httpparserwrap p) (\<lambda>w.
     bnd (iotjs_string_append (hp_url w) (drop (snd pos) (fst pos)) (c_int32 (int len))) (\<lambda>url.
     sq (put_httpparserwrap p (w\<lparr>hp_url := url\<rparr>))
    (ret 0)))"

definition iotjs_httpparserwrap_on_status ::
  "nat \<Rightarrow> input_pos \<Rightarrow> nat \<Rightarrow> (('c, 'z) hst_scheme, int) prog" where
  "iotjs_httpparserwrap_on_status p pos len =
     bnd (get_httpparserwrap p) (\<lambda>w.
     bnd (iotjs_string_append (hp_status_msg w) (drop (snd pos) (fst pos)) (c_int32 (int len))) (\<lambda>status_msg.
     sq (put_httpparserwrap p (w\<lparr>hp_status_msg := status_msg\<rparr>))
    (ret 0)))"

fun store_headers ::
  "'c engine \<Rightarrow> iotjs_httpparserwrap_t \<Rightarrow> jval \<Rightarrow> nat list \<Rightarrow> (('c, 'z) rt_scheme, unit) prog" where
  "store_headers E w jheader [] = ret ()"
| "store_headers E w jheader (i # is) =
     bnd (last_of (hp_fields w) (i + 1)) (\<lambda>field.
     bnd (iotjs_jval_create_string field) (\<lambda>f.
     bnd (last_of (hp_values w) (i + 1)) (\<lambda>val.
     bnd (iotjs_jval_create_string val) (\<lambda>v.
     sq (iotjs_jval_set_property_by_index E jheader (i * 2) f)
    (sq (iotjs_jval_set_property_by_index E jheader (i * 2 + 1) v)
    (sq (iotjs_jval_destroy f)
    (sq (iotjs_jval_destroy v)
    (store_headers E w jheader is))))))))"

definition iotjs_httpparserwrap_make_header ::
  "'c engine \<Rightarrow> nat \<Rightarrow> (('c, 'z) hst_scheme, jval) prog" where
  "iotjs_httpparserwrap_make_header E p =
     bnd (get_httpparserwrap p) (\<lambda>w.
     bnd (iotjs_jval_create_array E) (\<lambda>jheader.
     sq (store_headers E w jheader [0..<hp_n_values w])
    (ret jheader)))"

definition iotjs_httpparserwrap_flush ::
  "'c engine \<Rightarrow> http_lib \<Rightarrow> nat \<Rightarrow> (('c, 'z) hst_scheme, unit) prog" where
  "iotjs_httpparserwrap_flush E L p =
     bnd (iotjs_httpparserwrap_jobject E p) (\<lambda>jobj.
     bnd (iotjs_jval_get_property E jobj ''OnHeaders'') (\<lambda>func.
     sq (IOTJS_ASSERT ''iotjs_httpparserwrap_flush'' (is_function func))
    (bnd (iotjs_jargs_create 2) (\<lambda>argv.
     bnd (iotjs_httpparserwrap_make_header E p) (\<lambda>jheader.
     bnd (iotjs_jargs_append_jval argv jheader) (\<lambda>argv.
     sq (iotjs_jval_destroy jheader)
    (bnd (get_httpparserwrap p) (\<lambda>w.
     bnd (if hp_type L (hp_parser w) = HTTP_REQUEST L \<and> \<not> iotjs_string_is_empty (hp_url w)
          then iotjs_jargs_append_string argv (hp_url w) else ret argv) (\<lambda>argv.
     sq (iotjs_make_callback E func jobj argv)
    (bnd (get_httpparserwrap p) (\<lambda>w.
     bnd (iotjs_string_make_empty (hp_url w)) (\<lambda>url.
     sq (put_httpparserwrap p (w\<lparr>hp_url := url\<rparr>))
    (sq (iotjs_jargs_destroy argv)
    (sq (iotjs_jval_destroy func)
    (bnd (get_httpparserwrap p) (\<lambda>w. put_httpparserwrap p (w\<lparr>hp_flushed := True\<rparr>)))))))))))))))))"

definition iotjs_httpparserwrap_on_header_field ::
  "'c engine \<Rightarrow> http_lib \<Rightarrow> nat \<Rightarrow> input_pos \<Rightarrow> nat \<Rightarrow> (('c, 'z) hst_scheme, int) prog" where
  "iotjs_httpparserwrap_on_header_field E L p pos len =
     bnd (get_httpparserwrap p) (\<lambda>w.
     sq (if hp_n_fields w = hp_n_values w
         then sq (put_httpparserwrap p (w\<lparr>hp_n_fields := hp_n_fields w + 1\<rparr>))
             (sq (if hp_n_fields w + 1 = HEADER_MAX
                  then sq (iotjs_httpparserwrap_flush E L p)
                       (bnd (get_httpparserwrap p) (\<lambda>w.
                        put_httpparserwrap p (w\<lparr>hp_n_fields := 1, hp_n_values := 0\<rparr>)))
                  else ret ())
             (bnd (get_httpparserwrap p) (\<lambda>w.
              bnd (last_of (hp_fields w) (hp_n_fields w)) (\<lambda>field.
              bnd (iotjs_string_make_empty field) (\<lambda>field.
              put_httpparserwrap p (w\<lparr>hp_fields := (hp_fields w)[hp_n_fields w - 1 := field]\<rparr>))))))
         else ret ())
    (bnd (get_httpparserwrap p) (\<lambda>w.
     sq (IOTJS_ASSERT ''iotjs_httpparserwrap_on_header_field'' (hp_n_fields w = hp_n_values w + 1))
    (bnd (last_of (hp_fields w) (hp_n_fields w)) (\<lambda>field.
     bnd (iotjs_string_append field (drop (snd pos) (fst pos)) (c_int32 (int len))) (\<lambda>field.
     sq (put_httpparserwrap p (w\<lparr>hp_fields := (hp_fields w)[hp_n_fields w - 1 := field]\<rparr>))
    (ret 0)))))))"

definition iotjs_httpparserwrap_on_header_value ::
  "nat \<Rightarrow> input_pos \<Rightarrow> nat \<Rightarrow> (('c, 'z) hst_scheme, int) prog" where
  "iotjs_httpparserwrap_on_header_value p pos len =
     bnd (get_httpparserwrap p) (\<lambda>w.
     sq (if hp_n_fields w \<noteq> hp_n_values w
         then bnd (last_of (hp_values w) (hp_n_values w + 1)) (\<lambda>val.
              bnd (iotjs_string_make_empty val) (\<lambda>val.
              put_httpparserwrap p (w\<lparr>hp_n_values := hp_n_values w + 1,
                hp_values := (hp_values w)[hp_n_values w := val]\<rparr>)))
         else ret ())
    (bnd (get_httpparserwrap p) (\<lambda>w.
     sq (IOTJS_ASSERT ''iotjs_httpparserwrap_on_header_value'' (hp_n_fields w = hp_n_values w))
    (bnd (last_of (hp_values w) (hp_n_values w)) (\<lambda>val.
     bnd (iotjs_string_append val (drop (snd pos) (fst pos)) (c_int32 (int len))) (\<lambda>val.
     sq (put_httpparserwrap p (w\<lparr>hp_values := (hp_values w)[hp_n_values w - 1 := val]\<rparr>))
    (ret 0)))))))"

definition iotjs_httpparserwrap_on_headers_complete ::
  "'c engine \<Rightarrow> http_lib \<Rightarrow> nat \<Rightarrow> (('c, 'z) hst_scheme, int) prog" where
  "iotjs_httpparserwrap_on_headers_complete E L p =
     bnd (iotjs_httpparserwrap_jobject E p) (\<lambda>jobj.
     bnd (iotjs_jval_get_property E jobj ''OnHeadersComplete'') (\<lambda>func.
     sq (IOTJS_ASSERT ''iotjs_httpparserwrap_on_headers_complete'' (is_function func))
    (bnd (iotjs_jargs_create 1) (\<lambda>argv.
     bnd (iotjs_jval_create_object E) (\<lambda>info.
     bnd (get_httpparserwrap p) (\<lambda>w.
     sq (if hp_flushed w then iotjs_httpparserwrap_flush E L p
         else bnd (iotjs_httpparserwrap_make_header E p) (\<lambda>jheader.
              sq (iotjs_jval_set_property_jval E info ''headers'' jheader)
             (sq (iotjs_jval_destroy jheader)
             (if hp_type L (hp_parser w) = HTTP_REQUEST L
              then sq (IOTJS_ASSERT ''iotjs_httpparserwrap_on_headers_complete''
                         (\<not> iotjs_string_is_empty (hp_url w)))
                      (iotjs_jval_set_property_string E info ''url'' (hp_url w))
              else ret ()))))
    (bnd (get_httpparserwrap p) (\<lambda>w.
     sq (put_httpparserwrap p (w\<lparr>hp_n_fields := 0, hp_n_values := 0\<rparr>))
    (sq (if hp_type L (hp_parser w) = HTTP_REQUEST L
         then iotjs_jval_set_property_number E info ''method'' (num (int (hp_method L (hp_parser w))))
         else ret ())
    (sq (if hp_type L (hp_parser w) = HTTP_RESPONSE L
         then sq (iotjs_jval_set_property_number E info ''status''
                    (num (int (hp_status_code L (hp_parser w)))))
                 (iotjs_jval_set_property_string E info ''status_msg'' (hp_status_msg w))
         else ret ())
    (sq (iotjs_jval_set_property_boolean E info ''upgrade'' (hp_upgrade L (hp_parser w)))
    (sq (iotjs_jval_set_property_boolean E info ''shouldkeepalive''
           (http_should_keep_alive L (hp_parser w)))
    (bnd (iotjs_jargs_append_jval argv info) (\<lambda>argv.
     bnd (iotjs_make_callback_with_result E func jobj argv) (\<lambda>res.
     bnd (iotjs_jval_as_boolean res) (\<lambda>r.
     sq (iotjs_jargs_destroy argv)
    (sq (iotjs_jval_destroy func)
    (sq (iotjs_jval_destroy res)
    (sq (iotjs_jval_destroy info)
    (ret (if r then 1 else 0)))))))))))))))))))))"

definition iotjs_httpparserwrap_on_body ::
  "'c engine \<Rightarrow> nat \<Rightarrow> input_pos \<Rightarrow> nat \<Rightarrow> (('c, 'z) hst_scheme, int) prog" where
  "iotjs_httpparserwrap_on_body E p pos len =
     bnd (iotjs_httpparserwrap_jobject E p) (\<lambda>jobj.
     bnd (iotjs_jval_get_property E jobj ''OnBody'') (\<lambda>func.
     sq (IOTJS_ASSERT ''iotjs_httpparserwrap_on_body'' (is_function func))
    (bnd (iotjs_jargs_create 3) (\<lambda>argv.
     bnd (get_httpparserwrap p) (\<lambda>w.
     case hp_cur_jbuf w of
       None \<Rightarrow> fail (NullPointer ''cur_jbuf'')
     | Some cur_jbuf \<Rightarrow>
     bnd (iotjs_jargs_append_jval argv cur_jbuf) (\<lambda>argv.
     if hp_cur_buf w \<noteq> Some (fst pos) then fail (Undefined ''at - cur_buf'') else
     bnd (iotjs_jargs_append_number argv (num (int (snd pos)))) (\<lambda>argv.
     bnd (iotjs_jargs_append_number argv (num (int len))) (\<lambda>argv.
     sq (iotjs_make_callback E func jobj argv)
    (sq (iotjs_jargs_destroy argv)
    (sq (iotjs_jval_destroy func)
    (ret 0)))))))))))"

definition iotjs_httpparserwrap_on_message_complete ::
  "'c engine \<Rightarrow> nat \<Rightarrow> (('c, 'z) hst_scheme, int) prog" where
  "iotjs_httpparserwrap_on_message_complete E p =
     bnd (iotjs_httpparserwrap_jobject E p) (\<lambda>jobj.
     bnd (iotjs_jval_get_property E jobj ''OnMessageComplete'') (\<lambda>func.
     sq (IOTJS_ASSERT ''iotjs_httpparserwrap_on_message_complete'' (is_function func))
    (sq (iotjs_make_callback E func jobj jargs_empty)
    (sq (iotjs_jval_destroy func)
    (ret 0)))))"

text \<open>
  The table \<^verbatim>\<open>settings\<close> with its \<^verbatim>\<open>HTTP_CB\<close> functions (\<^verbatim>\<open>parser->data\<close> is the wrapper), and
  the library running it: \<open>data\<close> is the input, \<open>None\<close> for \<^verbatim>\<open>NULL, 0\<close>.
\<close>

definition settings ::
  "'c engine \<Rightarrow> http_lib \<Rightarrow> nat \<Rightarrow> char list \<Rightarrow> http_event \<Rightarrow> (('c, 'z) hst_scheme, int) prog" where
  "settings E L p data ev =
     (case ev of
        OnMessageBegin \<Rightarrow> iotjs_httpparserwrap_on_message_begin p
      | OnUrl off len \<Rightarrow> iotjs_httpparserwrap_on_url p (data, off) len
      | OnStatus off len \<Rightarrow> iotjs_httpparserwrap_on_status p (data, off) len
      | OnHeaderField off len \<Rightarrow> iotjs_httpparserwrap_on_header_field E L p (data, off) len
      | OnHeaderValue off len \<Rightarrow> iotjs_httpparserwrap_on_header_value p (data, off) len
      | OnHeadersComplete \<Rightarrow> iotjs_httpparserwrap_on_headers_complete E L p
      | OnBody off len \<Rightarrow> iotjs_httpparserwrap_on_body E p (data, off) len
      | OnMessageComplete \<Rightarrow> iotjs_httpparserwrap_on_message_complete E p)"

primrec run_parser ::
  "'c engine \<Rightarrow> http_lib \<Rightarrow> nat \<Rightarrow> char list \<Rightarrow> http_run \<Rightarrow> (('c, 'z) hst_scheme, nat) prog" where
  "run_parser E L p data (HttpReturn st n) = sq (set_parser p st) (ret n)"
| "run_parser E L p data (HttpCall st ev k) =
     sq (set_parser p st)
    (bnd (settings E L p data ev) (\<lambda>r. run_parser E L p data (k r)))"

section \<open>Handlers\<close>

definition get_parser_wrap :: "'c engine \<Rightarrow> jval \<Rightarrow> (('c, 'z) rt_scheme, nat) prog" where
  "get_parser_wrap E jparser = iotjs_jval_get_object_native_handle E jparser"

definition Reinitialize :: "'c engine \<Rightarrow> http_lib \<Rightarrow> (('c, 'z) hst_scheme, unit) prog" where
  "Reinitialize E L =
     JHANDLER_CHECK_THIS E ''___Reinitialize_native'' is_object
    (JHANDLER_CHECK_ARGS E ''___Reinitialize_native'' [is_number]
    (bnd JHANDLER_GET_THIS (\<lambda>jparser.
     bnd (bnd (JHANDLER_GET_ARG 0 iotjs_jval_as_number) to_unsigned) (\<lambda>httpparser_type.
     sq (IOTJS_ASSERT ''___Reinitialize_native''
           (httpparser_type = HTTP_REQUEST L \<or> httpparser_type = HTTP_RESPONSE L))
    (bnd (get_parser_wrap E jparser) (\<lambda>parser.
     iotjs_httpparserwrap_initialize L parser httpparser_type))))))"

definition parse_error ::
  "'c engine \<Rightarrow> http_lib \<Rightarrow> nat \<Rightarrow> (('c, 'z) hst_scheme, unit) prog" where
  "parse_error E L st =
     bnd (iotjs_jval_create_error E ''Parse Error'') (\<lambda>eobj.
     sq (iotjs_jval_set_property_number E eobj ''byteParsed'' (num 0))
    (sq (iotjs_jval_set_property_string_raw E eobj ''code'' (http_errno_name L st))
    (sq (iotjs_jhandler_return_jval eobj)
    (iotjs_jval_destroy eobj))))"

definition Finish :: "'c engine \<Rightarrow> http_lib \<Rightarrow> (('c, 'z) hst_scheme, unit) prog" where
  "Finish E L =
     JHANDLER_CHECK_THIS E ''___Finish_native'' is_object
    (JHANDLER_CHECK_ARGS E ''___Finish_native'' []
    (bnd JHANDLER_GET_THIS (\<lambda>jparser.
     bnd (get_parser_wrap E jparser) (\<lambda>parser.
     bnd (iotjs_httpparserwrap_parser parser) (\<lambda>nativeparser.
     bnd (run_parser E L parser [] (http_parser_execute L nativeparser None)) (\<lambda>rv.
     if c_int32 (int rv) \<noteq> 0
     then bnd (iotjs_httpparserwrap_parser parser) (\<lambda>nativeparser. parse_error E L nativeparser)
     else ret ()))))))"

definition Execute :: "'c engine \<Rightarrow> http_lib \<Rightarrow> (('c, 'z) hst_scheme, unit) prog" where
  "Execute E L =
     JHANDLER_CHECK_THIS E ''___Execute_native'' is_object
    (JHANDLER_CHECK_ARGS E ''___Execute_native'' [is_object]
    (bnd JHANDLER_GET_THIS (\<lambda>jparser.
     bnd (get_parser_wrap E jparser) (\<lambda>parser.
     bnd (JHANDLER_GET_ARG 0 iotjs_jval_as_object) (\<lambda>jbuffer.
     bnd (iotjs_bufferwrap_from_jbuffer E jbuffer) (\<lambda>buffer.
     bnd (iotjs_bufferwrap_buffer buffer) (\<lambda>buf_data.
     bnd (iotjs_bufferwrap_length E buffer) (\<lambda>len.
     let buf_len = c_int32 (int len) in
     JHANDLER_CHECK E ''___Execute_native'' (buf_data \<noteq> None)
    (JHANDLER_CHECK E ''___Execute_native'' (0 < buf_len)
    (sq (iotjs_httpparserwrap_set_buf parser (Some jbuffer) buf_data buf_len)
    (bnd (iotjs_httpparserwrap_parser parser) (\<lambda>nativeparser.
     bnd (run_parser E L parser (the buf_data) (http_parser_execute L nativeparser buf_data)) (\<lambda>nparsed.
     sq (iotjs_httpparserwrap_set_buf parser None None 0)
    (bnd (iotjs_httpparserwrap_parser parser) (\<lambda>nativeparser.
     if \<not> hp_upgrade L nativeparser \<and> c_int32 (int nparsed) \<noteq> buf_len
     then parse_error E L nativeparser
     else iotjs_jhandler_return_number (num (c_int32 (int nparsed))))))))))))))))))"

definition set_paused ::
  "'c engine \<Rightarrow> http_lib \<Rightarrow> string \<Rightarrow> bool \<Rightarrow> (('c, 'z) hst_scheme, unit) prog" where
  "set_paused E L func paused =
     JHANDLER_CHECK_THIS E func is_object
    (JHANDLER_CHECK_ARGS E func []
    (bnd JHANDLER_GET_THIS (\<lambda>jparser.
     bnd (get_parser_wrap E jparser) (\<lambda>parser.
     bnd (iotjs_httpparserwrap_parser parser) (\<lambda>nativeparser.
     set_parser parser (http_parser_pause L nativeparser paused))))))"

definition Pause :: "'c engine \<Rightarrow> http_lib \<Rightarrow> (('c, 'z) hst_scheme, unit) prog" where
  "Pause E L = set_paused E L ''___Pause_native'' True"

definition Resume :: "'c engine \<Rightarrow> http_lib \<Rightarrow> (('c, 'z) hst_scheme, unit) prog" where
  "Resume E L = set_paused E L ''___Resume_native'' False"

definition HTTPParserCons :: "'c engine \<Rightarrow> http_lib \<Rightarrow> (('c, 'z) hst_scheme, unit) prog" where
  "HTTPParserCons E L =
     JHANDLER_CHECK_THIS E ''___HTTPParserCons_native'' is_object
    (JHANDLER_CHECK_ARGS E ''___HTTPParserCons_native'' [is_number]
    (bnd JHANDLER_GET_THIS (\<lambda>jparser.
     bnd (bnd (JHANDLER_GET_ARG 0 iotjs_jval_as_number) to_unsigned) (\<lambda>httpparser_type.
     sq (IOTJS_ASSERT ''___HTTPParserCons_native''
           (httpparser_type = HTTP_REQUEST L \<or> httpparser_type = HTTP_RESPONSE L))
    (bnd (iotjs_httpparserwrap_create L jparser httpparser_type) (\<lambda>parser.
     bnd (iotjs_httpparserwrap_jobject E parser) (\<lambda>jobj.
     sq (IOTJS_ASSERT ''___HTTPParserCons_native'' (is_object jobj))
    (bnd (get_parser_wrap E jparser) (\<lambda>q.
     IOTJS_ASSERT ''___HTTPParserCons_native'' (q = parser))))))))))"

definition InitHttpparser :: "'c engine \<Rightarrow> http_lib \<Rightarrow> (('c, 'z) rt_scheme, jval) prog" where
  "InitHttpparser E L =
     bnd (iotjs_jval_create_object E) (\<lambda>httpparser.
     bnd (iotjs_jval_create_function E) (\<lambda>jParserCons.
     sq (iotjs_jval_set_property_jval E httpparser ''HTTPParser'' jParserCons)
    (sq (iotjs_jval_set_property_number E jParserCons ''REQUEST'' (num (HTTP_REQUEST L)))
    (sq (iotjs_jval_set_property_number E jParserCons ''RESPONSE'' (num (HTTP_RESPONSE L)))
    (bnd (iotjs_jval_create_object E) (\<lambda>methods.
     sq (for_each (HTTP_METHOD_MAP L) (\<lambda>(n, name).
           iotjs_jval_set_property_string_raw E methods n name))
    (sq (iotjs_jval_set_property_jval E jParserCons ''methods'' methods)
    (bnd (iotjs_jval_create_object E) (\<lambda>prototype.
     sq (set_methods E prototype [''execute'', ''reinitialize'', ''finish'', ''pause'', ''resume''])
    (sq (iotjs_jval_set_property_jval E jParserCons ''prototype'' prototype)
    (sq (iotjs_jval_destroy jParserCons)
    (sq (iotjs_jval_destroy methods)
    (sq (iotjs_jval_destroy prototype)
    (ret httpparser))))))))))))))"

lemma InitHttpparser_law:
  assumes E: "sets_ok E"
  shows "wp (InitHttpparser E L) (\<lambda>v t. is_object v \<and> gives s v t) s"
  unfolding InitHttpparser_def
  apply (rule owes_create_bnd(1)[OF owes_refl])
  apply (rule owes_create_bnd(2), assumption)
  apply (rule owes_quiet_sq, assumption, rule quiet_set_property[OF E], simp)+
  apply (rule owes_create_bnd(1), assumption)
  apply (rule owes_quiet_sq, assumption)
   apply (rule quiet_for_each, simp add: split_beta quiet_set_property[OF E])
  apply (rule owes_quiet_sq, assumption, rule quiet_set_property[OF E], simp)
  apply (rule owes_create_bnd(1), assumption)
  apply (rule owes_quiet_sq, assumption, rule quiet_set_methods[OF E], simp)
  apply (rule owes_quiet_sq, assumption, rule quiet_set_property[OF E], simp)
  apply (rule owes_destroy_sq, assumption)+
  apply (rule owes_ret, assumption, simp, simp)
  done

interpretation httpparser_module: module_init E "InitHttpparser E L" for E :: "'c engine" and L
  by unfold_locales (rule InitHttpparser_law)

end
