(* ===== verification/Iot_Http_Steps.thy ===== *)
theory Iot_Http_Steps
  imports Iot_Httpparser
begin

text \<open>
  What each callback of \<^verbatim>\<open>src/module/iotjs_module_httpparser.c\<close> does to the wrapper, to the heap
  and to the references, under the documented order of the callbacks (\<open>advance\<close>, \<open>tracks\<close>).
\<close>

section \<open>What a step does\<close>

text \<open>The values stored in arrays, in order: the headers handed to JavaScript.\<close>

fun stored :: "'c ev list \<Rightarrow> jval list" where
  "stored [] = []"
| "stored (ESetIndex j i v # es) = v # stored es"
| "stored (e # es) = stored es"

lemma stored_append [simp]: "stored (es @ fs) = stored es @ stored fs"
  by (induction es rule: stored.induct) auto

lemma stored_plain: "plain e \<Longrightarrow> stored (tr @ [e]) = stored tr"
  by (cases e) simp_all

interpretation array: observation stored
  by unfold_locales (rule stored_plain)

lemma stored_releases [simp]: "stored (map ERelease vs) = []"
  by (induction vs) simp_all

text \<open>
  \<open>walks p w X k d s t\<close>: from \<open>s\<close> to \<open>t\<close> the wrapper at \<open>p\<close> became \<open>w\<close>, the values \<open>X\<close> were
  stored in arrays, \<open>k\<close> heap blocks and the references \<open>d\<close> were gained, and nothing else changed.
\<close>

definition walks ::
  "nat \<Rightarrow> iotjs_httpparserwrap_t \<Rightarrow> jval list \<Rightarrow> int \<Rightarrow> (jval \<Rightarrow> int) \<Rightarrow>
   ('c, 'z) hst_scheme \<Rightarrow> ('c, 'z) hst_scheme \<Rightarrow> bool" where
  "walks p w X k d s t \<longleftrightarrow> (\<exists>tr. t = s\<lparr>trace := trace s @ tr, blocks := blocks s + k,
       parsers := (parsers s)(p \<mapsto> w)\<rparr> \<and>
     (\<forall>v. owned tr v = d v) \<and> natives tr = [] \<and> stored tr = X)"

lemma walks_refl: "parsers s p = Some w \<Longrightarrow> walks p w [] 0 (\<lambda>_. 0) s s"
  unfolding walks_def by (rule exI[of _ "[]"]) (simp add: fun_upd_idem)

lemma walks_trans:
  assumes "walks p w X k d s t" "walks p v Y j e t u"
  shows "walks p v (X @ Y) (k + j) (\<lambda>x. d x + e x) s u"
  using assms unfolding walks_def
  by (elim exE conjE, rename_tac a b, rule_tac x = "a @ b" in exI) simp

lemma walks_fields:
  assumes "walks p w X k d s t"
  shows "parsers t p = Some w" "jmodule t = jmodule s" "native_of (trace t) = native_of (trace s)"
    "h_argv t = h_argv s" "h_this t = h_this s" "h_ret t = h_ret s" "h_finished t = h_finished s"
    "bufs t = bufs s" "handles t = handles s" "reqs t = reqs s" "blocks t = blocks s + k"
    "owned (trace t) v = owned (trace s) v + d v" "stored (trace t) = stored (trace s) @ X"
    "q \<noteq> p \<Longrightarrow> parsers t q = parsers s q"
  using assms by (auto simp: walks_def native_of_append fun_eq_iff)

lemma walks_cong: "walks p w X k d s t \<Longrightarrow> (\<And>v. d v = e v) \<Longrightarrow> X = Y \<Longrightarrow> k = j \<Longrightarrow> walks p w Y j e s t"
  by (simp add: walks_def)

lemma walks_trace:
  "parsers s p = Some w \<Longrightarrow> natives tr = [] \<Longrightarrow>
   walks p w (stored tr) 0 (owned tr) s (s\<lparr>trace := trace s @ tr\<rparr>)"
  unfolding walks_def by (rule exI[of _ tr]) (simp add: fun_upd_idem)

lemma walks_blocks:
  "parsers s p = Some w \<Longrightarrow> walks p w [] k (\<lambda>_. 0) s (s\<lparr>blocks := blocks s + k\<rparr>)"
  unfolding walks_def by (rule exI[of _ "[]"]) (simp add: fun_upd_idem)

lemma walks_charge: "parsers s p = Some w \<Longrightarrow> walks p w [] k (\<lambda>_. 0) s (charge k s)"
  unfolding charge_def by (rule walks_blocks)

text \<open>The rules that follow a program through its steps.\<close>

lemma walk_bnd:
  assumes "walks p w X k d s t"
    and "wp m (\<lambda>r u. R r \<and> walks p w (Y r) (j r) (e r) t u) t"
    and "\<And>r u. R r \<Longrightarrow> walks p w (X @ Y r) (k + j r) (\<lambda>v. d v + e r v) s u \<Longrightarrow> wp (f r) Q u"
  shows "wp (bnd m f) Q t"
  unfolding wp_bnd
  by (rule wp_mono[OF assms(2)]) (use walks_trans[OF assms(1)] assms(3) in blast)

lemma walk_sq:
  assumes "walks p w X k d s t" "wp m (\<lambda>_ u. walks p w Y j e t u) t"
    and "\<And>u. walks p w (X @ Y) (k + j) (\<lambda>v. d v + e v) s u \<Longrightarrow> wp n Q u"
  shows "wp (sq m n) Q t"
  unfolding wp_sq
  by (rule wp_mono[OF assms(2)]) (use walks_trans[OF assms(1)] assms(3) in blast)

lemma walk_get:
  "walks p w X k d s t \<Longrightarrow> wp (f w) Q t \<Longrightarrow> wp (bnd (get_httpparserwrap p) f) Q t"
  by (simp add: get_httpparserwrap_def wp_simps walks_fields(1)[of p w X k d s t])

lemma walks_put: "walks p v [] 0 (\<lambda>_. 0) t (t\<lparr>parsers := (parsers t)(p \<mapsto> v)\<rparr>)"
  unfolding walks_def by (rule exI[of _ "[]"]) simp

lemma walk_put:
  assumes "walks p w X k d s t" "\<And>u. walks p v X k d s u \<Longrightarrow> wp n Q u"
  shows "wp (sq (put_httpparserwrap p v) n) Q t"
  using assms(2)[OF walks_trans[OF assms(1) walks_put[of p v t], simplified]]
  by (simp add: put_httpparserwrap_def wp_simps)

lemma walk_put_last:
  assumes "walks p w X k d s t" "\<And>u. walks p v X k d s u \<Longrightarrow> Q () u"
  shows "wp (put_httpparserwrap p v) Q t"
  using assms(2)[OF walks_trans[OF assms(1) walks_put[of p v t], simplified]]
  by (simp add: put_httpparserwrap_def wp_simps)

lemma walk_charge:
  assumes "walks p w X k d s t"
  shows "walks p w X (k + j) d s (charge j t)"
  by (rule walks_cong[OF walks_trans[OF assms walks_charge[OF walks_fields(1)[OF assms]]]]) simp_all

lemma walk_empty:
  assumes "walks p w X k d s t" "string_wf str"
    and "\<And>str' u. string_wf str' \<Longrightarrow> contents str' = [] \<Longrightarrow> held str' = 0 \<Longrightarrow>
      walks p w X (k - held str) d s u \<Longrightarrow> wp (f str') Q u"
  shows "wp (bnd (iotjs_string_make_empty str) f) Q t"
  unfolding wp_bnd
proof (rule wp_mono[OF make_empty_wp[OF assms(2), of t]], elim conjE)
  fix x u
  assume x: "string_wf x" "contents x = []" "held x = 0" "u = charge (held x - held str) t"
  then have "walks p w X (k - held str) d s u"
    using walk_charge[OF assms(1), of "- held str"] by simp
  with x show "wp (f x) Q u" by (intro assms(3))
qed

lemma walk_append:
  assumes "walks p w X k d s t" "string_wf str" "n = int len" "len \<le> length data"
    and "NUL \<notin> set (take len data)" "length (contents str) + len \<le> 2 ^ 31"
    and "\<And>str' u. string_wf str' \<Longrightarrow> contents str' = contents str @ take len data \<Longrightarrow>
      walks p w X (k + (held str' - held str)) d s u \<Longrightarrow> wp (f str') Q u"
  shows "wp (bnd (iotjs_string_append str data n) f) Q t"
  unfolding wp_bnd
proof (rule wp_mono[OF append_wp[OF assms(2), of n data "take len data" t]], goal_cases)
  case (4 x u)
  then show ?case using walk_charge[OF assms(1)] by (intro assms(7)) auto
qed (use assms(3-6) c_strncpy_take[of len data] in simp_all)

section \<open>The steps of the callbacks\<close>

text \<open>
  The JavaScript side of a parser (\<^verbatim>\<open>src/js/http_common.js\<close>): an object with its four callbacks,
  of which \<^verbatim>\<open>OnHeadersComplete\<close> returns a boolean.
\<close>

definition parser_js :: "'c engine \<Rightarrow> jval \<Rightarrow> bool" where
  "parser_js E j \<longleftrightarrow> is_object j \<and>
     (\<forall>name \<in> {''OnHeaders'', ''OnHeadersComplete'', ''OnBody'', ''OnMessageComplete''}.
        \<forall>tr. \<exists>f. e_prop E tr j name = (False, f) \<and> is_function f) \<and>
     (\<forall>tr f. e_prop E tr j ''OnHeadersComplete'' = (False, f) \<longrightarrow>
        (\<forall>tr args. \<exists>th b. e_call E tr f j args = (th, JBool b)))"

definition hp_strings :: "iotjs_httpparserwrap_t \<Rightarrow> iotjs_string_t list" where
  "hp_strings w = hp_url w # hp_status_msg w # hp_fields w @ hp_values w"

definition strings_held :: "iotjs_httpparserwrap_t \<Rightarrow> int" where
  "strings_held w = held (hp_url w) + held (hp_status_msg w) +
     sum_list (map held (hp_fields w)) + sum_list (map held (hp_values w))"

definition hp_wf :: "iotjs_httpparserwrap_t \<Rightarrow> bool" where
  "hp_wf w \<longleftrightarrow> string_wf (hp_url w) \<and> string_wf (hp_status_msg w) \<and>
     (\<forall>str \<in> set (hp_fields w). string_wf str) \<and> (\<forall>str \<in> set (hp_values w). string_wf str) \<and>
     length (hp_fields w) = HEADER_MAX \<and> length (hp_values w) = HEADER_MAX \<and>
     hp_n_values w \<le> hp_n_fields w \<and> hp_n_fields w \<le> hp_n_values w + 1 \<and>
     hp_n_fields w < HEADER_MAX"

text \<open>The names and values collected and not yet handed over, alternately.\<close>

definition pending :: "iotjs_httpparserwrap_t \<Rightarrow> string list" where
  "pending w = concat (map (\<lambda>i. [contents (hp_fields w ! i), contents (hp_values w ! i)])
       [0..<hp_n_values w]) @
     (if hp_n_fields w = hp_n_values w then [] else [contents (hp_fields w ! hp_n_values w)])"

definition complete_pairs :: "iotjs_httpparserwrap_t \<Rightarrow> string list" where
  "complete_pairs w = take (2 * hp_n_values w) (pending w)"

lemma length_pairs [simp]: "length (concat (map (\<lambda>i. [f i, g i]) is)) = 2 * length is"
  by (induction "is") simp_all

lemma complete_pairs_eq:
  "complete_pairs w = concat (map (\<lambda>i. [contents (hp_fields w ! i), contents (hp_values w ! i)])
     [0..<hp_n_values w])"
  by (simp add: complete_pairs_def pending_def)

lemma pending_even: "hp_n_fields w = hp_n_values w \<Longrightarrow> pending w = complete_pairs w"
  by (simp add: complete_pairs_eq pending_def)

lemma sum_held_update:
  "i < length xs \<Longrightarrow> sum_list (map held (xs[i := y])) = sum_list (map held xs) + (held y - held (xs ! i))"
proof (induction xs arbitrary: i)
  case (Cons x xs)
  then show ?case by (cases i) simp_all
qed simp

lemma wp_last_of [wp_simps]:
  "wp (last_of xs n) Q s \<longleftrightarrow> 0 < n \<and> n \<le> length xs \<and> Q (xs ! (n - 1)) s"
  by (simp add: last_of_def wp_simps)

lemma wp_walks_trace:
  assumes w: "parsers t p = Some w"
    and "\<And>v. owned tr v = e v" "natives tr = []" "stored tr = Y"
  shows "walks p w Y 0 e t (t\<lparr>trace := trace t @ tr\<rparr>)"
  using walks_trace[OF w assms(3)] by (rule walks_cong) (use assms in simp_all)

lemma step_refs:
  assumes w: "parsers t p = Some w"
  shows "wp (iotjs_jval_destroy v) (\<lambda>_ u. walks p w [] 0 (\<lambda>x. - ref1 v x) t u) t"
  "wp (iotjs_jval_create_array E) (\<lambda>r u. (\<exists>n. r = JArray n) \<and> walks p w [] 0 (ref1 r) t u) t"
  "wp (iotjs_jval_create_object E) (\<lambda>r u. is_object r \<and> walks p w [] 0 (ref1 r) t u) t"
  "length vs < cap \<Longrightarrow> wp (iotjs_jargs_append_jval (jargs_of cap vs) v)
     (\<lambda>r u. r = jargs_of cap (vs @ [v]) \<and> walks p w [] 0 (ref1 v) t u) t"
  "length vs < cap \<Longrightarrow> wp (iotjs_jargs_append_number (jargs_of cap vs) d)
     (\<lambda>r u. r = jargs_of cap (vs @ [JNumber d]) \<and> walks p w [] 0 (ref1 (JNumber d)) t u) t"
  "length vs < cap \<Longrightarrow> wp (iotjs_jargs_append_string (jargs_of cap vs) str)
     (\<lambda>r u. r = jargs_of cap (vs @ [JString (contents str)]) \<and>
        walks p w [] 0 (ref1 (JString (contents str))) t u) t"
  by (auto simp: wp_simps intro!: wp_walks_trace[OF w])

lemma step_jargs:
  assumes w: "parsers t p = Some w"
  shows "0 < cap \<Longrightarrow> wp (iotjs_jargs_create cap)
     (\<lambda>r u. r = jargs_of cap [] \<and> walks p w [] 1 (\<lambda>_. 0) t u) t"
  "vs \<noteq> [] \<Longrightarrow> length vs \<le> cap \<Longrightarrow> wp (iotjs_jargs_destroy (jargs_of cap vs))
     (\<lambda>_ u. walks p w [] (- 1) (\<lambda>x. - int (count_list vs x)) t u) t"
proof -
  show "0 < cap \<Longrightarrow> wp (iotjs_jargs_create cap)
     (\<lambda>r u. r = jargs_of cap [] \<and> walks p w [] 1 (\<lambda>_. 0) t u) t"
    using walks_blocks[OF w, of 1] by (simp add: wp_simps)
  assume vs: "vs \<noteq> []" "length vs \<le> cap"
  let ?t = "t\<lparr>trace := trace t @ map ERelease vs\<rparr>"
  have "walks p w [] 0 (\<lambda>x. - int (count_list vs x)) t ?t"
    by (rule wp_walks_trace[OF w]) simp_all
  then have "walks p w ([] @ []) (0 + - 1) (\<lambda>x. - int (count_list vs x) + 0) t (?t\<lparr>blocks := blocks ?t + - 1\<rparr>)"
    by (rule walks_trans) (rule walks_blocks, simp add: w)
  then show "wp (iotjs_jargs_destroy (jargs_of cap vs))
     (\<lambda>_ u. walks p w [] (- 1) (\<lambda>x. - int (count_list vs x)) t u) t"
    using vs by (simp add: wp_simps)
qed

lemma quiet_walks:
  assumes w: "parsers t p = Some w"
    and "quiet t u" "stored (trace u) = stored (trace t)"
  shows "walks p w [] 0 (\<lambda>_. 0) t u"
  using assms by (auto simp: quiet_def intro!: wp_walks_trace[OF w])

lemma step_callback:
  assumes w: "parsers t p = Some w"
    and "process_module E t" "is_object f" "args_hold jargs vs"
  shows "wp (iotjs_make_callback E f j jargs) (\<lambda>_ u. walks p w [] 0 (\<lambda>_. 0) t u) t"
  by (rule wp_mono[OF array.wp_unseen[OF array.unseen_make_callback make_callback_wp[OF assms(2-4)]]])
    (auto intro: quiet_walks[OF w] called_quiet)

lemma step_callback_result:
  assumes w: "parsers t p = Some w"
    and "process_module E t" "is_object f" "args_hold jargs vs"
  shows "wp (iotjs_make_callback_with_result E f j jargs)
    (\<lambda>r u. (\<exists>tr th. e_call E tr f j vs = (th, r)) \<and> walks p w [] 0 (ref1 r) t u) t"
proof (rule wp_mono[OF array.wp_unseen[OF array.unseen_callback_with_result
      make_callback_with_result_wp[OF assms(2-4)]]], elim conjE exE)
  fix r u th tr
  assume u: "u = t\<lparr>trace := trace t @ ECall f j vs th r # tr\<rparr>" "\<forall>v. owned tr v = 0" "natives tr = []"
    and c: "(th, r) = e_call E (trace t) f j vs" and st: "stored (trace u) = stored (trace t)"
  have "walks p w [] 0 (ref1 r) t u"
    unfolding u(1) by (rule wp_walks_trace[OF w]) (use u st in simp_all)
  then show "(\<exists>tr th. e_call E tr f j vs = (th, r)) \<and> walks p w [] 0 (ref1 r) t u"
    using c by (metis (no_types))
qed

lemma step_property:
  assumes w: "parsers t p = Some w"
    and "parser_js E j" "name \<in> {''OnHeaders'', ''OnHeadersComplete'', ''OnBody'', ''OnMessageComplete''}"
  shows "wp (iotjs_jval_get_property E j name) (\<lambda>f u. (is_function f \<and> (\<exists>tr. e_prop E tr j name = (False, f))) \<and>
    walks p w [] 0 (ref1 f) t u) t"
proof -
  obtain f where f: "e_prop E (trace t @ [ECreate (JString name)]) j name = (False, f)" "is_function f"
    using assms unfolding parser_js_def by blast
  show ?thesis
    using assms(2) f by (auto simp: wp_simps parser_js_def intro!: wp_walks_trace[OF w])
qed

lemma step_sets:
  assumes w: "parsers t p = Some w"
    and "sets_ok E" "is_object j"
  shows "wp (iotjs_jval_set_property_jval E j n v) (\<lambda>_ u. walks p w [] 0 (\<lambda>_. 0) t u) t"
    "wp (iotjs_jval_set_property_number E j n d) (\<lambda>_ u. walks p w [] 0 (\<lambda>_. 0) t u) t"
    "wp (iotjs_jval_set_property_string E j n str) (\<lambda>_ u. walks p w [] 0 (\<lambda>_. 0) t u) t"
    "wp (iotjs_jval_set_property_string_raw E j n tx) (\<lambda>_ u. walks p w [] 0 (\<lambda>_. 0) t u) t"
    "wp (iotjs_jval_set_property_boolean E j n b) (\<lambda>_ u. walks p w [] 0 (\<lambda>_. 0) t u) t"
  using assms
  by (auto simp: wp_simps iotjs_jval_set_property_number_def iotjs_jval_set_property_string_def
      iotjs_jval_set_property_string_raw_def iotjs_jval_set_property_boolean_def intro!: wp_walks_trace[OF w])

lemma step_jobject:
  assumes w: "parsers t p = Some w"
    and "native_law E" "is_object (hp_jobject w)" "native_of (trace t) (hp_jobject w) = p"
  shows "wp (iotjs_httpparserwrap_jobject E p) (\<lambda>r u. r = hp_jobject w \<and> walks p w [] 0 (\<lambda>_. 0) t u) t"
  using assms w
  by (auto simp: iotjs_httpparserwrap_jobject_def get_httpparserwrap_def wp_simps native_law_def
      intro: walks_refl)

lemma store_headers_wp:
  assumes E: "sets_ok E" and j: "is_object j" and w: "parsers t p = Some w"
    and "is": "\<And>i. i \<in> set is \<Longrightarrow> i < length (hp_fields w) \<and> i < length (hp_values w)"
  shows "wp (store_headers E w j is) (\<lambda>_ u. walks p w (map JString (concat (map (\<lambda>i.
      [contents (hp_fields w ! i), contents (hp_values w ! i)]) is))) 0 (\<lambda>_. 0) t u) t"
  using w "is"
proof (induction "is" arbitrary: t)
  case Nil
  then show ?case by (simp add: wp_simps walks_refl)
next
  case (Cons i "is")
  let ?f = "JString (contents (hp_fields w ! i))" and ?v = "JString (contents (hp_values w ! i))"
  let ?tr = "[ECreate ?f, ECreate ?v, ESetIndex j (i * 2) ?f, ESetIndex j (i * 2 + 1) ?v, ERelease ?f, ERelease ?v]"
  have st: "walks p w [?f, ?v] 0 (\<lambda>_. 0) t (t\<lparr>trace := trace t @ ?tr\<rparr>)" (is "walks _ _ _ _ _ _ ?t")
    by (rule wp_walks_trace[OF Cons.prems(1)]) simp_all
  have "wp (store_headers E w j is) (\<lambda>_ u. walks p w (map JString (concat (map (\<lambda>i.
      [contents (hp_fields w ! i), contents (hp_values w ! i)]) (i # is)))) 0 (\<lambda>_. 0) t u) ?t"
    by (rule wp_mono[OF Cons.IH], simp add: Cons.prems(1), rule Cons.prems(2), simp)
      (rule walks_cong[OF walks_trans[OF st]], assumption, simp_all)
  then show ?case
    using Cons.prems(2)[of i] E j
    by (simp add: wp_simps iotjs_jval_set_property_by_index_def set_index_def)
qed

text \<open>A live wrapper: its object, the callbacks of the object, and what the engine guarantees.\<close>

definition parser_at ::
  "'c engine \<Rightarrow> nat \<Rightarrow> iotjs_httpparserwrap_t \<Rightarrow> ('c, 'z) hst_scheme \<Rightarrow> bool" where
  "parser_at E p w s \<longleftrightarrow> native_law E \<and> sets_ok E \<and> process_module E s \<and> parsers s p = Some w \<and>
     parser_js E (hp_jobject w) \<and> native_of (trace s) (hp_jobject w) = p"

lemma parser_atD:
  assumes "parser_at E p w s"
  shows "native_law E" "sets_ok E" "process_module E s" "parsers s p = Some w"
    "parser_js E (hp_jobject w)" "native_of (trace s) (hp_jobject w) = p" "is_object (hp_jobject w)"
  using assms by (auto simp: parser_at_def parser_js_def)

lemma walks_parser_at:
  assumes "parser_at E p w s" "walks p v X k d s t" "hp_jobject v = hp_jobject w"
  shows "parser_at E p v t"
  using assms(1,3) walks_fields(1-3)[OF assms(2)] by (auto simp: parser_at_def)

lemma make_header_wp:
  assumes p: "parser_at E p w s" and n: "hp_n_values w \<le> length (hp_fields w)" "hp_n_values w \<le> length (hp_values w)"
  shows "wp (iotjs_httpparserwrap_make_header E p) (\<lambda>r u. is_object r \<and>
    walks p w (map JString (complete_pairs w)) 0 (ref1 r) s u) s"
  unfolding iotjs_httpparserwrap_make_header_def
  apply (rule walk_get[OF walks_refl[OF parser_atD(4)[OF p]]])
  apply (rule walk_bnd[OF walks_refl[OF parser_atD(4)[OF p]]], rule step_refs(2), rule parser_atD(4)[OF p])
  apply (rule walk_sq, assumption, rule store_headers_wp[OF parser_atD(2)[OF p]])
     apply fastforce
    apply (erule walks_fields(1))
   apply (use n in simp)
  apply (auto simp: wp_simps complete_pairs_eq elim!: walks_cong)
  done

lemma step_url:
  assumes "parsers t p = Some w" "length vs < cap"
  shows "wp (if c then iotjs_jargs_append_string (jargs_of cap vs) str else ret (jargs_of cap vs))
    (\<lambda>r u. r = jargs_of cap (vs @ (if c then [JString (contents str)] else [])) \<and>
       walks p w [] 0 (\<lambda>x. if c then ref1 (JString (contents str)) x else 0) t u) t"
  using step_refs(6)[OF assms, of str] walks_refl[OF assms(1)] by (cases c) (simp_all add: wp_ret)

lemma walk_assert: "b \<Longrightarrow> wp n Q s \<Longrightarrow> wp (sq (IOTJS_ASSERT l b) n) Q s"
  by (simp add: wp_simps)

lemma flush_wp:
  assumes p: "parser_at E p w s" and n: "hp_n_values w \<le> length (hp_fields w)" "hp_n_values w \<le> length (hp_values w)"
    and url: "string_wf (hp_url w)"
  shows "wp (iotjs_httpparserwrap_flush E L p) (\<lambda>_ u. \<exists>url. string_wf url \<and> contents url = [] \<and>
    held url = 0 \<and> walks p (w\<lparr>hp_url := url, hp_flushed := True\<rparr>) (map JString (complete_pairs w))
      (- held (hp_url w)) (\<lambda>_. 0) s u) s"
  unfolding iotjs_httpparserwrap_flush_def
  apply (rule walk_bnd[OF walks_refl[OF parser_atD(4)[OF p]]],
      rule step_jobject[OF parser_atD(4,1,7,6)[OF p]])
  apply (hypsubst)
  apply (rule walk_bnd, assumption, rule step_property[OF _ parser_atD(5)[OF p]], erule walks_fields(1), simp)
  apply (rule walk_assert, (erule conjE)+, assumption)
  apply (rule walk_bnd, assumption, rule step_jargs(1), erule walks_fields(1), simp)
  apply (hypsubst)
  apply (rule walk_bnd, assumption, rule make_header_wp[OF _ n], rule walks_parser_at[OF p], assumption, rule refl)
  apply (rule walk_bnd, assumption, rule step_refs(4), erule walks_fields(1), simp)
  apply (hypsubst)
  apply (rule walk_sq, assumption, rule step_refs(1), erule walks_fields(1))
  apply (rule walk_get, assumption)
  apply (rule walk_bnd, assumption, rule step_url, erule walks_fields(1), simp)
  apply (hypsubst)
  apply (rule walk_sq, assumption, rule step_callback, erule walks_fields(1))
     apply (rule parser_atD(3)[OF walks_parser_at[OF p]], assumption, rule refl)
    apply simp
   apply (rule args_hold_intros(2))
  apply (rule walk_get, assumption)
  apply (rule walk_empty, assumption, rule url)
  apply (rule walk_put, assumption)
  apply (rule walk_sq, assumption, rule step_jargs(2), erule walks_fields(1), simp, simp)
  apply (rule walk_sq, assumption, rule step_refs(1), erule walks_fields(1))
  apply (rule walk_get, assumption)
  apply (rule walk_put_last, assumption)
  subgoal for r u f u1 a u2 h
    apply (rule exI, intro conjI, assumption, assumption, assumption)
    apply (simp, erule walks_cong)
    apply (auto)
    done
  done

section \<open>The protocol of the parser\<close>

text \<open>
  What the library documents of the order of its callbacks, as far as the wrapper relies on it.
  A value follows a field or a value; a message begins, and a head ends, between headers; the
  head of a request has a URL. \<open>ph_used\<close> counts the bytes of the head since the message began:
  the library gives up at \<^verbatim>\<open>HTTP_MAX_HEADER_SIZE\<close>, 80 KiB for the head and as much for the
  trailer, and \<open>head_limit\<close> is above that. A head has no NUL character. \<open>open\<close> tells whether
  there is input (a body is never reported at its end), \<open>request\<close> the type of the parser.
\<close>

datatype head_phase = NoHeader | InField | InValue

record http_phase =
  ph_head :: head_phase
  ph_used :: nat
  ph_url :: bool

definition head_limit :: nat where
  "head_limit = 2 ^ 20"

definition slice :: "char list \<Rightarrow> nat \<Rightarrow> nat \<Rightarrow> char list" where
  "slice data off len = take len (drop off data)"

definition head_text :: "char list \<Rightarrow> nat \<Rightarrow> nat \<Rightarrow> http_phase \<Rightarrow> bool" where
  "head_text data off len q \<longleftrightarrow> off + len \<le> length data \<and> NUL \<notin> set (slice data off len) \<and>
     ph_used q + len \<le> head_limit"

definition advance ::
  "bool \<Rightarrow> bool \<Rightarrow> char list \<Rightarrow> http_phase \<Rightarrow> http_event \<Rightarrow> http_phase option" where
  "advance request opened data q ev =
     (case ev of
        OnMessageBegin \<Rightarrow>
          if ph_head q = InField then None
          else Some \<lparr>ph_head = NoHeader, ph_used = 0, ph_url = False\<rparr>
      | OnUrl off len \<Rightarrow>
          if head_text data off len q
          then Some (q\<lparr>ph_used := ph_used q + len, ph_url := ph_url q \<or> 0 < len\<rparr>) else None
      | OnStatus off len \<Rightarrow>
          if head_text data off len q then Some (q\<lparr>ph_used := ph_used q + len\<rparr>) else None
      | OnHeaderField off len \<Rightarrow>
          if head_text data off len q
          then Some (q\<lparr>ph_head := InField, ph_used := ph_used q + len\<rparr>) else None
      | OnHeaderValue off len \<Rightarrow>
          if head_text data off len q \<and> ph_head q \<noteq> NoHeader
          then Some (q\<lparr>ph_head := InValue, ph_used := ph_used q + len\<rparr>) else None
      | OnHeadersComplete \<Rightarrow>
          if ph_head q \<noteq> InField \<and> (request \<longrightarrow> ph_url q)
          then Some (q\<lparr>ph_head := NoHeader\<rparr>) else None
      | OnBody off len \<Rightarrow> if opened \<and> off + len \<le> length data then Some q else None
      | OnMessageComplete \<Rightarrow> Some q)"

text \<open>The wrapper follows the protocol.\<close>

definition tracks :: "iotjs_httpparserwrap_t \<Rightarrow> http_phase \<Rightarrow> bool" where
  "tracks w q \<longleftrightarrow> hp_wf w \<and> length (contents (hp_url w)) \<le> ph_used q \<and>
     length (contents (hp_status_msg w)) \<le> ph_used q \<and> ph_used q \<le> head_limit \<and>
     (ph_url q \<longrightarrow> hp_flushed w \<or> contents (hp_url w) \<noteq> []) \<and>
     (case ph_head q of
        NoHeader \<Rightarrow> hp_n_fields w = hp_n_values w
      | InField \<Rightarrow> hp_n_fields w = hp_n_values w + 1 \<and>
          length (contents (hp_fields w ! hp_n_values w)) \<le> ph_used q
      | InValue \<Rightarrow> hp_n_fields w = hp_n_values w \<and> 0 < hp_n_values w \<and>
          length (contents (hp_values w ! (hp_n_values w - 1))) \<le> ph_used q)"

text \<open>The names and values of the headers so far, as the events report them.\<close>

definition head_step :: "char list \<Rightarrow> string list \<Rightarrow> http_event \<Rightarrow> string list" where
  "head_step data hs ev =
     (case ev of
        OnHeaderField off len \<Rightarrow>
          if even (length hs) then hs @ [slice data off len]
          else butlast hs @ [last hs @ slice data off len]
      | OnHeaderValue off len \<Rightarrow>
          if odd (length hs) then hs @ [slice data off len]
          else butlast hs @ [last hs @ slice data off len]
      | _ \<Rightarrow> hs)"

text \<open>
  \<open>callback_ok p q hs w s u\<close>: a callback took the wrapper from \<open>w\<close> to one that follows \<open>q\<close>; the
  headers stored on the way and those still pending are \<open>hs\<close>.
\<close>

definition same_input :: "iotjs_httpparserwrap_t \<Rightarrow> iotjs_httpparserwrap_t \<Rightarrow> bool" where
  "same_input w v \<longleftrightarrow> hp_jobject v = hp_jobject w \<and> hp_parser v = hp_parser w \<and>
     hp_cur_jbuf v = hp_cur_jbuf w \<and> hp_cur_buf v = hp_cur_buf w"

definition callback_ok ::
  "nat \<Rightarrow> http_phase \<Rightarrow> string list \<Rightarrow> iotjs_httpparserwrap_t \<Rightarrow> ('c, 'z) hst_scheme \<Rightarrow>
   ('c, 'z) hst_scheme \<Rightarrow> bool" where
  "callback_ok p q hs w s u \<longleftrightarrow> (\<exists>v X. walks p v (map JString X) (strings_held v - strings_held w)
       (\<lambda>_. 0) s u \<and> tracks v q \<and> same_input w v \<and> X @ pending v = hs \<and> even (length X))"

definition pairs :: "iotjs_string_t list \<Rightarrow> iotjs_string_t list \<Rightarrow> nat \<Rightarrow> string list" where
  "pairs fs vs n = concat (map (\<lambda>i. [contents (fs ! i), contents (vs ! i)]) [0..<n])"

lemma pairs_simps [simp]:
  "pairs fs vs 0 = []" "pairs fs vs (Suc n) = pairs fs vs n @ [contents (fs ! n), contents (vs ! n)]"
  "length (pairs fs vs n) = 2 * n"
  "n \<le> k \<Longrightarrow> pairs (fs[k := f]) vs n = pairs fs vs n"
  "n \<le> k \<Longrightarrow> pairs fs (vs[k := v]) n = pairs fs vs n"
  by (auto simp: pairs_def intro!: arg_cong[where f = concat])

lemma pending_pairs:
  "pending w = pairs (hp_fields w) (hp_values w) (hp_n_values w) @
     (if hp_n_fields w = hp_n_values w then [] else [contents (hp_fields w ! hp_n_values w)])"
  by (simp add: pending_def pairs_def)

lemma complete_pairs: "complete_pairs w = pairs (hp_fields w) (hp_values w) (hp_n_values w)"
  by (simp add: complete_pairs_eq pairs_def)

lemma is_empty_contents: "string_wf str \<Longrightarrow> iotjs_string_is_empty str = (contents str = [])"
  by (simp add: iotjs_string_is_empty_def string_wf_size flip: unat_eq_0)

lemma head_text_append:
  assumes "head_text data off len q" "length (contents str) \<le> ph_used q"
  shows "c_int32 (int len) = int len" "len \<le> length (drop off data)"
    "NUL \<notin> set (take len (drop off data))" "length (contents str) + len \<le> 2 ^ 31"
  using assms by (auto simp: head_text_def head_limit_def slice_def)

lemma head_text_length: "head_text data off len q \<Longrightarrow> length (take len (drop off data)) = len"
  by (auto simp: head_text_def)

lemma callback_okI:
  assumes "walks p v Y k d s u" "tracks v q" "same_input w v"
    "X @ pending v = hs" "even (length X)" "Y = map JString X" "k = strings_held v - strings_held w"
    "\<And>x. d x = 0"
  shows "callback_ok p q hs w s u"
  unfolding callback_ok_def
  by (rule exI[where x = v], rule exI[where x = X], rule conjI, rule walks_cong[OF assms(1)])
    (simp_all add: assms)

lemma on_message_begin_wp:
  assumes p: "parser_at E p w s" and tr: "tracks w q" and q: "advance b c data q OnMessageBegin = Some q'"
  shows "wp (iotjs_httpparserwrap_on_message_begin p) (\<lambda>r u. r = 0 \<and> callback_ok p q' (pending w) w s u) s"
proof -
  have wf: "string_wf (hp_url w)" "string_wf (hp_status_msg w)" using tr by (simp_all add: tracks_def hp_wf_def)
  have *: "q' = \<lparr>ph_head = NoHeader, ph_used = 0, ph_url = False\<rparr>" "ph_head q \<noteq> InField"
    using q by (simp_all add: advance_def split: if_splits)
  show ?thesis
    unfolding iotjs_httpparserwrap_on_message_begin_def
    apply (rule walk_get[OF walks_refl[OF parser_atD(4)[OF p]]])
    apply (rule walk_empty[OF walks_refl[OF parser_atD(4)[OF p]]], rule wf)
    apply (rule walk_empty, assumption, rule wf)
    apply (rule walk_put, assumption)
    subgoal for url u msg u1 u2
      unfolding wp_ret
      apply (rule conjI[OF refl])
      apply (rule callback_okI[where v = "w\<lparr>hp_url := url, hp_status_msg := msg\<rparr>" and X = "[]"])
           apply assumption
      using tr * by (auto simp: tracks_def hp_wf_def same_input_def pending_pairs strings_held_def
          split: head_phase.splits)
    done
qed

lemma on_url_wp:
  assumes p: "parser_at E p w s" and tr: "tracks w q" and q: "advance b c data q (OnUrl off len) = Some q'"
  shows "wp (iotjs_httpparserwrap_on_url p (data, off) len) (\<lambda>r u. r = 0 \<and> callback_ok p q' (pending w) w s u) s"
proof -
  have wf: "string_wf (hp_url w)" and le: "length (contents (hp_url w)) \<le> ph_used q"
    using tr by (simp_all add: tracks_def hp_wf_def)
  have *: "q' = q\<lparr>ph_used := ph_used q + len, ph_url := ph_url q \<or> 0 < len\<rparr>" and t: "head_text data off len q"
    using q by (simp_all add: advance_def split: if_splits)
  have ln: "length (take len (drop off data)) = len" using head_text_length[OF t] .
  show ?thesis
    unfolding iotjs_httpparserwrap_on_url_def fst_conv snd_conv
    apply (rule walk_get[OF walks_refl[OF parser_atD(4)[OF p]]])
    apply (rule walk_append[OF walks_refl[OF parser_atD(4)[OF p]] wf head_text_append[OF t le]])
    apply (rule walk_put, assumption)
    subgoal for url u u1
      unfolding wp_ret
      apply (rule conjI[OF refl])
      apply (rule callback_okI[where v = "w\<lparr>hp_url := url\<rparr>" and X = "[]"])
           apply assumption
      using tr * ln t by (auto simp: tracks_def hp_wf_def same_input_def pending_pairs strings_held_def head_text_def
          split: head_phase.splits)
    done
qed

lemma on_status_wp:
  assumes p: "parser_at E p w s" and tr: "tracks w q" and q: "advance b c data q (OnStatus off len) = Some q'"
  shows "wp (iotjs_httpparserwrap_on_status p (data, off) len) (\<lambda>r u. r = 0 \<and> callback_ok p q' (pending w) w s u) s"
proof -
  have wf: "string_wf (hp_status_msg w)" and le: "length (contents (hp_status_msg w)) \<le> ph_used q"
    using tr by (simp_all add: tracks_def hp_wf_def)
  have *: "q' = q\<lparr>ph_used := ph_used q + len\<rparr>" and t: "head_text data off len q"
    using q by (simp_all add: advance_def split: if_splits)
  have ln: "length (take len (drop off data)) = len" using head_text_length[OF t] .
  show ?thesis
    unfolding iotjs_httpparserwrap_on_status_def fst_conv snd_conv
    apply (rule walk_get[OF walks_refl[OF parser_atD(4)[OF p]]])
    apply (rule walk_append[OF walks_refl[OF parser_atD(4)[OF p]] wf head_text_append[OF t le]])
    apply (rule walk_put, assumption)
    subgoal for msg u u1
      unfolding wp_ret
      apply (rule conjI[OF refl])
      apply (rule callback_okI[where v = "w\<lparr>hp_status_msg := msg\<rparr>" and X = "[]"])
           apply assumption
      using tr * ln t by (auto simp: tracks_def hp_wf_def same_input_def pending_pairs strings_held_def head_text_def
          split: head_phase.splits)
    done
qed

text \<open>Where the next piece goes: the slot that the two header callbacks append to.\<close>

lemma tracksD:
  assumes "tracks w q"
  shows "string_wf (hp_url w)" "string_wf (hp_status_msg w)"
    "i < HEADER_MAX \<Longrightarrow> string_wf (hp_fields w ! i)" "i < HEADER_MAX \<Longrightarrow> string_wf (hp_values w ! i)"
    "length (hp_fields w) = HEADER_MAX" "length (hp_values w) = HEADER_MAX"
    "hp_n_values w \<le> hp_n_fields w" "hp_n_fields w \<le> hp_n_values w + 1" "hp_n_fields w < HEADER_MAX"
  using assms by (auto simp: tracks_def hp_wf_def)

lemma wf_update: "\<forall>str \<in> set xs. string_wf str \<Longrightarrow> string_wf y \<Longrightarrow> \<forall>str \<in> set (xs[i := y]). string_wf str"
  by (auto dest: set_update_subset_insert[THEN subsetD])

lemma callback_ok_trans:
  assumes "walks p v (map JString X) (strings_held v - strings_held w) (\<lambda>_. 0) s t"
    "same_input w v" "even (length X)" "callback_ok p q hs v t u" "X @ hs = hs'"
  shows "callback_ok p q hs' w s u"
proof -
  obtain v' X' where v': "walks p v' (map JString X') (strings_held v' - strings_held v) (\<lambda>_. 0) t u"
    "tracks v' q" "same_input v v'" "X' @ pending v' = hs" "even (length X')"
    using assms(4) unfolding callback_ok_def by blast
  show ?thesis
    using walks_trans[OF assms(1) v'(1)]
    by (rule callback_okI[where X = "X @ X'"]) (use v' assms(2,3,5) in \<open>auto simp: same_input_def\<close>)
qed

lemma in_field:
  assumes "tracks v q" "ph_head q = InField"
  shows "hp_n_fields v = hp_n_values v + 1" "hp_n_values v < HEADER_MAX"
    "length (contents (hp_fields v ! hp_n_values v)) \<le> ph_used q"
    "pending v = complete_pairs v @ [contents (hp_fields v ! hp_n_values v)]"
  using assms by (auto simp: tracks_def hp_wf_def pending_pairs complete_pairs)

lemma in_value:
  assumes "tracks v q" "ph_head q = InValue"
  shows "hp_n_fields v = hp_n_values v" "0 < hp_n_values v" "hp_n_values v < HEADER_MAX"
    "length (contents (hp_values v ! (hp_n_values v - 1))) \<le> ph_used q"
    "pending v = pairs (hp_fields v) (hp_values v) (hp_n_values v - 1) @
       [contents (hp_fields v ! (hp_n_values v - 1)), contents (hp_values v ! (hp_n_values v - 1))]"
proof -
  show *: "hp_n_fields v = hp_n_values v" "0 < hp_n_values v" "hp_n_values v < HEADER_MAX"
    "length (contents (hp_values v ! (hp_n_values v - 1))) \<le> ph_used q"
    using assms by (auto simp: tracks_def hp_wf_def)
  then have "pending v = pairs (hp_fields v) (hp_values v) (Suc (hp_n_values v - 1))"
    by (simp add: pending_pairs)
  then show "pending v = pairs (hp_fields v) (hp_values v) (hp_n_values v - 1) @
       [contents (hp_fields v ! (hp_n_values v - 1)), contents (hp_values v ! (hp_n_values v - 1))]"
    by simp
qed

lemma extend_field_wp:
  assumes v: "parsers t p = Some v" and tr: "tracks v q" "ph_head q = InField" and hd: "head_text data off len q"
  shows "wp (bnd (get_httpparserwrap p) (\<lambda>w.
     sq (IOTJS_ASSERT ''iotjs_httpparserwrap_on_header_field'' (hp_n_fields w = hp_n_values w + 1))
    (bnd (last_of (hp_fields w) (hp_n_fields w)) (\<lambda>field.
     bnd (iotjs_string_append field (drop (snd (data, off)) (fst (data, off))) (c_int32 (int len))) (\<lambda>field.
     sq (put_httpparserwrap p (w\<lparr>hp_fields := (hp_fields w)[hp_n_fields w - 1 := field]\<rparr>))
    (ret 0))))))
    (\<lambda>r u. r = 0 \<and> callback_ok p (q\<lparr>ph_used := ph_used q + len\<rparr>)
       (butlast (pending v) @ [last (pending v) @ slice data off len]) v t u) t"
proof -
  note f = in_field[OF tr] and D = tracksD[OF tr(1)]
  have ln: "length (slice data off len) = len" using head_text_length[OF hd] by (simp add: slice_def)
  show ?thesis
    unfolding fst_conv snd_conv
    apply (rule walk_get[OF walks_refl[OF v]])
    apply (rule walk_assert[OF f(1)])
    apply (subst wp_bnd, simp only: wp_last_of f(1) add_diff_cancel_right')
    apply (intro conjI)
      apply simp
     using f(1) D apply simp
    apply (rule walk_append[OF walks_refl[OF v] D(3)[OF f(2)] head_text_append[OF hd f(3)]])
    apply (rule walk_put, assumption)
    unfolding wp_ret
    apply (rule conjI[OF refl])
    subgoal for f u u1
      apply (rule callback_okI[where X = "[]"], assumption)
      using tr f hd D ln wf_update[of "hp_fields v" f "hp_n_values v"]
      by (auto simp: tracks_def hp_wf_def same_input_def pending_pairs strings_held_def head_text_def
          sum_held_update slice_def complete_pairs)
    done
qed

lemma extend_value_wp:
  assumes v: "parsers t p = Some v" and tr: "tracks v q" "ph_head q = InValue" and hd: "head_text data off len q"
  shows "wp (bnd (get_httpparserwrap p) (\<lambda>w.
     sq (IOTJS_ASSERT ''iotjs_httpparserwrap_on_header_value'' (hp_n_fields w = hp_n_values w))
    (bnd (last_of (hp_values w) (hp_n_values w)) (\<lambda>val.
     bnd (iotjs_string_append val (drop (snd (data, off)) (fst (data, off))) (c_int32 (int len))) (\<lambda>val.
     sq (put_httpparserwrap p (w\<lparr>hp_values := (hp_values w)[hp_n_values w - 1 := val]\<rparr>))
    (ret 0))))))
    (\<lambda>r u. r = 0 \<and> callback_ok p (q\<lparr>ph_used := ph_used q + len\<rparr>)
       (butlast (pending v) @ [last (pending v) @ slice data off len]) v t u) t"
proof -
  note f = in_value[OF tr] and D = tracksD[OF tr(1)]
  have n: "hp_n_values v - 1 < HEADER_MAX" using f(3) by simp
  have ln: "length (slice data off len) = len" using head_text_length[OF hd] by (simp add: slice_def)
  show ?thesis
    unfolding fst_conv snd_conv
    apply (rule walk_get[OF walks_refl[OF v]])
    apply (rule walk_assert[OF f(1)])
    apply (subst wp_bnd, simp only: wp_last_of)
    apply (intro conjI)
      apply (rule f(2))
     using f(3) D(6) apply simp
    apply (rule walk_append[OF walks_refl[OF v] D(4)[OF n] head_text_append[OF hd f(4)]])
    apply (rule walk_put, assumption)
    unfolding wp_ret
    apply (rule conjI[OF refl])
    subgoal for x u u1
      apply (rule callback_okI[where X = "[]"], assumption)
            defer
            apply (simp add: same_input_def)
           defer
           apply simp
          apply simp
         using n D(6) apply (simp add: strings_held_def sum_held_update)
        apply simp
       using tr f hd D ln wf_update[of "hp_values v" x "hp_n_values v - 1"]
       apply (auto simp: tracks_def hp_wf_def head_text_def slice_def)[1]
      using f(1,2) D(6) n
      by (cases "hp_n_values v") (simp_all add: pending_pairs slice_def butlast_append)
    done
qed

text \<open>Opening the slot of the next name or value.\<close>

lemma open_field_wp:
  assumes p: "parser_at E p w s" and tr: "tracks w q" and n: "hp_n_fields w = hp_n_values w"
  shows "wp (sq (put_httpparserwrap p (w\<lparr>hp_n_fields := hp_n_fields w + 1\<rparr>))
             (sq (if hp_n_fields w + 1 = HEADER_MAX
                  then sq (iotjs_httpparserwrap_flush E L p)
                       (bnd (get_httpparserwrap p) (\<lambda>w.
                        put_httpparserwrap p (w\<lparr>hp_n_fields := 1, hp_n_values := 0\<rparr>)))
                  else ret ())
             (bnd (get_httpparserwrap p) (\<lambda>w.
              bnd (last_of (hp_fields w) (hp_n_fields w)) (\<lambda>field.
              bnd (iotjs_string_make_empty field) (\<lambda>field.
              put_httpparserwrap p (w\<lparr>hp_fields := (hp_fields w)[hp_n_fields w - 1 := field]\<rparr>)))))))
    (\<lambda>_. callback_ok p (q\<lparr>ph_head := InField\<rparr>) (pending w @ [[]]) w s) s"
proof -
  note D = tracksD[OF tr]
  let ?w = "w\<lparr>hp_n_fields := hp_n_fields w + 1\<rparr>"
  show ?thesis
  proof (cases "hp_n_fields w + 1 = HEADER_MAX")
    case False
    then have n': "Suc (hp_n_values w) < HEADER_MAX" using D n by simp
    show ?thesis
      apply (rule walk_put[OF walks_refl[OF parser_atD(4)[OF p]]])
      apply (simp only: False if_False wp_sq wp_ret)
      apply (rule walk_get, assumption)
      apply (subst wp_bnd, simp add: wp_last_of, intro conjI)
       using D apply simp
      apply (rule walk_empty, assumption, rule D(3))
       apply (simp add: D)
      apply (rule walk_put_last, assumption)
      subgoal for u f u1 u2
        apply (rule callback_okI[where X = "[]"], assumption)
        using tr n n' D wf_update[of "hp_fields w" f "hp_n_values w"]
        by (auto simp: tracks_def hp_wf_def same_input_def pending_pairs strings_held_def
            sum_held_update)
      done
  next
    case True
    have pw: "parser_at E p ?w t" if "walks p ?w [] 0 (\<lambda>_. 0) s t" for t
      using walks_parser_at[OF p that] by simp
    show ?thesis
      apply (rule walk_put[OF walks_refl[OF parser_atD(4)[OF p]]])
      apply (simp only: if_P[OF True] wp_sq)
      subgoal premises st for t
        apply (rule wp_mono[OF flush_wp[OF pw[OF st]]])
           using D apply (simp_all)[3]
        apply (elim exE conjE)
        apply (drule walks_trans[OF st])
        apply (rule walk_get, assumption)
        apply (rule walk_put_last, assumption)
        apply (rule walk_get, assumption)
        apply (subst wp_bnd, simp only: wp_last_of, intro conjI)
          apply simp
         using D apply (simp add: HEADER_MAX_def)
        apply (rule walk_empty, assumption)
         apply (simp add: D HEADER_MAX_def)
        apply (rule walk_put_last, assumption)
        subgoal for _ u url u1 f u2 u3
          apply (rule callback_okI[where X = "pending w"], assumption)
          using tr n True D wf_update[of "hp_fields w" f 0]
          by (auto simp: tracks_def hp_wf_def same_input_def pending_pairs strings_held_def
            sum_held_update HEADER_MAX_def complete_pairs)
        done
      done
  qed
qed

lemma open_value_wp:
  assumes p: "parser_at E p w s" and tr: "tracks w q" and n: "hp_n_fields w \<noteq> hp_n_values w"
  shows "wp (bnd (last_of (hp_values w) (hp_n_values w + 1)) (\<lambda>val.
              bnd (iotjs_string_make_empty val) (\<lambda>val.
              put_httpparserwrap p (w\<lparr>hp_n_values := hp_n_values w + 1,
                hp_values := (hp_values w)[hp_n_values w := val]\<rparr>))))
    (\<lambda>_. callback_ok p (q\<lparr>ph_head := InValue\<rparr>) (pending w @ [[]]) w s) s"
proof -
  note D = tracksD[OF tr]
  have f: "hp_n_fields w = hp_n_values w + 1" "hp_n_values w < HEADER_MAX"
    using n D by simp_all
  show ?thesis
    apply (subst wp_bnd, simp only: wp_last_of, intro conjI)
      apply simp
     using D f apply simp
    apply (rule walk_empty[OF walks_refl[OF parser_atD(4)[OF p]]])
     apply (simp add: D f)
    apply (rule walk_put_last, assumption)
    subgoal for v u u1
      apply (rule callback_okI[where X = "[]"], assumption)
      using tr n f D wf_update[of "hp_values w" v "hp_n_values w"]
      by (auto simp: tracks_def hp_wf_def same_input_def pending_pairs strings_held_def
          sum_held_update)
    done
qed

text \<open>From an opened slot on: the piece is appended to it.\<close>

lemma opened_then:
  assumes c: "callback_ok p q hs w s t"
    and m: "\<And>v. tracks v q \<Longrightarrow> parsers t p = Some v \<Longrightarrow>
      wp m (\<lambda>r u. r = 0 \<and> callback_ok p q' (butlast (pending v) @ [last (pending v) @ x]) v t u) t"
    and hs: "hs' = butlast hs @ [last hs @ x]" and ne: "\<And>v. tracks v q \<Longrightarrow> pending v \<noteq> []"
  shows "wp m (\<lambda>r u. r = 0 \<and> callback_ok p q' hs' w s u) t"
proof -
  obtain v X where v: "walks p v (map JString X) (strings_held v - strings_held w) (\<lambda>_. 0) s t"
    "tracks v q" "same_input w v" "X @ pending v = hs" "even (length X)"
    using c unfolding callback_ok_def by blast
  have eq: "X @ (butlast (pending v) @ [last (pending v) @ x]) = hs'"
    using ne[OF v(2)] by (simp add: hs v(4)[symmetric] butlast_append)
  show ?thesis
    by (rule wp_mono[OF m[OF v(2) walks_fields(1)[OF v(1)]]])
      (use callback_ok_trans[OF v(1,3,5) _ eq] in blast)
qed

lemma callback_ok_refl:
  assumes "parsers s p = Some w" "tracks w q"
  shows "callback_ok p q (pending w) w s s"
  by (rule callback_okI[OF walks_refl[OF assms(1)] assms(2), where X = "[]"]) (simp_all add: same_input_def)

lemma on_header_field_wp:
  assumes p: "parser_at E p w s" and tr: "tracks w q" and q: "advance b c data q (OnHeaderField off len) = Some q'"
  shows "wp (iotjs_httpparserwrap_on_header_field E L p (data, off) len)
    (\<lambda>r u. r = 0 \<and> callback_ok p q' (head_step data (pending w) (OnHeaderField off len)) w s u) s"
proof -
  have q': "q' = (q\<lparr>ph_head := InField\<rparr>)\<lparr>ph_used := ph_used (q\<lparr>ph_head := InField\<rparr>) + len\<rparr>"
    and t: "head_text data off len (q\<lparr>ph_head := InField\<rparr>)"
    using q by (simp_all add: advance_def head_text_def split: if_splits)
  have ne: "pending v \<noteq> []" if "tracks v (q\<lparr>ph_head := InField\<rparr>)" for v
    using in_field(4)[OF that] by simp
  show ?thesis
  proof (cases "hp_n_fields w = hp_n_values w")
    case True
    have ev: "even (length (pending w))" using True by (simp add: pending_pairs)
    show ?thesis
      unfolding iotjs_httpparserwrap_on_header_field_def
      apply (rule walk_get[OF walks_refl[OF parser_atD(4)[OF p]]])
      apply (simp only: if_P[OF True])
      apply (subst wp_sq)
      apply (rule wp_mono[OF open_field_wp[OF p tr True]])
      apply (rule opened_then, assumption)
        apply (simp only: q')
        apply (rule extend_field_wp, assumption, assumption, simp, rule t)
       apply (simp add: head_step_def ev)
      apply (erule ne)
      done
  next
    case False
    have hd: "ph_head q = InField" and od: "odd (length (pending w))"
      using False tr by (auto simp: tracks_def pending_pairs split: head_phase.splits)
    have q: "q\<lparr>ph_head := InField\<rparr> = q" using hd by (cases q) simp
    show ?thesis
      unfolding iotjs_httpparserwrap_on_header_field_def
      apply (rule walk_get[OF walks_refl[OF parser_atD(4)[OF p]]])
      apply (simp only: if_not_P[OF False] wp_sq wp_ret)
      apply (rule opened_then[OF callback_ok_refl[OF parser_atD(4)[OF p] tr]])
        apply (simp only: q' q)
        apply (rule extend_field_wp, assumption, assumption, rule hd, rule t[unfolded q])
       apply (simp add: head_step_def od)
      apply (rule ne, simp add: q)
      done
  qed
qed

lemma on_header_value_wp:
  assumes p: "parser_at E p w s" and tr: "tracks w q" and q: "advance b c data q (OnHeaderValue off len) = Some q'"
  shows "wp (iotjs_httpparserwrap_on_header_value p (data, off) len)
    (\<lambda>r u. r = 0 \<and> callback_ok p q' (head_step data (pending w) (OnHeaderValue off len)) w s u) s"
proof -
  have q': "q' = (q\<lparr>ph_head := InValue\<rparr>)\<lparr>ph_used := ph_used (q\<lparr>ph_head := InValue\<rparr>) + len\<rparr>"
    and t: "head_text data off len (q\<lparr>ph_head := InValue\<rparr>)" and nh: "ph_head q \<noteq> NoHeader"
    using q by (simp_all add: advance_def head_text_def split: if_splits)
  have ne: "pending v \<noteq> []" if "tracks v (q\<lparr>ph_head := InValue\<rparr>)" for v
    using in_value(5)[OF that] by simp
  show ?thesis
  proof (cases "hp_n_fields w = hp_n_values w")
    case False
    have od: "odd (length (pending w))" using False by (simp add: pending_pairs)
    show ?thesis
      unfolding iotjs_httpparserwrap_on_header_value_def
      apply (rule walk_get[OF walks_refl[OF parser_atD(4)[OF p]]])
      apply (simp only: if_P[OF False])
      apply (subst wp_sq)
      apply (rule wp_mono[OF open_value_wp[OF p tr False]])
      apply (rule opened_then, assumption)
        apply (simp only: q')
        apply (rule extend_value_wp, assumption, assumption, simp, rule t)
       apply (simp add: head_step_def od)
      apply (erule ne)
      done
  next
    case True
    have hd: "ph_head q = InValue" and ev: "even (length (pending w))"
      using True tr nh by (auto simp: tracks_def pending_pairs split: head_phase.splits)
    have q: "q\<lparr>ph_head := InValue\<rparr> = q" using hd by (cases q) simp
    show ?thesis
      unfolding iotjs_httpparserwrap_on_header_value_def
      apply (rule walk_get[OF walks_refl[OF parser_atD(4)[OF p]]])
      apply (simp only: True simp_thms if_False wp_sq wp_ret)
      apply (rule opened_then[OF callback_ok_refl[OF parser_atD(4)[OF p] tr]])
        apply (simp only: q' q)
        apply (rule extend_value_wp, assumption, assumption, rule hd, rule t[unfolded q])
       apply (simp add: head_step_def ev)
      apply (rule ne, simp add: q)
      done
  qed
qed

lemma on_message_complete_wp:
  assumes p: "parser_at E p w s" and tr: "tracks w q" and q: "advance b c data q OnMessageComplete = Some q'"
  shows "wp (iotjs_httpparserwrap_on_message_complete E p) (\<lambda>r u. r = 0 \<and> callback_ok p q' (pending w) w s u) s"
  unfolding iotjs_httpparserwrap_on_message_complete_def
  apply (rule walk_bnd[OF walks_refl[OF parser_atD(4)[OF p]]],
      rule step_jobject[OF parser_atD(4,1,7,6)[OF p]])
  apply (hypsubst)
  apply (rule walk_bnd, assumption, rule step_property[OF _ parser_atD(5)[OF p]], erule walks_fields(1), simp)
  apply (rule walk_assert, (erule conjE)+, assumption)
  apply (rule walk_sq, assumption, rule step_callback, erule walks_fields(1))
     apply (rule parser_atD(3)[OF walks_parser_at[OF p]], assumption, rule refl)
    apply simp
   apply (rule args_hold_intros(1))
  apply (rule walk_sq, assumption, rule step_refs(1), erule walks_fields(1))
  unfolding wp_ret
  apply (rule conjI[OF refl])
  apply (rule callback_okI[where X = "[]"], assumption)
  using tr q by (auto simp: advance_def same_input_def)

lemma on_body_wp:
  assumes p: "parser_at E p w s" and tr: "tracks w q" and q: "advance b c data q (OnBody off len) = Some q'"
    and buf: "hp_cur_jbuf w = Some jb" "hp_cur_buf w = Some data"
  shows "wp (iotjs_httpparserwrap_on_body E p (data, off) len) (\<lambda>r u. r = 0 \<and> callback_ok p q' (pending w) w s u) s"
  unfolding iotjs_httpparserwrap_on_body_def
  apply (rule walk_bnd[OF walks_refl[OF parser_atD(4)[OF p]]],
      rule step_jobject[OF parser_atD(4,1,7,6)[OF p]])
  apply (hypsubst)
  apply (rule walk_bnd, assumption, rule step_property[OF _ parser_atD(5)[OF p]], erule walks_fields(1), simp)
  apply (rule walk_assert, (erule conjE)+, assumption)
  apply (rule walk_bnd, assumption, rule step_jargs(1), erule walks_fields(1), simp)
  apply (hypsubst)
  apply (rule walk_get, assumption)
  apply (simp only: buf option.case fst_conv snd_conv simp_thms if_False)
  apply (rule walk_bnd, assumption, rule step_refs(4), erule walks_fields(1), simp)
  apply (hypsubst)
  apply (rule walk_bnd, assumption, rule step_refs(5), erule walks_fields(1), simp)
  apply (hypsubst)
  apply (rule walk_bnd, assumption, rule step_refs(5), erule walks_fields(1), simp)
  apply (hypsubst)
  apply (rule walk_sq, assumption, rule step_callback, erule walks_fields(1))
     apply (rule parser_atD(3)[OF walks_parser_at[OF p]], assumption, rule refl)
    apply simp
   apply (rule args_hold_intros(2))
  apply (rule walk_sq, assumption, rule step_jargs(2), erule walks_fields(1), simp, simp)
  apply (rule walk_sq, assumption, rule step_refs(1), erule walks_fields(1))
  unfolding wp_ret
  apply (rule conjI[OF refl])
  apply (rule callback_okI[where X = "[]"], assumption)
  using tr q by (auto simp: advance_def same_input_def split: if_splits)

lemma step_if: "(c \<Longrightarrow> wp m (\<lambda>_ u. walks p w [] 0 (\<lambda>_. 0) t u) t) \<Longrightarrow> parsers t p = Some w \<Longrightarrow>
   wp (if c then m else ret ()) (\<lambda>_ u. walks p w [] 0 (\<lambda>_. 0) t u) t"
  by (cases c) (simp_all add: wp_ret walks_refl)

lemma hand_over_wp:
  assumes p: "parser_at E p w s" and tr: "tracks w q" and info: "is_object info"
    and url: "hp_type L (hp_parser w) = HTTP_REQUEST L \<Longrightarrow> ph_url q"
  shows "wp (if hp_flushed w then iotjs_httpparserwrap_flush E L p
         else bnd (iotjs_httpparserwrap_make_header E p) (\<lambda>jheader.
              sq (iotjs_jval_set_property_jval E info ''headers'' jheader)
             (sq (iotjs_jval_destroy jheader)
             (if hp_type L (hp_parser w) = HTTP_REQUEST L
              then sq (IOTJS_ASSERT ''iotjs_httpparserwrap_on_headers_complete''
                         (\<not> iotjs_string_is_empty (hp_url w)))
                      (iotjs_jval_set_property_string E info ''url'' (hp_url w))
              else ret ()))))
    (\<lambda>_ u. \<exists>url. string_wf url \<and> (hp_flushed w \<and> contents url = [] \<or> url = hp_url w) \<and>
       walks p (w\<lparr>hp_url := url\<rparr>) (map JString (complete_pairs w)) (held url - held (hp_url w)) (\<lambda>_. 0) s u) s"
proof -
  note D = tracksD[OF tr]
  have n: "hp_n_values w \<le> length (hp_fields w)" "hp_n_values w \<le> length (hp_values w)" using D by simp_all
  note E = parser_atD(2)[OF p]
  show ?thesis
  proof (cases "hp_flushed w")
    case True
    have "w\<lparr>hp_url := url, hp_flushed := True\<rparr> = w\<lparr>hp_url := url\<rparr>" for url using True by (cases w) simp
    then show ?thesis
      unfolding if_P[OF True]
      using True
      by (rule_tac wp_mono[OF flush_wp[OF p n D(1)]], elim exE conjE, rule_tac x = url in exI) simp
  next
    case False
    have url': "\<not> iotjs_string_is_empty (hp_url w)" if "hp_type L (hp_parser w) = HTTP_REQUEST L"
      using url[OF that] tr False D(1) by (simp add: tracks_def is_empty_contents)
    have w: "w\<lparr>hp_url := hp_url w\<rparr> = w" by simp
    show ?thesis
      apply (simp only: if_not_P[OF False])
      apply (rule walk_bnd[OF walks_refl[OF parser_atD(4)[OF p]]], rule make_header_wp[OF p n])
      apply (rule walk_sq, assumption, rule step_sets(1)[OF _ E info], erule walks_fields(1))
      apply (rule walk_sq, assumption, rule step_refs(1), erule walks_fields(1))
      subgoal for h u1 u2 u3
        apply (rule wp_mono[where P = "\<lambda>_ u. walks p w [] 0 (\<lambda>_. 0) u3 u"])
         apply (rule step_if)
          apply (rule walk_assert[OF url'], assumption)
          apply (rule step_sets(3)[OF _ E info], erule walks_fields(1))
         apply (erule walks_fields(1))
        apply (rule exI[where x = "hp_url w"], intro conjI disjI2 D(1) refl)
        apply (simp only: w, drule(1) walks_trans, erule walks_cong)
          apply simp_all
        done
      done
  qed
qed

lemma walk_sq_to:
  assumes "walks p w X k d s t" "wp m (\<lambda>_ u. \<exists>x. R x \<and> S x \<and> walks p (v x) Y (j x) e t u) t"
    and "\<And>x u. R x \<Longrightarrow> S x \<Longrightarrow> walks p (v x) (X @ Y) (k + j x) (\<lambda>v. d v + e v) s u \<Longrightarrow> wp n Q u"
  shows "wp (sq m n) Q t"
  unfolding wp_sq
  by (rule wp_mono[OF assms(2)]) (use walks_trans[OF assms(1)] assms(3) in blast)

lemma result_boolean:
  assumes "parser_js E j"
  shows "is_function f \<and> (\<exists>tr. e_prop E tr j ''OnHeadersComplete'' = (False, f)) \<Longrightarrow>
    \<exists>tr th. e_call E tr f j vs = (th, r) \<Longrightarrow> \<exists>b. r = JBool b"
  using assms unfolding parser_js_def by (metis prod.inject)

lemma step_status:
  assumes "parsers t p = Some w" "sets_ok E" "is_object j"
  shows "wp (sq (iotjs_jval_set_property_number E j n d) (iotjs_jval_set_property_string E j m str))
    (\<lambda>_ u. walks p w [] 0 (\<lambda>_. 0) t u) t"
  by (rule walk_sq[OF walks_refl[OF assms(1)] step_sets(2)[OF assms]],
      rule wp_mono[OF step_sets(3)[OF _ assms(2,3)]], erule walks_fields(1))
    (drule(1) walks_trans, simp)

lemma on_headers_complete_wp:
  assumes p: "parser_at E p w s" and tr: "tracks w q"
    and q: "advance (hp_type L (hp_parser w) = HTTP_REQUEST L) c data q OnHeadersComplete = Some q'"
  shows "wp (iotjs_httpparserwrap_on_headers_complete E L p)
    (\<lambda>r u. (r = 0 \<or> r = 1) \<and> callback_ok p q' (pending w) w s u \<and>
       (\<exists>v. parsers u p = Some v \<and> pending v = [])) s"
proof -
  have hd: "ph_head q \<noteq> InField" and q': "q' = q\<lparr>ph_head := NoHeader\<rparr>"
    and url: "hp_type L (hp_parser w) = HTTP_REQUEST L \<Longrightarrow> ph_url q"
    using q by (simp_all add: advance_def split: if_splits)
  have n: "hp_n_fields w = hp_n_values w" using hd tr by (auto simp: tracks_def split: head_phase.splits)
  note E = parser_atD(2)[OF p]
  show ?thesis
    unfolding iotjs_httpparserwrap_on_headers_complete_def
    apply (rule walk_bnd[OF walks_refl[OF parser_atD(4)[OF p]]],
        rule step_jobject[OF parser_atD(4,1,7,6)[OF p]])
    apply (hypsubst)
    apply (rule walk_bnd, assumption, rule step_property[OF _ parser_atD(5)[OF p]], erule walks_fields(1), simp)
    apply (rule walk_assert, (erule conjE)+, assumption)
    apply (rule walk_bnd, assumption, rule step_jargs(1), erule walks_fields(1), simp)
    apply (hypsubst)
    apply (rule walk_bnd, assumption, rule step_refs(3), erule walks_fields(1))
    apply (rule walk_get, assumption)
    apply (rule walk_sq_to, assumption, rule hand_over_wp[OF _ tr _ url])
       apply (rule walks_parser_at[OF p], assumption, rule refl)
      apply assumption
     apply assumption
    apply (rule walk_get, assumption)
    apply (rule walk_put, assumption)
    apply (rule walk_sq, assumption, rule step_if, rule step_sets(2)[OF _ E], erule walks_fields(1), assumption,
        erule walks_fields(1))
    apply (rule walk_sq, assumption, rule step_if, rule step_status[OF _ E], erule walks_fields(1), assumption,
        erule walks_fields(1))
    apply (rule walk_sq, assumption, rule step_sets(5)[OF _ E], erule walks_fields(1), assumption)
    apply (rule walk_sq, assumption, rule step_sets(5)[OF _ E], erule walks_fields(1), assumption)
    apply (rule walk_bnd, assumption, rule step_refs(4), erule walks_fields(1), simp)
    apply (hypsubst)
    apply (rule walk_bnd, assumption, rule step_callback_result, erule walks_fields(1))
       apply (rule parser_atD(3)[OF walks_parser_at[OF p]], assumption, simp)
      apply simp
     apply (rule args_hold_intros(2))
    apply (subst wp_bnd, simp only: wp_jval_as)
    apply (frule result_boolean[OF parser_atD(5)[OF p]], assumption, erule exE, rule exI, rule conjI, assumption)
    apply (rule walk_sq, assumption, rule step_jargs(2), erule walks_fields(1), simp, simp)
    apply (rule walk_sq, assumption, rule step_refs(1), erule walks_fields(1))
    apply (rule walk_sq, assumption, rule step_refs(1), erule walks_fields(1))
    apply (rule walk_sq, assumption, rule step_refs(1), erule walks_fields(1))
    unfolding wp_ret
    apply (intro conjI, simp)
     prefer 2 apply (rule exI, rule conjI, erule walks_fields(1), simp add: pending_pairs)
    apply (rule callback_okI[where X = "complete_pairs w"], assumption)
    using tr n hd q' tracksD[OF tr]
    apply (auto simp: tracks_def hp_wf_def same_input_def pending_pairs complete_pairs strings_held_def)
    done
qed

end
