(* ===== verification/Iot_Http_Session.thy ===== *)
theory Iot_Http_Session
  imports Iot_Http_Steps
begin

text \<open>
  Runs of the HTTP parser library through the callbacks, the handlers that start them, sessions of
  handler calls from construction to destruction, and the properties.
\<close>

section \<open>A run of the parser\<close>

lemma settings_wp:
  assumes p: "parser_at E p w s" and tr: "tracks w q"
    and q: "advance (hp_type L (hp_parser w) = HTTP_REQUEST L) c data q ev = Some q'"
    and buf: "c \<Longrightarrow> hp_cur_jbuf w \<noteq> None \<and> hp_cur_buf w = Some data"
  shows "wp (settings E L p data ev)
    (\<lambda>r u. (r = 0 \<or> r = 1) \<and> callback_ok p q' (head_step data (pending w) ev) w s u) s"
proof (cases ev)
  case OnMessageBegin
  then show ?thesis
    using wp_mono[OF on_message_begin_wp[OF p tr, of _ c data q']] q by (simp add: settings_def head_step_def)
next
  case (OnUrl off len)
  then show ?thesis
    using wp_mono[OF on_url_wp[OF p tr, of _ c data off len q']] q by (simp add: settings_def head_step_def)
next
  case (OnStatus off len)
  then show ?thesis
    using wp_mono[OF on_status_wp[OF p tr, of _ c data off len q']] q by (simp add: settings_def head_step_def)
next
  case (OnHeaderField off len)
  then show ?thesis
    using wp_mono[OF on_header_field_wp[OF p tr, of _ c data off len q']] q by (simp add: settings_def)
next
  case (OnHeaderValue off len)
  then show ?thesis
    using wp_mono[OF on_header_value_wp[OF p tr, of _ c data off len q']] q by (simp add: settings_def)
next
  case OnHeadersComplete
  then show ?thesis
    using wp_mono[OF on_headers_complete_wp[OF p tr, of L c data q']] q by (simp add: settings_def head_step_def)
next
  case (OnBody off len)
  then have c: "c" using q by (auto simp: advance_def split: if_splits)
  then obtain jb where "hp_cur_jbuf w = Some jb" "hp_cur_buf w = Some data" using buf by blast
  with OnBody show ?thesis
    using wp_mono[OF on_body_wp[OF p tr, of _ c data off len q' jb]] q by (simp add: settings_def head_step_def)
next
  case OnMessageComplete
  then show ?thesis
    using wp_mono[OF on_message_complete_wp[OF p tr, of _ c data q']] q by (simp add: settings_def head_step_def)
qed

text \<open>
  The runs that keep the protocol from phase \<open>q\<close> on, whatever the callbacks return (0 or 1), and
  leave the parser in a state of the phase that \<open>ph\<close> gives for it.
\<close>

primrec run_ok ::
  "http_lib \<Rightarrow> bool \<Rightarrow> char list \<Rightarrow> (nat \<Rightarrow> http_phase) \<Rightarrow> http_phase \<Rightarrow> http_run \<Rightarrow> bool" where
  "run_ok L c data ph q (HttpReturn st n) = (ph st = q)"
| "run_ok L c data ph q (HttpCall st ev k) =
     (case advance (hp_type L st = HTTP_REQUEST L) c data q ev of
        None \<Rightarrow> False
      | Some q' \<Rightarrow> run_ok L c data ph q' (k 0) \<and> run_ok L c data ph q' (k 1))"

text \<open>The callbacks that a run makes, the state it leaves and the value it returns.\<close>

inductive run_path :: "http_run \<Rightarrow> http_event list \<Rightarrow> nat \<Rightarrow> nat \<Rightarrow> bool" where
  return: "run_path (HttpReturn st n) [] st n"
| callback: "r = 0 \<or> r = 1 \<Longrightarrow> run_path (k r) evs st n \<Longrightarrow> run_path (HttpCall st0 ev k) (ev # evs) st n"

inductive_simps run_path_simps [simp]:
  "run_path (HttpReturn st0 m) evs st n"
  "run_path (HttpCall st0 ev k) evs st n"

definition ran ::
  "nat \<Rightarrow> iotjs_httpparserwrap_t \<Rightarrow> iotjs_httpparserwrap_t \<Rightarrow> string list \<Rightarrow>
   ('c, 'z) hst_scheme \<Rightarrow> ('c, 'z) hst_scheme \<Rightarrow> bool" where
  "ran p w v X s u \<longleftrightarrow> walks p v (map JString X) (strings_held v - strings_held w) (\<lambda>_. 0) s u \<and>
     even (length X) \<and> hp_jobject v = hp_jobject w \<and> hp_cur_jbuf v = hp_cur_jbuf w \<and>
     hp_cur_buf v = hp_cur_buf w"

lemma ran_trans: "ran p w v X s t \<Longrightarrow> ran p v v' Y t u \<Longrightarrow> ran p w v' (X @ Y) s u"
  unfolding ran_def by (auto elim: walks_cong[OF walks_trans])

lemma callback_ran:
  "callback_ok p q hs w s u \<longleftrightarrow> (\<exists>v X. ran p w v X s u \<and> tracks v q \<and> hp_parser v = hp_parser w \<and> X @ pending v = hs)"
  unfolding callback_ok_def ran_def same_input_def by blast

lemma parser_state_update [simp]:
  "tracks (w\<lparr>hp_parser := st\<rparr>) q = tracks w q" "pending (w\<lparr>hp_parser := st\<rparr>) = pending w"
  "strings_held (w\<lparr>hp_parser := st\<rparr>) = strings_held w"
  by (cases "ph_head q"; simp add: tracks_def hp_wf_def pending_pairs strings_held_def)+

lemma set_parser_wp:
  assumes "parsers s p = Some w"
  shows "wp (set_parser p st) (\<lambda>_ u. ran p w (w\<lparr>hp_parser := st\<rparr>) [] s u) s"
  unfolding set_parser_def
  by (rule walk_get[OF walks_refl[OF assms]], rule walk_put_last[OF walks_refl[OF assms]]) (simp add: ran_def)

lemma head_step_append:
  assumes "tracks w q" "advance b c data q ev = Some q'" "even (length Y)"
  shows "head_step data (Y @ pending w) ev = Y @ head_step data (pending w) ev"
proof -
  have "pending w \<noteq> []" if "ev = OnHeaderValue off len" for off len
    using assms(1,2) that in_field(4)[OF assms(1)] in_value(5)[OF assms(1)]
    by (cases "ph_head q") (auto simp: advance_def split: if_splits)
  then show ?thesis
    using assms(3) by (cases ev; cases "pending w = []") (auto simp: head_step_def butlast_append)
qed

lemma run_wp:
  fixes s :: "('a, 'b) hst_scheme"
  assumes "parser_at E p w s" "tracks w q" "run_ok L c data ph q r"
    and "c \<Longrightarrow> hp_cur_jbuf w \<noteq> None \<and> hp_cur_buf w = Some data"
  shows "wp (run_parser E L p data r) (\<lambda>n u. \<exists>evs v X. run_path r evs (hp_parser v) n \<and> ran p w v X s u \<and>
    tracks v (ph (hp_parser v)) \<and>
    (\<forall>Y. even (length Y) \<longrightarrow> foldl (head_step data) (Y @ pending w) evs = Y @ X @ pending v)) s"
  using assms
proof (induction r arbitrary: w q s)
  case (HttpReturn st n)
  have "wp (sq (set_parser p st) (ret n)) (\<lambda>m u. m = n \<and> ran p w (w\<lparr>hp_parser := st\<rparr>) [] s u) s"
    unfolding wp_sq by (rule wp_mono[OF set_parser_wp[OF parser_atD(4)[OF HttpReturn.prems(1)]]]) (simp add: wp_ret)
  then show ?case
    unfolding run_parser.simps
  proof (rule wp_mono, elim conjE)
    fix m u assume u: "m = n" "ran p w (w\<lparr>hp_parser := st\<rparr>) [] s u"
    show "\<exists>evs v X. run_path (HttpReturn st n) evs (hp_parser v) m \<and> ran p w v X s u \<and>
      tracks v (ph (hp_parser v)) \<and>
      (\<forall>Y. even (length Y) \<longrightarrow> foldl (head_step data) (Y @ pending w) evs = Y @ X @ pending v)"
      by (rule exI[where x = "[]"], rule exI[where x = "w\<lparr>hp_parser := st\<rparr>"], rule exI[where x = "[]"])
        (use u HttpReturn.prems in simp)
  qed
next
  case (HttpCall st ev k)
  let ?w = "w\<lparr>hp_parser := st\<rparr>"
  obtain q' where q': "advance (hp_type L st = HTTP_REQUEST L) c data q ev = Some q'"
      and ok: "\<And>r. r = 0 \<or> r = 1 \<Longrightarrow> run_ok L c data ph q' (k r)"
    using HttpCall.prems(3) by (auto split: option.splits)
  show ?case
    unfolding run_parser.simps wp_sq wp_bnd
  proof (rule wp_mono[OF set_parser_wp[OF parser_atD(4)[OF HttpCall.prems(1)]]])
    fix x t assume t: "ran p w ?w [] s t"
    have pt: "parser_at E p ?w t"
      by (rule walks_parser_at[OF HttpCall.prems(1)]) (use t in \<open>auto simp: ran_def\<close>)
    have st: "wp (settings E L p data ev) (\<lambda>r u. (r = 0 \<or> r = 1) \<and>
        callback_ok p q' (head_step data (pending ?w) ev) ?w t u) t"
      by (rule settings_wp[OF pt, where q = q and c = c]) (use HttpCall.prems q' in simp_all)
    show "wp (settings E L p data ev) (\<lambda>x. wp (run_parser E L p data (k x))
       (\<lambda>n u. \<exists>evs v X. run_path (HttpCall st ev k) evs (hp_parser v) n \<and> ran p w v X s u \<and>
        tracks v (ph (hp_parser v)) \<and>
        (\<forall>Y. even (length Y) \<longrightarrow> foldl (head_step data) (Y @ pending w) evs = Y @ X @ pending v))) t"
    proof (rule wp_mono[OF st])
      fix r :: int and u :: "('a, 'b) hst_scheme"
      assume "(r = 0 \<or> r = 1) \<and> callback_ok p q' (head_step data (pending ?w) ev) ?w t u"
      then obtain v X where r: "r = 0 \<or> r = 1" and v: "ran p ?w v X t u" "tracks v q'" "X @ pending v = head_step data (pending w) ev"
        by (auto simp: callback_ran)
      have pu: "parser_at E p v u"
        by (rule walks_parser_at[OF pt]) (use v in \<open>auto simp: ran_def\<close>)
      have buf: "c \<Longrightarrow> hp_cur_jbuf v \<noteq> None \<and> hp_cur_buf v = Some data"
        using HttpCall.prems(4) v(1) by (simp add: ran_def)
      show "wp (run_parser E L p data (k r))
       (\<lambda>n u. \<exists>evs v X. run_path (HttpCall st ev k) evs (hp_parser v) n \<and> ran p w v X s u \<and>
        tracks v (ph (hp_parser v)) \<and>
        (\<forall>Y. even (length Y) \<longrightarrow> foldl (head_step data) (Y @ pending w) evs = Y @ X @ pending v)) u"
      proof (rule wp_mono[OF HttpCall.IH[OF rangeI pu v(2) ok[OF r] buf]])
        fix n z
        assume "\<exists>evs v' X. run_path (k r) evs (hp_parser v') n \<and> ran p v v' X u z \<and> tracks v' (ph (hp_parser v')) \<and>
          (\<forall>Y. even (length Y) \<longrightarrow> foldl (head_step data) (Y @ pending v) evs = Y @ X @ pending v')"
        then obtain evs v' X' where z: "run_path (k r) evs (hp_parser v') n" "ran p v v' X' u z"
          "tracks v' (ph (hp_parser v'))"
          "\<forall>Y. even (length Y) \<longrightarrow> foldl (head_step data) (Y @ pending v) evs = Y @ X' @ pending v'"
          by blast
        have "foldl (head_step data) (Y @ pending w) (ev # evs) = Y @ (X @ X') @ pending v'" if "even (length Y)" for Y
        proof -
          have "head_step data (Y @ pending w) ev = (Y @ X) @ pending v"
            using head_step_append[OF HttpCall.prems(2) q' that] v(3) by simp
          moreover have "even (length (Y @ X))" using v(1) that by (simp add: ran_def)
          ultimately show ?thesis using z(4) by (simp del: append_assoc)
        qed
        moreover have "ran p w v' (X @ X') s z" using ran_trans[OF t ran_trans[OF v(1) z(2)]] by simp
        ultimately show "\<exists>evs v X. run_path (HttpCall st ev k) evs (hp_parser v) n \<and> ran p w v X s z \<and>
            tracks v (ph (hp_parser v)) \<and>
            (\<forall>Y. even (length Y) \<longrightarrow> foldl (head_step data) (Y @ pending w) evs = Y @ X @ pending v)"
          using z(1,3) r by (intro exI[where x = "ev # evs"] exI[where x = v'] exI[where x = "X @ X'"]) auto
      qed
    qed
  qed
qed

section \<open>The handlers\<close>

text \<open>
  \<open>handled\<close>: a handler's body called on \<open>t\<close> ended with the result \<open>r\<close>; the wrapper at \<open>p\<close> is now
  \<open>v\<close>, \<open>X\<close> was stored in arrays, \<open>k\<close> heap blocks were gained.
\<close>

definition handled ::
  "nat \<Rightarrow> iotjs_httpparserwrap_t \<Rightarrow> jval list \<Rightarrow> int \<Rightarrow> jval \<Rightarrow> jval list \<Rightarrow> bool \<times> jval \<Rightarrow>
   ('c, 'z) hst_scheme \<Rightarrow> ('c, 'z) hst_scheme \<Rightarrow> bool" where
  "handled p v X k t args r s u \<longleftrightarrow> parsers u = (parsers s)(p \<mapsto> v) \<and> h_ret u = r \<and> h_argv u = args \<and>
     (\<forall>x. frame_refs u x = owned (trace s) x) \<and> blocks u = blocks (handler_entry t args s) + k \<and>
     jmodule u = jmodule s \<and> bufs u = bufs s \<and> handles u = handles s \<and> reqs u = reqs s \<and>
     native_of (trace u) = native_of (trace s) \<and> stored (trace u) = stored (trace s) @ X"

lemma entry_more [simp]:
  "parsers (handler_entry t args s) = parsers s" "jmodule (handler_entry t args s) = jmodule s"
  "handles (handler_entry t args s) = handles s" "reqs (handler_entry t args s) = reqs s"
  "native_of (trace s @ [EAcquire j]) = native_of (trace s)"
  by (simp_all add: handler_entry_def native_of_append fun_eq_iff)

lemma handled_walks:
  assumes "walks p v X k d (handler_entry t args s) z" "\<And>x. d x = 0"
  shows "handled p v X k t args (False, JUndefined) s z"
  using assms by (auto simp: handled_def walks_def frame_refs_def native_of_append fun_eq_iff)

lemma handled_cong: "handled p v X k t args r s u \<Longrightarrow> X = Y \<Longrightarrow> k = l \<Longrightarrow> handled p v Y l t args r s u"
  by simp

lemma handled_number:
  assumes "walks p v X k d (handler_entry t args s) z" "\<And>x. d x = 0"
  shows "wp (iotjs_jhandler_return_number n) (\<lambda>_ u. handled p v X k t args (False, JNumber n) s u) z"
proof -
  have z: "\<not> h_finished z" "h_ret z = (False, JUndefined)"
    using walks_fields(6,7)[OF assms(1)] by simp_all
  then show ?thesis
    using assms by (auto simp: wp_simps handled_def walks_def frame_refs_def native_of_append fun_eq_iff)
qed

lemma handled_throw:
  assumes "walks p v X k d (handler_entry t args s) z" "\<And>x. d x = 0"
  shows "wp (check_failed E f) (\<lambda>_ u. \<exists>obj. handled p v X k t args (True, obj) s u) z"
proof -
  have z: "\<not> h_finished z" "h_ret z = (False, JUndefined)"
    using walks_fields(6,7)[OF assms(1)] by simp_all
  then show ?thesis
    using assms by (auto simp: wp_simps handled_def walks_def frame_refs_def native_of_append fun_eq_iff)
qed

lemma parse_error_wp:
  assumes st: "walks p v X k d (handler_entry t args s) z" "\<And>x. d x = 0" and E: "sets_ok E"
  shows "wp (parse_error E L st) (\<lambda>_ u. \<exists>obj. is_object obj \<and> handled p v X k t args (False, obj) s u) z"
  unfolding parse_error_def
  apply (rule walk_bnd[OF st(1), where m = "iotjs_jval_create_error E ''Parse Error''"
        and R = is_object and Y = "\<lambda>_. []" and j = "\<lambda>_. 0" and e = ref1])
   apply (simp add: wp_simps, rule wp_walks_trace[OF walks_fields(1)[OF st(1)]], simp, simp, simp)
  apply (rule walk_sq, assumption, rule step_sets(2)[OF _ E], erule walks_fields(1), assumption)
  apply (rule walk_sq, assumption, rule step_sets(4)[OF _ E], erule walks_fields(1), assumption)
  subgoal premises pr for obj u1 u2 u3
  proof -
    have z: "\<not> h_finished u3" "h_ret u3 = (False, JUndefined)"
      using walks_fields(6,7)[OF pr(4)] by simp_all
    then have "wp (sq (iotjs_jhandler_return_jval obj) (iotjs_jval_destroy obj))
        (\<lambda>_ u. handled p v X k t args (False, obj) s u) u3"
      using pr(4) st(2) by (auto simp: wp_simps handled_def walks_def frame_refs_def native_of_append fun_eq_iff)
    then show ?thesis by (rule wp_mono) (use pr(1) in blast)
  qed
  done

text \<open>The contract of the library: it keeps the protocol, \<open>ph\<close> being the phase of each of its states.\<close>

definition http_law :: "http_lib \<Rightarrow> (nat \<Rightarrow> http_phase) \<Rightarrow> bool" where
  "http_law L ph \<longleftrightarrow>
     (\<forall>st data. run_ok L True data ph (ph st) (http_parser_execute L st (Some data))) \<and>
     (\<forall>st. run_ok L False [] ph (ph st) (http_parser_execute L st None)) \<and>
     (\<forall>t. ph (http_parser_init L t) = \<lparr>ph_head = NoHeader, ph_used = 0, ph_url = False\<rparr>) \<and>
     (\<forall>st b. ph (http_parser_pause L st b) = ph st)"

definition parser_inv ::
  "'c engine \<Rightarrow> (nat \<Rightarrow> http_phase) \<Rightarrow> nat \<Rightarrow> jval \<Rightarrow> ('c, 'z) hst_scheme \<Rightarrow> bool" where
  "parser_inv E ph p j s \<longleftrightarrow>
     (\<exists>w. parser_at E p w s \<and> hp_jobject w = j \<and> tracks w (ph (hp_parser w)))"

definition wrapper :: "nat \<Rightarrow> ('c, 'z) hst_scheme \<Rightarrow> iotjs_httpparserwrap_t" where
  "wrapper p s = the (parsers s p)"

lemma parser_invD:
  assumes "parser_inv E ph p j s"
  shows "parser_at E p (wrapper p s) s" "hp_jobject (wrapper p s) = j"
    "tracks (wrapper p s) (ph (hp_parser (wrapper p s)))" "is_object j" "native_of (trace s) j = p"
    "parsers s p = Some (wrapper p s)"
  using assms parser_atD by (fastforce simp: parser_inv_def wrapper_def)+

text \<open>What every handler keeps: the invariant, and the blocks of the strings of the wrapper.\<close>

definition parser_kept ::
  "'c engine \<Rightarrow> (nat \<Rightarrow> http_phase) \<Rightarrow> nat \<Rightarrow> jval \<Rightarrow> jval list \<Rightarrow> bool \<times> jval \<Rightarrow> string list \<Rightarrow>
   ('c, 'z) hst_scheme \<Rightarrow> ('c, 'z) hst_scheme \<Rightarrow> bool" where
  "parser_kept E ph p j args r X s u \<longleftrightarrow> parser_inv E ph p j u \<and>
     handled p (wrapper p u) (map JString X) (strings_held (wrapper p u) - strings_held (wrapper p s)) j args r s u"

lemma parser_keptI:
  assumes "parser_inv E ph p j s" "handled p v (map JString X) k j args r s u"
    "hp_jobject v = j" "tracks v (ph (hp_parser v))" "k = strings_held v - strings_held (wrapper p s)"
  shows "parser_kept E ph p j args r X s u"
proof -
  have v: "wrapper p u = v" using assms(2) by (simp add: wrapper_def handled_def)
  have "parser_at E p v u"
    using parser_invD(1,2)[OF assms(1)] assms(2,3) by (auto simp: parser_at_def handled_def)
  then show ?thesis
    using assms v by (auto simp: parser_kept_def parser_inv_def)
qed

lemma entry_inv: "parser_inv E ph p j s \<Longrightarrow> parser_inv E ph p j (handler_entry t args s)"
  by (simp add: parser_inv_def parser_at_def)

lemma step_wrap:
  assumes "native_law E" "is_object j" "native_of (trace s) j = p" "parsers s p = Some w"
  shows "wp (get_parser_wrap E j) (\<lambda>r u. r = p \<and> walks p w [] 0 (\<lambda>_. 0) s u) s"
  using assms by (simp add: get_parser_wrap_def wp_simps native_law_def walks_refl)

lemma step_parser:
  assumes "parsers s p = Some w"
  shows "wp (iotjs_httpparserwrap_parser p) (\<lambda>r u. r = hp_parser w \<and> walks p w [] 0 (\<lambda>_. 0) s u) s"
  unfolding iotjs_httpparserwrap_parser_def
  by (rule walk_get[OF walks_refl[OF assms]]) (simp add: wp_ret walks_refl assms)

lemma step_this:
  assumes "parsers u p = Some w" "is_object (h_this u)"
  shows "wp JHANDLER_GET_THIS (\<lambda>r v. r = h_this u \<and> walks p w [] 0 (\<lambda>_. 0) u v) u"
  using assms by (simp add: wp_simps walks_refl)

lemma initialize_wp:
  assumes s: "parsers s p = Some w" and wf: "hp_wf w" and L: "http_law L ph"
  shows "wp (iotjs_httpparserwrap_initialize L p ty) (\<lambda>_ u. \<exists>v. walks p v [] (strings_held v - strings_held w) (\<lambda>_. 0) s u \<and>
    hp_jobject v = hp_jobject w \<and> tracks v (ph (hp_parser v)) \<and> pending v = [] \<and>
    hp_parser v = http_parser_init L ty \<and> contents (hp_url v) = [] \<and> contents (hp_status_msg v) = [] \<and>
    \<not> hp_flushed v) s"
  unfolding iotjs_httpparserwrap_initialize_def
  apply (rule walk_get[OF walks_refl[OF s]])
  apply (rule walk_empty[OF walks_refl[OF s]])
  using wf apply (simp add: hp_wf_def)
  apply (rule walk_empty, assumption)
  using wf apply (simp add: hp_wf_def)
  apply (rule walk_put_last, assumption)
  subgoal for url u msg u1 u2
    apply (rule exI, intro conjI, erule walks_cong)
    using wf L by (auto simp: strings_held_def tracks_def hp_wf_def http_law_def pending_pairs HEADER_MAX_def)
  done

lemma Reinitialize_wp:
  fixes s :: "('c, 'z) hst_scheme"
  assumes s: "parser_inv E ph p j s" and L: "http_law L ph"
    and ty: "ty = HTTP_REQUEST L \<or> ty = HTTP_RESPONSE L" "0 \<le> ty" "ty < 2 ^ 32"
  shows "wp (Reinitialize E L) (\<lambda>_ u. parser_kept E ph p j [JNumber (num ty)] (False, JUndefined) [] s u \<and>
      pending (wrapper p u) = [] \<and> hp_parser (wrapper p u) = http_parser_init L ty \<and> \<not> hp_flushed (wrapper p u))
    (handler_entry j [JNumber (num ty)] s)"
proof -
  let ?args = "[JNumber (num ty)]"
  let ?w = "wrapper p s" and ?e = "handler_entry j ?args s"
  note D = parser_invD[OF s]
  have w: "parsers ?e p = Some ?w" using D(6) by simp
  have am: "args_match [is_number] ?args" by simp
  have E: "native_law E" using parser_atD(1)[OF D(1)] .
  have wf: "hp_wf ?w" using D(3) by (simp add: tracks_def)
  have arg: "wp (bnd (JHANDLER_GET_ARG 0 iotjs_jval_as_number) to_unsigned) (\<lambda>r u. r = ty \<and> walks p ?w [] 0 (\<lambda>_. 0) t u) t"
    if "walks p ?w X k d ?e t" for X k d t
    using ty walks_refl[OF walks_fields(1)[OF that]] walks_fields(4)[OF that] by (simp add: wp_simps num_def)
  show ?thesis
    unfolding Reinitialize_def
    apply (simp only: wp_JHANDLER_CHECK_THIS wp_check_args handler_entry_sel D(4) am if_True)
    apply (rule walk_bnd[OF walks_refl[OF w]], rule step_this[OF w], simp add: D)
    apply (simp only: handler_entry_sel)
    apply (rule walk_bnd, assumption, erule arg)
    apply (hypsubst)
    apply (rule walk_assert[OF ty(1)])
    apply (rule walk_bnd, assumption, rule step_wrap[OF E D(4)])
      apply (simp add: walks_fields(3) D)
     apply (erule walks_fields(1))
    apply (hypsubst)
    subgoal premises st for r1 u1 r2 u2 r3 u3
      apply (rule wp_mono[OF initialize_wp[OF walks_fields(1)[OF st(3)] wf L]])
      apply (elim exE conjE)
      subgoal premises pr for _ u v
      proof -
        have k: "parser_kept E ph p j ?args (False, JUndefined) [] s u"
          by (rule parser_keptI[OF s handled_walks[OF walks_trans[OF st(3) pr(1)], THEN handled_cong]])
            (use pr D in simp_all)
        have "wrapper p u = v" using walks_fields(1)[OF pr(1)] by (simp add: wrapper_def)
        then show ?thesis using k pr by simp
      qed
      done
    done
qed

lemma step_from_jbuffer:
  assumes "native_law E" "builtin t i pb bw" "js_buffer E jb i bw" "parsers t p = Some w"
  shows "wp (iotjs_bufferwrap_from_jbuffer E jb) (\<lambda>r u. r = pb \<and> walks p w [] 0 (\<lambda>_. 0) t u) t"
proof -
  have "unseen stored (iotjs_bufferwrap_from_jbuffer E jb)"
    unfolding iotjs_bufferwrap_from_jbuffer_def iotjs_bufferwrap_from_jbuiltin_def iotjs_jval_get_property_def
      iotjs_jval_destroy_def iotjs_jval_get_object_native_handle_def iotjs_jval_create_copied_def
    by (auto intro!: array.unseen_intros split: prod.split)
  from array.wp_unseen[OF this from_jbuffer_wp[OF assms(1,2) js_bufferD[OF assms(3)]]]
  show ?thesis by (rule wp_mono) (auto intro: quiet_walks[OF assms(4)])
qed

lemma step_buffer_length:
  assumes "native_law E" "builtin t i pb bw" "js_buffer E jb i bw" "parsers t p = Some w"
  shows "wp (iotjs_bufferwrap_length E pb) (\<lambda>r u. r = bw_length bw \<and> walks p w [] 0 (\<lambda>_. 0) t u) t"
proof -
  have "unseen stored (iotjs_bufferwrap_length E pb)"
    unfolding iotjs_bufferwrap_length_def iotjs_bufferwrap_jbuffer_def iotjs_bufferwrap_jbuiltin_def
      iotjs_jobjectwrap_jobject_def get_bufferwrap_def iotjs_jval_get_property_def
      iotjs_jval_destroy_def iotjs_jval_get_object_native_handle_def iotjs_jval_create_copied_def
      iotjs_jval_as_number_def double_to_int_def
    by (auto intro!: array.unseen_intros split: prod.split option.split jval.split double.split)
  from array.wp_unseen[OF this length_wp[OF assms(1-3)]]
  show ?thesis by (rule wp_mono) (auto intro: quiet_walks[OF assms(4)])
qed

lemma walks_builtin: "walks p w X k d s t \<Longrightarrow> builtin t i pb bw = builtin s i pb bw"
  by (simp add: builtin_def walks_fields)

lemma walk_set_buf:
  assumes "walks p w X k d s t"
    and "\<And>u. walks p (w\<lparr>hp_cur_jbuf := jb, hp_cur_buf := b, hp_cur_buf_len := nat (c_size n)\<rparr>) X k d s u \<Longrightarrow> wp m Q u"
  shows "wp (sq (iotjs_httpparserwrap_set_buf p jb b n) m) Q t"
proof -
  let ?v = "w\<lparr>hp_cur_jbuf := jb, hp_cur_buf := b, hp_cur_buf_len := nat (c_size n)\<rparr>"
  have "wp (iotjs_httpparserwrap_set_buf p jb b n) (\<lambda>_ u. walks p ?v X k d s u) t"
    unfolding iotjs_httpparserwrap_set_buf_def by (rule walk_get[OF assms(1)], rule walk_put_last[OF assms(1)])
  then show ?thesis unfolding wp_sq by (rule wp_mono) (rule assms(2))
qed

lemma buf_update [simp]:
  "tracks (w\<lparr>hp_cur_jbuf := jb, hp_cur_buf := b, hp_cur_buf_len := n\<rparr>) q = tracks w q"
  "pending (w\<lparr>hp_cur_jbuf := jb, hp_cur_buf := b, hp_cur_buf_len := n\<rparr>) = pending w"
  "strings_held (w\<lparr>hp_cur_jbuf := jb, hp_cur_buf := b, hp_cur_buf_len := n\<rparr>) = strings_held w"
  by (cases "ph_head q"; simp add: tracks_def hp_wf_def pending_pairs strings_held_def)+

text \<open>
  What a call of the library through a handler did: the events \<open>evs\<close> of a run from the state of
  the wrapper, with the headers stored and pending as these events say.
\<close>

definition parsed ::
  "http_run \<Rightarrow> char list \<Rightarrow> nat \<Rightarrow> nat \<Rightarrow> string list \<Rightarrow> ('c, 'z) hst_scheme \<Rightarrow> ('c, 'z) hst_scheme \<Rightarrow> bool" where
  "parsed r data p n X s u \<longleftrightarrow> even (length X) \<and> (\<exists>evs. run_path r evs (hp_parser (wrapper p u)) n \<and>
     (\<forall>Y. even (length Y) \<longrightarrow>
        foldl (head_step data) (Y @ pending (wrapper p s)) evs = Y @ X @ pending (wrapper p u)))"

lemma Finish_wp:
  fixes s :: "('c, 'z) hst_scheme"
  assumes s: "parser_inv E ph p j s" and L: "http_law L ph"
  shows "wp (Finish E L) (\<lambda>_ u. \<exists>n X obj. parsed (http_parser_execute L (hp_parser (wrapper p s)) None) [] p n X s u \<and>
      parser_kept E ph p j [] (False, obj) X s u \<and> (obj = JUndefined \<longleftrightarrow> c_int32 (int n) = 0) \<and>
      (c_int32 (int n) \<noteq> 0 \<longrightarrow> is_object obj))
    (handler_entry j [] s)"
proof -
  let ?w = "wrapper p s" and ?e = "handler_entry j [] s"
  note D = parser_invD[OF s]
  have w: "parsers ?e p = Some ?w" using D(6) by simp
  have am: "args_match [] []" by simp
  have E: "native_law E" "sets_ok E" using parser_atD(1,2)[OF D(1)] .
  have e: "parser_at E p ?w ?e" using D(1) by (simp add: parser_at_def)
  have ok: "run_ok L False [] ph (ph (hp_parser ?w)) (http_parser_execute L (hp_parser ?w) None)"
    using L by (simp add: http_law_def)
  show ?thesis
    unfolding Finish_def
    apply (simp only: wp_JHANDLER_CHECK_THIS wp_check_args handler_entry_sel D(4) am if_True)
    apply (rule walk_bnd[OF walks_refl[OF w]], rule step_this[OF w], simp add: D)
    apply (simp only: handler_entry_sel)
    apply (rule walk_bnd, assumption, rule step_wrap[OF E(1) D(4)])
      apply (simp add: walks_fields(3) D)
     apply (erule walks_fields(1))
    apply (hypsubst)
    apply (rule walk_bnd, assumption, rule step_parser, erule walks_fields(1))
    apply (hypsubst)
    apply (subst wp_bnd)
    subgoal premises st for r1 u1 r2 u2 r3 u3
    proof (rule wp_mono[OF run_wp[OF walks_parser_at[OF e st(3) refl] D(3) ok]], simp, elim exE conjE)
      fix n z evs v X
      assume r: "run_path (http_parser_execute L (hp_parser ?w) None) evs (hp_parser v) n" "ran p ?w v X u3 z"
        "tracks v (ph (hp_parser v))" and f: "\<forall>Y. even (length Y) \<longrightarrow>
          foldl (head_step []) (Y @ pending ?w) evs = Y @ X @ pending v"
      have wz: "walks p v (map JString X) (strings_held v - strings_held ?w) (\<lambda>_. 0) ?e z"
        using walks_trans[OF st(3), of v "map JString X"] r(2) by (auto simp: ran_def elim: walks_cong)
      have fin: "parsed (http_parser_execute L (hp_parser ?w) None) [] p n X s u \<and>
          parser_kept E ph p j [] (False, obj) X s u"
        if "handled p v (map JString X) (strings_held v - strings_held ?w) j [] (False, obj) s u" for obj u
      proof -
        have "wrapper p u = v" using that by (simp add: handled_def wrapper_def)
        then show ?thesis
          using parser_keptI[OF s that _ r(3) refl] r(1,2) f D(2) by (auto simp: parsed_def ran_def)
      qed
      show "wp (if c_int32 (int n) \<noteq> 0 then bnd (iotjs_httpparserwrap_parser p) (parse_error E L) else ret ())
        (\<lambda>_ u. \<exists>n X obj. parsed (http_parser_execute L (hp_parser ?w) None) [] p n X s u \<and>
          parser_kept E ph p j [] (False, obj) X s u \<and> (obj = JUndefined \<longleftrightarrow> c_int32 (int n) = 0) \<and>
          (c_int32 (int n) \<noteq> 0 \<longrightarrow> is_object obj)) z"
      proof (cases "c_int32 (int n) = 0")
        case True
        then show ?thesis using fin[OF handled_walks[OF wz]] by (auto simp: wp_ret)
      next
        case False
        show ?thesis
          apply (simp only: False not_False_eq_True if_True)
          apply (rule walk_bnd[OF wz], rule step_parser[OF walks_fields(1)[OF wz]])
          apply (hypsubst)
          apply (rule wp_mono[OF parse_error_wp[OF _ _ E(2)]], assumption, simp)
          using fin False by (fastforce)
      qed
    qed
    done
qed

text \<open>The result of \<^verbatim>\<open>execute\<close>: the bytes parsed, or an error object.\<close>

definition execute_result :: "http_lib \<Rightarrow> nat \<Rightarrow> nat \<Rightarrow> nat \<Rightarrow> jval \<Rightarrow> bool" where
  "execute_result L st n len res \<longleftrightarrow>
     (if hp_upgrade L st \<or> c_int32 (int n) = int len then res = JNumber (num (c_int32 (int n)))
      else is_object res)"

lemma execute_tail:
  fixes s :: "('c, 'z) hst_scheme"
  assumes s: "parser_inv E ph p j s" and L: "http_law L ph"
    and b: "builtin s i pb bw" "js_buffer E jb i bw" "bw_length bw \<noteq> 0"
    and st: "walks p ((wrapper p s)\<lparr>hp_cur_jbuf := Some jb, hp_cur_buf := Some (bytes bw), hp_cur_buf_len := m\<rparr>)
      X0 k d (handler_entry j [jb] s) t" and z: "X0 = []" "k = 0" "\<And>x. d x = 0"
  shows "wp (bnd (run_parser E L p (bytes bw) (http_parser_execute L (hp_parser (wrapper p s)) (Some (bytes bw)))) (\<lambda>nparsed.
     sq (iotjs_httpparserwrap_set_buf p None None 0)
    (bnd (iotjs_httpparserwrap_parser p) (\<lambda>nativeparser.
     if \<not> hp_upgrade L nativeparser \<and> c_int32 (int nparsed) \<noteq> int (bw_length bw)
     then parse_error E L nativeparser
     else iotjs_jhandler_return_number (num (c_int32 (int nparsed)))))))
   (\<lambda>_ u. \<exists>n X res.
      parsed (http_parser_execute L (hp_parser (wrapper p s)) (Some (bytes bw))) (bytes bw) p n X s u \<and>
      parser_kept E ph p j [jb] (False, res) X s u \<and>
      execute_result L (hp_parser (wrapper p u)) n (bw_length bw) res) t"
proof -
  let ?w = "wrapper p s" and ?e = "handler_entry j [jb] s"
  let ?r = "http_parser_execute L (hp_parser ?w) (Some (bytes bw))"
  let ?v = "?w\<lparr>hp_cur_jbuf := Some jb, hp_cur_buf := Some (bytes bw), hp_cur_buf_len := m\<rparr>"
  note D = parser_invD[OF s]
  have E: "sets_ok E" using parser_atD(2)[OF D(1)] .
  have e: "parser_at E p ?w ?e" using D(1) by (simp add: parser_at_def)
  have ok: "run_ok L True (bytes bw) ph (ph (hp_parser ?w)) ?r"
    using L by (simp add: http_law_def)
  have run: "wp (run_parser E L p (bytes bw) ?r) (\<lambda>n u. \<exists>evs v X. run_path ?r evs (hp_parser v) n \<and> ran p ?v v X t u \<and>
      tracks v (ph (hp_parser v)) \<and>
      (\<forall>Y. even (length Y) \<longrightarrow> foldl (head_step (bytes bw)) (Y @ pending ?w) evs = Y @ X @ pending v)) t"
    using run_wp[of E p ?v t "ph (hp_parser ?w)" L True "bytes bw" ph ?r] walks_parser_at[OF e st] D(3) ok by simp
  show ?thesis
    unfolding wp_bnd
  proof (rule wp_mono[OF run], elim exE conjE)
    fix n u evs v X
    assume r: "run_path ?r evs (hp_parser v) n" "ran p ?v v X t u" "tracks v (ph (hp_parser v))"
      and f: "\<forall>Y. even (length Y) \<longrightarrow> foldl (head_step (bytes bw)) (Y @ pending ?w) evs = Y @ X @ pending v"
    let ?x = "v\<lparr>hp_cur_jbuf := None, hp_cur_buf := None, hp_cur_buf_len := nat (c_size 0)\<rparr>"
    have wu: "walks p v (map JString X) (strings_held v - strings_held ?w) (\<lambda>_. 0) ?e u"
      using walks_trans[OF st, of v "map JString X"] r(2) z by (auto simp: ran_def elim: walks_cong)
    have fin: "\<exists>n X res. parsed ?r (bytes bw) p n X s u \<and> parser_kept E ph p j [jb] (False, res) X s u \<and>
        execute_result L (hp_parser (wrapper p u)) n (bw_length bw) res"
      if h: "handled p ?x (map JString X) (strings_held v - strings_held ?w) j [jb] (False, res) s u"
        and er: "execute_result L (hp_parser v) n (bw_length bw) res" for res u
    proof -
      have x: "wrapper p u = ?x" using h by (simp add: handled_def wrapper_def)
      have "parser_kept E ph p j [jb] (False, res) X s u"
        by (rule parser_keptI[OF s h]) (use r D(2) in \<open>simp_all add: ran_def\<close>)
      moreover have "parsed ?r (bytes bw) p n X s u"
        using r f x by (auto simp: parsed_def ran_def)
      ultimately show ?thesis using er x by auto
    qed
    show "wp (sq (iotjs_httpparserwrap_set_buf p None None 0)
      (bnd (iotjs_httpparserwrap_parser p) (\<lambda>nativeparser.
       if \<not> hp_upgrade L nativeparser \<and> c_int32 (int n) \<noteq> int (bw_length bw)
       then parse_error E L nativeparser
       else iotjs_jhandler_return_number (num (c_int32 (int n))))))
     (\<lambda>_ u. \<exists>n X res. parsed ?r (bytes bw) p n X s u \<and> parser_kept E ph p j [jb] (False, res) X s u \<and>
        execute_result L (hp_parser (wrapper p u)) n (bw_length bw) res) u"
      apply (rule walk_set_buf[OF wu])
      apply (rule walk_bnd, assumption, rule step_parser, erule walks_fields(1))
      apply (hypsubst)
      apply (cases "\<not> hp_upgrade L (hp_parser ?x) \<and> c_int32 (int n) \<noteq> int (bw_length bw)")
       apply (simp only: if_True simp_thms)
       apply (rule wp_mono[OF parse_error_wp[OF _ _ E]], assumption, simp)
       apply (elim exE conjE, rule fin, simp, simp add: execute_result_def)
      apply (simp only: if_False)
      apply (rule wp_mono[OF handled_number], assumption, simp)
      apply (rule fin, erule handled_cong, simp, simp, auto simp: execute_result_def)
      done
  qed
qed

lemma Execute_wp:
  fixes s :: "('c, 'z) hst_scheme"
  assumes s: "parser_inv E ph p j s" and L: "http_law L ph"
    and b: "builtin s i pb bw" "js_buffer E jb i bw" "bw_length bw \<noteq> 0"
  shows "wp (Execute E L) (\<lambda>_ u. \<exists>n X res.
      parsed (http_parser_execute L (hp_parser (wrapper p s)) (Some (bytes bw))) (bytes bw) p n X s u \<and>
      parser_kept E ph p j [jb] (False, res) X s u \<and>
      execute_result L (hp_parser (wrapper p u)) n (bw_length bw) res)
    (handler_entry j [jb] s)"
proof -
  let ?w = "wrapper p s" and ?e = "handler_entry j [jb] s"
  let ?r = "http_parser_execute L (hp_parser ?w) (Some (bytes bw))"
  note D = parser_invD[OF s]
  have w: "parsers ?e p = Some ?w" using D(6) by simp
  have jb: "is_object jb" using b(2) by (rule js_bufferD)
  have am: "args_match [is_object] [jb]" using jb by simp
  have E: "native_law E" "sets_ok E" using parser_atD(1,2)[OF D(1)] .
  have e: "parser_at E p ?w ?e" using D(1) by (simp add: parser_at_def)
  have be: "builtin ?e i pb bw" using b(1) by simp
  have ok: "run_ok L True (bytes bw) ph (ph (hp_parser ?w)) ?r"
    using L by (simp add: http_law_def)
  have "buf_wf bw" using b(1) by (simp add: builtin_def)
  then have buf: "bw_buffer bw = Some (bytes bw)" "length (bytes bw) = bw_length bw" "c_int32 (int (bw_length bw)) = int (bw_length bw)"
      "0 < bw_length bw"
    using b(3) by (auto simp: buf_wf_def bytes_def split: option.splits)
  have arg: "wp (JHANDLER_GET_ARG 0 iotjs_jval_as_object) (\<lambda>r u. r = jb \<and> walks p ?w [] 0 (\<lambda>_. 0) t u) t"
    if "walks p ?w X k d ?e t" for X k d t
    using jb walks_refl[OF walks_fields(1)[OF that]] walks_fields(4)[OF that] by (simp add: wp_simps)
  have dat: "wp (iotjs_bufferwrap_buffer pb) (\<lambda>r u. r = Some (bytes bw) \<and> walks p ?w [] 0 (\<lambda>_. 0) t u) t"
    if "walks p ?w X k d ?e t" for X k d t
    using be buf(1) walks_refl[OF walks_fields(1)[OF that]]
    by (simp add: wp_simps builtin_def walks_fields(8)[OF that])
  show ?thesis
    unfolding Execute_def
    apply (simp only: wp_JHANDLER_CHECK_THIS wp_check_args handler_entry_sel D(4) am if_True)
    apply (rule walk_bnd[OF walks_refl[OF w]], rule step_this[OF w], simp add: D)
    apply (simp only: handler_entry_sel)
    apply (rule walk_bnd, assumption, rule step_wrap[OF E(1) D(4)])
      apply (simp add: walks_fields(3) D)
     apply (erule walks_fields(1))
    apply (hypsubst)
    apply (rule walk_bnd, assumption, erule arg)
    apply (hypsubst)
    apply (rule walk_bnd, assumption, rule step_from_jbuffer[where pb = pb, OF E(1) _ b(2)])
      apply (rule walks_builtin[THEN iffD2, OF _ be], assumption)
     apply (erule walks_fields(1))
    apply (hypsubst)
    apply (rule walk_bnd, assumption, erule dat)
    apply (hypsubst)
    apply (rule walk_bnd, assumption, rule step_buffer_length[where pb = pb, OF E(1) _ b(2)])
      apply (rule walks_builtin[THEN iffD2, OF _ be], assumption)
     apply (erule walks_fields(1))
    apply (hypsubst)
    apply (simp only: Let_def buf(3) wp_JHANDLER_CHECK option.distinct not_False_eq_True if_True of_nat_0_less_iff buf(4))
    apply (rule walk_set_buf, assumption)
    apply (rule walk_bnd, assumption, rule step_parser, erule walks_fields(1))
    apply (hypsubst)
    subgoal premises st for _ _ _ _ _ _ _ _ _ _ _ _ u7 _ u8
      using execute_tail[OF s L b st(8)] buf(1) by simp
    done
qed

text \<open>An empty buffer is refused: \<^verbatim>\<open>execute\<close> throws and the parser is not called.\<close>

lemma Execute_empty_wp:
  fixes s :: "('c, 'z) hst_scheme"
  assumes s: "parser_inv E ph p j s" and b: "builtin s i pb bw" "js_buffer E jb i bw" "bw_length bw = 0"
  shows "wp (Execute E L) (\<lambda>_ u. \<exists>obj. parser_kept E ph p j [jb] (True, obj) [] s u \<and> wrapper p u = wrapper p s)
    (handler_entry j [jb] s)"
proof -
  let ?w = "wrapper p s" and ?e = "handler_entry j [jb] s"
  note D = parser_invD[OF s]
  have w: "parsers ?e p = Some ?w" using D(6) by simp
  have jb: "is_object jb" using b(2) by (rule js_bufferD)
  have am: "args_match [is_object] [jb]" using jb by simp
  have E: "native_law E" using parser_atD(1)[OF D(1)] .
  have be: "builtin ?e i pb bw" using b(1) by simp
  have "buf_wf bw" using b(1) by (simp add: builtin_def)
  then have buf: "bw_buffer bw = None" using b(3) by (simp add: buf_wf_def)
  have arg: "wp (JHANDLER_GET_ARG 0 iotjs_jval_as_object) (\<lambda>r u. r = jb \<and> walks p ?w [] 0 (\<lambda>_. 0) t u) t"
    if "walks p ?w X k d ?e t" for X k d t
    using jb walks_refl[OF walks_fields(1)[OF that]] walks_fields(4)[OF that] by (simp add: wp_simps)
  have dat: "wp (iotjs_bufferwrap_buffer pb) (\<lambda>r u. r = None \<and> walks p ?w [] 0 (\<lambda>_. 0) t u) t"
    if "walks p ?w X k d ?e t" for X k d t
    using be buf walks_refl[OF walks_fields(1)[OF that]]
    by (simp add: wp_simps builtin_def walks_fields(8)[OF that])
  show ?thesis
    unfolding Execute_def
    apply (simp only: wp_JHANDLER_CHECK_THIS wp_check_args handler_entry_sel D(4) am if_True)
    apply (rule walk_bnd[OF walks_refl[OF w]], rule step_this[OF w], simp add: D)
    apply (simp only: handler_entry_sel)
    apply (rule walk_bnd, assumption, rule step_wrap[OF E D(4)])
      apply (simp add: walks_fields(3) D)
     apply (erule walks_fields(1))
    apply (hypsubst)
    apply (rule walk_bnd, assumption, erule arg)
    apply (hypsubst)
    apply (rule walk_bnd, assumption, rule step_from_jbuffer[where pb = pb, OF E _ b(2)])
      apply (rule walks_builtin[THEN iffD2, OF _ be], assumption)
     apply (erule walks_fields(1))
    apply (hypsubst)
    apply (rule walk_bnd, assumption, erule dat)
    apply (hypsubst)
    apply (rule walk_bnd, assumption, rule step_buffer_length[where pb = pb, OF E _ b(2)])
      apply (rule walks_builtin[THEN iffD2, OF _ be], assumption)
     apply (erule walks_fields(1))
    apply (simp only: Let_def wp_JHANDLER_CHECK simp_thms if_False)
    apply (subst check_failed_def[symmetric])
    apply (rule wp_mono[OF handled_throw], assumption, simp)
    apply (elim exE)
    subgoal for _ _ _ _ _ _ _ _ _ _ _ _ _ u obj
      apply (rule exI[where x = obj], rule conjI)
       apply (rule parser_keptI[OF s], erule handled_cong[where Y = "map JString []" and l = 0])
            apply (simp_all add: D)
      apply (simp add: handled_def wrapper_def)
      done
    done
qed

lemma set_paused_wp:
  fixes s :: "('c, 'z) hst_scheme"
  assumes s: "parser_inv E ph p j s" and L: "http_law L ph"
  shows "wp (set_paused E L f b) (\<lambda>_ u. parser_kept E ph p j [] (False, JUndefined) [] s u \<and>
      wrapper p u = (wrapper p s)\<lparr>hp_parser := http_parser_pause L (hp_parser (wrapper p s)) b\<rparr>)
    (handler_entry j [] s)"
proof -
  let ?w = "wrapper p s" and ?e = "handler_entry j [] s"
  note D = parser_invD[OF s]
  have w: "parsers ?e p = Some ?w" using D(6) by simp
  have am: "args_match [] []" by simp
  have E: "native_law E" using parser_atD(1)[OF D(1)] .
  let ?v = "?w\<lparr>hp_parser := http_parser_pause L (hp_parser ?w) b\<rparr>"
  show ?thesis
    unfolding set_paused_def set_parser_def
    apply (simp only: wp_JHANDLER_CHECK_THIS wp_check_args handler_entry_sel D(4) am if_True)
    apply (rule walk_bnd[OF walks_refl[OF w]], rule step_this[OF w], simp add: D)
    apply (simp only: handler_entry_sel)
    apply (rule walk_bnd, assumption, rule step_wrap[OF E D(4)])
      apply (simp add: walks_fields(3) D)
     apply (erule walks_fields(1))
    apply (hypsubst)
    apply (rule walk_bnd, assumption, rule step_parser, erule walks_fields(1))
    apply (hypsubst)
    apply (rule walk_get, assumption)
    apply (rule walk_put_last, assumption)
    subgoal premises st for r1 u1 r2 u2 r3 u3 u
    proof -
      have h: "handled p ?v (map JString []) 0 j [] (False, JUndefined) s u"
        by (rule handled_cong[OF handled_walks[OF st(4)]]) simp_all
      have "tracks ?v (ph (hp_parser ?v))" "hp_jobject ?v = j" "0 = strings_held ?v - strings_held ?w"
        using L D(2,3) by (simp_all add: http_law_def)
      from parser_keptI[OF s h this(2,1,3)] h show ?thesis by (simp add: handled_def wrapper_def)
    qed
    done
qed

section \<open>Sessions\<close>

datatype parser_op = OpExecute | OpFinish | OpReinitialize | OpPause | OpResume

definition parser_body :: "'c engine \<Rightarrow> http_lib \<Rightarrow> parser_op \<Rightarrow> (('c, 'z) hst_scheme, unit) prog" where
  "parser_body E L op = (case op of
     OpExecute \<Rightarrow> Execute E L | OpFinish \<Rightarrow> Finish E L | OpReinitialize \<Rightarrow> Reinitialize E L
   | OpPause \<Rightarrow> Pause E L | OpResume \<Rightarrow> Resume E L)"

definition parser_type :: "http_lib \<Rightarrow> int \<Rightarrow> bool" where
  "parser_type L ty \<longleftrightarrow> (ty = HTTP_REQUEST L \<or> ty = HTTP_RESPONSE L) \<and> 0 \<le> ty \<and> ty < 2 ^ 32"

definition parser_args :: "http_lib \<Rightarrow> live_buffers \<Rightarrow> parser_op \<Rightarrow> jval list \<Rightarrow> bool" where
  "parser_args L live op args \<longleftrightarrow> (case op of
     OpExecute \<Rightarrow> (\<exists>i pb jb n. (i, pb, jb, n) \<in> live \<and> args = [jb])
   | OpReinitialize \<Rightarrow> (\<exists>ty. parser_type L ty \<and> args = [JNumber (num ty)])
   | _ \<Rightarrow> args = [])"

definition session_inv ::
  "'c engine \<Rightarrow> http_lib \<Rightarrow> (nat \<Rightarrow> http_phase) \<Rightarrow> nat \<Rightarrow> jval \<Rightarrow> live_buffers \<Rightarrow>
   ('c, 'z) hst_scheme \<Rightarrow> bool" where
  "session_inv E L ph p j live s \<longleftrightarrow> http_law L ph \<and> parser_inv E ph p j s \<and> buffers_ok E live s"

lemma kept_session:
  assumes "session_inv E L ph p j live s" "parser_kept E ph p j args r X s u"
  shows "session_inv E L ph p j live u \<and> h_argv u = args \<and>
    (\<forall>v. frame_refs u v = owned (trace s) v) \<and>
    blocks u - strings_held (wrapper p u) = blocks (handler_entry j args s) - strings_held (wrapper p s)"
  using assms by (auto simp: session_inv_def parser_kept_def handled_def buffers_ok_def builtin_def)

lemma parser_body_wp:
  assumes s: "session_inv E L ph p j live s" and a: "parser_args L live op args"
  shows "wp (parser_body E L op) (\<lambda>_ u. \<exists>r X. parser_kept E ph p j args r X s u) (handler_entry j args s)"
proof -
  have L: "http_law L ph" and i: "parser_inv E ph p j s" and b: "buffers_ok E live s"
    using s by (simp_all add: session_inv_def)
  show ?thesis
  proof (cases op)
    case OpExecute
    then obtain k pb jb n where jb: "(k, pb, jb, n) \<in> live" and args: "args = [jb]"
      using a by (auto simp: parser_args_def)
    obtain bw where bw: "builtin s k pb bw" "js_buffer E jb k bw" "bw_length bw = n"
      using buffers_okD[OF b jb] .
    show ?thesis
    proof (cases "n = 0")
      case True
      then have "bw_length bw = 0" using bw(3) by simp
      show ?thesis
        unfolding parser_body_def OpExecute args parser_op.case
        by (rule wp_mono[OF Execute_empty_wp[OF i bw(1,2) \<open>bw_length bw = 0\<close>]]) blast
    next
      case False
      then have "bw_length bw \<noteq> 0" using bw(3) by simp
      show ?thesis
        unfolding parser_body_def OpExecute args parser_op.case
        by (rule wp_mono[OF Execute_wp[OF i L bw(1,2) \<open>bw_length bw \<noteq> 0\<close>]]) blast
    qed
  next
    case OpReinitialize
    then obtain ty where ty: "ty = HTTP_REQUEST L \<or> ty = HTTP_RESPONSE L" "0 \<le> ty" "ty < 2 ^ 32"
      and args: "args = [JNumber (num ty)]"
      using a by (auto simp: parser_args_def parser_type_def)
    show ?thesis
      unfolding parser_body_def OpReinitialize args parser_op.case
      by (rule wp_mono[OF Reinitialize_wp[OF i L ty]]) blast
  next
    case OpFinish
    then have args: "args = []" using a by (simp add: parser_args_def)
    show ?thesis
      unfolding parser_body_def OpFinish args parser_op.case 
      by (rule wp_mono[OF Finish_wp[OF i L]]) blast
  next
    case OpPause
    then have args: "args = []" using a by (simp add: parser_args_def)
    show ?thesis
      unfolding parser_body_def OpPause args parser_op.case Pause_def
      by (rule wp_mono[OF set_paused_wp[OF i L]]) blast
  next
    case OpResume
    then have args: "args = []" using a by (simp add: parser_args_def)
    show ?thesis
      unfolding parser_body_def OpResume args parser_op.case Resume_def
      by (rule wp_mono[OF set_paused_wp[OF i L]]) blast
  qed
qed

interpretation parser_handler:
  native_handler "parser_body E L op" "session_inv E L ph p j live" "\<lambda>_ _. 0"
    "\<lambda>s. strings_held (wrapper p s)" "\<lambda>t args _. t = j \<and> parser_args L live op args"
  for E :: "'c engine" and L op ph p j live
proof unfold_locales
  fix s :: "('c, 'z) hst_scheme" and t args
  assume s: "session_inv E L ph p j live s" and t: "t = j \<and> parser_args L live op args"
  show "wp (parser_body E L op) (\<lambda>_ u. session_inv E L ph p j live u \<and> h_argv u = args \<and>
      (\<forall>v. frame_refs u v - 0 = owned (trace s) v - 0) \<and>
      blocks u - strings_held (wrapper p u) = blocks (handler_entry t args s) - strings_held (wrapper p s))
    (handler_entry t args s)"
    using t by (auto intro!: wp_mono[OF parser_body_wp[OF s]] dest!: kept_session[OF s])
qed (auto simp: session_inv_def parser_inv_def parser_at_def buffers_ok_def builtin_def native_of_append wrapper_def)

definition parser_session ::
  "'c engine \<Rightarrow> http_lib \<Rightarrow> jval \<Rightarrow> (parser_op \<times> jval list) list \<Rightarrow> (('c, 'z) hst_scheme, unit) prog" where
  "parser_session E L j cs = for_each cs (\<lambda>(op, args). native_handler.serve (parser_body E L op) (j, args))"

lemma parser_session_wp:
  fixes s :: "('c, 'z) hst_scheme"
  assumes "session_inv E L ph p j live s"
    and "\<And>op args. (op, args) \<in> set cs \<Longrightarrow> parser_args L live op args"
  shows "wp (parser_session E L j cs) (\<lambda>_ u. session_inv E L ph p j live u \<and>
    (\<forall>v. owned (trace u) v = owned (trace s) v) \<and>
    blocks u - strings_held (wrapper p u) = blocks s - strings_held (wrapper p s)) s"
  using assms
proof (induction cs arbitrary: s)
  case Nil
  then show ?case by (simp add: parser_session_def wp_simps)
next
  case (Cons c cs)
  obtain op args where c: "c = (op, args)" by (cases c)
  have a: "j = j \<and> parser_args L live op args" using Cons.prems(2) c by simp
  have "wp (native_handler.serve (parser_body E L op) (j, args))
      (\<lambda>_. wp (parser_session E L j cs) (\<lambda>_ u. session_inv E L ph p j live u \<and>
        (\<forall>v. owned (trace u) v = owned (trace s) v) \<and>
        blocks u - strings_held (wrapper p u) = blocks s - strings_held (wrapper p s))) s"
  proof (rule wp_mono[OF parser_handler.serve_law[OF Cons.prems(1) a]])
    fix x and u :: "('c, 'z) hst_scheme"
    assume u: "session_inv E L ph p j live u \<and> (\<forall>v. owned (trace u) v - 0 = owned (trace s) v - 0) \<and>
      blocks u - strings_held (wrapper p u) = blocks s - strings_held (wrapper p s)"
    have "wp (parser_session E L j cs) (\<lambda>_ w. session_inv E L ph p j live w \<and>
        (\<forall>v. owned (trace w) v = owned (trace u) v) \<and>
        blocks w - strings_held (wrapper p w) = blocks u - strings_held (wrapper p u)) u"
      using u Cons.prems(2) by (intro Cons.IH) auto
    then show "wp (parser_session E L j cs) (\<lambda>_ w. session_inv E L ph p j live w \<and>
        (\<forall>v. owned (trace w) v = owned (trace s) v) \<and>
        blocks w - strings_held (wrapper p w) = blocks s - strings_held (wrapper p s)) u"
      using u by simp
  qed
  then show ?case by (simp add: c parser_session_def wp_simps)
qed

section \<open>Creation and destruction\<close>

definition no_string :: iotjs_string_t where
  "no_string = \<lparr>str_size = 0, str_cap = 0, str_data = None\<rparr>"

lemma create_empty: "iotjs_string_create (c_str []) s = Inr (no_string, s)"
  by (simp add: iotjs_string_create_def iotjs_string_create_with_size_def c_str_def no_string_def prog_defs
      read_option_def)

lemma wp_create_empty [wp_simps]: "wp (iotjs_string_create (c_str [])) Q s = Q no_string s"
  by (simp add: wp_def create_empty)

lemma wp_create_strings [wp_simps]: "wp (create_strings n) Q s = Q (replicate n (no_string, no_string)) s"
  by (induction n arbitrary: Q) (simp_all add: wp_simps)

lemma no_string_simps [simp]: "string_wf no_string" "contents no_string = []" "held no_string = 0"
  by (simp_all add: no_string_def held_def)

lemma native_of_set: "native_of (tr @ [ESetNative j p]) = (native_of tr)(j := p)"
  by (auto simp: native_of_append fun_eq_iff)

lemma create_wp':
  fixes s :: "('c, 'z) hst_scheme"
  assumes E: "native_law E" "sets_ok E" "process_module E s" "parser_js E j" and L: "http_law L ph"
  shows "wp (iotjs_httpparserwrap_create L j ty) (\<lambda>p u. p = next_ptr s \<and> parser_inv E ph p j u \<and>
      h_argv u = h_argv s \<and> h_ret u = h_ret s \<and> h_this u = h_this s \<and> (\<forall>v. owned (trace u) v = owned (trace s) v) \<and>
      native_of (trace u) = (native_of (trace s))(j := p) \<and>
      blocks u - strings_held (wrapper p u) = blocks s + 1 \<and> pending (wrapper p u) = [] \<and> bufs u = bufs s) s"
proof -
  have j: "is_object j" using E(4) by (simp add: parser_js_def)
  let ?p = "next_ptr s"
  let ?w = "\<lparr>hp_jobject = j, hp_parser = 0, hp_url = no_string, hp_status_msg = no_string,
     hp_fields = replicate HEADER_MAX no_string, hp_values = replicate HEADER_MAX no_string,
     hp_n_fields = 0, hp_n_values = 0, hp_cur_jbuf = None, hp_cur_buf = None,
     hp_cur_buf_len = 0, hp_flushed = False\<rparr>"
  let ?t = "s\<lparr>blocks := blocks s + 1, next_ptr := ?p + 1, trace := trace s @ [ESetNative j ?p],
     parsers := (parsers s)(?p \<mapsto> ?w)\<rparr>"
  have sum: "sum_list (replicate n (0 :: int)) = 0" for n by (induction n) simp_all
  have wf: "hp_wf ?w" by (simp add: hp_wf_def HEADER_MAX_def)
  have held: "strings_held ?w = 0" by (simp add: strings_held_def sum)
  have t: "parsers ?t ?p = Some ?w" by simp
  note init = initialize_wp[OF t wf L, of ty]
  have "wp (sq (iotjs_httpparserwrap_initialize L ?p ty) (ret ?p)) (\<lambda>p u. p = ?p \<and> parser_inv E ph p j u \<and>
      h_argv u = h_argv s \<and> h_ret u = h_ret s \<and> h_this u = h_this s \<and> (\<forall>v. owned (trace u) v = owned (trace s) v) \<and>
      native_of (trace u) = (native_of (trace s))(j := p) \<and>
      blocks u - strings_held (wrapper p u) = blocks s + 1 \<and> pending (wrapper p u) = [] \<and> bufs u = bufs s) ?t"
    unfolding wp_sq
  proof (rule wp_mono[OF init], elim exE conjE)
    fix x u v
    assume wv: "walks ?p v [] (strings_held v - strings_held ?w) (\<lambda>_. 0) ?t u"
      and v: "hp_jobject v = hp_jobject ?w" "tracks v (ph (hp_parser v))" "pending v = []"
    have v': "wrapper ?p u = v" using walks_fields(1)[OF wv] by (simp add: wrapper_def)
    have "parser_at E ?p v u"
      using E v(1) walks_fields(1-3)[OF wv] by (simp add: parser_at_def native_of_set)
    then have "parser_inv E ph ?p j u" using v by (auto simp: parser_inv_def)
    then show "wp (ret ?p) (\<lambda>p u. p = ?p \<and> parser_inv E ph p j u \<and>
      h_argv u = h_argv s \<and> h_ret u = h_ret s \<and> h_this u = h_this s \<and> (\<forall>v. owned (trace u) v = owned (trace s) v) \<and>
      native_of (trace u) = (native_of (trace s))(j := p) \<and>
      blocks u - strings_held (wrapper p u) = blocks s + 1 \<and> pending (wrapper p u) = [] \<and> bufs u = bufs s) u"
      using wv v v' held by (simp add: wp_ret walks_fields[OF wv] native_of_set)
  qed
  then show ?thesis
    unfolding iotjs_httpparserwrap_create_def
    using j by (simp add: wp_simps iotjs_jobjectwrap_initialize_def put_httpparserwrap_def)
qed


text \<open>The wrapper that the constructor makes, until the object is collected.\<close>

lemma HTTPParserCons_wp:
  fixes s :: "('c, 'z) hst_scheme"
  assumes E: "native_law E" "sets_ok E" "process_module E s" "parser_js E j" and L: "http_law L ph"
    and ty: "parser_type L ty"
  shows "wp (HTTPParserCons E L) (\<lambda>_ u. parser_inv E ph (next_ptr s) j u \<and> h_argv u = [JNumber (num ty)] \<and>
      h_ret u = (False, JUndefined) \<and> (\<forall>v. frame_refs u v = owned (trace s) v) \<and>
      native_of (trace u) = (native_of (trace s))(j := next_ptr s) \<and> bufs u = bufs s \<and>
      blocks u - strings_held (wrapper (next_ptr s) u) = blocks (handler_entry j [JNumber (num ty)] s) + 1)
    (handler_entry j [JNumber (num ty)] s)"
proof -
  let ?e = "handler_entry j [JNumber (num ty)] s"
  have j: "is_object j" using E(4) by (simp add: parser_js_def)
  have am: "args_match [is_number] [JNumber (num ty)]" by simp
  have n: "next_ptr ?e = next_ptr s" by (simp add: handler_entry_def)
  have tail: "wp (bnd (iotjs_httpparserwrap_jobject E (next_ptr s)) (\<lambda>jobj.
     sq (IOTJS_ASSERT l (is_object jobj))
    (bnd (get_parser_wrap E j) (\<lambda>q. IOTJS_ASSERT l (q = next_ptr s))))) (\<lambda>_ w. w = u) u"
    if "parser_inv E ph (next_ptr s) j u" for u :: "('c, 'z) hst_scheme" and l
    using parser_invD[OF that] E(1)
    by (simp add: wp_simps iotjs_httpparserwrap_jobject_def get_httpparserwrap_def get_parser_wrap_def native_law_def)
  show ?thesis
    unfolding HTTPParserCons_def
    apply (simp only: wp_JHANDLER_CHECK_THIS wp_check_args handler_entry_sel j am if_True)
    apply (subst wp_bnd, simp only: wp_handler_get handler_entry_sel j simp_thms)
    apply (subst wp_bnd)
    apply (rule wp_mono[where P = "\<lambda>r u. r = ty \<and> u = ?e"])
     using ty apply (simp add: wp_simps num_def parser_type_def)
    apply (elim conjE, hypsubst)
    apply (rule walk_assert)
     using ty apply (simp add: parser_type_def)
    apply (subst wp_bnd)
    apply (rule wp_mono[OF create_wp'[OF E(1,2) _ E(4) L]])
     using E(3) apply simp
    apply (elim conjE, simp only: n)
    apply (rule wp_mono[OF tail], assumption)
    apply (simp add: frame_refs_def)
    done
qed

lemma for_each_destroy:
  "wp (for_each (zip fs vs) (\<lambda>(f, v). sq (iotjs_string_destroy f) (iotjs_string_destroy v)))
     (\<lambda>_ u. u = charge (- (\<Sum>(f, v) \<leftarrow> zip fs vs. held f + held v)) s) s"
proof (induction "zip fs vs" arbitrary: fs vs s)
  case Nil
  then show ?case by (simp add: wp_simps charge_def flip: Nil)
next
  case (Cons x xs)
  obtain f fs' v vs' where [simp]: "fs = f # fs'" "vs = v # vs'" "x = (f, v)" "xs = zip fs' vs'"
    using Cons.hyps(2) by (cases fs; cases vs) auto
  let ?t = "charge (- held v) (charge (- held f) s)"
  have "wp (for_each (zip fs' vs') (\<lambda>(f, v). sq (iotjs_string_destroy f) (iotjs_string_destroy v)))
     (\<lambda>_ u. u = charge (- (\<Sum>(f, v) \<leftarrow> zip fs' vs'. held f + held v)) ?t) ?t"
    by (rule Cons.hyps(1)) simp
  then show ?case
    by (simp add: wp_simps wp_string_destroy) (erule wp_mono, simp add: charge_def)
qed

lemma sum_pairs: "length fs = length vs \<Longrightarrow>
  (\<Sum>(f, v) \<leftarrow> zip fs vs. held f + held v) = sum_list (map held fs) + sum_list (map held vs)"
  by (induction fs vs rule: list_induct2) simp_all

lemma httpparserwrap_destroy_wp:
  assumes "parsers s p = Some w" "hp_wf w"
  shows "wp (iotjs_httpparserwrap_destroy p) (\<lambda>_ u. trace u = trace s \<and> parsers u = (parsers s)(p := None) \<and>
    blocks u = blocks s - strings_held w - 1 \<and> bufs u = bufs s) s"
  unfolding iotjs_httpparserwrap_destroy_def
  apply (rule walk_get[OF walks_refl[OF assms(1)]])
  apply (simp only: wp_sq wp_string_destroy)
  apply (rule wp_mono[OF for_each_destroy])
  using assms(2)
  by (simp add: wp_simps charge_def sum_pairs hp_wf_def strings_held_def IOTJS_RELEASE_def)

definition parser_life ::
  "'c engine \<Rightarrow> http_lib \<Rightarrow> jval \<Rightarrow> int \<Rightarrow> (parser_op \<times> jval list) list \<Rightarrow> (('c, 'z) hst_scheme, unit) prog" where
  "parser_life E L j ty cs =
     bnd (gets next_ptr) (\<lambda>p.
     sq (native_handler.serve (HTTPParserCons E L) (j, [JNumber (num ty)]))
    (sq (parser_session E L j cs)
    (iotjs_httpparserwrap_destroy p)))"

lemma serve_cons_wp:
  fixes s :: "('c, 'z) hst_scheme"
  assumes E: "native_law E" "sets_ok E" "process_module E s" "parser_js E j" and L: "http_law L ph"
    and ty: "parser_type L ty" and b: "buffers_ok E live s" "\<And>i pb jb n. (i, pb, jb, n) \<in> live \<Longrightarrow> i \<noteq> j"
  shows "wp (native_handler.serve (HTTPParserCons E L) (j, [JNumber (num ty)])) (\<lambda>_ u.
      session_inv E L ph (next_ptr s) j live u \<and> (\<forall>v. owned (trace u) v = owned (trace s) v) \<and>
      blocks u - strings_held (wrapper (next_ptr s) u) = blocks s + 1) s"
  unfolding serve_eq wp_bnd wp_JHANDLER_FUNCTION
proof (rule wp_mono[OF HTTPParserCons_wp[OF E L ty]], elim conjE)
  fix x :: unit and u :: "('c, 'z) hst_scheme"
  assume u: "parser_inv E ph (next_ptr s) j u" "h_argv u = [JNumber (num ty)]" "h_ret u = (False, JUndefined)"
    "\<forall>v. frame_refs u v = owned (trace s) v" "native_of (trace u) = (native_of (trace s))(j := next_ptr s)"
    "bufs u = bufs s"
    "blocks u - strings_held (wrapper (next_ptr s) u) = blocks (handler_entry j [JNumber (num ty)] s) + 1"
  have "owned (trace u) v = owned (trace s) v + ref1 JUndefined v" for v
    using u(3) u(4)[rule_format, of v] by (simp add: frame_refs_def)
  moreover have "buffers_ok E live u"
    using b u(5,6) by (fastforce simp: buffers_ok_def builtin_def)
  ultimately show "wp (case h_ret u of (th, r) \<Rightarrow> iotjs_jval_destroy r) (\<lambda>_ u.
      session_inv E L ph (next_ptr s) j live u \<and> (\<forall>v. owned (trace u) v = owned (trace s) v) \<and>
      blocks u - strings_held (wrapper (next_ptr s) u) = blocks s + 1)
    (u\<lparr>blocks := blocks u - (if h_argv u = [] then 0 else 1)\<rparr>)"
    using u L
    by (auto simp: wp_simps session_inv_def parser_inv_def parser_at_def native_of_append wrapper_def
        buffers_ok_def builtin_def)
qed

lemma parser_life_wp:
  fixes s :: "('c, 'z) hst_scheme"
  assumes E: "native_law E" "sets_ok E" "process_module E s" "parser_js E j" and L: "http_law L ph"
    and ty: "parser_type L ty" and b: "buffers_ok E live s" "\<And>i pb jb n. (i, pb, jb, n) \<in> live \<Longrightarrow> i \<noteq> j"
    and cs: "\<And>op args. (op, args) \<in> set cs \<Longrightarrow> parser_args L live op args"
  shows "wp (parser_life E L j ty cs) (\<lambda>_ u. parsers u (next_ptr s) = None \<and>
      (\<forall>v. owned (trace u) v = owned (trace s) v) \<and> blocks u = blocks s) s"
  unfolding parser_life_def wp_bnd wp_sq wp_gets
proof (rule wp_mono[OF serve_cons_wp[OF E L ty b]], assumption, elim conjE)
  fix u :: "('c, 'z) hst_scheme"
  assume u: "session_inv E L ph (next_ptr s) j live u" "\<forall>v. owned (trace u) v = owned (trace s) v"
    "blocks u - strings_held (wrapper (next_ptr s) u) = blocks s + 1"
  show "wp (parser_session E L j cs) (\<lambda>_. wp (iotjs_httpparserwrap_destroy (next_ptr s))
    (\<lambda>_ u. parsers u (next_ptr s) = None \<and> (\<forall>v. owned (trace u) v = owned (trace s) v) \<and> blocks u = blocks s)) u"
  proof (rule wp_mono[OF parser_session_wp[OF u(1) cs]], assumption, elim conjE)
    fix w :: "('c, 'z) hst_scheme"
    assume w: "session_inv E L ph (next_ptr s) j live w" "\<forall>v. owned (trace w) v = owned (trace u) v"
      "blocks w - strings_held (wrapper (next_ptr s) w) = blocks u - strings_held (wrapper (next_ptr s) u)"
    have i: "parser_inv E ph (next_ptr s) j w" using w(1) by (simp add: session_inv_def)
    have wf: "hp_wf (wrapper (next_ptr s) w)" using parser_invD(3)[OF i] by (simp add: tracks_def)
    show "wp (iotjs_httpparserwrap_destroy (next_ptr s)) (\<lambda>_ u. parsers u (next_ptr s) = None \<and>
        (\<forall>v. owned (trace u) v = owned (trace s) v) \<and> blocks u = blocks s) w"
      by (rule wp_mono[OF httpparserwrap_destroy_wp[OF parser_invD(6)[OF i] wf]]) (use u w in simp)
  qed
qed

lemma call_step:
  assumes p: "parser_at E p w s" and tr: "tracks w q"
    and q: "advance (hp_type L st = HTTP_REQUEST L) False data q ev = Some q'"
    and f: "\<And>v X u r. ran p w v X s u \<Longrightarrow> tracks v q' \<Longrightarrow> parser_at E p v u \<Longrightarrow>
      X @ pending v = head_step data (pending w) ev \<Longrightarrow> (ev = OnHeadersComplete \<Longrightarrow> pending v = []) \<Longrightarrow> wp (f r) Q u"
  shows "wp (sq (set_parser p st) (bnd (settings E L p data ev) f)) Q s"
  unfolding wp_sq wp_bnd
proof (rule wp_mono[OF set_parser_wp[OF parser_atD(4)[OF p]]])
  fix x t assume t: "ran p w (w\<lparr>hp_parser := st\<rparr>) [] s t"
  let ?w = "w\<lparr>hp_parser := st\<rparr>"
  have pt: "parser_at E p ?w t"
    by (rule walks_parser_at[OF p]) (use t in \<open>auto simp: ran_def\<close>)
  have tw: "tracks ?w q" using tr by simp
  have "wp (settings E L p data ev) (\<lambda>r u. callback_ok p q' (head_step data (pending ?w) ev) ?w t u \<and>
      (ev = OnHeadersComplete \<longrightarrow> (\<exists>v. parsers u p = Some v \<and> pending v = []))) t"
  proof (cases "ev = OnHeadersComplete")
    case True
    then show ?thesis
      using wp_mono[OF on_headers_complete_wp[OF pt tw, of L False data q']] q
      by (simp add: settings_def head_step_def)
  next
    case False
    show ?thesis
      by (rule wp_mono[OF settings_wp[OF pt tw, where c = False]]) (use q False in auto)
  qed
  then show "wp (settings E L p data ev) (\<lambda>x. wp (f x) Q) t"
  proof (rule wp_mono, elim conjE)
    fix r u
    assume c: "callback_ok p q' (head_step data (pending ?w) ev) ?w t u"
      and h: "ev = OnHeadersComplete \<longrightarrow> (\<exists>v. parsers u p = Some v \<and> pending v = [])"
    from c obtain v X where v: "ran p ?w v X t u" "tracks v q'" "X @ pending v = head_step data (pending w) ev"
      by (auto simp: callback_ran)
    show "wp (f r) Q u"
    proof (rule f)
      show "ran p w v X s u" using ran_trans[OF t v(1)] by simp
      show "parser_at E p v u" by (rule walks_parser_at[OF pt]) (use v in \<open>auto simp: ran_def\<close>)
      show "ev = OnHeadersComplete \<Longrightarrow> pending v = []"
        using h v(1) walks_fields(1) by (fastforce simp: ran_def)
    qed (use v in auto)
  qed
qed

lemma trailers_wp:
  assumes s: "parser_inv E ph p j s" and q: "ph_head (ph (hp_parser (wrapper p s))) \<noteq> InField"
    and u: "0 < len" "len \<le> length data" "NUL \<notin> set (take len data)" "len \<le> head_limit"
  shows "wp (run_parser E L p data (HttpCall st OnMessageBegin (\<lambda>_. HttpCall st (OnUrl 0 len)
      (\<lambda>_. HttpCall st OnHeadersComplete (\<lambda>_. HttpReturn st len))))) (\<lambda>n u. n = len \<and>
      stored (trace u) = stored (trace s) @ map JString (pending (wrapper p s)) \<and> pending (wrapper p u) = []) s"
proof -
  note D = parser_invD[OF s]
  show ?thesis
    unfolding run_parser.simps
    apply (rule call_step[OF D(1,3), where q' = "\<lparr>ph_head = NoHeader, ph_used = 0, ph_url = False\<rparr>"])
    using q apply (simp add: advance_def)
    apply (rule call_step[where q' = "\<lparr>ph_head = NoHeader, ph_used = len, ph_url = True\<rparr>"], assumption, assumption)
    using u apply (simp add: advance_def head_text_def slice_def)
    apply (rule call_step[where q' = "\<lparr>ph_head = NoHeader, ph_used = len, ph_url = True\<rparr>"], assumption, assumption)
     apply (simp add: advance_def)
    subgoal premises st for v1 X1 u1 _ v2 X2 u2 _ v3 X3 u3
    proof -
      have p3: "pending v3 = []" using st(15) by simp
      have X: "X1 @ X2 @ X3 = pending (wrapper p s)"
        using st(4,9,14) p3 by (simp add: head_step_def)
      have r: "ran p (wrapper p s) v3 (X1 @ X2 @ X3) s u3"
        using ran_trans[OF st(1) ran_trans[OF st(6) st(11)]] by simp
      have "wp (set_parser p st) (\<lambda>_ u. ran p v3 (v3\<lparr>hp_parser := st\<rparr>) [] u3 u) u3"
        by (rule set_parser_wp[OF parser_atD(4)[OF st(13)]])
      then show ?thesis
        unfolding wp_sq wp_ret
      proof (rule wp_mono)
        fix x u assume w: "ran p v3 (v3\<lparr>hp_parser := st\<rparr>) [] u3 u"
        have z: "ran p (wrapper p s) (v3\<lparr>hp_parser := st\<rparr>) (pending (wrapper p s)) s u"
          using ran_trans[OF r w] X by simp
        then have "stored (trace u) = stored (trace s) @ map JString (pending (wrapper p s))"
          "wrapper p u = v3\<lparr>hp_parser := st\<rparr>"
          by (auto simp: ran_def wrapper_def walks_fields)
        then show "len = len \<and> stored (trace u) = stored (trace s) @ map JString (pending (wrapper p s)) \<and>
            pending (wrapper p u) = []"
          using p3 by simp
      qed
    qed
    done
qed

lemma Execute_call:
  fixes s :: "('c, 'z) hst_scheme"
  assumes s: "parser_inv E ph p j s" and L: "http_law L ph"
    and b: "builtin s i pb bw" "js_buffer E jb i bw" "bw_length bw \<noteq> 0"
  shows "\<exists>n X res u evs. JHANDLER_FUNCTION (Execute E L) j [jb] s = Inr ((False, res), u) \<and>
      parser_inv E ph p j u \<and>
      run_path (http_parser_execute L (hp_parser (wrapper p s)) (Some (bytes bw))) evs (hp_parser (wrapper p u)) n \<and>
      stored (trace u) = stored (trace s) @ map JString X \<and>
      X @ pending (wrapper p u) = foldl (head_step (bytes bw)) (pending (wrapper p s)) evs \<and>
      (\<forall>v. owned (trace u) v = owned (trace s) v + ref1 res v) \<and>
      execute_result L (hp_parser (wrapper p u)) n (bw_length bw) res"
proof -
  have "wp (JHANDLER_FUNCTION (Execute E L) j [jb]) (\<lambda>rr u. \<exists>n X res evs. rr = (False, res) \<and> parser_inv E ph p j u \<and>
      run_path (http_parser_execute L (hp_parser (wrapper p s)) (Some (bytes bw))) evs (hp_parser (wrapper p u)) n \<and>
      stored (trace u) = stored (trace s) @ map JString X \<and>
      X @ pending (wrapper p u) = foldl (head_step (bytes bw)) (pending (wrapper p s)) evs \<and>
      (\<forall>v. owned (trace u) v = owned (trace s) v + ref1 res v) \<and>
      execute_result L (hp_parser (wrapper p u)) n (bw_length bw) res) s"
    unfolding wp_JHANDLER_FUNCTION
  proof (rule wp_mono[OF Execute_wp[OF s L b]], elim exE conjE)
    fix u :: "('c, 'z) hst_scheme" and n X res
    assume pa: "parsed (http_parser_execute L (hp_parser (wrapper p s)) (Some (bytes bw))) (bytes bw) p n X s u"
      and k: "parser_kept E ph p j [jb] (False, res) X s u"
      and er: "execute_result L (hp_parser (wrapper p u)) n (bw_length bw) res"
    let ?u = "u\<lparr>blocks := blocks u - (if h_argv u = [] then 0 else 1)\<rparr>"
    obtain evs where evs: "run_path (http_parser_execute L (hp_parser (wrapper p s)) (Some (bytes bw))) evs (hp_parser (wrapper p u)) n"
      and f: "\<forall>Y. even (length Y) \<longrightarrow> foldl (head_step (bytes bw)) (Y @ pending (wrapper p s)) evs = Y @ X @ pending (wrapper p u)"
      using pa by (auto simp: parsed_def)
    have h: "h_ret u = (False, res)" "stored (trace u) = stored (trace s) @ map JString X"
      "\<And>x. frame_refs u x = owned (trace s) x"
      using k by (auto simp: parser_kept_def handled_def)
    have "owned (trace u) v = owned (trace s) v + ref1 res v" for v
      using h(1) h(3)[of v] by (simp add: frame_refs_def)
    moreover have "parser_inv E ph p j ?u" "wrapper p ?u = wrapper p u"
      using k by (auto simp: parser_kept_def parser_inv_def parser_at_def wrapper_def)
    ultimately show "\<exists>n X res evs. h_ret u = (False, res) \<and> parser_inv E ph p j ?u \<and>
      run_path (http_parser_execute L (hp_parser (wrapper p s)) (Some (bytes bw))) evs (hp_parser (wrapper p ?u)) n \<and>
      stored (trace ?u) = stored (trace s) @ map JString X \<and>
      X @ pending (wrapper p ?u) = foldl (head_step (bytes bw)) (pending (wrapper p s)) evs \<and>
      (\<forall>v. owned (trace ?u) v = owned (trace s) v + ref1 res v) \<and>
      execute_result L (hp_parser (wrapper p ?u)) n (bw_length bw) res"
      using evs f[rule_format, of "[]"] h(1,2) er
      by (intro exI[where x = n] exI[where x = X] exI[where x = res] exI[where x = evs]) simp
  qed
  then show ?thesis unfolding wp_runs by blast
qed

section \<open>Properties\<close>

text \<open>
  For the concrete instances: a parser that takes any input of moderate length for a whole message,
  its URL the input and its one header the first character, twice. Its state is the length of the
  last head.
\<close>

definition toy_run :: "nat \<Rightarrow> char list option \<Rightarrow> http_run" where
  "toy_run st input =
     (case input of
        None \<Rightarrow> HttpReturn st 0
      | Some cs \<Rightarrow>
          if cs \<noteq> [] \<and> length cs \<le> 1000 \<and> NUL \<notin> set cs
          then HttpCall st OnMessageBegin (\<lambda>_. HttpCall st (OnUrl 0 (length cs))
              (\<lambda>_. HttpCall st (OnHeaderField 0 1) (\<lambda>_. HttpCall st (OnHeaderValue 0 1)
              (\<lambda>_. HttpCall st OnHeadersComplete (\<lambda>_. HttpCall st (OnBody 0 1)
              (\<lambda>_. HttpCall st OnMessageComplete (\<lambda>_. HttpReturn (length cs + 2) (length cs))))))))
          else HttpReturn st 0)"

definition toy_lib :: http_lib where
  "toy_lib = \<lparr>HTTP_REQUEST = 0, HTTP_RESPONSE = 1, http_parser_init = \<lambda>_. 0,
     http_parser_pause = \<lambda>st _. st, http_parser_execute = toy_run, hp_type = \<lambda>_. 0,
     hp_method = \<lambda>_. 1, hp_status_code = \<lambda>_. 0, hp_upgrade = \<lambda>_. False,
     http_should_keep_alive = \<lambda>_. True, http_errno_name = \<lambda>_. ''HPE_UNKNOWN'',
     HTTP_METHOD_MAP = [(''1'', ''GET'')]\<rparr>"

definition toy_phase :: "nat \<Rightarrow> http_phase" where
  "toy_phase st = \<lparr>ph_head = NoHeader, ph_used = st, ph_url = (0 < st)\<rparr>"

lemma toy_law: "http_law toy_lib toy_phase"
proof -
  have "run_ok toy_lib True cs toy_phase (toy_phase st) (toy_run st (Some cs))" for st cs
  proof (cases cs)
    case Nil
    then show ?thesis by (simp add: toy_run_def)
  next
    case (Cons c cs')
    then show ?thesis
      by (auto simp: toy_run_def advance_def head_text_def slice_def head_limit_def toy_phase_def)
  qed
  then show ?thesis by (simp add: http_law_def toy_lib_def toy_run_def toy_phase_def)
qed

definition parser_engine :: "call engine" where
  "parser_engine = buffer_engine\<lparr>
     e_prop := \<lambda>tr j n. if n = ''_builtin'' \<or> n = ''_buffer'' \<or> n = ''length'' then e_prop buffer_engine tr j n
       else (False, JFunction 0),
     e_call := \<lambda>_ _ _ _. (False, JBool False)\<rparr>"

definition sample_hst :: "call hst" where
  "sample_hst = \<lparr>trace = [ESetNative (JObject 1) 1, ESetNative (JObject 3) 2], blocks = 4,
     h_this = JNull, h_argv = [], h_ret = (False, JNull), h_finished = False,
     jmodule = \<lambda>_. JObject 0, env = fresh_environment, env_initialized = True,
     handles = Map.empty, reqs = Map.empty, next_ptr = 3, bufs = [1 \<mapsto> wrap_abc, 2 \<mapsto> wrap_xy],
     parsers = Map.empty\<rparr>"

lemma parser_engine_sel [simp]:
  "e_native parser_engine = native_of" "e_call parser_engine = (\<lambda>_ _ _ _. (False, JBool False))"
  "e_set parser_engine = (\<lambda>_ _ _ _. False)" "e_set_index parser_engine = (\<lambda>_ _ _ _. False)"
  "n \<noteq> ''_builtin'' \<Longrightarrow> n \<noteq> ''_buffer'' \<Longrightarrow> n \<noteq> ''length'' \<Longrightarrow>
   e_prop parser_engine tr j n = (False, JFunction 0)"
  by (simp_all add: parser_engine_def buffer_engine_def wraps_engine_def sample_engine_def)

lemma parser_engine_laws:
  "native_law parser_engine" "sets_ok parser_engine" "process_module parser_engine sample_hst"
  "parser_js parser_engine (JObject 5)"
  by (simp_all add: native_law_def sets_ok_def process_ok_def sample_hst_def parser_js_def) blast+

lemma sample_hst_buffers: "buffers_ok parser_engine sample_live sample_hst"
proof -
  have "builtin sample_hst (JObject 1) 1 wrap_abc" "builtin sample_hst (JObject 3) 2 wrap_xy"
    "js_buffer parser_engine (JObject 2) (JObject 1) wrap_abc" "js_buffer parser_engine (JObject 4) (JObject 3) wrap_xy"
    "bw_length wrap_abc = 3" "bw_length wrap_xy = 2"
    by (simp_all add: parser_engine_def buffer_engine_def builtin_def sample_hst_def
      native_of_def buf_wf_def js_buffer_def wrap_abc_def wrap_xy_def bytes_def)
  then show ?thesis by auto (auto simp: buffers_ok_def)
qed



text \<open>A live wrapper, for the instances of the properties below: one header is pending.\<close>

definition one_char :: "char \<Rightarrow> iotjs_string_t" where
  "one_char c = \<lparr>str_size = 1, str_cap = 1, str_data = Some [Some c, Some NUL]\<rparr>"

lemma one_char_simps [simp]: "string_wf (one_char c)" "contents (one_char c) = [c]"
  by (simp_all add: one_char_def string_wf_def contents_def)

definition trailer_wrap :: iotjs_httpparserwrap_t where
  "trailer_wrap = \<lparr>hp_jobject = JObject 5, hp_parser = 3, hp_url = one_char (CHR ''/''),
     hp_status_msg = no_string,
     hp_fields = one_char (CHR ''k'') # replicate 9 no_string,
     hp_values = one_char (CHR ''v'') # replicate 9 no_string,
     hp_n_fields = 1, hp_n_values = 1, hp_cur_jbuf = None, hp_cur_buf = None,
     hp_cur_buf_len = 0, hp_flushed = False\<rparr>"

definition sample_parser :: "call hst" where
  "sample_parser = sample_hst\<lparr>trace := trace sample_hst @ [ESetNative (JObject 5) 3],
     next_ptr := 4, parsers := [3 \<mapsto> trailer_wrap]\<rparr>"

lemma sample_parser_ok:
  "parser_inv parser_engine toy_phase 3 (JObject 5) sample_parser" "wrapper 3 sample_parser = trailer_wrap"
  "pending trailer_wrap = [''k'', ''v'']"
proof -
  have "parser_at parser_engine 3 trailer_wrap sample_parser"
    using parser_engine_laws by (simp add: parser_at_def sample_parser_def trailer_wrap_def native_of_def sample_hst_def)
  moreover have "tracks trailer_wrap (toy_phase (hp_parser trailer_wrap))"
    by (simp add: tracks_def trailer_wrap_def toy_phase_def hp_wf_def HEADER_MAX_def head_limit_def)
  moreover have "hp_jobject trailer_wrap = JObject 5" by (simp add: trailer_wrap_def)
  ultimately show "parser_inv parser_engine toy_phase 3 (JObject 5) sample_parser"
    unfolding parser_inv_def by blast
  show "wrapper 3 sample_parser = trailer_wrap" by (simp add: wrapper_def sample_parser_def)
  show "pending trailer_wrap = [''k'', ''v'']" by (simp add: pending_pairs trailer_wrap_def)
qed



text \<open>Names and values that a trailer left behind are not handed over with their message:
  they become headers of the next one. A whole message head without a single header, its URL being
  \<open>len\<close> characters of the input, stores exactly the pairs that were pending before it.\<close>

theorem httpparser_trailers_join_next_message:
  fixes s :: "('c, 'z) hst_scheme"
  assumes "parser_inv E ph p j s" "ph_head (ph (hp_parser (wrapper p s))) \<noteq> InField"
    and "0 < len" "len \<le> length data" "NUL \<notin> set (take len data)" "len \<le> head_limit"
  shows "\<exists>u. run_parser E L p data (HttpCall st OnMessageBegin (\<lambda>_. HttpCall st (OnUrl 0 len)
      (\<lambda>_. HttpCall st OnHeadersComplete (\<lambda>_. HttpReturn st len)))) s = Inr (len, u) \<and>
    stored (trace u) = stored (trace s) @ map JString (pending (wrapper p s)) \<and> pending (wrapper p u) = []"
  using trailers_wp[OF assms, of L st] unfolding wp_runs by blast

theorem httpparser_trailers_join_next_message_witness:
  "\<exists>u. run_parser parser_engine toy_lib 3 ''/x'' (HttpCall 7 OnMessageBegin (\<lambda>_. HttpCall 7 (OnUrl 0 2)
      (\<lambda>_. HttpCall 7 OnHeadersComplete (\<lambda>_. HttpReturn 7 2)))) sample_parser = Inr (2, u) \<and>
    stored (trace u) = [JString ''k'', JString ''v''] \<and> pending (wrapper 3 u) = []"
proof -
  have a: "ph_head (toy_phase (hp_parser (wrapper 3 sample_parser))) \<noteq> InField" "0 < (2 :: nat)"
    "2 \<le> length ''/x''" "NUL \<notin> set (take 2 ''/x'')" "2 \<le> head_limit"
    by (simp_all add: toy_phase_def head_limit_def)
  have st: "stored (trace sample_parser) = []" by (simp add: sample_parser_def sample_hst_def)
  show ?thesis
    using httpparser_trailers_join_next_message[OF sample_parser_ok(1) a, of toy_lib 7]
    unfolding sample_parser_ok(2,3) st by simp
qed

text \<open>The collected headers stay within the wrapper's ten slots: whatever run of the library
  is made on a live wrapper, it ends without a fault with fewer than ten names, as many values or one
  less, and with the URL and the status message no longer than the bytes of the head allow.\<close>

theorem httpparser_collects_within_bounds:
  fixes s :: "('c, 'z) hst_scheme"
  assumes "parser_inv E ph p j s" "run_ok L False data ph (ph (hp_parser (wrapper p s))) r"
  shows "\<exists>n u v. run_parser E L p data r s = Inr (n, u) \<and> parsers u p = Some v \<and>
    hp_n_fields v < HEADER_MAX \<and> hp_n_values v \<le> hp_n_fields v \<and> hp_n_fields v \<le> hp_n_values v + 1 \<and>
    length (pending v) = hp_n_fields v + hp_n_values v \<and>
    length (contents (hp_url v)) \<le> ph_used (ph (hp_parser v)) \<and>
    length (contents (hp_status_msg v)) \<le> ph_used (ph (hp_parser v)) \<and> ph_used (ph (hp_parser v)) \<le> head_limit"
proof -
  obtain n u v where "run_parser E L p data r s = Inr (n, u)" "parsers u p = Some v" "tracks v (ph (hp_parser v))"
    using run_wp[OF parser_invD(1,3)[OF assms(1)] assms(2)] unfolding wp_runs ran_def
    by (blast dest: walks_fields(1))
  then show ?thesis
    by (intro exI[where x = n] exI[where x = u] exI[where x = v])
      (auto simp: tracks_def hp_wf_def pending_pairs split: if_splits)
qed

theorem httpparser_collects_within_bounds_witness:
  "\<exists>n u v. run_parser parser_engine toy_lib 3 ''ab'' (HttpCall 3 (OnHeaderField 0 2)
      (\<lambda>_. HttpCall 3 (OnHeaderValue 1 1) (\<lambda>_. HttpReturn 6 2))) sample_parser = Inr (n, u) \<and>
    parsers u 3 = Some v \<and> hp_n_fields v < HEADER_MAX"
proof -
  let ?ph = "\<lambda>st. \<lparr>ph_head = (if st = 3 then NoHeader else InValue), ph_used = st, ph_url = True\<rparr>"
  have "tracks trailer_wrap (?ph (hp_parser trailer_wrap))"
    by (simp add: tracks_def trailer_wrap_def hp_wf_def HEADER_MAX_def head_limit_def)
  then have "parser_inv parser_engine ?ph 3 (JObject 5) sample_parser"
    using parser_invD(1,2)[OF sample_parser_ok(1)] unfolding sample_parser_ok(2) parser_inv_def by blast
  moreover have "run_ok toy_lib False ''ab'' ?ph (?ph (hp_parser (wrapper 3 sample_parser)))
     (HttpCall 3 (OnHeaderField 0 2) (\<lambda>_. HttpCall 3 (OnHeaderValue 1 1) (\<lambda>_. HttpReturn 6 2)))"
    unfolding sample_parser_ok(2)
    by (simp add: trailer_wrap_def advance_def head_text_def slice_def head_limit_def)
  ultimately show ?thesis using httpparser_collects_within_bounds by blast
qed

end
