(* ===== verification/Iot_Fs.thy ===== *)
theory Iot_Fs
  imports Iot_Serve "HOL-Library.Log_Nat"
begin

text \<open>
  \<^verbatim>\<open>src/module/iotjs_module_fs.c\<close>: the operations on files, each in a synchronous form, which
  returns or throws, and an asynchronous one, which calls back.

  libuv and the file system are parameters. Their answer to a request is a code and, for some
  requests, data: the status of a file, the names in a directory, the bytes read (\<open>fs_answer\<close>,
  which the synchronous form takes from the parameter \<open>lib_answer\<close> and the asynchronous one from
  the completion). \<open>pend\<close> is what libuv remembers of a request it has accepted, until it is
  complete. \<^verbatim>\<open>uv_fs_req_cleanup\<close> releases memory of libuv, not of the program.
\<close>

section \<open>Requests of libuv\<close>

text \<open>\<^verbatim>\<open>uv_fs_type\<close>; the last stands for the types that the module does not use.\<close>

datatype uv_fs_type =
    UV_FS_CLOSE
  | UV_FS_OPEN
  | UV_FS_READ
  | UV_FS_WRITE
  | UV_FS_STAT
  | UV_FS_MKDIR
  | UV_FS_RMDIR
  | UV_FS_UNLINK
  | UV_FS_RENAME
  | UV_FS_SCANDIR
  | UV_FS_OTHER

text \<open>The type that \<^verbatim>\<open>uv_fs_close\<close>, \<^verbatim>\<open>uv_fs_open\<close> and the others give a request, and their names.\<close>

fun type_of_op :: "fs_op \<Rightarrow> uv_fs_type" where
  "type_of_op (FsClose _) = UV_FS_CLOSE"
| "type_of_op (FsOpen _ _ _) = UV_FS_OPEN"
| "type_of_op (FsRead _ _ _ _ _) = UV_FS_READ"
| "type_of_op (FsWrite _ _ _ _ _) = UV_FS_WRITE"
| "type_of_op (FsStat _) = UV_FS_STAT"
| "type_of_op (FsMkdir _ _) = UV_FS_MKDIR"
| "type_of_op (FsRmdir _) = UV_FS_RMDIR"
| "type_of_op (FsUnlink _) = UV_FS_UNLINK"
| "type_of_op (FsRename _ _) = UV_FS_RENAME"
| "type_of_op (FsScandir _) = UV_FS_SCANDIR"
| "type_of_op FsCleanup = UV_FS_OTHER"

fun syscall_name :: "fs_op \<Rightarrow> string" where
  "syscall_name (FsClose _) = ''close''"
| "syscall_name (FsOpen _ _ _) = ''open''"
| "syscall_name (FsRead _ _ _ _ _) = ''read''"
| "syscall_name (FsWrite _ _ _ _ _) = ''write''"
| "syscall_name (FsStat _) = ''stat''"
| "syscall_name (FsMkdir _ _) = ''mkdir''"
| "syscall_name (FsRmdir _) = ''rmdir''"
| "syscall_name (FsUnlink _) = ''unlink''"
| "syscall_name (FsRename _ _) = ''rename''"
| "syscall_name (FsScandir _) = ''scandir''"
| "syscall_name FsCleanup = []"

record uv_stat_t =
  st_dev :: "64 word"
  st_mode :: "64 word"
  st_nlink :: "64 word"
  st_uid :: "64 word"
  st_gid :: "64 word"
  st_rdev :: "64 word"
  st_blksize :: "64 word"
  st_ino :: "64 word"
  st_size :: "64 word"
  st_blocks :: "64 word"

record fs_answer =
  ans_stat :: uv_stat_t
  ans_names :: "string list"
  ans_data :: "char list"

record fs_lib =
  lib_strerror :: "int \<Rightarrow> string"
  lib_answer :: "call ev list \<Rightarrow> fs_answer"

record 'c fst = "'c bst" +
  pend :: "nat \<Rightarrow> fs_op option"

text \<open>A request, at the address \<open>req_ptr\<close>, as the callbacks of the module read it.\<close>

record uv_fs_t =
  req_ptr :: nat
  fs_type :: uv_fs_type
  req_result :: int
  statbuf :: uv_stat_t
  dirents :: "string list"

text \<open>
  What carrying out a request does to the memory of the program: reading \<open>result\<close> bytes stores
  them in the block of a buffer, writing reads as many bytes of it.
\<close>

definition uv_fs_memory :: "fs_op \<Rightarrow> int \<Rightarrow> char list \<Rightarrow> (('c, 'z) bst_scheme, unit) prog" where
  "uv_fs_memory op res data =
     (case op of
        FsRead _ p off _ _ \<Rightarrow>
          if res \<le> 0 then ret ()
          else bnd (get_bufferwrap p) (\<lambda>w.
               if off + nat res \<le> length (bytes w)
               then upd (\<lambda>s. s\<lparr>bufs := (bufs s)(p \<mapsto> w\<lparr>bw_buffer :=
                      Some (overlay (bytes w) off (take (nat res) data))\<rparr>)\<rparr>)
               else fail (OutOfBounds ''uv_buf_t''))
      | FsWrite _ p off _ _ \<Rightarrow>
          if res \<le> 0 then ret ()
          else bnd (get_bufferwrap p) (\<lambda>w.
               if off + nat res \<le> length (bytes w) then ret () else fail (OutOfBounds ''uv_buf_t''))
      | _ \<Rightarrow> ret ())"

section \<open>The request wrapper\<close>

definition iotjs_fs_reqwrap_create :: "jval \<Rightarrow> (('c, 'z) wrt_scheme, nat) prog" where
  "iotjs_fs_reqwrap_create jcallback =
     bnd IOTJS_ALLOC (\<lambda>fs_reqwrap.
     sq (iotjs_reqwrap_initialize fs_reqwrap jcallback) (ret fs_reqwrap))"

definition iotjs_fs_reqwrap_destroy :: "call engine \<Rightarrow> nat \<Rightarrow> ((call, 'z) wrt_scheme, unit) prog" where
  "iotjs_fs_reqwrap_destroy E fs_reqwrap =
     bnd (sys E (UvFs None (Some fs_reqwrap) FsCleanup)) (\<lambda>_.
     sq (iotjs_reqwrap_destroy fs_reqwrap) IOTJS_RELEASE)"

definition iotjs_fs_reqwrap_dispatched :: "call engine \<Rightarrow> nat \<Rightarrow> ((call, 'z) wrt_scheme, unit) prog" where
  "iotjs_fs_reqwrap_dispatched E fs_reqwrap = iotjs_fs_reqwrap_destroy E fs_reqwrap"

definition iotjs_fs_reqwrap_req :: "nat \<Rightarrow> nat" where
  "iotjs_fs_reqwrap_req fs_reqwrap = fs_reqwrap"

definition iotjs_fs_reqwrap_jcallback :: "nat \<Rightarrow> (('c, 'z) wrt_scheme, jval) prog" where
  "iotjs_fs_reqwrap_jcallback fs_reqwrap = iotjs_reqwrap_jcallback fs_reqwrap"

section \<open>The values of a result\<close>

text \<open>
  The conversion of an unsigned 64-bit number to a double: exact below \<^verbatim>\<open>2^53\<close>, otherwise
  rounded to the nearest number of 53 bits, to the even one in the middle.
\<close>

definition u64_to_double :: "64 word \<Rightarrow> double" where
  "u64_to_double w =
     (let x = uint w; e = floorlog 2 (unat w) - 53; q = x div 2 ^ e; r = x mod 2 ^ e
      in if e = 0 then num x
         else if 2 * r > 2 ^ e \<or> 2 * r = 2 ^ e \<and> odd q then num ((q + 1) * 2 ^ e)
         else num (q * 2 ^ e))"

definition MakeStatObject :: "'c engine \<Rightarrow> uv_stat_t \<Rightarrow> (('c, 'z) mrt_scheme, jval) prog" where
  "MakeStatObject E st =
     bnd (iotjs_module_get MODULE_FS) (\<lambda>fs.
     bnd (iotjs_jval_get_property E fs ''_createStat'') (\<lambda>create_stat.
     sq (IOTJS_ASSERT ''MakeStatObject'' (is_function create_stat))
    (bnd (iotjs_jval_create_object E) (\<lambda>jstat.
     sq (for_each [(''dev'', st_dev st), (''mode'', st_mode st), (''nlink'', st_nlink st),
            (''uid'', st_uid st), (''gid'', st_gid st), (''rdev'', st_rdev st),
            (''blksize'', st_blksize st), (''ino'', st_ino st), (''size'', st_size st),
            (''blocks'', st_blocks st)]
           (\<lambda>(name, v). iotjs_jval_set_property_number E jstat name (u64_to_double v)))
    (bnd (iotjs_jargs_create 1) (\<lambda>jargs.
     bnd (iotjs_jargs_append_jval jargs jstat) (\<lambda>jargs.
     sq (iotjs_jval_destroy jstat)
    (bnd (iotjs_jhelper_call_ok E create_stat JUndefined jargs) (\<lambda>res.
     sq (iotjs_jargs_destroy jargs)
    (sq (iotjs_jval_destroy create_stat)
    (ret res)))))))))))"

text \<open>The array of the names in a directory; \<^verbatim>\<open>uv_fs_scandir_next\<close> gives them one by one.\<close>

definition scandir_array :: "'c engine \<Rightarrow> string list \<Rightarrow> (('c, 'z) rt_scheme, jval) prog" where
  "scandir_array E names =
     bnd (iotjs_jval_create_array E) (\<lambda>arr.
     sq (for_each (enumerate 0 names) (\<lambda>(idx, name).
           bnd (iotjs_jval_create_string_raw name) (\<lambda>jname.
           sq (iotjs_jval_set_property_by_index E arr idx jname)
           (iotjs_jval_destroy jname))))
     (ret arr))"

section \<open>Completion\<close>

definition AfterAsync :: "call engine \<Rightarrow> (int \<Rightarrow> string) \<Rightarrow> uv_fs_t \<Rightarrow> ((call, 'z) wrt_scheme, unit) prog" where
  "AfterAsync E strerror req =
     (let req_wrap = req_ptr req in
      sq (IOTJS_ASSERT ''AfterAsync'' (req_wrap \<noteq> 0))
     (sq (IOTJS_ASSERT ''AfterAsync'' (iotjs_fs_reqwrap_req req_wrap = req_ptr req))
     (bnd (iotjs_fs_reqwrap_jcallback req_wrap) (\<lambda>cb.
      sq (IOTJS_ASSERT ''AfterAsync'' (is_function cb))
     (bnd (iotjs_jargs_create 2) (\<lambda>jarg.
      bnd (if req_result req < 0
           then bnd (iotjs_create_uv_exception E strerror (req_result req) ''open'') (\<lambda>jerror.
                bnd (iotjs_jargs_append_jval jarg jerror) (\<lambda>jarg.
                sq (iotjs_jval_destroy jerror) (ret jarg)))
           else bnd (iotjs_jargs_append_null jarg) (\<lambda>jarg.
                if fs_type req = UV_FS_CLOSE then ret jarg
                else if fs_type req \<in> {UV_FS_OPEN, UV_FS_READ, UV_FS_WRITE}
                then iotjs_jargs_append_number jarg (num (req_result req))
                else if fs_type req = UV_FS_SCANDIR
                then bnd (scandir_array E (dirents req)) (\<lambda>arr.
                     bnd (iotjs_jargs_append_jval jarg arr) (\<lambda>jarg.
                     sq (iotjs_jval_destroy arr) (ret jarg)))
                else if fs_type req = UV_FS_STAT
                then bnd (MakeStatObject E (statbuf req)) (\<lambda>obj.
                     bnd (iotjs_jargs_append_jval jarg obj) (\<lambda>jarg.
                     sq (iotjs_jval_destroy obj) (ret jarg)))
                else iotjs_jargs_append_null jarg)) (\<lambda>jarg.
      sq (iotjs_make_callback E cb JUndefined jarg)
     (sq (iotjs_jargs_destroy jarg)
     (iotjs_fs_reqwrap_dispatched E req_wrap)))))))))"

definition AfterSync ::
  "'c engine \<Rightarrow> (int \<Rightarrow> string) \<Rightarrow> uv_fs_t \<Rightarrow> int \<Rightarrow> string \<Rightarrow> (('c, 'z) mrt_scheme, unit) prog" where
  "AfterSync E strerror req err name =
     (if err < 0
      then bnd (iotjs_create_uv_exception E strerror err name) (\<lambda>jerror.
           sq (iotjs_jhandler_throw jerror) (iotjs_jval_destroy jerror))
      else if fs_type req = UV_FS_CLOSE then ret ()
      else if fs_type req \<in> {UV_FS_OPEN, UV_FS_READ, UV_FS_WRITE}
      then iotjs_jhandler_return_number (num err)
      else if fs_type req = UV_FS_STAT
      then bnd (MakeStatObject E (statbuf req)) (\<lambda>obj.
           sq (iotjs_jhandler_return_jval obj) (iotjs_jval_destroy obj))
      else if fs_type req \<in> {UV_FS_MKDIR, UV_FS_RMDIR, UV_FS_UNLINK, UV_FS_RENAME}
      then iotjs_jhandler_return_undefined
      else if fs_type req = UV_FS_SCANDIR
      then bnd (scandir_array E (dirents req)) (\<lambda>arr.
           sq (iotjs_jhandler_return_jval arr) (iotjs_jval_destroy arr))
      else IOTJS_ASSERT ''AfterSync'' False)"

section \<open>Submission\<close>

text \<open>
  The two macros. A call of libuv without a callback carries the request out; with one it accepts
  or refuses it.
\<close>

definition FS_SYNC :: "call engine \<Rightarrow> fs_lib \<Rightarrow> fs_op \<Rightarrow> ((call, 'z) bst_scheme, unit) prog" where
  "FS_SYNC E L op =
     bnd iotjs_environment_loop (\<lambda>loop.
     bnd (sys E (UvFs loop None op)) (\<lambda>err.
     bnd (gets (\<lambda>s. lib_answer L (trace s))) (\<lambda>ans.
     sq (uv_fs_memory op err (ans_data ans))
    (sq (AfterSync E (lib_strerror L)
           \<lparr>req_ptr = 0, fs_type = type_of_op op, req_result = err, statbuf = ans_stat ans,
            dirents = ans_names ans\<rparr> err (syscall_name op))
    (bnd (sys E (UvFs None None FsCleanup)) (\<lambda>_. ret ()))))))"

definition FS_ASYNC :: "call engine \<Rightarrow> fs_lib \<Rightarrow> jval \<Rightarrow> fs_op \<Rightarrow> ((call, 'z) fst_scheme, unit) prog" where
  "FS_ASYNC E L pcallback op =
     bnd (iotjs_fs_reqwrap_create pcallback) (\<lambda>req_wrap.
     bnd iotjs_environment_loop (\<lambda>loop.
     bnd (sys E (UvFs loop (Some (iotjs_fs_reqwrap_req req_wrap)) op)) (\<lambda>err.
     sq (if err < 0
         then bnd (gets (\<lambda>s. lib_answer L (trace s))) (\<lambda>ans.
              AfterAsync E (lib_strerror L)
                \<lparr>req_ptr = iotjs_fs_reqwrap_req req_wrap, fs_type = type_of_op op, req_result = err,
                 statbuf = ans_stat ans, dirents = ans_names ans\<rparr>)
         else upd (\<lambda>s. s\<lparr>pend := (pend s)(req_wrap \<mapsto> op)\<rparr>))
     iotjs_jhandler_return_null)))"

text \<open>The completion of an accepted request by libuv, which calls \<^verbatim>\<open>AfterAsync\<close>.\<close>

definition uv_fs_done ::
  "call engine \<Rightarrow> fs_lib \<Rightarrow> nat \<Rightarrow> int \<Rightarrow> fs_answer \<Rightarrow> ((call, 'z) fst_scheme, unit) prog" where
  "uv_fs_done E L p res ans =
     bnd (gets (\<lambda>s. pend s p)) (\<lambda>op.
     case op of
       None \<Rightarrow> fail (Undefined ''uv_fs_t'')
     | Some op \<Rightarrow>
         sq (upd (\<lambda>s. s\<lparr>pend := (pend s)(p := None)\<rparr>))
        (sq (uv_fs_memory op res (ans_data ans))
        (AfterAsync E (lib_strerror L)
           \<lparr>req_ptr = p, fs_type = type_of_op op, req_result = res, statbuf = ans_stat ans,
            dirents = ans_names ans\<rparr>)))"

text \<open>The branch of every handler on its callback, as the condition in the code.\<close>

abbreviation FS_CALL ::
  "call engine \<Rightarrow> fs_lib \<Rightarrow> jval option \<Rightarrow> fs_op \<Rightarrow> ((call, 'z) fst_scheme, unit) prog" where
  "FS_CALL E L jcallback op \<equiv>
     (case jcallback of Some cb \<Rightarrow> FS_ASYNC E L cb op | None \<Rightarrow> FS_SYNC E L op)"

section \<open>Handlers\<close>

definition Close_fs :: "call engine \<Rightarrow> fs_lib \<Rightarrow> ((call, 'z) fst_scheme, unit) prog" where
  "Close_fs E L =
     JHANDLER_CHECK_THIS E ''___Close_native'' is_object
    (JHANDLER_CHECK_ARGS E ''___Close_native'' [is_number]
    (JHANDLER_CHECK_ARG_IF_EXIST E ''___Close_native'' 1 is_function
    (bnd iotjs_environment_get (\<lambda>_.
     bnd (JHANDLER_GET_INT 0) (\<lambda>fd.
     bnd (JHANDLER_GET_ARG_IF_EXIST 1 is_function) (\<lambda>jcallback.
     FS_CALL E L jcallback (FsClose fd)))))))"

definition Open_fs :: "call engine \<Rightarrow> fs_lib \<Rightarrow> ((call, 'z) fst_scheme, unit) prog" where
  "Open_fs E L =
     JHANDLER_CHECK_THIS E ''___Open_native'' is_object
    (JHANDLER_CHECK_ARGS E ''___Open_native'' [is_string, is_number, is_number]
    (JHANDLER_CHECK_ARG_IF_EXIST E ''___Open_native'' 3 is_function
    (bnd iotjs_environment_get (\<lambda>_.
     bnd (JHANDLER_GET_ARG 0 iotjs_jval_as_string) (\<lambda>path.
     bnd (JHANDLER_GET_INT 1) (\<lambda>flags.
     bnd (JHANDLER_GET_INT 2) (\<lambda>mode.
     bnd (JHANDLER_GET_ARG_IF_EXIST 3 is_function) (\<lambda>jcallback.
     sq (FS_CALL E L jcallback (FsOpen (string_text path) flags mode))
    (iotjs_string_destroy path)))))))))"

text \<open>
  \<^verbatim>\<open>Read\<close> and \<^verbatim>\<open>Write\<close> check the range of the buffer in signed 32-bit arithmetic. A sum that does
  not fit is undefined in C, and a negative offset points outside the block; a negative length is
  converted to unsigned.
\<close>

definition buffer_range ::
  "'c engine \<Rightarrow> int \<Rightarrow> int \<Rightarrow> int \<Rightarrow> (nat \<Rightarrow> nat \<Rightarrow> (('c, 'z) hrt_scheme, unit) prog) \<Rightarrow>
     (('c, 'z) hrt_scheme, unit) prog" where
  "buffer_range E offset len data_length use =
     (if offset \<ge> data_length then JHANDLER_THROW E IOTJS_ERROR_RANGE ''offset out of bound''
      else if \<not> in_int32 (offset + len) then fail (Undefined ''signed overflow'')
      else if offset + len > data_length then JHANDLER_THROW E IOTJS_ERROR_RANGE ''length out of bound''
      else if offset < 0 then fail (OutOfBounds ''data + offset'')
      else use (nat offset) (nat (c_uint32 len)))"

definition Read_fs :: "call engine \<Rightarrow> fs_lib \<Rightarrow> ((call, 'z) fst_scheme, unit) prog" where
  "Read_fs E L =
     JHANDLER_CHECK_THIS E ''___Read_native'' is_object
    (JHANDLER_CHECK_ARGS E ''___Read_native'' [is_number, is_object, is_number, is_number, is_number]
    (JHANDLER_CHECK_ARG_IF_EXIST E ''___Read_native'' 5 is_function
    (bnd iotjs_environment_get (\<lambda>_.
     bnd (JHANDLER_GET_INT 0) (\<lambda>fd.
     bnd (JHANDLER_GET_ARG 1 iotjs_jval_as_object) (\<lambda>jbuffer.
     bnd (JHANDLER_GET_INT 2) (\<lambda>offset.
     bnd (JHANDLER_GET_INT 3) (\<lambda>len.
     bnd (JHANDLER_GET_INT 4) (\<lambda>position.
     bnd (JHANDLER_GET_ARG_IF_EXIST 5 is_function) (\<lambda>jcallback.
     bnd (iotjs_bufferwrap_from_jbuffer E jbuffer) (\<lambda>buffer_wrap.
     bnd (iotjs_bufferwrap_buffer buffer_wrap) (\<lambda>data.
     bnd (iotjs_bufferwrap_length E buffer_wrap) (\<lambda>data_length.
     JHANDLER_CHECK E ''___Read_native'' (data \<noteq> None)
    (JHANDLER_CHECK E ''___Read_native'' (c_int32 (int data_length) > 0)
    (buffer_range E offset len (c_int32 (int data_length)) (\<lambda>off n.
     FS_CALL E L jcallback (FsRead fd buffer_wrap off n position)))))))))))))))))"

definition Write_fs :: "call engine \<Rightarrow> fs_lib \<Rightarrow> ((call, 'z) fst_scheme, unit) prog" where
  "Write_fs E L =
     JHANDLER_CHECK_THIS E ''___Write_native'' is_object
    (JHANDLER_CHECK_ARGS E ''___Write_native'' [is_number, is_object, is_number, is_number, is_number]
    (JHANDLER_CHECK_ARG_IF_EXIST E ''___Write_native'' 5 is_function
    (bnd iotjs_environment_get (\<lambda>_.
     bnd (JHANDLER_GET_INT 0) (\<lambda>fd.
     bnd (JHANDLER_GET_ARG 1 iotjs_jval_as_object) (\<lambda>jbuffer.
     bnd (JHANDLER_GET_INT 2) (\<lambda>offset.
     bnd (JHANDLER_GET_INT 3) (\<lambda>len.
     bnd (JHANDLER_GET_INT 4) (\<lambda>position.
     bnd (JHANDLER_GET_ARG_IF_EXIST 5 is_function) (\<lambda>jcallback.
     bnd (iotjs_bufferwrap_from_jbuffer E jbuffer) (\<lambda>buffer_wrap.
     bnd (iotjs_bufferwrap_buffer buffer_wrap) (\<lambda>data.
     bnd (iotjs_bufferwrap_length E buffer_wrap) (\<lambda>data_length.
     JHANDLER_CHECK E ''___Write_native'' (data \<noteq> None)
    (JHANDLER_CHECK E ''___Write_native'' (c_int32 (int data_length) > 0)
    (buffer_range E offset len (c_int32 (int data_length)) (\<lambda>off n.
     FS_CALL E L jcallback (FsWrite fd buffer_wrap off n position)))))))))))))))))"

definition Stat :: "call engine \<Rightarrow> fs_lib \<Rightarrow> ((call, 'z) fst_scheme, unit) prog" where
  "Stat E L =
     JHANDLER_CHECK_THIS E ''___Stat_native'' is_object
    (JHANDLER_CHECK_ARGS E ''___Stat_native'' [is_string]
    (JHANDLER_CHECK_ARG_IF_EXIST E ''___Stat_native'' 1 is_function
    (bnd iotjs_environment_get (\<lambda>_.
     bnd (JHANDLER_GET_ARG 0 iotjs_jval_as_string) (\<lambda>path.
     bnd (JHANDLER_GET_ARG_IF_EXIST 1 is_function) (\<lambda>jcallback.
     sq (FS_CALL E L jcallback (FsStat (string_text path)))
    (iotjs_string_destroy path)))))))"

definition MkDir :: "call engine \<Rightarrow> fs_lib \<Rightarrow> ((call, 'z) fst_scheme, unit) prog" where
  "MkDir E L =
     JHANDLER_CHECK_THIS E ''___MkDir_native'' is_object
    (JHANDLER_CHECK_ARGS E ''___MkDir_native'' [is_string, is_number]
    (JHANDLER_CHECK_ARG_IF_EXIST E ''___MkDir_native'' 2 is_function
    (bnd iotjs_environment_get (\<lambda>_.
     bnd (JHANDLER_GET_ARG 0 iotjs_jval_as_string) (\<lambda>path.
     bnd (JHANDLER_GET_INT 1) (\<lambda>mode.
     bnd (JHANDLER_GET_ARG_IF_EXIST 2 is_function) (\<lambda>jcallback.
     sq (FS_CALL E L jcallback (FsMkdir (string_text path) mode))
    (iotjs_string_destroy path))))))))"

definition RmDir :: "call engine \<Rightarrow> fs_lib \<Rightarrow> ((call, 'z) fst_scheme, unit) prog" where
  "RmDir E L =
     JHANDLER_CHECK_THIS E ''___RmDir_native'' is_object
    (JHANDLER_CHECK_ARGS E ''___RmDir_native'' [is_string]
    (JHANDLER_CHECK_ARG_IF_EXIST E ''___RmDir_native'' 1 is_function
    (bnd iotjs_environment_get (\<lambda>_.
     bnd (JHANDLER_GET_ARG 0 iotjs_jval_as_string) (\<lambda>path.
     bnd (JHANDLER_GET_ARG_IF_EXIST 1 is_function) (\<lambda>jcallback.
     sq (FS_CALL E L jcallback (FsRmdir (string_text path)))
    (iotjs_string_destroy path)))))))"

definition Unlink :: "call engine \<Rightarrow> fs_lib \<Rightarrow> ((call, 'z) fst_scheme, unit) prog" where
  "Unlink E L =
     JHANDLER_CHECK_THIS E ''___Unlink_native'' is_object
    (JHANDLER_CHECK_ARGS E ''___Unlink_native'' [is_string]
    (JHANDLER_CHECK_ARG_IF_EXIST E ''___Unlink_native'' 1 is_function
    (bnd iotjs_environment_get (\<lambda>_.
     bnd (JHANDLER_GET_ARG 0 iotjs_jval_as_string) (\<lambda>path.
     bnd (JHANDLER_GET_ARG_IF_EXIST 1 is_function) (\<lambda>jcallback.
     sq (FS_CALL E L jcallback (FsUnlink (string_text path)))
    (iotjs_string_destroy path)))))))"

definition Rename :: "call engine \<Rightarrow> fs_lib \<Rightarrow> ((call, 'z) fst_scheme, unit) prog" where
  "Rename E L =
     JHANDLER_CHECK_THIS E ''___Rename_native'' is_object
    (JHANDLER_CHECK_ARGS E ''___Rename_native'' [is_string, is_string]
    (JHANDLER_CHECK_ARG_IF_EXIST E ''___Rename_native'' 2 is_function
    (bnd iotjs_environment_get (\<lambda>_.
     bnd (JHANDLER_GET_ARG 0 iotjs_jval_as_string) (\<lambda>oldPath.
     bnd (JHANDLER_GET_ARG 1 iotjs_jval_as_string) (\<lambda>newPath.
     bnd (JHANDLER_GET_ARG_IF_EXIST 2 is_function) (\<lambda>jcallback.
     sq (FS_CALL E L jcallback (FsRename (string_text oldPath) (string_text newPath)))
    (sq (iotjs_string_destroy oldPath)
    (iotjs_string_destroy newPath)))))))))"

definition ReadDir :: "call engine \<Rightarrow> fs_lib \<Rightarrow> ((call, 'z) fst_scheme, unit) prog" where
  "ReadDir E L =
     JHANDLER_CHECK_THIS E ''___ReadDir_native'' is_object
    (JHANDLER_CHECK_ARGS E ''___ReadDir_native'' [is_string]
    (JHANDLER_CHECK_ARG_IF_EXIST E ''___ReadDir_native'' 2 is_function
    (bnd iotjs_environment_get (\<lambda>_.
     bnd (JHANDLER_GET_ARG 0 iotjs_jval_as_string) (\<lambda>path.
     bnd (JHANDLER_GET_ARG_IF_EXIST 2 is_function) (\<lambda>jcallback.
     sq (FS_CALL E L jcallback (FsScandir (string_text path)))
    (iotjs_string_destroy path)))))))"

definition InitFs :: "'c engine \<Rightarrow> (('c, 'z) rt_scheme, jval) prog" where
  "InitFs E =
     bnd (iotjs_jval_create_object E) (\<lambda>fs.
     sq (set_methods E fs [''close'', ''open'', ''read'', ''write'', ''stat'', ''mkdir'', ''rmdir'',
           ''unlink'', ''rename'', ''readdir''])
    (ret fs))"

interpretation fs_module: module_init E "InitFs E" for E :: "'c engine"
proof unfold_locales
  fix s :: "('c, 'b) rt_scheme"
  assume E: "sets_ok E"
  show "wp (InitFs E) (\<lambda>v t. is_object v \<and> gives s v t) s"
    unfolding InitFs_def by (rule gives_object) (rule quiet_set_methods[OF E], simp)
qed

end
