(* ===== verification/Iot_Fs_Steps.thy ===== *)
theory Iot_Fs_Steps
  imports Iot_Fs
begin

text \<open>
  What one operation on files does: the rules for the values of a result (\<^verbatim>\<open>MakeStatObject\<close>, the array
  of names), for the two completions \<^verbatim>\<open>AfterAsync\<close> and \<^verbatim>\<open>AfterSync\<close>, for \<^verbatim>\<open>FS_SYNC\<close> and
  \<^verbatim>\<open>FS_ASYNC\<close>, and for each of the ten handlers. \<open>fs_effect\<close> states the outcome of a request once,
  for all of them.
\<close>

section \<open>Rules\<close>

interpretation fs_req: request_wrapper
  iotjs_fs_reqwrap_create "iotjs_fs_reqwrap_dispatched E" iotjs_fs_reqwrap_jcallback for E
proof unfold_locales
  fix s :: "(call, 'z) wrt_scheme" and p cb
  assume s: "wraps_wf s" "reqs s p = Some cb"
  show "wp (iotjs_fs_reqwrap_dispatched E p) (\<lambda>_ t. wraps_wf t \<and> steps s t \<and>
      reqs t = (reqs s)(p := None) \<and> handles t = handles s) s"
    unfolding iotjs_fs_reqwrap_dispatched_def iotjs_fs_reqwrap_destroy_def reqwrap_free_def[symmetric]
  proof (rule sys_bnd[OF quiet_refl])
    fix r and t :: "(call, 'z) wrt_scheme"
    assume q: "quiet s t"
    have "wraps_wf t" "reqs t p = Some cb" using s quiet_wf[OF q] quiet_fields(2)[OF q] by simp_all
    from reqwrap_free_wp[OF this]
    show "wp (reqwrap_free p) (\<lambda>_ t. wraps_wf t \<and> steps s t \<and> reqs t = (reqs s)(p := None) \<and>
        handles t = handles s) t"
      by (rule wp_mono) (use quiet_fields(1,2)[OF q] steps_trans[OF quiet_steps[OF q]] in simp)
  qed
next
  fix s :: "('c, 'z) wrt_scheme" and cb
  assume "wraps_wf s" "is_function cb"
  then show "wp (iotjs_fs_reqwrap_create cb) (\<lambda>p t. wraps_wf t \<and> steps s t \<and> next_ptr s = p \<and> p \<noteq> 0 \<and>
      reqs s p = None \<and> reqs t = (reqs s)(p \<mapsto> cb) \<and> handles t = handles s) s"
    unfolding iotjs_fs_reqwrap_create_def reqwrap_new_def[symmetric] by (rule reqwrap_new_wp)
next
  fix s :: "('c, 'z) wrt_scheme" and p cb
  assume "reqs s p = Some cb"
  then show "wp (iotjs_fs_reqwrap_jcallback p) (\<lambda>j t. j = cb \<and> t = s) s"
    by (simp add: iotjs_fs_reqwrap_jcallback_def wp_simps)
qed

text \<open>Building the arguments of the callback: \<open>owes\<close> counts what the vector and the program hold.\<close>

lemma owes_step:
  "owes s0 d s \<Longrightarrow> (\<And>w. owned tr w = e w) \<Longrightarrow> natives tr = [] \<Longrightarrow>
   owes s0 (\<lambda>w. d w + e w) (s\<lparr>trace := trace s @ tr\<rparr>)"
  by (rule owes_trans) (auto simp: owes_def)

lemma owes_cong: "owes s d t \<Longrightarrow> (\<And>w. d w = e w) \<Longrightarrow> owes s e t"
  by (simp add: owes_def)

lemma owes_append_bnd:
  assumes "owes s0 d s" "length vs < cap"
  shows "(\<And>t. owes s0 (\<lambda>w. d w + ref1 v w) t \<Longrightarrow> wp (f (jargs_of cap (vs @ [v]))) Q t) \<Longrightarrow>
      wp (bnd (iotjs_jargs_append_jval (jargs_of cap vs) v) f) Q s"
    and "(\<And>t. owes s0 (\<lambda>w. d w + ref1 JNull w) t \<Longrightarrow> wp (f (jargs_of cap (vs @ [JNull]))) Q t) \<Longrightarrow>
      wp (bnd (iotjs_jargs_append_null (jargs_of cap vs)) f) Q s"
    and "(\<And>t. owes s0 (\<lambda>w. d w + ref1 (JNumber x) w) t \<Longrightarrow> wp (f (jargs_of cap (vs @ [JNumber x]))) Q t) \<Longrightarrow>
      wp (bnd (iotjs_jargs_append_number (jargs_of cap vs) x) f) Q s"
  using assms by (simp_all add: wp_bnd wp_jargs_append_jval wp_jargs_append owes_step)

text \<open>The block of a vector, from its creation to its end.\<close>

lemma owes_jargs_bnd:
  assumes "owes s d t" "0 < cap" "\<And>t. owes (charge 1 s) d t \<Longrightarrow> wp (f (jargs_of cap [])) Q t"
  shows "wp (bnd (iotjs_jargs_create cap) f) Q t"
proof -
  have "owes (charge 1 s) d (t\<lparr>blocks := blocks t + 1\<rparr>)"
    using assms(1) unfolding owes_def charge_def by (elim exE conjE, rule_tac x = tr in exI) simp
  then show ?thesis using assms(2,3) by (simp add: wp_bnd wp_jargs_create)
qed

lemma owes_jargs_destroy:
  assumes "owes (charge 1 s) d t" "vs \<noteq> []" "length vs \<le> cap"
  shows "wp (iotjs_jargs_destroy (jargs_of cap vs)) (\<lambda>_. owes s (\<lambda>w. d w - int (count_list vs w))) t"
proof -
  from assms(1) obtain tr where t: "t = (charge 1 s)\<lparr>trace := trace s @ tr\<rparr>"
    "\<And>w. owned tr w = d w" "natives tr = []"
    by (auto simp: owes_def)
  have "owes s (\<lambda>w. d w - int (count_list vs w))
    (t\<lparr>trace := trace t @ map ERelease vs, blocks := blocks t - 1\<rparr>)"
    unfolding owes_def using t
    by (intro exI[of _ "tr @ map ERelease vs"] conjI) (simp_all add: charge_def)
  then show ?thesis using assms(2,3) by (simp add: wp_jargs_destroy)
qed

lemma owes_exception_bnd:
  assumes "owes s0 d s" "\<And>n t. owes s0 (\<lambda>w. d w + ref1 (JObject n) w) t \<Longrightarrow> wp (f (JObject n)) Q t"
  shows "wp (bnd (iotjs_create_uv_exception E strerror err name) f) Q s"
  using assms by (simp add: iotjs_create_uv_exception_def wp_bnd wp_jval_create_new owes_step)

lemma owes_bnd:
  assumes "owes s0 d s" "wp m (\<lambda>v t. P v \<and> owes s (ref1 v) t) s"
    and "\<And>v t. P v \<Longrightarrow> owes s0 (\<lambda>w. d w + ref1 v w) t \<Longrightarrow> wp (f v) Q t"
  shows "wp (bnd m f) Q s"
  unfolding wp_bnd by (rule wp_mono[OF assms(2)]) (use owes_trans[OF assms(1)] assms(3) in blast)

lemma scandir_array_wp:
  assumes "sets_ok E"
  shows "wp (scandir_array E names) (\<lambda>v t. is_array v \<and> owes s (ref1 v) t) s"
proof -
  have each: "wp ((\<lambda>(idx, name). bnd (iotjs_jval_create_string_raw name) (\<lambda>jname.
      sq (iotjs_jval_set_property_by_index E (JArray n) idx jname) (iotjs_jval_destroy jname))) x)
    (\<lambda>_. quiet t) t" for n x t
    using assms
    by (cases x) (auto simp: iotjs_jval_set_property_by_index_def set_index_def wp_simps quiet_def intro!: exI)
  show ?thesis
    unfolding scandir_array_def
    apply (rule owes_create_bnd(3)[OF owes_refl])
    apply (rule owes_quiet_sq, assumption, rule quiet_for_each, rule each)
    apply (simp add: wp_ret)
    done
qed

text \<open>What the file module's \<^verbatim>\<open>_createStat\<close> (\<^verbatim>\<open>src/js/fs.js\<close>) has to be: a function that does not throw.\<close>

definition fs_ok :: "'c engine \<Rightarrow> jval \<Rightarrow> bool" where
  "fs_ok E m \<longleftrightarrow> is_object m \<and> m \<noteq> JUndefined \<and>
     (\<forall>tr. \<exists>f. e_prop E tr m ''_createStat'' = (False, f) \<and> is_function f \<and>
        (\<forall>tr x. \<exists>r. e_call E tr f JUndefined [x] = (False, r)))"

lemma MakeStatObject_wp:
  assumes E: "sets_ok E" "fs_ok E (jmodule s MODULE_FS)"
  shows "wp (MakeStatObject E st) (\<lambda>v t. True \<and> owes s (ref1 v) t) s"
proof -
  let ?m = "jmodule s MODULE_FS" and ?n = "''_createStat''"
  have m: "is_object ?m" "?m \<noteq> JUndefined" using E(2) by (simp_all add: fs_ok_def)
  obtain f where f: "e_prop E (trace s @ [ECreate (JString ?n)]) ?m ?n = (False, f)" "is_function f"
    "\<And>tr x. \<exists>r. e_call E tr f JUndefined [x] = (False, r)"
    using E(2) unfolding fs_ok_def by metis
  let ?s = "s\<lparr>trace := trace s @ [ECreate (JString ?n), EGetProp ?m ?n f, ERelease (JString ?n)]\<rparr>"
  have s: "owes s (ref1 f) ?s" unfolding owes_def by (intro exI conjI, rule refl) auto
  have call: "wp (bnd (iotjs_jhelper_call_ok E f JUndefined (jargs_of 1 [j])) g) Q t"
    if "owes s0 d t" "\<And>r t. owes s0 (\<lambda>w. d w + ref1 r w) t \<Longrightarrow> wp (g r) Q t" for s0 d g Q j and t :: "('a, 'b) mrt_scheme"
  proof -
    obtain r where "e_call E (trace t) f JUndefined [j] = (False, r)" using f(3) by blast
    then show ?thesis using that f(2)
      by (simp add: wp_bnd iotjs_jhelper_call_ok_def wp_simps owes_step)
  qed
  show ?thesis
    unfolding MakeStatObject_def
    apply (simp only: wp_bnd[of "iotjs_module_get _"] wp_module_get m simp_thms)
    apply (simp only: wp_bnd[of "iotjs_jval_get_property _ _ _"] wp_get_property m(1) f(1) prod.case if_False simp_thms)
    apply (simp only: wp_sq[of "IOTJS_ASSERT _ _"] wp_assert f(2) simp_thms)
    apply (rule owes_create_bnd(1)[OF s])
    apply (rule owes_quiet_sq, assumption, rule quiet_for_each)
     apply (simp add: case_prod_beta, rule quiet_set_property(2)[OF E(1)], simp)
    apply (rule owes_jargs_bnd, assumption, simp)
    apply (rule owes_append_bnd(1), assumption, simp)
    apply (rule owes_destroy_sq, assumption)
    apply (simp only: append_Nil)
    apply (rule call, assumption)
    apply (unfold wp_sq[of "iotjs_jargs_destroy _"])
    apply (rule wp_mono[OF owes_jargs_destroy], assumption, simp, simp)
    apply (rule owes_destroy_sq, assumption)
    apply (simp only: wp_ret simp_thms)
    apply (erule owes_cong, simp)
    done
qed

section \<open>Completing a request\<close>

text \<open>The arguments of the callback for the result of a request.\<close>

definition async_values :: "uv_fs_t \<Rightarrow> jval list \<Rightarrow> bool" where
  "async_values req vs \<longleftrightarrow>
     (if req_result req < 0 then \<exists>n. vs = [JObject n]
      else if fs_type req = UV_FS_CLOSE then vs = [JNull]
      else if fs_type req \<in> {UV_FS_OPEN, UV_FS_READ, UV_FS_WRITE}
      then vs = [JNull, JNumber (num (req_result req))]
      else if fs_type req = UV_FS_SCANDIR then \<exists>a. vs = [JNull, a] \<and> is_array a
      else if fs_type req = UV_FS_STAT then \<exists>v. vs = [JNull, v]
      else vs = [JNull, JNull])"

text \<open>The callback has been called with \<open>vs\<close>.\<close>

definition called_back :: "jval \<Rightarrow> jval list \<Rightarrow> ('c, 'z) rt_scheme \<Rightarrow> ('c, 'z) rt_scheme \<Rightarrow> bool" where
  "called_back cb vs s t \<longleftrightarrow>
     (\<exists>pre th r post. trace t = trace s @ pre @ ECall cb JUndefined vs th r # post)"

lemma called_back_more: "called_back cb vs s t \<Longrightarrow> trace u = trace t @ tr \<Longrightarrow> called_back cb vs s u"
  unfolding called_back_def by (elim exE, rule_tac x = pre in exI) auto

lemma make_callback_ready:
  fixes s :: "('c, 'z) mrt_scheme"
  assumes u: "owes (charge 1 s) (\<lambda>v. int (count_list vs v)) u" and vs: "vs \<noteq> []" "length vs \<le> cap"
    and E: "process_module E s" "is_object f"
  shows "wp (sq (iotjs_make_callback E f JUndefined (jargs_of cap vs)) (iotjs_jargs_destroy (jargs_of cap vs)))
    (\<lambda>_ t. quiet s t \<and> called_back f vs s t) u"
proof -
  from u obtain tr where tr: "u = (charge 1 s)\<lparr>trace := trace s @ tr\<rparr>" by (auto simp: owes_def)
  then have "process_module E u" using E(1) by (simp add: charge_def)
  from make_callback_wp[OF this E(2), of "jargs_of cap vs" vs JUndefined]
  have "wp (iotjs_make_callback E f JUndefined (jargs_of cap vs)) (\<lambda>_. called f JUndefined vs u) u" by simp
  then show ?thesis
    unfolding wp_sq
  proof (rule wp_mono)
    fix x and w :: "('c, 'z) mrt_scheme"
    assume c: "called f JUndefined vs u w"
    have w: "owes (charge 1 s) (\<lambda>v. int (count_list vs v)) w"
      using owes_trans[OF u] called_quiet[OF c] by (force simp: quiet_owes)
    from c obtain th r post where p: "trace w = trace u @ ECall f JUndefined vs th r # post"
      by (auto simp: called_def)
    have "wp (iotjs_jargs_destroy (jargs_of cap vs)) (\<lambda>_ t. trace t = trace w @ map ERelease vs) w"
      using vs by (simp add: wp_jargs_destroy)
    from wp_conj[OF owes_jargs_destroy[OF w vs] this]
    show "wp (iotjs_jargs_destroy (jargs_of cap vs)) (\<lambda>_ t. quiet s t \<and> called_back f vs s t) w"
    proof (rule wp_mono, elim conjE, intro conjI)
      fix y and t :: "('c, 'z) mrt_scheme" assume "owes s (\<lambda>v. int (count_list vs v) - int (count_list vs v)) t"
      then show "quiet s t" by (simp add: quiet_owes)
    next
      fix y and t :: "('c, 'z) mrt_scheme" assume t: "trace t = trace w @ map ERelease vs"
      show "called_back f vs s t"
        unfolding called_back_def
        by (intro exI[of _ tr] exI[of _ th] exI[of _ r] exI[of _ "post @ map ERelease vs"])
          (simp add: t p tr charge_def)
    qed
  qed
qed

lemma AfterAsync_wp:
  fixes s :: "(call, 'z) wrt_scheme"
  assumes inv: "net_inv E s" "sets_ok E" "fs_ok E (jmodule s MODULE_FS)"
    and req: "reqs s (req_ptr req) = Some cb"
  shows "wp (AfterAsync E strerror req) (\<lambda>_ t. wraps_wf t \<and> steps s t \<and>
    reqs t = (reqs s)(req_ptr req := None) \<and> handles t = handles s \<and>
    (\<exists>vs. async_values req vs \<and> called_back cb vs s t)) s"
proof -
  let ?p = "req_ptr req"
  let ?Q = "\<lambda>_ t. wraps_wf t \<and> steps s t \<and> reqs t = (reqs s)(?p := None) \<and> handles t = handles s \<and>
    (\<exists>vs. async_values req vs \<and> called_back cb vs s t)"
  have wf: "wraps_wf s" and pm: "process_module E s" using inv(1) by (simp_all add: net_inv_def)
  have cb: "is_function cb" "?p \<noteq> 0" using wf req by (auto simp: wraps_wf_def)
  have fin: "wp (sq (iotjs_make_callback E cb JUndefined (jargs_of 2 vs))
      (sq (iotjs_jargs_destroy (jargs_of 2 vs)) (iotjs_fs_reqwrap_dispatched E ?p))) ?Q u"
    if d: "owes (charge 1 s) d u" and vs: "async_values req vs" and c: "\<And>v. d v = int (count_list vs v)"
    for vs d u
  proof -
    have u: "owes (charge 1 s) (\<lambda>v. int (count_list vs v)) u" using owes_cong[OF d c] .
    have n: "vs \<noteq> []" "length vs \<le> 2" using vs by (auto simp: async_values_def split: if_splits)
    have "wp (sq (iotjs_make_callback E cb JUndefined (jargs_of 2 vs)) (iotjs_jargs_destroy (jargs_of 2 vs)))
      (\<lambda>_. wp (iotjs_fs_reqwrap_dispatched E ?p) ?Q) u"
    proof (rule wp_mono[OF make_callback_ready[OF u n pm]], rule is_function_object[OF cb(1)], elim conjE)
      fix x t
      assume q: "quiet s t" and c: "called_back cb vs s t"
      have t: "wraps_wf t" "reqs t ?p = Some cb" using wf req quiet_wf[OF q] quiet_fields(2)[OF q] by simp_all
      show "wp (iotjs_fs_reqwrap_dispatched E ?p) ?Q t"
      proof (rule wp_mono[OF fs_req.dispatched_law[OF t]], elim conjE, intro conjI)
        fix y w
        assume w: "wraps_wf w" "steps t w" "reqs w = (reqs t)(?p := None)" "handles w = handles t"
        then show "wraps_wf w" "steps s w" "reqs w = (reqs s)(?p := None)" "handles w = handles s"
          using steps_trans[OF quiet_steps[OF q]] quiet_fields(1,2)[OF q] by simp_all
        from w(2) obtain tr where "trace w = trace t @ tr" by (auto simp: steps_def)
        then have "called_back cb vs s w"
          by (rule called_back_more[OF c])
        then show "\<exists>vs. async_values req vs \<and> called_back cb vs s w" using vs by blast
      qed
    qed
    then show ?thesis by (simp add: wp_sq)
  qed
  have fs: "fs_ok E (jmodule t MODULE_FS)" if "owes (charge 1 s) d t" for d t
    using inv(3) that by (auto simp: owes_def charge_def)
  show ?thesis
    unfolding AfterAsync_def Let_def
    apply (simp only: wp_sq[of "IOTJS_ASSERT _ _"] wp_assert cb(2) iotjs_fs_reqwrap_req_def simp_thms not_False_eq_True)
    apply (simp only: iotjs_fs_reqwrap_jcallback_def wp_bnd[of "iotjs_reqwrap_jcallback _"] wp_reqwrap_jcallback req)
    apply (simp only: option.inject simp_thms ex_simps wp_sq[of "IOTJS_ASSERT _ _"] wp_assert cb(1))
    apply (rule owes_jargs_bnd[OF owes_refl], simp)
    subgoal premises a for u
    proof -
      note step = owes_append_bnd[where vs = "[]", unfolded append_Nil]
        owes_append_bnd[where vs = "[v]" for v, unfolded append.simps]
      note rules = bnd_assoc bnd_sq bnd_ret_left if_True if_False
      consider (err) "req_result req < 0" | (close) "\<not> req_result req < 0" "fs_type req = UV_FS_CLOSE"
        | (num) "\<not> req_result req < 0" "fs_type req \<noteq> UV_FS_CLOSE" "fs_type req \<in> {UV_FS_OPEN, UV_FS_READ, UV_FS_WRITE}"
        | (dir) "\<not> req_result req < 0" "fs_type req = UV_FS_SCANDIR"
        | (stat) "\<not> req_result req < 0" "fs_type req = UV_FS_STAT"
        | (other) "\<not> req_result req < 0" "fs_type req \<noteq> UV_FS_CLOSE" "fs_type req \<notin> {UV_FS_OPEN, UV_FS_READ, UV_FS_WRITE}"
            "fs_type req \<noteq> UV_FS_SCANDIR" "fs_type req \<noteq> UV_FS_STAT"
        by blast
      then show ?thesis
      proof cases
        case err
        show ?thesis
          apply (simp only: err rules)
          apply (rule owes_exception_bnd[OF a])
          apply (rule step(1), assumption, simp)
          apply (rule owes_destroy_sq, assumption)
          apply (erule fin, use err in \<open>simp add: async_values_def\<close>)
          apply simp
          done
      next
        case close
        show ?thesis
          apply (simp only: close rules simp_thms)
          apply (rule step(2)[OF a], simp)
          apply (erule fin, use close in \<open>simp add: async_values_def\<close>)
          apply simp
          done
      next
        case num
        show ?thesis
          apply (simp only: num rules)
          apply (rule step(2)[OF a], simp)
          apply (rule step(6), assumption, simp)
          apply (erule fin, use num in \<open>simp add: async_values_def\<close>)
          apply simp
          done
      next
        case dir
        show ?thesis
          apply (simp only: dir rules uv_fs_type.distinct insert_iff empty_iff simp_thms)
          apply (rule step(2)[OF a], simp)
          apply (rule owes_bnd, assumption, rule scandir_array_wp[OF inv(2)])
          apply (rule step(4), assumption, simp)
          apply (rule owes_destroy_sq, assumption)
          apply (erule fin, use dir in \<open>simp add: async_values_def\<close>)
          apply simp
          done
      next
        case stat
        show ?thesis
          apply (simp only: stat rules uv_fs_type.distinct insert_iff empty_iff simp_thms)
          apply (rule step(2)[OF a], simp)
          apply (rule owes_bnd, assumption, rule MakeStatObject_wp[OF inv(2) fs], assumption)
          apply (rule step(4), assumption, simp)
          apply (rule owes_destroy_sq, assumption)
          apply (erule fin, use stat in \<open>simp add: async_values_def\<close>)
          apply simp
          done
      next
        case other
        show ?thesis
          apply (simp only: other rules)
          apply (rule step(2)[OF a], simp)
          apply (rule step(5), assumption, simp)
          apply (erule fin, use other in \<open>simp add: async_values_def\<close>)
          apply simp
          done
      qed
    qed
    done
qed

section \<open>The result of a synchronous call\<close>

text \<open>
  \<open>pays s d t\<close>: like \<open>owes\<close>, but the result of the call may have been set; the reference in the
  return slot does not count.
\<close>

definition pays :: "('c, 'z) hrt_scheme \<Rightarrow> (jval \<Rightarrow> int) \<Rightarrow> ('c, 'z) hrt_scheme \<Rightarrow> bool" where
  "pays s d t \<longleftrightarrow> (\<exists>tr r b. t = s\<lparr>trace := trace s @ tr, h_ret := r, h_finished := b\<rparr> \<and> natives tr = [] \<and>
     (\<forall>v. frame_refs t v = frame_refs s v + d v))"

lemma owes_pays: "owes s d t \<Longrightarrow> pays s d t"
proof -
  assume "owes s d t"
  then obtain tr where t: "t = s\<lparr>trace := trace s @ tr\<rparr>" "\<And>w. owned tr w = d w" "natives tr = []"
    by (auto simp: owes_def)
  then show ?thesis
    unfolding pays_def by (intro exI[of _ tr] exI[of _ "h_ret s"] exI[of _ "h_finished s"]) (simp add: frame_refs_def)
qed

lemma pays_cong: "pays s d t \<Longrightarrow> (\<And>w. d w = e w) \<Longrightarrow> pays s e t"
  by (simp add: pays_def)

lemma pays_step:
  "pays s d t \<Longrightarrow> natives es = [] \<Longrightarrow> (\<And>v. owned es v = e v) \<Longrightarrow>
   pays s (\<lambda>v. d v + e v) (t\<lparr>trace := trace t @ es\<rparr>)"
  unfolding pays_def
  by (elim exE conjE, rule_tac x = "tr @ es" in exI, rule_tac x = r in exI, rule_tac x = b in exI)
    (simp add: frame_refs_def)

lemma pays_destroy:
  "pays s d t \<Longrightarrow> (\<And>w. d w = ref1 v w) \<Longrightarrow> wp (iotjs_jval_destroy v) (\<lambda>_ u. pays s (\<lambda>_. 0) u \<and> h_ret u = h_ret t) t"
  using pays_step[of s d t "[ERelease v]" "\<lambda>w. - ref1 v w"] by (simp add: wp_jval_create)

lemma pays_result:
  assumes "owes s d t" "\<not> h_finished s"
  shows "wp (iotjs_jhandler_return_jval v) (\<lambda>_ u. pays s d u \<and> h_ret u = (False, v)) t"
    and "wp (iotjs_jhandler_throw v) (\<lambda>_ u. pays s d u \<and> h_ret u = (True, v)) t"
proof -
  from assms obtain tr where t: "t = s\<lparr>trace := trace s @ tr\<rparr>" "\<And>w. owned tr w = d w" "natives tr = []"
    by (auto simp: owes_def)
  have "pays s d (t\<lparr>trace := trace t @ [ERelease (snd (h_ret t)), EAcquire v], h_ret := (b, v), h_finished := True\<rparr>)" for b
    unfolding pays_def using t
    by (intro exI[of _ "tr @ [ERelease (snd (h_ret t)), EAcquire v]"] exI[of _ "(b, v)"] exI[of _ True])
      (simp add: frame_refs_def)
  then show "wp (iotjs_jhandler_return_jval v) (\<lambda>_ u. pays s d u \<and> h_ret u = (False, v)) t"
    "wp (iotjs_jhandler_throw v) (\<lambda>_ u. pays s d u \<and> h_ret u = (True, v)) t"
    using t(1) assms(2) by (simp_all add: wp_handler_return)
qed

text \<open>What a synchronous call returns or throws.\<close>

definition sync_result :: "uv_fs_t \<Rightarrow> int \<Rightarrow> bool \<times> jval \<Rightarrow> bool \<times> jval \<Rightarrow> bool" where
  "sync_result req err r0 r \<longleftrightarrow>
     (if err < 0 then \<exists>n. r = (True, JObject n)
      else if fs_type req = UV_FS_CLOSE then r = r0
      else if fs_type req \<in> {UV_FS_OPEN, UV_FS_READ, UV_FS_WRITE} then r = (False, JNumber (num err))
      else if fs_type req = UV_FS_STAT then \<exists>v. r = (False, v)
      else if fs_type req = UV_FS_SCANDIR then \<exists>a. r = (False, a) \<and> is_array a
      else r = (False, JUndefined))"

lemma AfterSync_wp:
  fixes s :: "('c, 'z) mrt_scheme"
  assumes E: "sets_ok E" "fs_ok E (jmodule s MODULE_FS)" "\<not> h_finished s" and ty: "fs_type req \<noteq> UV_FS_OTHER"
  shows "wp (AfterSync E strerror req err name) (\<lambda>_ t. pays s (\<lambda>_. 0) t \<and> sync_result req err (h_ret s) (h_ret t)) s"
proof -
  let ?Q = "\<lambda>_ t. pays s (\<lambda>_. 0) t \<and> sync_result req err (h_ret s) (h_ret t)"
  have given: "wp (sq (iotjs_jhandler_return_jval v) (iotjs_jval_destroy v)) ?Q t"
    if "owes s (\<lambda>w. 0 + ref1 v w) t" "sync_result req err (h_ret s) (False, v)" for v t
    unfolding wp_sq
    by (rule wp_mono[OF pays_result(1)[OF that(1) E(3)]], elim conjE, rule wp_mono[OF pays_destroy], assumption)
      (use that(2) in simp_all)
  have thrown: "wp (sq (iotjs_jhandler_throw v) (iotjs_jval_destroy v)) ?Q t"
    if "owes s (\<lambda>w. 0 + ref1 v w) t" "sync_result req err (h_ret s) (True, v)" for v t
    unfolding wp_sq
    by (rule wp_mono[OF pays_result(2)[OF that(1) E(3)]], elim conjE, rule wp_mono[OF pays_destroy], assumption)
      (use that(2) in simp_all)
  have plain: "wp (iotjs_jhandler_return_jval v) ?Q s" if "sync_result req err (h_ret s) (False, v)" for v
    by (rule wp_mono[OF pays_result(1)[OF owes_refl E(3)]]) (use that in simp)
  consider (err) "err < 0" | (close) "\<not> err < 0" "fs_type req = UV_FS_CLOSE"
    | (num) "\<not> err < 0" "fs_type req \<noteq> UV_FS_CLOSE" "fs_type req \<in> {UV_FS_OPEN, UV_FS_READ, UV_FS_WRITE}"
    | (stat) "\<not> err < 0" "fs_type req = UV_FS_STAT"
    | (undef) "\<not> err < 0" "fs_type req \<in> {UV_FS_MKDIR, UV_FS_RMDIR, UV_FS_UNLINK, UV_FS_RENAME}"
    | (dir) "\<not> err < 0" "fs_type req = UV_FS_SCANDIR"
    using ty by (cases "fs_type req") auto
  then show ?thesis
  proof cases
    case err
    then show ?thesis
      unfolding AfterSync_def by (simp only: if_True)
        (rule owes_exception_bnd[OF owes_refl], erule thrown, simp add: sync_result_def)
  next
    case close
    then show ?thesis
      using owes_pays[OF owes_refl, of s] by (simp add: AfterSync_def wp_ret sync_result_def)
  next
    case num
    have "wp (bnd (iotjs_jval_create_number (num err)) (\<lambda>v. sq (iotjs_jhandler_return_jval v) (iotjs_jval_destroy v))) ?Q s"
      unfolding wp_bnd wp_jval_create
      by (rule given, rule owes_step[OF owes_refl]) (use num in \<open>simp_all add: sync_result_def\<close>)
    then show ?thesis
      using num by (simp add: AfterSync_def iotjs_jhandler_return_number_def)
  next
    case stat
    then show ?thesis
      unfolding AfterSync_def by (simp only: if_False if_True uv_fs_type.distinct insert_iff empty_iff simp_thms)
        (rule owes_bnd[OF owes_refl MakeStatObject_wp[OF E(1,2)]], erule given, simp add: sync_result_def)
  next
    case undef
    then show ?thesis
      using plain[of JUndefined] by (auto simp: AfterSync_def iotjs_jhandler_return_undefined_def sync_result_def)
  next
    case dir
    then show ?thesis
      unfolding AfterSync_def by (simp only: if_False if_True uv_fs_type.distinct insert_iff empty_iff simp_thms)
        (rule owes_bnd[OF owes_refl scandir_array_wp[OF E(1)]], erule given, simp add: sync_result_def)
  qed
qed

section \<open>The memory of a request\<close>

text \<open>Where a request reads or writes, and the most bytes it may: the part of a block it was given.\<close>

fun op_range :: "fs_op \<Rightarrow> (nat \<times> nat \<times> nat) option" where
  "op_range (FsRead _ p off len _) = Some (p, off, len)"
| "op_range (FsWrite _ p off len _) = Some (p, off, len)"
| "op_range _ = None"

definition op_fits :: "(nat \<Rightarrow> iotjs_bufferwrap_t option) \<Rightarrow> fs_op \<Rightarrow> bool" where
  "op_fits m op \<longleftrightarrow> (\<forall>p off len. op_range op = Some (p, off, len) \<longrightarrow>
     (\<exists>w. m p = Some w \<and> off + len \<le> length (bytes w)))"

definition res_ok :: "fs_op \<Rightarrow> int \<Rightarrow> bool" where
  "res_ok op res \<longleftrightarrow> (\<forall>p off len. op_range op = Some (p, off, len) \<longrightarrow> res \<le> int len)"

text \<open>The system transfers no more bytes than it was asked to.\<close>

definition io_law :: "call engine \<Rightarrow> bool" where
  "io_law E \<longleftrightarrow> (\<forall>tr loop op. res_ok op (e_sys E tr (UvFs loop None op)))"

fun memory_after :: "fs_op \<Rightarrow> int \<Rightarrow> char list \<Rightarrow> (nat \<Rightarrow> iotjs_bufferwrap_t option) \<Rightarrow> nat \<Rightarrow> iotjs_bufferwrap_t option" where
  "memory_after (FsRead _ p off _ _) res data m =
     (if res \<le> 0 then m
      else m(p := map_option (\<lambda>w. w\<lparr>bw_buffer := Some (overlay (bytes w) off (take (nat res) data))\<rparr>) (m p)))"
| "memory_after _ res data m = m"

lemma uv_fs_memory_wp:
  assumes "op_fits (bufs s) op" "res_ok op res"
  shows "wp (uv_fs_memory op res data) (\<lambda>_ t. t = s\<lparr>bufs := memory_after op res data (bufs s)\<rparr>) s"
proof -
  have fits: "\<exists>w. bufs s p = Some w \<and> (0 < res \<longrightarrow> off + nat res \<le> length (bytes w))"
    if op: "op_range op = Some (p, off, len)" for p off len
  proof -
    have "\<exists>w. bufs s p = Some w \<and> off + len \<le> length (bytes w)"
      using assms(1) op unfolding op_fits_def by blast
    moreover have "nat res \<le> len" using assms(2) op unfolding res_ok_def by fastforce
    ultimately show ?thesis by fastforce
  qed
  show ?thesis
  proof (cases op)
    case (FsRead fd p off len pos)
    then obtain w where "bufs s p = Some w" "0 < res \<longrightarrow> off + nat res \<le> length (bytes w)"
      using fits by fastforce
    then show ?thesis using FsRead by (auto simp: uv_fs_memory_def wp_simps)
  next
    case (FsWrite fd p off len pos)
    then obtain w where "bufs s p = Some w" "0 < res \<longrightarrow> off + nat res \<le> length (bytes w)"
      using fits by fastforce
    then show ?thesis using FsWrite by (auto simp: uv_fs_memory_def wp_simps)
  qed (simp_all add: uv_fs_memory_def wp_simps)
qed

text \<open>At most one block is rewritten, at its length.\<close>

lemma memory_after_cases:
  assumes "op_fits m op" "res_ok op res"
  obtains "memory_after op res data m = m"
    | p w cs where "m p = Some w" "bw_buffer w \<noteq> None" "length cs = length (bytes w)"
        "memory_after op res data m = m(p \<mapsto> w\<lparr>bw_buffer := Some cs\<rparr>)"
proof (cases "\<exists>fd p off len pos. op = FsRead fd p off len pos \<and> 0 < res")
  case False
  then have "memory_after op res data m = m" by (cases op) auto
  then show thesis by (rule that(1))
next
  case True
  then obtain fd p off len pos where op: "op = FsRead fd p off len pos" "0 < res" by blast
  obtain w where w: "m p = Some w" "off + len \<le> length (bytes w)"
    using assms(1) op(1) by (auto simp: op_fits_def)
  have "res \<le> int len" using assms(2) op(1) by (simp add: res_ok_def)
  then have n: "off + nat res \<le> length (bytes w)" "0 < nat res" using w(2) op(2) by linarith+
  let ?cs = "overlay (bytes w) off (take (nat res) data)"
  have "length ?cs = length (bytes w)" using n(1) by (intro overlay_length) simp
  moreover have "bw_buffer w \<noteq> None" using n by (cases "bw_buffer w") (simp_all add: bytes_def)
  ultimately show thesis using that(2)[of p w ?cs] w(1) op by simp
qed

lemma op_fits_memory:
  assumes "op_fits m op" "res_ok op res" "op_fits m op'"
  shows "op_fits (memory_after op res data m) op'"
proof (cases rule: memory_after_cases[OF assms(1,2), of data])
  case 1
  then show ?thesis using assms(3) by simp
next
  case (2 p w cs)
  have "bytes (w\<lparr>bw_buffer := Some cs\<rparr>) = cs" by (simp add: bytes_def)
  then show ?thesis using 2 assms(3) by (auto simp: op_fits_def)
qed

lemma buffers_ok_memory:
  fixes s :: "('c, 'z) bst_scheme"
  assumes "op_fits (bufs s) op" "res_ok op res" "buffers_ok E live s"
    and t: "bufs t = memory_after op res data (bufs s)" "native_of (trace t) = native_of (trace s)"
  shows "buffers_ok E live t"
proof (cases rule: memory_after_cases[OF assms(1,2), of data])
  case 1
  then show ?thesis using assms(3) t by (simp add: buffers_ok_def builtin_def)
next
  case (2 p w cs)
  let ?w = "w\<lparr>bw_buffer := Some cs\<rparr>"
  have "\<exists>u. builtin t j q u \<and> js_buffer E jb j u \<and> bw_length u = n"
    if b: "builtin s j q v" "js_buffer E jb j v" "bw_length v = n" for j q jb n v
  proof (cases "q = p")
    case True
    then have v: "v = w" using b(1) 2(1) by (simp add: builtin_def)
    then have "length cs = bw_length w" "buf_wf w" using b(1) 2(3) by (simp_all add: builtin_def buf_wf_def)
    then have "buf_wf ?w" using rewritten_block[of w cs] 2(2) by simp
    then have "builtin t j q ?w" using b(1) v True 2(4) t by (simp add: builtin_def)
    moreover have "js_buffer E jb j ?w" using b(2) v js_buffer_length[of ?w w E jb j] by simp
    ultimately show ?thesis using b(3) v by auto
  next
    case False
    then have "builtin t j q v" using b(1) 2(4) t by (simp add: builtin_def)
    then show ?thesis using b(2,3) by blast
  qed
  then show ?thesis using assms(3) unfolding buffers_ok_def by fast
qed

section \<open>A request of the program\<close>

definition moved :: "('c, 'z) wrt_scheme \<Rightarrow> ('c, 'z) wrt_scheme \<Rightarrow> bool" where
  "moved s t \<longleftrightarrow> wraps_wf t \<and> keeps s t \<and> handles t = handles s \<and> native_of (trace t) = native_of (trace s) \<and>
     env t = env s \<and> env_initialized t = env_initialized s"

lemma moved_trans: "moved s t \<Longrightarrow> moved t u \<Longrightarrow> moved s u"
  unfolding moved_def by (elim conjE) (simp add: keeps_trans[of s t u])

lemma steps_moved: "steps s t \<Longrightarrow> wraps_wf t \<Longrightarrow> handles t = handles s \<Longrightarrow> moved s t"
  by (simp add: moved_def steps_keeps steps_fields fun_eq_iff)

lemma quiet_moved: "quiet s t \<Longrightarrow> wraps_wf s \<Longrightarrow> moved s t"
  using steps_moved[OF quiet_steps[of s t]] quiet_wf[of s t] quiet_fields(1)[of s t] by simp

lemma moved_charge: "moved (charge k s) t \<Longrightarrow> moved s (charge (- k) t)"
  by (auto simp: moved_def intro: keeps_charge)

lemma pays_moved: "pays s (\<lambda>_. 0) t \<Longrightarrow> wraps_wf s \<Longrightarrow> moved s t"
  by (auto simp: pays_def moved_def keeps_def spare_def kept_wraps_def heap_wraps_def wraps_wf_def
      native_of_append fun_eq_iff)

lemma handler_call_moved:
  fixes s :: "('c, 'z) wrt_scheme"
  assumes "wp body (\<lambda>_ z. moved (handler_entry t args s) z \<and> Q z) (handler_entry t args s)"
  obtains z where "JHANDLER_FUNCTION body t args s = Inr (h_ret z, z\<lparr>blocks := blocks z - (if args = [] then 0 else 1)\<rparr>)"
    "moved (handler_entry t args s) z" "Q z"
proof -
  have "wp (JHANDLER_FUNCTION body t args) (\<lambda>r u. \<exists>z. moved (handler_entry t args s) z \<and> Q z \<and> r = h_ret z \<and>
      u = z\<lparr>blocks := blocks z - (if args = [] then 0 else 1)\<rparr>) s"
    unfolding wp_JHANDLER_FUNCTION
    by (rule wp_mono[OF assms]) (auto simp: moved_def keeps_def intro!: exI)
  then show ?thesis using that by (auto simp: wp_runs)
qed

lemma moved_more: "moved s (t\<lparr>bufs := b\<rparr>) = moved s t" "moved s (u\<lparr>pend := q\<rparr>) = moved s u"
  by (simp_all add: moved_def keeps_def spare_def kept_wraps_def heap_wraps_def wraps_wf_def frame_refs_def fun_eq_iff)

text \<open>
  What a call of libuv and what follows it do: the synchronous form has the result of the system and
  the memory it left; the asynchronous one has a new request, or has called back with the error.
\<close>

definition sync_done :: "fs_lib \<Rightarrow> fs_op \<Rightarrow> (call, 'z) fst_scheme \<Rightarrow> (call, 'z) fst_scheme \<Rightarrow> bool" where
  "sync_done L op s t \<longleftrightarrow> reqs t = reqs s \<and> pend t = pend s \<and>
     (\<exists>err pre post. res_ok op err \<and>
        trace t = trace s @ pre @ ESys (UvFs (env_loop (env s)) None op) err # post \<and>
        (let ans = lib_answer L (trace s @ pre @ [ESys (UvFs (env_loop (env s)) None op) err])
         in bufs t = memory_after op err (ans_data ans) (bufs s) \<and>
            sync_result \<lparr>req_ptr = 0, fs_type = type_of_op op, req_result = err, statbuf = ans_stat ans,
              dirents = ans_names ans\<rparr> err (h_ret s) (h_ret t)))"

definition async_done :: "jval \<Rightarrow> fs_op \<Rightarrow> (call, 'z) fst_scheme \<Rightarrow> (call, 'z) fst_scheme \<Rightarrow> bool" where
  "async_done cb op s t \<longleftrightarrow> bufs t = bufs s \<and> h_ret t = (False, JNull) \<and>
     (\<exists>err p. reqs s p = None \<and>
        (\<exists>pre post. trace t = trace s @ pre @ ESys (UvFs (env_loop (env s)) (Some p) op) err # post) \<and>
        (if err < 0 then reqs t = reqs s \<and> pend t = pend s \<and> (\<exists>n. called_back cb [JObject n] s t)
         else reqs t = (reqs s)(p \<mapsto> cb) \<and> pend t = (pend s)(p \<mapsto> op)))"

definition fs_effect :: "fs_lib \<Rightarrow> jval option \<Rightarrow> fs_op \<Rightarrow> (call, 'z) fst_scheme \<Rightarrow> (call, 'z) fst_scheme \<Rightarrow> bool" where
  "fs_effect L jcb op s t \<longleftrightarrow> moved s t \<and>
     (case jcb of None \<Rightarrow> sync_done L op s t | Some cb \<Rightarrow> async_done cb op s t)"

text \<open>The state in which the requests are made.\<close>

definition fs_ready :: "call engine \<Rightarrow> (call, 'z) fst_scheme \<Rightarrow> bool" where
  "fs_ready E s \<longleftrightarrow> net_inv E s \<and> sets_ok E \<and> io_law E \<and> fs_ok E (jmodule s MODULE_FS) \<and> \<not> h_finished s"

lemma fs_ready_moved: "fs_ready E s \<Longrightarrow> moved s t \<Longrightarrow> h_finished t = h_finished s \<Longrightarrow> fs_ready E t"
  by (simp add: fs_ready_def net_inv_def moved_def keeps_def)

lemma FS_SYNC_wp:
  fixes s :: "(call, 'z) fst_scheme"
  assumes inv: "fs_ready E s" and op: "op_fits (bufs s) op" "op \<noteq> FsCleanup"
  shows "wp (FS_SYNC E L op) (\<lambda>_. fs_effect L None op s) s"
proof -
  let ?c = "UvFs (env_loop (env s)) None op"
  let ?err = "e_sys E (trace s) ?c"
  let ?s1 = "s\<lparr>trace := trace s @ [ESys ?c ?err]\<rparr>"
  let ?ans = "lib_answer L (trace ?s1)"
  let ?s2 = "?s1\<lparr>bufs := memory_after op ?err (ans_data ?ans) (bufs s)\<rparr>"
  let ?req = "\<lparr>req_ptr = 0, fs_type = type_of_op op, req_result = ?err, statbuf = ans_stat ?ans,
            dirents = ans_names ?ans\<rparr>"
  have wf: "wraps_wf s" using inv by (simp add: fs_ready_def net_inv_def)
  have r: "res_ok op ?err" using inv by (simp add: fs_ready_def io_law_def)
  have m1: "moved s ?s1" by (rule quiet_moved[OF sys_quiet wf])
  have m2: "moved s ?s2" using m1 by (simp only: moved_more)
  have ready: "fs_ready E ?s2" by (rule fs_ready_moved[OF inv m2]) simp
  have ty: "type_of_op op \<noteq> UV_FS_OTHER" using op(2) by (cases op) simp_all
  have mem: "wp (uv_fs_memory op ?err (ans_data ?ans)) (\<lambda>_ t. t = ?s2) ?s1"
    using uv_fs_memory_wp[of ?s1 op ?err] op(1) r by simp
  have after: "wp (AfterSync E (lib_strerror L) ?req ?err (syscall_name op)) (\<lambda>_ t.
      wp (sys E (UvFs None None FsCleanup)) (\<lambda>_. wp (ret ()) (\<lambda>_. fs_effect L None op s)) t) ?s2"
  proof (rule wp_mono[OF AfterSync_wp])
    fix x and t :: "(call, 'z) fst_scheme"
    assume t: "pays ?s2 (\<lambda>_. 0) t \<and> sync_result ?req ?err (h_ret ?s2) (h_ret t)"
    have mt: "moved s t"
      by (rule moved_trans[OF m2 pays_moved]) (use t m2 in \<open>simp_all add: moved_def\<close>)
    from t obtain tr rt b where eq: "t = ?s2\<lparr>trace := trace ?s2 @ tr, h_ret := rt, h_finished := b\<rparr>"
      by (auto simp: pays_def)
    show "wp (sys E (UvFs None None FsCleanup)) (\<lambda>_. wp (ret ()) (\<lambda>_. fs_effect L None op s)) t"
    proof (simp only: wp_sys wp_ret, unfold fs_effect_def sync_done_def option.case, intro conjI)
      let ?e = "ESys (UvFs None None FsCleanup) (e_sys E (trace t) (UvFs None None FsCleanup)) :: call ev"
      let ?u = "t\<lparr>trace := trace t @ [?e]\<rparr>"
      show "moved s ?u" using moved_trans[OF mt quiet_moved[OF sys_quiet]] mt by (simp add: moved_def)
      show "reqs ?u = reqs s" "pend ?u = pend s" using eq by simp_all
      show "\<exists>err pre post. res_ok op err \<and>
        trace ?u = trace s @ pre @ ESys (UvFs (env_loop (env s)) None op) err # post \<and>
        (let ans = lib_answer L (trace s @ pre @ [ESys (UvFs (env_loop (env s)) None op) err])
         in bufs ?u = memory_after op err (ans_data ans) (bufs s) \<and>
            sync_result \<lparr>req_ptr = 0, fs_type = type_of_op op, req_result = err, statbuf = ans_stat ans,
              dirents = ans_names ans\<rparr> err (h_ret s) (h_ret ?u))"
        by (intro exI[of _ ?err] exI[of _ "[]"] exI[of _ "tr @ [?e]"]) (use eq t r in \<open>simp add: Let_def\<close>)
    qed
  qed (use ready ty in \<open>simp_all add: fs_ready_def\<close>)
  show ?thesis
    unfolding FS_SYNC_def
    by (simp only: wp_bnd wp_sq iotjs_environment_loop_def wp_gets wp_sys)
      (rule wp_mono[OF mem], simp only:, rule after)
qed

lemma return_null_wp:
  fixes s :: "('c, 'z) wrt_scheme"
  assumes "\<not> h_finished s" "wraps_wf s"
  shows "wp iotjs_jhandler_return_null (\<lambda>_ t. moved s t \<and> h_ret t = (False, JNull) \<and> reqs t = reqs s \<and>
    wrt.more t = wrt.more s \<and> (\<exists>tr. trace t = trace s @ tr)) s"
proof -
  have "wp iotjs_jhandler_return_null (\<lambda>_ t. (pays s (\<lambda>_. 0) t \<and> h_ret t = (False, JNull)) \<and>
      reqs t = reqs s \<and> wrt.more t = wrt.more s) s"
    unfolding iotjs_jhandler_return_null_def
    by (rule wp_mono[OF pays_result(1)[OF owes_refl assms(1)]]) (auto simp: pays_def)
  then show ?thesis
    by (rule wp_mono) (use pays_moved[of s] assms(2) in \<open>auto simp: pays_def\<close>)
qed

lemma called_back_less: "trace t = trace s @ pre \<Longrightarrow> called_back cb vs t u \<Longrightarrow> called_back cb vs s u"
  unfolding called_back_def by (elim exE, rule_tac x = "pre @ prea" in exI) simp

lemma fst_more: "wrt.more t = wrt.more s \<Longrightarrow> bufs t = bufs s \<and> pend t = pend s"
  for s t :: "(call, 'z) fst_scheme"
  by (cases s; cases t) simp

lemma FS_ASYNC_wp:
  fixes s :: "(call, 'z) fst_scheme"
  assumes inv: "fs_ready E s" and cb: "is_function cb"
  shows "wp (FS_ASYNC E L cb op) (\<lambda>_. fs_effect L (Some cb) op s) s"
proof -
  have wf: "wraps_wf s" using inv by (simp add: fs_ready_def net_inv_def)
  show ?thesis
    unfolding FS_ASYNC_def wp_bnd[of "iotjs_fs_reqwrap_create _"]
  proof (rule wp_mono[OF fs_req.create_law[OF wf cb]], elim conjE)
    fix p and t :: "(call, 'z) fst_scheme"
    assume t: "wraps_wf t" "steps s t" "next_ptr s = p" "p \<noteq> 0" "reqs s p = None" "reqs t = (reqs s)(p \<mapsto> cb)"
      "handles t = handles s"
    let ?c = "UvFs (env_loop (env s)) (Some p) op"
    let ?err = "e_sys E (trace t) ?c"
    let ?u = "t\<lparr>trace := trace t @ [ESys ?c ?err]\<rparr>"
    have env: "env t = env s" by (rule steps_fields(2)[OF t(2)])
    have q: "quiet t ?u" by (rule sys_quiet)
    have u: "wraps_wf ?u" using t(1) quiet_wf[OF q] by simp
    have su: "steps s ?u" by (rule steps_trans[OF t(2) quiet_steps[OF q]])
    then have mu: "moved s ?u" by (rule steps_moved[OF _ u]) (use t(7) in simp)
    have fin: "\<not> h_finished ?u" using inv steps_fields(4)[OF su] by (simp add: fs_ready_def)
    have ready: "fs_ready E ?u"
      by (rule fs_ready_moved[OF inv mu]) (rule steps_fields(4)[OF su])
    from t(2) obtain pre where pre: "trace t = trace s @ pre" by (auto simp: steps_def)
    have more: "bufs t = bufs s" "pend t = pend s" using t(2) fst_more[of t s] by (simp_all add: steps_def)
    have sys: "\<exists>pre post. trace v = trace s @ pre @ ESys ?c ?err # post" if "trace v = trace ?u @ tr" for v :: "(call, 'z) fst_scheme" and tr
      using that pre by (intro exI[of _ pre] exI[of _ tr]) simp
    show "wp (bnd iotjs_environment_loop (\<lambda>loop.
        bnd (sys E (UvFs loop (Some (iotjs_fs_reqwrap_req p)) op)) (\<lambda>err.
        sq (if err < 0
            then bnd (gets (\<lambda>s. lib_answer L (trace s))) (\<lambda>ans.
                 AfterAsync E (lib_strerror L)
                   \<lparr>req_ptr = iotjs_fs_reqwrap_req p, fs_type = type_of_op op, req_result = err,
                    statbuf = ans_stat ans, dirents = ans_names ans\<rparr>)
            else upd (\<lambda>s. s\<lparr>pend := (pend s)(p \<mapsto> op)\<rparr>))
        iotjs_jhandler_return_null))) (\<lambda>_. fs_effect L (Some cb) op s) t"
    proof (cases "?err < 0")
      case True
      let ?req = "\<lparr>req_ptr = p, fs_type = type_of_op op, req_result = ?err,
        statbuf = ans_stat (lib_answer L (trace ?u)), dirents = ans_names (lib_answer L (trace ?u))\<rparr>"
      have "wp (AfterAsync E (lib_strerror L) ?req)
        (\<lambda>_. wp iotjs_jhandler_return_null (\<lambda>_. fs_effect L (Some cb) op s)) ?u"
      proof (rule wp_mono[OF AfterAsync_wp], use ready in \<open>simp add: fs_ready_def\<close>,
          use ready in \<open>simp add: fs_ready_def\<close>, use ready in \<open>simp add: fs_ready_def\<close>, use t(6) in simp)
        fix x and v :: "(call, 'z) fst_scheme"
        assume v: "wraps_wf v \<and> steps ?u v \<and> reqs v = (reqs ?u)(req_ptr ?req := None) \<and> handles v = handles ?u \<and>
          (\<exists>vs. async_values ?req vs \<and> called_back cb vs ?u v)"
        then have sv: "steps ?u v" "moved s v" using moved_trans[OF mu steps_moved[of ?u v]] by simp_all
        obtain tr where tr: "trace v = trace ?u @ tr" using sv(1) by (auto simp: steps_def)
        obtain n where "called_back cb [JObject n] ?u v" using v True by (auto simp: async_values_def)
        then have called: "called_back cb [JObject n] s v"
          by (rule called_back_less[where pre = "pre @ [ESys ?c ?err]", rotated]) (simp add: pre)
        have "\<not> h_finished v" "wraps_wf v" using fin steps_fields(4)[OF sv(1)] v by simp_all
        from return_null_wp[OF this]
        show "wp iotjs_jhandler_return_null (\<lambda>_. fs_effect L (Some cb) op s) v"
        proof (rule wp_mono, elim conjE exE)
          fix w :: "(call, 'z) fst_scheme" and tr'
          assume w: "moved v w" "h_ret w = (False, JNull)" "reqs w = reqs v" "wrt.more w = wrt.more v" "trace w = trace v @ tr'"
          have "reqs w = reqs s" using w(3) v t(5,6) by (simp add: fun_upd_idem)
          moreover have "bufs w = bufs s" "pend w = pend s"
            using fst_more[OF w(4)] fst_more[of v ?u] sv(1) more by (simp_all add: steps_def)
          moreover have "called_back cb [JObject n] s w" by (rule called_back_more[OF called w(5)])
          moreover have "\<exists>pre post. trace w = trace s @ pre @ ESys ?c ?err # post"
            by (rule sys[of w "tr @ tr'"]) (simp add: w(5) tr)
          ultimately show "fs_effect L (Some cb) op s w"
            using moved_trans[OF sv(2) w(1)] w(2) t(5) True
            unfolding fs_effect_def async_done_def option.case by (intro conjI exI[of _ ?err] exI[of _ p]) auto
        qed
      qed
      then show ?thesis
        using True by (simp add: wp_bnd wp_sq iotjs_environment_loop_def wp_gets wp_sys env iotjs_fs_reqwrap_req_def)
    next
      case False
      let ?v = "?u\<lparr>pend := (pend t)(p \<mapsto> op)\<rparr>"
      have mv: "moved s ?v" using mu by (simp only: moved_more)
      have "\<not> h_finished ?v" "wraps_wf ?v" using mv fin by (simp_all add: moved_def)
      from return_null_wp[OF this]
      have "wp iotjs_jhandler_return_null (\<lambda>_. fs_effect L (Some cb) op s) ?v"
      proof (rule wp_mono, elim conjE exE)
        fix w :: "(call, 'z) fst_scheme" and tr'
        assume w: "moved ?v w" "h_ret w = (False, JNull)" "reqs w = reqs ?v" "wrt.more w = wrt.more ?v" "trace w = trace ?v @ tr'"
        have "reqs w = (reqs s)(p \<mapsto> cb)" using w(3) t(6) by simp
        moreover have "bufs w = bufs s" "pend w = (pend s)(p \<mapsto> op)"
          using fst_more[OF w(4)] more by simp_all
        moreover have "\<exists>pre post. trace w = trace s @ pre @ ESys ?c ?err # post"
          by (rule sys[of w tr']) (simp add: w(5))
        ultimately show "fs_effect L (Some cb) op s w"
          using moved_trans[OF mv w(1)] w(2) t(5) False
          unfolding fs_effect_def async_done_def option.case by (intro conjI exI[of _ ?err] exI[of _ p]) auto
      qed
      then show ?thesis
        using False by (simp add: wp_bnd wp_sq iotjs_environment_loop_def wp_gets wp_sys wp_upd env iotjs_fs_reqwrap_req_def)
    qed
  qed
qed

lemma FS_CALL_wp:
  fixes s :: "(call, 'z) fst_scheme"
  assumes "fs_ready E s" "\<And>cb. jcb = Some cb \<Longrightarrow> is_function cb" "op_fits (bufs s) op" "op \<noteq> FsCleanup"
  shows "wp (FS_CALL E L jcb op) (\<lambda>_. fs_effect L jcb op s) s"
  using FS_SYNC_wp[OF assms(1,3,4)] FS_ASYNC_wp[OF assms(1)] assms(2) by (cases jcb) simp_all

section \<open>The handlers\<close>

lemma fs_ready_quiet:
  assumes "fs_ready E e" "quiet (charge k e) u"
  shows "fs_ready E u"
  using assms quiet_wf[OF assms(2)] quiet_fields[OF assms(2)]
  by (simp add: fs_ready_def net_inv_def)

lemma fs_effect_quiet:
  fixes e u z :: "(call, 'z) fst_scheme"
  assumes q: "quiet (charge k e) u" and wf: "wraps_wf e" and z: "fs_effect L jcb op u z"
  shows "fs_effect L jcb op e (charge (- k) z)"
proof -
  note f = quiet_fields[OF q, simplified]
  have p: "bufs u = bufs e" "pend u = pend e" using q by (auto simp: quiet_def charge_def)
  from q obtain tr where tr: "trace u = trace e @ tr" by (auto simp: quiet_def)
  have "moved (charge k e) z"
    by (rule moved_trans[OF quiet_moved[OF q]]) (use z wf in \<open>simp_all add: fs_effect_def\<close>)
  then have m: "moved e (charge (- k) z)" by (rule moved_charge)
  have sys: "\<exists>pre post. trace (charge (- k) z) = trace e @ pre @ c # post"
    if "\<exists>pre post. trace z = trace u @ pre @ c # post" for c
    using that tr by (elim exE, rule_tac x = "tr @ pre" in exI, rule_tac x = post in exI) (simp add: charge_def)
  have call: "called_back cb vs e (charge (- k) z)" if "called_back cb vs u z" for cb vs
    using called_back_more[OF called_back_less[OF tr that], of "charge (- k) z" "[]"] by (simp add: charge_def)
  have pz: "bufs (charge (- k) z) = bufs z" "pend (charge (- k) z) = pend z" by (simp_all add: charge_def)
  show ?thesis
  proof (cases jcb)
    case None
    with z obtain err pre post where y: "reqs z = reqs u" "pend z = pend u" "res_ok op err"
      "trace z = trace u @ pre @ ESys (UvFs (env_loop (env u)) None op) err # post"
      "let ans = lib_answer L (trace u @ pre @ [ESys (UvFs (env_loop (env u)) None op) err])
       in bufs z = memory_after op err (ans_data ans) (bufs u) \<and>
          sync_result \<lparr>req_ptr = 0, fs_type = type_of_op op, req_result = err, statbuf = ans_stat ans,
            dirents = ans_names ans\<rparr> err (h_ret u) (h_ret z)"
      unfolding fs_effect_def sync_done_def by (simp only: option.case) (elim conjE exE, rule that, assumption+)
    show ?thesis
      unfolding fs_effect_def sync_done_def None option.case pz charge_fields f p
      by (intro conjI m exI[of _ err] exI[of _ "tr @ pre"] exI[of _ post])
        (use y tr in \<open>simp_all add: f p charge_def\<close>)
  next
    case (Some cb)
    with z obtain err q where y: "bufs z = bufs u" "h_ret z = (False, JNull)" "reqs u q = None"
      "\<exists>pre post. trace z = trace u @ pre @ ESys (UvFs (env_loop (env u)) (Some q) op) err # post"
      "if err < 0 then reqs z = reqs u \<and> pend z = pend u \<and> (\<exists>n. called_back cb [JObject n] u z)
       else reqs z = (reqs u)(q \<mapsto> cb) \<and> pend z = (pend u)(q \<mapsto> op)"
      unfolding fs_effect_def async_done_def by (simp only: option.case) (elim conjE exE, rule that, assumption+, blast, assumption)
    have "if err < 0 then reqs z = reqs e \<and> pend z = pend e \<and> (\<exists>n. called_back cb [JObject n] e (charge (- k) z))
       else reqs z = (reqs e)(q \<mapsto> cb) \<and> pend z = (pend e)(q \<mapsto> op)"
      using y(5) call unfolding f p by (simp split: if_splits) blast
    then show ?thesis
      using m sys[OF y(4)] y(1-3) unfolding fs_effect_def async_done_def Some option.case pz charge_fields f p
      by (intro conjI exI[of _ err] exI[of _ q]) simp_all
  qed
qed

fun optional :: "jval option \<Rightarrow> jval list" where
  "optional None = []"
| "optional (Some cb) = [cb]"

lemma fs_entry:
  assumes "is_object t" "env_initialized s" "args_match ts args" "i < length args \<longrightarrow> is_function (args ! i)"
  shows "wp (JHANDLER_CHECK_THIS E n is_object (JHANDLER_CHECK_ARGS E n ts
      (JHANDLER_CHECK_ARG_IF_EXIST E n i is_function (bnd iotjs_environment_get (\<lambda>_. m))))) Q (handler_entry t args s) =
    wp m Q (handler_entry t args s)"
proof -
  have "env_initialized (handler_entry t args s)" using assms(2) by (simp add: handler_entry_def)
  then have "wp (bnd iotjs_environment_get (\<lambda>_. m)) Q (handler_entry t args s) = wp m Q (handler_entry t args s)"
    by (simp add: iotjs_environment_get_def wp_simps)
  then show ?thesis
    using assms(1,3,4)
    by (simp only: wp_JHANDLER_CHECK_THIS wp_check_args wp_JHANDLER_CHECK_ARG_IF_EXIST handler_entry_sel
        if_True if_False not_True_eq_False simp_thms split: if_splits) blast
qed

lemma callback_bnd:
  assumes "h_argv u = base @ optional jcb" "\<And>cb. jcb = Some cb \<Longrightarrow> is_function cb" "i = length base"
  shows "wp (bnd (JHANDLER_GET_ARG_IF_EXIST i is_function) f) Q u = wp (f jcb) Q u"
  using assms by (cases jcb) (simp_all add: wp_bnd wp_JHANDLER_GET_ARG_IF_EXIST)

lemma optional_arg: "(\<And>cb. jcb = Some cb \<Longrightarrow> is_function cb) \<Longrightarrow>
    length base < length (base @ optional jcb) \<longrightarrow> is_function ((base @ optional jcb) ! length base)"
  by (cases jcb) simp_all

text \<open>The request and the release of the path after it.\<close>

lemma path_request:
  fixes e u :: "(call, 'z) fst_scheme"
  assumes e: "fs_ready E e" and q: "quiet (charge (held str) e) u"
    and op: "\<And>cb. jcb = Some cb \<Longrightarrow> is_function cb" "op_range op = None" "op \<noteq> FsCleanup"
  shows "wp (sq (FS_CALL E L jcb op) (iotjs_string_destroy str)) (\<lambda>_. fs_effect L jcb op e) u"
proof -
  have wf: "wraps_wf e" using e by (simp add: fs_ready_def net_inv_def)
  have "op_fits (bufs u) op" using op(2) by (simp add: op_fits_def)
  then show ?thesis
    unfolding wp_sq
    by (intro wp_mono[OF FS_CALL_wp[OF fs_ready_quiet[OF e q] op(1)]])
      (use op(3) fs_effect_quiet[OF q wf] in \<open>auto simp: wp_string_destroy\<close>)
qed

definition fs_entered :: "call engine \<Rightarrow> jval \<Rightarrow> jval list \<Rightarrow> jval option \<Rightarrow> (call, 'z) fst_scheme \<Rightarrow> bool" where
  "fs_entered E t args jcb s \<longleftrightarrow> is_object t \<and> env_initialized s \<and> fs_ready E (handler_entry t args s) \<and>
     (\<forall>cb. jcb = Some cb \<longrightarrow> is_function cb)"

lemma fs_enteredD:
  assumes "fs_entered E t args jcb s"
  shows "is_object t" "env_initialized s" "fs_ready E (handler_entry t args s)" "\<And>cb. jcb = Some cb \<Longrightarrow> is_function cb"
  using assms by (simp_all add: fs_entered_def)

text \<open>The handlers of one path.\<close>

lemma one_path:
  fixes s :: "(call, 'z) fst_scheme"
  assumes "args = [JString tx] @ optional jcb" "fs_entered E t args jcb s" "length tx < 2 ^ 32 - 1"
    and "\<And>p. op_range (mk p) = None \<and> mk p \<noteq> FsCleanup"
  shows "wp (JHANDLER_CHECK_THIS E n is_object (JHANDLER_CHECK_ARGS E n [is_string]
      (JHANDLER_CHECK_ARG_IF_EXIST E n 1 is_function (bnd iotjs_environment_get (\<lambda>_.
       bnd (JHANDLER_GET_ARG 0 iotjs_jval_as_string) (\<lambda>path.
       bnd (JHANDLER_GET_ARG_IF_EXIST 1 is_function) (\<lambda>jcallback.
       sq (FS_CALL E L jcallback (mk (string_text path))) (iotjs_string_destroy path))))))))
    (\<lambda>_ z. \<exists>p. fs_effect L jcb (mk p) (handler_entry t args s) z \<and> (NUL \<notin> set tx \<longrightarrow> p = tx)) (handler_entry t args s)"
proof -
  note en = fs_enteredD[OF assms(2)]
  show ?thesis
    apply (subst fs_entry[OF en(1,2)], simp add: assms(1), use optional_arg[OF en(4), where base = "[JString tx]"] assms(1) in simp)
    apply (rule string_bnd[where tx = tx], simp add: assms(1), simp add: assms(1), rule assms(3))
    apply (subst callback_bnd[where base = "[JString tx]"], simp add: assms(1), erule en(4), simp)
    apply (rule wp_mono[OF path_request[OF en(3) quiet_refl en(4)]], assumption)
    using assms(4) string_text_contents by blast+
qed

lemma path_handlers_wp:
  fixes s :: "(call, 'z) fst_scheme"
  assumes "args = [JString tx] @ optional jcb" "fs_entered E t args jcb s" "length tx < 2 ^ 32 - 1"
  shows "wp (Stat E L) (\<lambda>_ z. \<exists>p. fs_effect L jcb (FsStat p) (handler_entry t args s) z \<and> (NUL \<notin> set tx \<longrightarrow> p = tx))
      (handler_entry t args s)"
    and "wp (RmDir E L) (\<lambda>_ z. \<exists>p. fs_effect L jcb (FsRmdir p) (handler_entry t args s) z \<and> (NUL \<notin> set tx \<longrightarrow> p = tx))
      (handler_entry t args s)"
    and "wp (Unlink E L) (\<lambda>_ z. \<exists>p. fs_effect L jcb (FsUnlink p) (handler_entry t args s) z \<and> (NUL \<notin> set tx \<longrightarrow> p = tx))
      (handler_entry t args s)"
  unfolding Stat_def RmDir_def Unlink_def by (rule one_path[OF assms]; simp)+

text \<open>\<^verbatim>\<open>ReadDir\<close> looks for its callback in the third argument; with one or two it is synchronous.\<close>

lemma ReadDir_wp:
  fixes s :: "(call, 'z) fst_scheme"
  assumes "args = JString tx # rest" "jcb = (if 2 < length args then Some (args ! 2) else None)"
    "fs_entered E t args jcb s" "length tx < 2 ^ 32 - 1"
  shows "wp (ReadDir E L) (\<lambda>_ z. \<exists>p. fs_effect L jcb (FsScandir p) (handler_entry t args s) z \<and>
      (NUL \<notin> set tx \<longrightarrow> p = tx)) (handler_entry t args s)"
proof -
  note en = fs_enteredD[OF assms(3)]
  have f: "2 < length args \<longrightarrow> is_function (args ! 2)" using en(4) assms(2) by simp
  have j: "(if 2 < length args \<and> is_function (args ! 2) then Some (args ! 2) else None) = jcb"
    using f assms(2) by simp
  show ?thesis
    unfolding ReadDir_def
    apply (subst fs_entry[OF en(1,2)], simp add: assms(1), rule f)
    apply (rule string_bnd[where tx = tx], simp add: assms(1), simp add: assms(1), rule assms(4))
    apply (simp only: wp_bnd[of "JHANDLER_GET_ARG_IF_EXIST _ _"] wp_JHANDLER_GET_ARG_IF_EXIST charge_fields
        handler_entry_sel j)
    apply (rule wp_mono[OF path_request[OF en(3) quiet_refl en(4)]], assumption, simp, simp)
    using string_text_contents by blast
qed

lemma MkDir_wp:
  fixes s :: "(call, 'z) fst_scheme"
  assumes "args = [JString tx, JNumber (num mode)] @ optional jcb" "in_int32 mode" "fs_entered E t args jcb s"
    "length tx < 2 ^ 32 - 1"
  shows "wp (MkDir E L) (\<lambda>_ z. \<exists>p. fs_effect L jcb (FsMkdir p mode) (handler_entry t args s) z \<and>
      (NUL \<notin> set tx \<longrightarrow> p = tx)) (handler_entry t args s)"
proof -
  note en = fs_enteredD[OF assms(3)]
  show ?thesis
    unfolding MkDir_def
    apply (subst fs_entry[OF en(1,2)], simp add: assms(1),
        use optional_arg[OF en(4), where base = "[JString tx, JNumber (num mode)]"] assms(1) in \<open>simp add: numeral_2_eq_2\<close>)
    apply (rule string_bnd[where tx = tx], simp add: assms(1), simp add: assms(1), rule assms(4))
    apply (rule quiet_bnd[OF quiet_refl, where x = mode], rule GET_INT_wp, simp add: assms(1), simp add: assms(1), rule assms(2))
    subgoal for str u
      apply (subst callback_bnd[where base = "[JString tx, JNumber (num mode)]"], simp add: quiet_frame assms(1), erule en(4), simp)
      apply (rule wp_mono[OF path_request[OF en(3) _ en(4)]], assumption, assumption, simp, simp)
      using string_text_contents by blast
    done
qed

lemma Open_wp:
  fixes s :: "(call, 'z) fst_scheme"
  assumes "args = [JString tx, JNumber (num flags), JNumber (num mode)] @ optional jcb" "in_int32 flags" "in_int32 mode"
    "fs_entered E t args jcb s" "length tx < 2 ^ 32 - 1"
  shows "wp (Open_fs E L) (\<lambda>_ z. \<exists>p. fs_effect L jcb (FsOpen p flags mode) (handler_entry t args s) z \<and>
      (NUL \<notin> set tx \<longrightarrow> p = tx)) (handler_entry t args s)"
proof -
  let ?base = "[JString tx, JNumber (num flags), JNumber (num mode)]"
  note en = fs_enteredD[OF assms(4)]
  show ?thesis
    unfolding Open_fs_def
    apply (subst fs_entry[OF en(1,2)], simp add: assms(1),
        use optional_arg[OF en(4), where base = ?base] assms(1) in \<open>simp add: numeral_3_eq_3\<close>)
    apply (rule string_bnd[where tx = tx], simp add: assms(1), simp add: assms(1), rule assms(5))
    apply (rule quiet_bnd[OF quiet_refl, where x = flags], rule GET_INT_wp, simp add: assms(1), simp add: assms(1), rule assms(2))
    apply (rule quiet_bnd[where x = mode], assumption, rule GET_INT_wp, simp add: quiet_frame assms(1),
        simp add: quiet_frame assms(1), rule assms(3))
    subgoal for str v u
      apply (subst callback_bnd[where base = ?base], simp add: quiet_frame assms(1), erule en(4), simp)
      apply (rule wp_mono[OF path_request[OF en(3) _ en(4)]], assumption, assumption, simp, simp)
      using string_text_contents by blast
    done
qed

lemma Close_fs_wp:
  fixes s :: "(call, 'z) fst_scheme"
  assumes "args = [JNumber (num fd)] @ optional jcb" "in_int32 fd" "fs_entered E t args jcb s"
  shows "wp (Close_fs E L) (\<lambda>_. fs_effect L jcb (FsClose fd) (handler_entry t args s)) (handler_entry t args s)"
proof -
  note en = fs_enteredD[OF assms(3)]
  have wf: "wraps_wf (handler_entry t args s)" using en(3) by (simp add: fs_ready_def net_inv_def)
  show ?thesis
    unfolding Close_fs_def
    apply (subst fs_entry[OF en(1,2)], simp add: assms(1),
        use optional_arg[OF en(4), where base = "[JNumber (num fd)]"] assms(1) in simp)
    apply (rule quiet_bnd[OF quiet_refl, where x = fd], rule GET_INT_wp, simp add: assms(1), simp add: assms(1), rule assms(2))
    apply (subst callback_bnd[where base = "[JNumber (num fd)]"], simp add: quiet_frame assms(1), erule en(4), simp)
    subgoal for u
      using wp_mono[OF FS_CALL_wp[OF fs_ready_quiet[OF en(3), of 0 u] en(4), of jcb "FsClose fd"]]
        fs_effect_quiet[of 0 _ u, OF _ wf]
      by (simp add: op_fits_def)
    done
qed

lemma charge_neg: "charge (- l) (charge (- k) z) = charge (- (k + l)) z" "charge l (charge k z) = charge (k + l) z"
  by (simp_all add: charge_def algebra_simps)

lemma Rename_wp:
  fixes s :: "(call, 'z) fst_scheme"
  assumes "args = [JString tx, JString tx'] @ optional jcb" "fs_entered E t args jcb s"
    "length tx < 2 ^ 32 - 1" "length tx' < 2 ^ 32 - 1"
  shows "wp (Rename E L) (\<lambda>_ z. \<exists>p q. fs_effect L jcb (FsRename p q) (handler_entry t args s) z \<and>
      (NUL \<notin> set tx \<longrightarrow> p = tx) \<and> (NUL \<notin> set tx' \<longrightarrow> q = tx')) (handler_entry t args s)"
proof -
  let ?base = "[JString tx, JString tx']"
  let ?e = "handler_entry t args s"
  note en = fs_enteredD[OF assms(2)]
  have wf: "wraps_wf ?e" using en(3) by (simp add: fs_ready_def net_inv_def)
  show ?thesis
    unfolding Rename_def
    apply (subst fs_entry[OF en(1,2)], simp add: assms(1),
        use optional_arg[OF en(4), where base = ?base] assms(1) in \<open>simp add: numeral_2_eq_2\<close>)
    apply (rule string_bnd[where tx = tx], simp add: assms(1), simp add: assms(1), rule assms(3))
    apply (rule string_bnd[where tx = tx'], simp add: assms(1), simp add: assms(1), rule assms(4))
    apply (subst callback_bnd[where base = ?base], simp add: assms(1), erule en(4), simp)
    subgoal premises str for a b
    proof -
      let ?u = "charge (held b) (charge (held a) ?e)"
      have q: "quiet (charge (held a + held b) ?e) ?u" by (simp add: charge_neg add.commute)
      have "wp (FS_CALL E L jcb (FsRename (string_text a) (string_text b)))
        (\<lambda>_. fs_effect L jcb (FsRename (string_text a) (string_text b)) ?u) ?u"
        by (rule FS_CALL_wp[OF fs_ready_quiet[OF en(3) q] en(4)]) (simp_all add: op_fits_def)
      then show ?thesis
        unfolding wp_sq wp_string_destroy charge_neg
      proof (rule wp_mono)
        fix x and z :: "(call, 'z) fst_scheme"
        assume z: "fs_effect L jcb (FsRename (string_text a) (string_text b)) (charge (held a + held b) ?e) z"
        have "fs_effect L jcb (FsRename (string_text a) (string_text b)) ?e (charge (- held a + - held b) z)"
          using fs_effect_quiet[OF quiet_refl wf z] by (simp add: add.commute)
        then show "\<exists>p q. fs_effect L jcb (FsRename p q) ?e (charge (- held a + - held b) z) \<and>
            (NUL \<notin> set tx \<longrightarrow> p = tx) \<and> (NUL \<notin> set tx' \<longrightarrow> q = tx')"
          using str string_text_contents by blast
      qed
    qed
    done
qed

subsection \<open>Reading and writing\<close>

definition fs_thrown :: "(call, 'z) fst_scheme \<Rightarrow> (call, 'z) fst_scheme \<Rightarrow> bool" where
  "fs_thrown s t \<longleftrightarrow> moved s t \<and> reqs t = reqs s \<and> bufs t = bufs s \<and> pend t = pend s \<and>
     (\<exists>n. h_ret t = (True, JObject n))"

lemma throw_wp:
  fixes e u :: "(call, 'z) fst_scheme"
  assumes "quiet e u" "fs_ready E e"
  shows "wp (JHANDLER_THROW E ty m) (\<lambda>_. fs_thrown e) u"
proof -
  have u: "fs_ready E u" using fs_ready_quiet[OF assms(2), of 0] assms(1) by simp
  have wf: "wraps_wf u" using u by (simp add: fs_ready_def net_inv_def)
  have p: "bufs u = bufs e" "pend u = pend e" using assms(1) by (auto simp: quiet_def)
  have m: "moved e u" using quiet_moved[OF assms(1)] assms(2) by (simp add: fs_ready_def net_inv_def)
  have "wp (JHANDLER_THROW E ty m) (\<lambda>_ t. pays u (\<lambda>_. 0) t \<and> (\<exists>n. h_ret t = (True, JObject n))) u"
    using u unfolding wp_JHANDLER_THROW pays_def
    by (auto simp: fs_ready_def frame_refs_def intro!: exI)
  then show ?thesis
    by (rule wp_mono) (use moved_trans[OF m pays_moved[OF _ wf]] p quiet_fields(2)[OF assms(1)]
      in \<open>auto simp: fs_thrown_def pays_def\<close>)
qed

lemma transfer_wp:
  fixes s :: "(call, 'z) fst_scheme"
  assumes args: "args = [JNumber (num fd), jb, JNumber (num off), JNumber (num len), JNumber (num pos)] @ optional jcb"
    and int: "in_int32 fd" "in_int32 off" "in_int32 len" "in_int32 pos" "0 \<le> off" "0 \<le> len" "in_int32 (off + len)"
    and buf: "builtin s j b w" "js_buffer E jb j w" and en: "fs_entered E t args jcb s"
    and mk: "\<And>fd p off len pos. op_range (mk fd p off len pos) = Some (p, off, len) \<and> mk fd p off len pos \<noteq> FsCleanup"
  shows "wp (JHANDLER_CHECK_THIS E n is_object (JHANDLER_CHECK_ARGS E n [is_number, is_object, is_number, is_number, is_number]
      (JHANDLER_CHECK_ARG_IF_EXIST E n 5 is_function (bnd iotjs_environment_get (\<lambda>_.
       bnd (JHANDLER_GET_INT 0) (\<lambda>fd. bnd (JHANDLER_GET_ARG 1 iotjs_jval_as_object) (\<lambda>jbuffer.
       bnd (JHANDLER_GET_INT 2) (\<lambda>offset. bnd (JHANDLER_GET_INT 3) (\<lambda>len. bnd (JHANDLER_GET_INT 4) (\<lambda>position.
       bnd (JHANDLER_GET_ARG_IF_EXIST 5 is_function) (\<lambda>jcallback.
       bnd (iotjs_bufferwrap_from_jbuffer E jbuffer) (\<lambda>buffer_wrap.
       bnd (iotjs_bufferwrap_buffer buffer_wrap) (\<lambda>data.
       bnd (iotjs_bufferwrap_length E buffer_wrap) (\<lambda>data_length.
       JHANDLER_CHECK E n (data \<noteq> None) (JHANDLER_CHECK E n (c_int32 (int data_length) > 0)
      (buffer_range E offset len (c_int32 (int data_length)) (\<lambda>off k.
       FS_CALL E L jcallback (mk fd buffer_wrap off k position))))))))))))))))))
    (\<lambda>_ z. if off < int (bw_length w) \<and> off + len \<le> int (bw_length w)
       then fs_effect L jcb (mk fd b (nat off) (nat len) pos) (handler_entry t args s) z
       else fs_thrown (handler_entry t args s) z) (handler_entry t args s)"
proof -
  let ?base = "[JNumber (num fd), jb, JNumber (num off), JNumber (num len), JNumber (num pos)]"
  let ?e = "handler_entry t args s"
  note en' = fs_enteredD[OF en]
  have E: "native_law E" and wf: "wraps_wf ?e" using en'(3) by (simp_all add: fs_ready_def net_inv_def)
  have jb: "is_object jb" "\<forall>tr. e_prop E tr jb ''_builtin'' = (False, j)" using js_bufferD[OF buf(2)] by simp_all
  have b: "builtin u j b w" if "quiet ?e u" for u using quiet_builtin[OF that] buf(1) by simp
  have n: "bw_length w < 2 ^ 31" and lb: "length (bytes w) = bw_length w"
    using buf(1) by (simp_all add: builtin_def buf_wf_def)
  have data: "bw_buffer w \<noteq> None \<longleftrightarrow> 0 < bw_length w"
    using buf(1) unfolding builtin_def by (cases "bw_buffer w") (auto simp: buf_wf_def bytes_def)
  have len: "nat (c_uint32 len) = nat len" using int(3,6) by (simp add: in_int32_def)
  have eff: "wp (FS_CALL E L jcb (mk fd b (nat off) (nat len) pos))
      (\<lambda>_. fs_effect L jcb (mk fd b (nat off) (nat len) pos) ?e) u"
    if u: "quiet ?e u" and fit: "off + len \<le> int (bw_length w)" for u
  proof -
    have "bufs u b = Some w" using b[OF u] by (simp add: builtin_def)
    moreover have "nat off + nat len \<le> length (bytes w)" using fit int(5,6) lb by linarith
    ultimately have "op_fits (bufs u) (mk fd b (nat off) (nat len) pos)" using mk by (simp add: op_fits_def)
    with u show ?thesis
      by (intro wp_mono[OF FS_CALL_wp[OF fs_ready_quiet[OF en'(3), of 0] en'(4)]])
        (use mk fs_effect_quiet[of 0 ?e u, OF _ wf] in auto)
  qed
  show ?thesis
    apply (subst fs_entry[OF en'(1,2)], simp add: args jb(1),
        use optional_arg[OF en'(4), where base = ?base] args in \<open>simp add: eval_nat_numeral\<close>)
    apply (rule quiet_bnd[OF quiet_refl, where x = fd], rule GET_INT_wp, simp add: args, simp add: args, rule int(1))
    apply (rule quiet_bnd[where x = jb], assumption, simp add: wp_simps args jb(1) quiet_frame)
    apply (rule quiet_bnd[where x = off], assumption, rule GET_INT_wp, simp add: quiet_frame args,
        simp add: quiet_frame args, rule int(2))
    apply (rule quiet_bnd[where x = len], assumption, rule GET_INT_wp, simp add: quiet_frame args,
        simp add: quiet_frame args, rule int(3))
    apply (rule quiet_bnd[where x = pos], assumption, rule GET_INT_wp, simp add: quiet_frame args,
        simp add: quiet_frame args, rule int(4))
    apply (subst callback_bnd[where base = ?base], simp add: quiet_frame args, erule en'(4), simp)
    apply (rule quiet_bnd[where x = b], assumption, rule from_jbuffer_wp[OF E b jb], assumption)
    apply (rule quiet_bnd[where x = "bw_buffer w"], assumption, use b in \<open>simp add: wp_simps builtin_def\<close>)
    apply (rule quiet_bnd[where x = "bw_length w"], assumption, rule length_wp[OF E b buf(2)], assumption)
    subgoal premises q for u1 u2 u3 u4 u5 u6 u7 u
      using q(8) n data throw_wp[OF q(8) en'(3)] eff[OF q(8)] int(5,7)
      unfolding buffer_range_def len
      by (cases "bw_length w = 0") (auto simp: wp_JHANDLER_CHECK)
    done
qed

lemmas Read_fs_wp = transfer_wp[where n = "''___Read_native''" and mk = FsRead, folded Read_fs_def, simplified op_range.simps fs_op.distinct simp_thms, OF _ _ _ _ _ _ _ _ _ _ _ TrueI]
  and Write_fs_wp = transfer_wp[where n = "''___Write_native''" and mk = FsWrite, folded Write_fs_def, simplified op_range.simps fs_op.distinct simp_thms, OF _ _ _ _ _ _ _ _ _ _ _ TrueI]

text \<open>Outside a handler there is no result of a frame to account for.\<close>

lemma moved_balance:
  assumes "moved s t" "h_ret t = h_ret s"
  shows "balance s t"
proof -
  have "owned (trace t) v - kept_wraps t v = owned (trace s) v - kept_wraps s v" for v
  proof -
    have "spare t v = spare s v" using assms(1) by (simp add: moved_def keeps_def)
    then show ?thesis using assms(2) by (simp add: spare_def frame_refs_def)
  qed
  then show ?thesis using assms(1) by (simp add: balance_def moved_def keeps_def)
qed

end
