(* ===== verification/Iot_Fs_Session.thy ===== *)
theory Iot_Fs_Session
  imports Iot_Fs_Steps
begin

text \<open>
  Sessions of the file module: the invariant between two events (\<open>fs_inv\<close>), the events and runs, the
  safety of every run, and what reading, writing and listing a directory do.
\<close>

section \<open>Sessions\<close>

text \<open>
  The invariant between two events: the program holds a callback for every request that libuv
  remembers, and the memory of the request lies in a live buffer.
\<close>

definition pend_ok :: "(call, 'z) fst_scheme \<Rightarrow> bool" where
  "pend_ok s \<longleftrightarrow> (\<forall>p op. pend s p = Some op \<longrightarrow> reqs s p \<noteq> None \<and> op_fits (bufs s) op)"

definition fs_inv :: "call engine \<Rightarrow> live_buffers \<Rightarrow> (call, 'z) fst_scheme \<Rightarrow> bool" where
  "fs_inv E live s \<longleftrightarrow> net_inv E s \<and> sets_ok E \<and> io_law E \<and> fs_ok E (jmodule s MODULE_FS) \<and>
     env_initialized s \<and> buffers_ok E live s \<and> pend_ok s"

datatype fs_handler =
  HClose | HOpen | HRead | HWrite | HStat | HMkDir | HRmDir | HUnlink | HRename | HReadDir

fun fs_body :: "call engine \<Rightarrow> fs_lib \<Rightarrow> fs_handler \<Rightarrow> ((call, 'z) fst_scheme, unit) prog" where
  "fs_body E L HClose = Close_fs E L"
| "fs_body E L HOpen = Open_fs E L"
| "fs_body E L HRead = Read_fs E L"
| "fs_body E L HWrite = Write_fs E L"
| "fs_body E L HStat = Stat E L"
| "fs_body E L HMkDir = MkDir E L"
| "fs_body E L HRmDir = RmDir E L"
| "fs_body E L HUnlink = Unlink E L"
| "fs_body E L HRename = Rename E L"
| "fs_body E L HReadDir = ReadDir E L"

text \<open>
  What \<^verbatim>\<open>src/js/fs.js\<close> passes: the path or the descriptor and integers, a live buffer with a range
  that does not start or end before 0, and a callback or none.
\<close>

definition path_arg :: "jval \<Rightarrow> bool" where
  "path_arg v \<longleftrightarrow> (\<exists>tx. v = JString tx \<and> length tx < 2 ^ 32 - 1)"

definition number_arg :: "jval \<Rightarrow> bool" where
  "number_arg v \<longleftrightarrow> (\<exists>n. v = JNumber (num n) \<and> in_int32 n)"

definition transfer_args :: "live_buffers \<Rightarrow> jval list \<Rightarrow> bool" where
  "transfer_args live vs \<longleftrightarrow> (\<exists>fd j b jb n off len pos. (j, b, jb, n) \<in> live \<and>
     vs = [JNumber (num fd), jb, JNumber (num off), JNumber (num len), JNumber (num pos)] \<and>
     in_int32 fd \<and> in_int32 off \<and> in_int32 len \<and> in_int32 pos \<and> 0 \<le> off \<and> 0 \<le> len \<and> in_int32 (off + len))"

fun fs_base :: "live_buffers \<Rightarrow> fs_handler \<Rightarrow> jval list \<Rightarrow> bool" where
  "fs_base live HClose vs \<longleftrightarrow> (\<exists>a. vs = [a] \<and> number_arg a)"
| "fs_base live HOpen vs \<longleftrightarrow> (\<exists>a b c. vs = [a, b, c] \<and> path_arg a \<and> number_arg b \<and> number_arg c)"
| "fs_base live HRead vs \<longleftrightarrow> transfer_args live vs"
| "fs_base live HWrite vs \<longleftrightarrow> transfer_args live vs"
| "fs_base live HMkDir vs \<longleftrightarrow> (\<exists>a b. vs = [a, b] \<and> path_arg a \<and> number_arg b)"
| "fs_base live HRename vs \<longleftrightarrow> (\<exists>a b. vs = [a, b] \<and> path_arg a \<and> path_arg b)"
| "fs_base live _ vs \<longleftrightarrow> (\<exists>a. vs = [a] \<and> path_arg a)"

definition fs_args :: "live_buffers \<Rightarrow> fs_handler \<Rightarrow> jval list \<Rightarrow> bool" where
  "fs_args live h args \<longleftrightarrow> (\<exists>vs jcb. args = vs @ optional jcb \<and> fs_base live h vs \<and>
     (\<forall>cb. jcb = Some cb \<longrightarrow> is_function cb))"

lemma effect_keeps:
  fixes e z :: "(call, 'z) fst_scheme"
  assumes "fs_effect L jcb op e z" "op_fits (bufs e) op" "buffers_ok E live e" "pend_ok e"
  shows "moved e z \<and> buffers_ok E live z \<and> pend_ok z"
proof (cases jcb)
  case None
  with assms(1) obtain err data where z: "moved e z" "reqs z = reqs e" "pend z = pend e" "res_ok op err"
    "bufs z = memory_after op err data (bufs e)"
    unfolding fs_effect_def sync_done_def Let_def option.case None by blast
  have "native_of (trace z) = native_of (trace e)" using z(1) by (simp add: moved_def)
  then have "buffers_ok E live z" by (rule buffers_ok_memory[OF assms(2) z(4) assms(3) z(5)])
  moreover have "pend_ok z"
    using assms(4) z(2,3,5) op_fits_memory[OF assms(2) z(4)] by (simp add: pend_ok_def)
  ultimately show ?thesis using z(1) by simp
next
  case (Some cb)
  with assms(1) obtain p where z: "moved e z" "bufs z = bufs e"
    "reqs z = reqs e \<and> pend z = pend e \<or> reqs z = (reqs e)(p \<mapsto> cb) \<and> pend z = (pend e)(p \<mapsto> op)"
    unfolding fs_effect_def async_done_def option.case Some by meson
  have "buffers_ok E live z"
    using assms(3) z(1,2) by (simp add: moved_def buffers_ok_def builtin_def)
  moreover have "pend_ok z"
    using assms(2,4) z(2,3) by (auto simp: pend_ok_def split: if_splits)
  ultimately show ?thesis using z(1) by simp
qed

lemma thrown_keeps:
  "fs_thrown e z \<Longrightarrow> buffers_ok E live e \<Longrightarrow> pend_ok e \<Longrightarrow> moved e z \<and> buffers_ok E live z \<and> pend_ok z"
  by (simp add: fs_thrown_def moved_def buffers_ok_def builtin_def pend_ok_def)

lemma no_range_fits: "op_range op = None \<Longrightarrow> op_fits m op"
  by (simp add: op_fits_def)


text \<open>What every handler leaves: the account, the live buffers and the requests of libuv in order.\<close>

definition fs_after :: "call engine \<Rightarrow> live_buffers \<Rightarrow> (call, 'z) fst_scheme \<Rightarrow> (call, 'z) fst_scheme \<Rightarrow> bool" where
  "fs_after E live e z \<longleftrightarrow> moved e z \<and> buffers_ok E live z \<and> pend_ok z"

lemma entry_ok [simp]:
  "buffers_ok E live (handler_entry t args s) = buffers_ok E live s"
  "pend_ok (handler_entry t args s) = pend_ok s"
  "bufs (handler_entry t args s) = bufs s"
  by (simp_all add: buffers_ok_def pend_ok_def handler_entry_def builtin_def native_of_append)

lemma fs_inv_entered:
  assumes "fs_inv E live s" "is_object t" "\<And>cb. jcb = Some cb \<Longrightarrow> is_function cb"
  shows "fs_entered E t args jcb s"
proof -
  have "jmodule (handler_entry t args s) = jmodule s" by (simp add: handler_entry_def)
  then show ?thesis
    using assms by (simp add: fs_entered_def fs_ready_def fs_inv_def net_inv_def)
qed

lemma fs_body_wp:
  fixes s :: "(call, 'z) fst_scheme"
  assumes inv: "fs_inv E live s" and t: "is_object t" and args: "fs_args live h args"
  shows "wp (fs_body E L h) (\<lambda>_. fs_after E live (handler_entry t args s)) (handler_entry t args s)"
proof -
  let ?e = "handler_entry t args s"
  from args obtain vs jcb where a: "args = vs @ optional jcb" "fs_base live h vs" "\<And>cb. jcb = Some cb \<Longrightarrow> is_function cb"
    unfolding fs_args_def by blast
  have ok: "buffers_ok E live ?e" "pend_ok ?e" using inv by (simp_all add: fs_inv_def)
  have en: "fs_entered E t args jcb s" by (rule fs_inv_entered[OF inv t a(3)])
  have safe: "fs_after E live ?e z" if "fs_effect L j op ?e z" "op_range op = None" for j op z
    using effect_keeps[OF that(1) no_range_fits[OF that(2)] ok] by (simp add: fs_after_def)
  have path: "wp m (\<lambda>_. fs_after E live ?e) ?e"
    if "wp m (\<lambda>_ z. \<exists>p. fs_effect L j (mk p) ?e z \<and> P p) ?e" "\<And>p. op_range (mk p) = None"
    for m j P and mk :: "string \<Rightarrow> fs_op"
    by (rule wp_mono[OF that(1)]) (use safe that(2) in blast)
  have transfer: "wp m (\<lambda>_. fs_after E live ?e) ?e"
    if v: "transfer_args live vs" and mk: "\<And>fd p off len pos. op_range (mk fd p off len pos) = Some (p, off, len)"
      and m: "\<And>fd jb off len pos b j w. args = [JNumber (num fd), jb, JNumber (num off), JNumber (num len), JNumber (num pos)] @ optional jcb \<Longrightarrow>
        in_int32 fd \<Longrightarrow> in_int32 off \<Longrightarrow> in_int32 len \<Longrightarrow> in_int32 pos \<Longrightarrow> 0 \<le> off \<Longrightarrow> 0 \<le> len \<Longrightarrow> in_int32 (off + len) \<Longrightarrow>
        builtin s j b w \<Longrightarrow> js_buffer E jb j w \<Longrightarrow>
        wp m (\<lambda>_ z. if off < int (bw_length w) \<and> off + len \<le> int (bw_length w)
          then fs_effect L jcb (mk fd b (nat off) (nat len) pos) ?e z else fs_thrown ?e z) ?e"
    for m and mk :: "int \<Rightarrow> nat \<Rightarrow> nat \<Rightarrow> nat \<Rightarrow> int \<Rightarrow> fs_op"
  proof -
    from v obtain fd j b jb n off len pos where v': "(j, b, jb, n) \<in> live"
      "vs = [JNumber (num fd), jb, JNumber (num off), JNumber (num len), JNumber (num pos)]"
      "in_int32 fd" "in_int32 off" "in_int32 len" "in_int32 pos" "0 \<le> off" "0 \<le> len" "in_int32 (off + len)"
      unfolding transfer_args_def by blast
    have "buffers_ok E live s" using inv by (simp add: fs_inv_def)
    then obtain w where w: "builtin s j b w" "js_buffer E jb j w" using v'(1) by (rule buffers_okD)
    show ?thesis
    proof (rule wp_mono[OF m[OF a(1)[unfolded v'(2)] v'(3-9) w]])
      fix x z
      assume z: "if off < int (bw_length w) \<and> off + len \<le> int (bw_length w)
          then fs_effect L jcb (mk fd b (nat off) (nat len) pos) ?e z else fs_thrown ?e z"
      have "op_fits (bufs ?e) (mk fd b (nat off) (nat len) pos)" if "off + len \<le> int (bw_length w)"
      proof -
        have "nat off + nat len \<le> length (bytes w)" "bufs s b = Some w"
          using that v'(7,8) w(1) unfolding builtin_def buf_wf_def by linarith+
        then show ?thesis using mk by (simp add: op_fits_def)
      qed
      then show "fs_after E live ?e z"
        using z effect_keeps[OF _ _ ok] thrown_keeps[OF _ ok] unfolding fs_after_def by (auto split: if_splits)
    qed
  qed
  show ?thesis
  proof (cases h)
    case HClose
    with a(2) obtain fd where "vs = [JNumber (num fd)]" "in_int32 fd" by (auto simp: number_arg_def)
    from wp_mono[OF Close_fs_wp[OF a(1)[unfolded this(1)] this(2) en]] show ?thesis
      unfolding HClose fs_body.simps using safe by fastforce
  next
    case HOpen
    with a(2) obtain tx f m where v: "vs = [JString tx, JNumber (num f), JNumber (num m)]" "in_int32 f" "in_int32 m"
      "length tx < 2 ^ 32 - 1" by (auto simp: number_arg_def path_arg_def)
    show ?thesis
      unfolding HOpen fs_body.simps by (rule path[OF Open_wp[OF a(1)[unfolded v(1)] v(2,3) en v(4)]]) simp
  next
    case HRead
    then have v: "transfer_args live vs" using a(2) by simp
    show ?thesis
      unfolding HRead fs_body.simps
      by (rule transfer[OF v op_range.simps(1)]) (rule Read_fs_wp[OF _ _ _ _ _ _ _ _ _ _ en], assumption+)
  next
    case HWrite
    then have v: "transfer_args live vs" using a(2) by simp
    show ?thesis
      unfolding HWrite fs_body.simps
      by (rule transfer[OF v op_range.simps(2)]) (rule Write_fs_wp[OF _ _ _ _ _ _ _ _ _ _ en], assumption+)
  next
    case HMkDir
    with a(2) obtain tx m where v: "vs = [JString tx, JNumber (num m)]" "in_int32 m" "length tx < 2 ^ 32 - 1"
      by (auto simp: number_arg_def path_arg_def)
    show ?thesis
      unfolding HMkDir fs_body.simps by (rule path[OF MkDir_wp[OF a(1)[unfolded v(1)] v(2) en v(3)]]) simp
  next
    case HRename
    with a(2) obtain tx tx' where v: "vs = [JString tx, JString tx']" "length tx < 2 ^ 32 - 1" "length tx' < 2 ^ 32 - 1"
      by (auto simp: path_arg_def)
    show ?thesis
      unfolding HRename fs_body.simps
      by (rule wp_mono[OF Rename_wp[OF a(1)[unfolded v(1)] en v(2,3)]]) (use safe in fastforce)
  next
    case HReadDir
    with a(2) obtain tx where v: "vs = [JString tx]" "length tx < 2 ^ 32 - 1" by (auto simp: path_arg_def)
    have n: "None = (if 2 < length args then Some (args ! 2) else None)" using a(1) v(1) by (cases jcb) simp_all
    have en': "fs_entered E t args None s" using en by (simp add: fs_entered_def)
    have eq: "args = JString tx # optional jcb" using a(1) v(1) by simp
    show ?thesis
      unfolding HReadDir fs_body.simps by (rule path[OF ReadDir_wp[OF eq n en' v(2)]]) simp
  next
    case HStat
    with a(2) obtain tx where v: "vs = [JString tx]" "length tx < 2 ^ 32 - 1" by (auto simp: path_arg_def)
    show ?thesis
      unfolding HStat fs_body.simps by (rule path[OF path_handlers_wp(1)[OF a(1)[unfolded v(1)] en v(2)]]) simp
  next
    case HRmDir
    with a(2) obtain tx where v: "vs = [JString tx]" "length tx < 2 ^ 32 - 1" by (auto simp: path_arg_def)
    show ?thesis
      unfolding HRmDir fs_body.simps by (rule path[OF path_handlers_wp(2)[OF a(1)[unfolded v(1)] en v(2)]]) simp
  next
    case HUnlink
    with a(2) obtain tx where v: "vs = [JString tx]" "length tx < 2 ^ 32 - 1" by (auto simp: path_arg_def)
    show ?thesis
      unfolding HUnlink fs_body.simps by (rule path[OF path_handlers_wp(3)[OF a(1)[unfolded v(1)] en v(2)]]) simp
  qed
qed

lemma pend_ok_more [simp]:
  "pend_ok (s\<lparr>blocks := k\<rparr>) = pend_ok s" "pend_ok (s\<lparr>trace := tr\<rparr>) = pend_ok s"
  by (simp_all add: pend_ok_def)

lemma buffers_ok_more:
  "native_of (trace t) = native_of (trace s) \<Longrightarrow> bufs t = bufs s \<Longrightarrow> buffers_ok E live t = buffers_ok E live s"
  by (simp add: buffers_ok_def builtin_def)

lemma fs_serve_wp:
  fixes s :: "(call, 'z) fst_scheme"
  assumes inv: "fs_inv E live s" and t: "is_object t" and args: "fs_args live h args"
  shows "wp (native_handler.serve (fs_body E L h) (t, args)) (\<lambda>_ u. fs_inv E live u \<and> balance s u) s"
proof (rule wp_mono[OF serve_keeps[where P = "\<lambda>u. env_initialized u = env_initialized s \<and> buffers_ok E live u \<and> pend_ok u"]])
  show "wp (fs_body E L h) (\<lambda>_ u. wraps_wf u \<and> keeps (handler_entry t args s) u \<and>
      env_initialized u = env_initialized s \<and> buffers_ok E live u \<and> pend_ok u) (handler_entry t args s)"
    by (rule wp_mono[OF fs_body_wp[OF assms]]) (auto simp: fs_after_def moved_def handler_entry_def)
next
  fix u :: "(call, 'z) fst_scheme" and b v
  assume "env_initialized u = env_initialized s \<and> buffers_ok E live u \<and> pend_ok u"
  then show "env_initialized (u\<lparr>blocks := b, trace := trace u @ [ERelease v]\<rparr>) = env_initialized s \<and>
      buffers_ok E live (u\<lparr>blocks := b, trace := trace u @ [ERelease v]\<rparr>) \<and>
      pend_ok (u\<lparr>blocks := b, trace := trace u @ [ERelease v]\<rparr>)"
    by (simp add: buffers_ok_def builtin_def native_of_append)
next
  fix x and w :: "(call, 'z) fst_scheme"
  assume "wraps_wf w \<and> balance s w \<and> jmodule w = jmodule s \<and> env_initialized w = env_initialized s \<and>
    buffers_ok E live w \<and> pend_ok w"
  then show "fs_inv E live w \<and> balance s w" using inv by (simp add: fs_inv_def net_inv_def)
qed

text \<open>The completion of a request that libuv remembers.\<close>

abbreviation the_req :: "nat \<Rightarrow> fs_op \<Rightarrow> int \<Rightarrow> fs_answer \<Rightarrow> uv_fs_t" where
  "the_req p op res ans \<equiv> \<lparr>req_ptr = p, fs_type = type_of_op op, req_result = res, statbuf = ans_stat ans,
     dirents = ans_names ans\<rparr>"

lemma AfterAsync_number_wp:
  fixes s :: "(call, 'z) wrt_scheme"
  assumes inv: "net_inv E s" and req: "reqs s (req_ptr req) = Some cb"
    and res: "0 \<le> req_result req" "fs_type req \<in> {UV_FS_OPEN, UV_FS_READ, UV_FS_WRITE}"
  shows "wp (AfterAsync E strerror req)
    (\<lambda>_. callback_made cb JUndefined [JNull, JNumber (num (req_result req))] s) s"
proof -
  let ?p = "req_ptr req" and ?x = "JNumber (num (req_result req))"
  let ?t = "s\<lparr>blocks := blocks s + 1, trace := trace s @ [EAcquire JNull, ECreate ?x, EAcquire ?x, ERelease ?x]\<rparr>"
  have wf: "wraps_wf s" and pm: "process_module E s" using inv by (simp_all add: net_inv_def)
  have cb: "is_function cb" "?p \<noteq> 0" using wf req by (auto simp: wraps_wf_def)
  have "args_built [JNull, ?x] (jargs_of 2 [JNull, ?x]) s ?t"
    unfolding args_built_def by (intro exI conjI, rule refl) auto
  then have "wp (bnd (iotjs_fs_reqwrap_jcallback ?p) (\<lambda>j. sq (iotjs_make_callback E j JUndefined (jargs_of 2 [JNull, ?x]))
      (sq (iotjs_jargs_destroy (jargs_of 2 [JNull, ?x])) (iotjs_fs_reqwrap_dispatched E ?p))))
    (\<lambda>_. callback_made cb JUndefined [JNull, ?x] s) ?t"
    by (rule wp_mono[OF fs_req.complete_built[OF wf req pm]]) simp
  then have c: "wp (sq (iotjs_make_callback E cb JUndefined (jargs_of 2 [JNull, ?x]))
      (sq (iotjs_jargs_destroy (jargs_of 2 [JNull, ?x])) (iotjs_fs_reqwrap_dispatched E ?p)))
    (\<lambda>_. callback_made cb JUndefined [JNull, ?x] s) ?t"
    using req by (simp add: wp_bnd iotjs_fs_reqwrap_jcallback_def wp_reqwrap_jcallback)
  show ?thesis
    using res c cb req
    by (auto simp: AfterAsync_def Let_def wp_bnd wp_sq wp_assert wp_reqwrap_jcallback iotjs_fs_reqwrap_jcallback_def
        iotjs_fs_reqwrap_req_def wp_jargs_create wp_jargs_append wp_if)
qed

lemma uv_fs_done_wp:
  fixes s :: "(call, 'z) fst_scheme"
  assumes inv: "fs_inv E live s" and p: "pend s p = Some op" "reqs s p = Some cb" and r: "res_ok op res"
  shows "wp (uv_fs_done E L p res ans) (\<lambda>_ u. fs_inv E live u \<and> balance s u \<and>
    reqs u = (reqs s)(p := None) \<and> pend u = (pend s)(p := None) \<and>
    bufs u = memory_after op res (ans_data ans) (bufs s) \<and>
    (\<exists>vs. async_values (the_req p op res ans) vs \<and> called_back cb vs s u) \<and>
    (0 \<le> res \<and> type_of_op op \<in> {UV_FS_OPEN, UV_FS_READ, UV_FS_WRITE} \<longrightarrow>
       callback_made cb JUndefined [JNull, JNumber (num res)] s u)) s"
proof -
  let ?s1 = "s\<lparr>pend := (pend s)(p := None)\<rparr>"
  let ?s2 = "?s1\<lparr>bufs := memory_after op res (ans_data ans) (bufs s)\<rparr>"
  let ?req = "the_req p op res ans"
  have ok: "net_inv E s" "sets_ok E" "io_law E" "fs_ok E (jmodule s MODULE_FS)" "env_initialized s" "buffers_ok E live s" "pend_ok s"
    using inv by (simp_all add: fs_inv_def)
  have fit: "op_fits (bufs s) op" using ok(7) p(1) by (simp add: pend_ok_def)
  have m: "moved s ?s2" using ok(1) quiet_moved[of s s] by (simp add: moved_more net_inv_def)
  have net: "net_inv E ?s2" using ok(1) m by (simp add: net_inv_def moved_def)
  have bufs: "buffers_ok E live ?s2"
    by (rule buffers_ok_memory[OF fit r ok(6)]) simp_all
  have "wp (AfterAsync E (lib_strerror L) ?req) (\<lambda>_ u. fs_inv E live u \<and> balance s u \<and>
      reqs u = (reqs s)(p := None) \<and> pend u = (pend s)(p := None) \<and>
      bufs u = memory_after op res (ans_data ans) (bufs s) \<and>
      (\<exists>vs. async_values ?req vs \<and> called_back cb vs s u)) ?s2"
  proof (rule wp_mono[OF AfterAsync_wp[OF net ok(2)]])
    show "fs_ok E (jmodule ?s2 MODULE_FS)" "reqs ?s2 (req_ptr ?req) = Some cb" using ok(4) p(2) by simp_all
    fix x and u :: "(call, 'z) fst_scheme"
    assume u: "wraps_wf u \<and> steps ?s2 u \<and> reqs u = (reqs ?s2)(req_ptr ?req := None) \<and> handles u = handles ?s2 \<and>
      (\<exists>vs. async_values ?req vs \<and> called_back cb vs ?s2 u)"
    then have st: "steps ?s2 u" by simp
    have more: "bufs u = bufs ?s2" "pend u = pend ?s2" using st fst_more[of u ?s2] by (simp_all add: steps_def)
    have nat: "native_of (trace u) = native_of (trace ?s2)" using steps_fields(8)[OF st] by (simp add: fun_eq_iff)
    have "pend_ok u"
      unfolding pend_ok_def
    proof (intro allI impI)
      fix q op'
      assume q: "pend u q = Some op'"
      then have "q \<noteq> p" "pend s q = Some op'" using more(2) by (auto split: if_splits)
      moreover from this have "reqs s q \<noteq> None" "op_fits (bufs s) op'" using ok(7) by (simp_all add: pend_ok_def)
      ultimately show "reqs u q \<noteq> None \<and> op_fits (bufs u) op'"
        using u more(1) op_fits_memory[OF fit r] by simp
    qed
    moreover have "buffers_ok E live u" using buffers_ok_more[OF nat more(1)] bufs by blast
    moreover have "net_inv E u" using net u steps_fields(1)[OF st] by (simp add: net_inv_def)
    moreover have "balance ?s2 u" by (rule steps_balance[OF st])
    then have "balance s u" by (simp add: balance_def kept_wraps_def heap_wraps_def)
    ultimately show "fs_inv E live u \<and> balance s u \<and> reqs u = (reqs s)(p := None) \<and> pend u = (pend s)(p := None) \<and>
      bufs u = memory_after op res (ans_data ans) (bufs s) \<and> (\<exists>vs. async_values ?req vs \<and> called_back cb vs s u)"
      using u more ok(2-5) steps_fields(1,3)[OF st] by (simp add: fs_inv_def called_back_def)
  qed
  moreover have "wp (AfterAsync E (lib_strerror L) ?req) (\<lambda>_ u.
      0 \<le> res \<and> type_of_op op \<in> {UV_FS_OPEN, UV_FS_READ, UV_FS_WRITE} \<longrightarrow>
       callback_made cb JUndefined [JNull, JNumber (num res)] s u) ?s2"
  proof (cases "0 \<le> res \<and> type_of_op op \<in> {UV_FS_OPEN, UV_FS_READ, UV_FS_WRITE}")
    case True
    show ?thesis
      by (rule wp_mono[OF AfterAsync_number_wp[OF net, of ?req cb]])
        (use True p(2) in \<open>simp_all add: callback_made_def\<close>)
  next
    case False
    show ?thesis by (rule wp_mono[OF calculation]) (use False in blast)
  qed
  ultimately have "wp (AfterAsync E (lib_strerror L) ?req) (\<lambda>_ u. (fs_inv E live u \<and> balance s u \<and>
      reqs u = (reqs s)(p := None) \<and> pend u = (pend s)(p := None) \<and>
      bufs u = memory_after op res (ans_data ans) (bufs s) \<and>
      (\<exists>vs. async_values ?req vs \<and> called_back cb vs s u)) \<and>
      (0 \<le> res \<and> type_of_op op \<in> {UV_FS_OPEN, UV_FS_READ, UV_FS_WRITE} \<longrightarrow>
       callback_made cb JUndefined [JNull, JNumber (num res)] s u)) ?s2" by (rule wp_conj)
  moreover have "wp (uv_fs_memory op res (ans_data ans)) (\<lambda>_ t. t = ?s2) ?s1"
    using uv_fs_memory_wp[of ?s1 op res] fit r by simp
  ultimately show ?thesis
    using p(1) by (simp add: uv_fs_done_def wp_bnd wp_gets wp_sq wp_upd) (erule wp_mono, simp)
qed

text \<open>
  The events of a session, in any order: a handler is called, libuv completes a request it has
  accepted with a result that does not exceed what was asked for.
\<close>

datatype fs_event = FsCall fs_handler jval "jval list" | FsDone nat int fs_answer

fun fs_enabled :: "live_buffers \<Rightarrow> (call, 'z) fst_scheme \<Rightarrow> fs_event \<Rightarrow> bool" where
  "fs_enabled live s (FsCall h t args) \<longleftrightarrow> is_object t \<and> fs_args live h args"
| "fs_enabled live s (FsDone p res ans) \<longleftrightarrow> (\<exists>op. pend s p = Some op \<and> res_ok op res)"

fun fs_perform :: "call engine \<Rightarrow> fs_lib \<Rightarrow> fs_event \<Rightarrow> ((call, 'z) fst_scheme, unit) prog" where
  "fs_perform E L (FsCall h t args) = native_handler.serve (fs_body E L h) (t, args)"
| "fs_perform E L (FsDone p res ans) = uv_fs_done E L p res ans"

lemma fs_perform_wp:
  fixes s :: "(call, 'z) fst_scheme"
  assumes inv: "fs_inv E live s" and en: "fs_enabled live s e"
  shows "wp (fs_perform E L e) (\<lambda>_ u. fs_inv E live u \<and> balance s u) s"
proof (cases e)
  case (FsCall h t args)
  then show ?thesis using fs_serve_wp[OF inv] en by simp
next
  case (FsDone p res ans)
  with en obtain op where p: "pend s p = Some op" "res_ok op res" by auto
  with inv obtain cb where "reqs s p = Some cb" by (auto simp: fs_inv_def pend_ok_def)
  from uv_fs_done_wp[OF inv p(1) this p(2)] show ?thesis
    unfolding FsDone fs_perform.simps by (rule wp_mono) simp
qed

inductive fs_run :: "call engine \<Rightarrow> fs_lib \<Rightarrow> live_buffers \<Rightarrow> (call, 'z) fst_scheme \<Rightarrow> (call, 'z) fst_scheme \<Rightarrow> bool"
  for E L live where
  start: "fs_run E L live s s"
| after: "fs_run E L live s t \<Longrightarrow> fs_enabled live t e \<Longrightarrow> fs_perform E L e t = Inr ((), u) \<Longrightarrow> fs_run E L live s u"

lemma fs_run_keeps:
  assumes "fs_run E L live s t" "fs_inv E live s"
  shows "fs_inv E live t \<and> balance s t"
  using assms
proof (induction rule: fs_run.induct)
  case (after s t e u)
  then have t: "fs_inv E live t" "balance s t" by simp_all
  from fs_perform_wp[OF t(1) after(2), of L] after(3) show ?case
    using balance_trans[OF t(2)] by (simp add: wp_runsD)
qed simp

section \<open>Properties\<close>


lemma read_memory:
  assumes "buf_wf w" "m b = Some w" "0 < bw_length w" "0 \<le> err"
  shows "memory_after (FsRead fd b off len pos) err data m =
    m(b \<mapsto> w\<lparr>bw_buffer := Some (overlay (bytes w) off (take (nat err) data))\<rparr>)"
proof (cases "err = 0")
  case True
  obtain cs where "bw_buffer w = Some cs" using assms(1,3) by (cases rule: buf_wf_cases) auto
  then have "w\<lparr>bw_buffer := Some (bytes w)\<rparr> = w" by (simp add: bytes_def)
  then show ?thesis using True assms(2) by (simp add: fun_upd_idem)
next
  case False
  then show ?thesis using assms(2,4) by simp
qed



section \<open>Programs that call no JavaScript\<close>

lemma callless:
  "unseen calls m \<Longrightarrow> (\<And>x. unseen calls (f x)) \<Longrightarrow> unseen calls (bnd m f)"
  "unseen calls m' \<Longrightarrow> unseen calls n \<Longrightarrow> unseen calls (sq m' n)"
  "unseen calls (ret x)" "unseen calls (gets g)" "unseen calls (IOTJS_ASSERT l b)"
  "calls [e] = [] \<Longrightarrow> unseen calls (emit e)" "unseen calls (sys E c)"
  "(\<And>s. trace (h s) = trace s) \<Longrightarrow> unseen calls (upd h)"
  by (auto simp: unseen_def bnd_def sq_def ret_def gets_def IOTJS_ASSERT_def fail_def emit_def upd_def sys_def
      split: sum.splits prod.splits if_splits)

lemma callless_for_each: "(\<And>x. unseen calls (f x)) \<Longrightarrow> unseen calls (for_each xs f)"
  by (induction xs) (simp_all add: callless)

lemma callless_jval:
  "unseen calls (iotjs_jval_create_copied v)" "unseen calls (iotjs_jval_destroy v)"
  "unseen calls (iotjs_jval_create_string_raw str)" "unseen calls (iotjs_jval_create_array E)"
  "unseen calls (iotjs_jval_set_property_by_index E arr i v)" "unseen calls (iotjs_jval_create_error E m)"
  "unseen calls (iotjs_jhandler_return_jval v)" "unseen calls (iotjs_jhandler_throw v)"
  "unseen calls (iotjs_string_destroy s)"
  unfolding iotjs_jval_create_copied_def iotjs_jval_destroy_def iotjs_jval_create_string_raw_def
    iotjs_jval_create_array_def jerry_create_def iotjs_jval_set_property_by_index_def set_index_def
    iotjs_jval_create_error_def iotjs_jval_create_error_type_def iotjs_jhandler_return_jval_def
    iotjs_jhandler_throw_def iotjs_string_destroy_def iotjs_buffer_release_def
  by (auto intro!: callless split: option.split)

lemma callless_scandir: "unseen calls (sq (FS_SYNC E L (FsScandir p)) (iotjs_string_destroy str))"
  unfolding FS_SYNC_def AfterSync_def uv_fs_memory_def iotjs_environment_loop_def iotjs_create_uv_exception_def
    scandir_array_def
  by (auto intro!: callless callless_jval callless_for_each)

text \<open>The handler of \<^verbatim>\<open>readdir\<close> called with a callback in the place where \<^verbatim>\<open>src/js/fs.js\<close> puts it.\<close>

lemma ReadDir_two_wp:
  fixes s :: "(call, 'z) fst_scheme"
  assumes "fs_entered E t [JString tx, cb] None s" "length tx < 2 ^ 32 - 1" "NUL \<notin> set tx"
  shows "wp (ReadDir E L) (\<lambda>_ z. fs_effect L None (FsScandir tx) (handler_entry t [JString tx, cb] s) z \<and>
      calls (trace z) = calls (trace s)) (handler_entry t [JString tx, cb] s)"
proof -
  let ?e = "handler_entry t [JString tx, cb] s"
  note en = fs_enteredD[OF assms(1)]
  show ?thesis
    unfolding ReadDir_def
    apply (subst fs_entry[OF en(1,2)], simp, simp)
    apply (rule string_bnd[where tx = tx], simp, simp, rule assms(2))
    apply (simp add: wp_bnd wp_JHANDLER_GET_ARG_IF_EXIST del: wp_sq)
    subgoal premises str for str
    proof -
      have t: "string_text str = tx" using string_text_contents[OF str(1)] str(2) assms(3) by simp
      have r: "wp (sq (FS_SYNC E L (FsScandir tx)) (iotjs_string_destroy str))
          (\<lambda>_. fs_effect L None (FsScandir tx) ?e) (charge (held str) ?e)"
        by (rule path_request[OF en(3) quiet_refl, where jcb = None and op = "FsScandir tx", simplified option.case]) simp_all
      have c: "calls (trace (charge (held str) ?e)) = calls (trace s)" by (simp add: charge_def)
      show ?thesis
        using r[unfolded wp_runs] callless_scandir[of E L tx str, unfolded unseen_def, rule_format] c
        unfolding t wp_runs by metis
    qed
    done
qed

text \<open>\<^verbatim>\<open>readdir\<close> with a callback, as \<^verbatim>\<open>src/js/fs.js\<close> calls it (the path and the callback), never calls
  the callback: the native handler looks for it one argument later. It reads the directory
  synchronously, calls no JavaScript function, leaves no request that could, and returns the array of
  names or throws the error.\<close>

theorem fs_readdir_ignores_callback:
  fixes s :: "(call, 'z) fst_scheme"
  assumes "fs_inv E live s" "is_object t" "length tx < 2 ^ 32 - 1" "NUL \<notin> set tx"
  shows "\<exists>r u err pre post. JHANDLER_FUNCTION (ReadDir E L) t [JString tx, cb] s = Inr (r, u) \<and>
    trace u = trace s @ pre @ ESys (UvFs (env_loop (env s)) None (FsScandir tx)) err # post \<and>
    calls (pre @ post) = [] \<and> reqs u = reqs s \<and>
    (if err < 0 then \<exists>n. r = (True, JObject n) else \<exists>a. r = (False, a) \<and> is_array a)"
proof -
  let ?e = "handler_entry t [JString tx, cb] s" and ?c = "UvFs (env_loop (env s)) None (FsScandir tx)"
  have en: "fs_entered E t [JString tx, cb] None s" by (rule fs_inv_entered[OF assms(1,2)]) simp
  have "wp (ReadDir E L) (\<lambda>_ z. moved ?e z \<and> (fs_effect L None (FsScandir tx) ?e z \<and> calls (trace z) = calls (trace s))) ?e"
    by (rule wp_mono[OF ReadDir_two_wp[OF en assms(3,4)]]) (simp add: fs_effect_def)
  then obtain z where z: "JHANDLER_FUNCTION (ReadDir E L) t [JString tx, cb] s = Inr (h_ret z, z\<lparr>blocks := blocks z - 1\<rparr>)"
    "fs_effect L None (FsScandir tx) ?e z" "calls (trace z) = calls (trace s)" by (rule handler_call_moved) simp
  have env: "env ?e = env s" "reqs ?e = reqs s" by (simp_all add: handler_entry_def)
  from z(2) obtain err pre post where y: "trace z = trace ?e @ pre @ ESys ?c err # post" "reqs z = reqs s"
    "sync_result (the_req 0 (FsScandir tx) err (lib_answer L (trace ?e @ pre @ [ESys ?c err]))) err (h_ret ?e) (h_ret z)"
    unfolding fs_effect_def sync_done_def option.case env by (auto simp: Let_def)
  then show ?thesis
    using z(1,3)
    by (intro exI[of _ "h_ret z"] exI[of _ "z\<lparr>blocks := blocks z - 1\<rparr>"] exI[of _ err]
        exI[of _ "EAcquire JUndefined # pre"] exI[of _ post]) (auto simp: sync_result_def)
qed

lemma quiet_next:
  assumes "quiet e u" "wp m (\<lambda>r t. r = x \<and> quiet u t) u" "\<And>t. quiet e t \<Longrightarrow> Q x t"
  shows "wp m Q u"
  by (rule wp_mono[OF assms(2)]) (use assms(1,3) quiet_trans in blast)

lemma wp_environment_get: "env_initialized s \<Longrightarrow> wp iotjs_environment_get (\<lambda>_. Q) s \<longleftrightarrow> Q s"
  by (simp add: iotjs_environment_get_def wp_simps)

lemma fails_if_exist:
  "i \<ge> length (h_argv s) \<Longrightarrow> fails e m s \<Longrightarrow> fails e (JHANDLER_CHECK_ARG_IF_EXIST E n i f m) s"
  unfolding JHANDLER_CHECK_ARG_IF_EXIST_def by (rule fails_bnd) (simp add: wp_handler_get)

text \<open>C33. A negative length passes the checks of \<^verbatim>\<open>write\<close>, because the end of the range is then smaller
  than the buffer, and reaches the system as an unsigned number. When the file takes more bytes than
  the buffer has from the offset on, memory behind the buffer is read and written to the file.\<close>

theorem fs_write_negative_length:
  fixes s :: "(call, 'z) fst_scheme"
  assumes "fs_inv E live s" "is_object t" "builtin s j b w" "js_buffer E jb j w"
    and "in_int32 fd" "in_int32 pos" "0 \<le> off" "off < int (bw_length w)" "in_int32 len" "len < 0"
    and "\<And>tr loop. int (bw_length w) < off + e_sys E tr (UvFs loop None (FsWrite fd b (nat off) (nat (len + 2 ^ 32)) pos))"
  shows "JHANDLER_FUNCTION (Write_fs E L) t [JNumber (num fd), jb, JNumber (num off), JNumber (num len), JNumber (num pos)] s =
    Inl (OutOfBounds ''uv_buf_t'')"
proof (rule fails_handler)
  let ?args = "[JNumber (num fd), jb, JNumber (num off), JNumber (num len), JNumber (num pos)]"
  let ?e = "handler_entry t ?args s" and ?f = "OutOfBounds ''uv_buf_t''"
  let ?op = "FsWrite fd b (nat off) (nat (len + 2 ^ 32)) pos"
  have E: "native_law E" and env: "env_initialized ?e"
    using assms(1) by (simp_all add: fs_inv_def net_inv_def handler_entry_def)
  have jb: "is_object jb" "\<forall>tr. e_prop E tr jb ''_builtin'' = (False, j)" using js_bufferD[OF assms(4)] by simp_all
  have b: "builtin u j b w" if "quiet ?e u" for u using quiet_builtin[OF that] assms(3) by simp
  have wf: "bw_length w < 2 ^ 31" "length (bytes w) = bw_length w" using assms(3) by (simp_all add: builtin_def buf_wf_def)
  have data: "bw_buffer w \<noteq> None"
    using assms(3,7,8) unfolding builtin_def buf_wf_def by auto
  have off: "in_int32 off" "in_int32 (off + len)" "c_int32 (int (bw_length w)) = int (bw_length w)"
    using assms(7-10) wf(1) by (simp_all add: in_int32_def)
  have len: "c_uint32 len = len + 2 ^ 32"
  proof -
    have "len mod 2 ^ 32 = (len + 2 ^ 32) mod 2 ^ 32" by simp
    also have "\<dots> = len + 2 ^ 32" using assms(9,10) by (intro mod_pos_pos_trivial) (simp_all add: in_int32_def)
    finally show ?thesis by (simp add: c_uint32_def uint_word_of_int take_bit_eq_mod)
  qed
  have fin: "fails ?f (FS_SYNC E L ?op) u" if u: "quiet ?e u" for u
  proof -
    let ?c = "UvFs (env_loop (env u)) None ?op"
    let ?r = "e_sys E (trace u) ?c"
    have r: "\<not> off + ?r \<le> int (bw_length w)" using assms(11) by (simp add: not_le)
    then have "\<not> ?r \<le> 0" "\<not> nat off + nat ?r \<le> bw_length w" using assms(7,8) by linarith+
    moreover have "bufs u b = Some w" using b[OF u] by (simp add: builtin_def)
    ultimately have "fails ?f (uv_fs_memory ?op ?r d) (u\<lparr>trace := tr\<rparr>)" for d tr
      using wf(2) by (simp add: fails_def uv_fs_memory_def get_bufferwrap_def bnd_def gets_def ret_def fail_def)
    then show ?thesis
      unfolding FS_SYNC_def
      by (intro fails_bnd) (simp add: iotjs_environment_loop_def wp_gets wp_sys, intro fails_bnd,
          simp add: wp_sys, intro fails_bnd, simp add: wp_gets fails_sq_first)
  qed
  show "fails ?f (Write_fs E L) ?e"
    unfolding Write_fs_def
    apply (rule fails_checks(1), simp add: assms(2))
    apply (rule fails_checks(2), simp add: jb(1))
    apply (rule fails_if_exist, simp)
    apply (rule fails_bnd, rule iffD2[OF wp_environment_get[OF env]])
    apply (rule fails_bnd, rule quiet_next[OF quiet_refl, where x = fd], rule GET_INT_wp, simp, simp, rule assms(5))
    apply (rule fails_bnd, rule quiet_next[where x = jb], assumption, simp add: wp_simps jb(1) quiet_frame)
    apply (rule fails_bnd, rule quiet_next[where x = off], assumption, rule GET_INT_wp, simp add: quiet_frame,
        simp add: quiet_frame, rule off(1))
    apply (rule fails_bnd, rule quiet_next[where x = len], assumption, rule GET_INT_wp, simp add: quiet_frame,
        simp add: quiet_frame, rule assms(9))
    apply (rule fails_bnd, rule quiet_next[where x = pos], assumption, rule GET_INT_wp, simp add: quiet_frame,
        simp add: quiet_frame, rule assms(6))
    apply (rule fails_bnd, rule quiet_next[where x = None], assumption,
        simp add: wp_JHANDLER_GET_ARG_IF_EXIST quiet_frame)
    apply (rule fails_bnd, rule quiet_next[where x = b], assumption, rule from_jbuffer_wp[OF E b jb], assumption)
    apply (rule fails_bnd, rule quiet_next[where x = "bw_buffer w"], assumption, use b in \<open>simp add: wp_simps builtin_def\<close>)
    apply (rule fails_bnd, rule quiet_next[where x = "bw_length w"], assumption, rule length_wp[OF E b assms(4)], assumption)
    subgoal premises q for u1 u2 u3 u4 u5 u6 u7 u8 u
      using fin[OF q(9)] data off assms(7,8,10) len
      by (simp add: JHANDLER_CHECK_def buffer_range_def)
    done
qed

text \<open>
  A concrete session: two buffers, a file that takes at most ten bytes at a time and never has any to
  read.
\<close>

definition fs_engine :: "call engine" where
  "fs_engine = wraps_engine\<lparr>
     e_prop := \<lambda>tr j n. if j = JObject 0 then e_prop wraps_engine tr j n else e_prop buffer_engine tr j n,
     e_sys := \<lambda>_ c. case c of UvFs _ _ (FsWrite _ _ _ n _) \<Rightarrow> min 10 (int n) | _ \<Rightarrow> 0\<rparr>"

definition fs_sample_lib :: fs_lib where
  "fs_sample_lib = \<lparr>lib_strerror = \<lambda>_. ''error'', lib_answer = \<lambda>_. \<lparr>ans_stat = \<lparr>st_dev = 0, st_mode = 0, st_nlink = 0,
     st_uid = 0, st_gid = 0, st_rdev = 0, st_blksize = 0, st_ino = 0, st_size = 0, st_blocks = 0\<rparr>,
     ans_names = [''a.txt''], ans_data = []\<rparr>\<rparr>"

definition fs_state :: "call fst" where
  "fs_state = bst.extend sample_buffers (fst.fields Map.empty)"

lemma fs_state_sel [simp]:
  "trace fs_state = trace sample_buffers" "handles fs_state = Map.empty" "reqs fs_state = Map.empty"
  "next_ptr fs_state = 3" "jmodule fs_state = (\<lambda>_. JObject 0)" "env_initialized fs_state"
  "bufs fs_state = bufs sample_buffers" "pend fs_state = Map.empty"
  by (simp_all add: fs_state_def sample_buffers_def bst.defs fst.defs)

lemma fs_state_ok:
  "builtin fs_state (JObject 1) 1 wrap_abc" "js_buffer fs_engine (JObject 2) (JObject 1) wrap_abc"
  "builtin fs_state (JObject 3) 2 wrap_xy" "js_buffer fs_engine (JObject 4) (JObject 3) wrap_xy"
  using sample_buffers_ok(2-5) by (simp_all add: builtin_def js_buffer_def fs_engine_def)

lemma fs_state_inv: "fs_inv fs_engine sample_live fs_state"
proof -
  have "process_ok fs_engine (JObject 0)" "native_law fs_engine" "sets_ok fs_engine" "fs_ok fs_engine (JObject 0)"
    by (auto simp: process_ok_def fs_ok_def sets_ok_def native_law_def fs_engine_def wraps_engine_def sample_engine_def)
  moreover have "io_law fs_engine"
    unfolding io_law_def res_ok_def fs_engine_def by (auto split: fs_op.split)
  moreover have "wraps_wf fs_state" by (simp add: wraps_wf_def)
  moreover have "buffers_ok fs_engine sample_live fs_state"
  proof -
    have "bw_length wrap_abc = 3" "bw_length wrap_xy = 2" by (simp_all add: wrap_abc_def wrap_xy_def)
    then show ?thesis using fs_state_ok by (auto simp: buffers_ok_def)
  qed
  ultimately show ?thesis by (simp add: fs_inv_def net_inv_def pend_ok_def)
qed




theorem fs_readdir_ignores_callback_witness:
  "\<exists>r u. JHANDLER_FUNCTION (ReadDir fs_engine fs_sample_lib) (JObject 5) [JString ''dir'', JFunction 9] fs_state = Inr (r, u) \<and>
    reqs u = Map.empty"
  using fs_readdir_ignores_callback[OF fs_state_inv, of "JObject 5" "''dir''" fs_sample_lib "JFunction 9"] by auto

theorem fs_write_negative_length_witness:
  "JHANDLER_FUNCTION (Write_fs fs_engine fs_sample_lib) (JObject 5)
      [JNumber (num 3), JObject 2, JNumber (num 0), JNumber (num (- 1)), JNumber (num 0)] fs_state =
    Inl (OutOfBounds ''uv_buf_t'')"
  by (rule fs_write_negative_length[OF fs_state_inv _ fs_state_ok(1,2)])
    (simp_all add: in_int32_def wrap_abc_def fs_engine_def)

end
