(* ===== verification/Iot_Systemio.thy ===== *)
theory Iot_Systemio
  imports Iot_Fs
begin

text \<open>
  \<^verbatim>\<open>src/platform/iotjs_systemio-linux.c\<close>: the modules of the pins drive devices through files that
  they open, read or write, and close at once, with the synchronous calls of libuv. \<open>calm\<close> says that a
  program makes such calls and changes nothing else; \<open>descriptors\<close> counts what it leaves open.
\<close>

section \<open>Text\<close>

definition digit :: "nat \<Rightarrow> char" where
  "digit d = ''0123456789'' ! d"

fun decimal_nat :: "nat \<Rightarrow> string" where
  "decimal_nat n = (if n < 10 then [digit n] else decimal_nat (n div 10) @ [digit (n mod 10)])"

declare decimal_nat.simps [simp del]

text \<open>\<^verbatim>\<open>%d\<close>, and \<^verbatim>\<open>snprintf\<close> into an array of \<open>sz\<close> bytes: at most \<open>sz - 1\<close> characters and a NUL.\<close>

definition decimal :: "int \<Rightarrow> string" where
  "decimal i = (if i < 0 then CHR ''-'' # decimal_nat (nat (- i)) else decimal_nat (nat i))"

definition snprintf_text :: "nat \<Rightarrow> string \<Rightarrow> string" where
  "snprintf_text sz tx = take (sz - 1) tx"

abbreviation DEVICE_IO_PATH_BUFFER_SIZE :: nat where "DEVICE_IO_PATH_BUFFER_SIZE \<equiv> 64"
abbreviation DEVICE_IO_PIN_BUFFER_SIZE :: nat where "DEVICE_IO_PIN_BUFFER_SIZE \<equiv> 10"

definition O_RDONLY :: int where "O_RDONLY = 0"
definition O_WRONLY :: int where "O_WRONLY = 1"

section \<open>Operations\<close>

text \<open>A call of libuv on files without a callback, and the cleanup of its request.\<close>

definition uv_fs_sync :: "call engine \<Rightarrow> call \<Rightarrow> ((call, 'z) rt_scheme, int) prog" where
  "uv_fs_sync E c =
     bnd (sys E c) (\<lambda>err.
     bnd (sys E (UvFs None None FsCleanup)) (\<lambda>_. ret err))"

definition DeviceCheckPath :: "call engine \<Rightarrow> string \<Rightarrow> ((call, 'z) ert_scheme, bool) prog" where
  "DeviceCheckPath E path =
     bnd iotjs_environment_get (\<lambda>_.
     bnd iotjs_environment_loop (\<lambda>loop.
     bnd (uv_fs_sync E (UvFs loop None (FsStat path))) (\<lambda>err.
     ret (err = 0))))"

definition DeviceOpenWriteClose :: "call engine \<Rightarrow> string \<Rightarrow> string \<Rightarrow> ((call, 'z) ert_scheme, bool) prog" where
  "DeviceOpenWriteClose E path value =
     bnd iotjs_environment_get (\<lambda>_.
     bnd iotjs_environment_loop (\<lambda>loop.
     bnd (uv_fs_sync E (UvFs loop None (FsOpen path O_WRONLY 438))) (\<lambda>fd.
     if fd < 0 then ret False
     else bnd (uv_fs_sync E (UvFsWrite loop fd value 0)) (\<lambda>write_err.
          bnd (uv_fs_sync E (UvFs loop None (FsClose fd))) (\<lambda>close_err.
          if write_err < 0 then ret False
          else if close_err < 0 then ret False
          else ret True)))))"

text \<open>Also the bytes that are in the array of the caller afterwards; the others keep their values.\<close>

definition DeviceOpenReadClose ::
  "call engine \<Rightarrow> fs_lib \<Rightarrow> string \<Rightarrow> nat \<Rightarrow> ((call, 'z) ert_scheme, bool \<times> char list) prog" where
  "DeviceOpenReadClose E L path buffer_len =
     bnd iotjs_environment_get (\<lambda>_.
     bnd iotjs_environment_loop (\<lambda>loop.
     bnd (uv_fs_sync E (UvFs loop None (FsOpen path O_RDONLY 438))) (\<lambda>fd.
     if fd < 0 then ret (False, [])
     else bnd (sys E (UvFsRead loop fd buffer_len 0)) (\<lambda>err.
          bnd (gets (\<lambda>s. take (nat err) (ans_data (lib_answer L (trace s))))) (\<lambda>data.
          bnd (sys E (UvFs None None FsCleanup)) (\<lambda>_.
          if err < 0 then ret (False, data)
          else bnd (uv_fs_sync E (UvFs loop None (FsClose fd))) (\<lambda>err.
               if err < 0 then ret (False, data) else ret (True, data))))))))"

text \<open>
  The two waiting loops: while \<open>cond\<close> fails and \<open>count < count_limit\<close>, sleep and count. The
  condition is tested once more when the limit is reached.
\<close>

function wait_until ::
  "call engine \<Rightarrow> ((call, 'z) ert_scheme, bool) prog \<Rightarrow> nat \<Rightarrow> nat \<Rightarrow> ((call, 'z) ert_scheme, nat) prog" where
  "wait_until E cond count_limit count =
     bnd cond (\<lambda>b.
     if b \<or> \<not> count < count_limit then ret count
     else bnd (sys E (SysUsleep 100000)) (\<lambda>_. wait_until E cond count_limit (count + 1)))"
  by pat_completeness auto
termination
  by (relation "measure (\<lambda>(E, cond, count_limit, count). count_limit - count)") auto

declare wait_until.simps [simp del]

text \<open>
  The path is the format of the path of each created file, so it must not contain a \<^verbatim>\<open>%\<close>.
\<close>

definition DeviceExport ::
  "call engine \<Rightarrow> fs_lib \<Rightarrow> string \<Rightarrow> int \<Rightarrow> string \<Rightarrow> string list \<Rightarrow> ((call, 'z) ert_scheme, bool) prog" where
  "DeviceExport E L export_path value exported_path created_files =
     bnd (DeviceCheckPath E exported_path) (\<lambda>b.
     if b then ret True
     else bnd (DeviceOpenWriteClose E export_path
                (snprintf_text (DEVICE_IO_PIN_BUFFER_SIZE - 1) (decimal value))) (\<lambda>b.
     if \<not> b then ret False
     else let count_limit = length created_files * 10 in
          bnd (wait_until E (DeviceCheckPath E exported_path) count_limit 0) (\<lambda>count.
          if length exported_path + 3 > DEVICE_IO_PATH_BUFFER_SIZE then fail (OutOfBounds ''check_format'')
          else if CHR ''%'' \<in> set exported_path then fail (Undefined ''format'')
          else bnd (fold_prog (\<lambda>count file.
                 wait_until E (bnd (DeviceOpenReadClose E L (snprintf_text (DEVICE_IO_PATH_BUFFER_SIZE - 1)
                     (exported_path @ file)) DEVICE_IO_PIN_BUFFER_SIZE) (\<lambda>(b, _). ret b)) count_limit count)
               count created_files) (\<lambda>count.
          bnd (sys E (SysUsleep 100000)) (\<lambda>_.
          ret (count < count_limit))))))"

definition DeviceUnexport :: "call engine \<Rightarrow> string \<Rightarrow> int \<Rightarrow> ((call, 'z) ert_scheme, bool) prog" where
  "DeviceUnexport E export_path value =
     DeviceOpenWriteClose E export_path (snprintf_text (DEVICE_IO_PIN_BUFFER_SIZE - 1) (decimal value))"

section \<open>They only make calls\<close>

text \<open>Programs that make calls of the system and change nothing else.\<close>

definition calm :: "(('c, 'z) ert_scheme, 'a) prog \<Rightarrow> bool" where
  "calm m \<longleftrightarrow> (\<forall>s. env_initialized s \<longrightarrow> wp m (\<lambda>_. quiet s) s)"

lemma quiet_env: "quiet s t \<Longrightarrow> env_initialized t = env_initialized s" "quiet s t \<Longrightarrow> env t = env s"
  by (auto simp: quiet_def)

lemma calm_bnd:
  assumes "calm m" "\<And>x. calm (f x)"
  shows "calm (bnd m f)"
  unfolding calm_def wp_bnd
proof (intro allI impI)
  fix s :: "('a, 'b) ert_scheme"
  assume s: "env_initialized s"
  then have "wp m (\<lambda>_. quiet s) s" using assms(1) by (simp add: calm_def)
  then show "wp m (\<lambda>x. wp (f x) (\<lambda>_. quiet s)) s"
  proof (rule wp_mono)
    fix x t
    assume q: "quiet s t"
    then have "wp (f x) (\<lambda>_. quiet t) t" using assms(2) s quiet_env(1)[OF q] by (simp add: calm_def)
    then show "wp (f x) (\<lambda>_. quiet s) t" by (rule wp_mono) (use q quiet_trans in blast)
  qed
qed

lemma calm_basic [intro!]:
  "calm (ret x)" "calm (gets g)" "calm (sys E c)" "calm iotjs_environment_get" "calm iotjs_environment_loop"
  by (auto simp: calm_def wp_simps iotjs_environment_get_def iotjs_environment_loop_def quiet_def)

lemma calm_if: "calm m \<Longrightarrow> calm n \<Longrightarrow> calm (if b then m else n)"
  by simp

lemma calm_sync [intro!]: "calm (uv_fs_sync E c)"
  unfolding uv_fs_sync_def by (intro calm_bnd calm_basic)

lemma calm_DeviceCheckPath [intro!]: "calm (DeviceCheckPath E path)"
  unfolding DeviceCheckPath_def by (intro calm_bnd calm_basic calm_sync)

lemma calm_DeviceOpenWriteClose [intro!]: "calm (DeviceOpenWriteClose E path v)"
  unfolding DeviceOpenWriteClose_def by (intro calm_bnd calm_basic calm_sync calm_if)

lemma calm_DeviceOpenReadClose [intro!]: "calm (DeviceOpenReadClose E L path n)"
  unfolding DeviceOpenReadClose_def by (intro calm_bnd calm_basic calm_sync calm_if)

lemma calm_wait_until:
  assumes "calm cond"
  shows "calm (wait_until E cond count_limit count)"
  using assms
proof (induction E cond count_limit count rule: wait_until.induct)
  case (1 E cond count_limit count)
  then show ?case
    by (subst wait_until.simps) (auto intro!: calm_bnd)
qed

lemma calm_fold: "(\<And>x y. calm (f x y)) \<Longrightarrow> calm (fold_prog f x ys)"
  by (induction ys arbitrary: x) (auto intro: calm_bnd)

lemma calm_DeviceExport:
  assumes "length exported_path \<le> 61" "CHR ''%'' \<notin> set exported_path"
  shows "calm (DeviceExport E L export_path v exported_path files)"
proof -
  have "calm (wait_until E (bnd (DeviceOpenReadClose E L path n) (\<lambda>(b, _). ret b)) l c)" for path n l c
    by (auto intro!: calm_wait_until calm_bnd)
  moreover have "calm (wait_until E (DeviceCheckPath E exported_path) l c)" for l c
    by (auto intro!: calm_wait_until)
  ultimately show ?thesis
    using assms unfolding DeviceExport_def Let_def
    by (auto intro!: calm_bnd calm_fold)
qed

lemma calm_DeviceUnexport: "calm (DeviceUnexport E path v)"
  unfolding DeviceUnexport_def by (rule calm_DeviceOpenWriteClose)

section \<open>Decimal numbers\<close>

lemma decimal_nat_digits: "set (decimal_nat n) \<subseteq> set ''0123456789''"
proof (induction n rule: decimal_nat.induct)
  case (1 n)
  have "digit m \<in> set ''0123456789''" if "m < 10" for m
    using that unfolding digit_def by (intro nth_mem) simp
  then have "digit n \<in> set ''0123456789''" if "n < 10" using that .
  moreover have "digit (n mod 10) \<in> set ''0123456789''"
    unfolding digit_def by (intro nth_mem) simp
  moreover have "set [c] \<subseteq> A" if "c \<in> A" for c and A :: "char set" using that by simp
  ultimately show ?case
    using 1 unfolding decimal_nat.simps[of n]
    by (cases "n < 10") (simp_all only: set_append Un_subset_iff if_True if_False simp_thms)
qed

lemma decimal_nat_length: "n < 10 ^ k \<Longrightarrow> 0 < k \<Longrightarrow> length (decimal_nat n) \<le> k"
proof (induction n arbitrary: k rule: decimal_nat.induct)
  case (1 n)
  show ?case
  proof (cases "n < 10")
    case True
    then show ?thesis using 1(3) by (subst decimal_nat.simps) simp
  next
    case False
    with 1(2) have k: "1 < k" by (cases "k = 1") (use 1(3) in auto)
    then have "n div 10 < 10 ^ (k - 1)" using 1(2) by (cases k) (auto simp: less_mult_imp_div_less mult.commute)
    then have "length (decimal_nat (n div 10)) \<le> k - 1" using 1(1)[OF False] k by simp
    then show ?thesis using False k by (subst decimal_nat.simps) simp
  qed
qed

lemma decimal_int32:
  assumes "in_int32 i"
  shows "length (decimal i) \<le> 11" "CHR ''%'' \<notin> set (decimal i)"
proof -
  have "nat i < 10 ^ 10" "nat (- i) < 10 ^ 10" using assms by (cases "0 \<le> i"; simp add: in_int32_def nat_less_iff)+
  then have "length (decimal_nat (nat i)) \<le> 10" "length (decimal_nat (nat (- i))) \<le> 10"
    by (auto intro: decimal_nat_length)
  then show "length (decimal i) \<le> 11" by (auto simp: decimal_def)
  show "CHR ''%'' \<notin> set (decimal i)"
    using decimal_nat_digits[of "nat i"] decimal_nat_digits[of "nat (- i)"] by (auto simp: decimal_def)
qed

section \<open>File descriptors\<close>

text \<open>How often descriptor \<open>n\<close> has been opened less how often it has been closed.\<close>

fun fd_change :: "call ev \<Rightarrow> int \<Rightarrow> int" where
  "fd_change (ESys (UvFs _ None (FsOpen _ _ _)) r) n = (if r = n \<and> 0 \<le> r then 1 else 0)"
| "fd_change (ESys (UvFs _ None (FsClose fd)) r) n = (if fd = n then -1 else 0)"
| "fd_change _ n = 0"

definition descriptors :: "call ev list \<Rightarrow> int \<Rightarrow> int" where
  "descriptors tr n = (\<Sum>e\<leftarrow>tr. fd_change e n)"

lemma descriptors_append [simp]: "descriptors (tr @ es) n = descriptors tr n + descriptors es n"
  by (simp add: descriptors_def)

lemma wp_env_get:
  "env_initialized s \<Longrightarrow> wp iotjs_environment_get Q s = Q (env s) s"
  by (simp add: iotjs_environment_get_def wp_simps)

text \<open>The calls that a write makes, and whether it reports success.\<close>

definition device_write :: "nat option \<Rightarrow> string \<Rightarrow> string \<Rightarrow> bool \<Rightarrow> call ev list \<Rightarrow> bool" where
  "device_write loop path v b es \<longleftrightarrow> (\<exists>fd e.
     if fd < 0 then \<not> b \<and> es = [ESys (UvFs loop None (FsOpen path O_WRONLY 438)) fd, e]
     else \<exists>k c e' e''. b = (0 \<le> k \<and> 0 \<le> c) \<and>
       es = [ESys (UvFs loop None (FsOpen path O_WRONLY 438)) fd, e,
         ESys (UvFsWrite loop fd v 0) k, e', ESys (UvFs loop None (FsClose fd)) c, e''])"

lemma DeviceOpenWriteClose_wp:
  fixes s :: "(call, 'z) ert_scheme"
  assumes "env_initialized s"
  shows "wp (DeviceOpenWriteClose E path v) (\<lambda>b t. quiet s t \<and> (\<exists>es. trace t = trace s @ es \<and> device_write (env_loop (env s)) path v b es)) s"
proof (rule wp_conj)
  show "wp (DeviceOpenWriteClose E path v) (\<lambda>b t. quiet s t) s"
    by (rule calm_DeviceOpenWriteClose[unfolded calm_def, rule_format, OF assms])
  show "wp (DeviceOpenWriteClose E path v) (\<lambda>b t. \<exists>es. trace t = trace s @ es \<and> device_write (env_loop (env s)) path v b es) s"
    unfolding DeviceOpenWriteClose_def device_write_def
    by (auto simp: uv_fs_sync_def wp_env_get[OF assms] iotjs_environment_loop_def wp_simps not_less)
qed

text \<open>C39. Writing a device file opens it, writes the text at offset 0 and always closes the descriptor
  it got, whether the write succeeded or not; it reports success exactly when all three calls
  succeed. Reading also closes it, but not when the read itself fails: then the descriptor stays
  open for good. As reading is how \<^verbatim>\<open>DeviceExport\<close> polls, each failing poll can lose one.\<close>

theorem device_file_descriptors:
  fixes s :: "(call, 'z) ert_scheme"
  assumes "env_initialized s"
  shows "(\<exists>b t. DeviceOpenWriteClose E path v s = Inr (b, t) \<and> (\<forall>n. descriptors (trace t) n = descriptors (trace s) n) \<and>
      (b \<longrightarrow> (\<exists>fd k c e1 e2 e3. 0 \<le> fd \<and> 0 \<le> k \<and> 0 \<le> c \<and> trace t = trace s @
        [ESys (UvFs (env_loop (env s)) None (FsOpen path O_WRONLY 438)) fd, e1,
         ESys (UvFsWrite (env_loop (env s)) fd v 0) k, e2, ESys (UvFs (env_loop (env s)) None (FsClose fd)) c, e3]))) \<and>
    (\<exists>b data t fd. DeviceOpenReadClose E L path len s = Inr ((b, data), t) \<and>
      (\<forall>n. descriptors (trace t) n = descriptors (trace s) n +
         (if n = fd \<and> 0 \<le> fd \<and> (\<exists>r < 0. ESys (UvFsRead (env_loop (env s)) fd len 0) r \<in> set (drop (length (trace s)) (trace t)))
          then 1 else 0)))"
  (is "?writes \<and> ?reads")
proof
  let ?d = "\<lambda>t n. descriptors (trace t) n - descriptors (trace s) n"
  note run = uv_fs_sync_def wp_env_get[OF assms] iotjs_environment_loop_def wp_simps
  have "wp (DeviceOpenWriteClose E path v) (\<lambda>b t. (\<forall>n. ?d t n = 0) \<and>
      (b \<longrightarrow> (\<exists>fd k c e1 e2 e3. 0 \<le> fd \<and> 0 \<le> k \<and> 0 \<le> c \<and> trace t = trace s @
        [ESys (UvFs (env_loop (env s)) None (FsOpen path O_WRONLY 438)) fd, e1,
         ESys (UvFsWrite (env_loop (env s)) fd v 0) k, e2, ESys (UvFs (env_loop (env s)) None (FsClose fd)) c, e3]))) s"
    unfolding DeviceOpenWriteClose_def by (simp add: run descriptors_def not_less)
  then show ?writes unfolding wp_runs by auto
  have "wp (DeviceOpenReadClose E L path len) (\<lambda>_ t. \<exists>fd. \<forall>n. ?d t n =
      (if n = fd \<and> 0 \<le> fd \<and> (\<exists>r < 0. ESys (UvFsRead (env_loop (env s)) fd len 0) r \<in> set (drop (length (trace s)) (trace t)))
       then 1 else 0)) s"
    unfolding DeviceOpenReadClose_def by (simp add: run descriptors_def not_less)
  then show ?reads unfolding wp_runs by (auto simp: algebra_simps)
qed

theorem device_file_descriptors_witness:
  "\<exists>b t. DeviceOpenWriteClose buffer_engine ''/sys/class/gpio/export'' ''17'' sample_buffers = Inr (b, t) \<and>
     descriptors (trace t) 0 = 0"
proof -
  have "env_initialized sample_buffers" "descriptors (trace sample_buffers) 0 = 0"
    by (simp_all add: sample_buffers_def descriptors_def)
  then show ?thesis
    using conjunct1[OF device_file_descriptors[of sample_buffers buffer_engine "''/sys/class/gpio/export''" "''17''"]]
    by fastforce
qed

end
