(* ===== verification/Iot_Gpio.thy ===== *)
theory Iot_Gpio
  imports Iot_Systemio
begin

text \<open>
  The pin module, \<^verbatim>\<open>src/module/iotjs_module_gpio.c\<close> and
  \<^verbatim>\<open>src/platform/iotjs_module_gpio-linux-general.inl.h\<close>. A handler makes a request and gives it to the
  thread pool of libuv; a thread runs the worker of the request, which drives the pin through files
  (\<open>Iot_Systemio\<close>) and leaves its result in the request; the loop then calls \<open>AfterGPIOWork\<close>, which hands the
  result to the callback and keeps the flag of the module. A worker is one step here: threads run in any
  order, but two of them do not interleave within a worker.
\<close>

section \<open>Data\<close>

datatype GpioDirection = kGpioDirectionNone | kGpioDirectionIn | kGpioDirectionOut

datatype GpioMode =
    kGpioModeNone
  | kGpioModePullup
  | kGpioModePulldown
  | kGpioModeFloat
  | kGpioModePushpull
  | kGpioModeOpendrain

datatype GpioError = kGpioErrOk | kGpioErrInitialize | kGpioErrNotInitialized | kGpioErrWrongUse | kGpioErrSys

datatype GpioOp = kGpioOpInitize | kGpioOpRelease | kGpioOpOpen | kGpioOpWrite | kGpioOpRead

text \<open>The numbers of the enumerations; a number from JavaScript that is none of them is refused.\<close>

fun gpio_error_code :: "GpioError \<Rightarrow> int" where
  "gpio_error_code kGpioErrOk = 0"
| "gpio_error_code kGpioErrInitialize = - 1"
| "gpio_error_code kGpioErrNotInitialized = - 2"
| "gpio_error_code kGpioErrWrongUse = - 98"
| "gpio_error_code kGpioErrSys = - 99"

definition gpio_direction_of :: "int \<Rightarrow> GpioDirection option" where
  "gpio_direction_of i =
     (if i = 0 then Some kGpioDirectionNone else if i = 1 then Some kGpioDirectionIn
      else if i = 2 then Some kGpioDirectionOut else None)"

definition gpio_mode_of :: "int \<Rightarrow> GpioMode option" where
  "gpio_mode_of i =
     (if i = 0 then Some kGpioModeNone else if i = 1 then Some kGpioModePullup
      else if i = 2 then Some kGpioModePulldown else if i = 3 then Some kGpioModeFloat
      else if i = 4 then Some kGpioModePushpull else if i = 5 then Some kGpioModeOpendrain else None)"

record iotjs_gpio_reqdata_t =
  gp_pin :: int
  gp_value :: bool
  gp_dir :: GpioDirection
  gp_mode :: GpioMode
  gp_result :: GpioError
  gp_op :: GpioOp

record iotjs_gpio_t =
  gpio_jobject :: jval
  gpio_is_initialized :: bool

text \<open>
  \<open>gpio_work\<close> is what libuv knows of the requests it was given: the worker, and whether a thread
  of its pool has run it. Then the loop will call \<^verbatim>\<open>AfterGPIOWork\<close>.
\<close>

record 'c gpt = "'c wrt" +
  gpio_data :: "nat \<Rightarrow> iotjs_gpio_reqdata_t option"
  gpio_wraps :: "nat \<Rightarrow> iotjs_gpio_t option"
  gpio_work :: "nat \<Rightarrow> (GpioOp \<times> bool) option"

definition get_gpio_data :: "nat \<Rightarrow> (('c, 'z) gpt_scheme, iotjs_gpio_reqdata_t) prog" where
  "get_gpio_data p =
     bnd (gets (\<lambda>s. gpio_data s p)) (\<lambda>d.
     case d of None \<Rightarrow> fail (UseAfterFree ''req_data'') | Some d \<Rightarrow> ret d)"

definition upd_gpio_data ::
  "nat \<Rightarrow> (iotjs_gpio_reqdata_t \<Rightarrow> iotjs_gpio_reqdata_t) \<Rightarrow> (('c, 'z) gpt_scheme, unit) prog" where
  "upd_gpio_data p f = bnd (get_gpio_data p) (\<lambda>d. upd (\<lambda>s. s\<lparr>gpio_data := (gpio_data s)(p \<mapsto> f d)\<rparr>))"

definition get_gpio :: "nat \<Rightarrow> (('c, 'z) gpt_scheme, iotjs_gpio_t) prog" where
  "get_gpio p =
     bnd (gets (\<lambda>s. gpio_wraps s p)) (\<lambda>g.
     case g of None \<Rightarrow> fail (if p = 0 then NullPointer ''gpio'' else UseAfterFree ''gpio'') | Some g \<Rightarrow> ret g)"

section \<open>The request wrapper\<close>

text \<open>\<^verbatim>\<open>IOTJS_ALLOC\<close> clears the memory, so the other fields of the request are 0.\<close>

definition iotjs_gpio_reqwrap_create :: "jval \<Rightarrow> GpioOp \<Rightarrow> (('c, 'z) gpt_scheme, nat) prog" where
  "iotjs_gpio_reqwrap_create jcallback op =
     bnd IOTJS_ALLOC (\<lambda>gpio_reqwrap.
     sq (iotjs_reqwrap_initialize gpio_reqwrap jcallback)
    (sq (upd (\<lambda>s. s\<lparr>gpio_data := (gpio_data s)(gpio_reqwrap \<mapsto>
           \<lparr>gp_pin = 0, gp_value = False, gp_dir = kGpioDirectionNone, gp_mode = kGpioModeNone,
            gp_result = kGpioErrOk, gp_op = op\<rparr>)\<rparr>))
    (ret gpio_reqwrap)))"

definition iotjs_gpio_reqwrap_destroy :: "nat \<Rightarrow> (('c, 'z) gpt_scheme, unit) prog" where
  "iotjs_gpio_reqwrap_destroy gpio_reqwrap =
     sq (iotjs_reqwrap_destroy gpio_reqwrap)
    (sq (upd (\<lambda>s. s\<lparr>gpio_data := (gpio_data s)(gpio_reqwrap := None)\<rparr>))
    IOTJS_RELEASE)"

definition iotjs_gpio_reqwrap_dispatched :: "nat \<Rightarrow> (('c, 'z) gpt_scheme, unit) prog" where
  "iotjs_gpio_reqwrap_dispatched gpio_reqwrap = iotjs_gpio_reqwrap_destroy gpio_reqwrap"

definition iotjs_gpio_reqwrap_req :: "nat \<Rightarrow> nat" where
  "iotjs_gpio_reqwrap_req gpio_reqwrap = gpio_reqwrap"

definition iotjs_gpio_reqwrap_jcallback :: "nat \<Rightarrow> (('c, 'z) wrt_scheme, jval) prog" where
  "iotjs_gpio_reqwrap_jcallback gpio_reqwrap = iotjs_reqwrap_jcallback gpio_reqwrap"

definition iotjs_reqwrap_from_request :: "nat \<Rightarrow> (('c, 'z) wrt_scheme, nat) prog" where
  "iotjs_reqwrap_from_request req = bnd (iotjs_reqwrap_jcallback req) (\<lambda>_. ret req)"

definition iotjs_gpio_reqwrap_from_request :: "nat \<Rightarrow> (('c, 'z) wrt_scheme, nat) prog" where
  "iotjs_gpio_reqwrap_from_request req = iotjs_reqwrap_from_request req"

definition iotjs_gpio_reqwrap_data :: "nat \<Rightarrow> (('c, 'z) gpt_scheme, iotjs_gpio_reqdata_t) prog" where
  "iotjs_gpio_reqwrap_data gpio_reqwrap = get_gpio_data gpio_reqwrap"

section \<open>The object of the module\<close>

definition iotjs_gpio_create :: "jval \<Rightarrow> (('c, 'z) gpt_scheme, nat) prog" where
  "iotjs_gpio_create jgpio =
     bnd IOTJS_ALLOC (\<lambda>gpio.
     sq (iotjs_jobjectwrap_initialize gpio jgpio)
    (sq (upd (\<lambda>s. s\<lparr>gpio_wraps := (gpio_wraps s)(gpio \<mapsto>
           \<lparr>gpio_jobject = jgpio, gpio_is_initialized = False\<rparr>)\<rparr>))
    (ret gpio)))"

definition iotjs_gpio_destroy :: "nat \<Rightarrow> (('c, 'z) gpt_scheme, unit) prog" where
  "iotjs_gpio_destroy gpio =
     bnd (get_gpio gpio) (\<lambda>_.
     sq (upd (\<lambda>s. s\<lparr>gpio_wraps := (gpio_wraps s)(gpio := None)\<rparr>))
    IOTJS_RELEASE)"

definition iotjs_gpio_get_jgpio :: "(('c, 'z) mrt_scheme, jval) prog" where
  "iotjs_gpio_get_jgpio = iotjs_module_get MODULE_GPIO"

text \<open>\<open>field\<close> reads \<^verbatim>\<open>jobject\<close> of the wrapper at an address.\<close>

definition iotjs_jobjectwrap_from_jobject ::
  "'c engine \<Rightarrow> (nat \<Rightarrow> (('c, 'z) rt_scheme, jval) prog) \<Rightarrow> jval \<Rightarrow> (('c, 'z) rt_scheme, nat) prog" where
  "iotjs_jobjectwrap_from_jobject E field jobject =
     bnd (iotjs_jval_get_object_native_handle E jobject) (\<lambda>wrap.
     bnd (field wrap) (\<lambda>obj.
     bnd (iotjs_jobjectwrap_jobject E wrap obj) (\<lambda>j.
     sq (IOTJS_ASSERT ''iotjs_jobjectwrap_from_jobject'' (is_object j))
    (ret wrap))))"

definition iotjs_gpio_get_instance :: "'c engine \<Rightarrow> (('c, 'z) gpt_scheme, nat) prog" where
  "iotjs_gpio_get_instance E =
     bnd iotjs_gpio_get_jgpio (\<lambda>jgpio.
     iotjs_jobjectwrap_from_jobject E (\<lambda>p. bnd (get_gpio p) (\<lambda>g. ret (gpio_jobject g))) jgpio)"

definition iotjs_gpio_initialized :: "'c engine \<Rightarrow> (('c, 'z) gpt_scheme, bool) prog" where
  "iotjs_gpio_initialized E =
     bnd (iotjs_gpio_get_instance E) (\<lambda>gpio.
     bnd (get_gpio gpio) (\<lambda>g. ret (gpio_is_initialized g)))"

definition iotjs_gpio_set_initialized :: "nat \<Rightarrow> bool \<Rightarrow> (('c, 'z) gpt_scheme, unit) prog" where
  "iotjs_gpio_set_initialized gpio initialized =
     bnd (get_gpio gpio) (\<lambda>g.
     upd (\<lambda>s. s\<lparr>gpio_wraps := (gpio_wraps s)(gpio \<mapsto> g\<lparr>gpio_is_initialized := initialized\<rparr>)\<rparr>))"

section \<open>Submission and completion\<close>

fun gpio_worker_name :: "GpioOp \<Rightarrow> string" where
  "gpio_worker_name kGpioOpInitize = ''InitializeGpioWorker''"
| "gpio_worker_name kGpioOpRelease = ''ReleaseGpioWorker''"
| "gpio_worker_name kGpioOpOpen = ''OpenGpioWorker''"
| "gpio_worker_name kGpioOpWrite = ''WriteGpioWorker''"
| "gpio_worker_name kGpioOpRead = ''ReadGpioWorker''"

definition GPIO_ASYNC :: "call engine \<Rightarrow> GpioOp \<Rightarrow> bool \<Rightarrow> nat \<Rightarrow> ((call, 'z) gpt_scheme, unit) prog" where
  "GPIO_ASYNC E worker initialized req_wrap =
     bnd (iotjs_gpio_initialized E) (\<lambda>b.
     sq (IOTJS_ASSERT ''GPIO_ASYNC'' (b = initialized))
    (bnd iotjs_environment_get (\<lambda>_.
     bnd iotjs_environment_loop (\<lambda>loop.
     bnd (ret (iotjs_gpio_reqwrap_req req_wrap)) (\<lambda>req.
     bnd (sys E (UvQueueWork loop req (gpio_worker_name worker))) (\<lambda>_.
     upd (\<lambda>s. s\<lparr>gpio_work := (gpio_work s)(req \<mapsto> (worker, False))\<rparr>)))))))"

definition AfterGPIOWork :: "call engine \<Rightarrow> nat \<Rightarrow> int \<Rightarrow> ((call, 'z) gpt_scheme, unit) prog" where
  "AfterGPIOWork E work_req status =
     bnd (iotjs_gpio_get_instance E) (\<lambda>gpio.
     bnd (iotjs_gpio_reqwrap_from_request work_req) (\<lambda>req_wrap.
     bnd (iotjs_gpio_reqwrap_data req_wrap) (\<lambda>req_data.
     bnd (ret (if status \<noteq> 0 then kGpioErrSys else gp_result req_data)) (\<lambda>result.
     bnd (iotjs_jargs_create 2) (\<lambda>jargs.
     bnd (iotjs_jargs_append_number jargs (num (gpio_error_code result))) (\<lambda>jargs.
     bnd (case gp_op req_data of
            kGpioOpInitize \<Rightarrow>
              sq (if result = kGpioErrOk then iotjs_gpio_set_initialized gpio True else ret ()) (ret jargs)
          | kGpioOpRelease \<Rightarrow>
              sq (if result = kGpioErrOk then iotjs_gpio_set_initialized gpio False else ret ()) (ret jargs)
          | kGpioOpOpen \<Rightarrow> ret jargs
          | kGpioOpWrite \<Rightarrow> ret jargs
          | kGpioOpRead \<Rightarrow>
              if result = kGpioErrOk then iotjs_jargs_append_bool jargs (gp_value req_data) else ret jargs) (\<lambda>jargs.
     bnd (iotjs_gpio_reqwrap_jcallback req_wrap) (\<lambda>jcallback.
     bnd iotjs_gpio_get_jgpio (\<lambda>jgpio.
     sq (iotjs_make_callback E jcallback jgpio jargs)
    (sq (iotjs_jargs_destroy jargs)
    (iotjs_gpio_reqwrap_dispatched req_wrap)))))))))))"

section \<open>Handlers\<close>

definition Initialize :: "call engine \<Rightarrow> ((call, 'z) gpt_scheme, unit) prog" where
  "Initialize E =
     JHANDLER_CHECK_ARGS E ''___Initialize_native'' [is_function]
    (bnd (JHANDLER_GET_ARG 0 iotjs_jval_as_function) (\<lambda>jcallback.
     bnd (iotjs_gpio_reqwrap_create jcallback kGpioOpInitize) (\<lambda>req_wrap.
     sq (GPIO_ASYNC E kGpioOpInitize False req_wrap)
     iotjs_jhandler_return_null)))"

definition Release :: "call engine \<Rightarrow> ((call, 'z) gpt_scheme, unit) prog" where
  "Release E =
     JHANDLER_CHECK_ARGS E ''___Release_native'' [is_function]
    (bnd (JHANDLER_GET_ARG 0 iotjs_jval_as_function) (\<lambda>jcallback.
     bnd (iotjs_gpio_reqwrap_create jcallback kGpioOpRelease) (\<lambda>req_wrap.
     sq (GPIO_ASYNC E kGpioOpRelease True req_wrap)
     iotjs_jhandler_return_null)))"

text \<open>An enumeration is an unsigned type for the compilers of the targets, as it has no negative constant.\<close>

definition Open_gpio :: "call engine \<Rightarrow> ((call, 'z) gpt_scheme, unit) prog" where
  "Open_gpio E =
     JHANDLER_CHECK_ARGS E ''___Open_native'' [is_number, is_number, is_number, is_function]
    (bnd (JHANDLER_GET_INT 0) (\<lambda>pin.
     bnd (bnd (JHANDLER_GET_ARG 1 iotjs_jval_as_number) to_unsigned) (\<lambda>dir.
     bnd (bnd (JHANDLER_GET_ARG 2 iotjs_jval_as_number) to_unsigned) (\<lambda>mode.
     bnd (JHANDLER_GET_ARG 3 iotjs_jval_as_function) (\<lambda>jcallback.
     case gpio_direction_of dir of
       None \<Rightarrow> JHANDLER_THROW E IOTJS_ERROR_TYPE ''Invalid GPIO direction''
     | Some dir \<Rightarrow>
         (case gpio_mode_of mode of
            None \<Rightarrow> JHANDLER_THROW E IOTJS_ERROR_TYPE ''Invalid GPIO mode''
          | Some mode \<Rightarrow>
              bnd (iotjs_gpio_reqwrap_create jcallback kGpioOpOpen) (\<lambda>req_wrap.
              sq (upd_gpio_data req_wrap (\<lambda>d. d\<lparr>gp_pin := c_uint32 pin, gp_dir := dir, gp_mode := mode\<rparr>))
             (sq (GPIO_ASYNC E kGpioOpOpen True req_wrap)
              iotjs_jhandler_return_null))))))))"

definition Write_gpio :: "call engine \<Rightarrow> ((call, 'z) gpt_scheme, unit) prog" where
  "Write_gpio E =
     JHANDLER_CHECK_ARGS E ''___Write_native'' [is_number, is_boolean, is_function]
    (bnd (bnd (JHANDLER_GET_ARG 0 iotjs_jval_as_number) to_unsigned) (\<lambda>pin.
     bnd (JHANDLER_GET_ARG 1 iotjs_jval_as_boolean) (\<lambda>value.
     bnd (JHANDLER_GET_ARG 2 iotjs_jval_as_function) (\<lambda>jcallback.
     bnd (iotjs_gpio_reqwrap_create jcallback kGpioOpWrite) (\<lambda>req_wrap.
     sq (upd_gpio_data req_wrap (\<lambda>d. d\<lparr>gp_pin := pin, gp_value := value\<rparr>))
    (sq (GPIO_ASYNC E kGpioOpWrite True req_wrap)
     iotjs_jhandler_return_null))))))"

definition Read_gpio :: "call engine \<Rightarrow> ((call, 'z) gpt_scheme, unit) prog" where
  "Read_gpio E =
     JHANDLER_CHECK_ARGS E ''___Read_native'' [is_number, is_function]
    (bnd (bnd (JHANDLER_GET_ARG 0 iotjs_jval_as_number) to_unsigned) (\<lambda>pin.
     bnd (JHANDLER_GET_ARG 1 iotjs_jval_as_function) (\<lambda>jcallback.
     bnd (iotjs_gpio_reqwrap_create jcallback kGpioOpRead) (\<lambda>req_wrap.
     sq (upd_gpio_data req_wrap (\<lambda>d. d\<lparr>gp_pin := pin\<rparr>))
    (sq (GPIO_ASYNC E kGpioOpRead True req_wrap)
     iotjs_jhandler_return_null)))))"

text \<open>The object that the initialiser creates belongs to the collector; its wrapper takes one block.\<close>

definition InitGpio :: "'c engine \<Rightarrow> (('c, 'z) gpt_scheme, jval) prog" where
  "InitGpio E =
     bnd (iotjs_jval_create_object E) (\<lambda>jgpio.
     sq (set_methods E jgpio [''initialize'', ''release'', ''open'', ''write'', ''read''])
    (sq (set_numbers E jgpio
           [(''kGpioDirectionNone'', 0), (''kGpioDirectionIn'', 1), (''kGpioDirectionOut'', 2),
            (''kGpioModeNone'', 0), (''kGpioModePullup'', 1), (''kGpioModePulldown'', 2),
            (''kGpioModeFloat'', 3), (''kGpioModePushpull'', 4), (''kGpioModeOpendrain'', 5),
            (''kGpioErrOk'', gpio_error_code kGpioErrOk), (''kGpioErrInitialize'', gpio_error_code kGpioErrInitialize),
            (''kGpioErrNotInitialized'', gpio_error_code kGpioErrNotInitialized),
            (''kGpioErrWrongUse'', gpio_error_code kGpioErrWrongUse), (''kGpioErrSys'', gpio_error_code kGpioErrSys)])
    (bnd (iotjs_gpio_create jgpio) (\<lambda>gpio.
     bnd (iotjs_jval_get_object_native_handle E jgpio) (\<lambda>n.
     sq (IOTJS_ASSERT ''InitGpio'' (gpio = n)) (ret jgpio))))))"

section \<open>Workers\<close>

definition GPIO_INTERFACE :: string where
  "GPIO_INTERFACE = ''/sys/class/gpio/''"

definition gpio_pin_path :: "int \<Rightarrow> string" where
  "gpio_pin_path pin = GPIO_INTERFACE @ ''gpio'' @ decimal (c_int32 pin) @ ''/''"

definition gpio_path :: "string \<Rightarrow> string" where
  "gpio_path tx = snprintf_text (DEVICE_IO_PATH_BUFFER_SIZE - 1) tx"

definition UnexportPin :: "call engine \<Rightarrow> int \<Rightarrow> ((call, 'z) ert_scheme, bool) prog" where
  "UnexportPin E pin =
     bnd (DeviceOpenWriteClose E (GPIO_INTERFACE @ ''unexport'')
           (snprintf_text (DEVICE_IO_PIN_BUFFER_SIZE - 1) (decimal (c_int32 pin)))) (\<lambda>b.
     if \<not> b then ret False else ret True)"

definition SetPinDirection :: "call engine \<Rightarrow> int \<Rightarrow> GpioDirection \<Rightarrow> ((call, 'z) ert_scheme, bool) prog" where
  "SetPinDirection E pin direction =
     sq (IOTJS_ASSERT ''SetPinDirection'' (direction = kGpioDirectionIn \<or> direction = kGpioDirectionOut))
     (DeviceOpenWriteClose E (gpio_path (gpio_pin_path pin @ ''direction''))
        (if direction = kGpioDirectionIn then ''in'' else ''out''))"

definition SetPinMode :: "int \<Rightarrow> GpioMode \<Rightarrow> ('s, bool) prog" where
  "SetPinMode pin mode =
     sq (IOTJS_ASSERT ''SetPinMode'' (mode \<noteq> kGpioModeNone \<and> mode \<noteq> kGpioModeOpendrain)) (ret True)"

definition GPIO_WORKER_INIT_TEMPLATE ::
  "'c engine \<Rightarrow> bool \<Rightarrow> nat \<Rightarrow> (nat \<Rightarrow> iotjs_gpio_reqdata_t \<Rightarrow> (('c, 'z) gpt_scheme, unit) prog) \<Rightarrow>
     (('c, 'z) gpt_scheme, unit) prog" where
  "GPIO_WORKER_INIT_TEMPLATE E initialized work_req body =
     bnd (iotjs_gpio_initialized E) (\<lambda>b.
     sq (IOTJS_ASSERT ''GPIO_WORKER_INIT_TEMPLATE'' (b = initialized))
    (bnd (iotjs_gpio_reqwrap_from_request work_req) (\<lambda>req_wrap.
     bnd (iotjs_gpio_reqwrap_data req_wrap) (\<lambda>req_data.
     body req_wrap req_data))))"

definition gpio_set_result :: "nat \<Rightarrow> GpioError \<Rightarrow> (('c, 'z) gpt_scheme, unit) prog" where
  "gpio_set_result p r = upd_gpio_data p (\<lambda>d. d\<lparr>gp_result := r\<rparr>)"

definition InitializeGpioWorker :: "call engine \<Rightarrow> nat \<Rightarrow> ((call, 'z) gpt_scheme, unit) prog" where
  "InitializeGpioWorker E work_req =
     GPIO_WORKER_INIT_TEMPLATE E False work_req (\<lambda>p _.
     bnd (DeviceCheckPath E GPIO_INTERFACE) (\<lambda>b.
     if b then gpio_set_result p kGpioErrOk else gpio_set_result p kGpioErrInitialize))"

text \<open>
  \<^verbatim>\<open>sscanf(name, "gpio%d/", &n) == 1\<close>: the number is converted when at least one digit follows the
  letters, white space and a sign.
\<close>

definition is_digit :: "char \<Rightarrow> bool" where
  "is_digit c \<longleftrightarrow> c \<in> set ''0123456789''"

definition digit_value :: "char \<Rightarrow> int" where
  "digit_value c = int (of_char c) - 48"

definition is_space :: "char \<Rightarrow> bool" where
  "is_space c \<longleftrightarrow> c \<in> {CHR '' '', CHR 0x09, CHR 0x0A, CHR 0x0B, CHR 0x0C, CHR 0x0D}"

definition unsigned_value :: "string \<Rightarrow> int" where
  "unsigned_value ds = foldl (\<lambda>n c. 10 * n + digit_value c) 0 ds"

text \<open>The number at the start of a text, when there is one, and what follows it.\<close>

definition scan_int :: "string \<Rightarrow> int option \<times> string" where
  "scan_int tx =
     (let t = dropWhile is_space tx;
          (neg, u) = (case t of c # u \<Rightarrow> if c = CHR ''-'' then (True, u) else if c = CHR ''+'' then (False, u)
                        else (False, t) | [] \<Rightarrow> (False, []));
          ds = takeWhile is_digit u; r = dropWhile is_digit u
      in if ds = [] then (None, r)
         else (Some (if neg then - unsigned_value ds else unsigned_value ds), r))"

definition scan_gpio_name :: "string \<Rightarrow> int option" where
  "scan_gpio_name name = (if take 4 name = ''gpio'' then fst (scan_int (drop 4 name)) else None)"

definition ReleaseGpioWorker :: "call engine \<Rightarrow> fs_lib \<Rightarrow> nat \<Rightarrow> ((call, 'z) gpt_scheme, unit) prog" where
  "ReleaseGpioWorker E L work_req =
     GPIO_WORKER_INIT_TEMPLATE E True work_req (\<lambda>p _.
     sq (gpio_set_result p kGpioErrOk)
    (bnd iotjs_environment_get (\<lambda>_.
     bnd iotjs_environment_loop (\<lambda>loop.
     bnd (sys E (UvFs loop None (FsScandir GPIO_INTERFACE))) (\<lambda>_.
     bnd (gets (\<lambda>s. ans_names (lib_answer L (trace s)))) (\<lambda>names.
     for_each names (\<lambda>name.
       case scan_gpio_name name of
         None \<Rightarrow> ret ()
       | Some pin_number \<Rightarrow>
           if \<not> in_int32 pin_number then fail (Undefined ''sscanf'')
           else bnd (UnexportPin E pin_number) (\<lambda>b.
                if \<not> b then gpio_set_result p kGpioErrSys else ret ()))))))))"

definition OpenGpioWorker :: "call engine \<Rightarrow> fs_lib \<Rightarrow> nat \<Rightarrow> ((call, 'z) gpt_scheme, unit) prog" where
  "OpenGpioWorker E L work_req =
     GPIO_WORKER_INIT_TEMPLATE E True work_req (\<lambda>p d.
     if gp_dir d = kGpioDirectionNone
     then bnd (UnexportPin E (gp_pin d)) (\<lambda>b.
          if \<not> b then gpio_set_result p kGpioErrSys else gpio_set_result p kGpioErrOk)
     else bnd (DeviceExport E L (GPIO_INTERFACE @ ''export'') (c_int32 (gp_pin d))
                (gpio_path (gpio_pin_path (gp_pin d))) [''direction'', ''edge'', ''value'']) (\<lambda>b.
          if \<not> b then gpio_set_result p kGpioErrSys
          else bnd (SetPinDirection E (gp_pin d) (gp_dir d)) (\<lambda>b.
               if \<not> b then gpio_set_result p kGpioErrSys
               else bnd (SetPinMode (gp_pin d) (gp_mode d)) (\<lambda>b.
                    if \<not> b then gpio_set_result p kGpioErrSys
                    else gpio_set_result p kGpioErrOk))))"

definition WriteGpioWorker :: "call engine \<Rightarrow> nat \<Rightarrow> ((call, 'z) gpt_scheme, unit) prog" where
  "WriteGpioWorker E work_req =
     GPIO_WORKER_INIT_TEMPLATE E True work_req (\<lambda>p d.
     bnd (DeviceOpenWriteClose E (gpio_path (gpio_pin_path (gp_pin d) @ ''value''))
            (if gp_value d then ''1'' else ''0'')) (\<lambda>b.
     if b then gpio_set_result p kGpioErrOk else gpio_set_result p kGpioErrSys))"

text \<open>
  \<^verbatim>\<open>atoi\<close> of the array that the text was read into. The array has no initial value: a text that
  ends before a character that is no part of a number makes \<^verbatim>\<open>atoi\<close> read undefined bytes.
\<close>

definition atoi :: "char list \<Rightarrow> ('s, int) prog" where
  "atoi data =
     (case scan_int data of
        (_, []) \<Rightarrow> fail (Undefined ''uninitialised array'')
      | (None, _ # _) \<Rightarrow> ret 0
      | (Some i, _ # _) \<Rightarrow> if in_int32 i then ret i else fail (Undefined ''atoi''))"

definition ReadGpioWorker :: "call engine \<Rightarrow> fs_lib \<Rightarrow> nat \<Rightarrow> ((call, 'z) gpt_scheme, unit) prog" where
  "ReadGpioWorker E L work_req =
     GPIO_WORKER_INIT_TEMPLATE E True work_req (\<lambda>p d.
     bnd (DeviceOpenReadClose E L (gpio_path (gpio_pin_path (gp_pin d) @ ''value'')) 9) (\<lambda>(b, buffer).
     if b then sq (gpio_set_result p kGpioErrOk)
              (bnd (atoi buffer) (\<lambda>i. upd_gpio_data p (\<lambda>d. d\<lparr>gp_value := (i \<noteq> 0)\<rparr>)))
     else gpio_set_result p kGpioErrSys))"

fun gpio_worker :: "call engine \<Rightarrow> fs_lib \<Rightarrow> GpioOp \<Rightarrow> nat \<Rightarrow> ((call, 'z) gpt_scheme, unit) prog" where
  "gpio_worker E L kGpioOpInitize = InitializeGpioWorker E"
| "gpio_worker E L kGpioOpRelease = ReleaseGpioWorker E L"
| "gpio_worker E L kGpioOpOpen = OpenGpioWorker E L"
| "gpio_worker E L kGpioOpWrite = WriteGpioWorker E"
| "gpio_worker E L kGpioOpRead = ReadGpioWorker E L"

text \<open>What libuv does with a request: a thread runs the worker, then the loop calls \<^verbatim>\<open>AfterGPIOWork\<close>.\<close>

definition gpio_thread :: "call engine \<Rightarrow> fs_lib \<Rightarrow> nat \<Rightarrow> ((call, 'z) gpt_scheme, unit) prog" where
  "gpio_thread E L p =
     bnd (gets (\<lambda>s. gpio_work s p)) (\<lambda>w.
     case w of
       Some (worker, False) \<Rightarrow>
         sq (gpio_worker E L worker p)
         (upd (\<lambda>s. s\<lparr>gpio_work := (gpio_work s)(p \<mapsto> (worker, True))\<rparr>))
     | _ \<Rightarrow> fail (Undefined ''uv_work_t''))"

definition gpio_done :: "call engine \<Rightarrow> nat \<Rightarrow> int \<Rightarrow> ((call, 'z) gpt_scheme, unit) prog" where
  "gpio_done E p status =
     bnd (gets (\<lambda>s. gpio_work s p)) (\<lambda>w.
     case w of
       Some (worker, True) \<Rightarrow>
         sq (upd (\<lambda>s. s\<lparr>gpio_work := (gpio_work s)(p := None)\<rparr>))
         (AfterGPIOWork E p status)
     | _ \<Rightarrow> fail (Undefined ''uv_work_t''))"

end
