(* ===== verification/Iot_Gpio_Steps.thy ===== *)
theory Iot_Gpio_Steps
  imports Iot_Gpio Iot_Fs_Steps
begin

text \<open>
  What the parts of the pin module do: access to the object of the module and to requests, the
  submission (\<open>gpio_queued\<close>), the five handlers, the five workers (\<open>gpio_step\<close>) and the completion.
\<close>

section \<open>The object of the module\<close>

text \<open>The object of the module has the wrapper at \<open>g\<close>, whose flag is \<open>i\<close>.\<close>

definition gpio_object :: "'c engine \<Rightarrow> ('c, 'z) gpt_scheme \<Rightarrow> nat \<Rightarrow> bool \<Rightarrow> bool" where
  "gpio_object E s g i \<longleftrightarrow> native_law E \<and> is_object (jmodule s MODULE_GPIO) \<and>
     native_of (trace s) (jmodule s MODULE_GPIO) = g \<and>
     gpio_wraps s g = Some \<lparr>gpio_jobject = jmodule s MODULE_GPIO, gpio_is_initialized = i\<rparr>"

lemma wp_get_gpio [wp_simps]:
  "wp (get_gpio p) Q s \<longleftrightarrow> (\<exists>g. gpio_wraps s p = Some g \<and> Q g s)"
  "wp (get_gpio_data p) Q' s \<longleftrightarrow> (\<exists>d. gpio_data s p = Some d \<and> Q' d s)"
  "wp (upd_gpio_data p f) Q'' s \<longleftrightarrow>
     (\<exists>d. gpio_data s p = Some d \<and> Q'' () (s\<lparr>gpio_data := (gpio_data s)(p \<mapsto> f d)\<rparr>))"
  unfolding get_gpio_def get_gpio_data_def upd_gpio_data_def
  by (auto simp: wp_simps split: option.splits)

lemma wp_gpio_instance:
  assumes "gpio_object E s g i"
  shows "wp (iotjs_gpio_get_instance E) Q s = Q g s"
    and "wp (iotjs_gpio_initialized E) Q' s = Q' i s"
    and "wp iotjs_gpio_get_jgpio Q'' s = Q'' (jmodule s MODULE_GPIO) s"
proof -
  have o: "is_object (jmodule s MODULE_GPIO)" "jmodule s MODULE_GPIO \<noteq> JUndefined"
    "e_native E (trace s) (jmodule s MODULE_GPIO) = g"
    "gpio_wraps s g = Some \<lparr>gpio_jobject = jmodule s MODULE_GPIO, gpio_is_initialized = i\<rparr>"
    using assms by (auto simp: gpio_object_def native_law_def)
  then show inst: "wp (iotjs_gpio_get_instance E) Q s = Q g s" for Q
    by (simp add: iotjs_gpio_get_instance_def iotjs_gpio_get_jgpio_def iotjs_jobjectwrap_from_jobject_def wp_simps)
  show "wp (iotjs_gpio_initialized E) Q' s = Q' i s"
    using o(4) by (simp add: iotjs_gpio_initialized_def wp_bnd inst wp_simps)
  show "wp iotjs_gpio_get_jgpio Q'' s = Q'' (jmodule s MODULE_GPIO) s"
    using o by (simp add: iotjs_gpio_get_jgpio_def wp_simps)
qed

lemma wp_reqwrap_from_request [wp_simps]:
  "wp (iotjs_reqwrap_from_request p) Q s \<longleftrightarrow> (\<exists>cb. reqs s p = Some cb \<and> Q p s)"
  unfolding iotjs_reqwrap_from_request_def iotjs_gpio_reqwrap_jcallback_def
  by (auto simp: wp_simps iotjs_reqwrap_jcallback_def split: option.splits)

section \<open>Requests\<close>

text \<open>A step that leaves the object of the module and the frame's state alone.\<close>

definition gpio_moved :: "('c, 'z) gpt_scheme \<Rightarrow> ('c, 'z) gpt_scheme \<Rightarrow> bool" where
  "gpio_moved s t \<longleftrightarrow> moved s t \<and> h_finished t = h_finished s \<and> h_ret t = h_ret s \<and> gpio_wraps t = gpio_wraps s \<and>
     (\<exists>tr. trace t = trace s @ tr)"

lemma gpio_moved_trans: "gpio_moved s t \<Longrightarrow> gpio_moved t u \<Longrightarrow> gpio_moved s u"
  unfolding gpio_moved_def by (auto intro: moved_trans)

lemma gpio_object_moved: "gpio_object E s g i \<Longrightarrow> gpio_moved s t \<Longrightarrow> gpio_object E t g i"
  by (simp add: gpio_object_def gpio_moved_def moved_def keeps_def)

lemma gpt_more:
  fixes s t :: "('c, 'z) gpt_scheme"
  assumes "wrt.more t = wrt.more s"
  shows "gpio_data t = gpio_data s" "gpio_wraps t = gpio_wraps s" "gpio_work t = gpio_work s"
  using assms by (cases s; cases t; simp)+

lemma moved_gpio_more [simp]:
  "moved s (t\<lparr>gpio_data := a\<rparr>) = moved s t" "moved s (t\<lparr>gpio_work := b\<rparr>) = moved s t" "moved s (t\<lparr>gpio_wraps := c\<rparr>) = moved s t"
  by (simp_all add: moved_def wraps_wf_def keeps_def spare_def frame_refs_def kept_wraps_def heap_wraps_def fun_eq_iff)

lemma quiet_gpio:
  fixes s t :: "('c, 'z) gpt_scheme"
  assumes "quiet s t" "wraps_wf s"
  shows "gpio_moved s t" "reqs t = reqs s" "gpio_data t = gpio_data s" "gpio_work t = gpio_work s"
proof -
  show "gpio_moved s t"
    using quiet_moved[OF assms] assms(1) by (auto simp: gpio_moved_def quiet_def)
  show "reqs t = reqs s" "gpio_data t = gpio_data s" "gpio_work t = gpio_work s"
    using assms(1) by (auto simp: quiet_def)
qed

abbreviation gpio_fresh :: "GpioOp \<Rightarrow> iotjs_gpio_reqdata_t" where
  "gpio_fresh op \<equiv> \<lparr>gp_pin = 0, gp_value = False, gp_dir = kGpioDirectionNone, gp_mode = kGpioModeNone,
     gp_result = kGpioErrOk, gp_op = op\<rparr>"

lemma gpio_reqwrap_create_wp:
  fixes s :: "('c, 'z) gpt_scheme"
  assumes "wraps_wf s" "is_function cb"
  shows "wp (iotjs_gpio_reqwrap_create cb op) (\<lambda>p t. gpio_moved s t \<and> reqs s p = None \<and> reqs t = (reqs s)(p \<mapsto> cb) \<and>
    gpio_data t = (gpio_data s)(p \<mapsto> gpio_fresh op) \<and> gpio_work t = gpio_work s) s"
proof -
  have "(iotjs_gpio_reqwrap_create cb op :: (('c, 'z) gpt_scheme, nat) prog) = bnd (reqwrap_new cb) (\<lambda>p.
      sq (upd (\<lambda>s. s\<lparr>gpio_data := (gpio_data s)(p \<mapsto> gpio_fresh op)\<rparr>)) (ret p))"
    unfolding iotjs_gpio_reqwrap_create_def reqwrap_new_def by (simp add: bnd_assoc bnd_sq bnd_ret_left sq_def)
  then have c: "wp (iotjs_gpio_reqwrap_create cb op) Q s = wp (reqwrap_new cb) (\<lambda>p t. Q p (t\<lparr>gpio_data := (gpio_data t)(p \<mapsto> gpio_fresh op)\<rparr>)) s" for Q
    by (simp add: wp_bnd wp_sq) (rule arg_cong[where f = "\<lambda>Q. wp (reqwrap_new cb) Q s"], simp add: fun_eq_iff wp_upd wp_ret)
  show ?thesis
    unfolding c
  proof (rule wp_mono[OF rw.create_law[OF assms]], elim conjE)
    fix p and t :: "('c, 'z) gpt_scheme"
    assume t: "wraps_wf t" "steps s t" "next_ptr s = p" "p \<noteq> 0" "reqs s p = None" "reqs t = (reqs s)(p \<mapsto> cb)"
      "handles t = handles s"
    have "moved s t" by (rule steps_moved) fact+
    moreover have "gpio_data t = gpio_data s" "gpio_wraps t = gpio_wraps s" "gpio_work t = gpio_work s"
      using t(2) gpt_more[of t s] by (simp_all add: steps_def)
    ultimately show "gpio_moved s (t\<lparr>gpio_data := (gpio_data t)(p \<mapsto> gpio_fresh op)\<rparr>) \<and> reqs s p = None \<and>
      reqs (t\<lparr>gpio_data := (gpio_data t)(p \<mapsto> gpio_fresh op)\<rparr>) = (reqs s)(p \<mapsto> cb) \<and>
      gpio_data (t\<lparr>gpio_data := (gpio_data t)(p \<mapsto> gpio_fresh op)\<rparr>) = (gpio_data s)(p \<mapsto> gpio_fresh op) \<and>
      gpio_work (t\<lparr>gpio_data := (gpio_data t)(p \<mapsto> gpio_fresh op)\<rparr>) = gpio_work s"
      using t(2,5,6) by (auto simp: gpio_moved_def steps_def)
  qed
qed

text \<open>
  The end of every handler: the request is handed to libuv with its worker and the handler returns
  null. \<open>gpio_queued\<close> says what the whole has done.
\<close>

definition gpio_queued ::
  "GpioOp \<Rightarrow> iotjs_gpio_reqdata_t \<Rightarrow> jval \<Rightarrow> (call, 'z) gpt_scheme \<Rightarrow> (call, 'z) gpt_scheme \<Rightarrow> bool" where
  "gpio_queued op d cb s t \<longleftrightarrow> moved s t \<and> gpio_wraps t = gpio_wraps s \<and> h_ret t = (False, JNull) \<and>
     (\<exists>p. reqs s p = None \<and> reqs t = (reqs s)(p \<mapsto> cb) \<and> gpio_data t = (gpio_data s)(p \<mapsto> d) \<and>
        gpio_work t = (gpio_work s)(p \<mapsto> (op, False)) \<and>
        (\<exists>pre r post. trace t = trace s @ pre @ ESys (UvQueueWork (env_loop (env s)) p (gpio_worker_name op)) r # post))"

definition gpio_ready :: "call engine \<Rightarrow> (call, 'z) gpt_scheme \<Rightarrow> nat \<Rightarrow> bool \<Rightarrow> bool" where
  "gpio_ready E s g i \<longleftrightarrow> gpio_object E s g i \<and> wraps_wf s \<and> \<not> h_finished s \<and> env_initialized s"

lemma gpio_ready_moved: "gpio_ready E s g i \<Longrightarrow> gpio_moved s t \<Longrightarrow> gpio_ready E t g i"
  using gpio_object_moved[of E s g i t] by (auto simp: gpio_ready_def gpio_moved_def moved_def)

lemma GPIO_ASYNC_wp:
  fixes s t :: "(call, 'z) gpt_scheme"
  assumes s: "gpio_ready E s g i" and t: "gpio_moved s t" "reqs s p = None" "reqs t = (reqs s)(p \<mapsto> cb)"
    "gpio_data t = (gpio_data s)(p \<mapsto> d)" "gpio_work t = gpio_work s"
  shows "wp (sq (GPIO_ASYNC E op i p) iotjs_jhandler_return_null) (\<lambda>_. gpio_queued op d cb s) t"
proof -
  let ?c = "UvQueueWork (env_loop (env s)) p (gpio_worker_name op)"
  let ?u = "t\<lparr>trace := trace t @ [ESys ?c (e_sys E (trace t) ?c)]\<rparr>"
  let ?v = "?u\<lparr>gpio_work := (gpio_work s)(p \<mapsto> (op, False))\<rparr>"
  have r: "gpio_ready E t g i" by (rule gpio_ready_moved[OF s t(1)])
  have env: "env t = env s" using t(1) by (simp add: gpio_moved_def moved_def)
  have u: "gpio_moved s ?u"
    using r by (intro gpio_moved_trans[OF t(1)] quiet_gpio(1) sys_quiet) (simp add: gpio_ready_def)
  have v: "moved s ?v" using u by (simp add: gpio_moved_def)
  have "\<not> h_finished ?v" "wraps_wf ?v" using r v by (simp_all add: gpio_ready_def moved_def)
  from return_null_wp[OF this]
  have "wp iotjs_jhandler_return_null (\<lambda>_. gpio_queued op d cb s) ?v"
  proof (rule wp_mono, elim conjE exE)
    fix x w tr
    assume w: "moved ?v w" "h_ret w = (False, JNull)" "reqs w = reqs ?v" "wrt.more w = wrt.more ?v" "trace w = trace ?v @ tr"
    from u obtain pre where "trace t = trace s @ pre" using t(1) by (auto simp: gpio_moved_def)
    then have "\<exists>pre r post. trace w = trace s @ pre @ ESys ?c r # post" using w(5) by auto
    then show "gpio_queued op d cb s w"
      using moved_trans[OF v w(1)] w(2,3) gpt_more[OF w(4)] u t by (auto simp: gpio_queued_def gpio_moved_def)
  qed
  then show ?thesis
    using r by (simp add: GPIO_ASYNC_def wp_bnd wp_sq wp_gpio_instance(2)[of E t g i] gpio_ready_def wp_assert wp_env_get
      iotjs_environment_loop_def wp_gets wp_ret wp_sys wp_upd env t(5) iotjs_gpio_reqwrap_req_def)
qed

lemma gpio_submit:
  fixes s :: "(call, 'z) gpt_scheme"
  assumes s: "gpio_ready E s g i" and cb: "is_function cb"
  shows "wp (bnd (iotjs_gpio_reqwrap_create cb op) (\<lambda>p. sq (GPIO_ASYNC E op i p) iotjs_jhandler_return_null))
      (\<lambda>_. gpio_queued op (gpio_fresh op) cb s) s"
    and "wp (bnd (iotjs_gpio_reqwrap_create cb op) (\<lambda>p. sq (upd_gpio_data p f) (sq (GPIO_ASYNC E op i p) iotjs_jhandler_return_null)))
      (\<lambda>_. gpio_queued op (f (gpio_fresh op)) cb s) s"
proof -
  have wf: "wraps_wf s" using s by (simp add: gpio_ready_def)
  show "wp (bnd (iotjs_gpio_reqwrap_create cb op) (\<lambda>p. sq (GPIO_ASYNC E op i p) iotjs_jhandler_return_null))
      (\<lambda>_. gpio_queued op (gpio_fresh op) cb s) s"
    unfolding wp_bnd
    by (rule wp_mono[OF gpio_reqwrap_create_wp[OF wf cb]], elim conjE, rule GPIO_ASYNC_wp[OF s])
  show "wp (bnd (iotjs_gpio_reqwrap_create cb op) (\<lambda>p. sq (upd_gpio_data p f) (sq (GPIO_ASYNC E op i p) iotjs_jhandler_return_null)))
      (\<lambda>_. gpio_queued op (f (gpio_fresh op)) cb s) s"
    unfolding wp_bnd
  proof (rule wp_mono[OF gpio_reqwrap_create_wp[OF wf cb]], elim conjE)
    fix p and t :: "(call, 'z) gpt_scheme"
    assume t: "gpio_moved s t" "reqs s p = None" "reqs t = (reqs s)(p \<mapsto> cb)"
      "gpio_data t = (gpio_data s)(p \<mapsto> gpio_fresh op)" "gpio_work t = gpio_work s"
    have "wp (sq (GPIO_ASYNC E op i p) iotjs_jhandler_return_null) (\<lambda>_. gpio_queued op (f (gpio_fresh op)) cb s)
        (t\<lparr>gpio_data := (gpio_data t)(p \<mapsto> f (gpio_fresh op))\<rparr>)"
      by (rule GPIO_ASYNC_wp[OF s]) (use t in \<open>simp_all add: gpio_moved_def\<close>)
    then show "wp (sq (upd_gpio_data p f) (sq (GPIO_ASYNC E op i p) iotjs_jhandler_return_null))
        (\<lambda>_. gpio_queued op (f (gpio_fresh op)) cb s) t"
      using t(4) by (simp only: wp_sq wp_get_gpio) simp
  qed
qed

definition gpio_thrown :: "(call, 'z) gpt_scheme \<Rightarrow> (call, 'z) gpt_scheme \<Rightarrow> bool" where
  "gpio_thrown s t \<longleftrightarrow> moved s t \<and> reqs t = reqs s \<and> gpio_data t = gpio_data s \<and> gpio_wraps t = gpio_wraps s \<and>
     gpio_work t = gpio_work s \<and> (\<exists>n. h_ret t = (True, JObject n))"

lemma gpio_throw_wp:
  fixes s :: "(call, 'z) gpt_scheme"
  assumes "gpio_ready E s g i"
  shows "wp (JHANDLER_THROW E ty m) (\<lambda>_. gpio_thrown s) s"
proof -
  have wf: "wraps_wf s" "\<not> h_finished s" using assms by (simp_all add: gpio_ready_def)
  have "wp (JHANDLER_THROW E ty m) (\<lambda>_ t. pays s (\<lambda>_. 0) t \<and> (\<exists>n. h_ret t = (True, JObject n))) s"
    using wf unfolding wp_JHANDLER_THROW pays_def by (auto simp: frame_refs_def intro!: exI)
  then show ?thesis
    by (rule wp_mono) (use pays_moved[OF _ wf(1)] in \<open>auto simp: gpio_thrown_def pays_def\<close>)
qed

section \<open>Handlers\<close>

definition gpio_entered :: "call engine \<Rightarrow> jval \<Rightarrow> jval list \<Rightarrow> (call, 'z) gpt_scheme \<Rightarrow> nat \<Rightarrow> bool \<Rightarrow> bool" where
  "gpio_entered E t args s g i \<longleftrightarrow> gpio_ready E (handler_entry t args s) g i"

lemma wp_GET_UINT:
  "wp (bnd (JHANDLER_GET_ARG i iotjs_jval_as_number) to_unsigned) Q s \<longleftrightarrow>
     i < length (h_argv s) \<and> (\<exists>d. h_argv s ! i = JNumber d \<and> wp (to_unsigned d) Q s)"
  by (auto simp: wp_bnd wp_JHANDLER_GET_ARG wp_jval_as)

lemma wp_to_unsigned_num: "0 \<le> n \<Longrightarrow> n < 2 ^ 32 \<Longrightarrow> wp (to_unsigned (num n)) Q s = Q n s"
  by (simp add: wp_ret)

lemma wp_GET_INT_num:
  "i < length (h_argv s) \<Longrightarrow> h_argv s ! i = JNumber (num n) \<Longrightarrow> in_int32 n \<Longrightarrow> wp (JHANDLER_GET_INT i) Q s = Q n s"
  by (simp add: wp_simps num_def in_int32_def)

lemma Initialize_wp:
  assumes "gpio_entered E t [cb] s g False" "is_function cb"
  shows "wp (Initialize E) (\<lambda>_. gpio_queued kGpioOpInitize (gpio_fresh kGpioOpInitize) cb (handler_entry t [cb] s))
    (handler_entry t [cb] s)"
  unfolding Initialize_def wp_check_args
  using gpio_submit(1)[OF assms(1)[unfolded gpio_entered_def] assms(2)] assms(2)
  by (simp add: wp_bnd[of "JHANDLER_GET_ARG _ _"] wp_JHANDLER_GET_ARG wp_jval_as)

lemma Release_wp:
  assumes "gpio_entered E t [cb] s g True" "is_function cb"
  shows "wp (Release E) (\<lambda>_. gpio_queued kGpioOpRelease (gpio_fresh kGpioOpRelease) cb (handler_entry t [cb] s))
    (handler_entry t [cb] s)"
  unfolding Release_def wp_check_args
  using gpio_submit(1)[OF assms(1)[unfolded gpio_entered_def] assms(2)] assms(2)
  by (simp add: wp_bnd[of "JHANDLER_GET_ARG _ _"] wp_JHANDLER_GET_ARG wp_jval_as)

lemma Write_gpio_wp:
  assumes "gpio_entered E t [JNumber (num pin), JBool v, cb] s g True" "is_function cb" "0 \<le> pin" "pin < 2 ^ 32"
  shows "wp (Write_gpio E) (\<lambda>_. gpio_queued kGpioOpWrite ((gpio_fresh kGpioOpWrite)\<lparr>gp_pin := pin, gp_value := v\<rparr>) cb
      (handler_entry t [JNumber (num pin), JBool v, cb] s)) (handler_entry t [JNumber (num pin), JBool v, cb] s)"
  unfolding Write_gpio_def wp_check_args wp_bnd[of "bnd (JHANDLER_GET_ARG _ _) _"] wp_GET_UINT
  using gpio_submit(2)[OF assms(1)[unfolded gpio_entered_def] assms(2), of kGpioOpWrite "\<lambda>d. d\<lparr>gp_pin := pin, gp_value := v\<rparr>"] assms(2-4)
  by (simp add: wp_bnd[of "JHANDLER_GET_ARG _ _"] wp_JHANDLER_GET_ARG wp_jval_as wp_to_unsigned_num wp_ret)

lemma Read_gpio_wp:
  assumes "gpio_entered E t [JNumber (num pin), cb] s g True" "is_function cb" "0 \<le> pin" "pin < 2 ^ 32"
  shows "wp (Read_gpio E) (\<lambda>_. gpio_queued kGpioOpRead ((gpio_fresh kGpioOpRead)\<lparr>gp_pin := pin\<rparr>) cb
      (handler_entry t [JNumber (num pin), cb] s)) (handler_entry t [JNumber (num pin), cb] s)"
  unfolding Read_gpio_def wp_check_args wp_bnd[of "bnd (JHANDLER_GET_ARG _ _) _"] wp_GET_UINT
  using gpio_submit(2)[OF assms(1)[unfolded gpio_entered_def] assms(2), of kGpioOpRead "\<lambda>d. d\<lparr>gp_pin := pin\<rparr>"] assms(2-4)
  by (simp add: wp_bnd[of "JHANDLER_GET_ARG _ _"] wp_JHANDLER_GET_ARG wp_jval_as wp_to_unsigned_num wp_ret)

lemma Open_gpio_wp:
  assumes "gpio_entered E t [JNumber (num pin), JNumber (num dir), JNumber (num mode), cb] s g True" "is_function cb"
    and "in_int32 pin" "0 \<le> dir" "dir < 2 ^ 32" "0 \<le> mode" "mode < 2 ^ 32"
  shows "wp (Open_gpio E) (\<lambda>_ z. case (gpio_direction_of dir, gpio_mode_of mode) of
      (Some d, Some m) \<Rightarrow> gpio_queued kGpioOpOpen ((gpio_fresh kGpioOpOpen)\<lparr>gp_pin := c_uint32 pin, gp_dir := d, gp_mode := m\<rparr>) cb
        (handler_entry t [JNumber (num pin), JNumber (num dir), JNumber (num mode), cb] s) z
    | _ \<Rightarrow> gpio_thrown (handler_entry t [JNumber (num pin), JNumber (num dir), JNumber (num mode), cb] s) z)
    (handler_entry t [JNumber (num pin), JNumber (num dir), JNumber (num mode), cb] s)"
proof -
  let ?e = "handler_entry t [JNumber (num pin), JNumber (num dir), JNumber (num mode), cb] s"
  have e: "gpio_ready E ?e g True" using assms(1) by (simp add: gpio_entered_def)
  have pin: "to_int (num pin) = ret pin" using assms(3) by (simp add: in_int32_def)
  note q = gpio_submit(2)[OF e assms(2), of kGpioOpOpen "\<lambda>d. d\<lparr>gp_pin := c_uint32 pin, gp_dir := a, gp_mode := b\<rparr>" for a b]
  show ?thesis
    unfolding Open_gpio_def wp_check_args wp_bnd[of "bnd (JHANDLER_GET_ARG _ _) _"] wp_GET_UINT
    using assms(2-7) q gpio_throw_wp[OF e]
    by (cases "gpio_direction_of dir"; cases "gpio_mode_of mode")
      (simp_all add: wp_bnd[of "JHANDLER_GET_ARG _ _"] wp_bnd[of "JHANDLER_GET_INT _"] wp_bnd[of "bnd (JHANDLER_GET_ARG _ _) _"]
        wp_GET_INT_num wp_GET_UINT wp_JHANDLER_GET_ARG wp_jval_as wp_ret)
qed

section \<open>Workers\<close>

text \<open>A part of a worker: it makes calls and sets the result and the value of its request.\<close>

definition gpio_step :: "nat \<Rightarrow> ('c, 'z) gpt_scheme \<Rightarrow> ('c, 'z) gpt_scheme \<Rightarrow> bool" where
  "gpio_step p s t \<longleftrightarrow> gpio_moved s t \<and> reqs t = reqs s \<and> gpio_work t = gpio_work s \<and>
     (\<exists>d r v. gpio_data s p = Some d \<and> gpio_data t = (gpio_data s)(p \<mapsto> d\<lparr>gp_result := r, gp_value := v\<rparr>))"

lemma gpio_step_trans: "gpio_step p s t \<Longrightarrow> gpio_step p t u \<Longrightarrow> gpio_step p s u"
  unfolding gpio_step_def by (auto intro: gpio_moved_trans) blast

definition steady :: "nat \<Rightarrow> (('c, 'z) gpt_scheme, 'a) prog \<Rightarrow> bool" where
  "steady p m \<longleftrightarrow> (\<forall>s. env_initialized s \<and> wraps_wf s \<and> gpio_data s p \<noteq> None \<longrightarrow> wp m (\<lambda>_. gpio_step p s) s)"

lemma steadyD:
  "steady p m \<Longrightarrow> env_initialized s \<Longrightarrow> wraps_wf s \<Longrightarrow> gpio_data s p \<noteq> None \<Longrightarrow> wp m (\<lambda>_. gpio_step p s) s"
  by (simp add: steady_def)

lemma quiet_gpio_step:
  fixes s t :: "('c, 'z) gpt_scheme"
  assumes "quiet s t" "wraps_wf s" "gpio_data s p \<noteq> None"
  shows "gpio_step p s t"
proof -
  obtain d where d: "gpio_data s p = Some d" using assms(3) by auto
  then have "gpio_data s = (gpio_data s)(p \<mapsto> d\<lparr>gp_result := gp_result d, gp_value := gp_value d\<rparr>)"
    by (simp add: fun_upd_idem)
  with d show ?thesis
    using quiet_gpio[OF assms(1,2)] unfolding gpio_step_def by metis
qed

lemma steady_calm: "calm m \<Longrightarrow> steady p m"
  unfolding steady_def calm_def by (blast intro: wp_mono quiet_gpio_step)

lemma steady_upd: "(\<And>d. \<exists>r v. f d = d\<lparr>gp_result := r, gp_value := v\<rparr>) \<Longrightarrow> steady p (upd_gpio_data p f)"
  unfolding steady_def
proof (intro allI impI, elim conjE)
  fix s :: "('a, 'b) gpt_scheme"
  assume f: "\<And>d. \<exists>r v. f d = d\<lparr>gp_result := r, gp_value := v\<rparr>" and s: "gpio_data s p \<noteq> None" "wraps_wf s"
  then obtain d where d: "gpio_data s p = Some d" by auto
  have "moved s s" using s(2) by (simp add: moved_def)
  then show "wp (upd_gpio_data p f) (\<lambda>_. gpio_step p s) s"
    using f[of d] d by (auto simp: wp_get_gpio gpio_step_def gpio_moved_def) blast
qed

lemma steady_result [intro!]: "steady p (gpio_set_result p r)"
proof -
  have "\<exists>r' v. d\<lparr>gp_result := r\<rparr> = d\<lparr>gp_result := r', gp_value := v\<rparr>" for d :: iotjs_gpio_reqdata_t
    by (intro exI[of _ r] exI[of _ "gp_value d"]) (cases d, simp)
  then show ?thesis unfolding gpio_set_result_def by (rule steady_upd)
qed

lemma gpio_step_keeps:
  assumes "gpio_step p s t"
  shows "env_initialized t = env_initialized s" "wraps_wf t" "gpio_data t p \<noteq> None"
  using assms by (auto simp: gpio_step_def gpio_moved_def moved_def)

lemma steady_bnd: "steady p m \<Longrightarrow> (\<And>x. steady p (f x)) \<Longrightarrow> steady p (bnd m f)"
  unfolding steady_def wp_bnd
proof (intro allI impI, elim conjE)
  fix s :: "('a, 'b) gpt_scheme"
  assume m: "\<forall>s. env_initialized s \<and> wraps_wf s \<and> gpio_data s p \<noteq> None \<longrightarrow> wp m (\<lambda>_. gpio_step p s) s"
    and f: "\<And>x. \<forall>s. env_initialized s \<and> wraps_wf s \<and> gpio_data s p \<noteq> None \<longrightarrow> wp (f x) (\<lambda>_. gpio_step p s) s"
    and s: "env_initialized s" "wraps_wf s" "gpio_data s p \<noteq> None"
  from m s have "wp m (\<lambda>_. gpio_step p s) s" by simp
  then show "wp m (\<lambda>x. wp (f x) (\<lambda>_. gpio_step p s)) s"
  proof (rule wp_mono)
    fix x t
    assume t: "gpio_step p s t"
    then have "wp (f x) (\<lambda>_. gpio_step p t) t" using f s gpio_step_keeps[OF t] by simp
    then show "wp (f x) (\<lambda>_. gpio_step p s) t" by (rule wp_mono) (rule gpio_step_trans[OF t])
  qed
qed

lemma steady_sq: "steady p m \<Longrightarrow> steady p n \<Longrightarrow> steady p (sq m n)"
  unfolding sq_def by (rule steady_bnd)

lemma steady_ret: "steady p (ret x)"
  by (rule steady_calm) blast

lemma steady_for_each: "(\<And>x. x \<in> set xs \<Longrightarrow> steady p (f x)) \<Longrightarrow> steady p (for_each xs f)"
  by (induction xs) (simp_all add: steady_ret steady_sq)

lemmas steady_intros = steady_bnd steady_sq steady_ret steady_result steady_calm[OF calm_DeviceCheckPath]
  steady_calm[OF calm_DeviceOpenWriteClose]

lemma calm_UnexportPin: "calm (UnexportPin E pin)"
  unfolding UnexportPin_def by (intro calm_bnd calm_DeviceOpenWriteClose calm_if calm_basic)

text \<open>The path of a pin is never cut off and is no format.\<close>

lemma gpio_paths:
  "length (gpio_pin_path pin) \<le> 32" "gpio_path (gpio_pin_path pin) = gpio_pin_path pin"
  "CHR ''%'' \<notin> set (gpio_pin_path pin)" "gpio_path (gpio_pin_path pin @ ''value'') = gpio_pin_path pin @ ''value''"
proof -
  show l: "length (gpio_pin_path pin) \<le> 32"
    using decimal_int32(1)[OF c_int32_range, of pin] by (simp add: gpio_pin_path_def GPIO_INTERFACE_def)
  then show "gpio_path (gpio_pin_path pin) = gpio_pin_path pin"
    "gpio_path (gpio_pin_path pin @ ''value'') = gpio_pin_path pin @ ''value''"
    by (simp_all add: gpio_path_def snprintf_text_def)
  show "CHR ''%'' \<notin> set (gpio_pin_path pin)"
    using decimal_int32(2)[OF c_int32_range, of pin] by (simp add: gpio_pin_path_def GPIO_INTERFACE_def)
qed

lemma worker_template_wp:
  fixes s :: "(call, 'z) gpt_scheme"
  assumes "gpio_object E s g i" "reqs s p = Some cb" "gpio_data s p = Some d" "wp (body p d) Q s"
  shows "wp (GPIO_WORKER_INIT_TEMPLATE E i p body) Q s"
  using assms
  by (simp add: GPIO_WORKER_INIT_TEMPLATE_def wp_bnd wp_sq wp_gpio_instance(2)[OF assms(1)] wp_assert
      iotjs_gpio_reqwrap_from_request_def wp_reqwrap_from_request iotjs_gpio_reqwrap_data_def wp_get_gpio)

text \<open>The names in the directory of the pins have numbers that fit, the files of the values hold a number and an end of line.\<close>

definition number_text :: "char list \<Rightarrow> bool" where
  "number_text tx \<longleftrightarrow> snd (scan_int tx) \<noteq> [] \<and> (\<forall>i. fst (scan_int tx) = Some i \<longrightarrow> in_int32 i)"

definition gpio_files :: "call engine \<Rightarrow> fs_lib \<Rightarrow> bool" where
  "gpio_files E L \<longleftrightarrow>
     (\<forall>tr name i. name \<in> set (ans_names (lib_answer L tr)) \<longrightarrow> scan_gpio_name name = Some i \<longrightarrow> in_int32 i) \<and>
     (\<forall>tr loop fd n r. r = e_sys E tr (UvFsRead loop fd n 0) \<longrightarrow> 0 \<le> r \<longrightarrow> number_text (take (nat r) (ans_data (lib_answer L (tr @ [ESys (UvFsRead loop fd n 0) r])))))"

lemma steady_atoi: "number_text data \<Longrightarrow> steady p (atoi data)"
  unfolding atoi_def number_text_def by (auto intro!: steady_ret split: prod.splits list.splits option.splits)

definition mode_ok :: "iotjs_gpio_reqdata_t \<Rightarrow> bool" where
  "mode_ok d \<longleftrightarrow> gp_dir d = kGpioDirectionNone \<or> gp_mode d \<noteq> kGpioModeNone \<and> gp_mode d \<noteq> kGpioModeOpendrain"

lemma steady_gets: "(\<And>s. steady p (f (g s))) \<Longrightarrow> steady p (bnd (gets g) f)"
  by (simp add: steady_def wp_bnd wp_gets)

lemma steady_if: "(b \<Longrightarrow> steady p m) \<Longrightarrow> (\<not> b \<Longrightarrow> steady p n) \<Longrightarrow> steady p (if b then m else n)"
  by simp

lemma release_steady:
  assumes "\<And>tr name i. name \<in> set (ans_names (lib_answer L tr)) \<Longrightarrow> scan_gpio_name name = Some i \<Longrightarrow> in_int32 i"
  shows "steady p (bnd (gets (\<lambda>s. ans_names (lib_answer L (trace s)))) (\<lambda>names.
     for_each names (\<lambda>name.
       case scan_gpio_name name of
         None \<Rightarrow> ret ()
       | Some pin_number \<Rightarrow>
           if \<not> in_int32 pin_number then fail (Undefined ''sscanf'')
           else bnd (UnexportPin E pin_number) (\<lambda>b.
                if \<not> b then gpio_set_result p kGpioErrSys else ret ()))))"
  by (rule steady_gets, rule steady_for_each)
    (auto split: option.split dest: assms intro!: steady_intros steady_calm[OF calm_UnexportPin] steady_if)

lemma open_steady:
  assumes "mode_ok d" "gp_dir d \<noteq> kGpioDirectionNone"
  shows "steady p (bnd (DeviceExport E L path n (gpio_path (gpio_pin_path (gp_pin d))) files) (\<lambda>b.
          if \<not> b then gpio_set_result p kGpioErrSys
          else bnd (SetPinDirection E (gp_pin d) (gp_dir d)) (\<lambda>b.
               if \<not> b then gpio_set_result p kGpioErrSys
               else bnd (SetPinMode (gp_pin d) (gp_mode d)) (\<lambda>b.
                    if \<not> b then gpio_set_result p kGpioErrSys
                    else gpio_set_result p kGpioErrOk))))"
proof -
  have "gp_dir d = kGpioDirectionIn \<or> gp_dir d = kGpioDirectionOut"
    using assms(2) by (cases "gp_dir d") simp_all
  then have dir: "SetPinDirection E (gp_pin d) (gp_dir d) = DeviceOpenWriteClose E (gpio_path (gpio_pin_path (gp_pin d) @ ''direction''))
      (if gp_dir d = kGpioDirectionIn then ''in'' else ''out'')"
    unfolding SetPinDirection_def by (simp only: bnd_ASSERT)
  have mode: "SetPinMode (gp_pin d) (gp_mode d) = ret True"
    using assms unfolding SetPinMode_def mode_ok_def by (simp only: bnd_ASSERT simp_thms)
  have "calm (DeviceExport E L path n (gpio_path (gpio_pin_path (gp_pin d))) files)"
    using gpio_paths(1)[of "gp_pin d"] gpio_paths(3)[of "gp_pin d"]
    by (intro calm_DeviceExport) (simp_all add: gpio_paths(2))
  then show ?thesis
    unfolding dir mode by (intro steady_intros steady_if steady_calm[of "DeviceExport _ _ _ _ _ _"])
qed

lemma read_value_wp:
  fixes s :: "(call, 'z) ert_scheme"
  assumes "env_initialized s" "gpio_files E L"
  shows "wp (DeviceOpenReadClose E L path len) (\<lambda>x t. quiet s t \<and> (fst x \<longrightarrow> number_text (snd x))) s"
proof (rule wp_conj)
  show "wp (DeviceOpenReadClose E L path len) (\<lambda>x t. quiet s t) s"
    by (rule calm_DeviceOpenReadClose[unfolded calm_def, rule_format, OF assms(1)])
  have law: "number_text (take (nat (e_sys E (trace s @ [a, b]) (UvFsRead loop fd n 0)))
      (ans_data (lib_answer L (trace s @ [a, b, ESys (UvFsRead loop fd n 0) (e_sys E (trace s @ [a, b]) (UvFsRead loop fd n 0))]))))"
    if "0 \<le> e_sys E (trace s @ [a, b]) (UvFsRead loop fd n 0)" for a b loop fd n
    using assms(2)[unfolded gpio_files_def, THEN conjunct2, rule_format, OF HOL.refl that] by simp
  show "wp (DeviceOpenReadClose E L path len) (\<lambda>x t. fst x \<longrightarrow> number_text (snd x)) s"
    unfolding DeviceOpenReadClose_def
    by (simp add: law not_less uv_fs_sync_def wp_env_get[OF assms(1)] iotjs_environment_loop_def wp_simps)
qed

lemma gpio_worker_wp:
  fixes s :: "(call, 'z) gpt_scheme"
  assumes s: "gpio_object E s g (w \<noteq> kGpioOpInitize)" "env_initialized s" "wraps_wf s" "reqs s p = Some cb"
    and d: "gpio_data s p = Some d" "w = kGpioOpOpen \<longrightarrow> mode_ok d" and L: "gpio_files E L"
  shows "wp (gpio_worker E L w p) (\<lambda>_. gpio_step p s) s"
proof -
  have run: "wp m (\<lambda>_. gpio_step p s) s" if "steady p m" for m :: "((call, 'z) gpt_scheme, unit) prog"
    by (rule steadyD[OF that s(2,3)]) (simp add: d)
  have template: "wp (GPIO_WORKER_INIT_TEMPLATE E i p body) (\<lambda>_. gpio_step p s) s"
    if "i = (w \<noteq> kGpioOpInitize)" "wp (body p d) (\<lambda>_. gpio_step p s) s" for i body
    unfolding that(1) by (rule worker_template_wp[where body = body, OF s(1,4) d(1) that(2)])
  show ?thesis
  proof (cases w)
    case kGpioOpInitize
    then show ?thesis
      unfolding kGpioOpInitize gpio_worker.simps InitializeGpioWorker_def
      by (intro template run steady_intros steady_if) (simp add: kGpioOpInitize)
  next
    case kGpioOpRelease
    then show ?thesis
      unfolding kGpioOpRelease gpio_worker.simps ReleaseGpioWorker_def
      by (intro template run steady_sq steady_result) (simp add: kGpioOpRelease, intro steady_bnd steady_calm[of iotjs_environment_get]
        steady_calm[of iotjs_environment_loop] steady_calm[of "sys _ _"] calm_basic release_steady,
        use L in \<open>auto simp: gpio_files_def\<close>)
  next
    case kGpioOpOpen
    then show ?thesis
      unfolding kGpioOpOpen gpio_worker.simps OpenGpioWorker_def
      by (intro template run steady_if steady_bnd steady_calm[OF calm_UnexportPin] steady_result open_steady)
        (use d(2) kGpioOpOpen in simp_all)
  next
    case kGpioOpWrite
    then show ?thesis
      unfolding kGpioOpWrite gpio_worker.simps WriteGpioWorker_def
      by (intro template run steady_intros steady_if) (simp add: kGpioOpWrite)
  next
    case kGpioOpRead
    show ?thesis
      unfolding kGpioOpRead gpio_worker.simps ReadGpioWorker_def
    proof (rule template, use kGpioOpRead in simp, unfold wp_bnd, rule wp_mono[OF read_value_wp[OF s(2) L]])
      fix x t
      assume q: "quiet s t \<and> (fst x \<longrightarrow> number_text (snd x))"
      then have t: "gpio_step p s t" by (intro quiet_gpio_step) (use s(3) d(1) in simp_all)
      have set: "\<exists>r v'. y\<lparr>gp_value := v\<rparr> = y\<lparr>gp_result := r, gp_value := v'\<rparr>" for y :: iotjs_gpio_reqdata_t and v
        by (intro exI[of _ "gp_result y"] exI[of _ v]) (cases y, simp)
      have "steady p (case x of (b, buffer) \<Rightarrow>
          if b then sq (gpio_set_result p kGpioErrOk)
                   (bnd (atoi buffer) (\<lambda>i. upd_gpio_data p (\<lambda>d. d\<lparr>gp_value := (i \<noteq> 0)\<rparr>)))
          else gpio_set_result p kGpioErrSys)"
        using q by (auto split: prod.split intro!: steady_sq steady_bnd steady_atoi steady_upd set)
      then have "wp (case x of (b, buffer) \<Rightarrow>
          if b then sq (gpio_set_result p kGpioErrOk)
                   (bnd (atoi buffer) (\<lambda>i. upd_gpio_data p (\<lambda>d. d\<lparr>gp_value := (i \<noteq> 0)\<rparr>)))
          else gpio_set_result p kGpioErrSys) (\<lambda>_. gpio_step p t) t"
        by (rule steadyD) (use gpio_step_keeps[OF t] s(2) in simp_all)
      then show "wp (case x of (b, buffer) \<Rightarrow>
          if b then sq (gpio_set_result p kGpioErrOk)
                   (bnd (atoi buffer) (\<lambda>i. upd_gpio_data p (\<lambda>d. d\<lparr>gp_value := (i \<noteq> 0)\<rparr>)))
          else gpio_set_result p kGpioErrSys) (\<lambda>_. gpio_step p s) t"
        by (rule wp_mono) (rule gpio_step_trans[OF t])
    qed
  qed
qed

section \<open>Completion\<close>

lemma wp_gpio_dispatched:
  fixes s :: "('c, 'z) gpt_scheme"
  shows "wp (iotjs_gpio_reqwrap_dispatched p) Q s =
     wp (reqwrap_free p) (\<lambda>_ t. Q () (t\<lparr>gpio_data := (gpio_data t)(p := None)\<rparr>)) s"
proof -
  have swap: "t\<lparr>gpio_data := m, blocks := b\<rparr> = t\<lparr>blocks := b, gpio_data := m\<rparr>" for t :: "('c, 'z) gpt_scheme" and m b
    by (cases t) simp
  then show ?thesis
    unfolding iotjs_gpio_reqwrap_dispatched_def iotjs_gpio_reqwrap_destroy_def reqwrap_free_def
    by (simp add: wp_sq, intro arg_cong[where f = "\<lambda>Q. wp (iotjs_reqwrap_destroy p) Q s"], simp add: fun_eq_iff wp_upd wp_IOTJS_ALLOC swap)
qed

definition gpio_code :: "iotjs_gpio_reqdata_t \<Rightarrow> int \<Rightarrow> GpioError" where
  "gpio_code d status = (if status \<noteq> 0 then kGpioErrSys else gp_result d)"

definition gpio_values :: "iotjs_gpio_reqdata_t \<Rightarrow> int \<Rightarrow> jval list" where
  "gpio_values d status = JNumber (num (gpio_error_code (gpio_code d status))) #
     (if gp_op d = kGpioOpRead \<and> gpio_code d status = kGpioErrOk then [JBool (gp_value d)] else [])"

definition gpio_flag :: "iotjs_gpio_reqdata_t \<Rightarrow> int \<Rightarrow> bool \<Rightarrow> bool" where
  "gpio_flag d status i =
     (if gpio_code d status = kGpioErrOk \<and> gp_op d = kGpioOpInitize then True
      else if gpio_code d status = kGpioErrOk \<and> gp_op d = kGpioOpRelease then False else i)"

abbreviation gpio_set_flag :: "nat \<Rightarrow> jval \<Rightarrow> bool \<Rightarrow> ('c, 'z) gpt_scheme \<Rightarrow> ('c, 'z) gpt_scheme" where
  "gpio_set_flag g j i s \<equiv> s\<lparr>gpio_wraps := (gpio_wraps s)(g \<mapsto> \<lparr>gpio_jobject = j, gpio_is_initialized = i\<rparr>)\<rparr>"

lemma AfterGPIOWork_wp:
  fixes s :: "(call, 'z) gpt_scheme"
  assumes inv: "net_inv E s" "gpio_object E s g i" and req: "reqs s p = Some cb" "gpio_data s p = Some d"
  shows "wp (AfterGPIOWork E p status) (\<lambda>_ t. moved s t \<and> reqs t = (reqs s)(p := None) \<and>
    gpio_data t = (gpio_data s)(p := None) \<and> gpio_work t = gpio_work s \<and>
    gpio_wraps t = gpio_wraps (gpio_set_flag g (jmodule s MODULE_GPIO) (gpio_flag d status i) s) \<and>
    callback_made cb (jmodule s MODULE_GPIO) (gpio_values d status) s t \<and> h_ret t = h_ret s) s"
proof -
  let ?j = "jmodule s MODULE_GPIO" and ?vs = "gpio_values d status"
  let ?s = "gpio_set_flag g ?j (gpio_flag d status i) s"
  let ?x = "JNumber (num (gpio_error_code (gpio_code d status)))"
  let ?es = "[ECreate ?x, EAcquire ?x, ERelease ?x] @ map EAcquire (tl ?vs)"
  let ?t = "?s\<lparr>blocks := blocks s + 1, trace := trace s @ ?es\<rparr>"
  have wf: "wraps_wf ?s" "process_module E ?s" "reqs ?s p = Some cb"
    using inv(1) req(1) by (simp_all add: net_inv_def wraps_wf_def)
  have vs: "?vs = ?x # tl ?vs" by (simp add: gpio_values_def)
  have "args_built ?vs (jargs_of 2 ?vs) ?s ?t"
    unfolding args_built_def
    by (intro exI[of _ 2] exI[of _ ?es]) (auto simp: gpio_values_def)
  note fin = rw.complete_built[where E = E and this = ?j, OF wf(1,3,2) this]
  have "wp (bnd (iotjs_reqwrap_jcallback p) (\<lambda>j. sq (iotjs_make_callback E j ?j (jargs_of 2 ?vs))
      (sq (iotjs_jargs_destroy (jargs_of 2 ?vs)) (reqwrap_free p))))
    (\<lambda>_ u. moved s (u\<lparr>gpio_data := (gpio_data u)(p := None)\<rparr>) \<and> reqs u = (reqs s)(p := None) \<and>
      gpio_data u = gpio_data s \<and> gpio_work u = gpio_work s \<and>
      gpio_wraps u = gpio_wraps ?s \<and> callback_made cb ?j ?vs s u \<and> h_ret u = h_ret s) ?t"
  proof (rule wp_mono[OF fin], elim conjE)
    fix x and u :: "(call, 'z) gpt_scheme"
    assume u: "wraps_wf u" "steps ?s u" "reqs u = (reqs ?s)(p := None)" "handles u = handles ?s" "callback_made cb ?j ?vs ?s u"
    have "moved ?s u" by (rule steps_moved) fact+
    moreover have "moved s s" using inv(1) by (simp add: moved_def net_inv_def)
    then have "moved s ?s" by simp
    ultimately have "moved s u" by (rule moved_trans[rotated])
    moreover have "callback_made cb ?j ?vs s u" using u(5) by (simp add: callback_made_def)
    ultimately show "moved s (u\<lparr>gpio_data := (gpio_data u)(p := None)\<rparr>) \<and> reqs u = (reqs s)(p := None) \<and>
      gpio_data u = gpio_data s \<and> gpio_work u = gpio_work s \<and>
      gpio_wraps u = gpio_wraps ?s \<and> callback_made cb ?j ?vs s u \<and> h_ret u = h_ret s"
      using gpt_more[of u ?s] u(2,3) by (simp add: steps_def)
  qed
  then have free: "wp (iotjs_make_callback E cb ?j (jargs_of 2 ?vs)) (\<lambda>_. wp (iotjs_jargs_destroy (jargs_of 2 ?vs))
      (\<lambda>_. wp (iotjs_gpio_reqwrap_dispatched p)
    (\<lambda>_ t. moved s t \<and> reqs t = (reqs s)(p := None) \<and> gpio_data t = (gpio_data s)(p := None) \<and> gpio_work t = gpio_work s \<and>
      gpio_wraps t = gpio_wraps ?s \<and> callback_made cb ?j ?vs s t \<and> h_ret t = h_ret s))) ?t"
    using req(1) unfolding wp_gpio_dispatched wp_bnd wp_sq wp_reqwrap_jcallback
    by (elim exE conjE) (simp add: callback_made_def, elim wp_mono, auto elim!: wp_mono)
  let ?r = "gpio_code d status"
  let ?prep = "\<lambda>jargs. case gp_op d of
            kGpioOpInitize \<Rightarrow> sq (if ?r = kGpioErrOk then iotjs_gpio_set_initialized g True else ret ()) (ret jargs)
          | kGpioOpRelease \<Rightarrow> sq (if ?r = kGpioErrOk then iotjs_gpio_set_initialized g False else ret ()) (ret jargs)
          | kGpioOpOpen \<Rightarrow> ret jargs
          | kGpioOpWrite \<Rightarrow> ret jargs
          | kGpioOpRead \<Rightarrow> if ?r = kGpioErrOk then iotjs_jargs_append_bool jargs (gp_value d) else ret jargs"
  have flag: "gpio_wraps s g = Some \<lparr>gpio_jobject = ?j, gpio_is_initialized = i\<rparr>" "is_object ?j" "?j \<noteq> JUndefined"
    using inv(2) by (auto simp: gpio_object_def)
  have same: "(gpio_wraps s)(g \<mapsto> \<lparr>gpio_jobject = ?j, gpio_is_initialized = i\<rparr>) = gpio_wraps s"
    using flag(1) by (rule fun_upd_idem)
  have prep: "wp (bnd (iotjs_jargs_append_number (jargs_of 2 []) (num (gpio_error_code ?r))) ?prep)
      (\<lambda>a u. a = jargs_of 2 ?vs \<and> u = ?t) (s\<lparr>blocks := blocks s + 1\<rparr>)"
    apply (cases "gp_op d"; cases "?r = kGpioErrOk")
             apply (simp_all add: same flag(1) wp_bnd wp_sq wp_ret wp_jargs_append gpio_values_def gpio_flag_def
        iotjs_gpio_set_initialized_def wp_upd wp_get_gpio)
    done
  have "wp (bnd (bnd (iotjs_jargs_append_number (jargs_of 2 []) (num (gpio_error_code ?r))) ?prep) (\<lambda>jargs.
     bnd (iotjs_gpio_reqwrap_jcallback p) (\<lambda>jcallback.
     bnd iotjs_gpio_get_jgpio (\<lambda>jgpio.
     sq (iotjs_make_callback E jcallback jgpio jargs)
    (sq (iotjs_jargs_destroy jargs)
    (iotjs_gpio_reqwrap_dispatched p))))))
    (\<lambda>_ t. moved s t \<and> reqs t = (reqs s)(p := None) \<and> gpio_data t = (gpio_data s)(p := None) \<and> gpio_work t = gpio_work s \<and>
      gpio_wraps t = gpio_wraps ?s \<and> callback_made cb ?j ?vs s t \<and> h_ret t = h_ret s) (s\<lparr>blocks := blocks s + 1\<rparr>)"
    unfolding wp_bnd[of "bnd _ _"]
  proof (rule wp_mono[OF prep], elim conjE, hypsubst)
    show "wp (bnd (iotjs_gpio_reqwrap_jcallback p) (\<lambda>jcallback.
        bnd iotjs_gpio_get_jgpio (\<lambda>jgpio.
        sq (iotjs_make_callback E jcallback jgpio (jargs_of 2 ?vs))
       (sq (iotjs_jargs_destroy (jargs_of 2 ?vs))
       (iotjs_gpio_reqwrap_dispatched p)))))
    (\<lambda>_ t. moved s t \<and> reqs t = (reqs s)(p := None) \<and> gpio_data t = (gpio_data s)(p := None) \<and> gpio_work t = gpio_work s \<and>
      gpio_wraps t = gpio_wraps ?s \<and> callback_made cb ?j ?vs s t \<and> h_ret t = h_ret s) ?t"
      using free req(1) flag(3)
      by (simp add: wp_bnd wp_sq iotjs_gpio_reqwrap_jcallback_def wp_reqwrap_jcallback iotjs_gpio_get_jgpio_def wp_module_get)
  qed
  then show ?thesis
    using req
    by (simp add: AfterGPIOWork_def wp_bnd[of "iotjs_gpio_get_instance _"] wp_gpio_instance(1)[OF inv(2)]
      wp_bnd[of "iotjs_reqwrap_from_request _"] iotjs_gpio_reqwrap_from_request_def wp_reqwrap_from_request
      wp_bnd[of "get_gpio_data _"] iotjs_gpio_reqwrap_data_def wp_get_gpio bnd_ret_left
      wp_bnd[of "iotjs_jargs_create _"] wp_jargs_create bnd_assoc gpio_code_def[symmetric])
qed

end
