(* ===== verification/Iot_Gpio_Session.thy ===== *)
theory Iot_Gpio_Session
  imports Iot_Gpio_Steps
begin

text \<open>
  Sessions of the pin module: the invariant between two events (\<open>gpio_inv\<close>), the events and runs, the
  safety of every run, what writing a pin does, and two ways in which scripts stop the program.
\<close>

section \<open>Sessions\<close>

text \<open>
  Between two events: every request that libuv has is known to the module with its data, the flag of
  the module is the one that the worker of the request expects, and a request to initialise or to
  release is alone.
\<close>

definition gpio_work_ok :: "('c, 'z) gpt_scheme \<Rightarrow> bool \<Rightarrow> bool" where
  "gpio_work_ok s i \<longleftrightarrow>
     (\<forall>p w b. gpio_work s p = Some (w, b) \<longrightarrow> reqs s p \<noteq> None \<and> i = (w \<noteq> kGpioOpInitize) \<and>
        (\<exists>d. gpio_data s p = Some d \<and> gp_op d = w \<and> (w = kGpioOpOpen \<longrightarrow> mode_ok d))) \<and>
     (\<forall>p q w b. gpio_work s p = Some (w, b) \<longrightarrow> w \<in> {kGpioOpInitize, kGpioOpRelease} \<longrightarrow> gpio_work s q \<noteq> None \<longrightarrow> q = p)"

definition gpio_inv :: "call engine \<Rightarrow> fs_lib \<Rightarrow> (call, 'z) gpt_scheme \<Rightarrow> nat \<Rightarrow> bool \<Rightarrow> bool" where
  "gpio_inv E L s g i \<longleftrightarrow> net_inv E s \<and> gpio_object E s g i \<and> env_initialized s \<and> gpio_files E L \<and> gpio_work_ok s i"

fun gpio_body :: "call engine \<Rightarrow> GpioOp \<Rightarrow> ((call, 'z) gpt_scheme, unit) prog" where
  "gpio_body E kGpioOpInitize = Initialize E"
| "gpio_body E kGpioOpRelease = Release E"
| "gpio_body E kGpioOpOpen = Open_gpio E"
| "gpio_body E kGpioOpWrite = Write_gpio E"
| "gpio_body E kGpioOpRead = Read_gpio E"

fun gpio_args :: "GpioOp \<Rightarrow> jval list \<Rightarrow> bool" where
  "gpio_args kGpioOpOpen args \<longleftrightarrow> (\<exists>pin dir mode cb. args = [JNumber (num pin), JNumber (num dir), JNumber (num mode), cb] \<and>
     is_function cb \<and> in_int32 pin \<and> 0 \<le> dir \<and> dir < 2 ^ 32 \<and> 0 \<le> mode \<and> mode < 2 ^ 32 \<and>
     (gpio_direction_of dir \<in> {Some kGpioDirectionIn, Some kGpioDirectionOut} \<longrightarrow>
        gpio_mode_of mode \<notin> {Some kGpioModeNone, Some kGpioModeOpendrain}))"
| "gpio_args kGpioOpWrite args \<longleftrightarrow> (\<exists>pin v cb. args = [JNumber (num pin), JBool v, cb] \<and> is_function cb \<and> 0 \<le> pin \<and> pin < 2 ^ 32)"
| "gpio_args kGpioOpRead args \<longleftrightarrow> (\<exists>pin cb. args = [JNumber (num pin), cb] \<and> is_function cb \<and> 0 \<le> pin \<and> pin < 2 ^ 32)"
| "gpio_args _ args \<longleftrightarrow> (\<exists>cb. args = [cb] \<and> is_function cb)"

text \<open>
  The events: a handler is called, a thread runs a worker, the loop completes a request. A request to
  initialise is made when the module is not initialised, the others when it is; a request to
  initialise or release only when no other is under way, and no request while one of these is.
\<close>

datatype gpio_event = GpioCall GpioOp jval "jval list" | GpioThread nat | GpioDone nat int

definition gpio_quiet_for :: "GpioOp \<Rightarrow> ('c, 'z) gpt_scheme \<Rightarrow> bool" where
  "gpio_quiet_for op s \<longleftrightarrow> (\<forall>p w b. gpio_work s p = Some (w, b) \<longrightarrow>
     op \<notin> {kGpioOpInitize, kGpioOpRelease} \<and> w \<notin> {kGpioOpInitize, kGpioOpRelease})"

fun gpio_enabled :: "call engine \<Rightarrow> nat \<Rightarrow> (call, 'z) gpt_scheme \<Rightarrow> gpio_event \<Rightarrow> bool" where
  "gpio_enabled E g s (GpioCall op t args) \<longleftrightarrow> gpio_args op args \<and> gpio_object E s g (op \<noteq> kGpioOpInitize) \<and> gpio_quiet_for op s"
| "gpio_enabled E g s (GpioThread p) \<longleftrightarrow> (\<exists>w. gpio_work s p = Some (w, False))"
| "gpio_enabled E g s (GpioDone p status) \<longleftrightarrow> (\<exists>w. gpio_work s p = Some (w, True))"

fun gpio_perform :: "call engine \<Rightarrow> fs_lib \<Rightarrow> gpio_event \<Rightarrow> ((call, 'z) gpt_scheme, unit) prog" where
  "gpio_perform E L (GpioCall op t args) = native_handler.serve (gpio_body E op) (t, args)"
| "gpio_perform E L (GpioThread p) = gpio_thread E L p"
| "gpio_perform E L (GpioDone p status) = gpio_done E p status"

lemma gpio_object_flag: "gpio_object E s g i \<Longrightarrow> gpio_object E s g j \<Longrightarrow> i = j"
  by (simp add: gpio_object_def)

lemma gpio_inv_entered:
  "net_inv E s \<Longrightarrow> gpio_object E s g i \<Longrightarrow> env_initialized s \<Longrightarrow> gpio_entered E t args s g i"
  "gpio_inv E L s g i \<Longrightarrow> gpio_entered E t args s g i"
  by (simp_all add: gpio_entered_def gpio_ready_def gpio_inv_def gpio_object_def handler_entry_def net_inv_def
      native_of_append wraps_wf_def)

text \<open>What a handler leaves: one more request, or an error that is thrown.\<close>

definition gpio_after :: "GpioOp \<Rightarrow> (call, 'z) gpt_scheme \<Rightarrow> (call, 'z) gpt_scheme \<Rightarrow> bool" where
  "gpio_after op s t \<longleftrightarrow> gpio_thrown s t \<or>
     (\<exists>d cb. gpio_queued op d cb s t \<and> gp_op d = op \<and> (op = kGpioOpOpen \<longrightarrow> mode_ok d))"

lemma gpio_body_wp:
  fixes s :: "(call, 'z) gpt_scheme"
  assumes inv: "gpio_inv E L s g (op \<noteq> kGpioOpInitize)" and args: "gpio_args op args"
  shows "wp (gpio_body E op) (\<lambda>_. gpio_after op (handler_entry t args s)) (handler_entry t args s)"
proof (cases op)
  case kGpioOpInitize
  then obtain cb where a: "args = [cb]" "is_function cb" using args by auto
  have "gpio_entered E t [cb] s g False" using gpio_inv_entered(2)[OF inv] kGpioOpInitize by simp
  from Initialize_wp[OF this a(2)] show ?thesis
    unfolding kGpioOpInitize a(1) gpio_body.simps by (rule wp_mono) (auto simp: gpio_after_def)
next
  case kGpioOpRelease
  then obtain cb where a: "args = [cb]" "is_function cb" using args by auto
  have "gpio_entered E t [cb] s g True" using gpio_inv_entered(2)[OF inv] kGpioOpRelease by simp
  from Release_wp[OF this a(2)] show ?thesis
    unfolding kGpioOpRelease a(1) gpio_body.simps by (rule wp_mono) (auto simp: gpio_after_def)
next
  case kGpioOpOpen
  then obtain pin dir mode cb where a: "args = [JNumber (num pin), JNumber (num dir), JNumber (num mode), cb]"
    "is_function cb" "in_int32 pin" "0 \<le> dir" "dir < 2 ^ 32" "0 \<le> mode" "mode < 2 ^ 32"
    "gpio_direction_of dir \<in> {Some kGpioDirectionIn, Some kGpioDirectionOut} \<longrightarrow>
        gpio_mode_of mode \<notin> {Some kGpioModeNone, Some kGpioModeOpendrain}"
    using args by auto
  have "gpio_entered E t [JNumber (num pin), JNumber (num dir), JNumber (num mode), cb] s g True"
    using gpio_inv_entered(2)[OF inv] kGpioOpOpen by simp
  from Open_gpio_wp[OF this a(2-7)] show ?thesis
    unfolding kGpioOpOpen a(1) gpio_body.simps
  proof (rule wp_mono)
    fix x z
    let ?s = "handler_entry t [JNumber (num pin), JNumber (num dir), JNumber (num mode), cb] s"
    assume q: "case (gpio_direction_of dir, gpio_mode_of mode) of
      (Some d, Some m) \<Rightarrow> gpio_queued kGpioOpOpen ((gpio_fresh kGpioOpOpen)\<lparr>gp_pin := c_uint32 pin, gp_dir := d, gp_mode := m\<rparr>) cb ?s z
    | _ \<Rightarrow> gpio_thrown ?s z"
    show "gpio_after kGpioOpOpen ?s z"
    proof (cases "gpio_direction_of dir")
      case None
      then show ?thesis using q by (simp add: gpio_after_def)
    next
      case d: (Some d)
      show ?thesis
      proof (cases "gpio_mode_of mode")
        case None
        then show ?thesis using q d by (simp add: gpio_after_def)
      next
        case m: (Some m)
        let ?d = "(gpio_fresh kGpioOpOpen)\<lparr>gp_pin := c_uint32 pin, gp_dir := d, gp_mode := m\<rparr>"
        have "mode_ok ?d" using a(8) d m by (cases d) (auto simp: mode_ok_def)
        moreover have "gp_op ?d = kGpioOpOpen" by simp
        moreover have "gpio_queued kGpioOpOpen ?d cb ?s z" using q d m by simp
        ultimately show ?thesis unfolding gpio_after_def by blast
      qed
    qed
  qed
next
  case kGpioOpWrite
  then obtain pin v cb where a: "args = [JNumber (num pin), JBool v, cb]" "is_function cb" "0 \<le> pin" "pin < 2 ^ 32"
    using args by auto
  have "gpio_entered E t [JNumber (num pin), JBool v, cb] s g True" using gpio_inv_entered(2)[OF inv] kGpioOpWrite by simp
  from Write_gpio_wp[OF this a(2-4)] show ?thesis
    unfolding kGpioOpWrite a(1) gpio_body.simps by (rule wp_mono) (fastforce simp: gpio_after_def)
next
  case kGpioOpRead
  then obtain pin cb where a: "args = [JNumber (num pin), cb]" "is_function cb" "0 \<le> pin" "pin < 2 ^ 32"
    using args by auto
  have "gpio_entered E t [JNumber (num pin), cb] s g True" using gpio_inv_entered(2)[OF inv] kGpioOpRead by simp
  from Read_gpio_wp[OF this a(2-4)] show ?thesis
    unfolding kGpioOpRead a(1) gpio_body.simps by (rule wp_mono) (fastforce simp: gpio_after_def)
qed

lemma gpio_work_okD:
  "gpio_work_ok s i \<Longrightarrow> gpio_work s p = Some (w, b) \<Longrightarrow> (\<exists>cb. reqs s p = Some cb) \<and> i = (w \<noteq> kGpioOpInitize) \<and>
     (\<exists>d. gpio_data s p = Some d \<and> gp_op d = w \<and> (w = kGpioOpOpen \<longrightarrow> mode_ok d))"
  "gpio_work_ok s i \<Longrightarrow> gpio_work s p = Some (w, b) \<Longrightarrow> gpio_work s q = Some x \<Longrightarrow>
     w \<in> {kGpioOpInitize, kGpioOpRelease} \<Longrightarrow> q = p"
  unfolding gpio_work_ok_def by blast+

lemma gpio_object_same:
  "native_of (trace t) = native_of (trace s) \<Longrightarrow> jmodule t = jmodule s \<Longrightarrow> gpio_wraps t = gpio_wraps s \<Longrightarrow>
   gpio_object E t g i = gpio_object E s g i"
  by (simp add: gpio_object_def)

lemma gpio_work_ok_same:
  "reqs t = reqs s \<Longrightarrow> gpio_data t = gpio_data s \<Longrightarrow> gpio_work t = gpio_work s \<Longrightarrow> gpio_work_ok t i = gpio_work_ok s i"
  by (simp add: gpio_work_ok_def)

text \<open>The new request of a handler respects the protocol.\<close>

lemma gpio_after_work:
  assumes ok: "gpio_work_ok s (op \<noteq> kGpioOpInitize)" and quiet: "gpio_quiet_for op s" and t: "gpio_after op s t"
  shows "gpio_work_ok t (op \<noteq> kGpioOpInitize)" "moved s t" "gpio_wraps t = gpio_wraps s"
proof -
  show "moved s t" "gpio_wraps t = gpio_wraps s"
    using t unfolding gpio_after_def gpio_thrown_def gpio_queued_def by blast+
  show "gpio_work_ok t (op \<noteq> kGpioOpInitize)"
  proof (cases "gpio_thrown s t")
    case True
    then show ?thesis using ok gpio_work_ok_same[of t s] by (simp add: gpio_thrown_def)
  next
    case False
    with t obtain d cb where q: "gpio_queued op d cb s t" "gp_op d = op" "op = kGpioOpOpen \<longrightarrow> mode_ok d"
      unfolding gpio_after_def by blast
    from q(1) obtain p where p: "reqs s p = None" "reqs t = (reqs s)(p \<mapsto> cb)" "gpio_data t = (gpio_data s)(p \<mapsto> d)"
      "gpio_work t = (gpio_work s)(p \<mapsto> (op, False))"
      unfolding gpio_queued_def by blast
    note p = p q(2,3)
    have old: "gpio_work s x = Some (w, b) \<Longrightarrow> reqs s x \<noteq> None \<and> w \<noteq> kGpioOpInitize = (op \<noteq> kGpioOpInitize) \<and>
        (\<exists>d. gpio_data s x = Some d \<and> gp_op d = w \<and> (w = kGpioOpOpen \<longrightarrow> mode_ok d))" for x w b
      using gpio_work_okD(1)[OF ok, of x w b] by auto
    have alone: "gpio_work s x = Some (w, b) \<Longrightarrow> op \<notin> {kGpioOpInitize, kGpioOpRelease} \<and> w \<notin> {kGpioOpInitize, kGpioOpRelease}" for x w b
      using quiet unfolding gpio_quiet_for_def by blast
    have fresh: "gpio_work s p = None" using old[of p] p(1) by (cases "gpio_work s p") auto
    show ?thesis
      unfolding gpio_work_ok_def
    proof (intro conjI allI impI, goal_cases)
      case (1 x w b)
      then show ?case using old[of x w b] p(2,4) by (cases "x = p") simp_all
    next
      case (2 x w b)
      then show ?case using old[of x w b] p(4) by (cases "x = p") auto
    next
      case (3 x w b)
      then show ?case using old[of x w b] p(3-6) by (cases "x = p") auto
    next
      case (4 x y w b)
      show ?case
      proof (cases "x = p")
        case True
        then have "w = op" using 4(1) p(4) by simp
        then have "\<nexists>a b. gpio_work s y = Some (a, b)" using 4(2) alone[of y] by blast
        then show ?thesis using 4(3) p(4) True by (cases "y = p") auto
      next
        case False
        then have "gpio_work s x = Some (w, b)" using 4(1) p(4) by simp
        then show ?thesis using 4(2) alone[of x w b] by blast
      qed
    qed
  qed
qed

lemma gpio_serve_wp:
  fixes s :: "(call, 'z) gpt_scheme"
  assumes inv: "gpio_inv E L s g i" and en: "gpio_enabled E g s (GpioCall op t args)"
  shows "wp (gpio_perform E L (GpioCall op t args)) (\<lambda>_ u. gpio_inv E L u g i \<and> balance s u) s"
proof -
  let ?e = "handler_entry t args s"
  have a: "gpio_args op args" "gpio_quiet_for op s" and i: "i = (op \<noteq> kGpioOpInitize)"
    using en inv gpio_object_flag[of E s g i] by (auto simp: gpio_inv_def)
  have ent: "gpio_work_ok ?e (op \<noteq> kGpioOpInitize)" "gpio_quiet_for op ?e"
    using inv a(2) unfolding i by (simp_all add: gpio_inv_def gpio_work_ok_def gpio_quiet_for_def handler_entry_def)
  let ?P = "\<lambda>u :: (call, 'z) gpt_scheme. native_of (trace u) = native_of (trace s) \<and> gpio_wraps u = gpio_wraps s \<and>
    env_initialized u = env_initialized s \<and> gpio_work_ok u (op \<noteq> kGpioOpInitize)"
  have body: "wp (gpio_body E op) (\<lambda>_ u. wraps_wf u \<and> keeps ?e u \<and> ?P u) ?e"
  proof (rule wp_mono[OF gpio_body_wp[OF inv[unfolded i] a(1)]])
    fix x and z :: "(call, 'z) gpt_scheme"
    assume z: "gpio_after op ?e z"
    note w = gpio_after_work[OF ent z]
    have n: "native_of (trace ?e) = native_of (trace s)" by (simp add: native_of_append fun_eq_iff)
    show "wraps_wf z \<and> keeps ?e z \<and> ?P z"
      using w(1) w(2)[unfolded moved_def] w(3) n by (simp add: handler_entry_def)
  qed
  have "wp (native_handler.serve (gpio_body E op) (t, args)) (\<lambda>_ w. wraps_wf w \<and> balance s w \<and> jmodule w = jmodule s \<and> ?P w) s"
  proof (rule serve_keeps[OF body])
    fix u :: "(call, 'z) gpt_scheme" and b v
    assume u: "?P u"
    have "native_of (trace u @ [ERelease v]) = native_of (trace u)" by (rule ext) (simp add: native_of_append)
    then show "?P (u\<lparr>blocks := b, trace := trace u @ [ERelease v]\<rparr>)"
      using u gpio_work_ok_same[of "u\<lparr>blocks := b, trace := trace u @ [ERelease v]\<rparr>" u] by simp
  qed
  then show ?thesis
    unfolding gpio_perform.simps
    by (rule wp_mono) (use inv i gpio_object_same[of _ s E g i] in \<open>auto simp: gpio_inv_def net_inv_def\<close>)
qed

lemma balance_work [simp]:
  fixes t :: "('c, 'z) gpt_scheme"
  shows "balance s (t\<lparr>gpio_work := w\<rparr>) = balance s t"
  by (simp add: balance_def kept_wraps_def heap_wraps_def)

lemma gpio_thread_wp:
  fixes s :: "(call, 'z) gpt_scheme"
  assumes inv: "gpio_inv E L s g i" and en: "gpio_work s p = Some (w, False)"
  shows "wp (gpio_thread E L p) (\<lambda>_ u. gpio_inv E L u g i \<and> balance s u) s"
proof -
  have k: "net_inv E s" "gpio_object E s g i" "env_initialized s" "gpio_files E L" and ok: "gpio_work_ok s i"
    using inv by (simp_all add: gpio_inv_def)
  obtain cb d where r: "reqs s p = Some cb" "gpio_data s p = Some d" "i = (w \<noteq> kGpioOpInitize)" "gp_op d = w"
    "w = kGpioOpOpen \<longrightarrow> mode_ok d"
    using gpio_work_okD(1)[OF ok en] by auto
  have wf: "wraps_wf s" using k(1) by (simp add: net_inv_def)
  have "wp (gpio_worker E L w p) (\<lambda>_ u. gpio_inv E L (u\<lparr>gpio_work := (gpio_work u)(p \<mapsto> (w, True))\<rparr>) g i \<and> balance s u) s"
  proof (rule wp_mono[OF gpio_worker_wp[OF k(2)[unfolded r(3)] k(3) wf r(1,2,5) k(4)]])
    fix x and u :: "(call, 'z) gpt_scheme"
    assume u: "gpio_step p s u"
    let ?u = "u\<lparr>gpio_work := (gpio_work u)(p \<mapsto> (w, True))\<rparr>"
    obtain r' v where f: "gpio_moved s u" "reqs u = reqs s" "gpio_work u = gpio_work s"
      "gpio_data u = (gpio_data s)(p \<mapsto> d\<lparr>gp_result := r', gp_value := v\<rparr>)"
      using u r(2) by (auto simp: gpio_step_def)
    have m: "mode_ok (d\<lparr>gp_result := r', gp_value := v\<rparr>) = mode_ok d" by (simp add: mode_ok_def)
    have "gpio_work_ok ?u i"
      unfolding gpio_work_ok_def
    proof (intro conjI allI impI, goal_cases)
      case (1 x w' b)
      then obtain b' where "gpio_work s x = Some (w', b')" using f(3) en by (auto split: if_splits)
      then show ?case using gpio_work_okD(1)[OF ok] f(2) by auto
    next
      case (2 x w' b)
      then obtain b' where "gpio_work s x = Some (w', b')" using f(3) en by (auto split: if_splits)
      then show ?case using gpio_work_okD(1)[OF ok] by auto
    next
      case (3 x w' b)
      then show ?case
      proof (cases "x = p")
        case True
        then show ?thesis using 3 f(4) r(4,5) m by simp
      next
        case False
        then have "gpio_work s x = Some (w', b)" using 3 f(3) by simp
        then show ?thesis using gpio_work_okD(1)[OF ok] f(4) False by auto
      qed
    next
      case (4 x y w' b)
      then obtain b' z where "gpio_work s x = Some (w', b')" "gpio_work s y = Some z"
        using f(3) en by (auto split: if_splits)
      then show ?case using gpio_work_okD(2)[OF ok] 4(2) by blast
    qed
    moreover have "gpio_object E ?u g i"
      using gpio_object_moved[OF k(2) f(1)] by (simp add: gpio_object_def)
    moreover have mv: "moved s u" "h_ret u = h_ret s" using f(1) by (simp_all add: gpio_moved_def)
    moreover have "net_inv E ?u" using k(1) mv(1) by (simp add: net_inv_def moved_def keeps_def wraps_wf_def)
    ultimately show "gpio_inv E L ?u g i \<and> balance s u"
      using k(3,4) moved_balance[OF mv] by (simp add: gpio_inv_def moved_def)
  qed
  then show ?thesis
    using en by (simp add: gpio_thread_def wp_bnd wp_gets wp_sq) (erule wp_mono, simp add: wp_upd)
qed

lemma gpio_done_wp:
  fixes s :: "(call, 'z) gpt_scheme"
  assumes inv: "gpio_inv E L s g i" and en: "gpio_work s p = Some (w, True)" and r: "reqs s p = Some cb" "gpio_data s p = Some d"
  shows "wp (gpio_done E p status) (\<lambda>_ u. gpio_inv E L u g (gpio_flag d status i) \<and> balance s u \<and>
    reqs u = (reqs s)(p := None) \<and> gpio_data u = (gpio_data s)(p := None) \<and> gpio_work u = (gpio_work s)(p := None) \<and>
    callback_made cb (jmodule s MODULE_GPIO) (gpio_values d status) s u) s"
proof -
  let ?s = "s\<lparr>gpio_work := (gpio_work s)(p := None)\<rparr>"
  have k: "net_inv E s" "gpio_object E s g i" "env_initialized s" "gpio_files E L" and ok: "gpio_work_ok s i"
    using inv by (simp_all add: gpio_inv_def)
  have op: "gp_op d = w" using gpio_work_okD(1)[OF ok en] r(2) by auto
  have s: "net_inv E ?s" "gpio_object E ?s g i" "reqs ?s p = Some cb" "gpio_data ?s p = Some d"
    using k r by (simp_all add: net_inv_def gpio_object_def wraps_wf_def)
  have "wp (AfterGPIOWork E p status) (\<lambda>_ u. gpio_inv E L u g (gpio_flag d status i) \<and> balance s u \<and>
    reqs u = (reqs s)(p := None) \<and> gpio_data u = (gpio_data s)(p := None) \<and> gpio_work u = (gpio_work s)(p := None) \<and>
    callback_made cb (jmodule s MODULE_GPIO) (gpio_values d status) s u) ?s"
  proof (rule wp_mono[OF AfterGPIOWork_wp[OF s]], elim conjE)
    fix x and u :: "(call, 'z) gpt_scheme"
    assume u: "moved ?s u" "reqs u = (reqs ?s)(p := None)" "gpio_data u = (gpio_data ?s)(p := None)"
      "gpio_work u = gpio_work ?s" "gpio_wraps u = gpio_wraps (gpio_set_flag g (jmodule ?s MODULE_GPIO) (gpio_flag d status i) ?s)"
      "callback_made cb (jmodule ?s MODULE_GPIO) (gpio_values d status) ?s u" "h_ret u = h_ret ?s"
    have m: "moved s u"
      using u(1) moved_trans[of s ?s u] k(1) by (simp add: net_inv_def) (simp add: moved_def)
    have old: "gpio_work s x = Some (w', b) \<Longrightarrow> x \<noteq> p \<Longrightarrow> w' \<notin> {kGpioOpInitize, kGpioOpRelease} \<and> w \<notin> {kGpioOpInitize, kGpioOpRelease} \<and>
        reqs s x \<noteq> None \<and> i = (w' \<noteq> kGpioOpInitize) \<and> (\<exists>d. gpio_data s x = Some d \<and> gp_op d = w' \<and> (w' = kGpioOpOpen \<longrightarrow> mode_ok d))" for x w' b
      using gpio_work_okD(1)[OF ok, of x w' b] gpio_work_okD(2)[OF ok _ en, of x w' b] gpio_work_okD(2)[OF ok en, of x "(w', b)"] by auto
    have "gpio_work_ok u (gpio_flag d status i)"
      unfolding gpio_work_ok_def
    proof (intro conjI allI impI, goal_cases)
      case (1 x w' b)
      then have "x \<noteq> p" "gpio_work s x = Some (w', b)" using u(4) by (auto split: if_splits)
      then show ?case using old u(2) by auto
    next
      case (2 x w' b)
      then have "x \<noteq> p" "gpio_work s x = Some (w', b)" using u(4) by (auto split: if_splits)
      then show ?case using old op by (auto simp: gpio_flag_def)
    next
      case (3 x w' b)
      then have "x \<noteq> p" "gpio_work s x = Some (w', b)" using u(4) by (auto split: if_splits)
      then show ?case using old[of x w' b] u(3) by auto
    next
      case (4 x y w' b)
      then have "x \<noteq> p" "gpio_work s x = Some (w', b)" using u(4) by (auto split: if_splits)
      then show ?case using old[of x w' b] 4(2) by auto
    qed
    moreover have "gpio_object E u g (gpio_flag d status i)"
      using k(2) u(5) m by (simp add: gpio_object_def moved_def keeps_def)
    moreover have "net_inv E u" using k(1) m by (simp add: net_inv_def moved_def keeps_def)
    moreover have "callback_made cb (jmodule s MODULE_GPIO) (gpio_values d status) s u"
      using u(6) by (simp add: callback_made_def)
    ultimately show "gpio_inv E L u g (gpio_flag d status i) \<and> balance s u \<and> reqs u = (reqs s)(p := None) \<and>
      gpio_data u = (gpio_data s)(p := None) \<and> gpio_work u = (gpio_work s)(p := None) \<and>
      callback_made cb (jmodule s MODULE_GPIO) (gpio_values d status) s u"
      using u(2-4,7) k(3,4) m moved_balance[OF m] by (simp add: gpio_inv_def moved_def)
  qed
  then show ?thesis
    using en by (simp add: gpio_done_def wp_bnd wp_gets wp_sq wp_upd)
qed

lemma gpio_perform_wp:
  fixes s :: "(call, 'z) gpt_scheme"
  assumes inv: "gpio_inv E L s g i" and en: "gpio_enabled E g s e"
  shows "wp (gpio_perform E L e) (\<lambda>_ u. (\<exists>j. gpio_inv E L u g j) \<and> balance s u) s"
proof (cases e)
  case (GpioCall op t args)
  show ?thesis
    unfolding GpioCall by (rule wp_mono[OF gpio_serve_wp[OF inv en[unfolded GpioCall]]]) blast
next
  case (GpioThread p)
  then obtain w where "gpio_work s p = Some (w, False)" using en by auto
  from gpio_thread_wp[OF inv this] show ?thesis
    unfolding GpioThread gpio_perform.simps by (rule wp_mono) blast
next
  case (GpioDone p status)
  then obtain w where w: "gpio_work s p = Some (w, True)" using en by auto
  have "gpio_work_ok s i" using inv by (simp add: gpio_inv_def)
  from gpio_work_okD[OF this w] obtain cb d where "reqs s p = Some cb" "gpio_data s p = Some d" by auto
  from gpio_done_wp[OF inv w this] show ?thesis
    unfolding GpioDone gpio_perform.simps by (rule wp_mono) blast
qed

inductive gpio_run :: "call engine \<Rightarrow> fs_lib \<Rightarrow> nat \<Rightarrow> (call, 'z) gpt_scheme \<Rightarrow> (call, 'z) gpt_scheme \<Rightarrow> bool"
  for E L g where
  start: "gpio_run E L g s s"
| after: "gpio_run E L g s t \<Longrightarrow> gpio_enabled E g t e \<Longrightarrow> gpio_perform E L e t = Inr ((), u) \<Longrightarrow> gpio_run E L g s u"

lemma gpio_run_keeps:
  assumes "gpio_run E L g s t" "gpio_inv E L s g i"
  shows "(\<exists>j. gpio_inv E L t g j) \<and> balance s t"
  using assms
proof (induction rule: gpio_run.induct)
  case (after s t e u)
  then obtain j where t: "gpio_inv E L t g j" "balance s t" by auto
  from gpio_perform_wp[OF t(1) after(2)] after(3) show ?case
    using balance_trans[OF t(2)] by (simp add: wp_runsD)
qed auto

section \<open>Properties\<close>


text \<open>A call of a handler from a state between two events.\<close>

lemma gpio_call:
  fixes s :: "(call, 'z) gpt_scheme"
  assumes i: "net_inv E s" "gpio_object E s g j" "env_initialized s"
    and body: "wp (gpio_body E op) (\<lambda>_ z. gpio_queued op d cb (handler_entry t args s) z) (handler_entry t args s)"
  obtains u p where "JHANDLER_FUNCTION (gpio_body E op) t args s = Inr ((False, JNull), u)"
    "reqs s p = None" "reqs u = (reqs s)(p \<mapsto> cb)" "gpio_data u = (gpio_data s)(p \<mapsto> d)" "gpio_work u = (gpio_work s)(p \<mapsto> (op, False))"
    "gpio_object E u g j" "net_inv E u" "env_initialized u" "env u = env s" "jmodule u = jmodule s"
proof -
  let ?e = "handler_entry t args s"
  have "wp (gpio_body E op) (\<lambda>_ z. moved ?e z \<and> gpio_queued op d cb ?e z) ?e"
    by (rule wp_mono[OF body]) (simp add: gpio_queued_def)
  then obtain z where z: "JHANDLER_FUNCTION (gpio_body E op) t args s = Inr (h_ret z, z\<lparr>blocks := blocks z - (if args = [] then 0 else 1)\<rparr>)"
    "moved ?e z" "gpio_queued op d cb ?e z" by (rule handler_call_moved)
  let ?u = "z\<lparr>blocks := blocks z - (if args = [] then 0 else 1)\<rparr>"
  from z(3) obtain p where p: "h_ret z = (False, JNull)" "gpio_wraps z = gpio_wraps s" "reqs s p = None"
    "reqs z = (reqs s)(p \<mapsto> cb)" "gpio_data z = (gpio_data s)(p \<mapsto> d)" "gpio_work z = (gpio_work s)(p \<mapsto> (op, False))"
    unfolding gpio_queued_def by (auto simp: handler_entry_def)
  have "native_of (trace ?e) = native_of (trace s)" by (rule ext) (simp add: native_of_append)
  then have m: "wraps_wf z" "jmodule z = jmodule s" "native_of (trace z) = native_of (trace s)" "env z = env s"
    "env_initialized z = env_initialized s"
    using z(2) by (simp_all add: moved_def keeps_def handler_entry_def)
  from m(1) have wf: "wraps_wf ?u" by (simp add: wraps_wf_def)
  show ?thesis
  proof (rule that[of ?u p])
    show "gpio_object E ?u g j" using i(2) m p(2) by (simp add: gpio_object_def)
    show "net_inv E ?u" using i(1) m wf by (simp add: net_inv_def)
    show "JHANDLER_FUNCTION (gpio_body E op) t args s = Inr ((False, JNull), ?u)" using z(1) p(1) by simp
  qed (use p m i in simp_all)
qed

lemma gpio_thread_run:
  assumes "gpio_work s p = Some (w, False)"
  shows "wp (gpio_thread E L p) Q s =
    wp (gpio_worker E L w p) (\<lambda>_. wp (upd (\<lambda>t. t\<lparr>gpio_work := (gpio_work t)(p \<mapsto> (w, True))\<rparr>)) Q) s"
  using assms by (simp only: gpio_thread_def wp_bnd wp_gets wp_sq option.case prod.case bool.case)

text \<open>The worker of a write.\<close>

lemma write_worker_wp:
  fixes s :: "(call, 'z) gpt_scheme"
  assumes s: "gpio_object E s g True" "env_initialized s" "wraps_wf s" "reqs s p = Some cb" "gpio_data s p = Some d"
    and w: "gpio_work s p = Some (kGpioOpWrite, False)"
  shows "wp (gpio_thread E L p) (\<lambda>_ t. moved s t \<and> reqs t = reqs s \<and> gpio_wraps t = gpio_wraps s \<and>
    gpio_work t = (gpio_work s)(p \<mapsto> (kGpioOpWrite, True)) \<and>
    (\<exists>b es. trace t = trace s @ es \<and>
      device_write (env_loop (env s)) (gpio_pin_path (gp_pin d) @ ''value'') (if gp_value d then ''1'' else ''0'') b es \<and>
      gpio_data t = (gpio_data s)(p \<mapsto> d\<lparr>gp_result := (if b then kGpioErrOk else kGpioErrSys)\<rparr>))) s"
proof -
  let ?path = "gpio_path (gpio_pin_path (gp_pin d) @ ''value'')" and ?v = "if gp_value d then ''1'' else ''0''"
  let ?Q = "\<lambda>t. moved s t \<and> reqs t = reqs s \<and> gpio_wraps t = gpio_wraps s \<and> gpio_work t = gpio_work s \<and>
    (\<exists>b es. trace t = trace s @ es \<and> device_write (env_loop (env s)) ?path ?v b es \<and>
      gpio_data t = (gpio_data s)(p \<mapsto> d\<lparr>gp_result := (if b then kGpioErrOk else kGpioErrSys)\<rparr>))"
  have "wp (bnd (DeviceOpenWriteClose E ?path ?v) (\<lambda>b. if b then gpio_set_result p kGpioErrOk else gpio_set_result p kGpioErrSys))
      (\<lambda>_. ?Q) s"
    unfolding wp_bnd
  proof (rule wp_mono[OF DeviceOpenWriteClose_wp[OF s(2)]], elim conjE exE)
    fix b es and t :: "(call, 'z) gpt_scheme"
    assume t: "quiet s t" "trace t = trace s @ es" "device_write (env_loop (env s)) ?path ?v b es"
    have q: "gpio_moved s t" "reqs t = reqs s" "gpio_data t = gpio_data s" "gpio_work t = gpio_work s"
      using quiet_gpio[OF t(1) s(3)] by blast+
    have "wp (gpio_set_result p (if b then kGpioErrOk else kGpioErrSys)) (\<lambda>_. ?Q) t"
      unfolding gpio_set_result_def wp_get_gpio
    proof (intro exI conjI)
      let ?u = "t\<lparr>gpio_data := (gpio_data t)(p \<mapsto> d\<lparr>gp_result := (if b then kGpioErrOk else kGpioErrSys)\<rparr>)\<rparr>"
      show "gpio_data t p = Some d" using q(3) s(5) by simp
      show "moved s ?u" "gpio_wraps ?u = gpio_wraps s" using q(1) by (simp_all add: gpio_moved_def)
      show "device_write (env_loop (env s)) ?path ?v b es" by (rule t(3))
    qed (use q(2-4) t(2) in simp_all)
    then show "wp (if b then gpio_set_result p kGpioErrOk else gpio_set_result p kGpioErrSys) (\<lambda>_. ?Q) t"
      by (cases b) simp_all
  qed
  then have "wp (gpio_worker E L kGpioOpWrite p) (\<lambda>_. ?Q) s"
    unfolding gpio_worker.simps WriteGpioWorker_def by (rule worker_template_wp[OF s(1,4,5)])
  then show ?thesis
    unfolding gpio_thread_run[OF w]
  proof (rule wp_mono)
    fix x and t :: "(call, 'z) gpt_scheme"
    assume q: "?Q t"
    then have "moved s (t\<lparr>gpio_work := (gpio_work t)(p \<mapsto> (kGpioOpWrite, True))\<rparr>)" by simp
    then show "wp (upd (\<lambda>t. t\<lparr>gpio_work := (gpio_work t)(p \<mapsto> (kGpioOpWrite, True))\<rparr>)) (\<lambda>_ t. moved s t \<and> reqs t = reqs s \<and>
      gpio_wraps t = gpio_wraps s \<and> gpio_work t = (gpio_work s)(p \<mapsto> (kGpioOpWrite, True)) \<and>
      (\<exists>b es. trace t = trace s @ es \<and>
        device_write (env_loop (env s)) (gpio_pin_path (gp_pin d) @ ''value'') (if gp_value d then ''1'' else ''0'') b es \<and>
        gpio_data t = (gpio_data s)(p \<mapsto> d\<lparr>gp_result := (if b then kGpioErrOk else kGpioErrSys)\<rparr>))) t"
      using q unfolding wp_upd gpio_paths(4) by (elim conjE, intro conjI) simp_all
  qed
qed


lemma template_fails:
  assumes "gpio_object E s g j" "j \<noteq> i"
  shows "fails (Assertion ''GPIO_WORKER_INIT_TEMPLATE'') (GPIO_WORKER_INIT_TEMPLATE E i p body) s"
  unfolding GPIO_WORKER_INIT_TEMPLATE_def
  by (rule fails_bnd, simp only: wp_gpio_instance(2)[OF assms(1)], rule fails_sq_first, rule fails_ASSERT, rule assms(2))

lemma template_body_fails:
  assumes "gpio_object E s g i" "reqs s p = Some cb" "gpio_data s p = Some d" "fails e (body p d) s"
  shows "fails e (GPIO_WORKER_INIT_TEMPLATE E i p body) s"
  unfolding GPIO_WORKER_INIT_TEMPLATE_def
  by (rule fails_bnd, simp only: wp_gpio_instance(2)[OF assms(1)] bnd_ASSERT,
      rule fails_bnd, simp add: iotjs_gpio_reqwrap_from_request_def wp_reqwrap_from_request assms(2),
      rule fails_bnd, simp add: iotjs_gpio_reqwrap_data_def wp_get_gpio assms(3,4))

lemma fails_thread:
  assumes "gpio_work s p = Some (w, False)" "fails e (gpio_worker E L w p) s"
  shows "gpio_thread E L p s = Inl e"
  unfolding fails_def[symmetric] gpio_thread_def
  by (rule fails_bnd, simp add: wp_gets assms(1) del: gpio_worker.simps, rule fails_sq_first, rule assms(2))

lemma release_worker_wp:
  fixes s :: "(call, 'z) gpt_scheme"
  assumes s: "gpio_object E s g True" "env_initialized s" "wraps_wf s" "reqs s p = Some cb" "gpio_data s p = Some d"
    and w: "gpio_work s p = Some (kGpioOpRelease, False)" and L: "\<And>tr. ans_names (lib_answer L tr) = []"
  shows "wp (gpio_thread E L p) (\<lambda>_ t. net_inv E s \<longrightarrow> net_inv E t \<and> gpio_object E t g True \<and> reqs t = reqs s \<and>
    gpio_work t = (gpio_work s)(p \<mapsto> (kGpioOpRelease, True)) \<and>
    gpio_data t = (gpio_data s)(p \<mapsto> d\<lparr>gp_result := kGpioErrOk\<rparr>)) s"
proof -
  let ?r = "\<lambda>tr. s\<lparr>gpio_data := (gpio_data s)(p \<mapsto> d\<lparr>gp_result := kGpioErrOk\<rparr>), trace := trace s @ [ESys (UvFs (env_loop (env s)) None (FsScandir GPIO_INTERFACE)) tr]\<rparr>"
  have keep: "net_inv E (s\<lparr>gpio_data := a, trace := trace s @ [ESys c r], gpio_work := b\<rparr>) = net_inv E s"
    "gpio_object E (s\<lparr>gpio_data := a, trace := trace s @ [ESys c r], gpio_work := b\<rparr>) g True" for a b c r
    using s(1) by (simp_all add: net_inv_def wraps_wf_def gpio_object_def native_of_append)
  have "wp (gpio_worker E L kGpioOpRelease p) (\<lambda>_ t. wp (upd (\<lambda>t. t\<lparr>gpio_work := (gpio_work t)(p \<mapsto> (kGpioOpRelease, True))\<rparr>))
     (\<lambda>_ t. net_inv E s \<longrightarrow> net_inv E t \<and> gpio_object E t g True \<and> reqs t = reqs s \<and>
    gpio_work t = (gpio_work s)(p \<mapsto> (kGpioOpRelease, True)) \<and>
    gpio_data t = (gpio_data s)(p \<mapsto> d\<lparr>gp_result := kGpioErrOk\<rparr>)) t) s"
    unfolding gpio_worker.simps ReleaseGpioWorker_def
    by (rule worker_template_wp[OF s(1,4,5)])
      (simp add: gpio_set_result_def wp_sq wp_get_gpio wp_bnd s(5,2) wp_env_get iotjs_environment_loop_def wp_gets wp_sys L wp_ret wp_upd keep)
  then show ?thesis unfolding gpio_thread_run[OF w] .
qed

text \<open>Two releases in a row. Both calls are accepted, because the flag of the module changes only when
  the first is complete; \<^verbatim>\<open>src/js/gpio.js\<close> does not prevent it either, since its own flag changes at the
  same time. When a thread gets to the second request after the first has completed, the worker stops the
  program at its assertion that the module is initialised.\<close>

theorem gpio_second_release_aborts:
  fixes s :: "(call, 'z) gpt_scheme"
  assumes "gpio_inv E L s g True" "is_function cb" "is_function cb'" "\<And>tr. ans_names (lib_answer L tr) = []"
  shows "\<exists>u p u' q v w. JHANDLER_FUNCTION (Release E) t [cb] s = Inr ((False, JNull), u) \<and> reqs u = (reqs s)(p \<mapsto> cb) \<and>
    JHANDLER_FUNCTION (Release E) t [cb'] u = Inr ((False, JNull), u') \<and> reqs u' = (reqs u)(q \<mapsto> cb') \<and>
    gpio_thread E L p u' = Inr ((), v) \<and> gpio_done E p 0 v = Inr ((), w) \<and>
    gpio_thread E L q w = Inl (Assertion ''GPIO_WORKER_INIT_TEMPLATE'')"
proof -
  let ?d = "gpio_fresh kGpioOpRelease"
  have s: "net_inv E s" "gpio_object E s g True" "env_initialized s" using assms(1) by (simp_all add: gpio_inv_def)
  obtain u p where u: "JHANDLER_FUNCTION (Release E) t [cb] s = Inr ((False, JNull), u)"
    "reqs s p = None" "reqs u = (reqs s)(p \<mapsto> cb)" "gpio_data u = (gpio_data s)(p \<mapsto> ?d)"
    "gpio_work u = (gpio_work s)(p \<mapsto> (kGpioOpRelease, False))"
    "gpio_object E u g True" "net_inv E u" "env_initialized u"
    using gpio_call[OF s, where op = kGpioOpRelease, unfolded gpio_body.simps, OF Release_wp[OF gpio_inv_entered(1)[OF s] assms(2)]] by blast
  obtain u' q where u': "JHANDLER_FUNCTION (Release E) t [cb'] u = Inr ((False, JNull), u')"
    "reqs u q = None" "reqs u' = (reqs u)(q \<mapsto> cb')" "gpio_data u' = (gpio_data u)(q \<mapsto> ?d)"
    "gpio_work u' = (gpio_work u)(q \<mapsto> (kGpioOpRelease, False))"
    "gpio_object E u' g True" "net_inv E u'" "env_initialized u'"
    using gpio_call[OF u(7,6,8), where op = kGpioOpRelease, unfolded gpio_body.simps,
        OF Release_wp[OF gpio_inv_entered(1)[OF u(7,6,8)] assms(3)]] by blast
  have pq: "p \<noteq> q" using u(3) u'(2) by auto
  have p: "wraps_wf u'" "reqs u' p = Some cb" "gpio_data u' p = Some ?d" "gpio_work u' p = Some (kGpioOpRelease, False)"
    using u u' pq by (simp_all add: net_inv_def)
  obtain v where v: "gpio_thread E L p u' = Inr ((), v)" "net_inv E v" "gpio_object E v g True" "reqs v = reqs u'"
    "gpio_work v = (gpio_work u')(p \<mapsto> (kGpioOpRelease, True))" "gpio_data v = (gpio_data u')(p \<mapsto> ?d\<lparr>gp_result := kGpioErrOk\<rparr>)"
    using release_worker_wp[OF u'(6,8) p assms(4)] u'(7) unfolding wp_runs by auto
  let ?v = "v\<lparr>gpio_work := (gpio_work v)(p := None)\<rparr>"
  have vi: "net_inv E ?v" "gpio_object E ?v g True" "reqs ?v p = Some cb" "gpio_data ?v p = Some (?d\<lparr>gp_result := kGpioErrOk\<rparr>)"
    using v(2-4,6) p(2) by (simp_all add: net_inv_def gpio_object_def wraps_wf_def)
  obtain w where w: "AfterGPIOWork E p 0 ?v = Inr ((), w)" "moved ?v w" "gpio_work w = gpio_work ?v"
    "gpio_wraps w = gpio_wraps (gpio_set_flag g (jmodule ?v MODULE_GPIO) (gpio_flag (?d\<lparr>gp_result := kGpioErrOk\<rparr>) 0 True) ?v)"
    using AfterGPIOWork_wp[OF vi, of 0] unfolding wp_runs by auto
  have fin: "gpio_done E p 0 v = Inr ((), w)"
    using w(1) v(5) by (simp add: gpio_done_def bnd_def gets_def ret_def sq_def upd_def)
  have "gpio_object E w g False"
    using vi(2) w(2,4) by (simp add: gpio_object_def moved_def keeps_def gpio_flag_def gpio_code_def)
  then have "fails (Assertion ''GPIO_WORKER_INIT_TEMPLATE'') (gpio_worker E L kGpioOpRelease q) w"
    unfolding gpio_worker.simps ReleaseGpioWorker_def by (rule template_fails) simp
  moreover have "gpio_work w q = Some (kGpioOpRelease, False)" using w(3) v(5) u'(5) pq by simp
  ultimately have "gpio_thread E L q w = Inl (Assertion ''GPIO_WORKER_INIT_TEMPLATE'')" by (rule fails_thread[rotated])
  with u(1,3) u'(1,3) v(1) fin show ?thesis by blast
qed

text \<open>C34. Opening a pin for input or output with the mode that \<^verbatim>\<open>src/js/gpio.js\<close> takes by default, none. The
  handler accepts it. When the pin is exported and its direction can be written, the worker stops the
  program at the assertion of \<^verbatim>\<open>SetPinMode\<close>, which admits every mode but none and open drain.\<close>

theorem gpio_open_default_mode_aborts:
  fixes s :: "(call, 'z) gpt_scheme"
  assumes "gpio_inv E L s g True" "is_function cb" "in_int32 pin" "dir = 1 \<or> dir = 2"
    and "\<And>tr loop. e_sys E tr (UvFs loop None (FsStat (gpio_pin_path (c_uint32 pin)))) = 0" "\<And>tr c. 0 \<le> e_sys E tr c"
  shows "\<exists>u p. JHANDLER_FUNCTION (Open_gpio E) t [JNumber (num pin), JNumber (num dir), JNumber (num 0), cb] s =
      Inr ((False, JNull), u) \<and> reqs u = (reqs s)(p \<mapsto> cb) \<and>
    gpio_thread E L p u = Inl (Assertion ''SetPinMode'')"
proof -
  let ?args = "[JNumber (num pin), JNumber (num dir), JNumber (num 0), cb]"
  obtain D where dir: "gpio_direction_of dir = Some D" "0 \<le> dir" "dir < 2 ^ 32" "D = kGpioDirectionIn \<or> D = kGpioDirectionOut"
    using assms(4) by (auto simp: gpio_direction_of_def)
  let ?d = "(gpio_fresh kGpioOpOpen)\<lparr>gp_pin := c_uint32 pin, gp_dir := D, gp_mode := kGpioModeNone\<rparr>"
  have s: "net_inv E s" "gpio_object E s g True" "env_initialized s" using assms(1) by (simp_all add: gpio_inv_def)
  have mode: "gpio_mode_of 0 = Some kGpioModeNone" by (simp add: gpio_mode_of_def)
  have "wp (Open_gpio E) (\<lambda>_ z. gpio_queued kGpioOpOpen ?d cb (handler_entry t ?args s) z) (handler_entry t ?args s)"
    using Open_gpio_wp[OF gpio_inv_entered(1)[OF s] assms(2,3) dir(2,3), of 0] unfolding dir(1) mode by simp
  from gpio_call[OF s, where op = kGpioOpOpen, unfolded gpio_body.simps, OF this]
  obtain u p where u: "JHANDLER_FUNCTION (Open_gpio E) t ?args s = Inr ((False, JNull), u)"
    "reqs s p = None" "reqs u = (reqs s)(p \<mapsto> cb)" "gpio_data u = (gpio_data s)(p \<mapsto> ?d)"
    "gpio_work u = (gpio_work s)(p \<mapsto> (kGpioOpOpen, False))"
    "gpio_object E u g True" "net_inv E u" "env_initialized u"
    by blast
  have rd: "reqs u p = Some cb" "gpio_data u p = Some ?d" using u by simp_all
  let ?e = "Assertion ''SetPinMode''"
  have mode_fails: "fails ?e (SetPinMode n kGpioModeNone) x" for n and x :: "(call, 'z) gpt_scheme"
    unfolding SetPinMode_def by (rule fails_sq_first) (rule fails_ASSERT, simp)
  have direction: "wp (SetPinDirection E n D) (\<lambda>b x. b) x" if "env_initialized x" for n and x :: "(call, 'z) gpt_scheme"
  proof -
    have "SetPinDirection E n D = (DeviceOpenWriteClose E (gpio_path (gpio_pin_path n @ ''direction''))
        (if D = kGpioDirectionIn then ''in'' else ''out'') :: ((call, 'z) gpt_scheme, bool) prog)"
      unfolding SetPinDirection_def by (rule bnd_ASSERT) (rule dir(4))
    then show ?thesis
      by (simp add: DeviceOpenWriteClose_def uv_fs_sync_def wp_env_get[OF that] iotjs_environment_loop_def wp_simps not_less assms(6) not_le)
  qed
  have exported: "wp (DeviceExport E L path n (gpio_path (gpio_pin_path (c_uint32 pin))) files) (\<lambda>b x. b \<and> env_initialized x) u" for path n files
    by (simp add: DeviceExport_def DeviceCheckPath_def gpio_paths(2) uv_fs_sync_def wp_bnd wp_env_get[OF u(8)]
        iotjs_environment_loop_def wp_gets wp_sys wp_ret assms(5) u(8))
  have set: "fails ?e (bnd (SetPinDirection E n D) (\<lambda>b. if \<not> b then m else bnd (SetPinMode n kGpioModeNone) f)) x"
    if "env_initialized x" for n m f and x :: "(call, 'z) gpt_scheme"
    by (rule fails_bnd, rule wp_mono[OF direction[OF that]]) (simp add: fails_first mode_fails)
  have nd: "(D = kGpioDirectionNone) = False" using dir(4) by auto
  have "fails ?e (gpio_worker E L kGpioOpOpen p) u"
    unfolding gpio_worker.simps OpenGpioWorker_def
    by (rule template_body_fails[OF u(6) rd])
      (simp only: nd if_False iotjs_gpio_reqdata_t.select_convs iotjs_gpio_reqdata_t.update_convs, rule fails_bnd,
        rule wp_mono[OF exported], simp add: set)
  then have "gpio_thread E L p u = Inl ?e" by (rule fails_thread[rotated]) (simp add: u(5))
  with u(1,3) show ?thesis by blast
qed

section \<open>A concrete session\<close>

text \<open>The system grants every call, the files of the values hold \<open>1\<close>, no pin is exported.\<close>

definition gpio_engine :: "call engine" where
  "gpio_engine = wraps_engine\<lparr>e_sys := \<lambda>_ c. case c of UvFsRead _ _ _ _ \<Rightarrow> 2 | _ \<Rightarrow> 0\<rparr>"

definition gpio_lib :: fs_lib where
  "gpio_lib = \<lparr>lib_strerror = \<lambda>_. ''error'', lib_answer = \<lambda>_. \<lparr>ans_stat = \<lparr>st_dev = 0, st_mode = 0, st_nlink = 0,
     st_uid = 0, st_gid = 0, st_rdev = 0, st_blksize = 0, st_ino = 0, st_size = 0, st_blocks = 0\<rparr>,
     ans_names = [], ans_data = [CHR ''1'', CHR 0x0A]\<rparr>\<rparr>"

definition gpio_state :: "call gpt" where
  "gpio_state = \<lparr>trace = [ESetNative (JObject 7) 1], blocks = 1, h_this = JNull, h_argv = [], h_ret = (False, JNull),
     h_finished = False, jmodule = \<lambda>k. if k = MODULE_GPIO then JObject 7 else JObject 0, env = fresh_environment,
     env_initialized = True, handles = Map.empty, reqs = Map.empty, next_ptr = 2, gpio_data = Map.empty,
     gpio_wraps = [1 \<mapsto> \<lparr>gpio_jobject = JObject 7, gpio_is_initialized = True\<rparr>], gpio_work = Map.empty\<rparr>"

lemma gpio_state_inv: "gpio_inv gpio_engine gpio_lib gpio_state 1 True"
proof -
  have "native_law gpio_engine" "process_ok gpio_engine (JObject 0)"
    by (auto simp: native_law_def gpio_engine_def wraps_engine_def process_ok_def sample_engine_def)
  moreover have "scan_int [CHR ''1'', CHR 0x0A] = (Some 1, [CHR 0x0A])"
    by (simp add: scan_int_def is_space_def is_digit_def unsigned_value_def digit_value_def)
  then have "gpio_files gpio_engine gpio_lib"
    by (simp add: gpio_files_def gpio_engine_def gpio_lib_def number_text_def in_int32_def numeral_2_eq_2)
  ultimately show ?thesis
    by (simp add: gpio_inv_def net_inv_def gpio_object_def gpio_state_def gpio_work_ok_def wraps_wf_def native_of_def)
qed



theorem gpio_second_release_aborts_witness:
  "\<exists>q (w :: call gpt). gpio_thread gpio_engine gpio_lib q w = Inl (Assertion ''GPIO_WORKER_INIT_TEMPLATE'')"
proof -
  have "ans_names (lib_answer gpio_lib tr) = []" for tr by (simp add: gpio_lib_def)
  from gpio_second_release_aborts[OF gpio_state_inv _ _ this, of "JFunction 9" "JFunction 8" "JObject 7"] show ?thesis
    by auto
qed

theorem gpio_open_default_mode_aborts_witness:
  "\<exists>u p. JHANDLER_FUNCTION (Open_gpio gpio_engine) (JObject 7) [JNumber (num 17), JNumber (num 2), JNumber (num 0), JFunction 9]
      gpio_state = Inr ((False, JNull), u) \<and> gpio_thread gpio_engine gpio_lib p u = Inl (Assertion ''SetPinMode'')"
proof -
  have "0 \<le> e_sys gpio_engine tr c" "e_sys gpio_engine tr (UvFs loop None (FsStat path)) = 0" for tr c loop path
    by (auto simp: gpio_engine_def split: call.split)
  then show ?thesis
    using gpio_open_default_mode_aborts[OF gpio_state_inv, of "JFunction 9" 17 2 "JObject 7"] by (auto simp: in_int32_def)
qed

end
