(* ===== verification/Iot_Work.thy ===== *)
theory Iot_Work
  imports Iot_Fs_Steps
begin

text \<open>
  What the modules that work in the thread pool of libuv share (\<open>Iot_Pwm\<close>, \<open>Iot_I2c\<close>): requests with
  data, their submission by \<^verbatim>\<open>uv_queue_work\<close>, the thread and the completion. The locale \<open>work_module\<close> is the
  contract of such a module; every run of its events is then safe.
\<close>

section \<open>State\<close>

text \<open>
  \<open>work_data\<close> is the data of a request wrapper, \<open>work_objs\<close> the field \<^verbatim>\<open>jobject\<close> of the wrapper of the
  module's object, \<open>work_queue\<close> what libuv knows: the worker of a request, and whether a thread has run it.
\<close>

record ('c, 'd, 'o) wkt = "'c wrt" +
  work_data :: "nat \<Rightarrow> 'd option"
  work_objs :: "nat \<Rightarrow> jval option"
  work_queue :: "nat \<Rightarrow> ('o \<times> bool) option"

definition get_work_data :: "nat \<Rightarrow> (('c, 'd, 'o, 'z) wkt_scheme, 'd) prog" where
  "get_work_data p =
     bnd (gets (\<lambda>s. work_data s p)) (\<lambda>d.
     case d of None \<Rightarrow> fail (UseAfterFree ''req_data'') | Some d \<Rightarrow> ret d)"

definition upd_work_data :: "nat \<Rightarrow> ('d \<Rightarrow> 'd) \<Rightarrow> (('c, 'd, 'o, 'z) wkt_scheme, unit) prog" where
  "upd_work_data p f = bnd (get_work_data p) (\<lambda>d. upd (\<lambda>s. s\<lparr>work_data := (work_data s)(p \<mapsto> f d)\<rparr>))"

definition get_work_obj :: "nat \<Rightarrow> (('c, 'd, 'o, 'z) wkt_scheme, jval) prog" where
  "get_work_obj p =
     bnd (gets (\<lambda>s. work_objs s p)) (\<lambda>g.
     case g of None \<Rightarrow> fail (if p = 0 then NullPointer ''wrap'' else UseAfterFree ''wrap'') | Some j \<Rightarrow> ret j)"

section \<open>Operations\<close>

text \<open>The wrapper of a request, with the data that its creation sets; the rest of it is cleared.\<close>

definition work_reqwrap_create :: "jval \<Rightarrow> 'd \<Rightarrow> (('c, 'd, 'o, 'z) wkt_scheme, nat) prog" where
  "work_reqwrap_create jcallback d =
     bnd IOTJS_ALLOC (\<lambda>p.
     sq (iotjs_reqwrap_initialize p jcallback)
    (sq (upd (\<lambda>s. s\<lparr>work_data := (work_data s)(p \<mapsto> d)\<rparr>))
    (ret p)))"

definition work_reqwrap_destroy :: "nat \<Rightarrow> (('c, 'd, 'o, 'z) wkt_scheme, unit) prog" where
  "work_reqwrap_destroy p =
     sq (iotjs_reqwrap_destroy p)
    (sq (upd (\<lambda>s. s\<lparr>work_data := (work_data s)(p := None)\<rparr>))
    IOTJS_RELEASE)"

definition work_object_create :: "jval \<Rightarrow> (('c, 'd, 'o, 'z) wkt_scheme, nat) prog" where
  "work_object_create j =
     bnd IOTJS_ALLOC (\<lambda>p.
     sq (iotjs_jobjectwrap_initialize p j)
    (sq (upd (\<lambda>s. s\<lparr>work_objs := (work_objs s)(p \<mapsto> j)\<rparr>))
    (ret p)))"

definition work_object_destroy :: "nat \<Rightarrow> (('c, 'd, 'o, 'z) wkt_scheme, unit) prog" where
  "work_object_destroy p =
     bnd (get_work_obj p) (\<lambda>_.
     sq (upd (\<lambda>s. s\<lparr>work_objs := (work_objs s)(p := None)\<rparr>))
    IOTJS_RELEASE)"

text \<open>\<^verbatim>\<open>iotjs_reqwrap_from_request\<close> and \<^verbatim>\<open>iotjs_jobjectwrap_from_jobject\<close>: the wrapper holds the pointer.\<close>

definition work_from_request :: "nat \<Rightarrow> (('c, 'z) wrt_scheme, nat) prog" where
  "work_from_request req = bnd (iotjs_reqwrap_jcallback req) (\<lambda>_. ret req)"

definition work_from_jobject :: "'c engine \<Rightarrow> jval \<Rightarrow> (('c, 'd, 'o, 'z) wkt_scheme, nat) prog" where
  "work_from_jobject E j =
     bnd (iotjs_jval_get_object_native_handle E j) (\<lambda>wrap.
     bnd (get_work_obj wrap) (\<lambda>obj.
     bnd (iotjs_jobjectwrap_jobject E wrap obj) (\<lambda>j.
     sq (IOTJS_ASSERT ''iotjs_jobjectwrap_from_jobject'' (is_object j))
    (ret wrap))))"

definition work_async :: "call engine \<Rightarrow> ('o \<Rightarrow> string) \<Rightarrow> 'o \<Rightarrow> nat \<Rightarrow> ((call, 'd, 'o, 'z) wkt_scheme, unit) prog" where
  "work_async E name worker req =
     bnd iotjs_environment_get (\<lambda>_.
     bnd iotjs_environment_loop (\<lambda>loop.
     bnd (sys E (UvQueueWork loop req (name worker))) (\<lambda>_.
     upd (\<lambda>s. s\<lparr>work_queue := (work_queue s)(req \<mapsto> (worker, False))\<rparr>))))"

definition work_thread :: "('o \<Rightarrow> nat \<Rightarrow> (('c, 'd, 'o, 'z) wkt_scheme, unit) prog) \<Rightarrow> nat \<Rightarrow> (('c, 'd, 'o, 'z) wkt_scheme, unit) prog" where
  "work_thread worker p =
     bnd (gets (\<lambda>s. work_queue s p)) (\<lambda>w.
     case w of
       Some (op, False) \<Rightarrow> sq (worker op p) (upd (\<lambda>s. s\<lparr>work_queue := (work_queue s)(p \<mapsto> (op, True))\<rparr>))
     | _ \<Rightarrow> fail (Undefined ''uv_work_t''))"

definition work_done :: "(nat \<Rightarrow> int \<Rightarrow> (('c, 'd, 'o, 'z) wkt_scheme, unit) prog) \<Rightarrow> nat \<Rightarrow> int \<Rightarrow> (('c, 'd, 'o, 'z) wkt_scheme, unit) prog" where
  "work_done after p status =
     bnd (gets (\<lambda>s. work_queue s p)) (\<lambda>w.
     case w of
       Some (op, True) \<Rightarrow> sq (upd (\<lambda>s. s\<lparr>work_queue := (work_queue s)(p := None)\<rparr>)) (after p status)
     | _ \<Rightarrow> fail (Undefined ''uv_work_t''))"

section \<open>Access\<close>

definition work_object :: "ModuleKind \<Rightarrow> 'c engine \<Rightarrow> ('c, 'd, 'o, 'z) wkt_scheme \<Rightarrow> nat \<Rightarrow> bool" where
  "work_object k E s g \<longleftrightarrow> native_law E \<and> is_object (jmodule s k) \<and>
     native_of (trace s) (jmodule s k) = g \<and> work_objs s g = Some (jmodule s k)"

lemma wp_work_data [wp_simps]:
  "wp (get_work_data p) Q s \<longleftrightarrow> (\<exists>d. work_data s p = Some d \<and> Q d s)"
  "wp (get_work_obj p) Q' s \<longleftrightarrow> (\<exists>j. work_objs s p = Some j \<and> Q' j s)"
  "wp (upd_work_data p f) Q'' s \<longleftrightarrow>
     (\<exists>d. work_data s p = Some d \<and> Q'' () (s\<lparr>work_data := (work_data s)(p \<mapsto> f d)\<rparr>))"
  unfolding get_work_data_def get_work_obj_def upd_work_data_def
  by (auto simp: wp_simps split: option.splits)

lemma wp_work_from_jobject:
  assumes "work_object k E s g"
  shows "wp (work_from_jobject E (jmodule s k)) Q s = Q g s"
proof -
  have "is_object (jmodule s k)" "e_native E (trace s) (jmodule s k) = g" "work_objs s g = Some (jmodule s k)"
    using assms by (auto simp: work_object_def native_law_def)
  then show ?thesis by (simp add: work_from_jobject_def wp_simps)
qed

lemma wp_work_from_request [wp_simps]:
  "wp (work_from_request p) Q s \<longleftrightarrow> (\<exists>cb. reqs s p = Some cb \<and> Q p s)"
  unfolding work_from_request_def
  by (auto simp: wp_simps iotjs_reqwrap_jcallback_def split: option.splits)

lemma work_object_module: "work_object k E s g \<Longrightarrow> jmodule s k \<noteq> JUndefined \<and> is_object (jmodule s k)"
  by (auto simp: work_object_def)

text \<open>
  The state when \<open>k\<close> of its heap blocks are set aside: those that the data of requests own, and those that
  an event has lost.
\<close>

definition lend :: "int \<Rightarrow> ('c, 'z) rt_scheme \<Rightarrow> ('c, 'z) rt_scheme" where
  "lend k s = s\<lparr>blocks := blocks s - k\<rparr>"

lemma lend_0 [simp]: "lend 0 s = s"
  by (simp add: lend_def)

lemma lend_fields [simp]:
  "trace (lend k s) = trace s" "blocks (lend k s) = blocks s - k" "reqs (lend k u) = reqs u" "handles (lend k u) = handles u"
  "env_initialized (lend k v) = env_initialized v" "jmodule (lend k w) = jmodule w" "h_ret (lend k x) = h_ret x"
  "heap_wraps (lend k u) = heap_wraps u" "kept_wraps (lend k u) = kept_wraps u" "wraps_wf (lend k u) = wraps_wf u"
  by (simp_all add: lend_def heap_wraps_def kept_wraps_def wraps_wf_def fun_eq_iff)

lemma lend_frame [simp]:
  "env (lend k u) = env u" "h_this (lend k v) = h_this v" "h_argv (lend k v) = h_argv v" "h_finished (lend k v) = h_finished v"
  "spare (lend k w) = spare w"
  by (simp_all add: lend_def spare_def frame_refs_def kept_wraps_def fun_eq_iff)

lemma keeps_lend:
  "keeps s (lend k t) \<longleftrightarrow> spare t = spare s \<and> blocks t - k - heap_wraps t = blocks s - heap_wraps s \<and>
     jmodule t = jmodule s \<and> h_this t = h_this s \<and> h_argv t = h_argv s"
  by (simp add: keeps_def)

lemma lend_work [simp]:
  "work_data (lend k s) = work_data s" "work_objs (lend k s) = work_objs s" "work_queue (lend k s) = work_queue s"
  "work_object m E (lend k s) g = work_object m E s g" "net_inv E (lend k s) = net_inv E s"
  by (simp_all add: lend_def work_object_def net_inv_def wraps_wf_def)

section \<open>Steps\<close>

text \<open>A step that leaves the object of the module and the frame alone.\<close>

definition work_moved :: "('c, 'd, 'o, 'z) wkt_scheme \<Rightarrow> ('c, 'd, 'o, 'z) wkt_scheme \<Rightarrow> bool" where
  "work_moved s t \<longleftrightarrow> moved s t \<and> h_finished t = h_finished s \<and> h_ret t = h_ret s \<and> work_objs t = work_objs s \<and>
     (\<exists>tr. trace t = trace s @ tr)"

lemma work_moved_trans: "work_moved s t \<Longrightarrow> work_moved t u \<Longrightarrow> work_moved s u"
  unfolding work_moved_def by (auto intro: moved_trans)

lemma work_object_moved: "work_object k E s g \<Longrightarrow> work_moved s t \<Longrightarrow> work_object k E t g"
  by (simp add: work_object_def work_moved_def moved_def keeps_def)

lemma work_object_same:
  "native_of (trace t) = native_of (trace s) \<Longrightarrow> jmodule t = jmodule s \<Longrightarrow> work_objs t = work_objs s \<Longrightarrow>
   work_object k E t g = work_object k E s g"
  by (simp add: work_object_def)

lemma wkt_more:
  fixes s t :: "('c, 'd, 'o, 'z) wkt_scheme"
  assumes "wrt.more t = wrt.more s"
  shows "work_data t = work_data s" "work_objs t = work_objs s" "work_queue t = work_queue s"
  using assms by (cases s; cases t; simp)+

lemma moved_work_more [simp]:
  "moved s (t\<lparr>work_data := a\<rparr>) = moved s t" "moved s (t\<lparr>work_queue := b\<rparr>) = moved s t"
  by (simp_all add: moved_def wraps_wf_def keeps_def spare_def frame_refs_def kept_wraps_def heap_wraps_def fun_eq_iff)

lemma moved_lend: "moved (lend k s) (lend k t) = moved s t"
  by (simp add: moved_def keeps_def)

lemma moved_lend_trans: "moved s (lend k t) \<Longrightarrow> moved t u \<Longrightarrow> moved s (lend k u)"
  using moved_trans[of s "lend k t" "lend k u"] by (simp add: moved_lend)

lemma work_moved_lend_trans: "work_moved s (lend k t) \<Longrightarrow> work_moved t u \<Longrightarrow> work_moved s (lend k u)"
  unfolding work_moved_def using moved_lend_trans[of s k t u] by (auto simp: lend_def)

lemma quiet_work:
  fixes s t :: "('c, 'd, 'o, 'z) wkt_scheme"
  assumes "quiet s t" "wraps_wf s"
  shows "work_moved s t" "reqs t = reqs s" "work_data t = work_data s" "work_queue t = work_queue s"
proof -
  show "work_moved s t"
    using quiet_moved[OF assms] assms(1) by (auto simp: work_moved_def quiet_def)
  show "reqs t = reqs s" "work_data t = work_data s" "work_queue t = work_queue s"
    using assms(1) by (auto simp: quiet_def)
qed

lemma work_reqwrap_create_wp:
  fixes s :: "('c, 'd, 'o, 'z) wkt_scheme"
  assumes "wraps_wf s" "is_function cb"
  shows "wp (work_reqwrap_create cb d) (\<lambda>p t. work_moved s t \<and> reqs s p = None \<and> reqs t = (reqs s)(p \<mapsto> cb) \<and>
    work_data t = (work_data s)(p \<mapsto> d) \<and> work_queue t = work_queue s) s"
proof -
  let ?u = "\<lambda>p t. t\<lparr>work_data := (work_data t)(p \<mapsto> d)\<rparr>"
  have "(work_reqwrap_create cb d :: (('c, 'd, 'o, 'z) wkt_scheme, nat) prog) = bnd (reqwrap_new cb) (\<lambda>p. sq (upd (?u p)) (ret p))"
    unfolding work_reqwrap_create_def reqwrap_new_def by (simp add: bnd_assoc bnd_sq bnd_ret_left sq_def)
  then have c: "wp (work_reqwrap_create cb d) Q s = wp (reqwrap_new cb) (\<lambda>p t. Q p (?u p t)) s" for Q
    by (simp add: wp_bnd wp_sq) (rule arg_cong[where f = "\<lambda>Q. wp (reqwrap_new cb) Q s"], simp add: fun_eq_iff wp_upd wp_ret)
  show ?thesis
    unfolding c
  proof (rule wp_mono[OF rw.create_law[OF assms]], elim conjE)
    fix p and t :: "('c, 'd, 'o, 'z) wkt_scheme"
    assume t: "wraps_wf t" "steps s t" "next_ptr s = p" "p \<noteq> 0" "reqs s p = None" "reqs t = (reqs s)(p \<mapsto> cb)"
      "handles t = handles s"
    have "moved s t" by (rule steps_moved) fact+
    moreover have "work_data t = work_data s" "work_objs t = work_objs s" "work_queue t = work_queue s"
      using t(2) wkt_more[of t s] by (simp_all add: steps_def)
    ultimately show "work_moved s (?u p t) \<and> reqs s p = None \<and> reqs (?u p t) = (reqs s)(p \<mapsto> cb) \<and>
      work_data (?u p t) = (work_data s)(p \<mapsto> d) \<and> work_queue (?u p t) = work_queue s"
      using t(2,5,6) by (auto simp: work_moved_def steps_def)
  qed
qed

text \<open>The end of a handler: the request is handed to libuv with its worker and the handler returns null.\<close>

definition work_queued ::
  "('o \<Rightarrow> string) \<Rightarrow> 'o \<Rightarrow> 'd \<Rightarrow> jval \<Rightarrow> (call, 'd, 'o, 'z) wkt_scheme \<Rightarrow> (call, 'd, 'o, 'z) wkt_scheme \<Rightarrow> bool" where
  "work_queued name op d cb s t \<longleftrightarrow> moved s t \<and> work_objs t = work_objs s \<and> h_ret t = (False, JNull) \<and>
     (\<exists>p. reqs s p = None \<and> reqs t = (reqs s)(p \<mapsto> cb) \<and> work_data t = (work_data s)(p \<mapsto> d) \<and>
        work_queue t = (work_queue s)(p \<mapsto> (op, False)) \<and>
        (\<exists>pre r post. trace t = trace s @ pre @ ESys (UvQueueWork (env_loop (env s)) p (name op)) r # post))"

definition work_ready :: "(call, 'd, 'o, 'z) wkt_scheme \<Rightarrow> bool" where
  "work_ready s \<longleftrightarrow> wraps_wf s \<and> \<not> h_finished s \<and> env_initialized s"

lemma work_ready_moved: "work_ready s \<Longrightarrow> work_moved s t \<Longrightarrow> work_ready t"
  by (auto simp: work_ready_def work_moved_def moved_def)

lemma work_ready_quiet: "work_ready s \<Longrightarrow> quiet s t \<Longrightarrow> work_ready t"
  by (rule work_ready_moved, assumption, rule quiet_work(1)) (simp_all add: work_ready_def)

lemma work_async_lend:
  fixes s t :: "(call, 'd, 'o, 'z) wkt_scheme"
  assumes s: "work_ready s" and t: "work_moved s (lend k t)" "reqs s p = None" "reqs t = (reqs s)(p \<mapsto> cb)"
    "work_data t = (work_data s)(p \<mapsto> d)" "work_queue t = work_queue s"
  shows "wp (sq (work_async E name op p) iotjs_jhandler_return_null) (\<lambda>_ u. work_queued name op d cb s (lend k u)) t"
proof -
  let ?c = "UvQueueWork (env_loop (env s)) p (name op)"
  let ?u = "t\<lparr>trace := trace t @ [ESys ?c (e_sys E (trace t) ?c)]\<rparr>"
  let ?v = "?u\<lparr>work_queue := (work_queue s)(p \<mapsto> (op, False))\<rparr>"
  have r: "work_ready t" using work_ready_moved[OF s t(1)] by (simp add: work_ready_def)
  have env: "env t = env s" using t(1) by (simp add: work_moved_def moved_def)
  have "work_moved t ?u" using r by (intro quiet_work(1) sys_quiet) (simp add: work_ready_def)
  then have u: "work_moved s (lend k ?u)" by (rule work_moved_lend_trans[OF t(1)])
  have tv: "moved t ?v" using \<open>work_moved t ?u\<close> by (simp add: work_moved_def)
  have "\<not> h_finished ?v" "wraps_wf ?v" using r tv by (simp_all add: work_ready_def moved_def)
  from return_null_wp[OF this]
  have "wp iotjs_jhandler_return_null (\<lambda>_ u. work_queued name op d cb s (lend k u)) ?v"
  proof (rule wp_mono, elim conjE exE)
    fix x w tr
    assume w: "moved ?v w" "h_ret w = (False, JNull)" "reqs w = reqs ?v" "wrt.more w = wrt.more ?v" "trace w = trace ?v @ tr"
    from t(1) obtain pre where "trace t = trace s @ pre" by (auto simp: work_moved_def)
    then have "\<exists>pre r post. trace w = trace s @ pre @ ESys ?c r # post" using w(5) by auto
    moreover have "moved s (lend k w)"
      by (rule moved_lend_trans[of s k t]) (use t(1) moved_trans[OF tv w(1)] in \<open>simp_all add: work_moved_def\<close>)
    ultimately show "work_queued name op d cb s (lend k w)"
      using w(2,3) wkt_more[OF w(4)] t by (auto simp: work_queued_def work_moved_def)
  qed
  then show ?thesis
    using r by (simp add: work_async_def wp_bnd wp_sq work_ready_def iotjs_environment_get_def
      iotjs_environment_loop_def wp_gets wp_ret wp_sys wp_upd env t(5))
qed

lemma work_async_wp:
  fixes s t :: "(call, 'd, 'o, 'z) wkt_scheme"
  assumes "work_ready s" "work_moved s t" "reqs s p = None" "reqs t = (reqs s)(p \<mapsto> cb)"
    "work_data t = (work_data s)(p \<mapsto> d)" "work_queue t = work_queue s"
  shows "wp (sq (work_async E name op p) iotjs_jhandler_return_null) (\<lambda>_. work_queued name op d cb s) t"
  using work_async_lend[OF assms(1), of 0 t] assms(2-) by simp

lemma work_submit:
  fixes s :: "(call, 'd, 'o, 'z) wkt_scheme"
  assumes s: "work_ready s" and cb: "is_function cb"
  shows "wp (bnd (work_reqwrap_create cb d) (\<lambda>p. sq (work_async E name op p) iotjs_jhandler_return_null))
      (\<lambda>_. work_queued name op d cb s) s"
    and "wp (bnd (work_reqwrap_create cb d) (\<lambda>p. sq (upd_work_data p f) (sq (work_async E name op p) iotjs_jhandler_return_null)))
      (\<lambda>_. work_queued name op (f d) cb s) s"
proof -
  have wf: "wraps_wf s" using s by (simp add: work_ready_def)
  show "wp (bnd (work_reqwrap_create cb d) (\<lambda>p. sq (work_async E name op p) iotjs_jhandler_return_null))
      (\<lambda>_. work_queued name op d cb s) s"
    unfolding wp_bnd
    by (rule wp_mono[OF work_reqwrap_create_wp[OF wf cb]], elim conjE, rule work_async_wp[OF s])
  show "wp (bnd (work_reqwrap_create cb d) (\<lambda>p. sq (upd_work_data p f) (sq (work_async E name op p) iotjs_jhandler_return_null)))
      (\<lambda>_. work_queued name op (f d) cb s) s"
    unfolding wp_bnd
  proof (rule wp_mono[OF work_reqwrap_create_wp[OF wf cb]], elim conjE)
    fix p and t :: "(call, 'd, 'o, 'z) wkt_scheme"
    assume t: "work_moved s t" "reqs s p = None" "reqs t = (reqs s)(p \<mapsto> cb)"
      "work_data t = (work_data s)(p \<mapsto> d)" "work_queue t = work_queue s"
    have "wp (sq (work_async E name op p) iotjs_jhandler_return_null) (\<lambda>_. work_queued name op (f d) cb s)
        (t\<lparr>work_data := (work_data t)(p \<mapsto> f d)\<rparr>)"
      by (rule work_async_wp[OF s]) (use t in \<open>simp_all add: work_moved_def\<close>)
    then show "wp (sq (upd_work_data p f) (sq (work_async E name op p) iotjs_jhandler_return_null))
        (\<lambda>_. work_queued name op (f d) cb s) t"
      using t(4) by (simp only: wp_sq wp_work_data) simp
  qed
qed

text \<open>The same when the data are set by calls of the engine.\<close>

lemma work_submit_set:
  fixes s :: "(call, 'd, 'o, 'z) wkt_scheme" and prep :: "nat \<Rightarrow> ((call, 'd, 'o, 'z) wkt_scheme, unit) prog"
  assumes s: "work_ready s" and cb: "is_function cb"
    and prep: "\<And>p t. wraps_wf t \<Longrightarrow> h_argv t = h_argv s \<Longrightarrow> work_data t p = Some d \<Longrightarrow> wp (prep p)
      (\<lambda>_ u. \<exists>tr. u = t\<lparr>trace := trace t @ tr, work_data := (work_data t)(p \<mapsto> d')\<rparr> \<and> (\<forall>v. owned tr v = 0) \<and> natives tr = []) t"
  shows "wp (bnd (work_reqwrap_create cb d) (\<lambda>p. sq (prep p) (sq (work_async E name op p) iotjs_jhandler_return_null)))
      (\<lambda>_. work_queued name op d' cb s) s"
  unfolding wp_bnd
proof (rule wp_mono[OF work_reqwrap_create_wp], use s in \<open>simp add: work_ready_def\<close>, rule cb, elim conjE)
  fix p and t :: "(call, 'd, 'o, 'z) wkt_scheme"
  assume t: "work_moved s t" "reqs s p = None" "reqs t = (reqs s)(p \<mapsto> cb)"
    "work_data t = (work_data s)(p \<mapsto> d)" "work_queue t = work_queue s"
  have m: "wraps_wf t" "h_argv t = h_argv s" "work_data t p = Some d"
    using t(1,4) by (simp_all add: work_moved_def moved_def keeps_def)
  show "wp (sq (prep p) (sq (work_async E name op p) iotjs_jhandler_return_null)) (\<lambda>_. work_queued name op d' cb s) t"
    unfolding wp_sq[of "prep p"]
  proof (rule wp_mono[OF prep[OF m]], elim exE conjE)
    fix x tr and u :: "(call, 'd, 'o, 'z) wkt_scheme"
    assume u: "u = t\<lparr>trace := trace t @ tr, work_data := (work_data t)(p \<mapsto> d')\<rparr>" "\<forall>v. owned tr v = 0" "natives tr = []"
    have "quiet t (t\<lparr>trace := trace t @ tr\<rparr>)" using u(2,3) by (auto simp: quiet_def)
    from quiet_work(1)[OF this m(1)] have "work_moved s (t\<lparr>trace := trace t @ tr\<rparr>)" by (rule work_moved_trans[OF t(1)])
    then have "work_moved s u" unfolding u(1) by (simp add: work_moved_def)
    then show "wp (sq (work_async E name op p) iotjs_jhandler_return_null) (\<lambda>_. work_queued name op d' cb s) u"
      by (rule work_async_wp[OF s]) (use t u(1) in simp_all)
  qed
qed

lemma work_entered:
  "net_inv E s \<Longrightarrow> env_initialized s \<Longrightarrow> work_ready (handler_entry t args s)"
  by (simp add: work_ready_def handler_entry_def net_inv_def native_of_append wraps_wf_def)

text \<open>A part of a worker that makes calls and changes the data of its request, from \<open>d\<close> to \<open>f d\<close>.\<close>

definition work_step :: "nat \<Rightarrow> ('d \<Rightarrow> 'd \<Rightarrow> bool) \<Rightarrow> ('c, 'd, 'o, 'z) wkt_scheme \<Rightarrow> ('c, 'd, 'o, 'z) wkt_scheme \<Rightarrow> bool" where
  "work_step p R s t \<longleftrightarrow> work_moved s t \<and> reqs t = reqs s \<and> work_queue t = work_queue s \<and>
     (\<exists>d d'. work_data s p = Some d \<and> R d d' \<and> work_data t = (work_data s)(p \<mapsto> d'))"

lemma work_step_quiet:
  "quiet s t \<Longrightarrow> wraps_wf s \<Longrightarrow> work_data s p = Some d \<Longrightarrow> R d d \<Longrightarrow> work_step p R s t"
  using quiet_work[of s t] unfolding work_step_def by (metis fun_upd_triv)

lemma work_step_upd:
  "quiet s t \<Longrightarrow> wraps_wf s \<Longrightarrow> work_data s p = Some d \<Longrightarrow> R d (f d) \<Longrightarrow> wp (upd_work_data p f) (\<lambda>_. work_step p R s) t"
  using quiet_work[of s t] by (auto simp: wp_work_data work_step_def work_moved_def)

section \<open>Completion\<close>

lemma wp_work_destroy:
  fixes s :: "('c, 'd, 'o, 'z) wkt_scheme"
  shows "wp (work_reqwrap_destroy p) Q s =
     wp (reqwrap_free p) (\<lambda>_ t. Q () (t\<lparr>work_data := (work_data t)(p := None)\<rparr>)) s"
proof -
  have swap: "t\<lparr>work_data := m, blocks := b\<rparr> = t\<lparr>blocks := b, work_data := m\<rparr>" for t :: "('c, 'd, 'o, 'z) wkt_scheme" and m b
    by (cases t) simp
  then show ?thesis
    unfolding work_reqwrap_destroy_def reqwrap_free_def
    by (simp add: wp_sq, intro arg_cong[where f = "\<lambda>Q. wp (iotjs_reqwrap_destroy p) Q s"], simp add: fun_eq_iff wp_upd wp_IOTJS_ALLOC swap)
qed

text \<open>The last part of every completion: the callback with the arguments that were built, then the request is freed.\<close>

definition work_completed ::
  "nat \<Rightarrow> jval \<Rightarrow> jval \<Rightarrow> jval list \<Rightarrow> ('c, 'd, 'o, 'z) wkt_scheme \<Rightarrow> ('c, 'd, 'o, 'z) wkt_scheme \<Rightarrow> bool" where
  "work_completed p cb this vs s t \<longleftrightarrow> moved s t \<and> reqs t = (reqs s)(p := None) \<and> work_data t = (work_data s)(p := None) \<and>
     work_objs t = work_objs s \<and> work_queue t = work_queue s \<and> callback_made cb this vs s t \<and> h_ret t = h_ret s"

lemma work_finish_wp:
  fixes s :: "('c, 'd, 'o, 'z) wkt_scheme"
  assumes inv: "net_inv E s" and req: "reqs s p = Some cb" and built: "args_built vs jargs s t"
  shows "wp (sq (iotjs_make_callback E cb this jargs) (sq (iotjs_jargs_destroy jargs) (work_reqwrap_destroy p)))
    (\<lambda>_. work_completed p cb this vs s) t"
proof -
  have wf: "wraps_wf s" "process_module E s" using inv by (simp_all add: net_inv_def)
  have t: "reqs t = reqs s" using built by (auto simp: args_built_def)
  have "wp (bnd (iotjs_reqwrap_jcallback p) (\<lambda>j. sq (iotjs_make_callback E j this jargs)
      (sq (iotjs_jargs_destroy jargs) (reqwrap_free p))))
    (\<lambda>_ u. work_completed p cb this vs s (u\<lparr>work_data := (work_data u)(p := None)\<rparr>)) t"
  proof (rule wp_mono[OF rw.complete_built[where E = E and this = this, OF wf(1) req wf(2) built]], elim conjE)
    fix x and u :: "('c, 'd, 'o, 'z) wkt_scheme"
    assume u: "wraps_wf u" "steps s u" "reqs u = (reqs s)(p := None)" "handles u = handles s" "callback_made cb this vs s u"
    have "moved s u" by (rule steps_moved) fact+
    moreover have "callback_made cb this vs s (u\<lparr>work_data := (work_data u)(p := None)\<rparr>)"
      using u(5) by (simp add: callback_made_def)
    ultimately show "work_completed p cb this vs s (u\<lparr>work_data := (work_data u)(p := None)\<rparr>)"
      using wkt_more[of u s] u(2,3) by (simp add: work_completed_def steps_def)
  qed
  then show ?thesis
    unfolding wp_sq wp_bnd wp_work_destroy wp_reqwrap_jcallback t req by (elim exE conjE) simp
qed

text \<open>An argument that is an integer.\<close>

lemma wp_GET_INT_at:
  "i < length (h_argv s) \<Longrightarrow> h_argv s ! i = JNumber (num n) \<Longrightarrow> in_int32 n \<Longrightarrow> wp (JHANDLER_GET_INT i) Q s = Q n s"
  by (simp add: wp_simps num_def in_int32_def)

text \<open>A handler that submits, called from a script.\<close>

lemma work_call:
  fixes s :: "(call, 'd, 'o, 'z) wkt_scheme"
  assumes i: "net_inv E s" and body: "wp body (\<lambda>_. work_queued name op d cb (handler_entry t args s)) (handler_entry t args s)"
  obtains u p where "JHANDLER_FUNCTION body t args s = Inr ((False, JNull), u)"
    "reqs s p = None" "reqs u = (reqs s)(p \<mapsto> cb)" "work_data u = (work_data s)(p \<mapsto> d)" "work_queue u = (work_queue s)(p \<mapsto> (op, False))"
proof -
  let ?e = "handler_entry t args s"
  have "wp body (\<lambda>_ z. moved ?e z \<and> work_queued name op d cb ?e z) ?e"
    by (rule wp_mono[OF body]) (simp add: work_queued_def)
  then obtain z where z: "JHANDLER_FUNCTION body t args s = Inr (h_ret z, z\<lparr>blocks := blocks z - (if args = [] then 0 else 1)\<rparr>)"
    "moved ?e z" "work_queued name op d cb ?e z" by (rule handler_call_moved)
  then obtain p where "h_ret z = (False, JNull)" "reqs s p = None" "reqs z = (reqs s)(p \<mapsto> cb)"
    "work_data z = (work_data s)(p \<mapsto> d)" "work_queue z = (work_queue s)(p \<mapsto> (op, False))"
    unfolding work_queued_def by (auto simp: handler_entry_def)
  then show ?thesis by (intro that[of "z\<lparr>blocks := blocks z - (if args = [] then 0 else 1)\<rparr>" p]) (use z(1) in simp_all)
qed

section \<open>Modules\<close>

text \<open>
  What a handler leaves: an error that is thrown, or one more request with data that are right for it; a
  worker: data that are right for the completion. \<open>cost\<close> is the number of blocks that data own, \<open>lost\<close> the
  numbers of blocks that one event may lose.
\<close>

definition work_thrown :: "(call, 'd, 'o, 'z) wkt_scheme \<Rightarrow> (call, 'd, 'o, 'z) wkt_scheme \<Rightarrow> bool" where
  "work_thrown s t \<longleftrightarrow> moved s t \<and> reqs t = reqs s \<and> work_data t = work_data s \<and> work_objs t = work_objs s \<and>
     work_queue t = work_queue s"

definition work_after ::
  "('o \<Rightarrow> string) \<Rightarrow> (bool \<Rightarrow> 'o \<Rightarrow> 'd \<Rightarrow> bool) \<Rightarrow> ('d \<Rightarrow> int) \<Rightarrow> int set \<Rightarrow> (call, 'd, 'o, 'z) wkt_scheme \<Rightarrow>
   (call, 'd, 'o, 'z) wkt_scheme \<Rightarrow> bool" where
  "work_after name ok cost lost s t \<longleftrightarrow> (\<exists>k\<in>lost. work_thrown s (lend k t)) \<or>
     (\<exists>op d cb. \<exists>k\<in>lost. work_queued name op d cb s (lend (cost d + k) t) \<and> ok False op d)"

definition work_worked ::
  "nat \<Rightarrow> 'o \<Rightarrow> (bool \<Rightarrow> 'o \<Rightarrow> 'd \<Rightarrow> bool) \<Rightarrow> ('d \<Rightarrow> int) \<Rightarrow> int set \<Rightarrow> (call, 'd, 'o, 'z) wkt_scheme \<Rightarrow>
   (call, 'd, 'o, 'z) wkt_scheme \<Rightarrow> bool" where
  "work_worked p op ok cost lost s t \<longleftrightarrow> (\<exists>d d'. \<exists>k\<in>lost. work_data s p = Some d \<and> ok True op d' \<and>
     work_step p (\<lambda>_ x. x = d') s (lend (cost d' - cost d + k) t))"

text \<open>The invariant between two events, the blocks that all pending data own, and the events.\<close>

definition work_inv ::
  "ModuleKind \<Rightarrow> (bool \<Rightarrow> 'o \<Rightarrow> 'd \<Rightarrow> bool) \<Rightarrow> call engine \<Rightarrow> (call, 'd, 'o, 'z) wkt_scheme \<Rightarrow> nat \<Rightarrow> bool" where
  "work_inv k ok E s g \<longleftrightarrow> net_inv E s \<and> work_object k E s g \<and> env_initialized s \<and>
     (\<forall>p op b. work_queue s p = Some (op, b) \<longrightarrow> reqs s p \<noteq> None \<and> (\<exists>d. work_data s p = Some d \<and> ok b op d))"

lemma work_invD:
  assumes "work_inv k ok E s g" "work_queue s p = Some (op, b)"
  obtains cb d where "reqs s p = Some cb" "work_data s p = Some d" "ok b op d"
  using assms by (fastforce simp: work_inv_def)

definition work_cost :: "('d \<Rightarrow> int) \<Rightarrow> ('c, 'd, 'o, 'z) wkt_scheme \<Rightarrow> int" where
  "work_cost cost s = (\<Sum>p\<in>dom (work_queue s). cost (the (work_data s p)))"

lemma work_cost_simps [simp]: "work_cost (\<lambda>_. 0) s = 0" "work_cost cost (lend k s) = work_cost cost s"
  by (simp_all add: work_cost_def)

lemma work_inv_finite:
  assumes "work_inv k ok E s g"
  shows "finite (dom (work_queue s))"
proof (rule finite_subset)
  show "dom (work_queue s) \<subseteq> dom (reqs s)" using assms by (auto simp: work_inv_def)
  show "finite (dom (reqs s))" using assms by (simp add: work_inv_def net_inv_def wraps_wf_def)
qed

lemma work_cost_other:
  assumes "work_data t = (work_data s)(p := x)"
  shows "(\<Sum>q\<in>dom (work_queue s) - {p}. cost (the (work_data t q))) = (\<Sum>q\<in>dom (work_queue s) - {p}. cost (the (work_data s q)))"
  by (rule sum.cong) (simp_all add: assms)

lemma work_cost_set:
  assumes "finite (dom (work_queue s))" "work_queue t = (work_queue s)(p \<mapsto> w)" "work_data t = (work_data s)(p \<mapsto> d)"
  shows "work_cost cost t = work_cost cost s + cost d - (if work_queue s p = None then 0 else cost (the (work_data s p)))"
proof -
  have t: "work_cost cost t = cost d + (\<Sum>q\<in>dom (work_queue s) - {p}. cost (the (work_data t q)))"
    unfolding work_cost_def assms(2) dom_fun_upd by (simp add: sum.insert_remove assms(1,3))
  show ?thesis
  proof (cases "work_queue s p = None")
    case True
    then have "dom (work_queue s) - {p} = dom (work_queue s)" by auto
    then show ?thesis using True t work_cost_other[OF assms(3)] by (simp add: work_cost_def)
  next
    case False
    then obtain x where x: "work_queue s p = Some x" by blast
    then have "p \<in> dom (work_queue s)" by auto
    from sum.remove[OF assms(1) this, of "\<lambda>p. cost (the (work_data s p))"] show ?thesis
      using x t work_cost_other[OF assms(3), of cost] by (simp add: work_cost_def)
  qed
qed

lemma work_cost_none:
  assumes "finite (dom (work_queue s))" "work_queue s p \<noteq> None" "work_queue t = (work_queue s)(p := None)" "work_data t = (work_data s)(p := None)"
  shows "work_cost cost t = work_cost cost s - cost (the (work_data s p))"
proof -
  have "p \<in> dom (work_queue s)" using assms(2) by auto
  from sum.remove[OF assms(1) this, of "\<lambda>p. cost (the (work_data s p))"] show ?thesis
    using work_cost_other[OF assms(4)] by (simp add: work_cost_def assms(3))
qed

datatype 'h work_event = WorkCall 'h jval "jval list" | WorkThread nat | WorkDone nat int

fun work_enabled :: "('h \<Rightarrow> jval list \<Rightarrow> bool) \<Rightarrow> ('c, 'd, 'o, 'z) wkt_scheme \<Rightarrow> 'h work_event \<Rightarrow> bool" where
  "work_enabled args_ok s (WorkCall h t args) \<longleftrightarrow> args_ok h args"
| "work_enabled args_ok s (WorkThread p) \<longleftrightarrow> (\<exists>op. work_queue s p = Some (op, False))"
| "work_enabled args_ok s (WorkDone p status) \<longleftrightarrow> (\<exists>op. work_queue s p = Some (op, True))"

fun work_perform ::
  "('h \<Rightarrow> ((call, 'd, 'o, 'z) wkt_scheme, unit) prog) \<Rightarrow> ('o \<Rightarrow> nat \<Rightarrow> ((call, 'd, 'o, 'z) wkt_scheme, unit) prog) \<Rightarrow>
   (nat \<Rightarrow> int \<Rightarrow> ((call, 'd, 'o, 'z) wkt_scheme, unit) prog) \<Rightarrow> 'h work_event \<Rightarrow> ((call, 'd, 'o, 'z) wkt_scheme, unit) prog" where
  "work_perform body worker after (WorkCall h t args) = native_handler.serve (body h) (t, args)"
| "work_perform body worker after (WorkThread p) = work_thread worker p"
| "work_perform body worker after (WorkDone p status) = work_done after p status"

inductive work_run ::
  "('h \<Rightarrow> jval list \<Rightarrow> bool) \<Rightarrow> ('h work_event \<Rightarrow> (('c, 'd, 'o, 'z) wkt_scheme, unit) prog) \<Rightarrow>
   ('c, 'd, 'o, 'z) wkt_scheme \<Rightarrow> ('c, 'd, 'o, 'z) wkt_scheme \<Rightarrow> bool"
  for args_ok perform where
  start: "work_run args_ok perform s s"
| after: "work_run args_ok perform s t \<Longrightarrow> work_enabled args_ok t e \<Longrightarrow> perform e t = Inr ((), u) \<Longrightarrow> work_run args_ok perform s u"

text \<open>The account of an event: references exactly, blocks up to what is lost.\<close>

definition work_account :: "('d \<Rightarrow> int) \<Rightarrow> int set \<Rightarrow> (call, 'd, 'o, 'z) wkt_scheme \<Rightarrow> (call, 'd, 'o, 'z) wkt_scheme \<Rightarrow> bool" where
  "work_account cost lost s t \<longleftrightarrow> (\<exists>k\<in>lost. balance s (lend (work_cost cost t - work_cost cost s + k) t))"

lemma balance_lend: "balance s (lend k t) \<longleftrightarrow>
    (\<forall>v. owned (trace t) v - kept_wraps t v = owned (trace s) v - kept_wraps s v) \<and> blocks t - k - heap_wraps t = blocks s - heap_wraps s"
  by (simp add: balance_def)

lemma work_account_trans:
  assumes "work_account cost lost s t" "work_account cost lost t u" "\<And>a b. a \<in> lost \<Longrightarrow> b \<in> lost \<Longrightarrow> a + b \<in> lost"
  shows "work_account cost lost s u"
proof -
  obtain a b where a: "a \<in> lost" "balance s (lend (work_cost cost t - work_cost cost s + a) t)"
    and b: "b \<in> lost" "balance t (lend (work_cost cost u - work_cost cost t + b) u)"
    using assms(1,2) by (auto simp: work_account_def)
  then have "balance s (lend (work_cost cost u - work_cost cost s + (a + b)) u)"
    unfolding balance_lend by (elim conjE) (intro conjI allI, simp_all)
  then show ?thesis using assms(3)[OF a(1) b(1)] by (auto simp: work_account_def)
qed

lemma work_queue_more [simp]:
  "balance s (t\<lparr>work_queue := q\<rparr>) = balance s t" "net_inv E (t\<lparr>work_queue := q\<rparr>) = net_inv E t"
  "work_object k E (t\<lparr>work_queue := q\<rparr>) g = work_object k E t g"
  by (simp_all add: balance_def kept_wraps_def heap_wraps_def net_inv_def wraps_wf_def work_object_def)

locale work_module =
  fixes E :: "call engine" and k :: ModuleKind and name :: "'o \<Rightarrow> string" and ok :: "bool \<Rightarrow> 'o \<Rightarrow> 'd \<Rightarrow> bool"
    and cost :: "'d \<Rightarrow> int" and lost :: "int set"
    and args_ok :: "'h \<Rightarrow> jval list \<Rightarrow> bool"
    and body :: "'h \<Rightarrow> ((call, 'd, 'o, 'z) wkt_scheme, unit) prog"
    and worker :: "'o \<Rightarrow> nat \<Rightarrow> ((call, 'd, 'o, 'z) wkt_scheme, unit) prog"
    and after :: "nat \<Rightarrow> int \<Rightarrow> ((call, 'd, 'o, 'z) wkt_scheme, unit) prog"
  assumes lost_law: "0 \<in> lost" "a \<in> lost \<Longrightarrow> b \<in> lost \<Longrightarrow> a + b \<in> lost"
    and handler_law: "net_inv E s \<Longrightarrow> env_initialized s \<Longrightarrow> args_ok h args \<Longrightarrow>
      wp (body h) (\<lambda>_. work_after name ok cost lost (handler_entry t args s)) (handler_entry t args s)"
    and worker_law: "env_initialized s \<Longrightarrow> wraps_wf s \<Longrightarrow> reqs s p = Some cb \<Longrightarrow> work_data s p = Some d \<Longrightarrow> ok False op d \<Longrightarrow>
      wp (worker op p) (\<lambda>_. work_worked p op ok cost lost s) s"
    and after_law: "net_inv E s \<Longrightarrow> work_object k E s g \<Longrightarrow> reqs s p = Some cb \<Longrightarrow> work_data s p = Some d \<Longrightarrow> ok True op d \<Longrightarrow>
      wp (after p status) (\<lambda>_ t. \<exists>vs. \<exists>k'\<in>lost. work_completed p cb (jmodule s k) vs s (lend (k' - cost d) t)) s"
begin

text \<open>What a handler leaves keeps the invariant of the requests.\<close>

lemma handler_after:
  assumes inv: "work_inv k ok E s g" and z: "work_after name ok cost lost (handler_entry t args s) z"
  shows "wraps_wf z" "work_objs z = work_objs s" "native_of (trace z) = native_of (trace s)" "env_initialized z = env_initialized s"
    and "\<forall>p op b. work_queue z p = Some (op, b) \<longrightarrow> reqs z p \<noteq> None \<and> (\<exists>d. work_data z p = Some d \<and> ok b op d)"
    and "\<exists>k'\<in>lost. keeps (handler_entry t args s) (lend (work_cost cost z - work_cost cost s + k') z)"
proof -
  let ?e = "handler_entry t args s"
  have e: "reqs ?e = reqs s" "work_data ?e = work_data s" "work_objs ?e = work_objs s" "work_queue ?e = work_queue s"
    "env_initialized ?e = env_initialized s" by (simp_all add: handler_entry_def)
  have n: "native_of (trace s @ [EAcquire JUndefined]) = native_of (trace s)" by (simp add: native_of_append fun_eq_iff)
  let ?I = "\<forall>p op b. work_queue z p = Some (op, b) \<longrightarrow> reqs z p \<noteq> None \<and> (\<exists>d. work_data z p = Some d \<and> ok b op d)"
  have "wraps_wf z \<and> work_objs z = work_objs s \<and> native_of (trace z) = native_of (trace s) \<and> env_initialized z = env_initialized s \<and>
      ?I \<and> (\<exists>k'\<in>lost. keeps ?e (lend (work_cost cost z - work_cost cost s + k') z))"
  proof (cases "\<exists>k'\<in>lost. work_thrown ?e (lend k' z)")
    case True
    then obtain k' where k: "k' \<in> lost" "work_thrown ?e (lend k' z)" by blast
    then have q: "moved ?e (lend k' z)" "reqs z = reqs s" "work_data z = work_data s" "work_queue z = work_queue s" "work_objs z = work_objs s"
      by (simp_all add: work_thrown_def e)
    have "work_cost cost z = work_cost cost s" using q by (simp add: work_cost_def)
    moreover have ?I using inv q by (simp add: work_inv_def)
    ultimately show ?thesis using q(1,5) k(1) unfolding moved_def by (auto simp: e n)
  next
    case False
    with z obtain op d cb k' where q: "k' \<in> lost" "work_queued name op d cb ?e (lend (cost d + k') z)" "ok False op d"
      unfolding work_after_def by blast
    from q(2) have m: "moved ?e (lend (cost d + k') z)" "work_objs z = work_objs s" by (simp_all add: work_queued_def e)
    from q(2) obtain p where p: "reqs s p = None" "reqs z = (reqs s)(p \<mapsto> cb)" "work_data z = (work_data s)(p \<mapsto> d)"
      "work_queue z = (work_queue s)(p \<mapsto> (op, False))" unfolding work_queued_def e lend_fields lend_work by blast
    have "work_queue s p = None"
    proof (rule ccontr)
      assume "work_queue s p \<noteq> None"
      then obtain x b where "work_queue s p = Some (x, b)" by auto
      from work_invD[OF inv this] p(1) show False by simp
    qed
    then have c: "work_cost cost z = work_cost cost s + cost d"
      using work_cost_set[OF work_inv_finite[OF inv] p(4,3)] by simp
    have ?I
    proof (intro allI impI)
      fix x w b
      assume x: "work_queue z x = Some (w, b)"
      show "reqs z x \<noteq> None \<and> (\<exists>d. work_data z x = Some d \<and> ok b w d)"
      proof (cases "x = p")
        case True
        then show ?thesis using x p q(3) by simp
      next
        case False
        then have "work_queue s x = Some (w, b)" using x p(4) by simp
        from work_invD[OF inv this] show ?thesis using p(2,3) False by auto
      qed
    qed
    then show ?thesis using m q(1) c unfolding moved_def by (auto simp: e n)
  qed
  then show "wraps_wf z" "work_objs z = work_objs s" "native_of (trace z) = native_of (trace s)" "env_initialized z = env_initialized s"
    ?I "\<exists>k'\<in>lost. keeps ?e (lend (work_cost cost z - work_cost cost s + k') z)" by blast+
qed

lemma call_wp:
  assumes inv: "work_inv k ok E s g" and en: "args_ok h args"
  shows "wp (native_handler.serve (body h) (t, args)) (\<lambda>_ u. work_inv k ok E u g \<and> work_account cost lost s u) s"
proof -
  have i: "net_inv E s" "work_object k E s g" "env_initialized s" using inv by (simp_all add: work_inv_def)
  have rel: "native_of (trace u @ [ERelease v]) = native_of (trace u)" for u :: "(call, 'd, 'o, 'z) wkt_scheme" and v
    by (rule ext) (simp add: native_of_append)
  let ?e = "handler_entry t args s"
  show ?thesis
    unfolding serve_eq wp_bnd wp_JHANDLER_FUNCTION
  proof (rule wp_mono[OF handler_law[OF i(1,3) en]])
    fix x and u :: "(call, 'd, 'o, 'z) wkt_scheme"
    assume "work_after name ok cost lost ?e u"
    note u = handler_after[OF inv this]
    let ?b = "blocks u - (if h_argv u = [] then 0 else 1)"
    let ?w = "u\<lparr>blocks := ?b, trace := trace u @ [ERelease (snd (h_ret u))]\<rparr>"
    obtain k' where k: "k' \<in> lost" "keeps ?e (lend (work_cost cost u - work_cost cost s + k') u)" using u(6) by blast
    have c: "kept_wraps ?e = kept_wraps s" "heap_wraps ?e = heap_wraps s" "kept_wraps ?w = kept_wraps u" "heap_wraps ?w = heap_wraps u"
      "work_cost cost ?w = work_cost cost u"
      by (simp_all add: kept_wraps_def heap_wraps_def work_cost_def fun_eq_iff)
    have "spare u = spare ?e" using k(2) unfolding keeps_lend by blast
    then have sp: "spare u v = spare ?e v" for v by simp
    have "owned (trace ?w) v - kept_wraps ?w v = owned (trace s) v - kept_wraps s v" for v
      using sp[of v] c by (auto simp: spare_def frame_refs_def split: if_splits)
    moreover have "h_argv u = args" using k(2) unfolding keeps_lend by simp
    ultimately have "balance s (lend (work_cost cost ?w - work_cost cost s + k') ?w)"
      using k(2) c unfolding balance_lend keeps_lend by auto
    then have "work_account cost lost s ?w" using k(1) unfolding work_account_def by blast
    moreover have "jmodule ?w = jmodule s" using k(2) unfolding keeps_lend by simp
    moreover have "wraps_wf ?w" using u(1) by (simp add: wraps_wf_def native_of_append)
    moreover have "work_object k E ?w g" using i(2) u(2,3) \<open>jmodule ?w = jmodule s\<close> by (simp add: work_object_def rel)
    moreover have "net_inv E ?w" using i(1) \<open>wraps_wf ?w\<close> \<open>jmodule ?w = jmodule s\<close> by (simp add: net_inv_def)
    ultimately have "work_inv k ok E ?w g \<and> work_account cost lost s ?w"
      using u(4,5) i(3) unfolding work_inv_def by simp
    then show "wp (case h_ret u of (th, r) \<Rightarrow> iotjs_jval_destroy r) (\<lambda>_ u. work_inv k ok E u g \<and> work_account cost lost s u) (u\<lparr>blocks := ?b\<rparr>)"
      by (cases "h_ret u") (simp add: wp_simps)
  qed
qed

lemma thread_wp:
  assumes inv: "work_inv k ok E s g" and en: "work_queue s p = Some (op, False)"
  shows "wp (work_thread worker p) (\<lambda>_ u. work_inv k ok E u g \<and> work_account cost lost s u) s"
proof -
  have i: "net_inv E s" "work_object k E s g" "env_initialized s" using inv by (simp_all add: work_inv_def)
  obtain cb d where r: "reqs s p = Some cb" "work_data s p = Some d" "ok False op d" by (rule work_invD[OF inv en])
  have wf: "wraps_wf s" using i(1) by (simp add: net_inv_def)
  have "wp (worker op p) (\<lambda>_ u. work_inv k ok E (u\<lparr>work_queue := (work_queue u)(p \<mapsto> (op, True))\<rparr>) g \<and>
      work_account cost lost s (u\<lparr>work_queue := (work_queue u)(p \<mapsto> (op, True))\<rparr>)) s"
  proof (rule wp_mono[OF worker_law[OF i(3) wf r]])
    fix x and u :: "(call, 'd, 'o, 'z) wkt_scheme"
    assume u: "work_worked p op ok cost lost s u"
    let ?u = "u\<lparr>work_queue := (work_queue u)(p \<mapsto> (op, True))\<rparr>"
    obtain d' k' where f: "work_moved s (lend (cost d' - cost d + k') u)" "reqs u = reqs s" "work_queue u = work_queue s"
      "work_data u = (work_data s)(p \<mapsto> d')" "ok True op d'" "k' \<in> lost"
      using u r(2) by (auto simp: work_worked_def work_step_def)
    have mv: "moved s (lend (cost d' - cost d + k') u)" "h_ret u = h_ret s" using f(1) by (simp_all add: work_moved_def)
    have c: "work_cost cost ?u = work_cost cost s + cost d' - cost d"
      using work_cost_set[OF work_inv_finite[OF inv], of ?u p "(op, True)" d' cost] f(3,4) en r(2) by simp
    have "\<forall>q w b. work_queue ?u q = Some (w, b) \<longrightarrow> reqs ?u q \<noteq> None \<and> (\<exists>d. work_data ?u q = Some d \<and> ok b w d)"
    proof (intro allI impI)
      fix q w b
      assume q: "work_queue ?u q = Some (w, b)"
      show "reqs ?u q \<noteq> None \<and> (\<exists>d. work_data ?u q = Some d \<and> ok b w d)"
      proof (cases "q = p")
        case True
        then show ?thesis using q f(2,4,5) r(1) by simp
      next
        case False
        then have "work_queue s q = Some (w, b)" using q f(3) by simp
        from work_invD[OF inv this] obtain cb d where "reqs s q = Some cb" "work_data s q = Some d" "ok b w d" .
        then show ?thesis using f(2,4) False by simp
      qed
    qed
    moreover have "work_object k E u g" using work_object_moved[OF i(2) f(1)] by simp
    moreover have "net_inv E u" using i(1) mv(1) unfolding net_inv_def moved_def keeps_lend by simp
    moreover have "balance s (lend (cost d' - cost d + k') u)" using moved_balance[OF mv(1)] mv(2) by simp
    then have "balance s (lend (work_cost cost ?u - work_cost cost s + k') ?u)"
      unfolding c balance_lend by (simp add: kept_wraps_def heap_wraps_def)
    then have "work_account cost lost s ?u" using f(6) unfolding work_account_def by blast
    ultimately show "work_inv k ok E ?u g \<and> work_account cost lost s ?u"
      using i(3) mv(1) unfolding work_inv_def by (simp add: moved_def)
  qed
  then have "wp (sq (worker op p) (upd (\<lambda>t. t\<lparr>work_queue := (work_queue t)(p \<mapsto> (op, True))\<rparr>)))
      (\<lambda>_ u. work_inv k ok E u g \<and> work_account cost lost s u) s"
    unfolding wp_sq by (rule wp_mono) (simp add: wp_upd)
  then show ?thesis unfolding work_thread_def by (simp add: wp_bnd wp_gets en)
qed

lemma done_wp:
  assumes inv: "work_inv k ok E s g" and en: "work_queue s p = Some (op, True)"
  shows "wp (work_done after p status) (\<lambda>_ u. work_inv k ok E u g \<and> work_account cost lost s u) s"
proof -
  let ?s = "s\<lparr>work_queue := (work_queue s)(p := None)\<rparr>"
  have i: "net_inv E s" "work_object k E s g" "env_initialized s" using inv by (simp_all add: work_inv_def)
  obtain cb d where r: "reqs s p = Some cb" "work_data s p = Some d" "ok True op d" by (rule work_invD[OF inv en])
  have "wp (after p status) (\<lambda>_ u. work_inv k ok E u g \<and> work_account cost lost s u) ?s"
  proof (rule wp_mono)
    show "wp (after p status) (\<lambda>_ t. \<exists>vs. \<exists>k'\<in>lost. work_completed p cb (jmodule ?s k) vs ?s (lend (k' - cost d) t)) ?s"
      by (rule after_law) (use i r in simp_all)
    fix x and u :: "(call, 'd, 'o, 'z) wkt_scheme"
    assume "\<exists>vs. \<exists>k'\<in>lost. work_completed p cb (jmodule ?s k) vs ?s (lend (k' - cost d) u)"
    then obtain k' where u: "moved ?s (lend (k' - cost d) u)" "reqs u = (reqs s)(p := None)" "work_data u = (work_data s)(p := None)"
      "work_objs u = work_objs s" "work_queue u = (work_queue s)(p := None)" "h_ret u = h_ret s" "k' \<in> lost"
      by (auto simp: work_completed_def)
    have "moved s s" using i(1) by (simp add: moved_def net_inv_def)
    then have m: "moved s (lend (k' - cost d) u)" using moved_trans[of s ?s "lend (k' - cost d) u"] u(1) by simp
    have c: "work_cost cost u = work_cost cost s - cost d"
      using work_cost_none[OF work_inv_finite[OF inv] _ u(5,3), of cost] en r(2) by simp
    have "\<forall>q w b. work_queue u q = Some (w, b) \<longrightarrow> reqs u q \<noteq> None \<and> (\<exists>d. work_data u q = Some d \<and> ok b w d)"
    proof (intro allI impI)
      fix q w b
      assume "work_queue u q = Some (w, b)"
      then have q: "q \<noteq> p" "work_queue s q = Some (w, b)" using u(5) by (auto split: if_splits)
      from work_invD[OF inv q(2)] obtain cb d where "reqs s q = Some cb" "work_data s q = Some d" "ok b w d" .
      then show "reqs u q \<noteq> None \<and> (\<exists>d. work_data u q = Some d \<and> ok b w d)" using u(2,3) q(1) by simp
    qed
    moreover have "work_object k E u g" using i(2) m u(4) unfolding work_object_def moved_def keeps_lend by simp
    moreover have "net_inv E u" using i(1) m unfolding net_inv_def moved_def keeps_lend by simp
    moreover have "balance s (lend (k' - cost d) u)" using moved_balance[OF m] u(6) by simp
    then have "balance s (lend (work_cost cost u - work_cost cost s + k') u)" unfolding c balance_lend by simp
    then have "work_account cost lost s u" using u(7) unfolding work_account_def by blast
    ultimately show "work_inv k ok E u g \<and> work_account cost lost s u"
      using i(3) m unfolding work_inv_def by (simp add: moved_def)
  qed
  then show ?thesis unfolding work_done_def by (simp add: wp_bnd wp_gets wp_sq wp_upd en)
qed

lemma event_wp:
  assumes inv: "work_inv k ok E s g" and en: "work_enabled args_ok s e"
  shows "wp (work_perform body worker after e) (\<lambda>_ u. work_inv k ok E u g \<and> work_account cost lost s u) s"
proof (cases e)
  case (WorkCall h t args)
  then show ?thesis using call_wp[OF inv] en by simp
next
  case (WorkThread p)
  then show ?thesis using thread_wp[OF inv] en by auto
next
  case (WorkDone p status)
  then show ?thesis using done_wp[OF inv] en by auto
qed

lemma run_keeps:
  assumes "work_run args_ok (work_perform body worker after) s t" "work_inv k ok E s g"
  shows "work_inv k ok E t g \<and> work_account cost lost s t"
  using assms
proof (induction rule: work_run.induct)
  case (start s)
  have "balance s (lend (work_cost cost s - work_cost cost s + 0) s)" by simp
  then show ?case using start lost_law(1) unfolding work_account_def by blast
next
  case (after s t e u)
  then have t: "work_inv k ok E t g" "work_account cost lost s t" by simp_all
  have "work_inv k ok E u g \<and> work_account cost lost t u"
    using event_wp[OF t(1) after(2)] after(3) by (simp add: wp_runsD)
  then show ?case using work_account_trans[OF t(2) _ lost_law(2)] by blast
qed

text \<open>Every event of every run is safe.\<close>

lemma events_safe:
  assumes "work_inv k ok E s g" "work_run args_ok (work_perform body worker after) s t" "work_enabled args_ok t e"
  shows "(\<exists>u. work_perform body worker after e t = Inr ((), u)) \<and> wraps_wf t \<and>
    (\<forall>v. owned (trace t) v - owned (trace s) v = kept_wraps t v - kept_wraps s v) \<and>
    (\<exists>k'\<in>lost. blocks t - blocks s = heap_wraps t - heap_wraps s + work_cost cost t - work_cost cost s + k')"
proof -
  have t: "work_inv k ok E t g" "work_account cost lost s t" using run_keeps[OF assms(2,1)] by simp_all
  obtain k' where b: "k' \<in> lost" "balance s (lend (work_cost cost t - work_cost cost s + k') t)"
    using t(2) by (auto simp: work_account_def)
  have "\<exists>u. work_perform body worker after e t = Inr ((), u)" using event_wp[OF t(1) assms(3)] by (auto simp: wp_runs)
  moreover have "wraps_wf t" using t(1) by (simp add: work_inv_def net_inv_def)
  moreover have "\<forall>v. owned (trace t) v - owned (trace s) v = kept_wraps t v - kept_wraps s v"
    using b(2) unfolding balance_lend by (auto simp: algebra_simps)
  moreover have "blocks t - blocks s = heap_wraps t - heap_wraps s + work_cost cost t - work_cost cost s + k'"
    using b(2) unfolding balance_lend by (auto simp: algebra_simps)
  ultimately show ?thesis using b(1) by blast
qed

end

end
