(* ===== verification/Iot_Pwm.thy ===== *)
theory Iot_Pwm
  imports Iot_Work Iot_Systemio
begin

text \<open>
  The pulse width module, \<^verbatim>\<open>src/module/iotjs_module_pwm.c\<close> and
  \<^verbatim>\<open>src/platform/iotjs_module_pwm-linux-general.inl.h\<close>: requests with a pin and options, workers that
  write the files of the pin (\<open>Iot_Systemio\<close>), and their completion. A worker is one step.
\<close>

section \<open>Data\<close>

datatype PwmOp = kPwmOpExport | kPwmOpSetDutyCycle | kPwmOpSetPeriod | kPwmOpSetFrequency | kPwmOpSetEnable | kPwmOpUnexport

datatype PwmError = kPwmErrOk | kPwmErrExport | kPwmErrUnexport | kPwmErrEnable | kPwmErrWrite | kPwmErrSys

fun pwm_error_code :: "PwmError \<Rightarrow> int" where
  "pwm_error_code kPwmErrOk = 0"
| "pwm_error_code kPwmErrExport = - 1"
| "pwm_error_code kPwmErrUnexport = - 2"
| "pwm_error_code kPwmErrEnable = - 3"
| "pwm_error_code kPwmErrWrite = - 4"
| "pwm_error_code kPwmErrSys = - 5"

record iotjs_pwm_reqdata_t =
  pw_pin :: int
  pw_duty_cycle :: int
  pw_period :: int
  pw_enable :: bool
  pw_result :: PwmError
  pw_op :: PwmOp

type_synonym 'z pwm_prog = "((call, iotjs_pwm_reqdata_t, PwmOp, 'z) wkt_scheme, unit) prog"

section \<open>The request wrapper and the object of the module\<close>

text \<open>\<^verbatim>\<open>IOTJS_ALLOC\<close> clears the memory, so the other fields of the request are 0.\<close>

definition iotjs_pwm_reqwrap_create :: "jval \<Rightarrow> PwmOp \<Rightarrow> (('c, iotjs_pwm_reqdata_t, PwmOp, 'z) wkt_scheme, nat) prog" where
  "iotjs_pwm_reqwrap_create jcallback op =
     work_reqwrap_create jcallback
       \<lparr>pw_pin = 0, pw_duty_cycle = 0, pw_period = 0, pw_enable = False, pw_result = kPwmErrOk, pw_op = op\<rparr>"

definition iotjs_pwm_reqwrap_destroy :: "nat \<Rightarrow> (('c, iotjs_pwm_reqdata_t, PwmOp, 'z) wkt_scheme, unit) prog" where
  "iotjs_pwm_reqwrap_destroy pwm_reqwrap = work_reqwrap_destroy pwm_reqwrap"

definition iotjs_pwm_reqwrap_dispatched :: "nat \<Rightarrow> (('c, iotjs_pwm_reqdata_t, PwmOp, 'z) wkt_scheme, unit) prog" where
  "iotjs_pwm_reqwrap_dispatched pwm_reqwrap = iotjs_pwm_reqwrap_destroy pwm_reqwrap"

definition iotjs_pwm_reqwrap_req :: "nat \<Rightarrow> nat" where
  "iotjs_pwm_reqwrap_req pwm_reqwrap = pwm_reqwrap"

definition iotjs_pwm_reqwrap_jcallback :: "nat \<Rightarrow> (('c, 'z) wrt_scheme, jval) prog" where
  "iotjs_pwm_reqwrap_jcallback pwm_reqwrap = iotjs_reqwrap_jcallback pwm_reqwrap"

definition iotjs_pwm_reqwrap_from_request :: "nat \<Rightarrow> (('c, 'z) wrt_scheme, nat) prog" where
  "iotjs_pwm_reqwrap_from_request req = work_from_request req"

definition iotjs_pwm_reqwrap_data :: "nat \<Rightarrow> (('c, iotjs_pwm_reqdata_t, PwmOp, 'z) wkt_scheme, iotjs_pwm_reqdata_t) prog" where
  "iotjs_pwm_reqwrap_data pwm_reqwrap = get_work_data pwm_reqwrap"

definition iotjs_pwm_create :: "jval \<Rightarrow> (('c, 'd, 'o, 'z) wkt_scheme, nat) prog" where
  "iotjs_pwm_create jpwm = work_object_create jpwm"

definition iotjs_pwm_destroy :: "nat \<Rightarrow> (('c, 'd, 'o, 'z) wkt_scheme, unit) prog" where
  "iotjs_pwm_destroy pwm = work_object_destroy pwm"

definition iotjs_pwm_get_jpwm :: "(('c, 'z) mrt_scheme, jval) prog" where
  "iotjs_pwm_get_jpwm = iotjs_module_get MODULE_PWM"

definition iotjs_pwm_get_instance :: "'c engine \<Rightarrow> (('c, 'd, 'o, 'z) wkt_scheme, nat) prog" where
  "iotjs_pwm_get_instance E = bnd iotjs_pwm_get_jpwm (work_from_jobject E)"

text \<open>The pin and the options of the arguments; an option that is no number leaves its field.\<close>

definition iotjs_pwm_set_pwmdata :: "call engine \<Rightarrow> nat \<Rightarrow> 'z pwm_prog" where
  "iotjs_pwm_set_pwmdata E pwm_reqwrap =
     bnd (JHANDLER_GET_INT 0) (\<lambda>pin.
     sq (upd_work_data pwm_reqwrap (\<lambda>d. d\<lparr>pw_pin := pin\<rparr>))
    (bnd (JHANDLER_GET_ARG 1 iotjs_jval_as_object) (\<lambda>joptions.
     bnd (iotjs_jval_get_property E joptions ''period'') (\<lambda>jperiod.
     sq (if is_number jperiod
         then bnd (iotjs_jval_as_number jperiod) (\<lambda>x. bnd (to_int x) (\<lambda>n. upd_work_data pwm_reqwrap (\<lambda>d. d\<lparr>pw_period := n\<rparr>)))
         else ret ())
    (bnd (iotjs_jval_get_property E joptions ''dutyCycle'') (\<lambda>jduty_cycle.
     sq (if is_number jduty_cycle
         then bnd (iotjs_jval_as_number jduty_cycle) (\<lambda>x. bnd (to_int x) (\<lambda>n. upd_work_data pwm_reqwrap (\<lambda>d. d\<lparr>pw_duty_cycle := n\<rparr>)))
         else ret ())
    (sq (iotjs_jval_destroy jperiod)
    (iotjs_jval_destroy jduty_cycle))))))))"

section \<open>Submission and completion\<close>

fun pwm_worker_name :: "PwmOp \<Rightarrow> string" where
  "pwm_worker_name kPwmOpExport = ''ExportWorker''"
| "pwm_worker_name kPwmOpSetDutyCycle = ''SetDutyCycleWorker''"
| "pwm_worker_name kPwmOpSetPeriod = ''SetPeriodWorker''"
| "pwm_worker_name kPwmOpSetFrequency = ''SetFrequencyWorker''"
| "pwm_worker_name kPwmOpSetEnable = ''SetEnableWorker''"
| "pwm_worker_name kPwmOpUnexport = ''UnexportWorker''"

definition PWM_ASYNC :: "call engine \<Rightarrow> PwmOp \<Rightarrow> nat \<Rightarrow> 'z pwm_prog" where
  "PWM_ASYNC E op req_wrap = work_async E pwm_worker_name op (iotjs_pwm_reqwrap_req req_wrap)"

definition AfterPwmWork :: "call engine \<Rightarrow> nat \<Rightarrow> int \<Rightarrow> 'z pwm_prog" where
  "AfterPwmWork E work_req status =
     bnd (iotjs_pwm_get_instance E) (\<lambda>pwm.
     bnd (iotjs_pwm_reqwrap_from_request work_req) (\<lambda>req_wrap.
     bnd (iotjs_pwm_reqwrap_data req_wrap) (\<lambda>req_data.
     bnd (ret (if status \<noteq> 0 then kPwmErrSys else pw_result req_data)) (\<lambda>result.
     bnd (iotjs_jargs_create 1) (\<lambda>jargs.
     bnd (iotjs_jargs_append_number jargs (num (pwm_error_code result))) (\<lambda>jargs.
     bnd (iotjs_pwm_reqwrap_jcallback req_wrap) (\<lambda>jcallback.
     bnd iotjs_pwm_get_jpwm (\<lambda>jpwm.
     sq (iotjs_make_callback E jcallback jpwm jargs)
    (sq (iotjs_jargs_destroy jargs)
    (iotjs_pwm_reqwrap_dispatched req_wrap))))))))))"

section \<open>Handlers\<close>

definition Export :: "call engine \<Rightarrow> 'z pwm_prog" where
  "Export E =
     JHANDLER_CHECK_ARGS E ''___Export_native'' [is_number, is_object, is_function]
    (bnd (JHANDLER_GET_ARG 2 iotjs_jval_as_function) (\<lambda>jcallback.
     bnd (iotjs_pwm_reqwrap_create jcallback kPwmOpExport) (\<lambda>req_wrap.
     sq (iotjs_pwm_set_pwmdata E req_wrap)
    (sq (PWM_ASYNC E kPwmOpExport req_wrap)
     iotjs_jhandler_return_null))))"

definition SetPeriod :: "call engine \<Rightarrow> 'z pwm_prog" where
  "SetPeriod E =
     JHANDLER_CHECK_ARGS E ''___SetPeriod_native'' [is_number, is_object, is_function]
    (bnd (JHANDLER_GET_ARG 2 iotjs_jval_as_function) (\<lambda>jcallback.
     bnd (iotjs_pwm_reqwrap_create jcallback kPwmOpSetPeriod) (\<lambda>req_wrap.
     sq (iotjs_pwm_set_pwmdata E req_wrap)
    (sq (PWM_ASYNC E kPwmOpSetPeriod req_wrap)
     iotjs_jhandler_return_null))))"

definition SetFrequency :: "call engine \<Rightarrow> 'z pwm_prog" where
  "SetFrequency E =
     JHANDLER_CHECK_ARGS E ''___SetFrequency_native'' [is_number, is_object, is_function]
    (bnd (JHANDLER_GET_ARG 2 iotjs_jval_as_function) (\<lambda>jcallback.
     bnd (iotjs_pwm_reqwrap_create jcallback kPwmOpSetFrequency) (\<lambda>req_wrap.
     sq (iotjs_pwm_set_pwmdata E req_wrap)
    (sq (PWM_ASYNC E kPwmOpSetFrequency req_wrap)
     iotjs_jhandler_return_null))))"

definition SetDutyCycle :: "call engine \<Rightarrow> 'z pwm_prog" where
  "SetDutyCycle E =
     JHANDLER_CHECK_ARGS E ''___SetDutyCycle_native'' [is_number, is_object, is_function]
    (bnd (JHANDLER_GET_ARG 2 iotjs_jval_as_function) (\<lambda>jcallback.
     bnd (iotjs_pwm_reqwrap_create jcallback kPwmOpSetDutyCycle) (\<lambda>req_wrap.
     sq (iotjs_pwm_set_pwmdata E req_wrap)
    (sq (PWM_ASYNC E kPwmOpSetDutyCycle req_wrap)
     iotjs_jhandler_return_null))))"

definition SetEnable :: "call engine \<Rightarrow> 'z pwm_prog" where
  "SetEnable E =
     JHANDLER_CHECK_ARGS E ''___SetEnable_native'' [is_number, is_boolean, is_function]
    (bnd (JHANDLER_GET_ARG 2 iotjs_jval_as_function) (\<lambda>jcallback.
     bnd (iotjs_pwm_reqwrap_create jcallback kPwmOpSetEnable) (\<lambda>req_wrap.
     bnd (JHANDLER_GET_INT 0) (\<lambda>pin.
     sq (upd_work_data req_wrap (\<lambda>d. d\<lparr>pw_pin := pin\<rparr>))
    (bnd (JHANDLER_GET_ARG 1 iotjs_jval_as_boolean) (\<lambda>enable.
     sq (upd_work_data req_wrap (\<lambda>d. d\<lparr>pw_enable := enable\<rparr>))
    (sq (PWM_ASYNC E kPwmOpSetEnable req_wrap)
     iotjs_jhandler_return_null)))))))"

definition Unexport :: "call engine \<Rightarrow> 'z pwm_prog" where
  "Unexport E =
     JHANDLER_CHECK_ARGS E ''___Unexport_native'' [is_number, is_function]
    (bnd (JHANDLER_GET_ARG 1 iotjs_jval_as_function) (\<lambda>jcallback.
     bnd (iotjs_pwm_reqwrap_create jcallback kPwmOpUnexport) (\<lambda>req_wrap.
     bnd (JHANDLER_GET_INT 0) (\<lambda>pin.
     sq (upd_work_data req_wrap (\<lambda>d. d\<lparr>pw_pin := pin\<rparr>))
    (sq (PWM_ASYNC E kPwmOpUnexport req_wrap)
     iotjs_jhandler_return_null)))))"

definition InitPwm :: "'c engine \<Rightarrow> (('c, 'd, 'o, 'z) wkt_scheme, jval) prog" where
  "InitPwm E =
     bnd (iotjs_jval_create_object E) (\<lambda>jpwm.
     sq (set_methods E jpwm [''export'', ''setPeriod'', ''setFrequency'', ''setDutyCycle'', ''setEnable'', ''unexport''])
    (sq (set_numbers E jpwm
           [(''kPwmErrOk'', pwm_error_code kPwmErrOk), (''kPwmErrExport'', pwm_error_code kPwmErrExport),
            (''kPwmErrUnexport'', pwm_error_code kPwmErrUnexport), (''kPwmErrEnable'', pwm_error_code kPwmErrEnable),
            (''kPwmErrWrite'', pwm_error_code kPwmErrWrite), (''kPwmErrSys'', pwm_error_code kPwmErrSys)])
    (bnd (iotjs_pwm_create jpwm) (\<lambda>pwm.
     bnd (iotjs_jval_get_object_native_handle E jpwm) (\<lambda>n.
     sq (IOTJS_ASSERT ''InitPwm'' (pwm = n)) (ret jpwm))))))"

section \<open>Workers\<close>

definition PWM_INTERFACE :: string where
  "PWM_INTERFACE = ''/sys/class/pwm/pwmchip0/''"

definition pwm_pin_path :: "int \<Rightarrow> string" where
  "pwm_pin_path pin = snprintf_text 63 (PWM_INTERFACE @ ''pwm'' @ decimal pin @ ''/'')"

text \<open>\<^verbatim>\<open>strcat\<close> onto the array of the path.\<close>

definition pwm_file :: "int \<Rightarrow> string \<Rightarrow> ('s, string) prog" where
  "pwm_file pin file =
     (let path = pwm_pin_path pin @ file in if 64 \<le> length path then fail (OutOfBounds ''path'') else ret path)"

definition SetPwmPeriod :: "call engine \<Rightarrow> iotjs_pwm_reqdata_t \<Rightarrow> ((call, 'z) ert_scheme, bool) prog" where
  "SetPwmPeriod E req_data =
     bnd (pwm_file (pw_pin req_data) ''period'') (\<lambda>path.
     bnd (DeviceOpenWriteClose E path (snprintf_text 31 (decimal (pw_period req_data)))) (\<lambda>b.
     if \<not> b then ret False else ret True))"

text \<open>
  The product is computed in \<^verbatim>\<open>int\<close> and must not overflow; it is then taken times 0.01 in floating point
  and converted to an unsigned number. The rounding of that product does not reach the integer part of
  a 32-bit number, so the quotient is written exactly.
\<close>

definition SetPwmDutyCycle :: "call engine \<Rightarrow> iotjs_pwm_reqdata_t \<Rightarrow> ((call, 'z) ert_scheme, bool) prog" where
  "SetPwmDutyCycle E req_data =
     bnd (pwm_file (pw_pin req_data) ''duty_cycle'') (\<lambda>path.
     if \<not> in_int32 (pw_duty_cycle req_data * pw_period req_data) then fail (Undefined ''int overflow'')
     else bnd (to_unsigned (Finite (of_int (pw_duty_cycle req_data * pw_period req_data) / 100))) (\<lambda>duty_cycle.
          bnd (DeviceOpenWriteClose E path (snprintf_text 31 (decimal (c_int32 duty_cycle)))) (\<lambda>b.
          if \<not> b then ret False else ret True)))"

definition PWM_WORKER_INIT_TEMPLATE ::
  "nat \<Rightarrow> (nat \<Rightarrow> iotjs_pwm_reqdata_t \<Rightarrow> 'z pwm_prog) \<Rightarrow> 'z pwm_prog" where
  "PWM_WORKER_INIT_TEMPLATE work_req body =
     bnd (iotjs_pwm_reqwrap_from_request work_req) (\<lambda>req_wrap.
     bnd (iotjs_pwm_reqwrap_data req_wrap) (\<lambda>req_data. body req_wrap req_data))"

definition pwm_set_result :: "nat \<Rightarrow> PwmError \<Rightarrow> 'z pwm_prog" where
  "pwm_set_result p r = upd_work_data p (\<lambda>d. d\<lparr>pw_result := r\<rparr>)"

definition pwm_options :: "call engine \<Rightarrow> nat \<Rightarrow> iotjs_pwm_reqdata_t \<Rightarrow> 'z pwm_prog" where
  "pwm_options E p req_data =
     bnd (if 0 \<le> pw_period req_data then SetPwmPeriod E req_data else ret True) (\<lambda>b.
     if \<not> b then pwm_set_result p kPwmErrWrite
     else bnd (if 0 \<le> pw_duty_cycle req_data then SetPwmDutyCycle E req_data else ret True) (\<lambda>b.
          if \<not> b then pwm_set_result p kPwmErrWrite
          else pwm_set_result p kPwmErrOk))"

definition ExportWorker :: "call engine \<Rightarrow> fs_lib \<Rightarrow> nat \<Rightarrow> 'z pwm_prog" where
  "ExportWorker E L work_req =
     PWM_WORKER_INIT_TEMPLATE work_req (\<lambda>p req_data.
     bnd (DeviceCheckPath E (pwm_pin_path (pw_pin req_data))) (\<lambda>b.
     bnd (if b then ret True
          else DeviceExport E L (snprintf_text 63 (PWM_INTERFACE @ ''export'')) (pw_pin req_data)
                 (pwm_pin_path (pw_pin req_data)) [''duty_cycle'', ''period'', ''enable'']) (\<lambda>b.
     if \<not> b then pwm_set_result p kPwmErrExport else pwm_options E p req_data)))"

definition SetPeriodWorker :: "call engine \<Rightarrow> nat \<Rightarrow> 'z pwm_prog" where
  "SetPeriodWorker E work_req =
     PWM_WORKER_INIT_TEMPLATE work_req (\<lambda>p req_data.
     bnd (SetPwmPeriod E req_data) (\<lambda>b.
     if \<not> b then pwm_set_result p kPwmErrWrite else pwm_set_result p kPwmErrOk))"

definition SetFrequencyWorker :: "nat \<Rightarrow> 'z pwm_prog" where
  "SetFrequencyWorker work_req = IOTJS_ASSERT ''Not implemented'' False"

definition SetDutyCycleWorker :: "call engine \<Rightarrow> nat \<Rightarrow> 'z pwm_prog" where
  "SetDutyCycleWorker E work_req =
     PWM_WORKER_INIT_TEMPLATE work_req (\<lambda>p req_data.
     bnd (SetPwmDutyCycle E req_data) (\<lambda>b.
     if \<not> b then pwm_set_result p kPwmErrWrite else pwm_set_result p kPwmErrOk))"

definition SetEnableWorker :: "call engine \<Rightarrow> nat \<Rightarrow> 'z pwm_prog" where
  "SetEnableWorker E work_req =
     PWM_WORKER_INIT_TEMPLATE work_req (\<lambda>p req_data.
     bnd (pwm_file (pw_pin req_data) ''enable'') (\<lambda>path.
     bnd (DeviceOpenWriteClose E path (snprintf_text 1 (decimal (if pw_enable req_data then 1 else 0)))) (\<lambda>b.
     if \<not> b then pwm_set_result p kPwmErrWrite else pwm_set_result p kPwmErrOk)))"

definition UnexportWorker :: "call engine \<Rightarrow> nat \<Rightarrow> 'z pwm_prog" where
  "UnexportWorker E work_req =
     PWM_WORKER_INIT_TEMPLATE work_req (\<lambda>p req_data.
     bnd (DeviceCheckPath E (pwm_pin_path (pw_pin req_data))) (\<lambda>b.
     bnd (if b then DeviceUnexport E (snprintf_text 63 (PWM_INTERFACE @ ''unexport'')) (pw_pin req_data) else ret True) (\<lambda>_.
     pwm_set_result p kPwmErrOk)))"

fun pwm_worker :: "call engine \<Rightarrow> fs_lib \<Rightarrow> PwmOp \<Rightarrow> nat \<Rightarrow> 'z pwm_prog" where
  "pwm_worker E L kPwmOpExport = ExportWorker E L"
| "pwm_worker E L kPwmOpSetDutyCycle = SetDutyCycleWorker E"
| "pwm_worker E L kPwmOpSetPeriod = SetPeriodWorker E"
| "pwm_worker E L kPwmOpSetFrequency = SetFrequencyWorker"
| "pwm_worker E L kPwmOpSetEnable = SetEnableWorker E"
| "pwm_worker E L kPwmOpUnexport = UnexportWorker E"

fun pwm_body :: "call engine \<Rightarrow> PwmOp \<Rightarrow> 'z pwm_prog" where
  "pwm_body E kPwmOpExport = Export E"
| "pwm_body E kPwmOpSetDutyCycle = SetDutyCycle E"
| "pwm_body E kPwmOpSetPeriod = SetPeriod E"
| "pwm_body E kPwmOpSetFrequency = SetFrequency E"
| "pwm_body E kPwmOpSetEnable = SetEnable E"
| "pwm_body E kPwmOpUnexport = Unexport E"

end
