(* ===== verification/Iot_Pwm_Session.thy ===== *)
theory Iot_Pwm_Session
  imports Iot_Pwm
begin

text \<open>
  Sessions of the pulse width module: its handlers, workers and completion satisfy the contract
  \<open>work_module\<close>, so every run of its events is safe; what the workers write.
\<close>

section \<open>Handlers\<close>

text \<open>The number that an option of a script has; an option that is no number counts as 0.\<close>

definition pwm_option :: "call engine \<Rightarrow> jval \<Rightarrow> string \<Rightarrow> int \<Rightarrow> bool" where
  "pwm_option E j name n \<longleftrightarrow>
     (\<forall>tr. case e_prop E tr j name of (err, v) \<Rightarrow> if err \<or> \<not> is_number v then n = 0 else v = JNumber (num n))"

definition duty_ok :: "int \<Rightarrow> bool" where
  "duty_ok product \<longleftrightarrow> in_int32 product \<and> - 100 < product"

text \<open>Whether the worker computes the product; an export with a negative duty cycle does not.\<close>

definition pwm_computes :: "PwmOp \<Rightarrow> int \<Rightarrow> bool" where
  "pwm_computes op duty \<longleftrightarrow> op = kPwmOpSetDutyCycle \<or> (op = kPwmOpExport \<and> 0 \<le> duty)"

definition pwm_ok :: "PwmOp \<Rightarrow> iotjs_pwm_reqdata_t \<Rightarrow> bool" where
  "pwm_ok op d \<longleftrightarrow> in_int32 (pw_pin d) \<and> op \<noteq> kPwmOpSetFrequency \<and>
     (pwm_computes op (pw_duty_cycle d) \<longrightarrow> duty_ok (pw_duty_cycle d * pw_period d))"

fun pwm_args :: "call engine \<Rightarrow> PwmOp \<Rightarrow> jval list \<Rightarrow> bool" where
  "pwm_args E kPwmOpSetFrequency args \<longleftrightarrow> False"
| "pwm_args E kPwmOpSetEnable args \<longleftrightarrow> (\<exists>pin b cb. args = [JNumber (num pin), JBool b, cb] \<and> in_int32 pin \<and> is_function cb)"
| "pwm_args E kPwmOpUnexport args \<longleftrightarrow> (\<exists>pin cb. args = [JNumber (num pin), cb] \<and> in_int32 pin \<and> is_function cb)"
| "pwm_args E op args \<longleftrightarrow> (\<exists>pin j cb period duty. args = [JNumber (num pin), j, cb] \<and> in_int32 pin \<and> is_object j \<and> is_function cb \<and>
     pwm_option E j ''period'' period \<and> pwm_option E j ''dutyCycle'' duty \<and> in_int32 period \<and> in_int32 duty \<and>
     (pwm_computes op duty \<longrightarrow> duty_ok (duty * period)))"

abbreviation pwm_fresh :: "PwmOp \<Rightarrow> iotjs_pwm_reqdata_t" where
  "pwm_fresh op \<equiv> \<lparr>pw_pin = 0, pw_duty_cycle = 0, pw_period = 0, pw_enable = False, pw_result = kPwmErrOk, pw_op = op\<rparr>"

lemma pwm_option_cases:
  assumes "pwm_option E j name n"
  obtains v where "e_prop E tr j name = (True, v)" "n = 0"
    | v where "e_prop E tr j name = (False, v)" "\<not> is_number v" "n = 0"
    | "e_prop E tr j name = (False, JNumber (num n))"
proof -
  obtain err v where e: "e_prop E tr j name = (err, v)" by (cases "e_prop E tr j name")
  have "if err \<or> \<not> is_number v then n = 0 else v = JNumber (num n)"
    using assms[unfolded pwm_option_def, rule_format, of tr] unfolding e by simp
  then show ?thesis using that e by (cases err; cases "is_number v") simp_all
qed

text \<open>Reading an option: the reference that is taken, and the field that is set.\<close>

lemma read_option_wp:
  fixes t :: "(call, iotjs_pwm_reqdata_t, PwmOp, 'z) wkt_scheme"
  assumes o: "pwm_option E j name n" "is_object j" "in_int32 n" and d: "work_data t p = Some d" "f 0 d = d"
    and rest: "\<And>v es. (\<forall>w. owned es w = ref1 v w) \<Longrightarrow> natives es = [] \<Longrightarrow>
      wp (rest v) Q (t\<lparr>trace := trace t @ es, work_data := (work_data t)(p \<mapsto> f n d)\<rparr>)"
  shows "wp (bnd (iotjs_jval_get_property E j name) (\<lambda>v.
     sq (if is_number v then bnd (iotjs_jval_as_number v) (\<lambda>x. bnd (to_int x) (\<lambda>n. upd_work_data p (f n))) else ret ())
     (rest v))) Q t"
proof -
  have same: "t\<lparr>trace := trace t @ es, work_data := (work_data t)(p \<mapsto> d)\<rparr> = t\<lparr>trace := trace t @ es\<rparr>" for es
    using d(1) by (cases t) (simp add: fun_upd_idem)
  show ?thesis
  proof (cases rule: pwm_option_cases[OF o(1), of "trace t @ [ECreate (JString name)]"])
    case (1 v)
    then show ?thesis
      using o(2) d rest[where es = "[ECreate (JString name), EGetProp j name v, ERelease (JString name), ERelease v, EAcquire JUndefined]" and v = JUndefined]
      by (simp add: wp_simps same)
  next
    case (2 v)
    then show ?thesis
      using o(2) d rest[where es = "[ECreate (JString name), EGetProp j name v, ERelease (JString name)]" and v = v]
      by (simp add: wp_simps same)
  next
    case 3
    then show ?thesis
      using o(2,3) d rest[where es = "[ECreate (JString name), EGetProp j name (JNumber (num n)), ERelease (JString name)]" and v = "JNumber (num n)"]
      by (simp add: wp_simps num_def in_int32_def)
  qed
qed

lemma set_pwmdata_wp:
  fixes t :: "(call, iotjs_pwm_reqdata_t, PwmOp, 'z) wkt_scheme"
  assumes a: "h_argv t = [JNumber (num pin), j, cb]" "in_int32 pin" "is_object j"
    and o: "pwm_option E j ''period'' period" "in_int32 period" "pwm_option E j ''dutyCycle'' duty" "in_int32 duty"
    and d: "work_data t p = Some (pwm_fresh op)"
  shows "wp (iotjs_pwm_set_pwmdata E p) (\<lambda>_ u. \<exists>tr. u = t\<lparr>trace := trace t @ tr,
      work_data := (work_data t)(p \<mapsto> (pwm_fresh op)\<lparr>pw_pin := pin, pw_period := period, pw_duty_cycle := duty\<rparr>)\<rparr> \<and>
      (\<forall>v. owned tr v = 0) \<and> natives tr = []) t"
proof -
  let ?d = "(pwm_fresh op)\<lparr>pw_pin := pin\<rparr>"
  let ?t = "t\<lparr>work_data := (work_data t)(p \<mapsto> ?d)\<rparr>"
  let ?Q = "\<lambda>_ u. \<exists>tr. u = t\<lparr>trace := trace t @ tr,
      work_data := (work_data t)(p \<mapsto> ?d\<lparr>pw_period := period, pw_duty_cycle := duty\<rparr>)\<rparr> \<and> (\<forall>v. owned tr v = 0) \<and> natives tr = []"
  have "wp (bnd (iotjs_jval_get_property E j ''period'') (\<lambda>jperiod.
     sq (if is_number jperiod
         then bnd (iotjs_jval_as_number jperiod) (\<lambda>x. bnd (to_int x) (\<lambda>n. upd_work_data p (\<lambda>d. d\<lparr>pw_period := n\<rparr>)))
         else ret ())
    (bnd (iotjs_jval_get_property E j ''dutyCycle'') (\<lambda>jduty_cycle.
     sq (if is_number jduty_cycle
         then bnd (iotjs_jval_as_number jduty_cycle) (\<lambda>x. bnd (to_int x) (\<lambda>n. upd_work_data p (\<lambda>d. d\<lparr>pw_duty_cycle := n\<rparr>)))
         else ret ())
    (sq (iotjs_jval_destroy jperiod)
    (iotjs_jval_destroy jduty_cycle)))))) ?Q ?t"
  proof (rule read_option_wp[where f = "\<lambda>n d. d\<lparr>pw_period := n\<rparr>", OF o(1) a(3) o(2)])
    show "work_data ?t p = Some ?d" "?d\<lparr>pw_period := 0\<rparr> = ?d" by simp_all
  next
    fix v and es :: "call ev list"
    assume v: "\<forall>w. owned es w = ref1 v w" "natives es = []"
    let ?u = "?t\<lparr>trace := trace ?t @ es, work_data := (work_data ?t)(p \<mapsto> ?d\<lparr>pw_period := period\<rparr>)\<rparr>"
    show "wp (bnd (iotjs_jval_get_property E j ''dutyCycle'') (\<lambda>jduty_cycle.
     sq (if is_number jduty_cycle
         then bnd (iotjs_jval_as_number jduty_cycle) (\<lambda>x. bnd (to_int x) (\<lambda>n. upd_work_data p (\<lambda>d. d\<lparr>pw_duty_cycle := n\<rparr>)))
         else ret ())
    (sq (iotjs_jval_destroy v)
    (iotjs_jval_destroy jduty_cycle)))) ?Q ?u"
    proof (rule read_option_wp[where f = "\<lambda>n d. d\<lparr>pw_duty_cycle := n\<rparr>", OF o(3) a(3) o(4)])
      show "work_data ?u p = Some (?d\<lparr>pw_period := period\<rparr>)" "?d\<lparr>pw_period := period, pw_duty_cycle := 0\<rparr> = ?d\<lparr>pw_period := period\<rparr>"
        by simp_all
    next
      fix x and fs :: "call ev list"
      assume x: "\<forall>w. owned fs w = ref1 x w" "natives fs = []"
      have "\<forall>w. owned (es @ fs @ [ERelease v, ERelease x]) w = 0" "natives (es @ fs @ [ERelease v, ERelease x]) = []"
        using v x by simp_all
      then show "wp (sq (iotjs_jval_destroy v) (iotjs_jval_destroy x)) ?Q
        (?u\<lparr>trace := trace ?u @ fs, work_data := (work_data ?u)(p \<mapsto> ?d\<lparr>pw_period := period, pw_duty_cycle := duty\<rparr>)\<rparr>)"
        by (simp add: wp_simps) (rule exI[of _ "es @ fs @ [ERelease v, ERelease x]"], simp)
    qed
  qed
  then show ?thesis
    using a d by (simp add: iotjs_pwm_set_pwmdata_def wp_bnd[of "JHANDLER_GET_INT _"] wp_bnd[of "JHANDLER_GET_ARG _ _"]
      wp_sq[of "upd_work_data _ _"] wp_GET_INT_at wp_work_data wp_JHANDLER_GET_ARG wp_jval_as)
qed

text \<open>What each handler leaves in the queue.\<close>

lemma pwm_request_wp:
  fixes e :: "(call, iotjs_pwm_reqdata_t, PwmOp, 'z) wkt_scheme"
  assumes "work_ready e" "is_function cb" "h_argv e = [JNumber (num pin), j, cb]" "in_int32 pin" "is_object j"
    and "pwm_option E j ''period'' period" "in_int32 period" "pwm_option E j ''dutyCycle'' duty" "in_int32 duty"
  shows "wp (bnd (iotjs_pwm_reqwrap_create cb op) (\<lambda>req_wrap. sq (iotjs_pwm_set_pwmdata E req_wrap)
      (sq (PWM_ASYNC E op req_wrap) iotjs_jhandler_return_null)))
    (\<lambda>_. work_queued pwm_worker_name op ((pwm_fresh op)\<lparr>pw_pin := pin, pw_period := period, pw_duty_cycle := duty\<rparr>) cb e) e"
  unfolding iotjs_pwm_reqwrap_create_def PWM_ASYNC_def iotjs_pwm_reqwrap_req_def
  by (rule work_submit_set[OF assms(1,2)], rule set_pwmdata_wp) (use assms in simp_all)

lemma pwm_options_wp:
  assumes "net_inv E s" "env_initialized s" "is_function cb" "in_int32 pin" "is_object j"
    and "pwm_option E j ''period'' period" "in_int32 period" "pwm_option E j ''dutyCycle'' duty" "in_int32 duty"
    and "op \<in> {kPwmOpExport, kPwmOpSetPeriod, kPwmOpSetFrequency, kPwmOpSetDutyCycle}"
  shows "wp (pwm_body E op) (\<lambda>_. work_queued pwm_worker_name op
      ((pwm_fresh op)\<lparr>pw_pin := pin, pw_period := period, pw_duty_cycle := duty\<rparr>) cb (handler_entry t [JNumber (num pin), j, cb] s))
    (handler_entry t [JNumber (num pin), j, cb] s)"
proof -
  let ?e = "handler_entry t [JNumber (num pin), j, cb] s"
  have e: "work_ready ?e" by (rule work_entered[OF assms(1,2)])
  have "wp (bnd (iotjs_pwm_reqwrap_create cb op) (\<lambda>req_wrap. sq (iotjs_pwm_set_pwmdata E req_wrap)
      (sq (PWM_ASYNC E op req_wrap) iotjs_jhandler_return_null)))
    (\<lambda>_. work_queued pwm_worker_name op ((pwm_fresh op)\<lparr>pw_pin := pin, pw_period := period, pw_duty_cycle := duty\<rparr>) cb ?e) ?e"
    by (rule pwm_request_wp[OF e assms(3) _ assms(4-9)]) simp
  then have "wp (JHANDLER_CHECK_ARGS E loc [is_number, is_object, is_function]
      (bnd (JHANDLER_GET_ARG 2 iotjs_jval_as_function) (\<lambda>jcallback.
       bnd (iotjs_pwm_reqwrap_create jcallback op) (\<lambda>req_wrap. sq (iotjs_pwm_set_pwmdata E req_wrap)
      (sq (PWM_ASYNC E op req_wrap) iotjs_jhandler_return_null)))))
    (\<lambda>_. work_queued pwm_worker_name op ((pwm_fresh op)\<lparr>pw_pin := pin, pw_period := period, pw_duty_cycle := duty\<rparr>) cb ?e) ?e" for loc
    unfolding wp_check_args using assms(3,5)
    by (simp add: wp_bnd[of "JHANDLER_GET_ARG _ _"] wp_JHANDLER_GET_ARG wp_jval_as)
  then show ?thesis
    using assms(10) by (auto simp: Export_def SetPeriod_def SetFrequency_def SetDutyCycle_def)
qed

lemma SetEnable_wp:
  assumes "net_inv E s" "env_initialized s" "is_function cb" "in_int32 pin"
  shows "wp (SetEnable E) (\<lambda>_. work_queued pwm_worker_name kPwmOpSetEnable
      ((pwm_fresh kPwmOpSetEnable)\<lparr>pw_pin := pin, pw_enable := b\<rparr>) cb (handler_entry t [JNumber (num pin), JBool b, cb] s))
    (handler_entry t [JNumber (num pin), JBool b, cb] s)"
proof -
  let ?e = "handler_entry t [JNumber (num pin), JBool b, cb] s"
  have e: "work_ready ?e" by (rule work_entered[OF assms(1,2)])
  have "wp (bnd (iotjs_pwm_reqwrap_create cb kPwmOpSetEnable) (\<lambda>req_wrap. sq (bnd (JHANDLER_GET_INT 0) (\<lambda>pin.
     sq (upd_work_data req_wrap (\<lambda>d. d\<lparr>pw_pin := pin\<rparr>))
    (bnd (JHANDLER_GET_ARG 1 iotjs_jval_as_boolean) (\<lambda>enable. upd_work_data req_wrap (\<lambda>d. d\<lparr>pw_enable := enable\<rparr>)))))
      (sq (PWM_ASYNC E kPwmOpSetEnable req_wrap) iotjs_jhandler_return_null)))
    (\<lambda>_. work_queued pwm_worker_name kPwmOpSetEnable ((pwm_fresh kPwmOpSetEnable)\<lparr>pw_pin := pin, pw_enable := b\<rparr>) cb ?e) ?e"
    unfolding iotjs_pwm_reqwrap_create_def PWM_ASYNC_def iotjs_pwm_reqwrap_req_def
  proof (rule work_submit_set[OF e assms(3)])
    fix p and t :: "(call, iotjs_pwm_reqdata_t, PwmOp, 'b) wkt_scheme"
    assume t: "h_argv t = h_argv ?e" "work_data t p = Some (pwm_fresh kPwmOpSetEnable)"
    let ?d = "(pwm_fresh kPwmOpSetEnable)\<lparr>pw_pin := pin, pw_enable := b\<rparr>"
    show "wp (bnd (JHANDLER_GET_INT 0) (\<lambda>pin. sq (upd_work_data p (\<lambda>d. d\<lparr>pw_pin := pin\<rparr>))
        (bnd (JHANDLER_GET_ARG 1 iotjs_jval_as_boolean) (\<lambda>enable. upd_work_data p (\<lambda>d. d\<lparr>pw_enable := enable\<rparr>)))))
      (\<lambda>_ u. \<exists>tr. u = t\<lparr>trace := trace t @ tr, work_data := (work_data t)(p \<mapsto> ?d)\<rparr> \<and> (\<forall>v. owned tr v = 0) \<and> natives tr = []) t"
      using t assms(4)
      by (simp add: wp_bnd wp_sq wp_GET_INT_at wp_work_data wp_JHANDLER_GET_ARG wp_jval_as) (rule exI[of _ "[]"], cases t, simp)
  qed
  then show ?thesis
    unfolding SetEnable_def wp_check_args wp_bnd wp_sq using assms(3)
    by (simp add: wp_JHANDLER_GET_ARG wp_jval_as)
qed

lemma Unexport_wp:
  assumes "net_inv E s" "env_initialized s" "is_function cb" "in_int32 pin"
  shows "wp (Unexport E) (\<lambda>_. work_queued pwm_worker_name kPwmOpUnexport ((pwm_fresh kPwmOpUnexport)\<lparr>pw_pin := pin\<rparr>) cb
      (handler_entry t [JNumber (num pin), cb] s)) (handler_entry t [JNumber (num pin), cb] s)"
proof -
  let ?e = "handler_entry t [JNumber (num pin), cb] s"
  have e: "work_ready ?e" by (rule work_entered[OF assms(1,2)])
  have "wp (bnd (iotjs_pwm_reqwrap_create cb kPwmOpUnexport) (\<lambda>req_wrap.
      sq (bnd (JHANDLER_GET_INT 0) (\<lambda>pin. upd_work_data req_wrap (\<lambda>d. d\<lparr>pw_pin := pin\<rparr>)))
      (sq (PWM_ASYNC E kPwmOpUnexport req_wrap) iotjs_jhandler_return_null)))
    (\<lambda>_. work_queued pwm_worker_name kPwmOpUnexport ((pwm_fresh kPwmOpUnexport)\<lparr>pw_pin := pin\<rparr>) cb ?e) ?e"
    unfolding iotjs_pwm_reqwrap_create_def PWM_ASYNC_def iotjs_pwm_reqwrap_req_def
  proof (rule work_submit_set[OF e assms(3)])
    fix p and t :: "(call, iotjs_pwm_reqdata_t, PwmOp, 'b) wkt_scheme"
    assume t: "h_argv t = h_argv ?e" "work_data t p = Some (pwm_fresh kPwmOpUnexport)"
    show "wp (bnd (JHANDLER_GET_INT 0) (\<lambda>pin. upd_work_data p (\<lambda>d. d\<lparr>pw_pin := pin\<rparr>)))
      (\<lambda>_ u. \<exists>tr. u = t\<lparr>trace := trace t @ tr, work_data := (work_data t)(p \<mapsto> (pwm_fresh kPwmOpUnexport)\<lparr>pw_pin := pin\<rparr>)\<rparr> \<and>
        (\<forall>v. owned tr v = 0) \<and> natives tr = []) t"
      using t assms(4)
      by (simp add: wp_bnd wp_GET_INT_at wp_work_data) (rule exI[of _ "[]"], cases t, simp)
  qed
  then show ?thesis
    unfolding Unexport_def wp_check_args wp_bnd wp_sq using assms(3)
    by (simp add: wp_JHANDLER_GET_ARG wp_jval_as)
qed

lemma pwm_body_wp:
  assumes s: "net_inv E s" "env_initialized s" and args: "pwm_args E op args"
  shows "wp (pwm_body E op) (\<lambda>_. work_after pwm_worker_name (\<lambda>_. pwm_ok) (\<lambda>_. 0) {0} (handler_entry t args s)) (handler_entry t args s)"
proof -
  have after: "wp (pwm_body E op) (\<lambda>_. work_after pwm_worker_name (\<lambda>_. pwm_ok) (\<lambda>_. 0) {0} (handler_entry t args s)) (handler_entry t args s)"
    if "wp (pwm_body E op) (\<lambda>_. work_queued pwm_worker_name op d cb (handler_entry t args s)) (handler_entry t args s)" "pwm_ok op d" for d cb
    using that(1) by (rule wp_mono) (use that(2) in \<open>auto simp: work_after_def\<close>)
  consider "op = kPwmOpSetEnable" | "op = kPwmOpUnexport" | "op \<in> {kPwmOpExport, kPwmOpSetPeriod, kPwmOpSetDutyCycle}"
    using args by (cases op) simp_all
  then show ?thesis
  proof cases
    case 1
    then obtain pin b cb where a: "args = [JNumber (num pin), JBool b, cb]" "in_int32 pin" "is_function cb" using args by auto
    show ?thesis
      unfolding 1 a(1) pwm_body.simps
      by (rule after[unfolded 1 a(1) pwm_body.simps, OF SetEnable_wp[OF s a(3,2)]]) (simp add: pwm_ok_def pwm_computes_def a(2))
  next
    case 2
    then obtain pin cb where a: "args = [JNumber (num pin), cb]" "in_int32 pin" "is_function cb" using args by auto
    show ?thesis
      unfolding 2 a(1) pwm_body.simps
      by (rule after[unfolded 2 a(1) pwm_body.simps, OF Unexport_wp[OF s a(3,2)]]) (simp add: pwm_ok_def pwm_computes_def a(2))
  next
    case 3
    then obtain pin j cb period duty where a: "args = [JNumber (num pin), j, cb]" "in_int32 pin" "is_object j" "is_function cb"
      "pwm_option E j ''period'' period" "pwm_option E j ''dutyCycle'' duty" "in_int32 period" "in_int32 duty"
      "pwm_computes op duty \<longrightarrow> duty_ok (duty * period)"
      using args by auto
    have q: "op \<in> {kPwmOpExport, kPwmOpSetPeriod, kPwmOpSetFrequency, kPwmOpSetDutyCycle}" using 3 by blast
    show ?thesis
      using pwm_options_wp[OF s a(4,2,3,5,7,6,8) q, of t] unfolding a(1)[symmetric]
      by (rule after) (use 3 a(2,9) in \<open>auto simp: pwm_ok_def\<close>)
  qed
qed

section \<open>Workers\<close>

text \<open>Paths are never cut off and never run over the array.\<close>

lemma pwm_paths:
  assumes "in_int32 pin"
  shows "pwm_pin_path pin = ''/sys/class/pwm/pwmchip0/pwm'' @ decimal pin @ ''/''"
    and "length (pwm_pin_path pin) \<le> 39" "CHR ''%'' \<notin> set (pwm_pin_path pin)"
    and "length file \<le> 10 \<Longrightarrow> pwm_file pin file = ret (''/sys/class/pwm/pwmchip0/pwm'' @ decimal pin @ ''/'' @ file)"
proof -
  have l: "length (decimal pin) \<le> 11" "CHR ''%'' \<notin> set (decimal pin)" using decimal_int32[OF assms] by blast+
  show p: "pwm_pin_path pin = ''/sys/class/pwm/pwmchip0/pwm'' @ decimal pin @ ''/''"
    using l(1) by (simp add: pwm_pin_path_def PWM_INTERFACE_def snprintf_text_def)
  show "length (pwm_pin_path pin) \<le> 39" "CHR ''%'' \<notin> set (pwm_pin_path pin)"
    unfolding p using l by simp_all
  show "pwm_file pin file = ret (''/sys/class/pwm/pwmchip0/pwm'' @ decimal pin @ ''/'' @ file)" if "length file \<le> 10"
    unfolding pwm_file_def p using l(1) that by simp
qed

text \<open>A hundredth of the product, as the conversion to an integer leaves it.\<close>

lemma duty_trunc:
  assumes "- 100 < n"
  shows "c_trunc (of_int n / 100) = (if 0 \<le> n then n div 100 else 0)"
proof (cases "0 \<le> n")
  case True
  have "\<lfloor>of_int n / (of_int 100 :: rat)\<rfloor> = n div 100" by (rule floor_divide_of_int_eq)
  then show ?thesis using True by (simp add: c_trunc_def)
next
  case False
  then have "- 1 < of_int n / (100 :: rat)" "of_int n / (100 :: rat) \<le> 0" using assms by simp_all
  then have "\<lceil>of_int n / (100 :: rat)\<rceil> = 0" by (simp add: ceiling_unique)
  then show ?thesis using False by (simp add: c_trunc_def)
qed

lemma calm_ret_bool: "calm m \<Longrightarrow> calm (bnd m (\<lambda>b. if \<not> b then ret False else ret True))"
  by (intro calm_bnd calm_if calm_basic)

lemma calm_period:
  assumes "in_int32 (pw_pin d)"
  shows "calm (SetPwmPeriod E d)"
  unfolding SetPwmPeriod_def pwm_paths(4)[OF assms, of "''period''", simplified] bnd_ret_left
  by (intro calm_ret_bool calm_DeviceOpenWriteClose)

lemma calm_duty:
  assumes "in_int32 (pw_pin d)" and ok: "duty_ok (pw_duty_cycle d * pw_period d)"
  shows "calm (SetPwmDutyCycle E d :: ((call, 'z) ert_scheme, bool) prog)"
proof -
  let ?n = "pw_duty_cycle d * pw_period d"
  have "c_trunc (of_int ?n / 100) = (if 0 \<le> ?n then ?n div 100 else 0)"
    by (rule duty_trunc) (use ok in \<open>simp add: duty_ok_def\<close>)
  then have u: "(to_unsigned (Finite (of_int ?n / 100)) :: ((call, 'z) ert_scheme, int) prog) = ret (if 0 \<le> ?n then ?n div 100 else 0)"
    using ok by (auto simp: double_to_int_def duty_ok_def in_int32_def)
  have n: "(\<not> in_int32 ?n) = False" using ok by (simp add: duty_ok_def)
  show ?thesis
    unfolding SetPwmDutyCycle_def pwm_paths(4)[OF assms(1), of "''duty_cycle''", simplified] bnd_ret_left u n if_False
    by (rule calm_ret_bool, rule calm_DeviceOpenWriteClose)
qed

text \<open>A part of a worker that only makes calls.\<close>

lemma calm_then:
  assumes "calm m" "quiet s t" "env_initialized s"
    and "\<And>x u. quiet s u \<Longrightarrow> wp (f x) Q u"
  shows "wp (bnd m f) Q t"
  unfolding wp_bnd
proof (rule wp_mono)
  show "wp m (\<lambda>_. quiet t) t" using assms(1) quiet_env(1)[OF assms(2)] assms(3) by (simp add: calm_def)
qed (rule assms(4), rule quiet_trans[OF assms(2)])

lemma pwm_template:
  fixes s :: "(call, iotjs_pwm_reqdata_t, PwmOp, 'z) wkt_scheme"
  assumes "reqs s p = Some cb" "work_data s p = Some d"
  shows "wp (PWM_WORKER_INIT_TEMPLATE p body) Q s = wp (body p d) Q s"
  using assms by (simp add: PWM_WORKER_INIT_TEMPLATE_def iotjs_pwm_reqwrap_from_request_def iotjs_pwm_reqwrap_data_def
    wp_bnd wp_work_from_request wp_work_data)

lemma pwm_template_run:
  fixes s :: "(call, iotjs_pwm_reqdata_t, PwmOp, 'z) wkt_scheme"
  assumes "reqs s p = Some cb" "work_data s p = Some d"
  shows "PWM_WORKER_INIT_TEMPLATE p body s = body p d s"
  using assms by (simp add: PWM_WORKER_INIT_TEMPLATE_def iotjs_pwm_reqwrap_from_request_def iotjs_pwm_reqwrap_data_def
    work_from_request_def iotjs_reqwrap_jcallback_def get_work_data_def bnd_def gets_def ret_def)

lemma pwm_worker_wp:
  fixes s :: "(call, iotjs_pwm_reqdata_t, PwmOp, 'z) wkt_scheme"
  assumes env: "env_initialized s" and wf: "wraps_wf s" and r: "reqs s p = Some cb" and d: "work_data s p = Some d"
    and ok: "pwm_ok op d"
  shows "wp (pwm_worker E L op p) (\<lambda>_. work_step p (\<lambda>_. pwm_ok op) s) s"
proof -
  have pin: "in_int32 (pw_pin d)" using ok by (simp add: pwm_ok_def)
  have res: "wp (pwm_set_result p e) (\<lambda>_. work_step p (\<lambda>_. pwm_ok op) s) t" if "quiet s t" for e and t :: "(call, iotjs_pwm_reqdata_t, PwmOp, 'z) wkt_scheme"
    unfolding pwm_set_result_def by (rule work_step_upd[OF that wf d]) (use ok in \<open>simp add: pwm_ok_def\<close>)
  note calm = calm_period[OF pin] calm_if calm_basic calm_DeviceCheckPath calm_DeviceUnexport calm_DeviceOpenWriteClose
  note len = order_trans[OF pwm_paths(2)[OF pin], of 61]
  consider "op = kPwmOpExport" | "op = kPwmOpSetDutyCycle" | "op = kPwmOpSetPeriod" | "op = kPwmOpSetEnable" | "op = kPwmOpUnexport"
    using ok by (cases op) (simp_all add: pwm_ok_def)
  then show ?thesis
  proof cases
    case 1
    then have duty: "calm (if 0 \<le> pw_duty_cycle d then SetPwmDutyCycle E d
        else ret True :: ((call, iotjs_pwm_reqdata_t, PwmOp, 'z) wkt_scheme, bool) prog)"
      using ok calm_duty[OF pin] by (auto simp: pwm_ok_def pwm_computes_def)
    have options: "wp (pwm_options E p d) (\<lambda>_. work_step p (\<lambda>_. pwm_ok op) s) t" if "quiet s t" for t :: "(call, iotjs_pwm_reqdata_t, PwmOp, 'z) wkt_scheme"
      unfolding pwm_options_def
    proof (intro calm_then[OF _ that env] calm_if calm)
      fix b and u :: "(call, iotjs_pwm_reqdata_t, PwmOp, 'z) wkt_scheme"
      assume u: "quiet s u"
      have "wp (bnd (if 0 \<le> pw_duty_cycle d then SetPwmDutyCycle E d else ret True)
          (\<lambda>b. if \<not> b then pwm_set_result p kPwmErrWrite else pwm_set_result p kPwmErrOk)) (\<lambda>_. work_step p (\<lambda>_. pwm_ok op) s) u"
        by (rule calm_then[OF duty u env]) (simp add: res)
      then show "wp (if \<not> b then pwm_set_result p kPwmErrWrite
        else bnd (if 0 \<le> pw_duty_cycle d then SetPwmDutyCycle E d else ret True)
          (\<lambda>b. if \<not> b then pwm_set_result p kPwmErrWrite else pwm_set_result p kPwmErrOk)) (\<lambda>_. work_step p (\<lambda>_. pwm_ok op) s) u"
        using res[OF u] by (cases b) (simp_all only: not_True_eq_False not_False_eq_True if_True if_False)
    qed
    show ?thesis
      unfolding 1 pwm_worker.simps ExportWorker_def pwm_template[OF r d]
      by (intro calm_then[OF _ quiet_refl env] calm_then[OF _ _ env] calm calm_DeviceExport len pwm_paths(3)[OF pin])
        (auto intro!: res[unfolded 1] options[unfolded 1])
  next
    case 2
    then have duty: "calm (SetPwmDutyCycle E d :: ((call, iotjs_pwm_reqdata_t, PwmOp, 'z) wkt_scheme, bool) prog)"
      using ok calm_duty[OF pin] by (simp add: pwm_ok_def pwm_computes_def)
    show ?thesis
      unfolding 2 pwm_worker.simps SetDutyCycleWorker_def pwm_template[OF r d]
      by (rule calm_then[OF duty quiet_refl env]) (auto intro!: res[unfolded 2])
  next
    case 3
    show ?thesis
      unfolding 3 pwm_worker.simps SetPeriodWorker_def pwm_template[OF r d]
      by (rule calm_then[OF calm_period[OF pin] quiet_refl env]) (auto intro!: res[unfolded 3])
  next
    case 4
    have "pwm_file (pw_pin d) ''enable'' = (ret (''/sys/class/pwm/pwmchip0/pwm'' @ decimal (pw_pin d) @ ''/'' @ ''enable'')
        :: ((call, iotjs_pwm_reqdata_t, PwmOp, 'z) wkt_scheme, string) prog)" by (rule pwm_paths(4)[OF pin]) simp
    then show ?thesis
      unfolding 4 pwm_worker.simps SetEnableWorker_def pwm_template[OF r d]
      by (simp only: bnd_ret_left) (rule calm_then[OF calm_DeviceOpenWriteClose quiet_refl env], auto intro!: res[unfolded 4])
  next
    case 5
    show ?thesis
      unfolding 5 pwm_worker.simps UnexportWorker_def pwm_template[OF r d]
      by (intro calm_then[OF _ quiet_refl env] calm_then[OF _ _ env] calm) (auto intro!: res[unfolded 5])
  qed
qed

section \<open>Completion\<close>

lemma AfterPwmWork_wp:
  fixes s :: "(call, iotjs_pwm_reqdata_t, PwmOp, 'z) wkt_scheme"
  assumes inv: "net_inv E s" and obj: "work_object MODULE_PWM E s g" and r: "reqs s p = Some cb" and d: "work_data s p = Some d"
  shows "wp (AfterPwmWork E p status) (\<lambda>_. work_completed p cb (jmodule s MODULE_PWM)
    [JNumber (num (pwm_error_code (if status \<noteq> 0 then kPwmErrSys else pw_result d)))] s) s"
proof -
  let ?j = "jmodule s MODULE_PWM"
  let ?x = "JNumber (num (pwm_error_code (if status \<noteq> 0 then kPwmErrSys else pw_result d)))"
  let ?t = "s\<lparr>blocks := blocks s + 1, trace := trace s @ [ECreate ?x, EAcquire ?x, ERelease ?x]\<rparr>"
  have j: "?j \<noteq> JUndefined \<and> is_object ?j" by (rule work_object_module[OF obj])
  have "args_built [?x] (jargs_of 1 [?x]) s ?t"
    unfolding args_built_def
    by (intro exI[of _ 1] exI[of _ "[ECreate ?x, EAcquire ?x, ERelease ?x]"]) auto
  note f = work_finish_wp[where E = E and this = ?j, OF inv r this]
  show ?thesis
    using f r d j
    by (simp add: AfterPwmWork_def iotjs_pwm_get_instance_def iotjs_pwm_get_jpwm_def iotjs_pwm_reqwrap_from_request_def
      iotjs_pwm_reqwrap_data_def iotjs_pwm_reqwrap_jcallback_def iotjs_pwm_reqwrap_dispatched_def iotjs_pwm_reqwrap_destroy_def
      wp_bnd wp_module_get wp_work_from_jobject[OF obj] wp_work_from_request wp_work_data wp_ret wp_reqwrap_jcallback
      wp_jargs_create wp_jargs_append)
qed

section \<open>Properties\<close>

interpretation pwm: work_module E MODULE_PWM pwm_worker_name "\<lambda>_. pwm_ok" "\<lambda>_. 0" "{0}" "pwm_args E" "pwm_body E" "pwm_worker E L"
    "AfterPwmWork E"
  for E L
proof (unfold_locales, simp_all only: singleton_iff)
  fix s :: "(call, iotjs_pwm_reqdata_t, PwmOp, 'z) wkt_scheme" and h args t
  assume "net_inv E s" "env_initialized s" "pwm_args E h args"
  then show "wp (pwm_body E h) (\<lambda>_. work_after pwm_worker_name (\<lambda>_. pwm_ok) (\<lambda>_. 0) {0} (handler_entry t args s)) (handler_entry t args s)"
    by (rule pwm_body_wp)
next
  fix s :: "(call, iotjs_pwm_reqdata_t, PwmOp, 'z) wkt_scheme" and p cb d op
  assume "env_initialized s" "wraps_wf s" "reqs s p = Some cb" "work_data s p = Some d" "pwm_ok op d"
  from pwm_worker_wp[OF this, of E L] show "wp (pwm_worker E L op p) (\<lambda>_. work_worked p op (\<lambda>_. pwm_ok) (\<lambda>_. 0) {0} s) s"
    by (rule wp_mono) (auto simp: work_worked_def work_step_def)
next
  fix s :: "(call, iotjs_pwm_reqdata_t, PwmOp, 'z) wkt_scheme" and g p cb d op status
  assume "net_inv E s" "work_object MODULE_PWM E s g" "reqs s p = Some cb" "work_data s p = Some d"
  from AfterPwmWork_wp[OF this] show "wp (AfterPwmWork E p status) (\<lambda>_ t. \<exists>vs. \<exists>k'\<in>{0}.
      work_completed p cb (jmodule s MODULE_PWM) vs s (lend (k' - 0) t)) s"
    by (rule wp_mono) auto
qed


text \<open>A worker that writes one file and records whether that succeeded.\<close>

lemma pwm_write_result:
  fixes s :: "(call, iotjs_pwm_reqdata_t, PwmOp, 'z) wkt_scheme"
  assumes env: "env_initialized s" and d: "work_data s p = Some d"
  shows "wp (bnd (DeviceOpenWriteClose E path v) (\<lambda>b. if \<not> b then pwm_set_result p kPwmErrWrite else pwm_set_result p kPwmErrOk))
    (\<lambda>_ u. \<exists>b es. trace u = trace s @ es \<and> device_write (env_loop (env s)) path v b es \<and>
      work_data u = (work_data s)(p \<mapsto> d\<lparr>pw_result := if b then kPwmErrOk else kPwmErrWrite\<rparr>)) s"
  unfolding wp_bnd
proof (rule wp_mono[OF DeviceOpenWriteClose_wp[OF env]], elim conjE exE)
  fix b es and t :: "(call, iotjs_pwm_reqdata_t, PwmOp, 'z) wkt_scheme"
  assume t: "quiet s t" "trace t = trace s @ es" "device_write (env_loop (env s)) path v b es"
  have "work_data t = work_data s" using t(1) by (auto simp: quiet_def)
  then show "wp (if \<not> b then pwm_set_result p kPwmErrWrite else pwm_set_result p kPwmErrOk)
    (\<lambda>_ u. \<exists>b es. trace u = trace s @ es \<and> device_write (env_loop (env s)) path v b es \<and>
      work_data u = (work_data s)(p \<mapsto> d\<lparr>pw_result := if b then kPwmErrOk else kPwmErrWrite\<rparr>)) t"
    using t(2,3) d by (cases b) (auto simp: pwm_set_result_def wp_work_data)
qed

text \<open>C35. The duty cycle of a pin: the worker opens the file of the pin, writes the hundredth part of duty cycle
  times period in decimal and closes it, and the result says whether these calls succeeded. The
  product is computed in \<^verbatim>\<open>int\<close>: when it does not fit, which a duty cycle of 50 with a period of 50
  milliseconds (in nanoseconds) reaches, the behaviour is undefined.\<close>

theorem pwm_duty_cycle_correct:
  fixes s :: "(call, iotjs_pwm_reqdata_t, PwmOp, 'z) wkt_scheme"
  assumes "env_initialized s" "reqs s p = Some cb" "work_data s p = Some d" "in_int32 (pw_pin d)"
    and "0 \<le> pw_duty_cycle d * pw_period d"
  shows "if in_int32 (pw_duty_cycle d * pw_period d)
    then \<exists>u b es. pwm_worker E L kPwmOpSetDutyCycle p s = Inr ((), u) \<and> trace u = trace s @ es \<and>
      device_write (env_loop (env s)) (''/sys/class/pwm/pwmchip0/pwm'' @ decimal (pw_pin d) @ ''/duty_cycle'')
        (decimal (pw_duty_cycle d * pw_period d div 100)) b es \<and>
      work_data u = (work_data s)(p \<mapsto> d\<lparr>pw_result := if b then kPwmErrOk else kPwmErrWrite\<rparr>)
    else pwm_worker E L kPwmOpSetDutyCycle p s = Inl (Undefined ''int overflow'')"
proof -
  let ?n = "pw_duty_cycle d * pw_period d"
  let ?path = "''/sys/class/pwm/pwmchip0/pwm'' @ decimal (pw_pin d) @ ''/duty_cycle''"
  have run: "pwm_worker E L kPwmOpSetDutyCycle p s = bnd (SetPwmDutyCycle E d)
      (\<lambda>b. if \<not> b then pwm_set_result p kPwmErrWrite else pwm_set_result p kPwmErrOk) s"
    using assms(2,3) by (simp add: SetDutyCycleWorker_def pwm_template_run)
  have f: "(pwm_file (pw_pin d) ''duty_cycle'' :: ((call, iotjs_pwm_reqdata_t, PwmOp, 'z) wkt_scheme, string) prog) = ret ?path"
    using pwm_paths(4)[OF assms(4), of "''duty_cycle''"] by simp
  show ?thesis
  proof (cases "in_int32 ?n")
    case True
    have n: "c_trunc (of_int ?n / 100) = ?n div 100" "in_int32 (?n div 100)" "0 \<le> ?n div 100" "?n div 100 < 2 ^ 32"
      using duty_trunc[of ?n] assms(5) True by (auto simp: in_int32_def)
    have "length (decimal (?n div 100)) \<le> 11" using decimal_int32[OF n(2)] by blast
    then have tx: "snprintf_text 31 (decimal (c_int32 (?n div 100))) = decimal (?n div 100)"
      using n(2) by (simp add: snprintf_text_def in_int32_def)
    have u: "(to_unsigned (Finite (of_int ?n / 100)) :: ((call, iotjs_pwm_reqdata_t, PwmOp, 'z) wkt_scheme, int) prog) = ret (?n div 100)"
      using n by (simp add: double_to_int_def del: of_int_mult)
    have "(SetPwmDutyCycle E d :: ((call, iotjs_pwm_reqdata_t, PwmOp, 'z) wkt_scheme, bool) prog) =
        bnd (DeviceOpenWriteClose E ?path (decimal (?n div 100))) (\<lambda>b. if \<not> b then ret False else ret True)"
      using True unfolding SetPwmDutyCycle_def f bnd_ret_left u tx by simp
    then have "pwm_worker E L kPwmOpSetDutyCycle p s = bnd (DeviceOpenWriteClose E ?path (decimal (?n div 100)))
      (\<lambda>b. if \<not> b then pwm_set_result p kPwmErrWrite else pwm_set_result p kPwmErrOk) s"
      unfolding run by (simp add: bnd_assoc bnd_ret_left if_distrib[of "\<lambda>m. bnd m _"] cong: if_cong)
    with pwm_write_result[OF assms(1,3), of E ?path "decimal (?n div 100)"] show ?thesis
      using True unfolding wp_runs by simp
  next
    case False
    then have "(SetPwmDutyCycle E d :: ((call, iotjs_pwm_reqdata_t, PwmOp, 'z) wkt_scheme, bool) prog) = fail (Undefined ''int overflow'')"
      by (simp add: SetPwmDutyCycle_def f bnd_ret_left)
    then show ?thesis using False run by (simp add: bnd_def fail_def)
  qed
qed

text \<open>C37. Enabling or disabling a pin opens its file \<^verbatim>\<open>enable\<close> but writes no character to it, whichever of the
  two was asked for: \<^verbatim>\<open>snprintf\<close> gets the size 1, which only leaves room for the NUL. When the calls
  succeed the result is nevertheless success.\<close>

theorem pwm_enable_writes_nothing:
  fixes s :: "(call, iotjs_pwm_reqdata_t, PwmOp, 'z) wkt_scheme"
  assumes "env_initialized s" "reqs s p = Some cb" "work_data s p = Some d" "in_int32 (pw_pin d)"
  shows "\<exists>u b es. pwm_worker E L kPwmOpSetEnable p s = Inr ((), u) \<and> trace u = trace s @ es \<and>
      device_write (env_loop (env s)) (''/sys/class/pwm/pwmchip0/pwm'' @ decimal (pw_pin d) @ ''/enable'') '''' b es \<and>
      work_data u = (work_data s)(p \<mapsto> d\<lparr>pw_result := if b then kPwmErrOk else kPwmErrWrite\<rparr>)"
proof -
  have f: "pwm_file (pw_pin d) ''enable'' = (ret (''/sys/class/pwm/pwmchip0/pwm'' @ decimal (pw_pin d) @ ''/'' @ ''enable'')
      :: ((call, iotjs_pwm_reqdata_t, PwmOp, 'z) wkt_scheme, string) prog)" by (rule pwm_paths(4)[OF assms(4)]) simp
  show ?thesis
    using pwm_write_result[OF assms(1,3), of E "''/sys/class/pwm/pwmchip0/pwm'' @ decimal (pw_pin d) @ ''/enable''" "''''"] assms(2,3)
    unfolding wp_runs by (simp add: SetEnableWorker_def pwm_template_run f bnd_ret_left snprintf_text_def)
qed

text \<open>C38. \<^verbatim>\<open>setFrequency\<close>, which \<^verbatim>\<open>src/js/pwm.js\<close> offers like the others, is accepted with any options, and
  stops the program when a thread gets to the request: the worker is an assertion that fails.\<close>

theorem pwm_set_frequency_aborts:
  fixes s :: "(call, iotjs_pwm_reqdata_t, PwmOp, 'z) wkt_scheme"
  assumes "work_inv MODULE_PWM (\<lambda>_. pwm_ok) E s g" "is_function cb" "in_int32 pin" "is_object j"
    and "pwm_option E j ''period'' period" "in_int32 period" "pwm_option E j ''dutyCycle'' duty" "in_int32 duty"
  shows "\<exists>u p. JHANDLER_FUNCTION (SetFrequency E) t [JNumber (num pin), j, cb] s = Inr ((False, JNull), u) \<and>
    reqs u = (reqs s)(p \<mapsto> cb) \<and> work_thread (pwm_worker E L) p u = Inl (Assertion ''Not implemented'')"
proof -
  let ?args = "[JNumber (num pin), j, cb]"
  let ?d = "(pwm_fresh kPwmOpSetFrequency)\<lparr>pw_pin := pin, pw_period := period, pw_duty_cycle := duty\<rparr>"
  have s: "net_inv E s" "env_initialized s" using assms(1) by (simp_all add: work_inv_def)
  have "wp (SetFrequency E) (\<lambda>_. work_queued pwm_worker_name kPwmOpSetFrequency ?d cb (handler_entry t ?args s)) (handler_entry t ?args s)"
    using pwm_options_wp[OF s assms(2-8), of kPwmOpSetFrequency t] by simp
  from work_call[OF s(1) this] obtain u p where u: "JHANDLER_FUNCTION (SetFrequency E) t ?args s = Inr ((False, JNull), u)"
    "reqs u = (reqs s)(p \<mapsto> cb)" "work_queue u = (work_queue s)(p \<mapsto> (kPwmOpSetFrequency, False))" by blast
  have "work_thread (pwm_worker E L) p u = Inl (Assertion ''Not implemented'')"
    using u(3) by (simp add: work_thread_def SetFrequencyWorker_def bnd_def gets_def sq_def IOTJS_ASSERT_def fail_def)
  with u(1,2) show ?thesis by blast
qed

section \<open>A concrete session\<close>

text \<open>The system grants every call; the options are a period of 1000 and a duty cycle of 25.\<close>

definition pwm_engine :: "call engine" where
  "pwm_engine = wraps_engine\<lparr>e_prop := \<lambda>tr j name. if name = ''period'' then (False, JNumber (num 1000))
     else if name = ''dutyCycle'' then (False, JNumber (num 25)) else e_prop wraps_engine tr j name\<rparr>"

definition pwm_state :: "(call, iotjs_pwm_reqdata_t, PwmOp) wkt" where
  "pwm_state = \<lparr>trace = [ESetNative (JObject 7) 1], blocks = 1, h_this = JNull, h_argv = [], h_ret = (False, JNull),
     h_finished = False, jmodule = \<lambda>k. if k = MODULE_PWM then JObject 7 else JObject 0, env = fresh_environment,
     env_initialized = True, handles = Map.empty, reqs = Map.empty, next_ptr = 2, work_data = Map.empty,
     work_objs = [1 \<mapsto> JObject 7], work_queue = Map.empty\<rparr>"

definition pwm_lib :: fs_lib where
  "pwm_lib = \<lparr>lib_strerror = \<lambda>_. ''error'', lib_answer = \<lambda>_. \<lparr>ans_stat = \<lparr>st_dev = 0, st_mode = 0, st_nlink = 0,
     st_uid = 0, st_gid = 0, st_rdev = 0, st_blksize = 0, st_ino = 0, st_size = 0, st_blocks = 0\<rparr>, ans_names = [], ans_data = []\<rparr>\<rparr>"

lemma pwm_state_inv: "work_inv MODULE_PWM (\<lambda>_. pwm_ok) pwm_engine pwm_state 1"
proof -
  have "native_law pwm_engine" "process_ok pwm_engine (JObject 0)"
    by (auto simp: native_law_def pwm_engine_def wraps_engine_def process_ok_def sample_engine_def)
  then show ?thesis
    by (simp add: work_inv_def net_inv_def work_object_def pwm_state_def wraps_wf_def native_of_def)
qed

lemma pwm_engine_options: "pwm_option pwm_engine j ''period'' 1000" "pwm_option pwm_engine j ''dutyCycle'' 25"
  by (simp_all add: pwm_option_def pwm_engine_def)


text \<open>A request that a thread may run: duty cycle 50 with a period of 50 milliseconds, or of 20 nanoseconds.\<close>

definition pwm_pending :: "int \<Rightarrow> (call, iotjs_pwm_reqdata_t, PwmOp) wkt" where
  "pwm_pending period = pwm_state\<lparr>reqs := [2 \<mapsto> JFunction 9], next_ptr := 3,
     work_data := [2 \<mapsto> (pwm_fresh kPwmOpSetDutyCycle)\<lparr>pw_duty_cycle := 50, pw_period := period\<rparr>]\<rparr>"

theorem pwm_duty_cycle_correct_witness:
  "pwm_worker pwm_engine pwm_lib kPwmOpSetDutyCycle 2 (pwm_pending 50000000) = Inl (Undefined ''int overflow'')"
  using pwm_duty_cycle_correct[of "pwm_pending 50000000" 2 "JFunction 9"
    "(pwm_fresh kPwmOpSetDutyCycle)\<lparr>pw_duty_cycle := 50, pw_period := 50000000\<rparr>" pwm_engine pwm_lib]
  by (simp add: pwm_pending_def pwm_state_def in_int32_def)

theorem pwm_enable_writes_nothing_witness:
  "\<exists>u. pwm_worker pwm_engine pwm_lib kPwmOpSetEnable 2 (pwm_pending 20) = Inr ((), u)"
proof -
  have "env_initialized (pwm_pending 20)" "reqs (pwm_pending 20) 2 = Some (JFunction 9)"
    "work_data (pwm_pending 20) 2 = Some ((pwm_fresh kPwmOpSetDutyCycle)\<lparr>pw_duty_cycle := 50, pw_period := 20\<rparr>)"
    by (simp_all add: pwm_pending_def pwm_state_def)
  from pwm_enable_writes_nothing[OF this, of pwm_engine pwm_lib] show ?thesis by (auto simp: in_int32_def)
qed

theorem pwm_set_frequency_aborts_witness:
  "\<exists>u p. JHANDLER_FUNCTION (SetFrequency pwm_engine) (JObject 7) [JNumber (num 2), JObject 8, JFunction 9] pwm_state = Inr ((False, JNull), u) \<and>
    work_thread (pwm_worker pwm_engine pwm_lib) p u = Inl (Assertion ''Not implemented'')"
  using pwm_set_frequency_aborts[OF pwm_state_inv _ _ _ pwm_engine_options(1) _ pwm_engine_options(2), of "JFunction 9" 2 "JObject 8" "JObject 7"]
  by (fastforce simp: in_int32_def)

end
