(* ===== verification/Iot_I2c.thy ===== *)
theory Iot_I2c
  imports Iot_Work Iot_Systemio
begin

text \<open>
  The bus module, \<^verbatim>\<open>src/module/iotjs_module_i2c.c\<close> and
  \<^verbatim>\<open>src/platform/iotjs_module_i2c-linux-general.inl.h\<close>: requests that own a buffer and the name of a
  device, workers that talk to one descriptor of the process, and their completion. \<open>fs_lib\<close> gives the
  bytes that a read of the descriptor or of the bus leaves. A worker is one step; \<^verbatim>\<open>char\<close> is signed.
\<close>

section \<open>Data\<close>

datatype I2cOp =
    kI2cOpSetAddress
  | kI2cOpScan
  | kI2cOpOpen
  | kI2cOpClose
  | kI2cOpWrite
  | kI2cOpWriteByte
  | kI2cOpWriteBlock
  | kI2cOpRead
  | kI2cOpReadByte
  | kI2cOpReadBlock

datatype I2cError = kI2cErrOk | kI2cErrOpen | kI2cErrRead | kI2cErrReadBlock | kI2cErrWrite

text \<open>The pointer to the buffer: NULL, a block with its bytes, or a block that has been released.\<close>

datatype i2c_buffer = NoBuffer | Allocated "char list" | Released

record iotjs_i2c_reqdata_t =
  i2_device :: iotjs_string_t
  i2_buf_data :: i2c_buffer
  i2_buf_len :: int
  i2_byte :: int
  i2_cmd :: int
  i2_delay :: int
  i2_op :: I2cOp
  i2_error :: I2cError

text \<open>The two global variables of the platform: the descriptor and the address of the slave.\<close>

record 'c i2t = "('c, iotjs_i2c_reqdata_t, I2cOp) wkt" +
  i2c_fd :: int
  i2c_addr :: int

type_synonym 'z i2c_prog = "((call, 'z) i2t_scheme, unit) prog"

abbreviation to_uint8 :: "double \<Rightarrow> ('s, int) prog" where
  "to_uint8 \<equiv> double_to_int 0 256"

abbreviation to_char :: "double \<Rightarrow> ('s, int) prog" where
  "to_char \<equiv> double_to_int (- 128) 128"

text \<open>The byte that stores a number: the number modulo 256.\<close>

definition byte_of :: "int \<Rightarrow> char" where
  "byte_of n = char_of (nat (n mod 256))"

definition JHANDLER_GET_UINT8 :: "nat \<Rightarrow> (('c, 'z) hrt_scheme, int) prog" where
  "JHANDLER_GET_UINT8 i = bnd (JHANDLER_GET_ARG i iotjs_jval_as_number) to_uint8"

section \<open>The request wrapper and the object of the module\<close>

abbreviation null_string :: iotjs_string_t where
  "null_string \<equiv> \<lparr>str_size = 0, str_cap = 0, str_data = None\<rparr>"

abbreviation i2c_cleared :: "I2cOp \<Rightarrow> iotjs_i2c_reqdata_t" where
  "i2c_cleared op \<equiv> \<lparr>i2_device = null_string, i2_buf_data = NoBuffer, i2_buf_len = 0, i2_byte = 0, i2_cmd = 0,
     i2_delay = 0, i2_op = op, i2_error = kI2cErrOk\<rparr>"

definition iotjs_i2c_reqwrap_create :: "jval \<Rightarrow> I2cOp \<Rightarrow> (('c, 'z) i2t_scheme, nat) prog" where
  "iotjs_i2c_reqwrap_create jcallback op =
     bnd (work_reqwrap_create jcallback (i2c_cleared op)) (\<lambda>i2c_reqwrap.
     bnd (iotjs_string_create (c_str [])) (\<lambda>device.
     sq (upd_work_data i2c_reqwrap (\<lambda>d. d\<lparr>i2_device := device\<rparr>))
    (ret i2c_reqwrap)))"

definition iotjs_i2c_reqwrap_destroy :: "nat \<Rightarrow> 'z i2c_prog" where
  "iotjs_i2c_reqwrap_destroy i2c_reqwrap =
     bnd (get_work_data i2c_reqwrap) (\<lambda>req_data.
     sq (iotjs_reqwrap_destroy i2c_reqwrap)
    (sq (iotjs_string_destroy (i2_device req_data))
    (sq (upd (\<lambda>s. s\<lparr>work_data := (work_data s)(i2c_reqwrap := None)\<rparr>))
    IOTJS_RELEASE)))"

definition iotjs_i2c_reqwrap_dispatched :: "nat \<Rightarrow> 'z i2c_prog" where
  "iotjs_i2c_reqwrap_dispatched i2c_reqwrap = iotjs_i2c_reqwrap_destroy i2c_reqwrap"

definition iotjs_i2c_reqwrap_req :: "nat \<Rightarrow> nat" where
  "iotjs_i2c_reqwrap_req i2c_reqwrap = i2c_reqwrap"

definition iotjs_i2c_reqwrap_jcallback :: "nat \<Rightarrow> (('c, 'z) wrt_scheme, jval) prog" where
  "iotjs_i2c_reqwrap_jcallback i2c_reqwrap = iotjs_reqwrap_jcallback i2c_reqwrap"

definition iotjs_i2c_reqwrap_from_request :: "nat \<Rightarrow> (('c, 'z) wrt_scheme, nat) prog" where
  "iotjs_i2c_reqwrap_from_request req = work_from_request req"

definition iotjs_i2c_reqwrap_data :: "nat \<Rightarrow> (('c, 'd, 'o, 'z) wkt_scheme, 'd) prog" where
  "iotjs_i2c_reqwrap_data i2c_reqwrap = get_work_data i2c_reqwrap"

definition iotjs_i2c_create :: "jval \<Rightarrow> (('c, 'd, 'o, 'z) wkt_scheme, nat) prog" where
  "iotjs_i2c_create ji2c = work_object_create ji2c"

definition iotjs_i2c_destroy :: "nat \<Rightarrow> (('c, 'd, 'o, 'z) wkt_scheme, unit) prog" where
  "iotjs_i2c_destroy i2c = work_object_destroy i2c"

definition iotjs_i2c_get_ji2c :: "(('c, 'z) mrt_scheme, jval) prog" where
  "iotjs_i2c_get_ji2c = iotjs_module_get MODULE_I2C"

definition iotjs_i2c_get_instance :: "'c engine \<Rightarrow> (('c, 'd, 'o, 'z) wkt_scheme, nat) prog" where
  "iotjs_i2c_get_instance E = bnd iotjs_i2c_get_ji2c (work_from_jobject E)"

text \<open>\<^verbatim>\<open>if (buf_data != NULL) iotjs_buffer_release (buf_data)\<close>; the pointer keeps its value.\<close>

definition i2c_release :: "nat \<Rightarrow> 'z i2c_prog" where
  "i2c_release p =
     bnd (get_work_data p) (\<lambda>d.
     case i2_buf_data d of
       NoBuffer \<Rightarrow> ret ()
     | Allocated _ \<Rightarrow> sq iotjs_buffer_release (upd_work_data p (\<lambda>d. d\<lparr>i2_buf_data := Released\<rparr>))
     | Released \<Rightarrow> fail (UseAfterFree ''buf_data''))"

text \<open>The bytes behind the pointer.\<close>

definition i2c_bytes :: "i2c_buffer \<Rightarrow> ('s, char list option) prog" where
  "i2c_bytes b =
     (case b of NoBuffer \<Rightarrow> ret None | Allocated bs \<Rightarrow> ret (Some bs) | Released \<Rightarrow> fail (UseAfterFree ''buf_data''))"

section \<open>Completion\<close>

definition append_error :: "'c engine \<Rightarrow> iotjs_jargs_t \<Rightarrow> string \<Rightarrow> (('c, 'z) rt_scheme, iotjs_jargs_t) prog" where
  "append_error E jargs message =
     bnd (iotjs_jval_create_error E message) (\<lambda>error.
     bnd (iotjs_jargs_append_jval jargs error) (\<lambda>jargs.
     sq (iotjs_jval_destroy error) (ret jargs)))"

definition append_bytes_array :: "'c engine \<Rightarrow> iotjs_jargs_t \<Rightarrow> iotjs_i2c_reqdata_t \<Rightarrow> (('c, 'z) rt_scheme, iotjs_jargs_t) prog" where
  "append_bytes_array E jargs req_data =
     bnd (iotjs_jargs_append_null jargs) (\<lambda>jargs.
     bnd (i2c_bytes (i2_buf_data req_data)) (\<lambda>bytes.
     bnd (iotjs_jval_create_byte_array E (nat (i2_buf_len req_data)) bytes) (\<lambda>result.
     bnd (iotjs_jargs_append_jval jargs result) (\<lambda>jargs.
     sq (iotjs_jval_destroy result) (ret jargs)))))"

definition i2c_read_arguments ::
  "call engine \<Rightarrow> iotjs_jargs_t \<Rightarrow> nat \<Rightarrow> iotjs_i2c_reqdata_t \<Rightarrow> ((call, 'z) i2t_scheme, iotjs_jargs_t) prog" where
  "i2c_read_arguments E jargs p req_data =
     (if i2_error req_data = kI2cErrRead
      then bnd (append_error E jargs ''Cannot read from device'') iotjs_jargs_append_null
      else if i2_error req_data = kI2cErrReadBlock
      then bnd (append_error E jargs ''Error reading length of bytes'') iotjs_jargs_append_null
      else bnd (append_bytes_array E jargs req_data) (\<lambda>jargs.
           sq (if 0 < i2_delay req_data
               then if in_int32 (i2_delay req_data * 1000)
                    then bnd (sys E (SysUsleep (i2_delay req_data * 1000))) (\<lambda>_. ret ())
                    else fail (Undefined ''int overflow'')
               else ret ())
          (sq (i2c_release p) (ret jargs))))"

text \<open>The arguments of the callback, by operation, and what is released with them.\<close>

definition i2c_arguments ::
  "call engine \<Rightarrow> iotjs_jargs_t \<Rightarrow> nat \<Rightarrow> iotjs_i2c_reqdata_t \<Rightarrow> ((call, 'z) i2t_scheme, iotjs_jargs_t) prog" where
  "i2c_arguments E jargs p req_data =
     (let error = i2_error req_data in
      case i2_op req_data of
        kI2cOpOpen \<Rightarrow>
          if error = kI2cErrOpen then append_error E jargs ''Failed to open I2C device''
          else iotjs_jargs_append_null jargs
      | kI2cOpScan \<Rightarrow>
          bnd (append_bytes_array E jargs req_data) (\<lambda>jargs. sq (i2c_release p) (ret jargs))
      | kI2cOpWrite \<Rightarrow>
          if error = kI2cErrWrite then append_error E jargs ''Cannot write to device''
          else iotjs_jargs_append_null jargs
      | kI2cOpWriteByte \<Rightarrow>
          if error = kI2cErrWrite then append_error E jargs ''Cannot write to device''
          else iotjs_jargs_append_null jargs
      | kI2cOpWriteBlock \<Rightarrow>
          if error = kI2cErrWrite then append_error E jargs ''Cannot write to device''
          else iotjs_jargs_append_null jargs
      | kI2cOpRead \<Rightarrow> i2c_read_arguments E jargs p req_data
      | kI2cOpReadBlock \<Rightarrow> i2c_read_arguments E jargs p req_data
      | kI2cOpReadByte \<Rightarrow>
          if error = kI2cErrRead
          then bnd (append_error E jargs ''Cannot read from device'') iotjs_jargs_append_null
          else bnd (iotjs_jargs_append_null jargs) (\<lambda>jargs. iotjs_jargs_append_number jargs (num (i2_byte req_data)))
      | _ \<Rightarrow> sq (IOTJS_ASSERT ''Unreachable'' False) (ret jargs))"

definition AfterI2CWork :: "call engine \<Rightarrow> nat \<Rightarrow> int \<Rightarrow> 'z i2c_prog" where
  "AfterI2CWork E work_req status =
     bnd (iotjs_i2c_get_instance E) (\<lambda>i2c.
     bnd (iotjs_i2c_reqwrap_from_request work_req) (\<lambda>req_wrap.
     bnd (iotjs_i2c_reqwrap_data req_wrap) (\<lambda>req_data.
     bnd (iotjs_jargs_create 2) (\<lambda>jargs.
     bnd (if status \<noteq> 0 then append_error E jargs ''System error''
          else i2c_arguments E jargs req_wrap req_data) (\<lambda>jargs.
     bnd (iotjs_i2c_reqwrap_jcallback req_wrap) (\<lambda>jcallback.
     bnd iotjs_i2c_get_ji2c (\<lambda>ji2c.
     sq (iotjs_make_callback E jcallback ji2c jargs)
    (sq (iotjs_jargs_destroy jargs)
    (iotjs_i2c_reqwrap_dispatched req_wrap)))))))))"

section \<open>Handlers\<close>

text \<open>The elements of the array, converted to \<^verbatim>\<open>char\<close> one by one.\<close>

definition array_bytes :: "'c engine \<Rightarrow> jval \<Rightarrow> nat \<Rightarrow> (('c, 'z) rt_scheme, char list) prog" where
  "array_bytes E jarray n =
     fold_prog (\<lambda>buf_data i.
       bnd (iotjs_jval_get_property_by_index E jarray i) (\<lambda>jdata.
       bnd (iotjs_jval_as_number jdata) (\<lambda>x.
       bnd (to_char x) (\<lambda>c.
       sq (iotjs_jval_destroy jdata)
      (ret (buf_data[i := byte_of c])))))) (replicate n NUL) [0..<n]"

definition GetI2cArray :: "'c engine \<Rightarrow> jval \<Rightarrow> nat \<Rightarrow> (('c, 'z) i2t_scheme, unit) prog" where
  "GetI2cArray E jarray p =
     bnd (iotjs_jval_get_property E jarray ''length'') (\<lambda>jlength.
     sq (IOTJS_ASSERT ''GetI2cArray'' (jlength \<noteq> JUndefined))
    (bnd (iotjs_jval_as_number jlength) (\<lambda>x.
     bnd (to_uint8 x) (\<lambda>len.
     sq (upd_work_data p (\<lambda>d. d\<lparr>i2_buf_len := len\<rparr>))
    (bnd (iotjs_buffer_allocate (nat len)) (\<lambda>_.
     bnd (array_bytes E jarray (nat len)) (\<lambda>bytes.
     sq (upd_work_data p (\<lambda>d. d\<lparr>i2_buf_data := Allocated bytes\<rparr>))
    (iotjs_jval_destroy jlength))))))))"

fun i2c_worker_name :: "I2cOp \<Rightarrow> string" where
  "i2c_worker_name kI2cOpScan = ''ScanWorker''"
| "i2c_worker_name kI2cOpOpen = ''OpenWorker''"
| "i2c_worker_name kI2cOpWrite = ''WriteWorker''"
| "i2c_worker_name kI2cOpWriteByte = ''WriteByteWorker''"
| "i2c_worker_name kI2cOpWriteBlock = ''WriteBlockWorker''"
| "i2c_worker_name kI2cOpRead = ''ReadWorker''"
| "i2c_worker_name kI2cOpReadByte = ''ReadByteWorker''"
| "i2c_worker_name kI2cOpReadBlock = ''ReadBlockWorker''"
| "i2c_worker_name _ = ''''"

definition I2C_ASYNC :: "call engine \<Rightarrow> I2cOp \<Rightarrow> nat \<Rightarrow> 'z i2c_prog" where
  "I2C_ASYNC E op req_wrap = work_async E i2c_worker_name op (iotjs_i2c_reqwrap_req req_wrap)"

definition I2cSetAddress :: "call engine \<Rightarrow> int \<Rightarrow> 'z i2c_prog" where
  "I2cSetAddress E address =
     sq (upd (\<lambda>s. s\<lparr>i2c_addr := address\<rparr>))
    (bnd (gets i2c_fd) (\<lambda>fd.
     bnd (gets i2c_addr) (\<lambda>addr.
     bnd (sys E (SysIoctl fd addr)) (\<lambda>_. ret ()))))"

definition I2cClose :: "call engine \<Rightarrow> 'z i2c_prog" where
  "I2cClose E =
     bnd (gets i2c_fd) (\<lambda>fd.
     if 0 < fd then bnd (sys E (SysClose fd)) (\<lambda>_. ret ()) else ret ())"

definition SetAddress :: "call engine \<Rightarrow> 'z i2c_prog" where
  "SetAddress E =
     JHANDLER_CHECK_ARGS E ''___SetAddress_native'' [is_number]
    (bnd (JHANDLER_GET_UINT8 0) (\<lambda>address.
     sq (I2cSetAddress E address)
     iotjs_jhandler_return_null))"

definition Scan :: "call engine \<Rightarrow> 'z i2c_prog" where
  "Scan E =
     JHANDLER_CHECK_ARGS E ''___Scan_native'' [is_function]
    (bnd (JHANDLER_GET_ARG 0 iotjs_jval_as_function) (\<lambda>jcallback.
     bnd (iotjs_i2c_reqwrap_create jcallback kI2cOpScan) (\<lambda>req_wrap.
     sq (I2C_ASYNC E kI2cOpScan req_wrap)
     iotjs_jhandler_return_null)))"

definition Open_i2c :: "call engine \<Rightarrow> 'z i2c_prog" where
  "Open_i2c E =
     JHANDLER_CHECK_ARGS E ''___Open_native'' [is_string, is_function]
    (bnd (JHANDLER_GET_ARG 0 iotjs_jval_as_string) (\<lambda>device.
     bnd (JHANDLER_GET_ARG 1 iotjs_jval_as_function) (\<lambda>jcallback.
     bnd (iotjs_i2c_reqwrap_create jcallback kI2cOpOpen) (\<lambda>req_wrap.
     bnd (iotjs_i2c_reqwrap_data req_wrap) (\<lambda>req_data.
     bnd (iotjs_string_append (i2_device req_data) (c_str (string_text device)) (c_int32 (uint (str_size device)))) (\<lambda>str.
     sq (upd_work_data req_wrap (\<lambda>d. d\<lparr>i2_device := str\<rparr>))
    (sq (I2C_ASYNC E kI2cOpOpen req_wrap)
     iotjs_jhandler_return_null)))))))"

definition Close_i2c :: "call engine \<Rightarrow> 'z i2c_prog" where
  "Close_i2c E =
     JHANDLER_CHECK_ARGS E ''___Close_native'' []
    (sq (I2cClose E)
     iotjs_jhandler_return_null)"

definition Write_i2c :: "call engine \<Rightarrow> 'z i2c_prog" where
  "Write_i2c E =
     JHANDLER_CHECK_ARGS E ''___Write_native'' [is_array, is_function]
    (bnd (JHANDLER_GET_ARG 1 iotjs_jval_as_function) (\<lambda>jcallback.
     bnd (iotjs_i2c_reqwrap_create jcallback kI2cOpWrite) (\<lambda>req_wrap.
     bnd (JHANDLER_GET_ARG 0 iotjs_jval_as_array) (\<lambda>jarray.
     sq (GetI2cArray E jarray req_wrap)
    (sq (I2C_ASYNC E kI2cOpWrite req_wrap)
     iotjs_jhandler_return_null)))))"

definition WriteByte :: "call engine \<Rightarrow> 'z i2c_prog" where
  "WriteByte E =
     JHANDLER_CHECK_ARGS E ''___WriteByte_native'' [is_number, is_function]
    (bnd (JHANDLER_GET_UINT8 0) (\<lambda>byte.
     bnd (JHANDLER_GET_ARG 1 iotjs_jval_as_function) (\<lambda>jcallback.
     bnd (iotjs_i2c_reqwrap_create jcallback kI2cOpWriteByte) (\<lambda>req_wrap.
     sq (upd_work_data req_wrap (\<lambda>d. d\<lparr>i2_byte := byte\<rparr>))
    (sq (I2C_ASYNC E kI2cOpWriteByte req_wrap)
     iotjs_jhandler_return_null)))))"

definition WriteBlock :: "call engine \<Rightarrow> 'z i2c_prog" where
  "WriteBlock E =
     JHANDLER_CHECK_ARGS E ''___WriteBlock_native'' [is_number, is_array, is_function]
    (bnd (JHANDLER_GET_ARG 2 iotjs_jval_as_function) (\<lambda>jcallback.
     bnd (iotjs_i2c_reqwrap_create jcallback kI2cOpWriteBlock) (\<lambda>req_wrap.
     bnd (JHANDLER_GET_UINT8 0) (\<lambda>cmd.
     sq (upd_work_data req_wrap (\<lambda>d. d\<lparr>i2_cmd := cmd\<rparr>))
    (bnd (JHANDLER_GET_ARG 1 iotjs_jval_as_array) (\<lambda>jarray.
     sq (GetI2cArray E jarray req_wrap)
    (sq (I2C_ASYNC E kI2cOpWriteBlock req_wrap)
     iotjs_jhandler_return_null)))))))"

definition Read_i2c :: "call engine \<Rightarrow> 'z i2c_prog" where
  "Read_i2c E =
     JHANDLER_CHECK_ARGS E ''___Read_native'' [is_number, is_function]
    (bnd (JHANDLER_GET_ARG 1 iotjs_jval_as_function) (\<lambda>jcallback.
     bnd (iotjs_i2c_reqwrap_create jcallback kI2cOpRead) (\<lambda>req_wrap.
     bnd (JHANDLER_GET_UINT8 0) (\<lambda>len.
     sq (upd_work_data req_wrap (\<lambda>d. d\<lparr>i2_buf_len := len, i2_delay := 0\<rparr>))
    (sq (I2C_ASYNC E kI2cOpRead req_wrap)
     iotjs_jhandler_return_null)))))"

definition ReadByte :: "call engine \<Rightarrow> 'z i2c_prog" where
  "ReadByte E =
     JHANDLER_CHECK_ARGS E ''___ReadByte_native'' [is_function]
    (bnd (JHANDLER_GET_ARG 0 iotjs_jval_as_function) (\<lambda>jcallback.
     bnd (iotjs_i2c_reqwrap_create jcallback kI2cOpReadByte) (\<lambda>req_wrap.
     sq (I2C_ASYNC E kI2cOpReadByte req_wrap)
     iotjs_jhandler_return_null)))"

definition ReadBlock :: "call engine \<Rightarrow> 'z i2c_prog" where
  "ReadBlock E =
     JHANDLER_CHECK_ARGS E ''___ReadBlock_native'' [is_number, is_number, is_number, is_function]
    (bnd (JHANDLER_GET_ARG 3 iotjs_jval_as_function) (\<lambda>jcallback.
     bnd (iotjs_i2c_reqwrap_create jcallback kI2cOpReadBlock) (\<lambda>req_wrap.
     bnd (JHANDLER_GET_UINT8 0) (\<lambda>cmd.
     bnd (JHANDLER_GET_UINT8 1) (\<lambda>len.
     bnd (JHANDLER_GET_INT 2) (\<lambda>delay.
     sq (upd_work_data req_wrap (\<lambda>d. d\<lparr>i2_cmd := cmd, i2_buf_len := len, i2_delay := delay\<rparr>))
    (sq (I2C_ASYNC E kI2cOpReadBlock req_wrap)
     iotjs_jhandler_return_null)))))))"

definition InitI2c :: "'c engine \<Rightarrow> (('c, 'd, 'o, 'z) wkt_scheme, jval) prog" where
  "InitI2c E =
     bnd (iotjs_jval_create_object E) (\<lambda>ji2c.
     sq (set_methods E ji2c [''setAddress'', ''scan'', ''open'', ''close'', ''write'', ''writeByte'', ''writeBlock'',
           ''read'', ''readByte'', ''readBlock''])
    (bnd (iotjs_i2c_create ji2c) (\<lambda>i2c.
     bnd (iotjs_jval_get_object_native_handle E ji2c) (\<lambda>n.
     sq (IOTJS_ASSERT ''InitI2c'' (i2c = n)) (ret ji2c)))))"

section \<open>The bus\<close>

abbreviation I2C_SMBUS_BLOCK_MAX :: nat where "I2C_SMBUS_BLOCK_MAX \<equiv> 32"
abbreviation I2C_MAX_ADDRESS :: nat where "I2C_MAX_ADDRESS \<equiv> 128"

definition I2C_SMBUS_BYTE :: int where "I2C_SMBUS_BYTE = 1"
definition I2C_SMBUS_BLOCK_DATA :: int where "I2C_SMBUS_BLOCK_DATA = 5"
definition I2C_SMBUS_I2C_BLOCK_DATA :: int where "I2C_SMBUS_I2C_BLOCK_DATA = 8"

text \<open>
  \<^verbatim>\<open>ioctl (fd, I2C_SMBUS, &args)\<close>; \<open>data\<close> are the bytes of the union that the caller has set. Also the
  bytes that are in the union afterwards.
\<close>

definition I2cSmbusAccess ::
  "call engine \<Rightarrow> fs_lib \<Rightarrow> int \<Rightarrow> bool \<Rightarrow> int \<Rightarrow> int \<Rightarrow> char list option \<Rightarrow> ((call, 'z) rt_scheme, int \<times> char list) prog" where
  "I2cSmbusAccess E L fd is_read command sz data =
     bnd (sys E (SysSmbus fd is_read command sz data)) (\<lambda>result.
     bnd (gets (\<lambda>s. take 34 (ans_data (lib_answer L (trace s))))) (\<lambda>block. ret (result, block)))"

definition I2cSmbusWriteByte :: "call engine \<Rightarrow> fs_lib \<Rightarrow> int \<Rightarrow> int \<Rightarrow> ((call, 'z) rt_scheme, int) prog" where
  "I2cSmbusWriteByte E L fd byte =
     bnd (I2cSmbusAccess E L fd False byte I2C_SMBUS_BYTE None) (\<lambda>(result, _). ret result)"

definition I2cSmbusWriteI2cBlockData ::
  "call engine \<Rightarrow> fs_lib \<Rightarrow> int \<Rightarrow> int \<Rightarrow> char list \<Rightarrow> int \<Rightarrow> ((call, 'z) rt_scheme, int) prog" where
  "I2cSmbusWriteI2cBlockData E L fd command values len =
     (let len = min (nat len) I2C_SMBUS_BLOCK_MAX in
      if length values < len then fail (OutOfBounds ''values'')
      else bnd (I2cSmbusAccess E L fd False command I2C_SMBUS_BLOCK_DATA (Some (byte_of (int len) # take len values)))
             (\<lambda>(result, _). ret result))"

text \<open>A byte of the union that was not set is indeterminate.\<close>

definition block_byte :: "char list \<Rightarrow> nat \<Rightarrow> ('s, char) prog" where
  "block_byte block i = (if i < length block then ret (block ! i) else fail (Undefined ''data.block''))"

definition I2cSmbusReadByte :: "call engine \<Rightarrow> fs_lib \<Rightarrow> int \<Rightarrow> ((call, 'z) rt_scheme, int) prog" where
  "I2cSmbusReadByte E L fd =
     bnd (I2cSmbusAccess E L fd True 0 I2C_SMBUS_BYTE (Some [])) (\<lambda>(result, block).
     if 0 \<le> result then bnd (block_byte block 0) (\<lambda>c. ret (int (of_char c))) else ret (- 1))"

text \<open>The result, and the bytes that were stored in \<open>values\<close>, which has 34 of them.\<close>

definition I2cSmbusReadI2cBlockData ::
  "call engine \<Rightarrow> fs_lib \<Rightarrow> int \<Rightarrow> int \<Rightarrow> int \<Rightarrow> ((call, 'z) rt_scheme, int \<times> char list) prog" where
  "I2cSmbusReadI2cBlockData E L fd command len =
     bnd (I2cSmbusAccess E L fd True command I2C_SMBUS_I2C_BLOCK_DATA
            (Some [byte_of (int (min (nat len) I2C_SMBUS_BLOCK_MAX))])) (\<lambda>(result, block).
     if 0 \<le> result
     then bnd (block_byte block 0) (\<lambda>n.
          bnd (fold_prog (\<lambda>values i.
                 if I2C_SMBUS_BLOCK_MAX + 2 \<le> i then fail (OutOfBounds ''data.block'')
                 else bnd (block_byte block i) (\<lambda>c. ret (values @ [c]))) [] [1..<Suc (of_char n)]) (\<lambda>values.
          ret (int (of_char n), values)))
     else ret (result, []))"

section \<open>Workers\<close>

definition I2C_WORKER_INIT_TEMPLATE ::
  "nat \<Rightarrow> (nat \<Rightarrow> iotjs_i2c_reqdata_t \<Rightarrow> int \<Rightarrow> 'z i2c_prog) \<Rightarrow> 'z i2c_prog" where
  "I2C_WORKER_INIT_TEMPLATE work_req body =
     bnd (iotjs_i2c_reqwrap_from_request work_req) (\<lambda>req_wrap.
     bnd (iotjs_i2c_reqwrap_data req_wrap) (\<lambda>req_data.
     bnd (gets i2c_fd) (\<lambda>fd. body req_wrap req_data fd)))"

definition i2c_set_error :: "nat \<Rightarrow> I2cError \<Rightarrow> 'z i2c_prog" where
  "i2c_set_error p e = upd_work_data p (\<lambda>d. d\<lparr>i2_error := e\<rparr>)"

definition OpenWorker :: "call engine \<Rightarrow> nat \<Rightarrow> 'z i2c_prog" where
  "OpenWorker E work_req =
     I2C_WORKER_INIT_TEMPLATE work_req (\<lambda>p req_data _.
     bnd (sys E (SysOpen (string_text (i2_device req_data)))) (\<lambda>fd.
     sq (upd (\<lambda>s. s\<lparr>i2c_fd := fd\<rparr>))
    (if fd = - 1 then i2c_set_error p kI2cErrOpen else i2c_set_error p kI2cErrOk)))"

text \<open>The test of one address: 1 when it answers, the result of the call otherwise.\<close>

definition scan_address :: "call engine \<Rightarrow> fs_lib \<Rightarrow> int \<Rightarrow> nat \<Rightarrow> ((call, 'z) rt_scheme, int) prog" where
  "scan_address E L fd i =
     bnd (sys E (SysIoctl fd (int i))) (\<lambda>_.
     bnd (if (0x30 \<le> i \<and> i \<le> 0x37) \<or> (0x50 \<le> i \<and> i \<le> 0x5F) then I2cSmbusReadByte E L fd
          else bnd (I2cSmbusAccess E L fd False 0 0 None) (\<lambda>(result, _). ret result)) (\<lambda>result.
     ret (if 0 \<le> result then 1 else result)))"

definition ScanWorker :: "call engine \<Rightarrow> fs_lib \<Rightarrow> nat \<Rightarrow> 'z i2c_prog" where
  "ScanWorker E L work_req =
     I2C_WORKER_INIT_TEMPLATE work_req (\<lambda>p req_data fd.
     bnd (iotjs_buffer_allocate I2C_MAX_ADDRESS) (\<lambda>blk.
     sq (upd_work_data p (\<lambda>d. d\<lparr>i2_buf_len := int I2C_MAX_ADDRESS\<rparr>))
    (bnd (fold_prog (\<lambda>buf_data i. bnd (scan_address E L fd i) (\<lambda>result. ret (buf_data[i := byte_of result])))
           blk [0..<I2C_MAX_ADDRESS]) (\<lambda>bytes.
     sq (upd_work_data p (\<lambda>d. d\<lparr>i2_buf_data := Allocated bytes\<rparr>))
    (bnd (gets i2c_addr) (\<lambda>addr.
     bnd (sys E (SysIoctl fd addr)) (\<lambda>_. ret ())))))))"

text \<open>The first \<open>len\<close> bytes behind the pointer.\<close>

definition i2c_prefix :: "i2c_buffer \<Rightarrow> int \<Rightarrow> ('s, char list) prog" where
  "i2c_prefix b len =
     bnd (i2c_bytes b) (\<lambda>bytes.
     case bytes of
       None \<Rightarrow> if len = 0 then ret [] else fail (NullPointer ''buf_data'')
     | Some bs \<Rightarrow> if nat len \<le> length bs then ret (take (nat len) bs) else fail (OutOfBounds ''buf_data''))"

definition WriteWorker :: "call engine \<Rightarrow> nat \<Rightarrow> 'z i2c_prog" where
  "WriteWorker E work_req =
     I2C_WORKER_INIT_TEMPLATE work_req (\<lambda>p req_data fd.
     bnd (i2c_prefix (i2_buf_data req_data) (i2_buf_len req_data)) (\<lambda>data.
     bnd (sys E (SysWrite fd data)) (\<lambda>n.
     sq (if n \<noteq> i2_buf_len req_data then i2c_set_error p kI2cErrWrite else ret ())
    (i2c_release p))))"

definition WriteByteWorker :: "call engine \<Rightarrow> fs_lib \<Rightarrow> nat \<Rightarrow> 'z i2c_prog" where
  "WriteByteWorker E L work_req =
     I2C_WORKER_INIT_TEMPLATE work_req (\<lambda>p req_data fd.
     bnd (I2cSmbusWriteByte E L fd (i2_byte req_data)) (\<lambda>result.
     if result = - 1 then i2c_set_error p kI2cErrWrite else ret ()))"

definition WriteBlockWorker :: "call engine \<Rightarrow> fs_lib \<Rightarrow> nat \<Rightarrow> 'z i2c_prog" where
  "WriteBlockWorker E L work_req =
     I2C_WORKER_INIT_TEMPLATE work_req (\<lambda>p req_data fd.
     bnd (i2c_prefix (i2_buf_data req_data) (min (i2_buf_len req_data) (int I2C_SMBUS_BLOCK_MAX))) (\<lambda>data.
     bnd (I2cSmbusWriteI2cBlockData E L fd (i2_cmd req_data) data (i2_buf_len req_data)) (\<lambda>result.
     sq (if result = - 1 then i2c_set_error p kI2cErrWrite else ret ())
    (i2c_release p))))"

text \<open>Bytes that were read, in the cleared block.\<close>

definition read_into :: "char list \<Rightarrow> char list \<Rightarrow> char list" where
  "read_into bs blk = take (length blk) bs @ drop (length bs) blk"

definition ReadWorker :: "call engine \<Rightarrow> fs_lib \<Rightarrow> nat \<Rightarrow> 'z i2c_prog" where
  "ReadWorker E L work_req =
     I2C_WORKER_INIT_TEMPLATE work_req (\<lambda>p req_data fd.
     bnd (iotjs_buffer_allocate (nat (i2_buf_len req_data))) (\<lambda>blk.
     bnd (sys E (SysRead fd (nat (i2_buf_len req_data)))) (\<lambda>n.
     bnd (gets (\<lambda>s. take (nat n) (ans_data (lib_answer L (trace s))))) (\<lambda>bytes.
     sq (upd_work_data p (\<lambda>d. d\<lparr>i2_buf_data := Allocated (read_into bytes blk)\<rparr>))
    (if n \<noteq> i2_buf_len req_data then i2c_set_error p kI2cErrRead else ret ())))))"

definition ReadByteWorker :: "call engine \<Rightarrow> fs_lib \<Rightarrow> nat \<Rightarrow> 'z i2c_prog" where
  "ReadByteWorker E L work_req =
     I2C_WORKER_INIT_TEMPLATE work_req (\<lambda>p req_data fd.
     bnd (I2cSmbusReadByte E L fd) (\<lambda>result.
     if result = - 1 then i2c_set_error p kI2cErrRead
     else upd_work_data p (\<lambda>d. d\<lparr>i2_byte := result\<rparr>)))"

text \<open>
  The bytes of the array on the stack that were not stored are indeterminate; they are copied only with an
  error, and then nothing looks at them, so they are written as NUL.
\<close>

definition ReadBlockWorker :: "call engine \<Rightarrow> fs_lib \<Rightarrow> nat \<Rightarrow> 'z i2c_prog" where
  "ReadBlockWorker E L work_req =
     I2C_WORKER_INIT_TEMPLATE work_req (\<lambda>p req_data fd.
     bnd (I2cSmbusReadI2cBlockData E L fd (i2_cmd req_data) (i2_buf_len req_data)) (\<lambda>(result, data).
     sq (if result \<noteq> i2_buf_len req_data then i2c_set_error p kI2cErrReadBlock else ret ())
    (bnd (iotjs_buffer_allocate (nat (i2_buf_len req_data))) (\<lambda>blk.
     if I2C_SMBUS_BLOCK_MAX + 2 < nat (i2_buf_len req_data) then fail (OutOfBounds ''data'')
     else upd_work_data p (\<lambda>d. d\<lparr>i2_buf_data := Allocated (read_into data blk)\<rparr>)))))"

fun i2c_worker :: "call engine \<Rightarrow> fs_lib \<Rightarrow> I2cOp \<Rightarrow> nat \<Rightarrow> 'z i2c_prog" where
  "i2c_worker E L kI2cOpScan = ScanWorker E L"
| "i2c_worker E L kI2cOpOpen = OpenWorker E"
| "i2c_worker E L kI2cOpWrite = WriteWorker E"
| "i2c_worker E L kI2cOpWriteByte = WriteByteWorker E L"
| "i2c_worker E L kI2cOpWriteBlock = WriteBlockWorker E L"
| "i2c_worker E L kI2cOpRead = ReadWorker E L"
| "i2c_worker E L kI2cOpReadByte = ReadByteWorker E L"
| "i2c_worker E L kI2cOpReadBlock = ReadBlockWorker E L"
| "i2c_worker E L _ = (\<lambda>_. fail (Undefined ''uv_work_t''))"

fun i2c_body :: "call engine \<Rightarrow> I2cOp \<Rightarrow> 'z i2c_prog" where
  "i2c_body E kI2cOpSetAddress = SetAddress E"
| "i2c_body E kI2cOpScan = Scan E"
| "i2c_body E kI2cOpOpen = Open_i2c E"
| "i2c_body E kI2cOpClose = Close_i2c E"
| "i2c_body E kI2cOpWrite = Write_i2c E"
| "i2c_body E kI2cOpWriteByte = WriteByte E"
| "i2c_body E kI2cOpWriteBlock = WriteBlock E"
| "i2c_body E kI2cOpRead = Read_i2c E"
| "i2c_body E kI2cOpReadByte = ReadByte E"
| "i2c_body E kI2cOpReadBlock = ReadBlock E"

end
