(* ===== verification/Iot_I2c_Steps.thy ===== *)
theory Iot_I2c_Steps
  imports Iot_I2c
begin

text \<open>
  What the parts of the bus module do, step by step: \<open>i2c_at\<close> describes a state that a worker reaches, and each
  worker, the completion and the handlers have a rule over it.
\<close>

section \<open>Progress\<close>

text \<open>
  Since \<open>s\<close>, the events \<open>tr\<close> have happened, \<open>k\<close> more blocks are in use, the data of the request \<open>p\<close> are
  \<open>d\<close>, and the descriptor and the address are \<open>fd\<close> and \<open>a\<close>.
\<close>

definition i2c_at ::
  "nat \<Rightarrow> iotjs_i2c_reqdata_t \<Rightarrow> int \<Rightarrow> int \<Rightarrow> int \<Rightarrow> call ev list \<Rightarrow> (call, 'z) i2t_scheme \<Rightarrow> (call, 'z) i2t_scheme \<Rightarrow> bool" where
  "i2c_at p d k fd a tr s t \<longleftrightarrow> work_moved s (lend k t) \<and> reqs t = reqs s \<and> work_queue t = work_queue s \<and>
     work_data t = (work_data s)(p \<mapsto> d) \<and> trace t = trace s @ tr \<and> i2c_fd t = fd \<and> i2c_addr t = a"

lemma moved_i2c_more [simp]:
  "moved s (t\<lparr>i2c_fd := x\<rparr>) = moved s t" "moved s (t\<lparr>i2c_addr := y\<rparr>) = moved s t"
  by (simp_all add: moved_def wraps_wf_def keeps_def spare_def frame_refs_def kept_wraps_def heap_wraps_def fun_eq_iff)

lemma lend_swap:
  fixes t :: "(call, 'z) i2t_scheme"
  shows "lend k (t\<lparr>work_data := x\<rparr>) = (lend k t)\<lparr>work_data := x\<rparr>" "lend k (t\<lparr>i2c_fd := y\<rparr>) = (lend k t)\<lparr>i2c_fd := y\<rparr>"
    "lend k (t\<lparr>i2c_addr := z\<rparr>) = (lend k t)\<lparr>i2c_addr := z\<rparr>" "lend (k + j) (t\<lparr>blocks := blocks t + j\<rparr>) = lend k t"
  by (cases t, simp add: lend_def)+

lemma i2c_at_start:
  "wraps_wf s \<Longrightarrow> work_data s p = Some d \<Longrightarrow> i2c_at p d 0 (i2c_fd s) (i2c_addr s) [] s s"
  using quiet_work(1)[of s s] by (simp add: i2c_at_def fun_upd_idem)

lemma i2c_at_wf: "i2c_at p d k fd a tr s t \<Longrightarrow> wraps_wf t"
  by (simp add: i2c_at_def work_moved_def moved_def)

lemma i2c_at_data: "i2c_at p d k fd a tr s t \<Longrightarrow> work_data t p = Some d"
  by (simp add: i2c_at_def)

lemma i2c_at_event:
  fixes t :: "(call, 'z) i2t_scheme"
  assumes t: "i2c_at p d k fd a tr s t" and "\<forall>v. owned es v = 0" "natives es = []"
  shows "i2c_at p d k fd a (tr @ es) s (t\<lparr>trace := trace t @ es\<rparr>)"
proof -
  have "quiet t (t\<lparr>trace := trace t @ es\<rparr>)" unfolding quiet_def using assms(2,3) by (intro exI[of _ es]) simp
  then have q: "work_moved t (t\<lparr>trace := trace t @ es\<rparr>)" by (rule quiet_work(1)) (rule i2c_at_wf[OF t])
  have "work_moved s (lend k t)" using t by (simp add: i2c_at_def)
  from work_moved_lend_trans[OF this q] show ?thesis using t unfolding i2c_at_def by simp
qed

lemma i2c_at_sys: "i2c_at p d k fd a tr s t \<Longrightarrow> i2c_at p d k fd a (tr @ [ESys c r]) s (t\<lparr>trace := trace t @ [ESys c r]\<rparr>)"
  by (rule i2c_at_event) simp_all

lemma i2c_at_upd:
  assumes "i2c_at p d k fd a tr s t"
  shows "i2c_at p d' k fd a tr s (t\<lparr>work_data := (work_data t)(p \<mapsto> d')\<rparr>)"
    "i2c_at p d k fd' a tr s (t\<lparr>i2c_fd := fd'\<rparr>)"
    "i2c_at p d k fd a' tr s (t\<lparr>i2c_addr := a'\<rparr>)"
    "i2c_at p d (k + j) fd a tr s (t\<lparr>blocks := blocks t + j\<rparr>)"
  using assms by (simp_all add: i2c_at_def work_moved_def lend_swap)

text \<open>The rules of the primitives.\<close>

lemma at_sys:
  assumes "i2c_at p d k fd a tr s t"
    and "\<And>u r. i2c_at p d k fd a (tr @ [ESys c r]) s u \<Longrightarrow> r = e_sys E (trace s @ tr) c \<Longrightarrow> wp (f r) Q u"
  shows "wp (bnd (sys E c) f) Q t"
proof -
  have "trace t = trace s @ tr" using assms(1) by (simp add: i2c_at_def)
  then show ?thesis using assms(2)[OF i2c_at_sys[OF assms(1)]] by (simp add: wp_simps)
qed

lemma at_gets:
  assumes "i2c_at p d k fd a tr s t" and "wp (f (h t)) Q t"
  shows "wp (bnd (gets h) f) Q t"
  using assms(2) by (simp add: wp_simps)

lemma at_fields:
  "i2c_at p d k fd a tr s t \<Longrightarrow> i2c_fd t = fd" "i2c_at p d k fd a tr s t \<Longrightarrow> i2c_addr t = a"
  "i2c_at p d k fd a tr s t \<Longrightarrow> trace t = trace s @ tr"
  by (simp_all add: i2c_at_def)

lemma at_allocate:
  assumes "i2c_at p d k fd a tr s t" and "\<And>u. i2c_at p d (k + 1) fd a tr s u \<Longrightarrow> wp (f (replicate n NUL)) Q u"
  shows "wp (bnd (iotjs_buffer_allocate n) f) Q t"
  using assms(2)[OF i2c_at_upd(4)[OF assms(1), of 1]] by (simp add: wp_simps)

lemma at_upd_data:
  assumes "i2c_at p d k fd a tr s t" and "\<And>u. i2c_at p (f d) k fd a tr s u \<Longrightarrow> wp m Q u"
  shows "wp (sq (upd_work_data p f) m) Q t"
  using assms(2)[OF i2c_at_upd(1)[OF assms(1)]] i2c_at_data[OF assms(1)] by (simp add: wp_sq wp_work_data)

lemma at_release:
  assumes "i2c_at p d k fd a tr s t" "i2_buf_data d = Allocated bs"
  shows "wp (i2c_release p) (\<lambda>_. i2c_at p (d\<lparr>i2_buf_data := Released\<rparr>) (k - 1) fd a tr s) t"
proof -
  have "i2c_at p d (k - 1) fd a tr s (t\<lparr>blocks := blocks t - 1\<rparr>)" using i2c_at_upd(4)[OF assms(1), of "- 1"] by simp
  from i2c_at_upd(1)[OF this, of "d\<lparr>i2_buf_data := Released\<rparr>"] show ?thesis
    using i2c_at_data[OF assms(1)] assms(2) by (simp add: i2c_release_def wp_simps wp_work_data)
qed

lemma at_set_error:
  assumes "i2c_at p d k fd a tr s t"
  shows "wp (i2c_set_error p e) (\<lambda>_. i2c_at p (d\<lparr>i2_error := e\<rparr>) k fd a tr s) t"
  using i2c_at_upd(1)[OF assms, of "d\<lparr>i2_error := e\<rparr>"] i2c_at_data[OF assms]
  by (simp add: i2c_set_error_def wp_work_data)

lemma at_template:
  fixes s :: "(call, 'z) i2t_scheme"
  assumes "reqs s p = Some cb" "work_data s p = Some d"
  shows "wp (I2C_WORKER_INIT_TEMPLATE p body) Q s = wp (body p d (i2c_fd s)) Q s"
  using assms by (simp add: I2C_WORKER_INIT_TEMPLATE_def iotjs_i2c_reqwrap_from_request_def iotjs_i2c_reqwrap_data_def
    wp_bnd wp_work_from_request wp_work_data wp_gets)

section \<open>Workers\<close>

lemma OpenWorker_wp:
  fixes s :: "(call, 'z) i2t_scheme"
  assumes r: "wraps_wf s" "reqs s p = Some cb" "work_data s p = Some d"
    and fd: "fd = e_sys E (trace s) (SysOpen (string_text (i2_device d)))"
  shows "wp (OpenWorker E p) (\<lambda>_. i2c_at p (d\<lparr>i2_error := if fd = - 1 then kI2cErrOpen else kI2cErrOk\<rparr>) 0 fd (i2c_addr s)
    [ESys (SysOpen (string_text (i2_device d))) fd] s) s"
  unfolding OpenWorker_def at_template[OF r(2,3)]
proof (rule at_sys[OF i2c_at_start[OF r(1,3)]])
  fix u x
  assume u: "i2c_at p d 0 (i2c_fd s) (i2c_addr s) ([] @ [ESys (SysOpen (string_text (i2_device d))) x]) s u"
    and x: "x = e_sys E (trace s @ []) (SysOpen (string_text (i2_device d)))"
  have x: "x = fd" using x fd by simp
  show "wp (sq (upd (\<lambda>s. s\<lparr>i2c_fd := x\<rparr>)) (if x = - 1 then i2c_set_error p kI2cErrOpen else i2c_set_error p kI2cErrOk))
    (\<lambda>_. i2c_at p (d\<lparr>i2_error := if fd = - 1 then kI2cErrOpen else kI2cErrOk\<rparr>) 0 fd (i2c_addr s)
       [ESys (SysOpen (string_text (i2_device d))) fd] s) u"
    using at_set_error[OF i2c_at_upd(2)[OF u, of fd]] unfolding x wp_sq wp_upd by (cases "fd = - 1") simp_all
qed

lemma WriteWorker_wp:
  fixes s :: "(call, 'z) i2t_scheme"
  assumes r: "wraps_wf s" "reqs s p = Some cb" "work_data s p = Some d"
    and b: "i2_buf_data d = Allocated bs" "length bs = nat (i2_buf_len d)"
    and n: "n = e_sys E (trace s) (SysWrite (i2c_fd s) bs)"
  shows "wp (WriteWorker E p) (\<lambda>_. i2c_at p (d\<lparr>i2_error := if n \<noteq> i2_buf_len d then kI2cErrWrite else i2_error d,
    i2_buf_data := Released\<rparr>) (- 1) (i2c_fd s) (i2c_addr s) [ESys (SysWrite (i2c_fd s) bs) n] s) s"
proof -
  have pre: "i2c_prefix (i2_buf_data d) (i2_buf_len d) = ret bs"
    using b by (simp add: i2c_prefix_def i2c_bytes_def bnd_ret_left)
  show ?thesis
    unfolding WriteWorker_def at_template[OF r(2,3)] pre bnd_ret_left
  proof (rule at_sys[OF i2c_at_start[OF r(1,3)]])
    fix u x
    assume u: "i2c_at p d 0 (i2c_fd s) (i2c_addr s) ([] @ [ESys (SysWrite (i2c_fd s) bs) x]) s u"
      and x: "x = e_sys E (trace s @ []) (SysWrite (i2c_fd s) bs)"
    have x: "x = n" using x n by simp
    let ?d = "d\<lparr>i2_error := if n \<noteq> i2_buf_len d then kI2cErrWrite else i2_error d\<rparr>"
    have "wp (if n \<noteq> i2_buf_len d then i2c_set_error p kI2cErrWrite else ret ())
      (\<lambda>_. i2c_at p ?d 0 (i2c_fd s) (i2c_addr s) [ESys (SysWrite (i2c_fd s) bs) n] s) u"
      using at_set_error[OF u] u x by (cases "n = i2_buf_len d") (simp_all add: wp_ret)
    then show "wp (sq (if x \<noteq> i2_buf_len d then i2c_set_error p kI2cErrWrite else ret ()) (i2c_release p))
      (\<lambda>_. i2c_at p (d\<lparr>i2_error := if n \<noteq> i2_buf_len d then kI2cErrWrite else i2_error d,
        i2_buf_data := Released\<rparr>) (- 1) (i2c_fd s) (i2c_addr s) [ESys (SysWrite (i2c_fd s) bs) n] s) u"
      unfolding wp_sq x
    proof (rule wp_mono)
      fix y v
      assume v: "i2c_at p ?d 0 (i2c_fd s) (i2c_addr s) [ESys (SysWrite (i2c_fd s) bs) n] s v"
      have "i2_buf_data ?d = Allocated bs" using b by simp
      from at_release[OF v this] show "wp (i2c_release p) (\<lambda>_. i2c_at p (d\<lparr>i2_error := if n \<noteq> i2_buf_len d then kI2cErrWrite else i2_error d,
        i2_buf_data := Released\<rparr>) (- 1) (i2c_fd s) (i2c_addr s) [ESys (SysWrite (i2c_fd s) bs) n] s) v"
        by simp
    qed
  qed
qed

lemma length_read_into [simp]: "length (read_into bs blk) = length blk"
  by (simp add: read_into_def)

lemma read_into_full: "length blk \<le> length bs \<Longrightarrow> read_into bs blk = take (length blk) bs"
  by (simp add: read_into_def)

lemma ReadWorker_wp:
  fixes s :: "(call, 'z) i2t_scheme"
  assumes r: "wraps_wf s" "reqs s p = Some cb" "work_data s p = Some d"
    and c: "c = SysRead (i2c_fd s) (nat (i2_buf_len d))" and n: "n = e_sys E (trace s) c"
    and bs: "bs = read_into (take (nat n) (ans_data (lib_answer L (trace s @ [ESys c n])))) (replicate (nat (i2_buf_len d)) NUL)"
  shows "wp (ReadWorker E L p) (\<lambda>_. i2c_at p (d\<lparr>i2_buf_data := Allocated bs, i2_error := if n \<noteq> i2_buf_len d then kI2cErrRead else i2_error d\<rparr>)
    1 (i2c_fd s) (i2c_addr s) [ESys c n] s) s"
  unfolding ReadWorker_def at_template[OF r(2,3)]
proof (rule at_allocate[OF i2c_at_start[OF r(1,3)]], rule at_sys, assumption, goal_cases)
  case (1 u v x)
  have x: "x = n" using 1(3) n c by simp
  have v: "i2c_at p d 1 (i2c_fd s) (i2c_addr s) [ESys c n] s v" using 1(2) x c by simp
  have tr: "trace v = trace s @ [ESys c n]" by (rule at_fields(3)[OF v])
  show ?case
  proof (rule at_gets[OF v], rule at_upd_data[OF v], goal_cases)
    case (1 w)
    then have "i2c_at p (d\<lparr>i2_buf_data := Allocated bs\<rparr>) 1 (i2c_fd s) (i2c_addr s) [ESys c n] s w"
      unfolding tr x bs .
    from at_set_error[OF this] this show ?case
      unfolding x by (cases "n = i2_buf_len d") (simp_all add: wp_ret)
  qed
qed

text \<open>
  The bus: documented behaviour of the system call, which on success leaves in the union the bytes that the
  first of them announces, at most 32 for a block.
\<close>

definition smbus_block :: "int \<Rightarrow> char list \<Rightarrow> bool" where
  "smbus_block sz block \<longleftrightarrow> block \<noteq> [] \<and>
     (sz = I2C_SMBUS_I2C_BLOCK_DATA \<longrightarrow> of_char (hd block) \<le> (32 :: nat) \<and> of_char (hd block) < length block)"

definition smbus_law :: "call engine \<Rightarrow> fs_lib \<Rightarrow> bool" where
  "smbus_law E L \<longleftrightarrow> (\<forall>tr fd command sz data. 0 \<le> e_sys E tr (SysSmbus fd True command sz data) \<longrightarrow>
     smbus_block sz (take 34 (ans_data (lib_answer L (tr @ [ESys (SysSmbus fd True command sz data)
       (e_sys E tr (SysSmbus fd True command sz data))])))))"

lemma at_smbus:
  assumes t: "i2c_at p d k fd a tr s t"
    and rest: "\<And>u r block. i2c_at p d k fd a (tr @ [ESys (SysSmbus g is_read command sz data) r]) s u \<Longrightarrow>
      r = e_sys E (trace s @ tr) (SysSmbus g is_read command sz data) \<Longrightarrow>
      (smbus_law E L \<Longrightarrow> is_read \<Longrightarrow> 0 \<le> r \<Longrightarrow> smbus_block sz block) \<Longrightarrow> wp (f (r, block)) Q u"
  shows "wp (bnd (I2cSmbusAccess E L g is_read command sz data) f) Q t"
  unfolding I2cSmbusAccess_def bnd_assoc bnd_ret_left
proof (rule at_sys[OF t], rule at_gets, assumption)
  fix u r
  assume u: "i2c_at p d k fd a (tr @ [ESys (SysSmbus g is_read command sz data) r]) s u"
    and r: "r = e_sys E (trace s @ tr) (SysSmbus g is_read command sz data)"
  show "wp (f (r, take 34 (ans_data (lib_answer L (trace u))))) Q u"
  proof (rule rest[OF u r])
    assume a: "smbus_law E L" is_read "0 \<le> r"
    then show "smbus_block sz (take 34 (ans_data (lib_answer L (trace u))))"
      using r at_fields(3)[OF u] a(1)[unfolded smbus_law_def, rule_format, of "trace s @ tr" g command sz data] by simp
  qed
qed

text \<open>A worker has come to some data with the property \<open>P\<close>.\<close>

definition i2c_did ::
  "nat \<Rightarrow> (iotjs_i2c_reqdata_t \<Rightarrow> bool) \<Rightarrow> int \<Rightarrow> (call, 'z) i2t_scheme \<Rightarrow> (call, 'z) i2t_scheme \<Rightarrow> bool" where
  "i2c_did p P k s t \<longleftrightarrow> (\<exists>d fd a tr. P d \<and> i2c_at p d k fd a tr s t)"

lemma did_at: "i2c_at p d k fd a tr s t \<Longrightarrow> P d \<Longrightarrow> i2c_did p P k s t"
  unfolding i2c_did_def by blast

lemma did_set_error: "i2c_at p d k fd a tr s t \<Longrightarrow> P (d\<lparr>i2_error := e\<rparr>) \<Longrightarrow> wp (i2c_set_error p e) (\<lambda>_. i2c_did p P k s) t"
  by (rule wp_mono[OF at_set_error]) (auto intro: did_at)

lemma did_upd: "i2c_at p d k fd a tr s t \<Longrightarrow> P (f d) \<Longrightarrow> wp (upd_work_data p f) (\<lambda>_. i2c_did p P k s) t"
  using i2c_at_upd(1)[of p d k fd a tr s t "f d"] by (simp add: wp_work_data i2c_at_data did_at)

lemma WriteByteWorker_wp:
  fixes s :: "(call, 'z) i2t_scheme"
  assumes r: "wraps_wf s" "reqs s p = Some cb" "work_data s p = Some d" and P: "\<And>e. P (d\<lparr>i2_error := e\<rparr>)"
  shows "wp (WriteByteWorker E L p) (\<lambda>_. i2c_did p P 0 s) s"
  unfolding WriteByteWorker_def at_template[OF r(2,3)] I2cSmbusWriteByte_def bnd_assoc prod.case
proof (rule at_smbus[OF i2c_at_start[OF r(1,3)]])
  fix u n block
  assume u: "i2c_at p d 0 (i2c_fd s) (i2c_addr s) ([] @ [ESys (SysSmbus (i2c_fd s) False (i2_byte d) I2C_SMBUS_BYTE None) n]) s u"
  have "P d" using P[of "i2_error d"] by simp
  then show "wp (bnd (case (n, block) of (result, uu) \<Rightarrow> ret result) (\<lambda>result. if result = - 1 then i2c_set_error p kI2cErrWrite else ret ()))
    (\<lambda>_. i2c_did p P 0 s) u"
    using did_set_error[OF u] did_at[OF u] P by (simp add: bnd_ret_left wp_ret)
qed

lemma WriteBlockWorker_wp:
  fixes s :: "(call, 'z) i2t_scheme"
  assumes r: "wraps_wf s" "reqs s p = Some cb" "work_data s p = Some d"
    and b: "i2_buf_data d = Allocated bs" "length bs = nat (i2_buf_len d)" and P: "\<And>e. P (d\<lparr>i2_error := e, i2_buf_data := Released\<rparr>)"
  shows "wp (WriteBlockWorker E L p) (\<lambda>_. i2c_did p P (- 1) s) s"
proof -
  have pre: "i2c_prefix (i2_buf_data d) (min (i2_buf_len d) (int I2C_SMBUS_BLOCK_MAX)) = ret (take (nat (min (i2_buf_len d) 32)) bs)"
    using b nat_mono[OF min.cobounded1, of "i2_buf_len d" 32] by (simp add: i2c_prefix_def i2c_bytes_def bnd_ret_left)
  have len: "(length (take (nat (min (i2_buf_len d) 32)) bs) < min (nat (i2_buf_len d)) 32) = False" using b(2) by simp
  let ?n = "min (nat (i2_buf_len d)) 32"
  let ?c = "Some (byte_of (int ?n) # take ?n (take (nat (min (i2_buf_len d) 32)) bs))"
  show ?thesis
    unfolding WriteBlockWorker_def at_template[OF r(2,3)] pre bnd_ret_left I2cSmbusWriteI2cBlockData_def Let_def len if_False bnd_assoc
  proof (rule at_smbus[OF i2c_at_start[OF r(1,3)]])
    fix u n block
    assume u: "i2c_at p d 0 (i2c_fd s) (i2c_addr s) ([] @ [ESys (SysSmbus (i2c_fd s) False (i2_cmd d) I2C_SMBUS_BLOCK_DATA ?c) n]) s u"
    let ?e = "if n = - 1 then kI2cErrWrite else i2_error d"
    have "wp (if n = - 1 then i2c_set_error p kI2cErrWrite else ret ())
      (\<lambda>_. i2c_at p (d\<lparr>i2_error := ?e\<rparr>) 0 (i2c_fd s) (i2c_addr s)
        ([] @ [ESys (SysSmbus (i2c_fd s) False (i2_cmd d) I2C_SMBUS_BLOCK_DATA ?c) n]) s) u"
      using at_set_error[OF u] u by (cases "n = - 1") (simp_all add: wp_ret)
    then have "wp (sq (if n = - 1 then i2c_set_error p kI2cErrWrite else ret ()) (i2c_release p)) (\<lambda>_. i2c_did p P (- 1) s) u"
      unfolding wp_sq
    proof (rule wp_mono)
      fix y v
      assume v: "i2c_at p (d\<lparr>i2_error := ?e\<rparr>) 0 (i2c_fd s) (i2c_addr s)
        ([] @ [ESys (SysSmbus (i2c_fd s) False (i2_cmd d) I2C_SMBUS_BLOCK_DATA ?c) n]) s v"
      have "i2_buf_data (d\<lparr>i2_error := ?e\<rparr>) = Allocated bs" using b by simp
      from at_release[OF v this] show "wp (i2c_release p) (\<lambda>_. i2c_did p P (- 1) s) v"
        by (rule wp_mono) (use did_at P[of ?e] in fastforce)
    qed
    then show "wp (bnd (case (n, block) of (result, uu) \<Rightarrow> ret result) (\<lambda>result.
       sq (if result = - 1 then i2c_set_error p kI2cErrWrite else ret ()) (i2c_release p))) (\<lambda>_. i2c_did p P (- 1) s) u"
      by (simp add: bnd_ret_left)
  qed
qed

lemma at_read_byte:
  assumes t: "i2c_at p d k fd a tr s t" and law: "smbus_law E L"
    and rest: "\<And>u x e. i2c_at p d k fd a (tr @ [e]) s u \<Longrightarrow> wp (f x) Q u"
  shows "wp (bnd (I2cSmbusReadByte E L g) f) Q t"
  unfolding I2cSmbusReadByte_def bnd_assoc prod.case
proof (rule at_smbus[OF t], goal_cases)
  case (1 u r block)
  have "wp (bnd (if 0 \<le> r then bnd (block_byte block 0) (\<lambda>c. ret (int (of_char c))) else ret (- 1)) f) Q u"
  proof (cases "0 \<le> r")
    case True
    then have "block \<noteq> []" using 1(3)[OF law TrueI] by (simp add: smbus_block_def)
    then show ?thesis using True rest[OF 1(1)] by (simp add: block_byte_def bnd_ret_left)
  next
    case False
    then show ?thesis using rest[OF 1(1)] by (simp add: bnd_ret_left)
  qed
  then show ?case by simp
qed

lemma ReadByteWorker_wp:
  fixes s :: "(call, 'z) i2t_scheme"
  assumes r: "wraps_wf s" "reqs s p = Some cb" "work_data s p = Some d" and law: "smbus_law E L"
    and P: "\<And>e x. P (d\<lparr>i2_error := e\<rparr>)" "\<And>x. P (d\<lparr>i2_byte := x\<rparr>)"
  shows "wp (ReadByteWorker E L p) (\<lambda>_. i2c_did p P 0 s) s"
  unfolding ReadByteWorker_def at_template[OF r(2,3)]
proof (rule at_read_byte[OF i2c_at_start[OF r(1,3)] law])
  fix u :: "(call, 'z) i2t_scheme" and x e
  assume u: "i2c_at p d 0 (i2c_fd s) (i2c_addr s) ([] @ [e]) s u"
  show "wp (if x = - 1 then i2c_set_error p kI2cErrRead else upd_work_data p (\<lambda>d. d\<lparr>i2_byte := x\<rparr>)) (\<lambda>_. i2c_did p P 0 s) u"
    using did_set_error[OF u, of P] did_upd[OF u, of P] P by simp
qed

lemma at_fold:
  assumes "\<And>x i u tr. i2c_at p d k fd a tr s u \<Longrightarrow> I x \<Longrightarrow> wp (g x i) (\<lambda>y v. I y \<and> (\<exists>tr. i2c_at p d k fd a tr s v)) u"
    and "i2c_at p d k fd a tr s t" "I x"
  shows "wp (fold_prog g x ks) (\<lambda>y v. I y \<and> (\<exists>tr. i2c_at p d k fd a tr s v)) t"
  using assms(2,3)
proof (induction ks arbitrary: x t tr)
  case Nil
  then show ?case by (auto simp: wp_ret)
next
  case (Cons i ks)
  show ?case
    unfolding fold_prog.simps wp_bnd
    by (rule wp_mono[OF assms(1)[OF Cons.prems]]) (use Cons.IH in blast)
qed

lemma scan_address_wp:
  assumes t: "i2c_at p d k fd a tr s t" and law: "smbus_law E L"
  shows "wp (scan_address E L g i) (\<lambda>_ v. \<exists>tr. i2c_at p d k fd a tr s v) t"
  unfolding scan_address_def
proof (rule at_sys[OF t], goal_cases)
  case (1 u r)
  show ?case
  proof (cases "(0x30 \<le> i \<and> i \<le> 0x37) \<or> (0x50 \<le> i \<and> i \<le> 0x5F)")
    case True
    show ?thesis
      unfolding if_P[OF True] by (rule at_read_byte[OF 1(1) law]) (auto simp: wp_ret)
  next
    case False
    show ?thesis
      unfolding if_not_P[OF False] bnd_assoc by (rule at_smbus[OF 1(1)]) (auto simp: wp_ret bnd_ret_left)
  qed
qed

lemma ScanWorker_wp:
  fixes s :: "(call, 'z) i2t_scheme"
  assumes r: "wraps_wf s" "reqs s p = Some cb" "work_data s p = Some d" and law: "smbus_law E L"
    and P: "\<And>bs. length bs = I2C_MAX_ADDRESS \<Longrightarrow> P (d\<lparr>i2_buf_len := int I2C_MAX_ADDRESS, i2_buf_data := Allocated bs\<rparr>)"
  shows "wp (ScanWorker E L p) (\<lambda>_. i2c_did p P 1 s) s"
  unfolding ScanWorker_def at_template[OF r(2,3)]
proof (rule at_allocate[OF i2c_at_start[OF r(1,3)]], rule at_upd_data, assumption, goal_cases)
  case (1 u v)
  let ?d = "d\<lparr>i2_buf_len := int I2C_MAX_ADDRESS\<rparr>"
  have v: "i2c_at p ?d 1 (i2c_fd s) (i2c_addr s) [] s v" using 1(2) by simp
  show ?case
    unfolding wp_bnd[of "fold_prog _ _ _"]
  proof (rule wp_mono, rule at_fold[where I = "\<lambda>bs. length bs = I2C_MAX_ADDRESS", OF _ v], goal_cases)
    case (1 bs i w tr)
    then show ?case
      unfolding wp_bnd by (intro wp_mono[OF scan_address_wp[OF 1(1) law]]) (simp add: wp_ret)
  next
    case 2
    then show ?case by simp
  next
    case (3 bs w)
    then obtain tr where w: "i2c_at p ?d 1 (i2c_fd s) (i2c_addr s) tr s w" and len: "length bs = I2C_MAX_ADDRESS" by blast
    show ?case
    proof (rule at_upd_data[OF w], goal_cases)
      case (1 z)
      show ?case
        by (rule at_gets[OF 1], rule at_sys[OF 1]) (use P[OF len] in \<open>auto simp: wp_ret intro: did_at\<close>)
    qed
  qed
qed

lemma read_block_loop:
  "(\<forall>i\<in>set ks. i < 34 \<and> i < length block) \<Longrightarrow>
   fold_prog (\<lambda>values i. if I2C_SMBUS_BLOCK_MAX + 2 \<le> i then fail (OutOfBounds ''data.block'')
     else bnd (block_byte block i) (\<lambda>c. ret (values @ [c]))) vs ks = ret (vs @ map ((!) block) ks)"
  by (induction ks arbitrary: vs) (simp_all add: block_byte_def bnd_ret_left)

text \<open>The part of a block read that comes before the copy.\<close>

lemma read_i2c_block_wp:
  assumes t: "i2c_at p d k fd a tr s t" and law: "smbus_law E L"
  shows "wp (I2cSmbusReadI2cBlockData E L f c n) (\<lambda>_ u. \<exists>tr. i2c_at p d k fd a tr s u) t"
  unfolding I2cSmbusReadI2cBlockData_def
proof (rule at_smbus[OF t], goal_cases)
  case (1 u r block)
  show ?case
  proof (cases "0 \<le> r")
    case True
    then have b: "block \<noteq> []" "of_char (hd block) \<le> (32 :: nat)" "of_char (hd block) < length block"
      using 1(3)[OF law TrueI] by (simp_all add: smbus_block_def)
    then have "\<forall>i\<in>set [1..<Suc (of_char (hd block))]. i < 34 \<and> i < length block" by auto
    note loop = read_block_loop[OF this]
    have "block_byte block 0 = (ret (hd block) :: ((call, 'a) i2t_scheme, char) prog)" using b(1) by (simp add: block_byte_def hd_conv_nth)
    show ?thesis
      by (simp only: prod.case if_P[OF True] \<open>block_byte block 0 = ret (hd block)\<close> bnd_ret_left loop wp_ret) (use 1(1) in blast)
  next
    case False
    then show ?thesis using 1(1) by (auto simp: wp_ret)
  qed
qed

lemma ReadBlockWorker_wp:
  fixes s :: "(call, 'z) i2t_scheme"
  assumes r: "wraps_wf s" "reqs s p = Some cb" "work_data s p = Some d" and law: "smbus_law E L"
    and len: "i2_buf_len d \<le> 34"
    and P: "\<And>bs e. length bs = nat (i2_buf_len d) \<Longrightarrow> P (d\<lparr>i2_error := e, i2_buf_data := Allocated bs\<rparr>)"
  shows "wp (ReadBlockWorker E L p) (\<lambda>_. i2c_did p P 1 s) s"
  unfolding ReadBlockWorker_def at_template[OF r(2,3)] wp_bnd[of "I2cSmbusReadI2cBlockData _ _ _ _ _"]
proof (rule wp_mono[OF read_i2c_block_wp[OF i2c_at_start[OF r(1,3)] law]], elim exE)
  fix x :: "int \<times> char list" and tr and u :: "(call, 'z) i2t_scheme"
  assume u: "i2c_at p d 0 (i2c_fd s) (i2c_addr s) tr s u"
  obtain n data where x: "x = (n, data)" by (cases x)
  let ?e = "if n \<noteq> i2_buf_len d then kI2cErrReadBlock else i2_error d"
  have fits: "(I2C_SMBUS_BLOCK_MAX + 2 < nat (i2_buf_len d)) = False" using len by simp
  have "wp (if n \<noteq> i2_buf_len d then i2c_set_error p kI2cErrReadBlock else ret ())
    (\<lambda>_. i2c_at p (d\<lparr>i2_error := ?e\<rparr>) 0 (i2c_fd s) (i2c_addr s) tr s) u"
    using at_set_error[OF u] u by (cases "n = i2_buf_len d") (simp_all add: wp_ret)
  then show "wp (case x of (result, data) \<Rightarrow> sq (if result \<noteq> i2_buf_len d then i2c_set_error p kI2cErrReadBlock else ret ())
    (bnd (iotjs_buffer_allocate (nat (i2_buf_len d))) (\<lambda>blk.
     if I2C_SMBUS_BLOCK_MAX + 2 < nat (i2_buf_len d) then fail (OutOfBounds ''data'')
     else upd_work_data p (\<lambda>d. d\<lparr>i2_buf_data := Allocated (read_into data blk)\<rparr>)))) (\<lambda>_. i2c_did p P 1 s) u"
    unfolding x prod.case wp_sq fits if_False
  proof (rule wp_mono, goal_cases)
    case (1 y v)
    show ?case
    proof (rule at_allocate[OF 1], goal_cases)
      case (1 w)
      then have "i2c_at p (d\<lparr>i2_error := ?e\<rparr>) 1 (i2c_fd s) (i2c_addr s) tr s w" by simp
      from did_upd[OF this] show ?case by (simp add: P)
    qed
  qed
qed

section \<open>Completion\<close>

text \<open>
  The arguments \<open>vs\<close> are in the vector, \<open>j\<close> blocks of the request have been released, and its data are
  \<open>d\<close>.
\<close>

definition i2c_built ::
  "nat \<Rightarrow> iotjs_i2c_reqdata_t \<Rightarrow> int \<Rightarrow> jval list \<Rightarrow> (call, 'z) i2t_scheme \<Rightarrow> iotjs_jargs_t \<Rightarrow> (call, 'z) i2t_scheme \<Rightarrow> bool" where
  "i2c_built p d j vs s a t \<longleftrightarrow> a = jargs_of 2 vs \<and> length vs \<le> 2 \<and> (\<exists>tr.
     t = s\<lparr>blocks := blocks s + 1 - j, trace := trace s @ tr, work_data := (work_data s)(p \<mapsto> d)\<rparr> \<and>
     (\<forall>v. owned tr v = int (count_list vs v)) \<and> natives tr = [] \<and> calls tr = [])"

lemma built_start:
  fixes s :: "(call, 'z) i2t_scheme"
  assumes "work_data s p = Some d"
  shows "i2c_built p d 0 [] s (jargs_of 2 []) (s\<lparr>blocks := blocks s + 1\<rparr>)"
proof -
  have "s\<lparr>blocks := blocks s + 1\<rparr> = s\<lparr>blocks := blocks s + 1 - 0, trace := trace s @ [], work_data := (work_data s)(p \<mapsto> d)\<rparr>"
    using assms by (cases s) (simp add: fun_upd_idem)
  then show ?thesis unfolding i2c_built_def by (intro conjI exI[of _ "[]"]) simp_all
qed

lemma built_data: "i2c_built p d j vs s a t \<Longrightarrow> work_data t p = Some d"
  unfolding i2c_built_def by auto

lemma built_append:
  fixes s t :: "(call, 'z) i2t_scheme"
  assumes "i2c_built p d j vs s a t" and "\<forall>v. owned es v = int (count_list ws v)" "natives es = []" "calls es = []"
    and "length vs + length ws \<le> 2"
  shows "i2c_built p d j (vs @ ws) s (jargs_of 2 (vs @ ws)) (t\<lparr>trace := trace t @ es\<rparr>)"
proof -
  obtain tr where "t = s\<lparr>blocks := blocks s + 1 - j, trace := trace s @ tr, work_data := (work_data s)(p \<mapsto> d)\<rparr>"
    "\<forall>v. owned tr v = int (count_list vs v)" "natives tr = []" "calls tr = []" using assms(1) by (auto simp: i2c_built_def)
  then show ?thesis using assms(2-5) unfolding i2c_built_def by (intro conjI exI[of _ "tr @ es"]) simp_all
qed

lemma built_null:
  assumes "i2c_built p d j vs s a t" "length vs < 2"
  shows "wp (iotjs_jargs_append_null a) (i2c_built p d j (vs @ [JNull]) s) t"
proof -
  have "a = jargs_of 2 vs" using assms(1) by (simp add: i2c_built_def)
  then show ?thesis using built_append[OF assms(1), of "[EAcquire JNull]" "[JNull]"] assms(2) by (simp add: wp_simps)
qed

lemma built_number:
  assumes "i2c_built p d j vs s a t" "length vs < 2"
  shows "wp (iotjs_jargs_append_number a x) (i2c_built p d j (vs @ [JNumber x]) s) t"
proof -
  have "a = jargs_of 2 vs" using assms(1) by (simp add: i2c_built_def)
  then show ?thesis
    using built_append[OF assms(1), of "[ECreate (JNumber x), EAcquire (JNumber x), ERelease (JNumber x)]" "[JNumber x]"] assms(2)
    by (simp add: wp_simps)
qed

lemma built_error:
  assumes "i2c_built p d j vs s a t" "length vs < 2"
  shows "wp (append_error E a msg) (\<lambda>a u. \<exists>n. i2c_built p d j (vs @ [JObject n]) s a u) t"
proof -
  let ?x = "JObject (e_new E (trace t))"
  have "a = jargs_of 2 vs" using assms(1) by (simp add: i2c_built_def)
  moreover have "i2c_built p d j (vs @ [?x]) s (jargs_of 2 (vs @ [?x]))
      (t\<lparr>trace := trace t @ [ECreateError ?x IOTJS_ERROR_COMMON msg, EAcquire ?x, ERelease ?x]\<rparr>)"
    by (rule built_append[OF assms(1)]) (use assms(2) in auto)
  ultimately show ?thesis using assms(2) by (auto simp: append_error_def wp_simps)
qed

text \<open>An array of bytes: its elements are the values of the bytes.\<close>

lemma byte_array_wp:
  fixes s :: "('c, 'z) rt_scheme"
  assumes "n \<le> length bs"
  shows "wp (iotjs_jval_create_byte_array E n (Some bs)) (\<lambda>x t. \<exists>es. t = s\<lparr>trace := trace s @ es\<rparr> \<and> is_array x \<and>
    (\<forall>v. owned es v = ref1 x v) \<and> natives es = [] \<and> calls es = [] \<and>
    (\<forall>i<n. ESetIndex x i (JNumber (num (char_value (bs ! i)))) \<in> set es)) s"
proof -
  let ?x = "JArray (e_new E (trace s))"
  let ?body = "\<lambda>i. if i < length bs then bnd (iotjs_jval_create_number (num (char_value (bs ! i)))) (\<lambda>v.
      sq (set_index ?x i v) (emit (ERelease v))) else fail (OutOfBounds ''iotjs_jval_create_byte_array'')"
  let ?es = "\<lambda>i. let v = JNumber (num (char_value (bs ! i))) in [ECreate v, ESetIndex ?x i v, ERelease v]"
  have loop: "wp (for_each ks ?body) (\<lambda>_ t. t = u\<lparr>trace := trace u @ concat (map ?es ks)\<rparr>) u"
    if "\<forall>i\<in>set ks. i < length bs" for ks and u :: "('c, 'z) rt_scheme"
    using that
  proof (induction ks arbitrary: u)
    case (Cons i ks)
    have i: "i < length bs" using Cons.prems by simp
    let ?u = "u\<lparr>trace := trace u @ ?es i\<rparr>"
    have "wp (for_each ks ?body) (\<lambda>_ t. t = ?u\<lparr>trace := trace ?u @ concat (map ?es ks)\<rparr>) ?u"
      by (rule Cons.IH) (use Cons.prems in simp)
    then show ?case using i by (simp add: wp_simps set_index_def Let_def)
  qed (simp add: wp_simps)
  have "\<forall>i\<in>set [0..<n]. i < length bs" using assms by auto
  note l = loop[OF this, of "s\<lparr>trace := trace s @ [ECreate ?x]\<rparr>"]
  have own: "owned (concat (map ?es ks)) v = 0" "natives (concat (map ?es ks)) = []" "calls (concat (map ?es ks)) = []" for ks v
    by (induction ks) (simp_all add: Let_def)
  have mem: "\<forall>i<n. ESetIndex ?x i (JNumber (num (char_value (bs ! i)))) \<in> set (concat (map ?es [0..<n]))"
    by (auto simp: Let_def)
  let ?tr = "ECreate ?x # concat (map ?es [0..<n])"
  have "wp (for_each [0..<n] ?body) (\<lambda>_ t. t = s\<lparr>trace := trace s @ ?tr\<rparr>) (s\<lparr>trace := trace s @ [ECreate ?x]\<rparr>)"
    using l by simp
  then have "wp (iotjs_jval_create_byte_array E n (Some bs)) (\<lambda>x t. x = ?x \<and> t = s\<lparr>trace := trace s @ ?tr\<rparr>) s"
    unfolding iotjs_jval_create_byte_array_def option.case jerry_create_def
    by (simp add: wp_bnd wp_sq wp_gets wp_emit wp_ret) (erule wp_mono, simp add: wp_ret)
  then show ?thesis
  proof (rule wp_mono, elim conjE)
    fix x t
    assume x: "x = ?x" "t = s\<lparr>trace := trace s @ ?tr\<rparr>"
    have "\<forall>i<n. ESetIndex x i (JNumber (num (char_value (bs ! i)))) \<in> set ?tr"
      unfolding x(1) using mem by (simp del: set_concat)
    moreover have "\<forall>v. owned ?tr v = ref1 x v" "natives ?tr = []" "calls ?tr = []" "is_array x" using own x(1) by auto
    ultimately show "\<exists>es. t = s\<lparr>trace := trace s @ es\<rparr> \<and> is_array x \<and> (\<forall>v. owned es v = ref1 x v) \<and> natives es = [] \<and>
      calls es = [] \<and> (\<forall>i<n. ESetIndex x i (JNumber (num (char_value (bs ! i)))) \<in> set es)" using x(2) by blast
  qed
qed

lemma built_array:
  fixes s t :: "(call, 'z) i2t_scheme"
  assumes b: "i2c_built p d j [] s a t" "i2_buf_data d = Allocated bs" "nat (i2_buf_len d) \<le> length bs"
  shows "wp (append_bytes_array E a d) (\<lambda>a u. \<exists>x. is_array x \<and> i2c_built p d j [JNull, x] s a u \<and>
    (\<forall>i<nat (i2_buf_len d). ESetIndex x i (JNumber (num (char_value (bs ! i)))) \<in> set (trace u))) t"
  unfolding append_bytes_array_def wp_bnd[of "iotjs_jargs_append_null _"]
proof (rule wp_mono[OF built_null[OF b(1)]], simp)
  fix a' u
  assume u: "i2c_built p d j ([] @ [JNull]) s a' u"
  then have a: "a' = jargs_of 2 [JNull]" by (simp add: i2c_built_def)
  have bb: "i2c_bytes (i2_buf_data d) = ret (Some bs)" using b(2) by (simp add: i2c_bytes_def)
  show "wp (bnd (i2c_bytes (i2_buf_data d)) (\<lambda>bytes.
     bnd (iotjs_jval_create_byte_array E (nat (i2_buf_len d)) bytes) (\<lambda>result.
     bnd (iotjs_jargs_append_jval a' result) (\<lambda>jargs.
     sq (iotjs_jval_destroy result) (ret jargs)))))
   (\<lambda>a u. \<exists>x. is_array x \<and> i2c_built p d j [JNull, x] s a u \<and>
    (\<forall>i<nat (i2_buf_len d). ESetIndex x i (JNumber (num (char_value (bs ! i)))) \<in> set (trace u))) u"
    unfolding bb bnd_ret_left wp_bnd[of "iotjs_jval_create_byte_array _ _ _"]
  proof (rule wp_mono[OF byte_array_wp[OF b(3)]], elim exE conjE)
    fix x v es
    assume v: "v = u\<lparr>trace := trace u @ es\<rparr>" "is_array x" "\<forall>w. owned es w = ref1 x w" "natives es = []" "calls es = []"
      and m: "\<forall>i<nat (i2_buf_len d). ESetIndex x i (JNumber (num (char_value (bs ! i)))) \<in> set es"
    have "i2c_built p d j ([JNull] @ [x]) s (jargs_of 2 ([JNull] @ [x])) (u\<lparr>trace := trace u @ es @ [EAcquire x, ERelease x]\<rparr>)"
      by (rule built_append[where ws = "[x]"]) (use u v in auto)
    then show "wp (bnd (iotjs_jargs_append_jval a' x) (\<lambda>jargs. sq (iotjs_jval_destroy x) (ret jargs)))
      (\<lambda>a u. \<exists>x. is_array x \<and> i2c_built p d j [JNull, x] s a u \<and>
        (\<forall>i<nat (i2_buf_len d). ESetIndex x i (JNumber (num (char_value (bs ! i)))) \<in> set (trace u))) v"
      unfolding a v(1) using v(2) m by (auto simp: wp_simps)
  qed
qed

lemma built_release:
  fixes s t :: "(call, 'z) i2t_scheme"
  assumes "i2c_built p d j vs s a t" "i2_buf_data d = Allocated bs"
  shows "wp (i2c_release p) (\<lambda>_ u. i2c_built p (d\<lparr>i2_buf_data := Released\<rparr>) (j + 1) vs s a u \<and> trace u = trace t) t"
proof -
  obtain tr where t: "t = s\<lparr>blocks := blocks s + 1 - j, trace := trace s @ tr, work_data := (work_data s)(p \<mapsto> d)\<rparr>"
    "\<forall>v. owned tr v = int (count_list vs v)" "natives tr = []" "calls tr = []" "a = jargs_of 2 vs" "length vs \<le> 2"
    using assms(1) by (auto simp: i2c_built_def)
  let ?d = "d\<lparr>i2_buf_data := Released\<rparr>"
  let ?u = "t\<lparr>blocks := blocks t - 1, work_data := (work_data t)(p \<mapsto> ?d)\<rparr>"
  have "?u = s\<lparr>blocks := blocks s + 1 - (j + 1), trace := trace s @ tr, work_data := (work_data s)(p \<mapsto> ?d)\<rparr>"
    unfolding t(1) by (cases s) simp
  then have "i2c_built p ?d (j + 1) vs s a ?u" unfolding i2c_built_def using t(2-) by blast
  then show ?thesis
    using built_data[OF assms(1)] assms(2) by (simp add: i2c_release_def wp_simps wp_work_data)
qed

text \<open>What the callback gets, by operation and error; how many blocks are released.\<close>

definition i2c_done ::
  "nat \<Rightarrow> iotjs_i2c_reqdata_t \<Rightarrow> int \<Rightarrow> (jval list \<Rightarrow> call ev list \<Rightarrow> bool) \<Rightarrow> (call, 'z) i2t_scheme \<Rightarrow> iotjs_jargs_t \<Rightarrow> (call, 'z) i2t_scheme \<Rightarrow> bool" where
  "i2c_done p d j R s a t \<longleftrightarrow> (\<exists>vs d'. i2c_built p d' j vs s a t \<and> vs \<noteq> [] \<and> R vs (trace t) \<and> i2_device d' = i2_device d)"

definition array_answer :: "iotjs_i2c_reqdata_t \<Rightarrow> char list \<Rightarrow> jval list \<Rightarrow> call ev list \<Rightarrow> bool" where
  "array_answer d bs vs tr \<longleftrightarrow> (\<exists>x. is_array x \<and> vs = [JNull, x] \<and>
     (\<forall>i<nat (i2_buf_len d). ESetIndex x i (JNumber (num (char_value (bs ! i)))) \<in> set tr))"

lemma done_mono:
  "i2c_done p d j R s a t \<Longrightarrow> (\<And>vs tr. R vs tr \<Longrightarrow> R' vs tr) \<Longrightarrow> j = j' \<Longrightarrow> i2c_done p d j' R' s a t"
  unfolding i2c_done_def by blast

lemma done_error:
  assumes "i2c_built p d 0 [] s a t"
  shows "wp (append_error E a msg) (i2c_done p d 0 (\<lambda>vs _. \<exists>n. vs = [JObject n]) s) t"
  by (rule wp_mono[OF built_error[OF assms]]) (auto simp: i2c_done_def)

lemma done_error_null:
  assumes "i2c_built p d 0 [] s a t"
  shows "wp (bnd (append_error E a msg) iotjs_jargs_append_null) (i2c_done p d 0 (\<lambda>vs _. \<exists>n. vs = [JObject n, JNull]) s) t"
  unfolding wp_bnd
proof (rule wp_mono[OF built_error[OF assms]], simp, elim exE)
  fix a u n
  assume "i2c_built p d 0 ([] @ [JObject n]) s a u"
  from built_null[OF this] show "wp (iotjs_jargs_append_null a) (i2c_done p d 0 (\<lambda>vs _. \<exists>n. vs = [JObject n, JNull]) s) u"
    by (simp, elim wp_mono) (auto simp: i2c_done_def)
qed

lemma done_null:
  assumes "i2c_built p d 0 [] s a t"
  shows "wp (iotjs_jargs_append_null a) (i2c_done p d 0 (\<lambda>vs _. vs = [JNull]) s) t"
  using built_null[OF assms] by (simp, elim wp_mono) (auto simp: i2c_done_def)

lemma done_array:
  fixes s t :: "(call, 'z) i2t_scheme"
  assumes b: "i2c_built p d 0 [] s a t" "i2_buf_data d = Allocated bs" "nat (i2_buf_len d) \<le> length bs"
    and m: "\<And>vs u a. i2c_built p d 0 vs s a u \<Longrightarrow> wp m (\<lambda>_ v. i2c_built p d 0 vs s a v \<and> set (trace u) \<subseteq> set (trace v)) u"
  shows "wp (bnd (append_bytes_array E a d) (\<lambda>jargs. sq m (sq (i2c_release p) (ret jargs)))) (i2c_done p d 1 (array_answer d bs) s) t"
  unfolding wp_bnd
proof (rule wp_mono[OF built_array[OF b]], elim exE conjE)
  fix a u x
  assume x: "is_array x" "i2c_built p d 0 [JNull, x] s a u"
    "\<forall>i<nat (i2_buf_len d). ESetIndex x i (JNumber (num (char_value (bs ! i)))) \<in> set (trace u)"
  show "wp (sq m (sq (i2c_release p) (ret a))) (i2c_done p d 1 (array_answer d bs) s) u"
    unfolding wp_sq
  proof (rule wp_mono[OF m[OF x(2)]], elim conjE)
    fix y v
    assume v: "i2c_built p d 0 [JNull, x] s a v" "set (trace u) \<subseteq> set (trace v)"
    show "wp (i2c_release p) (\<lambda>_. wp (ret a) (i2c_done p d 1 (array_answer d bs) s)) v"
    proof (rule wp_mono[OF built_release[OF v(1) b(2)]], elim conjE)
      fix z w
      assume w: "i2c_built p (d\<lparr>i2_buf_data := Released\<rparr>) (0 + 1) [JNull, x] s a w" "trace w = trace v"
      have "array_answer d bs [JNull, x] (trace w)" using x(1,3) v(2) w(2) unfolding array_answer_def by auto
      moreover have "i2_device (d\<lparr>i2_buf_data := Released\<rparr>) = i2_device d" by simp
      ultimately have "i2c_done p d 1 (array_answer d bs) s a w" using w(1) unfolding i2c_done_def by fastforce
      then show "wp (ret a) (i2c_done p d 1 (array_answer d bs) s) w" by (simp add: wp_ret)
    qed
  qed
qed

text \<open>The blocks that the completion releases, and the arguments of the callback.\<close>

definition i2c_released :: "iotjs_i2c_reqdata_t \<Rightarrow> int" where
  "i2c_released d = (if i2_op d = kI2cOpScan \<or>
     (i2_op d \<in> {kI2cOpRead, kI2cOpReadBlock} \<and> i2_error d \<notin> {kI2cErrRead, kI2cErrReadBlock}) then 1 else 0)"

definition i2c_answer :: "iotjs_i2c_reqdata_t \<Rightarrow> jval list \<Rightarrow> call ev list \<Rightarrow> bool" where
  "i2c_answer d vs tr \<longleftrightarrow> (case i2_op d of
     kI2cOpOpen \<Rightarrow> if i2_error d = kI2cErrOpen then \<exists>n. vs = [JObject n] else vs = [JNull]
   | kI2cOpScan \<Rightarrow> \<exists>bs. i2_buf_data d = Allocated bs \<and> array_answer d bs vs tr
   | kI2cOpRead \<Rightarrow> if i2_error d \<in> {kI2cErrRead, kI2cErrReadBlock} then \<exists>n. vs = [JObject n, JNull]
       else \<exists>bs. i2_buf_data d = Allocated bs \<and> array_answer d bs vs tr
   | kI2cOpReadBlock \<Rightarrow> if i2_error d \<in> {kI2cErrRead, kI2cErrReadBlock} then \<exists>n. vs = [JObject n, JNull]
       else \<exists>bs. i2_buf_data d = Allocated bs \<and> array_answer d bs vs tr
   | kI2cOpReadByte \<Rightarrow> if i2_error d = kI2cErrRead then \<exists>n. vs = [JObject n, JNull] else vs = [JNull, JNumber (num (i2_byte d))]
   | _ \<Rightarrow> if i2_error d = kI2cErrWrite then \<exists>n. vs = [JObject n] else vs = [JNull])"

lemma answer_mono:
  assumes "i2c_answer d vs tr" "set tr \<subseteq> set tr'"
  shows "i2c_answer d vs tr'"
proof -
  have "array_answer d bs vs tr'" if "array_answer d bs vs tr" for bs
    using that assms(2) by (auto simp: array_answer_def)
  then show ?thesis using assms(1) by (auto simp: i2c_answer_def split: I2cOp.splits if_splits)
qed

text \<open>The data that a request may have before its worker has run, and when it has.\<close>

definition i2c_ok :: "bool \<Rightarrow> I2cOp \<Rightarrow> iotjs_i2c_reqdata_t \<Rightarrow> bool" where
  "i2c_ok finished op d \<longleftrightarrow> i2_op d = op \<and> (case op of
     kI2cOpSetAddress \<Rightarrow> False
   | kI2cOpClose \<Rightarrow> False
   | kI2cOpWrite \<Rightarrow> finished \<or> (\<exists>bs. i2_buf_data d = Allocated bs \<and> length bs = nat (i2_buf_len d))
   | kI2cOpWriteBlock \<Rightarrow> finished \<or> (\<exists>bs. i2_buf_data d = Allocated bs \<and> length bs = nat (i2_buf_len d))
   | kI2cOpScan \<Rightarrow> finished \<longrightarrow> (\<exists>bs. i2_buf_data d = Allocated bs \<and> nat (i2_buf_len d) \<le> length bs)
   | kI2cOpRead \<Rightarrow> in_int32 (i2_delay d * 1000) \<and> (finished \<longrightarrow> (\<exists>bs. i2_buf_data d = Allocated bs \<and> nat (i2_buf_len d) \<le> length bs))
   | kI2cOpReadBlock \<Rightarrow> i2_buf_len d \<le> 34 \<and> in_int32 (i2_delay d * 1000) \<and>
       (finished \<longrightarrow> (\<exists>bs. i2_buf_data d = Allocated bs \<and> nat (i2_buf_len d) \<le> length bs))
   | _ \<Rightarrow> True)"

lemma built_delay:
  assumes "i2c_built p d j vs s a u" "in_int32 (n * 1000)"
  shows "wp (if 0 < n then if in_int32 (n * 1000) then bnd (sys E (SysUsleep (n * 1000))) (\<lambda>_. ret ())
      else fail (Undefined ''int overflow'') else ret ())
    (\<lambda>_ v. i2c_built p d j vs s a v \<and> set (trace u) \<subseteq> set (trace v)) u"
proof (cases "0 < n")
  case True
  have a: "a = jargs_of 2 vs" "length vs \<le> 2" using assms(1) by (simp_all add: i2c_built_def)
  have "i2c_built p d j (vs @ []) s (jargs_of 2 (vs @ []))
      (u\<lparr>trace := trace u @ [ESys (SysUsleep (n * 1000)) (e_sys E (trace u) (SysUsleep (n * 1000)))]\<rparr>)"
    by (rule built_append[OF assms(1)]) (use a in simp_all)
  then show ?thesis using True assms(2) a by (auto simp: wp_simps)
next
  case False
  then show ?thesis using assms(1) by (simp add: wp_ret)
qed

lemma read_arguments_wp:
  fixes s t :: "(call, 'z) i2t_scheme"
  assumes b: "i2c_built p d 0 [] s a t" and op: "i2_op d \<in> {kI2cOpRead, kI2cOpReadBlock}"
    and d: "i2_buf_data d = Allocated bs" "nat (i2_buf_len d) \<le> length bs" "in_int32 (i2_delay d * 1000)"
  shows "wp (i2c_read_arguments E a p d) (i2c_done p d (i2c_released d) (i2c_answer d) s) t"
proof (cases "i2_error d \<in> {kI2cErrRead, kI2cErrReadBlock}")
  case True
  have "wp (bnd (append_error E a msg) iotjs_jargs_append_null) (i2c_done p d (i2c_released d) (i2c_answer d) s) t" for msg
    by (rule wp_mono[OF done_error_null[OF b]], erule done_mono) (use True op in \<open>auto simp: i2c_answer_def i2c_released_def\<close>)
  then show ?thesis using True by (auto simp: i2c_read_arguments_def)
next
  case False
  then have e: "(i2_error d = kI2cErrRead) = False" "(i2_error d = kI2cErrReadBlock) = False" by simp_all
  show ?thesis
    unfolding i2c_read_arguments_def e if_False
    by (rule wp_mono[OF done_array[OF b d(1,2) built_delay[OF _ d(3)]]], assumption, erule done_mono)
      (use False op d in \<open>auto simp: i2c_answer_def i2c_released_def\<close>)
qed

lemma i2c_arguments_wp:
  fixes s t :: "(call, 'z) i2t_scheme"
  assumes b: "i2c_built p d 0 [] s a t" and ok: "i2c_ok True op d"
  shows "wp (i2c_arguments E a p d) (i2c_done p d (i2c_released d) (i2c_answer d) s) t"
proof -
  have op: "i2_op d = op" using ok by (simp add: i2c_ok_def)
  note simps = i2c_arguments_def Let_def op I2cOp.case
  have err: "wp (append_error E a msg) (i2c_done p d (i2c_released d) (i2c_answer d) s) t"
    if "op = kI2cOpOpen \<and> i2_error d = kI2cErrOpen \<or> op \<in> {kI2cOpWrite, kI2cOpWriteByte, kI2cOpWriteBlock} \<and> i2_error d = kI2cErrWrite" for msg
    by (rule wp_mono[OF done_error[OF b]], erule done_mono) (use that op in \<open>auto simp: i2c_answer_def i2c_released_def\<close>)
  have null: "wp (iotjs_jargs_append_null a) (i2c_done p d (i2c_released d) (i2c_answer d) s) t"
    if "op = kI2cOpOpen \<and> i2_error d \<noteq> kI2cErrOpen \<or> op \<in> {kI2cOpWrite, kI2cOpWriteByte, kI2cOpWriteBlock} \<and> i2_error d \<noteq> kI2cErrWrite"
    by (rule wp_mono[OF done_null[OF b]], erule done_mono) (use that op in \<open>auto simp: i2c_answer_def i2c_released_def\<close>)
  show ?thesis
  proof (cases op)
    case kI2cOpScan
    then obtain bs where bs: "i2_buf_data d = Allocated bs" "nat (i2_buf_len d) \<le> length bs" using ok by (auto simp: i2c_ok_def)
    have "wp (bnd (append_bytes_array E a d) (\<lambda>jargs. sq (ret ()) (sq (i2c_release p) (ret jargs))))
      (i2c_done p d 1 (array_answer d bs) s) t"
      by (rule done_array[OF b bs]) (simp add: wp_ret)
    then have "wp (bnd (append_bytes_array E a d) (\<lambda>jargs. sq (i2c_release p) (ret jargs))) (i2c_done p d 1 (array_answer d bs) s) t"
      by (simp add: sq_def bnd_ret_left)
    then show ?thesis
      unfolding simps kI2cOpScan
      by (rule wp_mono) (erule done_mono, (use kI2cOpScan op bs in \<open>auto simp: i2c_answer_def i2c_released_def\<close>)+)
  next
    case kI2cOpRead
    then show ?thesis using read_arguments_wp[OF b] ok op unfolding simps by (auto simp: i2c_ok_def)
  next
    case kI2cOpReadBlock
    then show ?thesis using read_arguments_wp[OF b] ok op unfolding simps by (auto simp: i2c_ok_def)
  next
    case kI2cOpReadByte
    show ?thesis
    proof (cases "i2_error d = kI2cErrRead")
      case True
      show ?thesis
        unfolding simps kI2cOpReadByte if_P[OF True]
        by (rule wp_mono[OF done_error_null[OF b]], erule done_mono)
          (use True kI2cOpReadByte op in \<open>auto simp: i2c_answer_def i2c_released_def\<close>)
    next
      case False
      show ?thesis
        unfolding simps kI2cOpReadByte if_not_P[OF False] wp_bnd
      proof (rule wp_mono[OF built_null[OF b]], simp)
        fix a' u
        assume u: "i2c_built p d 0 ([] @ [JNull]) s a' u"
        show "wp (iotjs_jargs_append_number a' (num (i2_byte d))) (i2c_done p d (i2c_released d) (i2c_answer d) s) u"
          by (rule wp_mono[OF built_number[OF u]])
            (use False kI2cOpReadByte op in \<open>auto simp: i2c_done_def i2c_answer_def i2c_released_def\<close>)
      qed
    qed
  qed (use ok op err null in \<open>auto simp: simps i2c_ok_def\<close>)
qed

lemma wp_i2c_destroy:
  fixes t :: "(call, 'z) i2t_scheme"
  assumes "work_data t p = Some d"
  shows "wp (iotjs_i2c_reqwrap_destroy p) Q t =
    wp (reqwrap_free p) (\<lambda>_ u. Q () (charge (- held (i2_device d)) (u\<lparr>work_data := (work_data u)(p := None)\<rparr>))) t"
proof -
  have swap: "(charge k u)\<lparr>work_data := m, blocks := b\<rparr> = u\<lparr>blocks := b, work_data := m\<rparr>"
    "charge k (u\<lparr>blocks := b, work_data := m\<rparr>) = u\<lparr>blocks := b + k, work_data := m\<rparr>" for u :: "(call, 'z) i2t_scheme" and m b k
    by (cases u, simp add: charge_def)+
  have wd: "work_data (charge k u) = work_data u" for u :: "(call, 'z) i2t_scheme" and k by (simp add: charge_def)
  show ?thesis
    unfolding iotjs_i2c_reqwrap_destroy_def reqwrap_free_def using assms
    by (simp add: wp_bnd wp_work_data wp_sq, intro arg_cong[where f = "\<lambda>Q. wp (iotjs_reqwrap_destroy p) Q t"])
      (simp add: fun_eq_iff wp_sq wp_upd wp_IOTJS_ALLOC wp_string_destroy swap wd algebra_simps)
qed

lemma callback_trace:
  assumes "args_built vs args s u" "process_module E s" "is_object f"
  shows "wp (sq (iotjs_make_callback E f this args) (iotjs_jargs_destroy args)) (\<lambda>_ t. set (trace u) \<subseteq> set (trace t)) u"
proof -
  from assms(1) obtain cap where a: "args = jargs_of cap vs" "vs \<noteq> []" "length vs \<le> cap" "process_module E u"
    using assms(2) unfolding args_built_def by auto
  then have "wp (iotjs_make_callback E f this args) (\<lambda>_. called f this vs u) u"
    using assms(3) by (intro make_callback_wp) simp_all
  then show ?thesis
    unfolding wp_sq by (rule wp_mono) (use a(1-3) in \<open>auto simp: wp_jargs_destroy called_def\<close>)
qed

lemma i2c_finish_wp:
  fixes s t :: "(call, 'z) i2t_scheme"
  assumes inv: "net_inv E s" and req: "reqs s p = Some cb"
    and built: "i2c_built p d j vs s a t" "vs \<noteq> []"
  shows "wp (sq (iotjs_make_callback E cb this a) (sq (iotjs_jargs_destroy a) (iotjs_i2c_reqwrap_dispatched p)))
    (\<lambda>_ u. work_completed p cb this vs s (lend (- (held (i2_device d) + j)) u) \<and> set (trace t) \<subseteq> set (trace u)) t"
proof -
  let ?s = "s\<lparr>blocks := blocks s - j, work_data := (work_data s)(p \<mapsto> d)\<rparr>"
  let ?h = "held (i2_device d)"
  obtain tr where t: "t = s\<lparr>blocks := blocks s + 1 - j, trace := trace s @ tr, work_data := (work_data s)(p \<mapsto> d)\<rparr>"
    "\<forall>v. owned tr v = int (count_list vs v)" "natives tr = []" "calls tr = []" "a = jargs_of 2 vs" "length vs \<le> 2"
    using built(1) by (auto simp: i2c_built_def)
  have "t = ?s\<lparr>blocks := blocks ?s + 1, trace := trace ?s @ tr\<rparr>" unfolding t(1) by (cases s) simp
  then have ab: "args_built vs a ?s t" unfolding args_built_def using t(2-6) built(2) by blast
  have wf: "wraps_wf ?s" "process_module E ?s" "is_object cb" "reqs ?s p = Some cb"
    using inv req by (auto simp: net_inv_def wraps_wf_def)
  have "wp (sq (iotjs_make_callback E cb this a) (iotjs_jargs_destroy a))
    (\<lambda>_. wp (iotjs_i2c_reqwrap_dispatched p) (\<lambda>_ u. work_completed p cb this vs s (lend (- (?h + j)) u) \<and> set (trace t) \<subseteq> set (trace u))) t"
  proof (rule wp_mono[OF wp_conj[OF make_callback_args[OF ab wf(2,3), of this] callback_trace[OF ab wf(2,3), of this]]], elim conjE)
    fix x and v :: "(call, 'z) i2t_scheme"
    assume v: "quiet ?s v" "callback_made cb this vs ?s v" "set (trace t) \<subseteq> set (trace v)"
    have m: "work_moved ?s v" "reqs v = reqs s" "work_data v = (work_data s)(p \<mapsto> d)" "work_queue v = work_queue s"
      using quiet_work[OF v(1) wf(1)] by simp_all
    have "wraps_wf v" "reqs v p = Some cb" using m(1,2) req by (simp_all add: work_moved_def moved_def)
    note free = reqwrap_free_wp[OF this]
    show "wp (iotjs_i2c_reqwrap_dispatched p) (\<lambda>_ u. work_completed p cb this vs s (lend (- (?h + j)) u) \<and> set (trace t) \<subseteq> set (trace u)) v"
      unfolding iotjs_i2c_reqwrap_dispatched_def wp_i2c_destroy[OF fun_cong[OF m(3), of p, simplified]]
    proof (rule wp_mono[OF free], elim conjE)
      fix y and w :: "(call, 'z) i2t_scheme"
      assume w: "wraps_wf w" "steps v w" "reqs w = (reqs v)(p := None)" "handles w = handles v"
      let ?u = "charge (- ?h) (w\<lparr>work_data := (work_data w)(p := None)\<rparr>)"
      have eq: "lend (- (?h + j)) ?u = lend (- j) (w\<lparr>work_data := (work_data w)(p := None)\<rparr>)"
        by (cases w) (simp add: lend_def charge_def)
      have "moved v w" by (rule steps_moved) fact+
      then have "moved ?s w" using m(1) moved_trans[of ?s v w] by (simp add: work_moved_def)
      moreover have "moved s (lend (- j) ?s)"
      proof -
        have "moved s s" using inv by (simp add: moved_def net_inv_def)
        moreover have "lend (- j) ?s = s\<lparr>work_data := (work_data s)(p \<mapsto> d)\<rparr>" by (cases s) (simp add: lend_def)
        ultimately show ?thesis by simp
      qed
      ultimately have "moved s (lend (- j) w)" by (rule moved_lend_trans[rotated])
      then have "moved s (lend (- (?h + j)) ?u)" unfolding eq lend_swap by simp
      moreover have "work_data w = work_data v" "work_objs w = work_objs v" "work_queue w = work_queue v"
        using wkt_more[of w v] w(2) by (simp_all add: steps_def)
      moreover have "callback_made cb this vs s (lend (- (?h + j)) ?u)"
        using callback_made_steps[OF v(2) w(2)] by (simp add: callback_made_def)
      moreover have "h_ret w = h_ret s" using w(2) m(1) by (simp add: steps_def work_moved_def)
      moreover have "trace ?u = trace w" by simp
      moreover have "set (trace v) \<subseteq> set (trace w)" using w(2) by (auto simp: steps_def)
      ultimately show "work_completed p cb this vs s (lend (- (?h + j)) ?u) \<and> set (trace t) \<subseteq> set (trace ?u)"
        using m v(3) w(3) unfolding work_completed_def eq by (auto simp: work_moved_def)
    qed
  qed
  then show ?thesis by (simp only: wp_sq)
qed

lemma AfterI2CWork_wp:
  fixes s :: "(call, 'z) i2t_scheme"
  assumes inv: "net_inv E s" and obj: "work_object MODULE_I2C E s g" and r: "reqs s p = Some cb" and d: "work_data s p = Some d"
    and ok: "i2c_ok True op d"
  shows "wp (AfterI2CWork E p status) (\<lambda>_ u. \<exists>vs.
    work_completed p cb (jmodule s MODULE_I2C) vs s (lend (- (held (i2_device d) + (if status = 0 then i2c_released d else 0))) u) \<and>
    (if status = 0 then i2c_answer d vs (trace u) else \<exists>n. vs = [JObject n])) s"
proof -
  let ?j = "jmodule s MODULE_I2C"
  let ?R = "\<lambda>vs tr. if status = 0 then i2c_answer d vs tr else \<exists>n. vs = [JObject n]"
  let ?k = "if status = 0 then i2c_released d else 0"
  have j: "?j \<noteq> JUndefined \<and> is_object ?j" by (rule work_object_module[OF obj])
  have args: "wp (if status \<noteq> 0 then append_error E (jargs_of 2 []) ''System error'' else i2c_arguments E (jargs_of 2 []) p d)
    (i2c_done p d ?k ?R s) (s\<lparr>blocks := blocks s + 1\<rparr>)"
    using i2c_arguments_wp[OF built_start[OF d] ok] done_error[OF built_start[OF d]] by (cases "status = 0") simp_all
  have "wp (bnd (if status \<noteq> 0 then append_error E (jargs_of 2 []) ''System error'' else i2c_arguments E (jargs_of 2 []) p d) (\<lambda>jargs.
     bnd (iotjs_i2c_reqwrap_jcallback p) (\<lambda>jcallback.
     bnd iotjs_i2c_get_ji2c (\<lambda>ji2c.
     sq (iotjs_make_callback E jcallback ji2c jargs)
    (sq (iotjs_jargs_destroy jargs)
    (iotjs_i2c_reqwrap_dispatched p))))))
    (\<lambda>_ u. \<exists>vs. work_completed p cb ?j vs s (lend (- (held (i2_device d) + ?k)) u) \<and> ?R vs (trace u)) (s\<lparr>blocks := blocks s + 1\<rparr>)"
    unfolding wp_bnd[of "if _ then _ else _"]
  proof (rule wp_mono[OF args])
    fix a t
    assume "i2c_done p d ?k ?R s a t"
    then obtain vs d' where b: "i2c_built p d' ?k vs s a t" "vs \<noteq> []" "?R vs (trace t)" "i2_device d' = i2_device d"
      unfolding i2c_done_def by blast
    have t: "reqs t = reqs s" "jmodule t = jmodule s" using b(1) by (auto simp: i2c_built_def)
    have "wp (sq (iotjs_make_callback E cb ?j a) (sq (iotjs_jargs_destroy a) (iotjs_i2c_reqwrap_dispatched p)))
      (\<lambda>_ u. \<exists>vs. work_completed p cb ?j vs s (lend (- (held (i2_device d) + ?k)) u) \<and> ?R vs (trace u)) t"
    proof (rule wp_mono[OF i2c_finish_wp[OF inv r b(1,2), of ?j]], elim conjE)
      fix x u
      assume u: "work_completed p cb ?j vs s (lend (- (held (i2_device d') + ?k)) u)" "set (trace t) \<subseteq> set (trace u)"
      have "?R vs (trace u)" using b(3) answer_mono[OF _ u(2)] by (simp split: if_splits)
      then show "\<exists>vs. work_completed p cb ?j vs s (lend (- (held (i2_device d) + ?k)) u) \<and> ?R vs (trace u)"
        using u(1) unfolding b(4) by blast
    qed
    then show "wp (bnd (iotjs_i2c_reqwrap_jcallback p) (\<lambda>jcallback.
     bnd iotjs_i2c_get_ji2c (\<lambda>ji2c.
     sq (iotjs_make_callback E jcallback ji2c a)
    (sq (iotjs_jargs_destroy a)
    (iotjs_i2c_reqwrap_dispatched p)))))
    (\<lambda>_ u. \<exists>vs. work_completed p cb ?j vs s (lend (- (held (i2_device d) + ?k)) u) \<and> ?R vs (trace u)) t"
      using r j t by (simp add: wp_bnd iotjs_i2c_reqwrap_jcallback_def wp_reqwrap_jcallback iotjs_i2c_get_ji2c_def wp_module_get)
  qed
  then show ?thesis
    using r d j
    by (simp add: AfterI2CWork_def iotjs_i2c_get_instance_def iotjs_i2c_get_ji2c_def iotjs_i2c_reqwrap_from_request_def
      iotjs_i2c_reqwrap_data_def wp_bnd[of "bnd _ _"] wp_bnd[of "iotjs_module_get _"] wp_module_get wp_work_from_jobject[OF obj]
      wp_bnd[of "work_from_request _"] wp_work_from_request wp_bnd[of "get_work_data _"] wp_work_data
      wp_bnd[of "iotjs_jargs_create _"] wp_jargs_create)
qed

end
