(* ===== verification/Iot_I2c_Session.thy ===== *)
theory Iot_I2c_Session
  imports Iot_I2c_Steps
begin

text \<open>
  Sessions of the bus module: its handlers, workers and completion satisfy the contract \<open>work_module\<close>, so
  every run of its events is safe; what a write and a read do from the call to the callback.
\<close>

section \<open>Handlers\<close>

lemma int_of_char_range: "0 \<le> (of_char c :: int)" "of_char c < (256 :: int)"
proof -
  have c: "of_char c = int (of_char c)" by (rule of_nat_of_char[symmetric])
  show "0 \<le> (of_char c :: int)" unfolding c by (rule of_nat_0_le_iff)
  have "int (of_char c) < int 256" unfolding of_nat_less_iff by (rule nat_of_char_less_256)
  then show "of_char c < (256 :: int)" using c by simp
qed

lemma char_value_range: "- 128 \<le> char_value c" "char_value c < 128"
  using int_of_char_range[of c] by (auto simp: char_value_def Let_def)

lemma byte_of_char_value: "byte_of (char_value c) = c"
proof -
  note c = int_of_char_range[of c]
  have "char_value c mod 256 = of_char c"
  proof (cases "of_char c < (128 :: int)")
    case True
    then show ?thesis using c by (simp add: char_value_def Let_def)
  next
    case False
    then have "char_value c = of_char c - 256" by (simp add: char_value_def Let_def)
    then have "char_value c mod 256 = (of_char c - 256 + 256) mod 256" by (metis mod_add_self2)
    then show ?thesis using c by simp
  qed
  then show ?thesis by (simp add: byte_of_def nat_of_char)
qed

text \<open>An array of a script that holds the values of the bytes \<open>cs\<close>.\<close>

definition js_bytes :: "call engine \<Rightarrow> jval \<Rightarrow> char list \<Rightarrow> bool" where
  "js_bytes E j cs \<longleftrightarrow> is_array j \<and> length cs < 256 \<and>
     (\<forall>tr. e_prop E tr j ''length'' = (False, JNumber (num (int (length cs)))) \<and>
       (\<forall>i<length cs. e_index E tr j i = (False, JNumber (num (char_value (cs ! i))))))"

lemma array_loop:
  fixes u :: "(call, 'z) rt_scheme"
  assumes j: "js_bytes E j cs" and i: "i \<le> length cs"
  shows "wp (fold_prog (\<lambda>buf_data i.
       bnd (iotjs_jval_get_property_by_index E j i) (\<lambda>jdata.
       bnd (iotjs_jval_as_number jdata) (\<lambda>x.
       bnd (to_char x) (\<lambda>c.
       sq (iotjs_jval_destroy jdata)
      (ret (buf_data[i := byte_of c])))))) (take i cs @ replicate (length cs - i) NUL) [i..<length cs])
    (\<lambda>b v. b = cs \<and> (\<exists>es. v = u\<lparr>trace := trace u @ es\<rparr> \<and> (\<forall>v. owned es v = 0) \<and> natives es = [])) u"
  using i
proof (induction "length cs - i" arbitrary: i u)
  case 0
  then show ?case by (auto simp: wp_ret intro!: exI[of _ "[]"])
next
  case (Suc n)
  then have lt: "i < length cs" by simp
  let ?v = "JNumber (num (char_value (cs ! i)))"
  have o: "is_object j" using j by (cases j) (simp_all add: js_bytes_def)
  have x: "e_index E tr j i = (False, ?v)" for tr using j lt by (simp add: js_bytes_def)
  have "replicate (length cs - i) NUL = NUL # replicate (length cs - Suc i) NUL" using lt by (simp add: Suc_diff_Suc replicate_Suc[symmetric])
  then have upd: "(take i cs @ replicate (length cs - i) NUL)[i := cs ! i] = take (Suc i) cs @ replicate (length cs - Suc i) NUL"
    using lt by (simp add: list_update_append take_Suc_conv_app_nth)
  let ?u = "u\<lparr>trace := trace u @ [EGetIndex j i ?v, ERelease ?v]\<rparr>"
  have "wp (fold_prog (\<lambda>buf_data i.
       bnd (iotjs_jval_get_property_by_index E j i) (\<lambda>jdata.
       bnd (iotjs_jval_as_number jdata) (\<lambda>x.
       bnd (to_char x) (\<lambda>c.
       sq (iotjs_jval_destroy jdata)
      (ret (buf_data[i := byte_of c])))))) (take (Suc i) cs @ replicate (length cs - Suc i) NUL) [Suc i..<length cs])
    (\<lambda>b v. b = cs \<and> (\<exists>es. v = u\<lparr>trace := trace u @ es\<rparr> \<and> (\<forall>v. owned es v = 0) \<and> natives es = [])) ?u"
  proof (rule wp_mono[OF Suc.hyps(1)], goal_cases)
    case (3 b v)
    then obtain es where "b = cs" "v = ?u\<lparr>trace := trace ?u @ es\<rparr>" "\<forall>v. owned es v = 0" "natives es = []" by blast
    then show ?case by (intro conjI exI[of _ "EGetIndex j i ?v # ERelease ?v # es"]) simp_all
  qed (use Suc.hyps(2) lt in simp_all)
  then show ?case
    using o x upd char_value_range[of "cs ! i"] byte_of_char_value[of "cs ! i"]
    by (simp add: upt_conv_Cons[OF lt] iotjs_jval_get_property_by_index_def wp_simps num_def c_trunc_of_int)
qed

lemma GetI2cArray_wp:
  fixes s t :: "(call, 'z) i2t_scheme"
  assumes t: "i2c_at p d k fd a tr s t" and j: "js_bytes E j cs"
  shows "wp (GetI2cArray E j p) (\<lambda>_ u. \<exists>tr. i2c_at p (d\<lparr>i2_buf_len := int (length cs), i2_buf_data := Allocated cs\<rparr>) (k + 1) fd a tr s u) t"
proof -
  let ?l = "JNumber (num (int (length cs)))"
  have o: "is_object j" "length cs < 256" "e_prop E tr j ''length'' = (False, ?l)" for tr
    using j by (cases j; simp add: js_bytes_def)+
  have l: "to_uint8 (num (int (length cs))) = (ret (int (length cs)) :: ((call, 'z) i2t_scheme, int) prog)" using o(2) by simp
  have get: "wp (bnd (iotjs_jval_get_property E j ''length'') f) Q t =
      wp (f ?l) Q (t\<lparr>trace := trace t @ [ECreate (JString ''length''), EGetProp j ''length'' ?l, ERelease (JString ''length'')]\<rparr>)" for f Q
    using o by (simp add: wp_simps)
  let ?tr = "[ECreate (JString ''length''), EGetProp j ''length'' ?l, ERelease (JString ''length'')]"
  let ?d = "d\<lparr>i2_buf_len := int (length cs)\<rparr>"
  let ?d' = "?d\<lparr>i2_buf_data := Allocated cs\<rparr>"
  let ?t = "t\<lparr>trace := trace t @ ?tr, work_data := (work_data t)(p \<mapsto> ?d), blocks := blocks t + 1\<rparr>"
  have loop: "wp (array_bytes E j (length cs)) (\<lambda>b v. b = cs \<and>
      (\<exists>es. v = ?t\<lparr>trace := trace ?t @ es\<rparr> \<and> (\<forall>v. owned es v = 0) \<and> natives es = [])) ?t"
    using array_loop[OF j, of 0 ?t] by (simp add: array_bytes_def)
  have "wp (bnd (array_bytes E j (length cs)) (\<lambda>bytes.
     sq (upd_work_data p (\<lambda>d. d\<lparr>i2_buf_data := Allocated bytes\<rparr>)) (iotjs_jval_destroy ?l)))
    (\<lambda>_ u. \<exists>tr. i2c_at p ?d' (k + 1) fd a tr s u) ?t"
    unfolding wp_bnd
  proof (rule wp_mono[OF loop], elim conjE exE)
    fix b v es
    assume v: "b = cs" "v = ?t\<lparr>trace := trace ?t @ es\<rparr>" "\<forall>v. owned es v = 0" "natives es = []"
    let ?es = "?tr @ es @ [ERelease ?l]"
    have "i2c_at p d k fd a (tr @ ?es) s (t\<lparr>trace := trace t @ ?es\<rparr>)"
      by (rule i2c_at_event[OF t]) (use v in simp_all)
    from i2c_at_upd(1)[OF i2c_at_upd(4)[OF this, of 1], of ?d']
    show "wp (sq (upd_work_data p (\<lambda>d. d\<lparr>i2_buf_data := Allocated b\<rparr>)) (iotjs_jval_destroy ?l))
      (\<lambda>_ u. \<exists>tr. i2c_at p ?d' (k + 1) fd a tr s u) v"
      unfolding v by (cases t) (auto simp: wp_simps wp_work_data)
  qed
  then show ?thesis
    unfolding GetI2cArray_def get using i2c_at_data[OF t]
    by (simp add: wp_sq wp_work_data wp_bnd[of "iotjs_jval_as_number _"] wp_jval_as l bnd_ret_left
      wp_bnd[of "iotjs_buffer_allocate _"] wp_buffer_allocate wp_assert)
qed

text \<open>A request that has just been created, and its submission.\<close>

definition i2c_new ::
  "(call, 'z) i2t_scheme \<Rightarrow> nat \<Rightarrow> jval \<Rightarrow> I2cOp \<Rightarrow> (call, 'z) i2t_scheme \<Rightarrow> bool" where
  "i2c_new s p cb op t \<longleftrightarrow> work_moved s t \<and> reqs s p = None \<and> reqs t = (reqs s)(p \<mapsto> cb) \<and>
     work_data t = (work_data s)(p \<mapsto> i2c_cleared op) \<and> work_queue t = work_queue s"

lemma wp_string_empty: "wp (iotjs_string_create (c_str [])) Q s = Q null_string s"
  by (simp add: wp_def iotjs_string_create_def iotjs_string_create_with_size_def c_str_def prog_defs read_option_def)

lemma create_then:
  fixes s :: "(call, 'z) i2t_scheme"
  assumes s: "work_ready s" and cb: "is_function cb"
    and rest: "\<And>p t. i2c_new s p cb op t \<Longrightarrow>
      i2c_at p (i2c_cleared op) 0 (i2c_fd t) (i2c_addr t) [] t t \<Longrightarrow> h_argv t = h_argv s \<Longrightarrow> wp (f p) Q t"
  shows "wp (bnd (iotjs_i2c_reqwrap_create cb op) f) Q s"
  unfolding iotjs_i2c_reqwrap_create_def wp_bnd
proof (rule wp_mono[OF work_reqwrap_create_wp[OF _ cb]], use s in \<open>simp add: work_ready_def\<close>, elim conjE)
  fix p and t :: "(call, 'z) i2t_scheme"
  assume t: "work_moved s t" "reqs s p = None" "reqs t = (reqs s)(p \<mapsto> cb)"
    "work_data t = (work_data s)(p \<mapsto> i2c_cleared op)" "work_queue t = work_queue s"
  have n: "i2c_new s p cb op t" using t by (simp add: i2c_new_def)
  have at: "i2c_at p (i2c_cleared op) 0 (i2c_fd t) (i2c_addr t) [] t t"
    by (rule i2c_at_start) (use t in \<open>simp_all add: work_moved_def moved_def\<close>)
  have "h_argv t = h_argv s" using t(1) by (simp add: work_moved_def moved_def keeps_def)
  note r = rest[OF n at this]
  have same: "t\<lparr>work_data := (work_data s)(p \<mapsto> i2c_cleared op)\<rparr> = t"
    unfolding t(4)[symmetric] by (cases t) simp
  show "wp (iotjs_string_create (c_str [])) (\<lambda>device. wp (sq (upd_work_data p (\<lambda>d. d\<lparr>i2_device := device\<rparr>)) (ret p)) (\<lambda>p. wp (f p) Q)) t"
    unfolding wp_string_empty wp_sq wp_work_data wp_ret
    by (intro exI[of _ "i2c_cleared op"] conjI) (use t(4) r same in \<open>simp_all only: fun_upd_same fun_upd_upd iotjs_i2c_reqdata_t.update_convs\<close>)
qed

lemma new_async:
  fixes s t u :: "(call, 'z) i2t_scheme"
  assumes s: "work_ready s" and t: "i2c_new s p cb op' t" and u: "i2c_at p d k fd a tr t u"
  shows "wp (sq (I2C_ASYNC E op p) iotjs_jhandler_return_null) (\<lambda>_ z. work_queued i2c_worker_name op d cb s (lend k z)) u"
  unfolding I2C_ASYNC_def iotjs_i2c_reqwrap_req_def
proof (rule work_async_lend[OF s])
  have "work_moved s t" "work_moved t (lend k u)" using t u by (simp_all add: i2c_new_def i2c_at_def)
  then show "work_moved s (lend k u)" by (rule work_moved_trans)
qed (use t u in \<open>simp_all add: i2c_new_def i2c_at_def\<close>)

lemma wp_GET_UINT8_at:
  "i < length (h_argv s) \<Longrightarrow> h_argv s ! i = JNumber (num n) \<Longrightarrow> 0 \<le> n \<Longrightarrow> n < 256 \<Longrightarrow> wp (JHANDLER_GET_UINT8 i) Q s = Q n s"
  by (simp add: JHANDLER_GET_UINT8_def wp_bnd wp_JHANDLER_GET_ARG wp_jval_as wp_ret)

text \<open>The blocks that the data of a request own, and the arguments of the functions.\<close>

definition i2c_cost :: "iotjs_i2c_reqdata_t \<Rightarrow> int" where
  "i2c_cost d = held (i2_device d) + (case i2_buf_data d of Allocated _ \<Rightarrow> 1 | _ \<Rightarrow> 0)"

definition js_uint8 :: "jval \<Rightarrow> int \<Rightarrow> bool" where
  "js_uint8 v n \<longleftrightarrow> v = JNumber (num n) \<and> 0 \<le> n \<and> n < 256"

fun i2c_args :: "call engine \<Rightarrow> I2cOp \<Rightarrow> jval list \<Rightarrow> bool" where
  "i2c_args E kI2cOpSetAddress args \<longleftrightarrow> (\<exists>v n. args = [v] \<and> js_uint8 v n)"
| "i2c_args E kI2cOpScan args \<longleftrightarrow> (\<exists>cb. args = [cb] \<and> is_function cb)"
| "i2c_args E kI2cOpOpen args \<longleftrightarrow> (\<exists>tx cb. args = [JString tx, cb] \<and> is_function cb \<and> NUL \<notin> set tx \<and> length tx < 2 ^ 31)"
| "i2c_args E kI2cOpClose args \<longleftrightarrow> args = []"
| "i2c_args E kI2cOpWrite args \<longleftrightarrow> (\<exists>j cb bs. args = [j, cb] \<and> is_function cb \<and> js_bytes E j bs)"
| "i2c_args E kI2cOpWriteByte args \<longleftrightarrow> (\<exists>v n cb. args = [v, cb] \<and> js_uint8 v n \<and> is_function cb)"
| "i2c_args E kI2cOpWriteBlock args \<longleftrightarrow> (\<exists>v n j cb bs. args = [v, j, cb] \<and> js_uint8 v n \<and> is_function cb \<and> js_bytes E j bs)"
| "i2c_args E kI2cOpRead args \<longleftrightarrow> (\<exists>v n cb. args = [v, cb] \<and> js_uint8 v n \<and> is_function cb)"
| "i2c_args E kI2cOpReadByte args \<longleftrightarrow> (\<exists>cb. args = [cb] \<and> is_function cb)"
| "i2c_args E kI2cOpReadBlock args \<longleftrightarrow> (\<exists>v c w n delay cb. args = [v, w, JNumber (num delay), cb] \<and> js_uint8 v c \<and> js_uint8 w n \<and>
     n \<le> 34 \<and> in_int32 delay \<and> in_int32 (delay * 1000) \<and> is_function cb)"

lemmas i2c_checks = wp_check_args wp_bnd[of "JHANDLER_GET_ARG _ _"] wp_JHANDLER_GET_ARG wp_jval_as
  wp_bnd[of "JHANDLER_GET_UINT8 _"] wp_bnd[of "JHANDLER_GET_INT _"]

text \<open>What is left in the queue, by function.\<close>

lemma plain_handler_wp:
  fixes e :: "(call, 'z) i2t_scheme"
  assumes "work_ready e" "is_function cb" "h_argv e = [cb]"
  shows "wp (Scan E) (\<lambda>_. work_queued i2c_worker_name kI2cOpScan (i2c_cleared kI2cOpScan) cb e) e"
    and "wp (ReadByte E) (\<lambda>_. work_queued i2c_worker_name kI2cOpReadByte (i2c_cleared kI2cOpReadByte) cb e) e"
proof -
  have "wp (bnd (iotjs_i2c_reqwrap_create cb op) (\<lambda>p. sq (I2C_ASYNC E op p) iotjs_jhandler_return_null))
      (\<lambda>_. work_queued i2c_worker_name op (i2c_cleared op) cb e) e" for op
    by (rule create_then[OF assms(1,2)], rule new_async[OF assms(1), where k = 0, simplified]) simp_all
  then show "wp (Scan E) (\<lambda>_. work_queued i2c_worker_name kI2cOpScan (i2c_cleared kI2cOpScan) cb e) e"
    "wp (ReadByte E) (\<lambda>_. work_queued i2c_worker_name kI2cOpReadByte (i2c_cleared kI2cOpReadByte) cb e) e"
    using assms(2,3) by (simp_all add: Scan_def ReadByte_def i2c_checks)
qed

lemma WriteByte_wp:
  fixes e :: "(call, 'z) i2t_scheme"
  assumes e: "work_ready e" and a: "is_function cb" "h_argv e = [v, cb]" "js_uint8 v n"
  shows "wp (WriteByte E) (\<lambda>_. work_queued i2c_worker_name kI2cOpWriteByte ((i2c_cleared kI2cOpWriteByte)\<lparr>i2_byte := n\<rparr>) cb e) e"
proof -
  have "wp (bnd (iotjs_i2c_reqwrap_create cb kI2cOpWriteByte) (\<lambda>p. sq (upd_work_data p (\<lambda>d. d\<lparr>i2_byte := n\<rparr>))
      (sq (I2C_ASYNC E kI2cOpWriteByte p) iotjs_jhandler_return_null)))
    (\<lambda>_. work_queued i2c_worker_name kI2cOpWriteByte ((i2c_cleared kI2cOpWriteByte)\<lparr>i2_byte := n\<rparr>) cb e) e"
    by (rule create_then[OF e a(1)], rule at_upd_data, assumption, rule new_async[OF e, where k = 0, simplified]) simp_all
  then show ?thesis
    using a by (simp add: WriteByte_def i2c_checks wp_GET_UINT8_at js_uint8_def)
qed

lemma Read_wp:
  fixes e :: "(call, 'z) i2t_scheme"
  assumes e: "work_ready e" and a: "is_function cb" "h_argv e = [v, cb]" "js_uint8 v n"
  shows "wp (Read_i2c E) (\<lambda>_. work_queued i2c_worker_name kI2cOpRead ((i2c_cleared kI2cOpRead)\<lparr>i2_buf_len := n\<rparr>) cb e) e"
proof -
  have "wp (bnd (iotjs_i2c_reqwrap_create cb kI2cOpRead) (\<lambda>p. bnd (JHANDLER_GET_UINT8 0) (\<lambda>len.
      sq (upd_work_data p (\<lambda>d. d\<lparr>i2_buf_len := len, i2_delay := 0\<rparr>))
      (sq (I2C_ASYNC E kI2cOpRead p) iotjs_jhandler_return_null))))
    (\<lambda>_. work_queued i2c_worker_name kI2cOpRead ((i2c_cleared kI2cOpRead)\<lparr>i2_buf_len := n\<rparr>) cb e) e"
  proof (rule create_then[OF e a(1)], goal_cases)
    case (1 p t)
    have "wp (sq (upd_work_data p (\<lambda>d. d\<lparr>i2_buf_len := n, i2_delay := 0\<rparr>)) (sq (I2C_ASYNC E kI2cOpRead p) iotjs_jhandler_return_null))
      (\<lambda>_. work_queued i2c_worker_name kI2cOpRead ((i2c_cleared kI2cOpRead)\<lparr>i2_buf_len := n, i2_delay := 0\<rparr>) cb e) t"
      by (rule at_upd_data[OF 1(2)], rule new_async[OF e 1(1), where k = 0, simplified])
    then show ?case using a 1(3) by (simp add: i2c_checks wp_GET_UINT8_at js_uint8_def)
  qed
  then show ?thesis
    using a by (simp add: Read_i2c_def i2c_checks js_uint8_def)
qed

lemma ReadBlock_wp:
  fixes e :: "(call, 'z) i2t_scheme"
  assumes e: "work_ready e" and a: "is_function cb" "h_argv e = [v, w, JNumber (num delay), cb]" "js_uint8 v c" "js_uint8 w n" "in_int32 delay"
  shows "wp (ReadBlock E) (\<lambda>_. work_queued i2c_worker_name kI2cOpReadBlock
    ((i2c_cleared kI2cOpReadBlock)\<lparr>i2_cmd := c, i2_buf_len := n, i2_delay := delay\<rparr>) cb e) e"
proof -
  let ?d = "(i2c_cleared kI2cOpReadBlock)\<lparr>i2_cmd := c, i2_buf_len := n, i2_delay := delay\<rparr>"
  have "wp (bnd (iotjs_i2c_reqwrap_create cb kI2cOpReadBlock) (\<lambda>p. bnd (JHANDLER_GET_UINT8 0) (\<lambda>cmd.
      bnd (JHANDLER_GET_UINT8 1) (\<lambda>len. bnd (JHANDLER_GET_INT 2) (\<lambda>delay.
      sq (upd_work_data p (\<lambda>d. d\<lparr>i2_cmd := cmd, i2_buf_len := len, i2_delay := delay\<rparr>))
      (sq (I2C_ASYNC E kI2cOpReadBlock p) iotjs_jhandler_return_null))))))
    (\<lambda>_. work_queued i2c_worker_name kI2cOpReadBlock ?d cb e) e"
  proof (rule create_then[OF e a(1)], goal_cases)
    case (1 p t)
    have "wp (sq (upd_work_data p (\<lambda>d. d\<lparr>i2_cmd := c, i2_buf_len := n, i2_delay := delay\<rparr>))
        (sq (I2C_ASYNC E kI2cOpReadBlock p) iotjs_jhandler_return_null))
      (\<lambda>_. work_queued i2c_worker_name kI2cOpReadBlock ?d cb e) t"
      by (rule at_upd_data[OF 1(2)], rule new_async[OF e 1(1), where k = 0, simplified])
    then show ?case using a 1(3) by (simp add: i2c_checks wp_GET_UINT8_at wp_GET_INT_at js_uint8_def)
  qed
  then show ?thesis
    using a by (simp add: ReadBlock_def i2c_checks js_uint8_def)
qed

lemma array_request_wp:
  fixes s t :: "(call, 'z) i2t_scheme"
  assumes s: "work_ready s" and t: "i2c_new s p cb op t" "i2c_at p d 0 fd a [] t u" and j: "js_bytes E j bs"
  shows "wp (sq (GetI2cArray E j p) (sq (I2C_ASYNC E op p) iotjs_jhandler_return_null)) (\<lambda>_ z.
    work_queued i2c_worker_name op (d\<lparr>i2_buf_len := int (length bs), i2_buf_data := Allocated bs\<rparr>) cb s (lend 1 z)) u"
  unfolding wp_sq[of "GetI2cArray _ _ _"]
  by (rule wp_mono[OF GetI2cArray_wp[OF t(2) j]], elim exE, rule new_async[OF s t(1)], simp)

lemma Write_wp:
  fixes e :: "(call, 'z) i2t_scheme"
  assumes e: "work_ready e" and a: "is_function cb" "h_argv e = [j, cb]" and j: "js_bytes E j bs"
  shows "wp (Write_i2c E) (\<lambda>_ z. work_queued i2c_worker_name kI2cOpWrite
    ((i2c_cleared kI2cOpWrite)\<lparr>i2_buf_len := int (length bs), i2_buf_data := Allocated bs\<rparr>) cb e (lend 1 z)) e"
proof -
  have j': "is_array j" using j by (simp add: js_bytes_def)
  let ?Q = "\<lambda>_ z. work_queued i2c_worker_name kI2cOpWrite
    ((i2c_cleared kI2cOpWrite)\<lparr>i2_buf_len := int (length bs), i2_buf_data := Allocated bs\<rparr>) cb e (lend 1 z)"
  have "wp (bnd (iotjs_i2c_reqwrap_create cb kI2cOpWrite) (\<lambda>p. bnd (JHANDLER_GET_ARG 0 iotjs_jval_as_array) (\<lambda>jarray.
     sq (GetI2cArray E jarray p) (sq (I2C_ASYNC E kI2cOpWrite p) iotjs_jhandler_return_null)))) ?Q e"
  proof (rule create_then[OF e a(1)], goal_cases)
    case (1 p t)
    show ?case using array_request_wp[OF e 1(1,2) j] a 1(3) j' by (simp add: i2c_checks)
  qed
  then show ?thesis using a j' by (simp add: Write_i2c_def i2c_checks)
qed

lemma WriteBlock_wp:
  fixes e :: "(call, 'z) i2t_scheme"
  assumes e: "work_ready e" and a: "is_function cb" "h_argv e = [v, j, cb]" "js_uint8 v n" and j: "js_bytes E j bs"
  shows "wp (WriteBlock E) (\<lambda>_ z. work_queued i2c_worker_name kI2cOpWriteBlock
    ((i2c_cleared kI2cOpWriteBlock)\<lparr>i2_cmd := n, i2_buf_len := int (length bs), i2_buf_data := Allocated bs\<rparr>) cb e (lend 1 z)) e"
proof -
  have j': "is_array j" using j by (simp add: js_bytes_def)
  let ?d = "(i2c_cleared kI2cOpWriteBlock)\<lparr>i2_cmd := n\<rparr>"
  let ?Q = "\<lambda>_ z. work_queued i2c_worker_name kI2cOpWriteBlock
    (?d\<lparr>i2_buf_len := int (length bs), i2_buf_data := Allocated bs\<rparr>) cb e (lend 1 z)"
  have "wp (bnd (iotjs_i2c_reqwrap_create cb kI2cOpWriteBlock) (\<lambda>p. bnd (JHANDLER_GET_UINT8 0) (\<lambda>cmd.
     sq (upd_work_data p (\<lambda>d. d\<lparr>i2_cmd := cmd\<rparr>)) (bnd (JHANDLER_GET_ARG 1 iotjs_jval_as_array) (\<lambda>jarray.
     sq (GetI2cArray E jarray p) (sq (I2C_ASYNC E kI2cOpWriteBlock p) iotjs_jhandler_return_null)))))) ?Q e"
  proof (rule create_then[OF e a(1)], goal_cases)
    case (1 p t)
    have "wp (sq (upd_work_data p (\<lambda>d. d\<lparr>i2_cmd := n\<rparr>)) (bnd (JHANDLER_GET_ARG 1 iotjs_jval_as_array) (\<lambda>jarray.
       sq (GetI2cArray E jarray p) (sq (I2C_ASYNC E kI2cOpWriteBlock p) iotjs_jhandler_return_null)))) ?Q t"
    proof (rule at_upd_data[OF 1(2)], goal_cases)
      case (1 u)
      have "h_argv u = h_argv e"
        using 1 \<open>h_argv t = h_argv e\<close> by (simp add: i2c_at_def work_moved_def moved_def keeps_def)
      then show ?case using array_request_wp[OF e \<open>i2c_new e p cb kI2cOpWriteBlock t\<close> 1 j] a j' by (simp add: i2c_checks)
    qed
    then show ?case using a 1(3) by (simp add: i2c_checks wp_GET_UINT8_at js_uint8_def)
  qed
  then show ?thesis using a j' by (simp add: WriteBlock_def i2c_checks js_uint8_def)
qed

text \<open>A string argument costs a block when it is not empty; only the name of the device uses it, and leaks it.\<close>

lemma queued_charge:
  "work_queued name op d cb (charge h e) (lend k z) = work_queued name op d cb e (lend (h + k) z)"
proof -
  have k: "kept_wraps (charge h e) v = kept_wraps e v" "heap_wraps (charge h e) = heap_wraps e" for v
    by (simp_all add: charge_def kept_wraps_def heap_wraps_def)
  have s: "spare (charge h e) = spare e" by (simp add: fun_eq_iff spare_def k(1))
  have f: "jmodule (charge h e) = jmodule e" "h_this (charge h e) = h_this e" "h_argv (charge h e) = h_argv e"
    "handles (charge h e) = handles e" "env (charge h e) = env e" "env_initialized (charge h e) = env_initialized e"
    "h_finished (charge h e) = h_finished e" "reqs (charge h e) = reqs e" "work_data (charge h e) = work_data e"
    "work_objs (charge h e) = work_objs e" "work_queue (charge h e) = work_queue e"
    by (simp_all add: charge_def)
  have "blocks z - k - heap_wraps z = blocks e + h - heap_wraps e \<longleftrightarrow> blocks z - (h + k) - heap_wraps z = blocks e - heap_wraps e"
    by linarith
  then have "moved (charge h e) (lend k z) = moved e (lend (h + k) z)"
    unfolding moved_def keeps_lend by (simp only: k s f blocks_charge trace_charge lend_fields lend_frame)
  then show ?thesis unfolding work_queued_def by (simp only: f trace_charge lend_fields lend_work)
qed

lemma charge_entered:
  "h_argv (charge h e) = h_argv e" "work_ready (charge h e) = work_ready e"
  by (simp_all add: work_ready_def charge_def wraps_wf_def)

lemma I2cOpen_wp:
  fixes e :: "(call, 'z) i2t_scheme"
  assumes e: "work_ready e" and a: "is_function cb" "h_argv e = [JString tx, cb]" "NUL \<notin> set tx" "length tx < 2 ^ 31"
  shows "wp (Open_i2c E) (\<lambda>_ z. \<exists>device h. string_text device = tx \<and> 0 \<le> h \<and> (tx \<noteq> [] \<longrightarrow> h = 1) \<and>
    work_queued i2c_worker_name kI2cOpOpen ((i2c_cleared kI2cOpOpen)\<lparr>i2_device := device\<rparr>) cb e (lend (held device + h) z)) e"
proof -
  let ?Q = "\<lambda>_ z. \<exists>device h. string_text device = tx \<and> 0 \<le> h \<and> (tx \<noteq> [] \<longrightarrow> h = 1) \<and>
    work_queued i2c_worker_name kI2cOpOpen ((i2c_cleared kI2cOpOpen)\<lparr>i2_device := device\<rparr>) cb e (lend (held device + h) z)"
  have held: "0 \<le> held w \<and> (tx \<noteq> [] \<longrightarrow> held w = 1)" if "string_wf w" "contents w = tx" for w
    using that by (cases "str_data w") (auto simp: held_def contents_def)
  have tail: "wp (bnd (iotjs_string_append null_string (c_str (string_text device)) (c_int32 (uint (str_size device)))) (\<lambda>str.
     sq (upd_work_data p (\<lambda>d. d\<lparr>i2_device := str\<rparr>)) (sq (I2C_ASYNC E kI2cOpOpen p) iotjs_jhandler_return_null))) ?Q t"
    if dev: "string_wf device" "contents device = tx" and n: "i2c_new (charge (held device) e) p cb kI2cOpOpen t"
      and at: "i2c_at p (i2c_cleared kI2cOpOpen) 0 (i2c_fd t) (i2c_addr t) [] t t" for device p t
  proof -
    have tx: "string_text device = tx" using string_text_contents[OF dev(1)] dev(2) a(3) by simp
    have "uint (str_size device) = int (length tx)" using string_wf_size[OF dev(1)] dev(2) by (simp add: uint_nat)
    then have sz: "c_int32 (uint (str_size device)) = int (length tx)" using a(4) by simp
    have "wp (iotjs_string_append null_string (c_str tx) (int (length tx)))
      (\<lambda>w u. string_wf w \<and> contents w = tx \<and> u = charge (held w) t) t"
      using append_wp[of null_string "int (length tx)" "c_str tx" tx t] a(3,4) by (simp add: held_def)
    then show ?thesis
      unfolding tx sz wp_bnd
    proof (rule wp_mono, elim conjE)
      fix w u
      assume w: "string_wf w" "contents w = tx" "u = charge (held w) t"
      have u: "i2c_at p (i2c_cleared kI2cOpOpen) (held w) (i2c_fd t) (i2c_addr t) [] t u"
        using i2c_at_upd(4)[OF at, of "held w"] unfolding w(3) charge_def by simp
      have r: "work_ready (charge (held device) e)" using e by (simp add: charge_entered)
      have txw: "string_text w = tx" using string_text_contents[OF w(1)] w(2) a(3) by simp
      show "wp (sq (upd_work_data p (\<lambda>d. d\<lparr>i2_device := w\<rparr>)) (sq (I2C_ASYNC E kI2cOpOpen p) iotjs_jhandler_return_null)) ?Q u"
      proof (rule at_upd_data[OF u], goal_cases)
        case (1 v)
        show ?case
          by (rule wp_mono[OF new_async[OF r n 1]], simp add: queued_charge)
            (use txw held[OF dev] in \<open>auto simp: add.commute\<close>)
      qed
    qed
  qed
  have "wp (bnd (JHANDLER_GET_ARG 1 iotjs_jval_as_function) (\<lambda>jcallback.
     bnd (iotjs_i2c_reqwrap_create jcallback kI2cOpOpen) (\<lambda>p.
     bnd (iotjs_i2c_reqwrap_data p) (\<lambda>req_data.
     bnd (iotjs_string_append (i2_device req_data) (c_str (string_text device)) (c_int32 (uint (str_size device)))) (\<lambda>str.
     sq (upd_work_data p (\<lambda>d. d\<lparr>i2_device := str\<rparr>)) (sq (I2C_ASYNC E kI2cOpOpen p) iotjs_jhandler_return_null)))))) ?Q u"
    if dev: "string_wf device" "contents device = tx" "u = charge (held device) e" for device u
  proof -
    have u: "work_ready u" "h_argv u = [JString tx, cb]" using e a(2) dev(3) by (simp_all add: charge_entered)
    have "wp (bnd (iotjs_i2c_reqwrap_create cb kI2cOpOpen) (\<lambda>p.
     bnd (iotjs_i2c_reqwrap_data p) (\<lambda>req_data.
     bnd (iotjs_string_append (i2_device req_data) (c_str (string_text device)) (c_int32 (uint (str_size device)))) (\<lambda>str.
     sq (upd_work_data p (\<lambda>d. d\<lparr>i2_device := str\<rparr>)) (sq (I2C_ASYNC E kI2cOpOpen p) iotjs_jhandler_return_null))))) ?Q u"
    proof (rule create_then[OF u(1) a(1)], goal_cases)
      case (1 p t)
      show ?case
        using tail[OF dev(1,2) 1(1)[unfolded dev(3)] 1(2)] i2c_at_data[OF 1(2)]
        by (simp add: iotjs_i2c_reqwrap_data_def wp_bnd[of "get_work_data _"] wp_work_data)
    qed
    then show ?thesis using a(1) u(2) by (simp add: wp_bnd[of "JHANDLER_GET_ARG _ _"] wp_JHANDLER_GET_ARG wp_jval_as)
  qed
  note rest = this
  have "length tx < 2 ^ 32 - 1" using a(4) by simp
  note str = jval_as_string_wp[OF this]
  have "wp (bnd (iotjs_jval_as_string (JString tx)) (\<lambda>device. bnd (JHANDLER_GET_ARG 1 iotjs_jval_as_function) (\<lambda>jcallback.
     bnd (iotjs_i2c_reqwrap_create jcallback kI2cOpOpen) (\<lambda>p.
     bnd (iotjs_i2c_reqwrap_data p) (\<lambda>req_data.
     bnd (iotjs_string_append (i2_device req_data) (c_str (string_text device)) (c_int32 (uint (str_size device)))) (\<lambda>str.
     sq (upd_work_data p (\<lambda>d. d\<lparr>i2_device := str\<rparr>)) (sq (I2C_ASYNC E kI2cOpOpen p) iotjs_jhandler_return_null))))))) ?Q e"
    unfolding wp_bnd[of "iotjs_jval_as_string _"] by (rule wp_mono[OF str]) (elim conjE, rule rest)
  then show ?thesis
    using a(1,2) by (simp add: Open_i2c_def wp_check_args wp_bnd[of "JHANDLER_GET_ARG 0 _"] wp_bnd[of "iotjs_jval_as_string _"] wp_JHANDLER_GET_ARG)
qed

lemma return_null_thrown:
  fixes e u :: "(call, 'z) i2t_scheme"
  assumes e: "work_ready e" and u: "moved e u" "reqs u = reqs e" "work_data u = work_data e" "work_objs u = work_objs e"
    "work_queue u = work_queue e" "h_finished u = h_finished e"
  shows "wp iotjs_jhandler_return_null (\<lambda>_ t. work_thrown e t \<and> i2c_addr t = i2c_addr u) u"
proof -
  have "\<not> h_finished u" "wraps_wf u" using e u(1) by (simp_all add: work_ready_def moved_def u(6))
  from return_null_wp[OF this] show ?thesis
  proof (rule wp_mono, elim conjE exE)
    fix x tr and w :: "(call, 'z) i2t_scheme"
    assume w: "moved u w" "reqs w = reqs u" "wrt.more w = wrt.more u"
    have "i2c_addr w = i2c_addr u" using w(3) by (cases w; cases u) simp
    then show "work_thrown e w \<and> i2c_addr w = i2c_addr u"
      using moved_trans[OF u(1) w(1)] w(2) wkt_more[OF w(3)] u by (simp add: work_thrown_def)
  qed
qed

lemma moved_sys:
  fixes e :: "(call, 'z) i2t_scheme"
  assumes "work_ready e"
  shows "moved e (e\<lparr>trace := trace e @ [ESys c r]\<rparr>)"
proof -
  have "quiet e (e\<lparr>trace := trace e @ [ESys c r]\<rparr>)" unfolding quiet_def by (intro exI[of _ "[ESys c r]"]) simp
  then show ?thesis using assms by (intro quiet_moved) (simp_all add: work_ready_def)
qed

lemma SetAddress_wp:
  fixes e :: "(call, 'z) i2t_scheme"
  assumes e: "work_ready e" and a: "h_argv e = [v]" "js_uint8 v n"
  shows "wp (SetAddress E) (\<lambda>_ t. work_thrown e t \<and> i2c_addr t = n) e"
proof -
  let ?c = "SysIoctl (i2c_fd e) n"
  let ?u = "e\<lparr>i2c_addr := n, trace := trace e @ [ESys ?c (e_sys E (trace e) ?c)]\<rparr>"
  have "?u = e\<lparr>trace := trace e @ [ESys ?c (e_sys E (trace e) ?c)]\<rparr>\<lparr>i2c_addr := n\<rparr>" by (cases e) simp
  then have "moved e ?u" using moved_sys[OF e, of ?c "e_sys E (trace e) ?c"] by (simp only: moved_i2c_more)
  then have "wp iotjs_jhandler_return_null (\<lambda>_ t. work_thrown e t \<and> i2c_addr t = i2c_addr ?u) ?u"
    by (intro return_null_thrown[OF e]) simp_all
  then show ?thesis
    using a by (simp add: SetAddress_def i2c_checks wp_GET_UINT8_at js_uint8_def I2cSetAddress_def wp_sq wp_upd wp_bnd wp_gets wp_sys wp_ret)
qed

lemma I2cClose_wp:
  fixes e :: "(call, 'z) i2t_scheme"
  assumes e: "work_ready e" and a: "h_argv e = []"
  shows "wp (Close_i2c E) (\<lambda>_. work_thrown e) e"
proof -
  let ?c = "SysClose (i2c_fd e)"
  let ?u = "e\<lparr>trace := trace e @ [ESys ?c (e_sys E (trace e) ?c)]\<rparr>"
  have r: "wp iotjs_jhandler_return_null (\<lambda>_. work_thrown e) u"
    if "moved e u" "reqs u = reqs e" "work_data u = work_data e" "work_objs u = work_objs e" "work_queue u = work_queue e"
      "h_finished u = h_finished e" for u
    by (rule wp_mono[OF return_null_thrown[OF e that]]) simp
  have "wp iotjs_jhandler_return_null (\<lambda>_. work_thrown e) ?u" using moved_sys[OF e] by (intro r) simp_all
  moreover have "wp iotjs_jhandler_return_null (\<lambda>_. work_thrown e) e"
    using e by (intro r) (simp_all add: moved_def work_ready_def)
  ultimately show ?thesis
    using a by (simp add: Close_i2c_def wp_check_args I2cClose_def wp_sq wp_bnd wp_gets wp_sys wp_ret)
qed

lemma i2c_body_wp:
  fixes s :: "(call, 'z) i2t_scheme"
  assumes s: "net_inv E s" "env_initialized s" and args: "i2c_args E op args"
  shows "wp (i2c_body E op) (\<lambda>_. work_after i2c_worker_name i2c_ok i2c_cost {0..} (handler_entry t args s)) (handler_entry t args s)"
proof -
  let ?e = "handler_entry t args s"
  have e: "work_ready ?e" by (rule work_entered[OF s])
  have argv: "h_argv ?e = args" by simp
  have thrown: "wp m (\<lambda>_. work_after i2c_worker_name i2c_ok i2c_cost {0..} ?e) ?e"
    if "wp m (\<lambda>_. work_thrown ?e) ?e" for m
    using that by (rule wp_mono) (auto simp: work_after_def intro!: bexI[of _ 0])
  have queued: "wp m (\<lambda>_. work_after i2c_worker_name i2c_ok i2c_cost {0..} ?e) ?e"
    if "wp m (\<lambda>_ z. work_queued i2c_worker_name op d cb ?e (lend k z)) ?e" "i2c_cost d = k" "i2c_ok False op d" for m d cb op k
    using that(1) by (rule wp_mono) (use that(2,3) in \<open>auto simp: work_after_def intro!: exI bexI[of _ 0]\<close>)
  have queued0: "wp m (\<lambda>_. work_after i2c_worker_name i2c_ok i2c_cost {0..} ?e) ?e"
    if "wp m (\<lambda>_. work_queued i2c_worker_name op d cb ?e) ?e" "i2c_cost d = 0" "i2c_ok False op d" for m d cb op
    by (rule queued[of m op d cb 0]) (use that in simp_all)
  have z: "held null_string = 0" by (simp add: held_def)
  have d0: "in_int32 0" by (simp add: in_int32_def)
  show ?thesis
  proof (cases op)
    case kI2cOpSetAddress
    then obtain v n where a: "args = [v]" "js_uint8 v n" using args by auto
    show ?thesis unfolding kI2cOpSetAddress i2c_body.simps
      by (rule thrown, rule wp_mono[OF SetAddress_wp[OF e _ a(2)]]) (simp_all add: a(1))
  next
    case kI2cOpScan
    then obtain cb where a: "args = [cb]" "is_function cb" using args by auto
    show ?thesis unfolding kI2cOpScan i2c_body.simps
      using plain_handler_wp(1)[OF e a(2), unfolded argv, OF a(1)]
      by (rule queued0) (simp_all add: i2c_cost_def z i2c_ok_def)
  next
    case kI2cOpOpen
    then obtain tx cb where a: "args = [JString tx, cb]" "is_function cb" "NUL \<notin> set tx" "length tx < 2 ^ 31" using args by auto
    note w = I2cOpen_wp[OF e a(2) _ a(3,4), unfolded argv, OF a(1)]
    show ?thesis unfolding kI2cOpOpen i2c_body.simps
    proof (rule wp_mono[OF w], elim exE conjE)
      fix x device h and u :: "(call, 'z) i2t_scheme"
      let ?d = "(i2c_cleared kI2cOpOpen)\<lparr>i2_device := device\<rparr>"
      assume u: "0 \<le> h" "work_queued i2c_worker_name kI2cOpOpen ?d cb ?e (lend (held device + h) u)"
      have "i2c_cost ?d = held device" "i2c_ok False kI2cOpOpen ?d" by (simp_all add: i2c_cost_def i2c_ok_def)
      then show "work_after i2c_worker_name i2c_ok i2c_cost {0..} ?e u" using u unfolding work_after_def
        by (intro disjI2 exI[of _ kI2cOpOpen] exI[of _ ?d] exI[of _ cb] bexI[of _ h]) simp_all
    qed
  next
    case kI2cOpClose
    then show ?thesis using thrown[OF I2cClose_wp[OF e]] args by simp
  next
    case kI2cOpWrite
    then obtain j cb bs where a: "args = [j, cb]" "is_function cb" "js_bytes E j bs" using args by auto
    show ?thesis unfolding kI2cOpWrite i2c_body.simps
      using Write_wp[OF e a(2) _ a(3), unfolded argv, OF a(1)]
      by (rule queued) (simp_all add: i2c_cost_def z i2c_ok_def)
  next
    case kI2cOpWriteByte
    then obtain v n cb where a: "args = [v, cb]" "js_uint8 v n" "is_function cb" using args by auto
    show ?thesis unfolding kI2cOpWriteByte i2c_body.simps
      using WriteByte_wp[OF e a(3) _ a(2), unfolded argv, OF a(1)]
      by (rule queued0) (simp_all add: i2c_cost_def z i2c_ok_def)
  next
    case kI2cOpWriteBlock
    then obtain v n j cb bs where a: "args = [v, j, cb]" "js_uint8 v n" "is_function cb" "js_bytes E j bs" using args by auto
    show ?thesis unfolding kI2cOpWriteBlock i2c_body.simps
      using WriteBlock_wp[OF e a(3) _ a(2,4), unfolded argv, OF a(1)]
      by (rule queued) (simp_all add: i2c_cost_def z i2c_ok_def)
  next
    case kI2cOpRead
    then obtain v n cb where a: "args = [v, cb]" "js_uint8 v n" "is_function cb" using args by auto
    show ?thesis unfolding kI2cOpRead i2c_body.simps
      using Read_wp[OF e a(3) _ a(2), unfolded argv, OF a(1)]
      by (rule queued0) (simp_all add: i2c_cost_def z i2c_ok_def d0)
  next
    case kI2cOpReadByte
    then obtain cb where a: "args = [cb]" "is_function cb" using args by auto
    show ?thesis unfolding kI2cOpReadByte i2c_body.simps
      using plain_handler_wp(2)[OF e a(2), unfolded argv, OF a(1)]
      by (rule queued0) (simp_all add: i2c_cost_def z i2c_ok_def)
  next
    case kI2cOpReadBlock
    then obtain v c w n delay cb where a: "args = [v, w, JNumber (num delay), cb]" "js_uint8 v c" "js_uint8 w n" "n \<le> 34"
      "in_int32 delay" "in_int32 (delay * 1000)" "is_function cb" using args by auto
    show ?thesis unfolding kI2cOpReadBlock i2c_body.simps
      using ReadBlock_wp[OF e a(7) _ a(2,3,5), unfolded argv, OF a(1)]
      by (rule queued0) (simp_all add: i2c_cost_def z i2c_ok_def a(4,6))
  qed
qed

section \<open>The contract\<close>

lemma did_worked:
  assumes "i2c_did p (\<lambda>d'. i2c_ok True op d' \<and> i2c_cost d' - i2c_cost d \<le> k) k s t" "work_data s p = Some d"
  shows "work_worked p op i2c_ok i2c_cost {0..} s t"
proof -
  obtain d' fd a tr where d': "i2c_ok True op d'" "i2c_cost d' - i2c_cost d \<le> k" "i2c_at p d' k fd a tr s t"
    using assms(1) by (auto simp: i2c_did_def)
  let ?k = "k - (i2c_cost d' - i2c_cost d)"
  have "work_step p (\<lambda>_ x. x = d') s (lend (i2c_cost d' - i2c_cost d + ?k) t)"
    using d'(3) assms(2) by (simp add: work_step_def i2c_at_def)
  moreover have "?k \<in> {0..}" using d'(2) by simp
  ultimately show ?thesis using assms(2) d'(1) unfolding work_worked_def by blast
qed

lemma released_cost: "i2c_ok True op d \<Longrightarrow> 0 \<le> i2c_cost d - held (i2_device d) - i2c_released d"
  "0 \<le> i2c_cost d - held (i2_device d)"
  by (cases op) (auto simp: i2c_ok_def i2c_cost_def i2c_released_def split: i2c_buffer.split)

lemma i2c_worker_wp:
  fixes s :: "(call, 'z) i2t_scheme"
  assumes r: "wraps_wf s" "reqs s p = Some cb" "work_data s p = Some d" and law: "smbus_law E L" and ok: "i2c_ok False op d"
  shows "wp (i2c_worker E L op p) (\<lambda>_. work_worked p op i2c_ok i2c_cost {0..} s) s"
proof -
  have did: "wp m (\<lambda>_. work_worked p op i2c_ok i2c_cost {0..} s) s"
    if "wp m (\<lambda>_. i2c_did p (\<lambda>d'. i2c_ok True op d' \<and> i2c_cost d' - i2c_cost d \<le> k) k s) s" for m k
    using that by (rule wp_mono) (rule did_worked[OF _ r(3)])
  have op: "i2_op d = op" using ok by (simp add: i2c_ok_def)
  have w: "i2c_worker E L op = i2c_worker E L op'" if "op = op'" for op' using that by simp
  have b: "held (i2_device d) \<le> i2c_cost d" using released_cost(2)[of d] by simp
  show ?thesis
  proof (cases op)
    case kI2cOpScan
    show ?thesis unfolding w[OF kI2cOpScan] i2c_worker.simps
      by (rule did, rule ScanWorker_wp[OF r law]) (use op kI2cOpScan b in \<open>simp add: i2c_ok_def i2c_cost_def[of "_\<lparr>i2_buf_data := _\<rparr>"]\<close>)
  next
    case kI2cOpOpen
    show ?thesis unfolding w[OF kI2cOpOpen] i2c_worker.simps
      by (rule did, rule wp_mono[OF OpenWorker_wp[OF r refl]], erule did_at) (use op kI2cOpOpen in \<open>simp add: i2c_ok_def i2c_cost_def\<close>)
  next
    case kI2cOpWrite
    then obtain bs where bs: "i2_buf_data d = Allocated bs" "length bs = nat (i2_buf_len d)" using ok by (auto simp: i2c_ok_def)
    show ?thesis unfolding w[OF kI2cOpWrite] i2c_worker.simps
      by (rule did, rule wp_mono[OF WriteWorker_wp[OF r bs refl]], erule did_at) (use op kI2cOpWrite bs in \<open>simp add: i2c_ok_def i2c_cost_def\<close>)
  next
    case kI2cOpWriteByte
    show ?thesis unfolding w[OF kI2cOpWriteByte] i2c_worker.simps
      by (rule did, rule WriteByteWorker_wp[OF r]) (use op kI2cOpWriteByte in \<open>simp add: i2c_ok_def i2c_cost_def\<close>)
  next
    case kI2cOpWriteBlock
    then obtain bs where bs: "i2_buf_data d = Allocated bs" "length bs = nat (i2_buf_len d)" using ok by (auto simp: i2c_ok_def)
    show ?thesis unfolding w[OF kI2cOpWriteBlock] i2c_worker.simps
      by (rule did, rule WriteBlockWorker_wp[OF r bs]) (use op kI2cOpWriteBlock bs in \<open>simp add: i2c_ok_def i2c_cost_def\<close>)
  next
    case kI2cOpRead
    show ?thesis unfolding w[OF kI2cOpRead] i2c_worker.simps
      by (rule did, rule wp_mono[OF ReadWorker_wp[OF r refl refl refl]], erule did_at) (use ok kI2cOpRead b in \<open>simp add: i2c_ok_def i2c_cost_def\<close>)
  next
    case kI2cOpReadByte
    show ?thesis unfolding w[OF kI2cOpReadByte] i2c_worker.simps
      by (rule did, rule ReadByteWorker_wp[OF r law]) (use op kI2cOpReadByte in \<open>simp_all add: i2c_ok_def i2c_cost_def\<close>)
  next
    case kI2cOpReadBlock
    then have "i2_buf_len d \<le> 34" using ok by (simp add: i2c_ok_def)
    show ?thesis unfolding w[OF kI2cOpReadBlock] i2c_worker.simps
      by (rule did, rule ReadBlockWorker_wp[OF r law \<open>i2_buf_len d \<le> 34\<close>]) (use ok kI2cOpReadBlock b in \<open>simp add: i2c_ok_def i2c_cost_def\<close>)
  qed (use ok in \<open>simp_all add: i2c_ok_def\<close>)
qed

text \<open>The law of the bus is part of what a request needs.\<close>

interpretation i2c: work_module E MODULE_I2C i2c_worker_name "\<lambda>b op d. smbus_law E L \<and> i2c_ok b op d" i2c_cost "{0..}"
    "\<lambda>op args. smbus_law E L \<and> i2c_args E op args" "i2c_body E" "i2c_worker E L" "AfterI2CWork E"
  for E L
proof unfold_locales
  show "(0 :: int) \<in> {0..}" by simp
next
  fix a b :: int
  assume "a \<in> {0..}" "b \<in> {0..}"
  then show "a + b \<in> {0..}" by simp
next
  fix s :: "(call, 'z) i2t_scheme" and h args t
  assume a: "net_inv E s" "env_initialized s" "smbus_law E L \<and> i2c_args E h args"
  then show "wp (i2c_body E h) (\<lambda>_. work_after i2c_worker_name (\<lambda>b op d. smbus_law E L \<and> i2c_ok b op d) i2c_cost {0..} (handler_entry t args s))
      (handler_entry t args s)"
    using i2c_body_wp[OF a(1,2), where op = h and args = args and t = t] by simp
next
  fix s :: "(call, 'z) i2t_scheme" and p cb d op
  assume a: "wraps_wf s" "reqs s p = Some cb" "work_data s p = Some d" "smbus_law E L \<and> i2c_ok False op d"
  then show "wp (i2c_worker E L op p) (\<lambda>_. work_worked p op (\<lambda>b op d. smbus_law E L \<and> i2c_ok b op d) i2c_cost {0..} s) s"
    using i2c_worker_wp[OF a(1-3) conjunct1[OF a(4)] conjunct2[OF a(4)]] a(4) by simp
next
  fix s :: "(call, 'z) i2t_scheme" and g p cb d op status
  assume a: "net_inv E s" "work_object MODULE_I2C E s g" "reqs s p = Some cb" "work_data s p = Some d" "smbus_law E L \<and> i2c_ok True op d"
  show "wp (AfterI2CWork E p status) (\<lambda>_ t. \<exists>vs. \<exists>k'\<in>{0..}.
      work_completed p cb (jmodule s MODULE_I2C) vs s (lend (k' - i2c_cost d) t)) s"
  proof (rule wp_mono[OF AfterI2CWork_wp[OF a(1-4) conjunct2[OF a(5)]]], elim exE conjE)
    fix x vs and t :: "(call, 'z) i2t_scheme"
    let ?k = "i2c_cost d - (held (i2_device d) + (if status = 0 then i2c_released d else 0))"
    assume "work_completed p cb (jmodule s MODULE_I2C) vs s (lend (- (held (i2_device d) + (if status = 0 then i2c_released d else 0))) t)"
    moreover have "- (held (i2_device d) + (if status = 0 then i2c_released d else 0)) = ?k - i2c_cost d" by simp
    moreover have "?k \<in> {0..}" using released_cost(1)[of op d] released_cost(2)[of d] a(5) by simp
    ultimately show "\<exists>vs. \<exists>k'\<in>{0..}. work_completed p cb (jmodule s MODULE_I2C) vs s (lend (k' - i2c_cost d) t)" by metis
  qed
qed

section \<open>A request from the call to the callback\<close>

text \<open>The module between two steps of a request: its object is in place and \<open>b\<close> blocks are not in wrappers.\<close>

definition i2c_between :: "call engine \<Rightarrow> nat \<Rightarrow> jval \<Rightarrow> int \<Rightarrow> (call, 'z) i2t_scheme \<Rightarrow> bool" where
  "i2c_between E g ji2c b s \<longleftrightarrow> net_inv E s \<and> work_object MODULE_I2C E s g \<and> jmodule s MODULE_I2C = ji2c \<and>
     blocks s - heap_wraps s = b"

lemma between_call:
  fixes s :: "(call, 'z) i2t_scheme"
  assumes s: "i2c_between E g ji2c b s"
    and body: "wp body (\<lambda>_ z. work_queued name op d cb (handler_entry t args s) (lend k z)) (handler_entry t args s)"
  obtains u p where "JHANDLER_FUNCTION body t args s = Inr ((False, JNull), u)" "i2c_between E g ji2c (b + k) u"
    "reqs s p = None" "reqs u = (reqs s)(p \<mapsto> cb)" "work_data u = (work_data s)(p \<mapsto> d)" "work_queue u = (work_queue s)(p \<mapsto> (op, False))"
proof -
  let ?e = "handler_entry t args s"
  let ?n = "\<lambda>z. z\<lparr>blocks := blocks z - (if h_argv z = [] then 0 else 1)\<rparr>"
  have "wp (JHANDLER_FUNCTION body t args) (\<lambda>r u. \<exists>z. r = h_ret z \<and> u = ?n z \<and> work_queued name op d cb ?e (lend k z)) s"
    unfolding wp_JHANDLER_FUNCTION by (rule wp_mono[OF body]) blast
  then obtain z where z: "JHANDLER_FUNCTION body t args s = Inr (h_ret z, ?n z)" "work_queued name op d cb ?e (lend k z)"
    by (auto simp: wp_runs)
  then have m: "moved ?e (lend k z)" "work_objs z = work_objs s" "h_ret z = (False, JNull)"
    by (simp_all add: work_queued_def handler_entry_def)
  from z(2) obtain p where p: "reqs s p = None" "reqs z = (reqs s)(p \<mapsto> cb)" "work_data z = (work_data s)(p \<mapsto> d)"
    "work_queue z = (work_queue s)(p \<mapsto> (op, False))"
    unfolding work_queued_def by (auto simp: handler_entry_def)
  have n: "native_of (trace s @ [EAcquire JUndefined]) = native_of (trace s)" by (simp add: native_of_append fun_eq_iff)
  have h: "heap_wraps ?e = heap_wraps s" by (simp add: heap_wraps_def handler_entry_def)
  have h': "heap_wraps (z\<lparr>blocks := c\<rparr>) = heap_wraps z" for c by (simp add: heap_wraps_def)
  have argv: "h_argv z = args" "jmodule z = jmodule s" "native_of (trace z) = native_of (trace s)" "wraps_wf z"
    using m(1) n unfolding moved_def keeps_lend by simp_all
  have "blocks z - k - heap_wraps z = blocks ?e - heap_wraps ?e" using m(1) unfolding moved_def keeps_lend by blast
  then have "blocks (?n z) - heap_wraps (?n z) = b + k"
    using s unfolding h h' argv(1) i2c_between_def by simp
  moreover have "wraps_wf (?n z)" using argv(4) by (simp add: wraps_wf_def)
  ultimately have "i2c_between E g ji2c (b + k) (?n z)"
    using s argv(2,3) m(2) by (auto simp: i2c_between_def net_inv_def work_object_def)
  then show ?thesis using that[of "?n z" p] z(1) m(3) p by simp
qed

lemma between_thread:
  fixes s :: "(call, 'z) i2t_scheme"
  assumes s: "i2c_between E g ji2c b s" and q: "work_queue s p = Some (op, False)"
    and w: "wp (worker op p) (\<lambda>_. i2c_at p d k fd a tr s) s"
  obtains u where "work_thread worker p s = Inr ((), u)" "i2c_between E g ji2c (b + k) u" "reqs u = reqs s"
    "work_data u = (work_data s)(p \<mapsto> d)" "work_queue u = (work_queue s)(p \<mapsto> (op, True))" "trace u = trace s @ tr" "i2c_fd u = fd"
proof -
  let ?q = "\<lambda>u. u\<lparr>work_queue := (work_queue u)(p \<mapsto> (op, True))\<rparr>"
  have "wp (sq (worker op p) (upd ?q)) (\<lambda>_ v. \<exists>u. v = ?q u \<and> i2c_at p d k fd a tr s u) s"
    unfolding wp_sq by (rule wp_mono[OF w]) (auto simp: wp_upd)
  then obtain u where u: "work_thread worker p s = Inr ((), ?q u)" "i2c_at p d k fd a tr s u"
    using q by (auto simp: work_thread_def wp_runs bnd_def gets_def)
  have m: "work_moved s (lend k u)" using u(2) by (simp add: i2c_at_def)
  have "work_object MODULE_I2C E u g" using work_object_moved[OF _ m] s by (simp add: i2c_between_def)
  moreover have "moved s (lend k u)" using m by (simp add: work_moved_def)
  then have "jmodule u = jmodule s" "wraps_wf u" "blocks u - k - heap_wraps u = blocks s - heap_wraps s"
    unfolding moved_def keeps_lend by simp_all
  moreover from this have "wraps_wf (?q u)" by (simp add: wraps_wf_def)
  moreover have "heap_wraps (?q u) = heap_wraps u" by (simp add: heap_wraps_def)
  ultimately have "i2c_between E g ji2c (b + k) (?q u)" using s by (simp add: i2c_between_def net_inv_def)
  then show ?thesis using that[of "?q u"] u by (simp add: i2c_at_def)
qed

lemma between_done:
  fixes s :: "(call, 'z) i2t_scheme"
  assumes s: "i2c_between E g ji2c b s" and q: "work_queue s p = Some (op, True)"
    and r: "reqs s p = Some cb" "work_data s p = Some d" "i2c_ok True op d"
  obtains u vs where "work_done (AfterI2CWork E) p 0 s = Inr ((), u)" "i2c_answer d vs (trace u)" "callback_made cb ji2c vs s u"
    "blocks u - heap_wraps u = b - held (i2_device d) - i2c_released d" "reqs u = (reqs s)(p := None)"
proof -
  let ?s = "s\<lparr>work_queue := (work_queue s)(p := None)\<rparr>"
  let ?k = "held (i2_device d) + i2c_released d"
  have s': "net_inv E ?s" "work_object MODULE_I2C E ?s g" "jmodule ?s MODULE_I2C = ji2c"
    using s by (simp_all add: i2c_between_def)
  obtain u vs where u: "AfterI2CWork E p 0 ?s = Inr ((), u)" "work_completed p cb ji2c vs ?s (lend (- ?k) u)" "i2c_answer d vs (trace u)"
    using AfterI2CWork_wp[OF s'(1,2), of p cb d op 0] r s'(3) by (auto simp: wp_runs)
  have "work_done (AfterI2CWork E) p 0 s = Inr ((), u)"
    using q u(1) by (simp add: work_done_def bnd_def gets_def sq_def upd_def)
  moreover have "callback_made cb ji2c vs s u" using u(2) by (simp add: work_completed_def callback_made_def)
  moreover have "moved ?s (lend (- ?k) u)" "reqs u = (reqs s)(p := None)" using u(2) by (simp_all add: work_completed_def)
  moreover have "heap_wraps ?s = heap_wraps s" by (simp add: heap_wraps_def)
  ultimately show ?thesis
    using s u(3) unfolding moved_def keeps_lend i2c_between_def by (intro that[of u vs]) simp_all
qed

lemma between_start: "work_inv MODULE_I2C ok E s g \<Longrightarrow> i2c_between E g (jmodule s MODULE_I2C) (blocks s - heap_wraps s) s"
  by (simp add: i2c_between_def work_inv_def)

section \<open>Properties\<close>


text \<open>C21. A write, from the call to the callback: the thread writes the bytes whose values the script's array
  holds to the descriptor of the process in one call, and the callback gets null when all of them were
  written, an error otherwise; the buffer is freed in both cases.\<close>

theorem i2c_write_correct:
  fixes s :: "(call, 'z) i2t_scheme"
  assumes "work_inv MODULE_I2C i2c_ok E s g" "is_function cb" "js_bytes E j cs"
  shows "\<exists>u p v w n r. JHANDLER_FUNCTION (Write_i2c E) t [j, cb] s = Inr ((False, JNull), u) \<and>
    work_thread (i2c_worker E L) p u = Inr ((), v) \<and> trace v = trace u @ [ESys (SysWrite (i2c_fd u) cs) n] \<and>
    work_done (AfterI2CWork E) p 0 v = Inr ((), w) \<and> callback_made cb (jmodule s MODULE_I2C) [r] v w \<and>
    (if n = int (length cs) then r = JNull else \<exists>x. r = JObject x) \<and>
    reqs w = reqs s \<and> blocks w - heap_wraps w = blocks s - heap_wraps s"
proof -
  have i: "net_inv E s" "env_initialized s" using assms(1) by (simp_all add: work_inv_def)
  let ?d = "(i2c_cleared kI2cOpWrite)\<lparr>i2_buf_len := int (length cs), i2_buf_data := Allocated cs\<rparr>"
  have "wp (Write_i2c E) (\<lambda>_ z. work_queued i2c_worker_name kI2cOpWrite ?d cb (handler_entry t [j, cb] s) (lend 1 z)) (handler_entry t [j, cb] s)"
    by (rule Write_wp[OF work_entered[OF i] assms(2) _ assms(3)]) simp
  from between_call[OF between_start[OF assms(1)] this] obtain u p where u: "JHANDLER_FUNCTION (Write_i2c E) t [j, cb] s = Inr ((False, JNull), u)"
    "i2c_between E g (jmodule s MODULE_I2C) (blocks s - heap_wraps s + 1) u" "reqs s p = None" "reqs u = (reqs s)(p \<mapsto> cb)"
    "work_data u = (work_data s)(p \<mapsto> ?d)" "work_queue u = (work_queue s)(p \<mapsto> (kI2cOpWrite, False))" by metis
  define n where "n = e_sys E (trace u) (SysWrite (i2c_fd u) cs)"
  let ?d' = "?d\<lparr>i2_error := if n \<noteq> int (length cs) then kI2cErrWrite else kI2cErrOk, i2_buf_data := Released\<rparr>"
  have "wp (i2c_worker E L kI2cOpWrite p) (\<lambda>_. i2c_at p ?d' (- 1) (i2c_fd u) (i2c_addr u) [ESys (SysWrite (i2c_fd u) cs) n] u) u"
  proof -
    have pre: "wraps_wf u" "reqs u p = Some cb" "work_data u p = Some ?d" "i2_buf_data ?d = Allocated cs" "length cs = nat (i2_buf_len ?d)"
      using u(2,4,5) by (simp_all add: i2c_between_def net_inv_def)
    have err: "(if n \<noteq> i2_buf_len ?d then kI2cErrWrite else i2_error ?d) = (if n \<noteq> int (length cs) then kI2cErrWrite else kI2cErrOk)" by simp
    show ?thesis using WriteWorker_wp[OF pre n_def, unfolded err] by simp
  qed
  from between_thread[where worker = "i2c_worker E L" and op = kI2cOpWrite, OF u(2) _ this] obtain v where v: "work_thread (i2c_worker E L) p u = Inr ((), v)"
    "i2c_between E g (jmodule s MODULE_I2C) (blocks s - heap_wraps s) v" "reqs v = reqs u" "work_data v = (work_data u)(p \<mapsto> ?d')"
    "work_queue v = (work_queue u)(p \<mapsto> (kI2cOpWrite, True))" "trace v = trace u @ [ESys (SysWrite (i2c_fd u) cs) n]"
    using u(6) by (auto simp: algebra_simps)
  have "i2c_ok True kI2cOpWrite ?d'" "held (i2_device ?d') = 0" "i2c_released ?d' = 0"
    by (simp_all add: i2c_ok_def held_def i2c_released_def)
  with between_done[OF v(2), of p kI2cOpWrite cb ?d'] obtain w vs where w: "work_done (AfterI2CWork E) p 0 v = Inr ((), w)"
    "i2c_answer ?d' vs (trace w)" "callback_made cb (jmodule s MODULE_I2C) vs v w" "blocks w - heap_wraps w = blocks s - heap_wraps s"
    "reqs w = (reqs v)(p := None)"
    using u(4) v(3,4,5) by (metis diff_zero fun_upd_same)
  have "\<exists>r. vs = [r] \<and> (if n = int (length cs) then r = JNull else \<exists>x. r = JObject x)"
    using w(2) by (auto simp: i2c_answer_def split: if_splits)
  moreover have "reqs w = reqs s" using w(5) v(3) u(3,4) by (simp add: fun_upd_idem)
  ultimately show ?thesis using u(1) v(1,6) w(1,3,4) by blast
qed

text \<open>C22. A read, from the call to the callback: the thread reads as many bytes as the script asked for from the
  descriptor in one call. When exactly that many arrive the callback gets null and an array with their
  values, and the buffer is freed; otherwise it gets an error and null, and the buffer is lost.\<close>

theorem i2c_read_correct:
  fixes s :: "(call, 'z) i2t_scheme"
  assumes "work_inv MODULE_I2C i2c_ok E s g" "is_function cb" "0 \<le> len" "len < 256"
  shows "\<exists>u p v w n bs vs. JHANDLER_FUNCTION (Read_i2c E) t [JNumber (num len), cb] s = Inr ((False, JNull), u) \<and>
    work_thread (i2c_worker E L) p u = Inr ((), v) \<and> trace v = trace u @ [ESys (SysRead (i2c_fd u) (nat len)) n] \<and>
    bs = read_into (take (nat n) (ans_data (lib_answer L (trace v)))) (replicate (nat len) NUL) \<and>
    work_done (AfterI2CWork E) p 0 v = Inr ((), w) \<and> callback_made cb (jmodule s MODULE_I2C) vs v w \<and> reqs w = reqs s \<and>
    (if n = len
     then (\<exists>x. is_array x \<and> vs = [JNull, x] \<and>
            (\<forall>i<nat len. ESetIndex x i (JNumber (num (char_value (bs ! i)))) \<in> set (trace w))) \<and>
          blocks w - heap_wraps w = blocks s - heap_wraps s
     else (\<exists>x. vs = [JObject x, JNull]) \<and> blocks w - heap_wraps w = blocks s - heap_wraps s + 1)"
proof -
  have i: "net_inv E s" "env_initialized s" using assms(1) by (simp_all add: work_inv_def)
  let ?args = "[JNumber (num len), cb]"
  let ?d = "(i2c_cleared kI2cOpRead)\<lparr>i2_buf_len := len\<rparr>"
  have "wp (Read_i2c E) (\<lambda>_ z. work_queued i2c_worker_name kI2cOpRead ?d cb (handler_entry t ?args s) (lend 0 z)) (handler_entry t ?args s)"
    using Read_wp[OF work_entered[OF i] assms(2)] assms(3,4) by (simp add: js_uint8_def)
  from between_call[OF between_start[OF assms(1)] this] obtain u p where u: "JHANDLER_FUNCTION (Read_i2c E) t ?args s = Inr ((False, JNull), u)"
    "i2c_between E g (jmodule s MODULE_I2C) (blocks s - heap_wraps s + 0) u" "reqs s p = None" "reqs u = (reqs s)(p \<mapsto> cb)"
    "work_data u = (work_data s)(p \<mapsto> ?d)" "work_queue u = (work_queue s)(p \<mapsto> (kI2cOpRead, False))" by metis
  let ?c = "SysRead (i2c_fd u) (nat (i2_buf_len ?d))"
  define n where "n = e_sys E (trace u) ?c"
  define bs where "bs = read_into (take (nat n) (ans_data (lib_answer L (trace u @ [ESys ?c n])))) (replicate (nat (i2_buf_len ?d)) NUL)"
  let ?d' = "?d\<lparr>i2_buf_data := Allocated bs, i2_error := if n \<noteq> i2_buf_len ?d then kI2cErrRead else i2_error ?d\<rparr>"
  have pre: "wraps_wf u" "reqs u p = Some cb" "work_data u p = Some ?d" "work_queue u p = Some (kI2cOpRead, False)"
    using u(2,4,5,6) by (simp_all add: i2c_between_def net_inv_def)
  have "wp (i2c_worker E L kI2cOpRead p) (\<lambda>_. i2c_at p ?d' 1 (i2c_fd u) (i2c_addr u) [ESys ?c n] u) u"
    unfolding i2c_worker.simps by (rule ReadWorker_wp[OF pre(1-3) refl n_def bs_def])
  from between_thread[where worker = "i2c_worker E L" and op = kI2cOpRead, OF u(2) pre(4) this]
  obtain v where v: "work_thread (i2c_worker E L) p u = Inr ((), v)"
    "i2c_between E g (jmodule s MODULE_I2C) (blocks s - heap_wraps s + 0 + 1) v" "reqs v = reqs u" "work_data v = (work_data u)(p \<mapsto> ?d')"
    "work_queue v = (work_queue u)(p \<mapsto> (kI2cOpRead, True))" "trace v = trace u @ [ESys ?c n]" by metis
  have "length bs = nat len" by (simp add: bs_def)
  then have ok: "i2c_ok True kI2cOpRead ?d'" "held (i2_device ?d') = 0" by (simp_all add: i2c_ok_def held_def in_int32_def)
  have q: "work_queue v p = Some (kI2cOpRead, True)" "reqs v p = Some cb" "work_data v p = Some ?d'" using v(3-5) pre by simp_all
  obtain w vs where w: "work_done (AfterI2CWork E) p 0 v = Inr ((), w)"
    "i2c_answer ?d' vs (trace w)" "callback_made cb (jmodule s MODULE_I2C) vs v w"
    "blocks w - heap_wraps w = blocks s - heap_wraps s + 0 + 1 - held (i2_device ?d') - i2c_released ?d'"
    "reqs w = (reqs v)(p := None)"
    by (rule between_done[OF v(2) q ok(1)])
  have "if n = len
     then (\<exists>x. is_array x \<and> vs = [JNull, x] \<and>
            (\<forall>i<nat len. ESetIndex x i (JNumber (num (char_value (bs ! i)))) \<in> set (trace w))) \<and>
          blocks w - heap_wraps w = blocks s - heap_wraps s
     else (\<exists>x. vs = [JObject x, JNull]) \<and> blocks w - heap_wraps w = blocks s - heap_wraps s + 1"
    using w(2,4) ok(2) by (cases "n = len") (auto simp: i2c_answer_def array_answer_def i2c_released_def)
  moreover have "reqs w = reqs s" using w(5) v(3) u(3,4) by (simp add: fun_upd_idem)
  moreover have "trace v = trace u @ [ESys (SysRead (i2c_fd u) (nat len)) n]" using v(6) by simp
  moreover have "bs = read_into (take (nat n) (ans_data (lib_answer L (trace v)))) (replicate (nat len) NUL)"
    unfolding bs_def v(6) by simp
  ultimately show ?thesis using u(1) v(1) w(1,3) by blast
qed

text \<open>C23. \<^verbatim>\<open>open\<close>, from the call to the callback: the thread opens the device by the name that the script gave,
  the descriptor becomes that of the process, even when it is -1, and the callback gets null unless it
  is; the copy of the name that the handler made is never freed.\<close>

theorem i2c_open_correct:
  fixes s :: "(call, 'z) i2t_scheme"
  assumes "work_inv MODULE_I2C i2c_ok E s g" "is_function cb" "NUL \<notin> set tx" "tx \<noteq> []" "length tx < 2 ^ 31"
  shows "\<exists>u p v w r. JHANDLER_FUNCTION (Open_i2c E) t [JString tx, cb] s = Inr ((False, JNull), u) \<and>
    work_thread (i2c_worker E L) p u = Inr ((), v) \<and> trace v = trace u @ [ESys (SysOpen tx) (i2c_fd v)] \<and>
    work_done (AfterI2CWork E) p 0 v = Inr ((), w) \<and> callback_made cb (jmodule s MODULE_I2C) [r] v w \<and>
    (if i2c_fd v = - 1 then \<exists>x. r = JObject x else r = JNull) \<and>
    reqs w = reqs s \<and> blocks w - heap_wraps w = blocks s - heap_wraps s + 1"
proof -
  have i: "net_inv E s" "env_initialized s" using assms(1) by (simp_all add: work_inv_def)
  let ?e = "handler_entry t [JString tx, cb] s"
  let ?d = "\<lambda>device. (i2c_cleared kI2cOpOpen)\<lparr>i2_device := device\<rparr>"
  have "wp (Open_i2c E) (\<lambda>_ z. \<exists>device h. string_text device = tx \<and> 0 \<le> h \<and> (tx \<noteq> [] \<longrightarrow> h = 1) \<and>
      work_queued i2c_worker_name kI2cOpOpen (?d device) cb ?e (lend (held device + h) z)) ?e"
    by (rule I2cOpen_wp[OF work_entered[OF i] assms(2) _ assms(3,5)]) simp
  then obtain x z where "Open_i2c E ?e = Inr (x, z)" and "\<exists>device h. string_text device = tx \<and> 0 \<le> h \<and> (tx \<noteq> [] \<longrightarrow> h = 1) \<and>
      work_queued i2c_worker_name kI2cOpOpen (?d device) cb ?e (lend (held device + h) z)"
    by (auto simp: wp_runs)
  then obtain device where device: "string_text device = tx"
    and body: "wp (Open_i2c E) (\<lambda>_ z. work_queued i2c_worker_name kI2cOpOpen (?d device) cb ?e (lend (held device + 1) z)) ?e"
    using assms(4) by (auto simp: wp_runs)
  from between_call[OF between_start[OF assms(1)] body] obtain u p where u: "JHANDLER_FUNCTION (Open_i2c E) t [JString tx, cb] s = Inr ((False, JNull), u)"
    "i2c_between E g (jmodule s MODULE_I2C) (blocks s - heap_wraps s + (held device + 1)) u" "reqs s p = None" "reqs u = (reqs s)(p \<mapsto> cb)"
    "work_data u = (work_data s)(p \<mapsto> ?d device)" "work_queue u = (work_queue s)(p \<mapsto> (kI2cOpOpen, False))" by metis
  have pre: "wraps_wf u" "reqs u p = Some cb" "work_data u p = Some (?d device)" "work_queue u p = Some (kI2cOpOpen, False)"
    using u(2,4,5,6) by (simp_all add: i2c_between_def net_inv_def)
  define fd where "fd = e_sys E (trace u) (SysOpen (string_text (i2_device (?d device))))"
  let ?d' = "(?d device)\<lparr>i2_error := if fd = - 1 then kI2cErrOpen else kI2cErrOk\<rparr>"
  have "wp (i2c_worker E L kI2cOpOpen p) (\<lambda>_. i2c_at p ?d' 0 fd (i2c_addr u) [ESys (SysOpen (string_text (i2_device (?d device)))) fd] u) u"
    unfolding i2c_worker.simps by (rule OpenWorker_wp[OF pre(1-3) fd_def])
  from between_thread[where worker = "i2c_worker E L" and op = kI2cOpOpen, OF u(2) pre(4) this]
  obtain v where v: "work_thread (i2c_worker E L) p u = Inr ((), v)"
    "i2c_between E g (jmodule s MODULE_I2C) (blocks s - heap_wraps s + (held device + 1) + 0) v" "reqs v = reqs u"
    "work_data v = (work_data u)(p \<mapsto> ?d')" "work_queue v = (work_queue u)(p \<mapsto> (kI2cOpOpen, True))"
    "trace v = trace u @ [ESys (SysOpen (string_text (i2_device (?d device)))) fd]" "i2c_fd v = fd" by metis
  have ok: "i2c_ok True kI2cOpOpen ?d'" by (simp add: i2c_ok_def)
  have q: "work_queue v p = Some (kI2cOpOpen, True)" "reqs v p = Some cb" "work_data v p = Some ?d'" using v(3-5) pre by simp_all
  obtain w vs where w: "work_done (AfterI2CWork E) p 0 v = Inr ((), w)"
    "i2c_answer ?d' vs (trace w)" "callback_made cb (jmodule s MODULE_I2C) vs v w"
    "blocks w - heap_wraps w = blocks s - heap_wraps s + (held device + 1) + 0 - held (i2_device ?d') - i2c_released ?d'"
    "reqs w = (reqs v)(p := None)"
    by (rule between_done[OF v(2) q ok])
  have "\<exists>r. vs = [r] \<and> (if i2c_fd v = - 1 then \<exists>x. r = JObject x else r = JNull)"
    using w(2) v(7) by (cases "fd = - 1") (auto simp: i2c_answer_def)
  moreover have "blocks w - heap_wraps w = blocks s - heap_wraps s + 1" using w(4) by (simp add: i2c_released_def)
  moreover have "reqs w = reqs s" using w(5) v(3) u(3,4) by (simp add: fun_upd_idem)
  moreover have "trace v = trace u @ [ESys (SysOpen tx) (i2c_fd v)]" using v(6,7) device by simp
  ultimately show ?thesis using u(1) v(1) w(1,3) by blast
qed

text \<open>C36. A block read of more than 34 bytes, which \<^verbatim>\<open>readBlock\<close> accepts up to 255, reads over the end of the
  array on the stack of the thread, whatever the bus answers.\<close>

theorem i2c_read_block_overreads:
  fixes s :: "(call, 'z) i2t_scheme"
  assumes "smbus_law E L" "work_inv MODULE_I2C i2c_ok E s g" "is_function cb" "0 \<le> cmd" "cmd < 256" "34 < len" "len < 256" "in_int32 delay"
  shows "\<exists>u p. JHANDLER_FUNCTION (ReadBlock E) t [JNumber (num cmd), JNumber (num len), JNumber (num delay), cb] s = Inr ((False, JNull), u) \<and>
    reqs u = (reqs s)(p \<mapsto> cb) \<and> work_thread (i2c_worker E L) p u = Inl (OutOfBounds ''data'')"
proof -
  have i: "net_inv E s" "env_initialized s" using assms(2) by (simp_all add: work_inv_def)
  let ?args = "[JNumber (num cmd), JNumber (num len), JNumber (num delay), cb]"
  let ?d = "(i2c_cleared kI2cOpReadBlock)\<lparr>i2_cmd := cmd, i2_buf_len := len, i2_delay := delay\<rparr>"
  have "wp (ReadBlock E) (\<lambda>_ z. work_queued i2c_worker_name kI2cOpReadBlock ?d cb (handler_entry t ?args s) (lend 0 z)) (handler_entry t ?args s)"
    using ReadBlock_wp[OF work_entered[OF i] assms(3)] assms(4-8) by (simp add: js_uint8_def)
  from between_call[OF between_start[OF assms(2)] this] obtain u p where u: "JHANDLER_FUNCTION (ReadBlock E) t ?args s = Inr ((False, JNull), u)"
    "i2c_between E g (jmodule s MODULE_I2C) (blocks s - heap_wraps s + 0) u" "reqs s p = None" "reqs u = (reqs s)(p \<mapsto> cb)"
    "work_data u = (work_data s)(p \<mapsto> ?d)" "work_queue u = (work_queue s)(p \<mapsto> (kI2cOpReadBlock, False))" by metis
  have pre: "wraps_wf u" "reqs u p = Some cb" "work_data u p = Some ?d" "work_queue u p = Some (kI2cOpReadBlock, False)"
    using u(2,4,5,6) by (simp_all add: i2c_between_def net_inv_def)
  let ?e = "OutOfBounds ''data''"
  have "fails ?e (ReadBlockWorker E L p) u"
  proof -
    have run: "I2C_WORKER_INIT_TEMPLATE p body u = body p ?d (i2c_fd u) u" for body
      using pre(2,3) by (simp add: I2C_WORKER_INIT_TEMPLATE_def iotjs_i2c_reqwrap_from_request_def iotjs_i2c_reqwrap_data_def
        work_from_request_def iotjs_reqwrap_jcallback_def get_work_data_def bnd_def gets_def ret_def)
    have long: "34 < nat len" using assms(6) by simp
    have copy: "fails ?e (bnd (iotjs_buffer_allocate (nat len)) (\<lambda>blk.
        if I2C_SMBUS_BLOCK_MAX + 2 < nat len then fail (OutOfBounds ''data'') else m blk)) v" for m and v :: "(call, 'z) i2t_scheme"
      using long by (intro fails_bnd) (simp add: wp_buffer_allocate fails_def fail_def)
    have "fails ?e (bnd (I2cSmbusReadI2cBlockData E L (i2c_fd u) cmd len) (\<lambda>(result, data).
        sq (if result \<noteq> len then i2c_set_error p kI2cErrReadBlock else ret ())
       (bnd (iotjs_buffer_allocate (nat len)) (\<lambda>blk.
        if I2C_SMBUS_BLOCK_MAX + 2 < nat len then fail (OutOfBounds ''data'')
        else upd_work_data p (\<lambda>d. d\<lparr>i2_buf_data := Allocated (read_into data blk)\<rparr>))))) u"
    proof (rule fails_bnd, rule wp_mono[OF read_i2c_block_wp[OF i2c_at_start[OF pre(1,3)] assms(1)]], elim exE)
      fix x :: "int \<times> char list" and tr and v :: "(call, 'z) i2t_scheme"
      assume v: "i2c_at p ?d 0 (i2c_fd u) (i2c_addr u) tr u v"
      obtain n data where x: "x = (n, data)" by (cases x)
      have "wp (if n \<noteq> len then i2c_set_error p kI2cErrReadBlock else ret ()) (\<lambda>_ _. True) v"
        using at_set_error[OF v, of kI2cErrReadBlock] by (cases "n = len") (auto simp: wp_ret elim: wp_mono)
      then show "fails ?e (case x of (result, data) \<Rightarrow> sq (if result \<noteq> len then i2c_set_error p kI2cErrReadBlock else ret ())
         (bnd (iotjs_buffer_allocate (nat len)) (\<lambda>blk.
          if I2C_SMBUS_BLOCK_MAX + 2 < nat len then fail (OutOfBounds ''data'')
          else upd_work_data p (\<lambda>d. d\<lparr>i2_buf_data := Allocated (read_into data blk)\<rparr>)))) v"
        unfolding x prod.case by (intro fails_sq) (rule wp_mono, assumption, rule copy)
    qed
    then show ?thesis by (simp add: fails_def ReadBlockWorker_def run)
  qed
  then have "work_thread (i2c_worker E L) p u = Inl ?e"
    using pre(4) by (simp add: work_thread_def bnd_def gets_def sq_def fails_def)
  with u(1,4) show ?thesis by blast
qed

section \<open>A concrete session\<close>

text \<open>The system grants every call and delivers two bytes; the array of the script holds two bytes, 104 and -1.\<close>

definition i2c_engine :: "call engine" where
  "i2c_engine = wraps_engine\<lparr>
     e_prop := \<lambda>tr j name. if j = JArray 8 \<and> name = ''length'' then (False, JNumber (num 2)) else e_prop wraps_engine tr j name,
     e_index := \<lambda>tr j i. (False, JNumber (num (if i = 0 then 104 else - 1))),
     e_sys := \<lambda>tr c. case c of SysRead fd n \<Rightarrow> int n | SysWrite fd bs \<Rightarrow> int (length bs) | SysOpen path \<Rightarrow> 3 | _ \<Rightarrow> 0\<rparr>"

definition i2c_state :: "call i2t" where
  "i2c_state = \<lparr>trace = [ESetNative (JObject 7) 1], blocks = 1, h_this = JNull, h_argv = [], h_ret = (False, JNull),
     h_finished = False, jmodule = \<lambda>k. if k = MODULE_I2C then JObject 7 else JObject 0, env = fresh_environment,
     env_initialized = True, handles = Map.empty, reqs = Map.empty, next_ptr = 2, work_data = Map.empty,
     work_objs = [1 \<mapsto> JObject 7], work_queue = Map.empty, i2c_fd = 0, i2c_addr = 0\<rparr>"

definition i2c_lib :: fs_lib where
  "i2c_lib = \<lparr>lib_strerror = \<lambda>_. ''error'', lib_answer = \<lambda>_. \<lparr>ans_stat = \<lparr>st_dev = 0, st_mode = 0, st_nlink = 0,
     st_uid = 0, st_gid = 0, st_rdev = 0, st_blksize = 0, st_ino = 0, st_size = 0, st_blocks = 0\<rparr>, ans_names = [],
     ans_data = [char_of (2 :: nat), CHR ''h'', CHR 0xFF]\<rparr>\<rparr>"

lemma i2c_state_inv: "work_inv MODULE_I2C i2c_ok i2c_engine i2c_state 1"
proof -
  have "native_law i2c_engine" "process_ok i2c_engine (JObject 0)"
    by (auto simp: native_law_def i2c_engine_def wraps_engine_def process_ok_def sample_engine_def)
  then show ?thesis
    by (simp add: work_inv_def net_inv_def work_object_def i2c_state_def wraps_wf_def native_of_def)
qed

lemma i2c_engine_law: "smbus_law i2c_engine i2c_lib"
  by (simp add: smbus_law_def smbus_block_def i2c_lib_def)

lemma i2c_engine_bytes: "js_bytes i2c_engine (JArray 8) [CHR ''h'', CHR 0xFF]"
  by (simp add: js_bytes_def i2c_engine_def char_value_def less_Suc_eq nth_Cons')


theorem i2c_write_correct_witness:
  "\<exists>u p v w n r. JHANDLER_FUNCTION (Write_i2c i2c_engine) (JObject 7) [JArray 8, JFunction 9] i2c_state = Inr ((False, JNull), u) \<and>
    work_thread (i2c_worker i2c_engine i2c_lib) p u = Inr ((), v) \<and> trace v = trace u @ [ESys (SysWrite (i2c_fd u) [CHR ''h'', CHR 0xFF]) n] \<and>
    work_done (AfterI2CWork i2c_engine) p 0 v = Inr ((), w) \<and> (if n = 2 then r = JNull else \<exists>x. r = JObject x)"
  using i2c_write_correct[OF i2c_state_inv _ i2c_engine_bytes, of "JFunction 9" "JObject 7" i2c_lib] by (auto; metis)

theorem i2c_read_correct_witness:
  "\<exists>u p v w. JHANDLER_FUNCTION (Read_i2c i2c_engine) (JObject 7) [JNumber (num 2), JFunction 9] i2c_state = Inr ((False, JNull), u) \<and>
    work_thread (i2c_worker i2c_engine i2c_lib) p u = Inr ((), v) \<and> work_done (AfterI2CWork i2c_engine) p 0 v = Inr ((), w)"
  using i2c_read_correct[OF i2c_state_inv, of "JFunction 9" 2 "JObject 7" i2c_lib] by (simp; metis)

theorem i2c_open_correct_witness:
  "\<exists>u p v w. JHANDLER_FUNCTION (Open_i2c i2c_engine) (JObject 7) [JString ''/dev/i2c-1'', JFunction 9] i2c_state = Inr ((False, JNull), u) \<and>
    work_thread (i2c_worker i2c_engine i2c_lib) p u = Inr ((), v) \<and> work_done (AfterI2CWork i2c_engine) p 0 v = Inr ((), w)"
  using i2c_open_correct[OF i2c_state_inv, of "JFunction 9" "''/dev/i2c-1''" "JObject 7" i2c_lib] by (simp; metis)

theorem i2c_read_block_overreads_witness:
  "\<exists>u p. JHANDLER_FUNCTION (ReadBlock i2c_engine) (JObject 7) [JNumber (num 1), JNumber (num 40), JNumber (num 0), JFunction 9] i2c_state =
      Inr ((False, JNull), u) \<and> work_thread (i2c_worker i2c_engine i2c_lib) p u = Inl (OutOfBounds ''data'')"
  using i2c_read_block_overreads[OF i2c_engine_law i2c_state_inv, of "JFunction 9" 1 40 0 "JObject 7"] by (simp add: in_int32_def; metis)

end
